(* ===== verification/Prelude.thy ===== *)
theory Prelude
  imports Main "HOL-Library.Word"
begin

text \<open>
  Shared vocabulary of the development: the result type of C code that may stop, the combinators
  that sequence such code, C loops that scan an array for a slot, and the generic facts on lists,
  function updates and words on which the component theories rely.
\<close>

unbundle bit_operations_syntax

section \<open>Machine types\<close>

type_synonym u8 = "8 word"
type_synonym u16 = "16 word"
type_synonym u32 = "32 word"
type_synonym u64 = "64 word"

section \<open>Results of C code\<close>

text \<open>
  A call either returns or stops the machine for one of these reasons.  \<open>AssertFail\<close> is a failed
  \<^verbatim>\<open>assert\<close> (klib.h, which prints and halts), \<open>Halted\<close> a call of \<^verbatim>\<open>panic\<close> or \<^verbatim>\<open>_halt\<close>,
  \<open>NullDeref\<close> an access through a null pointer, \<open>OutOfBounds\<close> an access outside its array,
  \<open>DivZero\<close> a division by zero, \<open>Spin\<close> a busy wait that only another processor can end, \<open>Blocked\<close> a wait
  for a semaphore that puts the caller to sleep, \<open>Diverge\<close> a loop that never ends,
  \<open>BadJump\<close> a \<^verbatim>\<open>longjmp\<close> into a call that has returned.
\<close>

datatype fault = AssertFail | Halted | NullDeref | OutOfBounds | DivZero | Spin | Blocked | Diverge | BadJump

type_synonym 'a res = "fault + 'a"

definition bindE :: "'a res \<Rightarrow> ('a \<Rightarrow> 'b res) \<Rightarrow> 'b res" where
  "bindE m f = (case m of Inl e \<Rightarrow> Inl e | Inr x \<Rightarrow> f x)"

definition assertE :: "bool \<Rightarrow> unit res" where
  "assertE b = (if b then Inr () else Inl AssertFail)"

definition guardE :: "fault \<Rightarrow> bool \<Rightarrow> unit res" where
  "guardE e b = (if b then Inr () else Inl e)"

text \<open>Facts that invert a successful run of sequenced code.\<close>

named_theorems res_iff

lemma bindE_simps [simp]:
  "bindE (Inl e) f = Inl e"
  "bindE (Inr x) f = f x"
  by (simp_all add: bindE_def)

lemma bindE_Inr_iff [res_iff]:
  "bindE m f = Inr y \<longleftrightarrow> (\<exists>x. m = Inr x \<and> f x = Inr y)"
  by (cases m) auto

lemma bindE_Inl_iff:
  "bindE m f = Inl e \<longleftrightarrow> m = Inl e \<or> (\<exists>x. m = Inr x \<and> f x = Inl e)"
  by (cases m) auto

lemma bindE_assoc: "bindE (bindE m f) g = bindE m (\<lambda>x. bindE (f x) g)"
  by (cases m) auto

lemma bindE_cong [fundef_cong]:
  "m = m' \<Longrightarrow> (\<And>x. m' = Inr x \<Longrightarrow> f x = f' x) \<Longrightarrow> bindE m f = bindE m' f'"
  by (cases m') auto

lemma assertE_True [simp]: "assertE True = Inr ()"
  by (simp add: assertE_def)

lemma assertE_False [simp]: "assertE False = Inl AssertFail"
  by (simp add: assertE_def)

lemma assertE_Inr_iff [res_iff]: "assertE b = Inr u \<longleftrightarrow> b"
  by (simp add: assertE_def)

lemma guardE_True [simp]: "guardE e True = Inr ()"
  by (simp add: guardE_def)

lemma guardE_False [simp]: "guardE e False = Inl e"
  by (simp add: guardE_def)

lemma guardE_Inr_iff [res_iff]: "guardE e b = Inr u \<longleftrightarrow> b"
  by (simp add: guardE_def)

section \<open>Naive locks in straight-line code\<close>

text \<open>
  \<^verbatim>\<open>naivelock_lock\<close> of \<^verbatim>\<open>common.h\<close> exchanges until it reads \<^verbatim>\<open>UNLOCKED\<close>.  Code that runs alone gets
  a free lock at once and spins on a taken one; the theory of locks treats the interleavings.
\<close>

datatype lock_state = UNLOCKED | LOCKED

definition naivelock_lock :: "lock_state \<Rightarrow> lock_state res" where
  "naivelock_lock l = (if l = UNLOCKED then Inr LOCKED else Inl Spin)"

definition naivelock_unlock :: "lock_state \<Rightarrow> lock_state" where
  "naivelock_unlock l = UNLOCKED"

section \<open>Scanning an array for a slot\<close>

text \<open>
  The loop \<^verbatim>\<open>for (i = lo; i < hi; i++) if (P(i)) return i;\<close>, which the sources repeat for every
  table (memory blocks, vinodes, files, filesystems, database cells): the first index that
  satisfies the test, or \<open>None\<close> when the loop runs off the end.
\<close>

function first_idx :: "(nat \<Rightarrow> bool) \<Rightarrow> nat \<Rightarrow> nat \<Rightarrow> nat option" where
  "first_idx P lo hi =
     (if lo < hi then (if P lo then Some lo else first_idx P (Suc lo) hi) else None)"
  by pat_completeness auto
termination
  by (relation "measure (\<lambda>(P, lo, hi). hi - lo)") auto

declare first_idx.simps [simp del]

lemma first_idx_SomeD:
  "first_idx P lo hi = Some k \<Longrightarrow>
     lo \<le> k \<and> k < hi \<and> P k \<and> (\<forall>j. lo \<le> j \<and> j < k \<longrightarrow> \<not> P j)"
proof (induction P lo hi rule: first_idx.induct)
  case (1 P lo hi)
  show ?case
  proof (cases "lo < hi \<and> \<not> P lo")
    case True
    with "1.prems" have "first_idx P (Suc lo) hi = Some k"
      by (simp add: first_idx.simps [of P lo hi])
    with True "1.IH" have "Suc lo \<le> k \<and> k < hi \<and> P k \<and> (\<forall>j. Suc lo \<le> j \<and> j < k \<longrightarrow> \<not> P j)"
      by simp
    with True show ?thesis by (metis Suc_leD Suc_leI le_neq_implies_less)
  next
    case False
    with "1.prems" show ?thesis
      by (auto simp: first_idx.simps [of P lo hi] split: if_splits)
  qed
qed

lemma first_idx_None_iff: "first_idx P lo hi = None \<longleftrightarrow> (\<forall>j. lo \<le> j \<and> j < hi \<longrightarrow> \<not> P j)"
proof (induction P lo hi rule: first_idx.induct)
  case (1 P lo hi)
  show ?case
  proof (cases "lo < hi \<and> \<not> P lo")
    case True
    then have "first_idx P lo hi = first_idx P (Suc lo) hi"
      by (simp add: first_idx.simps [of P lo hi])
    with True "1.IH" show ?thesis by (metis Suc_leD Suc_leI le_neq_implies_less)
  next
    case False
    then show ?thesis by (auto simp: first_idx.simps [of P lo hi])
  qed
qed

lemma first_idx_ex: "lo \<le> k \<Longrightarrow> k < hi \<Longrightarrow> P k \<Longrightarrow> \<exists>j. first_idx P lo hi = Some j"
  using first_idx_None_iff [of P lo hi] by (cases "first_idx P lo hi") auto

lemma first_idx_eqI:
  assumes "lo \<le> k" and "k < hi" and "P k" and "\<And>j. lo \<le> j \<Longrightarrow> j < k \<Longrightarrow> \<not> P j"
  shows "first_idx P lo hi = Some k"
proof -
  obtain j where j: "first_idx P lo hi = Some j"
    using assms(1-3) first_idx_ex by blast
  from first_idx_SomeD [OF j] assms have "j = k"
    by (metis linorder_neqE_nat)
  with j show ?thesis by simp
qed

section \<open>Words\<close>

lemma sint_of_nat_u32: "n < 2 ^ 31 \<Longrightarrow> sint (of_nat n :: u32) = int n"
  by (simp add: signed_of_nat signed_take_bit_int_eq_self)

lemma unat_of_nat_u32: "n < 2 ^ 32 \<Longrightarrow> unat (of_nat n :: u32) = n"
  by (simp add: unsigned_of_nat take_bit_nat_eq_self)

lemma unat_pow_u32: "k < 32 \<Longrightarrow> unat ((2::u32) ^ k) = 2 ^ k"
  using unat_of_nat_u32 [of "2 ^ k"] power_strict_increasing [of k 32 "2::nat"] by simp

end
