(* ===== verification/Klib_String.thy ===== *)
theory Klib_String
  imports Prelude
begin

text \<open>
  \<^verbatim>\<open>libs/klib/src/string.c\<close>: the string and memory routines every other part of the kernel calls.
  Memory is a function from addresses to characters and a pointer is an address, so overlapping
  arguments behave as in C.  A routine that walks to a terminating zero need not return; its result
  is an \<open>option\<close>, with \<open>None\<close> for a walk that never ends.  The second half relates each routine to
  the character lists the other theories compute with.
\<close>

section \<open>Memory, characters and the routines\<close>

type_synonym addr = int
type_synonym mem = "addr \<Rightarrow> char"

abbreviation NUL :: char where
  "NUL \<equiv> CHR 0x00"

text \<open>The type \<^verbatim>\<open>char\<close> is signed on the machines the kernel runs on.\<close>

definition cval :: "char \<Rightarrow> int" where
  "cval c = (let v = of_char c in if v < 128 then v else v - 256)"

partial_function (option) strlen_loop :: "mem \<Rightarrow> addr \<Rightarrow> nat \<Rightarrow> nat option" where
  "strlen_loop m s len =
     (if m s \<noteq> NUL then strlen_loop m (s + 1) (len + 1) else Some len)"

definition strlen :: "mem \<Rightarrow> addr \<Rightarrow> nat option" where
  "strlen m s = strlen_loop m s 0"

partial_function (option) copy_loop :: "mem \<Rightarrow> addr \<Rightarrow> addr \<Rightarrow> mem option" where
  "copy_loop m dst src =
     (if m src \<noteq> NUL then copy_loop (m(dst := m src)) (dst + 1) (src + 1)
      else Some (m(dst := NUL)))"

definition strcpy :: "mem \<Rightarrow> addr \<Rightarrow> addr \<Rightarrow> mem option" where
  "strcpy m dst src = copy_loop m dst src"

fun strncpy :: "mem \<Rightarrow> addr \<Rightarrow> addr \<Rightarrow> nat \<Rightarrow> mem" where
  "strncpy m dst src 0 = m"
| "strncpy m dst src (Suc n) =
     (if m src \<noteq> NUL then strncpy (m(dst := m src)) (dst + 1) (src + 1) n
      else m(dst := NUL))"

partial_function (option) seek_end :: "mem \<Rightarrow> addr \<Rightarrow> addr option" where
  "seek_end m dst = (if m dst \<noteq> NUL then seek_end m (dst + 1) else Some dst)"

definition strcat :: "mem \<Rightarrow> addr \<Rightarrow> addr \<Rightarrow> mem option" where
  "strcat m dst src = (case seek_end m dst of None \<Rightarrow> None | Some d \<Rightarrow> copy_loop m d src)"

definition cmp_char :: "char \<Rightarrow> char \<Rightarrow> int" where
  "cmp_char a b = (if cval a < cval b then -1 else if cval a > cval b then 1 else 0)"

partial_function (option) strcmp :: "mem \<Rightarrow> addr \<Rightarrow> addr \<Rightarrow> int option" where
  "strcmp m s1 s2 =
     (if m s1 = m s2 \<and> m s1 \<noteq> NUL then strcmp m (s1 + 1) (s2 + 1)
      else Some (cmp_char (m s1) (m s2)))"

fun strncmp :: "mem \<Rightarrow> addr \<Rightarrow> addr \<Rightarrow> nat \<Rightarrow> int" where
  "strncmp m s1 s2 0 = 0"
| "strncmp m s1 s2 (Suc n) =
     (if m s1 = m s2 \<and> m s1 \<noteq> NUL then strncmp m (s1 + 1) (s2 + 1) n
      else cmp_char (m s1) (m s2))"

fun memset_loop :: "mem \<Rightarrow> addr \<Rightarrow> char \<Rightarrow> nat \<Rightarrow> mem" where
  "memset_loop m tv tc 0 = m"
| "memset_loop m tv tc (Suc n) = memset_loop (m(tv := tc)) (tv + 1) tc n"

definition memset :: "mem \<Rightarrow> addr \<Rightarrow> int \<Rightarrow> nat \<Rightarrow> mem" where
  "memset m v c n = memset_loop m v (char_of (nat (c mod 256))) n"

fun memcpy :: "mem \<Rightarrow> addr \<Rightarrow> addr \<Rightarrow> nat \<Rightarrow> mem" where
  "memcpy m dest src 0 = m"
| "memcpy m dest src (Suc n) = memcpy (m(dest := m src)) (dest + 1) (src + 1) n"

fun memcmp :: "mem \<Rightarrow> addr \<Rightarrow> addr \<Rightarrow> nat \<Rightarrow> int" where
  "memcmp m s1 s2 0 = 0"
| "memcmp m s1 s2 (Suc n) =
     (if m s1 = m s2 then memcmp m (s1 + 1) (s2 + 1) n else cmp_char (m s1) (m s2))"

text \<open>The second branch of \<^verbatim>\<open>memmove\<close>, which copies from the last byte down.\<close>

fun copy_down :: "mem \<Rightarrow> addr \<Rightarrow> addr \<Rightarrow> nat \<Rightarrow> mem" where
  "copy_down m dest src 0 = m"
| "copy_down m dest src (Suc n) = copy_down (m(dest := m src)) (dest - 1) (src - 1) n"

definition memmove :: "mem \<Rightarrow> addr \<Rightarrow> addr \<Rightarrow> nat \<Rightarrow> mem" where
  "memmove m dest src n =
     (if src > dest then memcpy m dest src n
      else if src < dest then copy_down m (dest + int n - 1) (src + int n - 1) n
      else m)"

section \<open>C strings as character lists\<close>

definition cstr :: "mem \<Rightarrow> addr \<Rightarrow> string \<Rightarrow> bool" where
  "cstr m a s \<longleftrightarrow> NUL \<notin> set s \<and> (\<forall>i < length s. m (a + int i) = s ! i) \<and> m (a + int (length s)) = NUL"

text \<open>Comparison of character lists: what \<^verbatim>\<open>strcmp\<close> and \<^verbatim>\<open>strncmp\<close> compute.\<close>

fun strcmp_list :: "string \<Rightarrow> string \<Rightarrow> int" where
  "strcmp_list [] [] = 0"
| "strcmp_list [] (y # ys) = cmp_char NUL y"
| "strcmp_list (x # xs) [] = cmp_char x NUL"
| "strcmp_list (x # xs) (y # ys) = (if x = y then strcmp_list xs ys else cmp_char x y)"

definition strncmp_list :: "string \<Rightarrow> string \<Rightarrow> nat \<Rightarrow> int" where
  "strncmp_list s t n = strcmp_list (take n s) (take n t)"

definition disjoint_range :: "addr \<Rightarrow> nat \<Rightarrow> addr \<Rightarrow> nat \<Rightarrow> bool" where
  "disjoint_range a n b k \<longleftrightarrow> a + int n \<le> b \<or> b + int k \<le> a"

lemma cstr_Nil [simp]: "cstr m a [] \<longleftrightarrow> m a = NUL"
  by (simp add: cstr_def)

lemma cstr_Cons [simp]: "cstr m a (c # s) \<longleftrightarrow> c \<noteq> NUL \<and> m a = c \<and> cstr m (a + 1) s"
proof -
  have "(\<forall>i < Suc (length s). m (a + int i) = (c # s) ! i) \<longleftrightarrow>
        m a = c \<and> (\<forall>i < length s. m (a + 1 + int i) = s ! i)"
    by (subst All_less_Suc2) (simp add: algebra_simps)
  then show ?thesis by (auto simp: cstr_def algebra_simps)
qed

lemma cval_inject [simp]: "cval a = cval b \<longleftrightarrow> a = b"
proof
  assume eq: "cval a = cval b"
  have bounds: "(of_char c :: int) < 256 \<and> 0 \<le> (of_char c :: int)" for c
    using pos_mod_bound [of 256 "of_char c :: int"] pos_mod_sign [of 256 "of_char c :: int"]
    by simp
  have "(of_char a :: int) = of_char b"
    using eq bounds [of a] bounds [of b] by (auto simp: cval_def Let_def split: if_splits)
  then show "a = b" by simp
qed simp

lemma cmp_char_eq_0 [simp]: "cmp_char a b = 0 \<longleftrightarrow> a = b"
  by (auto simp: cmp_char_def linorder_neq_iff cval_inject [symmetric] simp del: cval_inject)

lemma cmp_char_sgn: "cmp_char a b = sgn (cval a - cval b)"
  by (simp add: cmp_char_def sgn_if)

lemma cmp_char_refl [simp]: "cmp_char a a = 0"
  by simp

subsection \<open>Length, end and copy\<close>

lemma strlen_loop_cstr: "cstr m a s \<Longrightarrow> strlen_loop m a k = Some (k + length s)"
  by (induction s arbitrary: a k) (simp_all add: strlen_loop.simps)

lemma seek_end_cstr: "cstr m a s \<Longrightarrow> seek_end m a = Some (a + int (length s))"
  by (induction s arbitrary: a) (simp_all add: seek_end.simps)

lemma strlen_loop_SomeD:
  assumes "strlen_loop m a k = Some n"
  shows "k \<le> n \<and> (\<exists>s. cstr m a s \<and> n = k + length s)"
proof (rule strlen_loop.raw_induct
    [where P = "\<lambda>m a k n. k \<le> n \<and> (\<exists>s. cstr m a s \<and> n = k + length s)", OF _ assms])
  fix f and m :: mem and a k n
  assume IH: "\<And>m a k n. f m a k = Some n \<Longrightarrow> k \<le> n \<and> (\<exists>s. cstr m a s \<and> n = k + length s)"
    and eq: "(if m a \<noteq> NUL then f m (a + 1) (k + 1) else Some k) = Some n"
  show "k \<le> n \<and> (\<exists>s. cstr m a s \<and> n = k + length s)"
  proof (cases "m a = NUL")
    case True
    with eq show ?thesis by (auto intro!: exI [of _ "[]"])
  next
    case False
    with eq obtain s where "cstr m (a + 1) s" and "n = k + 1 + length s"
      using IH by fastforce
    with False show ?thesis by (auto intro!: exI [of _ "m a # s"])
  qed
qed

lemma cstr_upd_other:
  "cstr m a s \<Longrightarrow> x < a \<or> a + int (length s) < x \<Longrightarrow> cstr (m(x := c)) a s"
  by (auto simp: cstr_def)

lemma copy_loop_cstr:
  assumes "cstr m src s" and "disjoint_range dst (length s + 1) src (length s + 1)"
  shows "\<exists>m'. copy_loop m dst src = Some m' \<and> cstr m' dst s \<and>
           (\<forall>x. x < dst \<or> dst + int (length s) < x \<longrightarrow> m' x = m x)"
  using assms
proof (induction s arbitrary: m dst src)
  case Nil
  then show ?case by (simp add: copy_loop.simps)
next
  case (Cons c s)
  let ?m = "m(dst := c)"
  from Cons.prems have "cstr ?m (src + 1) s" and "disjoint_range (dst + 1) (length s + 1) (src + 1) (length s + 1)"
    by (auto intro!: cstr_upd_other simp: disjoint_range_def)
  from Cons.IH [OF this] obtain m' where m': "copy_loop ?m (dst + 1) (src + 1) = Some m'"
    and str: "cstr m' (dst + 1) s"
    and frame: "\<forall>x. x < dst + 1 \<or> dst + 1 + int (length s) < x \<longrightarrow> m' x = ?m x"
    by blast
  from Cons.prems m' have "copy_loop m dst src = Some m'"
    by (subst copy_loop.simps) simp
  moreover have "m' dst = c" using frame by simp
  ultimately show ?case using Cons.prems str frame by auto
qed

subsection \<open>Comparison\<close>

lemma strcmp_list_eq_0:
  "NUL \<notin> set s \<Longrightarrow> NUL \<notin> set t \<Longrightarrow> strcmp_list s t = 0 \<longleftrightarrow> s = t"
  by (induction s t rule: strcmp_list.induct) auto

lemma strcmp_list_swap: "strcmp_list t s = - strcmp_list s t"
  by (induction s t rule: strcmp_list.induct) (auto simp: cmp_char_def)

lemma strcmp_list_lexord:
  "NUL \<notin> set s \<Longrightarrow> NUL \<notin> set t \<Longrightarrow>
     strcmp_list s t = -1 \<longleftrightarrow>
     (map cval (s @ [NUL]), map cval (t @ [NUL])) \<in> lexord {(x, y). x < y}"
  by (induction s t rule: strcmp_list.induct) (auto simp: cmp_char_def)

lemma cstr_not_NUL: "cstr m a s \<Longrightarrow> NUL \<notin> set s"
  by (simp add: cstr_def)

lemma strcmp_cstr:
  "cstr m a s \<Longrightarrow> cstr m b t \<Longrightarrow> strcmp m a b = Some (strcmp_list s t)"
proof (induction s t arbitrary: a b rule: strcmp_list.induct)
  case (4 x xs y ys)
  then show ?case by (auto simp: strcmp.simps [of m a b])
qed (auto simp: strcmp.simps)

lemma strncmp_cstr:
  "cstr m a s \<Longrightarrow> cstr m b t \<Longrightarrow> strncmp m a b n = strncmp_list s t n"
proof (induction n arbitrary: a b s t)
  case 0
  then show ?case by (simp add: strncmp_list_def)
next
  case (Suc n)
  then show ?case
    by (cases s; cases t) (auto simp: strncmp_list_def)
qed

lemma strncmp_list_eq_0:
  "NUL \<notin> set s \<Longrightarrow> NUL \<notin> set t \<Longrightarrow> strncmp_list s t n = 0 \<longleftrightarrow> take n s = take n t"
  unfolding strncmp_list_def
  by (rule strcmp_list_eq_0) (auto dest: in_set_takeD)

subsection \<open>Block copies\<close>

text \<open>\<open>moved m d s n\<close> is what a copy of \<open>n\<close> bytes from \<open>s\<close> to \<open>d\<close> should leave in memory.\<close>

definition moved :: "mem \<Rightarrow> addr \<Rightarrow> addr \<Rightarrow> nat \<Rightarrow> mem" where
  "moved m dest src n = (\<lambda>x. if dest \<le> x \<and> x < dest + int n then m (src + (x - dest)) else m x)"

lemma memcpy_moved:
  "dest \<le> src \<or> src + int n \<le> dest \<Longrightarrow> memcpy m dest src n = moved m dest src n"
proof (induction n arbitrary: m dest src)
  case 0
  then show ?case by (auto simp: moved_def fun_eq_iff)
next
  case (Suc n)
  then have "memcpy (m(dest := m src)) (dest + 1) (src + 1) n =
      moved (m(dest := m src)) (dest + 1) (src + 1) n"
    by (intro Suc.IH) auto
  also have "\<dots> = moved m dest src (Suc n)"
    using Suc.prems by (auto simp: moved_def fun_eq_iff)
  finally show ?case by simp
qed

lemma copy_down_moved:
  "src \<le> dest \<Longrightarrow>
     copy_down m (dest + int n - 1) (src + int n - 1) n = moved m dest src n"
proof (induction n arbitrary: m)
  case 0
  then show ?case by (auto simp: moved_def fun_eq_iff)
next
  case (Suc n)
  let ?m = "m(dest + int n := m (src + int n))"
  have "copy_down m (dest + int (Suc n) - 1) (src + int (Suc n) - 1) (Suc n) =
      copy_down ?m (dest + int n - 1) (src + int n - 1) n"
    by simp
  also have "\<dots> = moved ?m dest src n" using Suc by blast
  also have "\<dots> = moved m dest src (Suc n)"
    using Suc.prems by (auto simp: moved_def fun_eq_iff)
  finally show ?case .
qed

lemma memset_loop_eq:
  "memset_loop m v c n = (\<lambda>x. if v \<le> x \<and> x < v + int n then c else m x)"
  by (induction n arbitrary: m v) (auto simp: fun_eq_iff)

lemma memcmp_eq_0: "memcmp m a b n = 0 \<longleftrightarrow> (\<forall>i < n. m (a + int i) = m (b + int i))"
proof (induction n arbitrary: a b)
  case (Suc n)
  have "(\<forall>i < Suc n. m (a + int i) = m (b + int i)) \<longleftrightarrow>
      m a = m b \<and> (\<forall>i < n. m (a + 1 + int i) = m (b + 1 + int i))"
    by (subst All_less_Suc2) (simp add: algebra_simps)
  with Suc show ?case by simp
qed simp

section \<open>Properties\<close>

text \<open>
  \<^verbatim>\<open>memmove\<close> is a copy for every overlap of its arguments: each byte of the destination holds
  what the source held before the call and every other byte keeps its value.
\<close>

theorem memmove_correct: "memmove m dest src n = moved m dest src n"
proof -
  consider "src > dest" | "src < dest" | "src = dest" by linarith
  then show ?thesis
  proof cases
    case 1
    then show ?thesis by (simp add: memmove_def memcpy_moved)
  next
    case 2
    then show ?thesis by (simp add: memmove_def copy_down_moved)
  next
    case 3
    then show ?thesis by (auto simp: memmove_def moved_def fun_eq_iff)
  qed
qed

text \<open>
  \<^verbatim>\<open>strcpy\<close> from a string to a destination that does not overlap it returns, leaves the
  string at the destination and changes no byte beyond the destination's terminating zero.
\<close>

theorem strcpy_correct:
  assumes "cstr m src s" and "disjoint_range dst (length s + 1) src (length s + 1)"
  shows "\<exists>m'. strcpy m dst src = Some m' \<and> cstr m' dst s \<and> cstr m' src s \<and>
           (\<forall>x. x < dst \<or> dst + int (length s) < x \<longrightarrow> m' x = m x)"
proof -
  from copy_loop_cstr [OF assms] obtain m' where m': "copy_loop m dst src = Some m'" "cstr m' dst s"
    and frame: "\<forall>x. x < dst \<or> dst + int (length s) < x \<longrightarrow> m' x = m x"
    by blast
  have "cstr m' src s"
    using assms frame by (auto simp: cstr_def disjoint_range_def)
  with m' frame show ?thesis by (auto simp: strcpy_def)
qed

definition mem_of :: "string \<Rightarrow> mem" where
  "mem_of s = (\<lambda>x. if 0 \<le> x \<and> x < int (length s) then s ! nat x else NUL)"

theorem strcpy_correct_witness:
  "\<exists>m'. strcpy (mem_of ''ls'') 8 0 = Some m' \<and> cstr m' 8 ''ls'' \<and> cstr m' 0 ''ls'' \<and>
     (\<forall>x. x < 8 \<or> 8 + int (length ''ls'') < x \<longrightarrow> m' x = mem_of ''ls'' x)"
  by (rule strcpy_correct) (simp_all add: mem_of_def disjoint_range_def)

text \<open>
  On strings \<open>s\<close> and \<open>t\<close>, \<^verbatim>\<open>strcmp\<close> returns; the result is \<open>0\<close> exactly for equal strings
  and \<open>-1\<close> exactly when \<open>s\<close>, with its terminating zero, precedes \<open>t\<close> in the lexicographic order of
  the signed character values; \<^verbatim>\<open>strncmp\<close> compares the prefixes of length \<open>n\<close> the same way.
\<close>

theorem strcmp_correct:
  assumes "cstr m a s" and "cstr m b t"
  shows "\<exists>r. strcmp m a b = Some r \<and> r \<in> {-1, 0, 1} \<and> (r = 0 \<longleftrightarrow> s = t) \<and>
           (r = -1 \<longleftrightarrow> (map cval (s @ [NUL]), map cval (t @ [NUL])) \<in> lexord {(x, y). x < y}) \<and>
           (strncmp m a b n = 0 \<longleftrightarrow> take n s = take n t)"
proof -
  have "strcmp_list s t \<in> {-1, 0, 1}"
    by (induction s t rule: strcmp_list.induct) (auto simp: cmp_char_def)
  moreover have nonul: "NUL \<notin> set s" "NUL \<notin> set t"
    using assms by (auto dest: cstr_not_NUL)
  ultimately show ?thesis
    using strcmp_cstr [OF assms] strncmp_cstr [OF assms] strcmp_list_eq_0 [OF nonul]
      strncmp_list_eq_0 [OF nonul] strcmp_list_lexord [OF nonul]
    by (intro exI [of _ "strcmp_list s t"]) metis
qed

theorem strcmp_correct_witness:
  "\<exists>r. strcmp ((mem_of ''cat'')(9 := CHR ''c'')) 0 9 = Some r \<and> r \<in> {-1, 0, 1} \<and>
     (r = 0 \<longleftrightarrow> ''cat'' = ''c'') \<and>
     (r = -1 \<longleftrightarrow> (map cval (''cat'' @ [NUL]), map cval (''c'' @ [NUL])) \<in> lexord {(x, y). x < y}) \<and>
     (strncmp ((mem_of ''cat'')(9 := CHR ''c'')) 0 9 1 = 0 \<longleftrightarrow> take 1 ''cat'' = take 1 ''c'')"
  by (rule strcmp_correct) (simp_all add: mem_of_def)

end
