(* ===== verification/Klib_Stdio.thy ===== *)
theory Klib_Stdio
  imports Klib_String
begin

text \<open>
  \<^verbatim>\<open>libs/klib/src/stdio.c\<close> and \<^verbatim>\<open>stdlib.c\<close>: formatted output and the random generator.  A call of
  \<^verbatim>\<open>vsprintf\<close> is modelled by the characters it stores in front of the terminating zero, so that its
  return value is their number.  \<^verbatim>\<open>long\<close> has 32 bits on the kernel's target.
\<close>

section \<open>number\<close>

definition ZEROPAD :: u32 where
  "ZEROPAD = 1"

definition SIGN :: u32 where
  "SIGN = 2"

definition digit :: "nat \<Rightarrow> char" where
  "digit k = ''0123456789abcdef'' ! k"

text \<open>
  The loop that fills \<^verbatim>\<open>tmp\<close>, least significant digit first.  The assertion in \<^verbatim>\<open>number\<close> leaves
  only the bases 10 and 16, for which the quotient decreases.
\<close>

function num_digits :: "u32 \<Rightarrow> u32 \<Rightarrow> string" where
  "num_digits num base =
     (if num = 0 \<or> unat base < 2 then []
      else digit (unat (num mod base)) # num_digits (num div base) base)"
  by pat_completeness auto
termination
proof (relation "measure (\<lambda>(num, base). unat num)")
  fix num base :: u32
  assume "\<not> (num = 0 \<or> unat base < 2)"
  then have "0 < unat num" and "1 < unat base"
    by (simp_all add: unat_gt_0)
  then show "((num div base, base), (num, base)) \<in> measure (\<lambda>(num, base). unat num)"
    by (simp add: unat_div)
qed simp

declare num_digits.simps [simp del]

definition number :: "u32 \<Rightarrow> u32 \<Rightarrow> u32 \<Rightarrow> int \<Rightarrow> string res" where
  "number num base flags len =
     bindE (assertE (base = 10 \<or> base = 16)) (\<lambda>_.
       let neg = (flags AND SIGN \<noteq> 0 \<and> sint num < 0);
           num = (if neg then - num else num);
           tmp = (if num = 0 then ''0'' else num_digits num base);
           pad = (if flags AND ZEROPAD \<noteq> 0 then CHR ''0'' else CHR '' '')
       in Inr ((if neg then ''-'' else []) @ replicate (nat (len - int (length tmp))) pad @ rev tmp))"

section \<open>vsprintf and its callers\<close>

text \<open>A variadic argument: an integer of the size of \<^verbatim>\<open>long\<close> or a pointer to a string.\<close>

datatype va = VInt u32 | VStr string

definition is_digit :: "char \<Rightarrow> bool" where
  "is_digit c \<longleftrightarrow> c \<in> set ''0123456789''"

definition dval :: "char \<Rightarrow> int" where
  "dval c = cval c - cval (CHR ''0'')"

text \<open>The width is an \<^verbatim>\<open>int\<close>, which wraps.\<close>

definition fmt_length :: "string \<Rightarrow> int" where
  "fmt_length ds = foldl (\<lambda>l c. sint (word_of_int (l * 10 + dval c) :: u32)) 0 ds"

text \<open>The branches of the conversion switch; \<open>t\<close> is the character at \<^verbatim>\<open>*fmt\<close>.\<close>

definition conv :: "char \<Rightarrow> u32 \<Rightarrow> int \<Rightarrow> va \<Rightarrow> string res" where
  "conv t flags len a =
     (if t = CHR ''s'' then
        (case a of
           VStr s \<Rightarrow> Inr (s @ replicate (nat (len - int (length s)))
                            (if flags AND ZEROPAD \<noteq> 0 then CHR ''0'' else CHR '' ''))
         | VInt _ \<Rightarrow> Inl OutOfBounds)
      else
        (case a of
           VStr _ \<Rightarrow> Inl OutOfBounds
         | VInt n \<Rightarrow>
             (if t = CHR ''c'' then Inr [char_of (unat n mod 256)]
              else number n (if t = CHR ''x'' then 16 else 10)
                     (if t = CHR ''d'' then flags OR SIGN else flags) len)))"

text \<open>
  The loop over the format.  A format that ends inside a conversion makes the loop step over the
  terminating zero, and a conversion without an argument reads past the argument list.
\<close>

function vsprintf :: "string \<Rightarrow> va list \<Rightarrow> string res" where
  "vsprintf [] ap = Inr []"
| "vsprintf (c # fmt) ap =
     (if c \<noteq> CHR ''%'' then bindE (vsprintf fmt ap) (\<lambda>out. Inr (c # out))
      else
        let flags = (if takeWhile (\<lambda>c. c = CHR ''0'') fmt \<noteq> [] then ZEROPAD else 0);
            fmt = dropWhile (\<lambda>c. c = CHR ''0'') fmt;
            len = fmt_length (takeWhile is_digit fmt);
            fmt = dropWhile is_digit fmt
        in (case fmt of
              [] \<Rightarrow> Inl OutOfBounds
            | t # rest \<Rightarrow>
                (case ap of
                   [] \<Rightarrow> Inl OutOfBounds
                 | a # ap' \<Rightarrow>
                     bindE (conv t flags len a) (\<lambda>s.
                     bindE (vsprintf rest ap') (\<lambda>out. Inr (s @ out))))))"
  by pat_completeness auto
termination
proof (relation "measure (\<lambda>(fmt, ap). length fmt)")
  fix c fmt and ap :: "va list" and fl fmt1 ln fmt2 t rest a ap' s
  assume "fmt1 = dropWhile (\<lambda>c. c = CHR ''0'') fmt" and "fmt2 = dropWhile is_digit fmt1"
    and "fmt2 = t # rest"
  then have "length (t # rest) \<le> length fmt"
    by (metis length_dropWhile_le le_trans)
  then show "((rest, ap'), (c # fmt, ap)) \<in> measure (\<lambda>(fmt, ap). length fmt)"
    by simp
qed auto

text \<open>\<^verbatim>\<open>sprintf\<close> returns the number of characters it stored.\<close>

definition sprintf :: "string \<Rightarrow> va list \<Rightarrow> (nat \<times> string) res" where
  "sprintf fmt ap = bindE (vsprintf fmt ap) (\<lambda>out. Inr (length out, out))"

definition PRINTF_BUF_SIZE :: nat where
  "PRINTF_BUF_SIZE = 512"

text \<open>
  \<^verbatim>\<open>printf\<close> formats into a buffer of fixed size and prints up to the first zero.  The assertion on
  the length follows the stores, so that a longer text has already left the buffer.
\<close>

definition printf :: "string \<Rightarrow> va list \<Rightarrow> (nat \<times> string) res" where
  "printf fmt ap =
     bindE (vsprintf fmt ap) (\<lambda>out.
     bindE (guardE OutOfBounds (length out < PRINTF_BUF_SIZE)) (\<lambda>_.
     Inr (length out, takeWhile (\<lambda>c. c \<noteq> NUL) out)))"

definition snprintf :: "nat \<Rightarrow> string \<Rightarrow> va list \<Rightarrow> (nat \<times> string) res" where
  "snprintf n fmt ap = Inl AssertFail"

section \<open>rand\<close>

definition rand :: "u32 \<Rightarrow> nat \<times> u32" where
  "rand nxt = (let nxt = nxt * 1103515245 + 12345 in (unat (nxt div 65536) mod 32768, nxt))"

definition srand :: "u32 \<Rightarrow> u32" where
  "srand seed = seed"

section \<open>Reading numbers back\<close>

text \<open>The value of a numeral, as a reader of the output would compute it.\<close>

definition hexval :: "char \<Rightarrow> nat" where
  "hexval c = nat (if is_digit c then dval c else cval c - cval (CHR ''a'') + 10)"

definition scan_nat :: "nat \<Rightarrow> string \<Rightarrow> nat" where
  "scan_nat b s = foldl (\<lambda>v c. v * b + hexval c) 0 s"

definition scan_int :: "string \<Rightarrow> int" where
  "scan_int s = (case s of
     [] \<Rightarrow> 0
   | c # cs \<Rightarrow> (if c = CHR ''-'' then - int (scan_nat 10 cs) else int (scan_nat 10 s)))"

lemma digit_table: "list_all (\<lambda>k. hexval (digit k) = k \<and> digit k \<noteq> CHR ''-'') [0..<16]"
  by code_simp

lemma hexval_digit: "k < 16 \<Longrightarrow> hexval (digit k) = k"
  and digit_neq_minus: "k < 16 \<Longrightarrow> digit k \<noteq> CHR ''-''"
  using digit_table by (auto simp: list_all_iff)

lemma num_digits_scan:
  assumes "unat base \<in> {2..16}"
  shows "scan_nat (unat base) (rev (num_digits n base)) = unat n"
  using assms
proof (induction n base rule: num_digits.induct)
  case (1 n base)
  show ?case
  proof (cases "n = 0")
    case False
    have "unat n mod unat base < unat base"
      using "1.prems" by (intro mod_less_divisor) simp
    with "1.prems" have lt: "unat (n mod base) < 16"
      unfolding unat_mod by (meson atLeastAtMost_iff less_le_trans)
    have "scan_nat (unat base) (rev (num_digits n base)) =
        scan_nat (unat base) (rev (num_digits (n div base) base)) * unat base + unat (n mod base)"
      using False 1 lt by (simp add: num_digits.simps [of n base] scan_nat_def hexval_digit)
    also have "\<dots> = unat n"
      using False 1 by (simp add: unat_div unat_mod)
    finally show ?thesis .
  qed (simp add: num_digits.simps scan_nat_def)
qed

lemma uint_uminus_of_neg:
  fixes n :: u32
  assumes "sint n < 0"
  shows "uint (- n) = - sint n"
proof -
  have "- n = word_of_int (- sint n)"
    by simp
  then have "uint (- n) = take_bit 32 (- sint n)"
    by (simp only: uint_word_of_int_eq) simp
  also have "\<dots> = - sint n"
    using assms sint_ge [of n] by (simp add: take_bit_int_eq_self)
  finally show ?thesis .
qed

lemma uint_of_nonneg:
  fixes n :: u32
  assumes "\<not> sint n < 0"
  shows "uint n = sint n"
  using assms sint_lt [of n] by (simp add: uint_sint take_bit_int_eq_self)

lemma scan_nat_zeros: "scan_nat b (replicate k (CHR ''0'') @ s) = scan_nat b s"
proof -
  have "foldl (\<lambda>v c. v * b + hexval c) 0 (replicate k (CHR ''0'')) = 0"
    by (induction k) (auto simp: hexval_def is_digit_def dval_def)
  then show ?thesis by (simp add: scan_nat_def)
qed

lemma num_digits_chars:
  "c \<in> set (num_digits n base) \<Longrightarrow> unat base \<le> 16 \<Longrightarrow> \<exists>k < 16. c = digit k"
proof (induction n base rule: num_digits.induct)
  case (1 n base)
  show ?case
  proof (cases "n = 0 \<or> unat base < 2")
    case False
    then have "unat n mod unat base < unat base"
      by (intro mod_less_divisor) simp
    then have "unat (n mod base) < 16"
      using "1.prems"(2) by (simp add: unat_mod)
    with False 1 show ?thesis
      by (auto simp: num_digits.simps [of n base])
  qed (use 1 in \<open>simp add: num_digits.simps [of n base]\<close>)
qed

text \<open>What \<^verbatim>\<open>number\<close> prints of a magnitude.\<close>

definition num_text :: "u32 \<Rightarrow> u32 \<Rightarrow> string" where
  "num_text num base = rev (if num = 0 then ''0'' else num_digits num base)"

lemma num_text_scan: "unat base \<in> {2..16} \<Longrightarrow> scan_nat (unat base) (num_text n base) = unat n"
  using num_digits_scan [of base n]
  by (auto simp: num_text_def scan_nat_def hexval_def is_digit_def dval_def)

lemma num_digits_Nil: "2 \<le> unat base \<Longrightarrow> num_digits n base = [] \<longleftrightarrow> n = 0"
  by (simp add: num_digits.simps [of n base])

lemma num_text_chars:
  assumes "unat base \<in> {2..16}"
  shows "num_text n base \<noteq> [] \<and> CHR ''-'' \<notin> set (num_text n base)"
proof -
  have "c \<noteq> CHR ''-''" if "c \<in> set (num_digits n base)" for c
    using num_digits_chars [OF that] assms digit_neq_minus by force
  then show ?thesis
    using assms num_digits_Nil [of base n] by (auto simp: num_text_def)
qed

lemma scan_int_unsigned: "s \<noteq> [] \<Longrightarrow> CHR ''-'' \<notin> set s \<Longrightarrow> scan_int s = int (scan_nat 10 s)"
  by (cases s) (auto simp: scan_int_def)

lemma scan_int_signed: "scan_int (CHR ''-'' # s) = - int (scan_nat 10 s)"
  by (simp add: scan_int_def)

section \<open>The text of a number\<close>

lemma number_dec:
  assumes "flags AND SIGN \<noteq> 0" and "flags AND ZEROPAD \<noteq> 0 \<or> len \<le> 0"
  shows "\<exists>s. number n 10 flags len = Inr s \<and> scan_int s = sint n \<and> len \<le> int (length s)"
proof -
  let ?neg = "sint n < 0"
  let ?m = "if ?neg then - n else n"
  let ?k = "nat (len - int (length (num_text ?m 10)))"
  let ?body = "replicate ?k (CHR ''0'') @ num_text ?m 10"
  let ?s = "(if ?neg then ''-'' else []) @ ?body"
  have "number n 10 flags len = Inr ?s"
    using assms by (auto simp: number_def num_text_def Let_def)
  moreover have body: "scan_nat 10 ?body = unat ?m"
    using num_text_scan [of 10 ?m] by (simp add: scan_nat_zeros)
  moreover have "scan_int ?s = sint n"
  proof (cases ?neg)
    case True
    with body show ?thesis by (simp add: scan_int_signed uint_uminus_of_neg)
  next
    case False
    with body show ?thesis
      using num_text_chars [of 10 n] by (subst scan_int_unsigned) (auto simp: uint_of_nonneg)
  qed
  ultimately show ?thesis by (intro exI [of _ ?s]) simp
qed

lemma number_hex:
  assumes "flags AND SIGN = 0" and "flags AND ZEROPAD \<noteq> 0 \<or> len \<le> 0"
  shows "\<exists>s. number n 16 flags len = Inr s \<and> scan_nat 16 s = unat n \<and> len \<le> int (length s)"
proof -
  let ?s = "replicate (nat (len - int (length (num_text n 16)))) (CHR ''0'') @ num_text n 16"
  have "number n 16 flags len = Inr ?s"
    using assms by (auto simp: number_def num_text_def Let_def)
  moreover have "scan_nat 16 ?s = unat n"
    using num_text_scan [of 16 n] by (simp add: scan_nat_zeros)
  ultimately show ?thesis by (intro exI [of _ ?s]) simp
qed

lemma sprintf_d: "\<exists>s. sprintf ''%d'' [VInt n] = Inr (length s, s) \<and> scan_int s = sint n"
proof -
  have "sprintf ''%d'' [VInt n] = bindE (number n 10 SIGN 0) (\<lambda>s. Inr (length s, s))"
    by (simp add: sprintf_def is_digit_def conv_def fmt_length_def bindE_assoc)
  then show ?thesis
    using number_dec [of SIGN 0 n] by (auto simp: SIGN_def)
qed

section \<open>Formats as sequences of pieces\<close>

text \<open>
  A well-formed format is a list of pieces: a character other than the percent sign, or a
  conversion with an optional zero flag, a width without leading zeros that fits an \<^verbatim>\<open>int\<close>, and a conversion letter.
\<close>

datatype piece = Lit char | Conv bool string char

fun piece_ok :: "piece \<Rightarrow> bool" where
  "piece_ok (Lit c) = (c \<noteq> CHR ''%'')"
| "piece_ok (Conv z ds t) =
     (list_all is_digit ds \<and> (ds \<noteq> [] \<longrightarrow> hd ds \<noteq> CHR ''0'') \<and> scan_nat 10 ds < 2 ^ 31 \<and> t \<in> set ''scxud'')"

fun piece_fmt :: "piece \<Rightarrow> string" where
  "piece_fmt (Lit c) = [c]"
| "piece_fmt (Conv z ds t) = ''%'' @ (if z then ''0'' else []) @ ds @ [t]"

text \<open>
  What the pieces mean, without the code: numerals by recursion on the number, the most significant digit first; a string is padded on
  the right, a numeral on the left, behind the sign, which the width does not count.
\<close>

definition base_char :: "nat \<Rightarrow> char" where
  "base_char k = char_of (if k < 10 then 48 + k else 87 + k)"

fun base_text :: "nat \<Rightarrow> nat \<Rightarrow> string" where
  "base_text b v = (if b < 2 \<or> v < b then [base_char v] else base_text b (v div b) @ [base_char (v mod b)])"

declare base_text.simps [simp del]

definition piece_text :: "bool \<Rightarrow> nat \<Rightarrow> char \<Rightarrow> va \<Rightarrow> string res" where
  "piece_text z w t a =
     (let pad = (\<lambda>s. replicate (w - length s) (if z then CHR ''0'' else CHR '' '')) in
      case a of
        VStr s \<Rightarrow> if t = CHR ''s'' then Inr (s @ pad s) else Inl OutOfBounds
      | VInt n \<Rightarrow>
          if t = CHR ''c'' then Inr [char_of (unat n)]
          else if t = CHR ''x'' then Inr (pad (base_text 16 (unat n)) @ base_text 16 (unat n))
          else if t = CHR ''u'' then Inr (pad (base_text 10 (unat n)) @ base_text 10 (unat n))
          else if t = CHR ''d'' then
            (let s = base_text 10 (nat \<bar>sint n\<bar>) in Inr ((if sint n < 0 then ''-'' else []) @ pad s @ s))
          else Inl OutOfBounds)"

fun render :: "piece list \<Rightarrow> va list \<Rightarrow> string res" where
  "render [] ap = Inr []"
| "render (Lit c # ps) ap = bindE (render ps ap) (\<lambda>out. Inr (c # out))"
| "render (Conv z ds t # ps) ap =
     (case ap of
        [] \<Rightarrow> Inl OutOfBounds
      | a # ap' \<Rightarrow>
          bindE (piece_text z (scan_nat 10 ds) t a) (\<lambda>s.
          bindE (render ps ap') (\<lambda>out. Inr (s @ out))))"

lemma base_char_table: "list_all (\<lambda>k. digit k = base_char k) [0..<16]"
  by code_simp

lemma base_char_0: "base_char 0 = CHR ''0''"
  by code_simp

lemma num_digits_text:
  "n \<noteq> 0 \<Longrightarrow> unat base \<in> {2..16} \<Longrightarrow> rev (num_digits n base) = base_text (unat base) (unat n)"
proof (induction n base rule: num_digits.induct)
  case (1 n base)
  have b: "2 \<le> unat base" "unat base \<le> 16" using "1.prems"(2) by simp_all
  have "unat n mod unat base < 16" using b mod_less_divisor [of "unat base" "unat n"] by linarith
  then have d: "digit (unat n mod unat base) = base_char (unat n mod unat base)" using base_char_table by (simp add: list_all_iff)
  have q: "n div base = 0 \<longleftrightarrow> unat n < unat base"
    using b by (simp add: unat_eq_zero [symmetric] unat_div div_eq_0_iff del: unat_eq_zero)
  have "num_digits n base = digit (unat n mod unat base) # num_digits (n div base) base"
    using "1.prems" b by (simp add: num_digits.simps [of n base] unat_mod)
  moreover have "num_digits 0 base = []" by (simp add: num_digits.simps)
  ultimately show ?case using 1 b d q by (cases "n div base = 0") (simp_all add: base_text.simps [of "unat base" "unat n"] unat_div)
qed

lemma num_text_base: "unat base \<in> {2..16} \<Longrightarrow> num_text n base = base_text (unat base) (unat n)"
  using num_digits_text [of n base] by (cases "n = 0") (simp_all add: num_text_def base_text.simps [of _ 0] base_char_0)

lemma fmt_length_value: "list_all is_digit ds \<Longrightarrow> scan_nat 10 ds < 2 ^ 31 \<Longrightarrow> fmt_length ds = int (scan_nat 10 ds)"
proof (induction ds rule: rev_induct)
  case (snoc c ds)
  have c: "is_digit c" "0 \<le> dval c" using snoc.prems(1) by (auto simp: is_digit_def dval_def cval_def)
  have s: "scan_nat 10 (ds @ [c]) = scan_nat 10 ds * 10 + nat (dval c)" using c by (simp add: scan_nat_def hexval_def)
  then have "fmt_length ds = int (scan_nat 10 ds)" using snoc by simp
  then have "fmt_length (ds @ [c]) = sint (word_of_int (int (scan_nat 10 (ds @ [c]))) :: u32)" using c s by (simp add: fmt_length_def)
  also have "\<dots> = int (scan_nat 10 (ds @ [c]))" unfolding int_word_sint using snoc.prems(2) by simp
  finally show ?case .
qed (simp add: fmt_length_def scan_nat_def)

lemma conv_text:
  assumes "t \<in> set ''scxud''"
  shows "conv t (if z then ZEROPAD else 0) (int w) a = piece_text z w t a"
proof (cases a)
  case (VStr s)
  have "nat (int w - int (length s)) = w - length s" by simp
  then show ?thesis using VStr by (simp add: conv_def piece_text_def ZEROPAD_def Let_def)
next
  case (VInt n)
  have m: "sint n < 0 \<Longrightarrow> nat (- sint n) = unat (- n)" "\<not> sint n < 0 \<Longrightarrow> nat (sint n) = unat n"
    unfolding unat_eq_nat_uint by (simp_all only: uint_uminus_of_neg uint_of_nonneg not_False_eq_True)
  have tx: "num_text k 10 = base_text 10 (unat k)" "num_text k 16 = base_text 16 (unat k)" for k
    using num_text_base [of 10 k] num_text_base [of 16 k] by simp_all
  have nm: "number n b fl (int w) = Inr ((if fl AND SIGN \<noteq> 0 \<and> sint n < 0 then ''-'' else []) @
      (let s = num_text (if fl AND SIGN \<noteq> 0 \<and> sint n < 0 then - n else n) b
       in replicate (w - length s) (if fl AND ZEROPAD \<noteq> 0 then CHR ''0'' else CHR '' '') @ s))" if "b = 10 \<or> b = 16" for b fl
    using that by (auto simp: number_def num_text_def Let_def)
  show ?thesis unfolding VInt piece_text_def using assms
    by (auto simp: conv_def nm tx m Let_def SIGN_def ZEROPAD_def)
qed

lemma conv_letter_not_digit: "t \<in> set ''scxud'' \<Longrightarrow> \<not> is_digit t \<and> t \<noteq> CHR ''0''"
  by (auto simp: is_digit_def)

lemma takeWhile_dropWhile_stop:
  "list_all P xs \<Longrightarrow> \<not> P y \<Longrightarrow> takeWhile P (xs @ y # zs) = xs \<and> dropWhile P (xs @ y # zs) = y # zs"
  by (induction xs) auto

lemma vsprintf_conv:
  assumes "piece_ok (Conv z ds t)"
  shows "vsprintf (piece_fmt (Conv z ds t) @ fmt) ap =
     (case ap of
        [] \<Rightarrow> Inl OutOfBounds
      | a # ap' \<Rightarrow>
          bindE (piece_text z (scan_nat 10 ds) t a) (\<lambda>s.
          bindE (vsprintf fmt ap') (\<lambda>out. Inr (s @ out))))"
proof -
  let ?tail = "ds @ t # fmt"
  have t: "\<not> is_digit t" "t \<noteq> CHR ''0''"
    using assms conv_letter_not_digit by auto
  have zeros: "takeWhile (\<lambda>c. c = CHR ''0'') ?tail = []" "dropWhile (\<lambda>c. c = CHR ''0'') ?tail = ?tail"
    using assms t by (cases ds; simp)+
  have digits: "takeWhile is_digit ?tail = ds" "dropWhile is_digit ?tail = t # fmt"
    using assms t takeWhile_dropWhile_stop [of is_digit ds t fmt] by auto
  have "fmt_length ds = int (scan_nat 10 ds)" "t \<in> set ''scxud''" using assms fmt_length_value [of ds] by simp_all
  then have "conv t (if z then ZEROPAD else 0) (fmt_length ds) a = piece_text z (scan_nat 10 ds) t a" for a using conv_text by simp
  then show ?thesis
    by (cases z; cases ap) (simp_all add: zeros digits Let_def)
qed

section \<open>Properties\<close>

text \<open>
  What \<^verbatim>\<open>number\<close> prints reads back as its argument.  With the sign flag the decimal text
  denotes the signed value for all \<open>2^32\<close> arguments, the least integer included, whatever zero
  padding is asked for; the hexadecimal text denotes the unsigned value.
\<close>

theorem number_roundtrip:
  "(\<exists>s. number n 10 (SIGN OR ZEROPAD) len = Inr s \<and> scan_int s = sint n \<and> len \<le> int (length s)) \<and>
   (\<exists>s. number n 16 ZEROPAD len = Inr s \<and> scan_nat 16 s = unat n \<and> len \<le> int (length s))"
  using number_dec [of "SIGN OR ZEROPAD" len n] number_hex [of ZEROPAD len n]
  by (simp add: SIGN_def ZEROPAD_def)

text \<open>
  C24: on a well-formed format, with widths below \<open>2^31\<close>, \<^verbatim>\<open>vsprintf\<close> prints the pieces one after the other, each conversion
  taking the next argument: a string padded on the right, a character, and the signed decimal, unsigned decimal and hexadecimal numeral of the argument padded on the left, with
  zeroes or spaces up to the width.  It fails only where an argument is missing or of the wrong kind.
\<close>

theorem vsprintf_pieces:
  "list_all piece_ok ps \<Longrightarrow> vsprintf (concat (map piece_fmt ps)) ap = render ps ap"
proof (induction ps ap rule: render.induct)
  case (3 z ds t ps ap)
  then show ?case
    by (cases ap) (auto simp del: piece_fmt.simps piece_ok.simps simp: vsprintf_conv intro!: bindE_cong)
qed auto

theorem vsprintf_pieces_witness:
  "vsprintf ''cpu %2d %04x'' [VInt (- 7), VInt 0x2f] = Inr ''cpu - 7 002f''"
proof -
  let ?ps = "[Lit (CHR ''c''), Lit (CHR ''p''), Lit (CHR ''u''), Lit (CHR '' ''), Conv False ''2'' (CHR ''d''), Lit (CHR '' ''), Conv True ''4'' (CHR ''x'')]"
  have "char_of (55 :: nat) = CHR ''7''" "char_of (50 :: nat) = CHR ''2''" "char_of (102 :: nat) = CHR ''f''" "scan_nat 10 ''2'' = 2" "scan_nat 10 ''4'' = 4"
    "replicate 2 CHR ''0'' = ''00''" by code_simp+
  then have "render ?ps [VInt (- 7), VInt 0x2f] = Inr ''cpu - 7 002f''"
    by (simp add: piece_text_def base_text.simps base_char_def Let_def)
  moreover have "list_all piece_ok ?ps" by (simp add: is_digit_def scan_nat_def hexval_def dval_def cval_def)
  moreover have "concat (map piece_fmt ?ps) = ''cpu %2d %04x''" by simp
  ultimately show ?thesis using vsprintf_pieces [of ?ps "[VInt (- 7), VInt 0x2f]"] by (simp only:)
qed

end
