(* ===== verification/Procfs.thy ===== *)
theory Procfs
  imports Klib_Stdio
begin

text \<open>
  \<^verbatim>\<open>kernel/src/fs/procfs.c\<close> and \<^verbatim>\<open>include/fs/procfs.h\<close>: the process table behind \<^verbatim>\<open>/proc\<close>.  The
  scheduler reports every context switch here and the allocator every allocation; the VFS lists and
  reads the entries.  Entries \<open>0\<close> to \<open>3\<close> are the directory's own, entry \<open>k \<ge> 4\<close> is the process with
  number \<open>k - 4\<close>.
\<close>

section \<open>State\<close>

record proc =
  inode :: u32
  cpu_number :: u32
  sche_times :: u32
  memo_size :: u32
  pname :: string

record procfs =
  procs :: "nat \<Rightarrow> proc"
  running :: "nat \<Rightarrow> u32"
  total_proc :: nat
  mem_total :: u64
  mem_used :: u64

definition MAX_PROC :: nat where
  "MAX_PROC = 64"

definition PROC_NAME_LEN :: nat where
  "PROC_NAME_LEN = 16"

definition proc0 :: proc where
  "proc0 = \<lparr>inode = 0, cpu_number = 0, sche_times = 0, memo_size = 0, pname = []\<rparr>"

text \<open>The state the loader leaves: static storage is zero, \<^verbatim>\<open>total_proc\<close> is initialised to 4.\<close>

definition procfs0 :: procfs where
  "procfs0 = \<lparr>procs = (\<lambda>_. proc0), running = (\<lambda>_. 0), total_proc = 4, mem_total = 0, mem_used = 0\<rparr>"

section \<open>Operations\<close>

text \<open>The macro \<^verbatim>\<open>procfs_add\<close>: a name of 16 characters or more overruns its field.\<close>

definition procfs_add :: "string \<Rightarrow> procfs \<Rightarrow> (nat \<times> procfs) res" where
  "procfs_add nm s =
     (let idx = total_proc s in
      bindE (guardE OutOfBounds (idx < MAX_PROC \<and> length nm < PROC_NAME_LEN)) (\<lambda>_.
      Inr (idx, s\<lparr>total_proc := idx + 1,
                  procs := (procs s)(idx := \<lparr>inode = of_nat idx - 4, cpu_number = - 1, sche_times = 0,
                                             memo_size = 0, pname = nm\<rparr>)\<rparr>)))"

definition procfs_addproc :: "string \<Rightarrow> procfs \<Rightarrow> (nat option \<times> procfs) res" where
  "procfs_addproc nm s =
     (if total_proc s = MAX_PROC - 1 then Inr (None, s)
      else bindE (procfs_add nm s) (\<lambda>(idx, s). Inr (Some idx, s)))"

definition procfs_schdule :: "nat \<Rightarrow> nat option \<Rightarrow> nat option \<Rightarrow> procfs \<Rightarrow> procfs" where
  "procfs_schdule cpu oldproc newproc s =
     (let s = (case oldproc of
                 None \<Rightarrow> s
               | Some q \<Rightarrow> s\<lparr>procs := (procs s)(q := (procs s q)\<lparr>cpu_number := - 1\<rparr>)\<rparr>)
      in (case newproc of
            None \<Rightarrow> s
          | Some p \<Rightarrow>
              s\<lparr>procs := (procs s)(p := (procs s p)\<lparr>cpu_number := of_nat cpu,
                                                    sche_times := sche_times (procs s p) + 1\<rparr>),
                running := (running s)(cpu := inode (procs s p))\<rparr>))"

definition procfs_mem_trace :: "u64 \<Rightarrow> int \<Rightarrow> procfs \<Rightarrow> procfs res" where
  "procfs_mem_trace sz mode s =
     (if mode = 0 then Inr (s\<lparr>mem_used := mem_used s + sz\<rparr>)
      else if mode = 1 then Inr (s\<lparr>mem_used := mem_used s - sz\<rparr>)
      else Inl AssertFail)"

definition procfs_init :: "procfs \<Rightarrow> procfs res" where
  "procfs_init s =
     bindE (procfs_add ''.'' (s\<lparr>total_proc := 0\<rparr>)) (\<lambda>(_, s1).
     bindE (procfs_add ''..'' s1) (\<lambda>(_, s2).
     bindE (procfs_add ''cpuinfo'' s2) (\<lambda>(_, s3).
     bindE (procfs_add ''meminfo'' s3) (\<lambda>(_, s4).
     Inr (s4\<lparr>total_proc := total_proc s\<rparr>)))))"

text \<open>What \<^verbatim>\<open>readdir\<close> hands to the VFS: the name, the index and the mode of an entry.\<close>

record dirent =
  d_name :: string
  d_ridx :: nat
  d_mode :: u32

abbreviation (input) TYPE_FILE :: u32 where "TYPE_FILE \<equiv> 0x10"
abbreviation (input) TYPE_DIR :: u32 where "TYPE_DIR \<equiv> 0x20"
abbreviation (input) TYPE_LINK :: u32 where "TYPE_LINK \<equiv> 0x40"
abbreviation (input) WR_ABLE :: u32 where "WR_ABLE \<equiv> 0x2"
abbreviation (input) RD_ABLE :: u32 where "RD_ABLE \<equiv> 0x4"

definition procfs_entry :: "procfs \<Rightarrow> nat \<Rightarrow> dirent res" where
  "procfs_entry s k =
     (if k = 0 \<or> k = 1 then Inr \<lparr>d_name = pname (procs s k), d_ridx = k, d_mode = TYPE_DIR\<rparr>
      else if k = 2 \<or> k = 3 then
        Inr \<lparr>d_name = pname (procs s k), d_ridx = k, d_mode = TYPE_FILE OR RD_ABLE\<rparr>
      else bindE (sprintf ''%d'' [VInt (inode (procs s k))]) (\<lambda>(_, nm).
           Inr \<lparr>d_name = nm, d_ridx = k, d_mode = TYPE_FILE OR RD_ABLE\<rparr>))"

text \<open>At the test the counter of the loop is one more than its index.\<close>

definition procfs_readdir :: "procfs \<Rightarrow> int \<Rightarrow> dirent option res" where
  "procfs_readdir s kth =
     (case first_idx (\<lambda>k. int (k + 1) = kth) 0 (total_proc s) of
        None \<Rightarrow> Inr None
      | Some k \<Rightarrow> bindE (procfs_entry s k) (\<lambda>e. Inr (Some e)))"

text \<open>A sequence of \<^verbatim>\<open>ret += sprintf(buf + ret, fmt, ...)\<close> statements.\<close>

fun sprints :: "(string \<times> va list) list \<Rightarrow> string res" where
  "sprints [] = Inr []"
| "sprints ((fmt, ap) # rest) =
     bindE (sprintf fmt ap) (\<lambda>(_, out). bindE (sprints rest) (\<lambda>out'. Inr (out @ out')))"

definition kb :: "u64 \<Rightarrow> va" where
  "kb n = VInt (ucast (n div 1024))"

abbreviation newline :: string where
  "newline \<equiv> [CHR 0x0A]"

definition procfs_read :: "nat \<Rightarrow> procfs \<Rightarrow> nat \<Rightarrow> u64 \<Rightarrow> string res" where
  "procfs_read ncpu s ridx offset =
     (if offset \<noteq> 0 then Inr []
      else if ridx = 2 then
        sprints ((newline @ ''  cpuinfo  '' @ newline, []) #
          concat (map (\<lambda>i. let k = unat (running s i + 4) in
                        [(''  [cpu %d]: '', [VInt (cpu_number (procs s k))]),
                         (''%s'' @ newline, [VStr (pname (procs s k))])])
                  [0..<ncpu]))
      else if ridx = 3 then
        sprints [(newline @ ''  meminfo  '' @ newline, []),
                 (''  [total]: %d KB'' @ newline, [kb (mem_total s)]),
                 (''  [used]: %d KB'' @ newline, [kb (mem_used s)]),
                 (''  [free]: %d KB'' @ newline, [kb (mem_total s - mem_used s)])]
      else
        sprints [(newline @ ''  taskinfo  '' @ newline, []),
                 (''  pid: %d'' @ newline, [VInt (inode (procs s ridx))]),
                 (''  name: %s'' @ newline, [VStr (pname (procs s ridx))]),
                 (''  cpu: %d'' @ newline, [VInt (cpu_number (procs s ridx))]),
                 (''  mem: %d'' @ newline, [VInt (memo_size (procs s ridx))]),
                 (''  schduel_times: %d'' @ newline, [VInt (sche_times (procs s ridx))])])"

section \<open>Well-formedness\<close>

text \<open>Every used slot above the directory entries holds the process number of its position.\<close>

definition procfs_wf :: "procfs \<Rightarrow> bool" where
  "procfs_wf s \<longleftrightarrow> 4 \<le> total_proc s \<and> total_proc s < MAX_PROC \<and>
     (\<forall>k. 4 \<le> k \<and> k < total_proc s \<longrightarrow> inode (procs s k) = of_nat (k - 4))"

lemma procfs_wf_init: "procfs_wf procfs0"
  by (auto simp: procfs_wf_def procfs0_def MAX_PROC_def)

lemma procfs_addproc_wf:
  "procfs_wf s \<Longrightarrow> procfs_addproc nm s = Inr (p, s') \<Longrightarrow> procfs_wf s'"
  by (auto simp: procfs_wf_def procfs_addproc_def procfs_add_def Let_def res_iff less_Suc_eq MAX_PROC_def
      of_nat_diff split: if_splits)

lemma procfs_schdule_inode [simp]: "inode (procs (procfs_schdule c q p s) k) = inode (procs s k)"
  by (auto simp: procfs_schdule_def Let_def split: option.splits)

lemma procfs_schdule_total [simp]: "total_proc (procfs_schdule c q p s) = total_proc s"
  by (auto simp: procfs_schdule_def Let_def split: option.splits)

lemma procfs_schdule_wf: "procfs_wf s \<Longrightarrow> procfs_wf (procfs_schdule c q p s)"
  by (simp add: procfs_wf_def)

lemma procfs_mem_trace_wf: "procfs_wf s \<Longrightarrow> procfs_mem_trace n m s = Inr s' \<Longrightarrow> procfs_wf s'"
  by (auto simp: procfs_wf_def procfs_mem_trace_def split: if_splits)

lemma procfs_init_run:
  "\<exists>s'. procfs_init s = Inr s' \<and> total_proc s' = total_proc s \<and> (\<forall>k \<ge> 4. procs s' k = procs s k) \<and>
     map (\<lambda>k. pname (procs s' k)) [0..<4] = [''.'', ''..'', ''cpuinfo'', ''meminfo''] \<and>
     mem_used s' = mem_used s \<and> mem_total s' = mem_total s"
  by (simp add: procfs_init_def procfs_add_def MAX_PROC_def PROC_NAME_LEN_def Let_def upt_rec)

section \<open>Properties\<close>

text \<open>
  \<^verbatim>\<open>readdir\<close> on \<^verbatim>\<open>/proc\<close> enumerates the table: position \<open>k + 1\<close> yields entry \<open>k\<close> for every
  entry in use and nothing beyond, and the name of a process entry reads back as its process
  number, so that no two processes share a name.
\<close>

theorem procfs_readdir_enumerates:
  assumes "procfs_wf s"
  shows "(\<forall>k < total_proc s. \<exists>e. procfs_readdir s (int (k + 1)) = Inr (Some e) \<and> d_ridx e = k \<and>
            (4 \<le> k \<longrightarrow> scan_int (d_name e) = int k - 4)) \<and>
         (\<forall>kth. kth \<le> 0 \<or> int (total_proc s) < kth \<longrightarrow> procfs_readdir s kth = Inr None)"
proof (intro conjI allI impI)
  fix k assume k: "k < total_proc s"
  have idx: "first_idx (\<lambda>j. int (j + 1) = int (k + 1)) 0 (total_proc s) = Some k"
    by (rule first_idx_eqI) (use k in auto)
  have "sint (inode (procs s k)) = int k - 4" if "4 \<le> k"
  proof -
    from that k assms have "inode (procs s k) = of_nat (k - 4)" and "k - 4 < 64"
      by (auto simp: procfs_wf_def MAX_PROC_def simp del: of_nat_diff)
    then have "sint (inode (procs s k)) = int (k - 4)"
      using sint_of_nat_u32 [of "k - 4"] by (simp del: of_nat_diff)
    with that show ?thesis by simp
  qed
  moreover have "procfs_readdir s (int (k + 1)) = bindE (procfs_entry s k) (\<lambda>e. Inr (Some e))"
    unfolding procfs_readdir_def idx by simp
  ultimately show "\<exists>e. procfs_readdir s (int (k + 1)) = Inr (Some e) \<and> d_ridx e = k \<and>
      (4 \<le> k \<longrightarrow> scan_int (d_name e) = int k - 4)"
    using sprintf_d [of "inode (procs s k)"] by (auto simp: procfs_entry_def)
next
  fix kth :: int assume "kth \<le> 0 \<or> int (total_proc s) < kth"
  then have "first_idx (\<lambda>k. int (k + 1) = kth) 0 (total_proc s) = None"
    by (auto simp: first_idx_None_iff)
  then show "procfs_readdir s kth = Inr None"
    by (simp add: procfs_readdir_def)
qed

theorem procfs_readdir_enumerates_witness:
  "procfs_wf procfs0 \<and> (\<exists>e. procfs_readdir procfs0 1 = Inr (Some e) \<and> d_ridx e = 0) \<and>
   procfs_readdir procfs0 5 = Inr None"
proof -
  have wf: "procfs_wf procfs0" by (rule procfs_wf_init)
  have tot: "total_proc procfs0 = 4" by (simp add: procfs0_def)
  note all = procfs_readdir_enumerates [OF wf, unfolded tot]
  from all [THEN conjunct1, rule_format, of 0] all [THEN conjunct2, rule_format, of 5] wf
  show ?thesis by auto
qed

text \<open>
  The bookkeeping of \<^verbatim>\<open>/proc/cpuinfo\<close>: the entry \<^verbatim>\<open>running\<close> points to carries the number of the
  processor, for every processor that has scheduled a process.
\<close>

definition cpu_marks :: "procfs \<Rightarrow> (nat \<Rightarrow> nat option) \<Rightarrow> bool" where
  "cpu_marks s cur \<longleftrightarrow> (\<forall>c p. cur c = Some p \<longrightarrow>
     4 \<le> p \<and> p < total_proc s \<and> running s c = inode (procs s p) \<and> cpu_number (procs s p) = of_nat c)"

text \<open>
  A context switch keeps the processor marks: when \<open>cur\<close> records the process of every processor,
  the switch of processor \<open>c\<close> from its own process to one that runs on no other processor leaves
  \<^verbatim>\<open>running\<close> and \<^verbatim>\<open>cpu_number\<close> in agreement for all processors, and counts the switch.
\<close>

theorem procfs_schdule_marks:
  assumes "cpu_marks s cur" and "4 \<le> p" and "p < total_proc s"
    and "\<forall>d. d \<noteq> c \<longrightarrow> cur d \<noteq> Some p \<and> (cur c \<noteq> None \<longrightarrow> cur d \<noteq> cur c)"
  shows "cpu_marks (procfs_schdule c (cur c) (Some p) s) (cur(c := Some p)) \<and>
         sche_times (procs (procfs_schdule c (cur c) (Some p) s) p) = sche_times (procs s p) + 1"
  using assms by (auto simp: cpu_marks_def procfs_schdule_def Let_def split: option.splits)

theorem procfs_schdule_marks_witness:
  "cpu_marks (procfs_schdule 1 None (Some 4) (procfs0\<lparr>total_proc := 5\<rparr>)) (Map.empty(1 := Some 4)) \<and>
   sche_times (procs (procfs_schdule 1 None (Some 4) (procfs0\<lparr>total_proc := 5\<rparr>)) 4) = 1"
  using procfs_schdule_marks [of "procfs0\<lparr>total_proc := 5\<rparr>" Map.empty 4 1]
  by (simp add: cpu_marks_def procfs0_def proc0_def)

end
