(* ===== verification/Alloc.thy ===== *)
theory Alloc
  imports Procfs
begin

text \<open>
  \<^verbatim>\<open>kernel/src/alloc.c\<close> and \<^verbatim>\<open>include/alloc.h\<close>: the physical memory allocator.  Block descriptors
  live in a static pool; the free blocks form a doubly linked list between two sentinels, sorted by
  address.  The model keeps the descriptors in a store indexed by pointers, so that every link is
  followed and overwritten as in the code; every access through a null pointer and every failed
  assertion is a fault.
\<close>

section \<open>Data\<close>

text \<open>Pointers to descriptors: null, \<^verbatim>\<open>&special[i]\<close> and \<^verbatim>\<open>&pool[i]\<close>.\<close>

datatype bptr = BNull | Special nat | Pool nat

datatype block_state = UNUSED | UNALLOCATED | ALLOCATED

record mem_block =
  b_id :: nat
  b_state :: block_state
  b_size :: u32
  b_begin :: u32
  b_end :: u32
  b_prev :: bptr
  b_next :: bptr

record pmm =
  blk :: "bptr \<Rightarrow> mem_block"
  free_head :: bptr
  free_tail :: bptr
  list_size :: u32
  pm_start :: u32
  pm_end :: u32
  memoplk :: lock_state

definition POOL_SIZE :: nat where
  "POOL_SIZE = 4096"

text \<open>Static storage before \<^verbatim>\<open>pmm_init\<close>.\<close>

definition mem_block0 :: mem_block where
  "mem_block0 = \<lparr>b_id = 0, b_state = UNUSED, b_size = 0, b_begin = 0, b_end = 0,
                 b_prev = BNull, b_next = BNull\<rparr>"

definition pmm0 :: pmm where
  "pmm0 = \<lparr>blk = (\<lambda>_. mem_block0), free_head = BNull, free_tail = BNull, list_size = 0,
           pm_start = 0, pm_end = 0, memoplk = UNLOCKED\<rparr>"

text \<open>Load and store through a pointer.\<close>

definition ld :: "pmm \<Rightarrow> bptr \<Rightarrow> mem_block res" where
  "ld s p = (if p = BNull then Inl NullDeref else Inr (blk s p))"

definition st :: "bptr \<Rightarrow> (mem_block \<Rightarrow> mem_block) \<Rightarrow> pmm \<Rightarrow> pmm res" where
  "st p f s = (if p = BNull then Inl NullDeref else Inr (s\<lparr>blk := (blk s)(p := f (blk s p))\<rparr>))"

text \<open>
  Walks along the list carry fuel.  There are \<open>POOL_SIZE + 2\<close> descriptors, so a walk of more steps
  has met a descriptor twice and, being determined by the links, never ends.
\<close>

definition WALK :: nat where
  "WALK = POOL_SIZE + 3"

section \<open>The pool\<close>

definition get_unused_block :: "pmm \<Rightarrow> nat res" where
  "get_unused_block s =
     (case first_idx (\<lambda>i. b_state (blk s (Pool i)) = UNUSED) 0 POOL_SIZE of
        None \<Rightarrow> Inl AssertFail
      | Some i \<Rightarrow> Inr i)"

definition find_allocated_block :: "u32 \<Rightarrow> pmm \<Rightarrow> nat res" where
  "find_allocated_block bg s =
     (case first_idx (\<lambda>i. b_state (blk s (Pool i)) = ALLOCATED \<and> b_begin (blk s (Pool i)) = bg)
             0 POOL_SIZE of
        None \<Rightarrow> Inl AssertFail
      | Some i \<Rightarrow> Inr i)"

section \<open>The free list\<close>

definition free_init :: "u32 \<Rightarrow> u32 \<Rightarrow> pmm \<Rightarrow> pmm" where
  "free_init bg en s =
     (let b1 = (\<lambda>p. case p of
                  Pool i \<Rightarrow> (if i < POOL_SIZE then (blk s p)\<lparr>b_id := i, b_state := UNUSED\<rparr> else blk s p)
                | _ \<Rightarrow> blk s p);
          b2 = b1(Special 0 := (b1 (Special 0))\<lparr>b_prev := BNull, b_next := Pool 0\<rparr>);
          b3 = b2(Special 1 := (b2 (Special 1))\<lparr>b_prev := Pool 0, b_next := BNull\<rparr>);
          b4 = b3(Pool 0 := (b3 (Pool 0))\<lparr>b_state := UNALLOCATED, b_prev := Special 0, b_next := Special 1,
                                           b_begin := bg, b_end := en, b_size := en - bg\<rparr>)
      in s\<lparr>blk := b4, free_head := Special 0, free_tail := Special 1, list_size := 1\<rparr>)"

fun free_check_loop :: "nat \<Rightarrow> pmm \<Rightarrow> bptr \<Rightarrow> nat \<Rightarrow> nat res" where
  "free_check_loop 0 s block cnt = Inl Diverge"
| "free_check_loop (Suc fuel) s block cnt =
     (if block = free_tail s then Inr cnt
      else
        bindE (ld s block) (\<lambda>b.
        bindE (ld s (b_next b)) (\<lambda>n.
        bindE (assertE (b_prev n = block)) (\<lambda>_.
        bindE (ld s (b_prev b)) (\<lambda>p.
        bindE (assertE (b_next p = block)) (\<lambda>_.
        free_check_loop fuel s (b_next b) (cnt + 1)))))))"

definition free_check :: "pmm \<Rightarrow> unit res" where
  "free_check s =
     bindE (ld s (free_head s)) (\<lambda>h.
     bindE (free_check_loop WALK s (b_next h) 0) (\<lambda>cnt.
     assertE (of_nat cnt = list_size s)))"

definition free_cut :: "bptr \<Rightarrow> u32 \<Rightarrow> pmm \<Rightarrow> pmm res" where
  "free_cut block sz s =
     bindE (get_unused_block s) (\<lambda>newid.
     bindE (ld s block) (\<lambda>b.
     bindE (assertE (b_state b = UNALLOCATED)) (\<lambda>_.
     bindE (assertE (b_id (blk s (Pool newid)) = newid)) (\<lambda>_.
     bindE (assertE (b_state (blk s (Pool newid)) = UNUSED)) (\<lambda>_.
     let newblock = Pool newid in
     bindE (st newblock (\<lambda>n. n\<lparr>b_prev := block, b_next := b_next b\<rparr>) s) (\<lambda>s.
     bindE (ld s block) (\<lambda>b.
     bindE (st (b_next b) (\<lambda>n. n\<lparr>b_prev := newblock\<rparr>) s) (\<lambda>s.
     bindE (st block (\<lambda>n. n\<lparr>b_next := newblock\<rparr>) s) (\<lambda>s.
     bindE (ld s block) (\<lambda>b.
     bindE (st newblock (\<lambda>n. n\<lparr>b_begin := b_begin b + sz, b_end := b_end b,
                                b_size := b_size b - sz\<rparr>) s) (\<lambda>s.
     bindE (st block (\<lambda>n. n\<lparr>b_end := b_begin n + sz, b_size := sz\<rparr>) s) (\<lambda>s.
     bindE (st newblock (\<lambda>n. n\<lparr>b_state := UNALLOCATED\<rparr>) s) (\<lambda>s.
     Inr (s\<lparr>list_size := list_size s + 1\<rparr>))))))))))))))"

definition free_adjcent :: "bptr \<Rightarrow> bptr \<Rightarrow> pmm \<Rightarrow> bool res" where
  "free_adjcent p q s =
     (if p = free_head s \<or> q = free_tail s then Inr False
      else
        bindE (assertE (p \<noteq> free_tail s)) (\<lambda>_.
        bindE (assertE (q \<noteq> free_head s)) (\<lambda>_.
        bindE (ld s p) (\<lambda>bp.
        bindE (ld s q) (\<lambda>bq.
        Inr (b_end bp = b_begin bq))))))"

definition free_merge :: "bptr \<Rightarrow> bptr \<Rightarrow> pmm \<Rightarrow> pmm res" where
  "free_merge former latter s =
     bindE (free_adjcent former latter s) (\<lambda>adj.
     bindE (assertE adj) (\<lambda>_.
     bindE (assertE (former \<noteq> free_head s)) (\<lambda>_.
     bindE (assertE (latter \<noteq> free_tail s)) (\<lambda>_.
     bindE (ld s former) (\<lambda>f.
     bindE (assertE (b_state f = UNALLOCATED)) (\<lambda>_.
     bindE (ld s latter) (\<lambda>l.
     bindE (assertE (b_state l = UNALLOCATED)) (\<lambda>_.
     bindE (st former (\<lambda>n. n\<lparr>b_next := b_next l\<rparr>) s) (\<lambda>s.
     bindE (ld s latter) (\<lambda>l.
     bindE (st (b_next l) (\<lambda>n. n\<lparr>b_prev := former\<rparr>) s) (\<lambda>s.
     bindE (st latter (\<lambda>n. n\<lparr>b_prev := BNull, b_next := BNull\<rparr>) s) (\<lambda>s.
     bindE (ld s former) (\<lambda>f.
     bindE (ld s latter) (\<lambda>l.
     bindE (assertE (b_end l - b_begin f = b_size f + b_size l)) (\<lambda>_.
     bindE (st former (\<lambda>n. n\<lparr>b_end := b_end l\<rparr>) s) (\<lambda>s.
     bindE (st former (\<lambda>n. n\<lparr>b_size := b_end n - b_begin n\<rparr>) s) (\<lambda>s.
     bindE (st latter (\<lambda>n. n\<lparr>b_state := UNUSED\<rparr>) s) (\<lambda>s.
     let s = s\<lparr>list_size := list_size s - 1\<rparr> in
     bindE (free_check s) (\<lambda>_. Inr s)))))))))))))))))))"

definition free_cmp :: "bptr \<Rightarrow> bptr \<Rightarrow> pmm \<Rightarrow> bool res" where
  "free_cmp p q s =
     (if p = free_head s \<or> q = free_tail s then Inr True
      else
        bindE (assertE (p \<noteq> free_tail s)) (\<lambda>_.
        bindE (assertE (q \<noteq> free_head s)) (\<lambda>_.
        bindE (ld s p) (\<lambda>bp.
        bindE (ld s q) (\<lambda>bq.
        bindE (assertE (b_begin bp \<noteq> b_begin bq)) (\<lambda>_.
        Inr (b_begin bp < b_begin bq)))))))"

text \<open>The test of the insertion loop, with the short circuit of \<^verbatim>\<open>&&\<close>.\<close>

definition free_between :: "bptr \<Rightarrow> bptr \<Rightarrow> bptr \<Rightarrow> pmm \<Rightarrow> bool res" where
  "free_between former block latter s =
     bindE (free_cmp former block s) (\<lambda>c. if c then free_cmp block latter s else Inr False)"

fun free_seek :: "nat \<Rightarrow> bptr \<Rightarrow> bptr \<Rightarrow> bptr \<Rightarrow> pmm \<Rightarrow> (bptr \<times> bptr) res" where
  "free_seek 0 block former latter s = Inl Diverge"
| "free_seek (Suc fuel) block former latter s =
     bindE (free_between former block latter s) (\<lambda>c.
     if c then Inr (former, latter)
     else
       bindE (assertE (latter \<noteq> free_tail s)) (\<lambda>_.
       bindE (ld s former) (\<lambda>f.
       bindE (ld s latter) (\<lambda>l.
       free_seek fuel block (b_next f) (b_next l) s))))"

text \<open>The section of \<^verbatim>\<open>free_insert\<close> that links the block in.\<close>

definition free_link :: "bptr \<Rightarrow> bptr \<Rightarrow> bptr \<Rightarrow> pmm \<Rightarrow> pmm res" where
  "free_link block former latter s =
     bindE (st block (\<lambda>n. n\<lparr>b_prev := former, b_next := latter\<rparr>) s) (\<lambda>s.
     bindE (st former (\<lambda>n. n\<lparr>b_next := block\<rparr>) s) (\<lambda>s.
     bindE (st latter (\<lambda>n. n\<lparr>b_prev := block\<rparr>) s) (\<lambda>s.
     bindE (st block (\<lambda>n. n\<lparr>b_state := UNALLOCATED\<rparr>) s) (\<lambda>s.
     Inr (s\<lparr>list_size := list_size s + 1\<rparr>)))))"

definition free_insert :: "bptr \<Rightarrow> pmm \<Rightarrow> pmm res" where
  "free_insert block s =
     bindE (ld s block) (\<lambda>b.
     bindE (assertE (b_state b = ALLOCATED)) (\<lambda>_.
     bindE (ld s (free_head s)) (\<lambda>h.
     bindE (free_seek WALK block (free_head s) (b_next h) s) (\<lambda>(former, latter).
     bindE (free_between former block latter s) (\<lambda>c.
     bindE (assertE c) (\<lambda>_.
     bindE (free_link block former latter s) (\<lambda>s.
     bindE (free_adjcent block latter s) (\<lambda>adj1.
     bindE (if adj1 then free_merge block latter s else Inr s) (\<lambda>s.
     bindE (free_adjcent former block s) (\<lambda>adj2.
     bindE (if adj2 then free_merge former block s else Inr s) (\<lambda>s.
     bindE (free_check s) (\<lambda>_. Inr s))))))))))))"

definition free_delete :: "bptr \<Rightarrow> pmm \<Rightarrow> pmm res" where
  "free_delete block s =
     bindE (assertE (block \<noteq> free_head s)) (\<lambda>_.
     bindE (assertE (block \<noteq> free_tail s)) (\<lambda>_.
     bindE (ld s block) (\<lambda>b.
     bindE (assertE (b_state b = UNALLOCATED)) (\<lambda>_.
     let former = b_prev b; latter = b_next b in
     bindE (st former (\<lambda>n. n\<lparr>b_next := latter\<rparr>) s) (\<lambda>s.
     bindE (st latter (\<lambda>n. n\<lparr>b_prev := former\<rparr>) s) (\<lambda>s.
     bindE (st block (\<lambda>n. n\<lparr>b_prev := BNull, b_next := BNull, b_state := ALLOCATED\<rparr>) s) (\<lambda>s.
     Inr (s\<lparr>list_size := list_size s - 1\<rparr>))))))))"

text \<open>The doubling loop of \<^verbatim>\<open>free_find\<close>; \<open>None\<close> when it never ends.\<close>

partial_function (option) grow :: "u32 \<Rightarrow> u32 \<Rightarrow> u32 option" where
  "grow newsz sz = (if newsz < sz then grow (push_bit 1 newsz) sz else Some newsz)"

declare grow.simps [code]

fun find_loop :: "nat \<Rightarrow> u32 \<Rightarrow> bptr \<Rightarrow> pmm \<Rightarrow> bptr res" where
  "find_loop 0 newsz block s = Inl Diverge"
| "find_loop (Suc fuel) newsz block s =
     (if block = free_tail s then Inr block
      else
        bindE (ld s block) (\<lambda>b.
        if b_size b < newsz then
          bindE (assertE (b_state b = UNALLOCATED)) (\<lambda>_. find_loop fuel newsz (b_next b) s)
        else Inr block))"

definition free_find :: "u32 \<Rightarrow> pmm \<Rightarrow> (bptr \<times> pmm) res" where
  "free_find sz s =
     (case grow 1024 sz of
        None \<Rightarrow> Inl Diverge
      | Some newsz \<Rightarrow>
          bindE (ld s (free_head s)) (\<lambda>h.
          bindE (find_loop WALK newsz (b_next h) s) (\<lambda>block.
          bindE (assertE (block \<noteq> free_tail s)) (\<lambda>_.
          bindE (ld s block) (\<lambda>b.
          bindE (assertE (newsz \<le> b_size b)) (\<lambda>_.
          bindE (if 2 * newsz \<le> b_size b then free_cut block newsz s else Inr s) (\<lambda>s.
          bindE (free_delete block s) (\<lambda>s.
          Inr (block, s)))))))))"

section \<open>Printing the free list\<close>

definition state_code :: "block_state \<Rightarrow> u32" where
  "state_code x = (case x of UNUSED \<Rightarrow> 0 | UNALLOCATED \<Rightarrow> 1 | ALLOCATED \<Rightarrow> 2)"

fun free_print_loop :: "nat \<Rightarrow> bptr \<Rightarrow> pmm \<Rightarrow> string res" where
  "free_print_loop 0 block s = Inl Diverge"
| "free_print_loop (Suc fuel) block s =
     (if block = free_tail s then Inr []
      else
        bindE (ld s block) (\<lambda>b.
        bindE (ld s (b_next b)) (\<lambda>n.
        bindE (printf (''%4d   %2d   %8dKB  %10x    %4d'' @ newline)
                 [VInt (of_nat (b_id b)), VInt (state_code (b_state b)), VInt (b_size b div 1024),
                  VInt (b_begin b), VInt (of_nat (b_id n))]) (\<lambda>(_, line).
        bindE (free_print_loop fuel (b_next b) s) (\<lambda>rest. Inr (line @ rest))))))"

definition free_print :: "pmm \<Rightarrow> string res" where
  "free_print s =
     bindE (ld s (free_head s)) (\<lambda>h.
     bindE (free_print_loop WALK (b_next h) s) (\<lambda>body.
     let rule = replicate 45 (CHR ''-'') @ newline in
     Inr (rule @ ''  id   state      size      begin     next_id'' @ newline @ rule @ body @
          rule @ newline)))"

definition free_print2 :: "nat \<Rightarrow> u32 \<Rightarrow> pmm \<Rightarrow> (string \<times> pmm) res" where
  "free_print2 cpu flag s =
     bindE (naivelock_lock (memoplk s)) (\<lambda>l.
     let s = s\<lparr>memoplk := l\<rparr> in
     bindE (printf (''[CPU: %d Flag: %d]'' @ newline) [VInt (of_nat cpu), VInt flag]) (\<lambda>(_, hd).
     bindE (free_print s) (\<lambda>body.
     Inr (hd @ body, s\<lparr>memoplk := naivelock_unlock (memoplk s)\<rparr>))))"

section \<open>The interface\<close>

text \<open>\<open>hs\<close> and \<open>he\<close> are the bounds \<^verbatim>\<open>_heap.start\<close> and \<^verbatim>\<open>_heap.end\<close> the abstract machine reports.\<close>

definition pmm_init :: "u32 \<Rightarrow> u32 \<Rightarrow> pmm \<Rightarrow> procfs \<Rightarrow> (pmm \<times> procfs) res" where
  "pmm_init hs he s pf =
     bindE (naivelock_lock (memoplk s)) (\<lambda>l.
     let s = s\<lparr>memoplk := l, pm_start := hs, pm_end := he\<rparr>;
         pf = pf\<lparr>mem_total := ucast (he - hs)\<rparr>;
         s = free_init hs he s
     in Inr (s\<lparr>memoplk := naivelock_unlock (memoplk s)\<rparr>, pf))"

definition kalloc :: "u32 \<Rightarrow> pmm \<Rightarrow> procfs \<Rightarrow> (u32 \<times> pmm \<times> procfs) res" where
  "kalloc sz s pf =
     (if sz = 0 then Inr (0, s, pf)
      else
        bindE (naivelock_lock (memoplk s)) (\<lambda>l.
        let s = s\<lparr>memoplk := l\<rparr> in
        bindE (free_find sz s) (\<lambda>(block, s).
        bindE (ld s block) (\<lambda>b.
        bindE (procfs_mem_trace (ucast (b_size b)) 0 pf) (\<lambda>pf.
        bindE (assertE (block \<noteq> BNull)) (\<lambda>_.
        bindE (free_check s) (\<lambda>_.
        bindE (assertE (b_begin b \<noteq> 0)) (\<lambda>_.
        Inr (b_begin b, s\<lparr>memoplk := naivelock_unlock (memoplk s)\<rparr>, pf)))))))))"

definition kfree :: "u32 \<Rightarrow> pmm \<Rightarrow> procfs \<Rightarrow> (pmm \<times> procfs) res" where
  "kfree ptr s pf =
     bindE (naivelock_lock (memoplk s)) (\<lambda>l.
     let s = s\<lparr>memoplk := l\<rparr> in
     bindE (find_allocated_block ptr s) (\<lambda>idx.
     bindE (procfs_mem_trace (ucast (b_size (blk s (Pool idx)))) 1 pf) (\<lambda>pf.
     bindE (free_insert (Pool idx) s) (\<lambda>s.
     Inr (s\<lparr>memoplk := naivelock_unlock (memoplk s)\<rparr>, pf)))))"

end
