(* ===== verification/Linked.thy ===== *)
theory Linked
  imports Main
begin

text \<open>
  Doubly linked lists over arbitrary pointers.  \<open>linked nxt prv ps\<close> says that the forward and the
  backward links run along \<open>ps\<close>; the lemmas give the effect of linking a node in, of taking one out
  and of changing nodes away from the list.
\<close>

fun linked :: "('p \<Rightarrow> 'p) \<Rightarrow> ('p \<Rightarrow> 'p) \<Rightarrow> 'p list \<Rightarrow> bool" where
  "linked nxt prv (p # q # r) = (nxt p = q \<and> prv q = p \<and> linked nxt prv (q # r))"
| "linked nxt prv _ = True"

lemma linked_append:
  "linked nxt prv (xs @ p # q # ys) \<longleftrightarrow>
     linked nxt prv (xs @ [p]) \<and> nxt p = q \<and> prv q = p \<and> linked nxt prv (q # ys)"
proof (induction xs)
  case (Cons x xs)
  then show ?case by (cases xs) auto
qed simp

lemma linked_tail: "linked nxt prv (xs @ ys) \<Longrightarrow> linked nxt prv ys"
proof (induction xs)
  case (Cons x xs)
  then show ?case by (cases "xs @ ys") auto
qed simp

lemma linked_cong:
  assumes "\<And>p. p \<in> set (butlast ps) \<Longrightarrow> nxt p = nxt' p" and "\<And>p. p \<in> set (tl ps) \<Longrightarrow> prv p = prv' p"
  shows "linked nxt prv ps = linked nxt' prv' ps"
  using assms by (induction nxt prv ps rule: linked.induct) auto

lemma in_set_tl: "x \<in> set (tl ys) \<Longrightarrow> x \<in> set ys"
  by (cases ys) auto

text \<open>Links that change only at the ends of a segment leave the segment linked.\<close>

lemma linked_prefix_frame:
  assumes "p \<notin> set xs" and "m \<notin> set (xs @ [p])" and "q \<notin> set (xs @ [p])"
    and "\<And>r. r \<noteq> p \<Longrightarrow> r \<noteq> m \<Longrightarrow> nxt' r = nxt r" "\<And>r. r \<noteq> q \<Longrightarrow> r \<noteq> m \<Longrightarrow> prv' r = prv r"
  shows "linked nxt' prv' (xs @ [p]) = linked nxt prv (xs @ [p])"
proof (rule linked_cong)
  fix r assume "r \<in> set (butlast (xs @ [p]))"
  then have "r \<noteq> p" "r \<noteq> m" using assms(1,2) by auto
  then show "nxt' r = nxt r" by (rule assms(4))
next
  fix r assume "r \<in> set (tl (xs @ [p]))"
  then have "r \<in> set (xs @ [p])" by (rule in_set_tl)
  then have "r \<noteq> q" "r \<noteq> m" using assms(2,3) by auto
  then show "prv' r = prv r" by (rule assms(5))
qed

lemma linked_suffix_frame:
  assumes "q \<notin> set ys" and "m \<notin> set (q # ys)" and "p \<notin> set (q # ys)"
    and "\<And>r. r \<noteq> p \<Longrightarrow> r \<noteq> m \<Longrightarrow> nxt' r = nxt r" "\<And>r. r \<noteq> q \<Longrightarrow> r \<noteq> m \<Longrightarrow> prv' r = prv r"
  shows "linked nxt' prv' (q # ys) = linked nxt prv (q # ys)"
proof (rule linked_cong)
  fix r assume "r \<in> set (butlast (q # ys))"
  then have "r \<in> set (q # ys)" by (rule in_set_butlastD)
  then have "r \<noteq> p" "r \<noteq> m" using assms(2,3) by auto
  then show "nxt' r = nxt r" by (rule assms(4))
next
  fix r assume "r \<in> set (tl (q # ys))"
  then have "r \<noteq> q" "r \<noteq> m" using assms(1,2) by auto
  then show "prv' r = prv r" by (rule assms(5))
qed

lemma linked_insert:
  assumes "linked nxt prv (xs @ p # q # ys)" and "distinct (xs @ p # m # q # ys)"
    and "nxt' p = m" "prv' q = m" "prv' m = p" "nxt' m = q"
    and "\<And>r. r \<noteq> p \<Longrightarrow> r \<noteq> m \<Longrightarrow> nxt' r = nxt r" "\<And>r. r \<noteq> q \<Longrightarrow> r \<noteq> m \<Longrightarrow> prv' r = prv r"
  shows "linked nxt' prv' (xs @ p # m # q # ys)"
proof -
  from assms(1) have pre: "linked nxt prv (xs @ [p])" and suf: "linked nxt prv (q # ys)"
    by (simp_all add: linked_append)
  have "linked nxt' prv' (xs @ [p]) = linked nxt prv (xs @ [p])"
    by (rule linked_prefix_frame [where m = m and q = q]) (use assms(2,7,8) in auto)
  moreover have "linked nxt' prv' (q # ys) = linked nxt prv (q # ys)"
    by (rule linked_suffix_frame [where m = m and p = p]) (use assms(2,7,8) in auto)
  ultimately have "linked nxt' prv' (m # q # ys)" "linked nxt' prv' (xs @ [p])"
    using pre suf assms(4,6) by simp_all
  with assms(3,5) show ?thesis by (simp add: linked_append [of nxt' prv' xs p m])
qed

lemma linked_remove:
  assumes "linked nxt prv (xs @ p # m # q # ys)" and "distinct (xs @ p # m # q # ys)"
    and "nxt' p = q" "prv' q = p"
    and "\<And>r. r \<noteq> p \<Longrightarrow> r \<noteq> m \<Longrightarrow> nxt' r = nxt r" "\<And>r. r \<noteq> q \<Longrightarrow> r \<noteq> m \<Longrightarrow> prv' r = prv r"
  shows "linked nxt' prv' (xs @ p # q # ys)"
proof -
  from assms(1) have pre: "linked nxt prv (xs @ [p])" and suf: "linked nxt prv (q # ys)"
    by (simp_all add: linked_append [of nxt prv xs p m])
  have "linked nxt' prv' (xs @ [p]) = linked nxt prv (xs @ [p])"
    by (rule linked_prefix_frame [where m = m and q = q]) (use assms(2,5,6) in auto)
  moreover have "linked nxt' prv' (q # ys) = linked nxt prv (q # ys)"
    by (rule linked_suffix_frame [where m = m and p = p]) (use assms(2,5,6) in auto)
  ultimately show ?thesis
    using pre suf assms(3,4) by (simp add: linked_append)
qed

end
