(* ===== verification/Alloc_List.thy ===== *)
theory Alloc_List
  imports Alloc Linked
begin

text \<open>
  The free list of the allocator as a list of pool indices, and the effect of every list operation
  of \<^verbatim>\<open>alloc.c\<close> on it.  \<open>free_list s L\<close> relates the links to \<open>L\<close>; \<open>dat s\<close> is the pool without the
  links.  Each lemma runs one operation of the code and gives the new \<open>L\<close> and the new \<open>dat\<close>.
\<close>

section \<open>Abstraction\<close>

definition ptrs :: "nat list \<Rightarrow> bptr list" where
  "ptrs L = Special 0 # map Pool L @ [Special 1]"

definition lastp :: "nat list \<Rightarrow> bptr" where
  "lastp xs = last (Special 0 # map Pool xs)"

definition firstp :: "nat list \<Rightarrow> bptr" where
  "firstp ys = hd (map Pool ys @ [Special 1])"

abbreviation nx :: "pmm \<Rightarrow> bptr \<Rightarrow> bptr" where
  "nx s p \<equiv> b_next (blk s p)"

abbreviation pv :: "pmm \<Rightarrow> bptr \<Rightarrow> bptr" where
  "pv s p \<equiv> b_prev (blk s p)"

definition free_list :: "pmm \<Rightarrow> nat list \<Rightarrow> bool" where
  "free_list s L \<longleftrightarrow> free_head s = Special 0 \<and> free_tail s = Special 1 \<and> linked (nx s) (pv s) (ptrs L) \<and>
     distinct L \<and> set L \<subseteq> {..<POOL_SIZE} \<and> list_size s = of_nat (length L)"

definition dat :: "pmm \<Rightarrow> nat \<Rightarrow> mem_block" where
  "dat s i = (blk s (Pool i))\<lparr>b_prev := BNull, b_next := BNull\<rparr>"

text \<open>The globals no list operation writes.\<close>

definition frame :: "pmm \<Rightarrow> pmm \<Rightarrow> bool" where
  "frame s s' \<longleftrightarrow> pm_start s' = pm_start s \<and> pm_end s' = pm_end s \<and> memoplk s' = memoplk s"

lemma frame_refl [simp]: "frame s s"
  by (simp add: frame_def)

lemma frame_trans: "frame s t \<Longrightarrow> frame t u \<Longrightarrow> frame s u"
  by (simp add: frame_def)

lemma dat_simps [simp]:
  "b_id (dat s i) = b_id (blk s (Pool i))"
  "b_state (dat s i) = b_state (blk s (Pool i))"
  "b_size (dat s i) = b_size (blk s (Pool i))"
  "b_begin (dat s i) = b_begin (blk s (Pool i))"
  "b_end (dat s i) = b_end (blk s (Pool i))"
  by (simp_all add: dat_def)

lemma ptrs_join:
  "ptrs (xs @ ys) = butlast (Special 0 # map Pool xs) @ lastp xs # firstp ys # tl (map Pool ys @ [Special 1])"
proof -
  have "Special 0 # map Pool xs = butlast (Special 0 # map Pool xs) @ [lastp xs]"
    unfolding lastp_def by (rule append_butlast_last_id [symmetric]) simp
  moreover have "map Pool ys @ [Special 1] = firstp ys # tl (map Pool ys @ [Special 1])"
    unfolding firstp_def by (rule list.collapse [symmetric]) simp
  ultimately show ?thesis
    by (metis append.assoc append_Cons append_Nil map_append ptrs_def)
qed

lemma ptrs_split:
  "ptrs (xs @ i # ys) =
     butlast (Special 0 # map Pool xs) @ lastp xs # Pool i # firstp ys # tl (map Pool ys @ [Special 1])"
proof -
  have "firstp (i # ys) = Pool i" and "tl (map Pool (i # ys) @ [Special 1]) = map Pool ys @ [Special 1]"
    by (simp_all add: firstp_def)
  moreover have "map Pool ys @ [Special 1] = firstp ys # tl (map Pool ys @ [Special 1])"
    unfolding firstp_def by (rule list.collapse [symmetric]) simp
  ultimately show ?thesis
    by (simp add: ptrs_join [of xs "i # ys"])
qed

lemma distinct_ptrs: "distinct (ptrs L) = distinct L"
  by (auto simp: ptrs_def distinct_map inj_on_def)

lemma lastp_cases: "lastp xs = Special 0 \<or> (\<exists>i \<in> set xs. lastp xs = Pool i)"
  unfolding lastp_def by (cases xs rule: rev_cases) auto

lemma firstp_cases: "firstp ys = Special 1 \<or> (\<exists>i \<in> set ys. firstp ys = Pool i)"
  unfolding firstp_def by (cases ys) auto

lemma lastp_neq [simp]: "lastp xs \<noteq> BNull" "lastp xs \<noteq> Special 1" "lastp xs \<noteq> Special (Suc 0)"
  using lastp_cases [of xs] by auto

lemma firstp_neq [simp]: "firstp ys \<noteq> BNull" "firstp ys \<noteq> Special 0"
  using firstp_cases [of ys] by auto

lemma lastp_Pool [simp]: "i \<notin> set xs \<Longrightarrow> lastp xs \<noteq> Pool i"
  using lastp_cases [of xs] by auto

lemma firstp_Pool [simp]: "i \<notin> set ys \<Longrightarrow> firstp ys \<noteq> Pool i"
  using firstp_cases [of ys] by auto

lemma lastp_firstp: "distinct (xs @ ys) \<Longrightarrow> lastp xs \<noteq> firstp ys"
  using lastp_cases [of xs] firstp_cases [of ys] by auto

lemma lastp_simps [simp]: "lastp [] = Special 0" "lastp (xs @ [i]) = Pool i"
  by (simp_all add: lastp_def)

lemma firstp_simps [simp]: "firstp [] = Special 1" "firstp (i # ys) = Pool i"
  by (simp_all add: firstp_def)

lemma free_list_length: "free_list s L \<Longrightarrow> length L \<le> POOL_SIZE"
  using card_mono [of "{..<POOL_SIZE}" "set L"] by (simp add: free_list_def distinct_card)

lemma free_list_nbrs:
  assumes "free_list s (xs @ i # ys)"
  shows "pv s (Pool i) = lastp xs" "nx s (Pool i) = firstp ys"
    "nx s (lastp xs) = Pool i" "pv s (firstp ys) = Pool i"
  using assms unfolding free_list_def ptrs_split by (simp_all add: linked_append)

lemma free_list_join:
  assumes "free_list s (xs @ ys)"
  shows "nx s (lastp xs) = firstp ys" "pv s (firstp ys) = lastp xs"
  using assms unfolding free_list_def ptrs_join by (simp_all add: linked_append)

section \<open>free_check\<close>

lemma free_check_loop_ok:
  assumes "free_list s (xs @ ys)" and "length ys < fuel"
  shows "free_check_loop fuel s (firstp ys) cnt = Inr (cnt + length ys)"
  using assms
proof (induction ys arbitrary: xs fuel cnt)
  case Nil
  then show ?case by (cases fuel) (auto simp: free_list_def)
next
  case (Cons i ys)
  then obtain f where f: "fuel = Suc f" by (cases fuel) auto
  from Cons.prems(1) have tail: "free_tail s = Special 1" by (simp add: free_list_def)
  note nbrs = free_list_nbrs [OF Cons.prems(1)]
  have "free_check_loop f s (firstp ys) (cnt + 1) = Inr (cnt + 1 + length ys)"
    using Cons.IH [of "xs @ [i]" f] Cons.prems f by simp
  then show ?case by (simp add: f tail nbrs ld_def)
qed

lemma free_check_ok: "free_list s L \<Longrightarrow> free_check s = Inr ()"
proof -
  assume L: "free_list s L"
  have "nx s (Special 0) = firstp L"
    using free_list_join [of s "[]" L] L by simp
  moreover have "free_check_loop WALK s (firstp L) 0 = Inr (length L)"
    using free_check_loop_ok [of s "[]" L WALK 0] L free_list_length [OF L] by (simp add: WALK_def)
  ultimately show ?thesis
    using L by (simp add: free_check_def free_list_def ld_def)
qed

section \<open>free_delete\<close>

lemma free_delete_run:
  assumes L: "free_list s (xs @ i # ys)" and st: "b_state (blk s (Pool i)) = UNALLOCATED"
  shows "\<exists>s'. free_delete (Pool i) s = Inr s' \<and> free_list s' (xs @ ys) \<and> frame s s' \<and>
           dat s' = (dat s)(i := (dat s i)\<lparr>b_state := ALLOCATED\<rparr>)"
proof -
  let ?p = "lastp xs" and ?q = "firstp ys"
  have ht: "free_head s = Special 0" "free_tail s = Special 1" and d: "distinct (xs @ i # ys)"
    using L by (simp_all add: free_list_def)
  note nbrs = free_list_nbrs [OF L]
  have neq: "?p \<noteq> ?q" "?p \<noteq> Pool i" "?q \<noteq> Pool i"
    using d lastp_firstp [of xs ys] by auto
  define b where "b = ((blk s)(?p := (blk s ?p)\<lparr>b_next := ?q\<rparr>, ?q := (blk s ?q)\<lparr>b_prev := ?p\<rparr>,
    Pool i := (blk s (Pool i))\<lparr>b_prev := BNull, b_next := BNull, b_state := ALLOCATED\<rparr>))"
  define s' where "s' = s\<lparr>blk := b, list_size := list_size s - 1\<rparr>"
  have "free_delete (Pool i) s = Inr s'"
    using neq by (simp add: free_delete_def ht nbrs st ld_def st_def Let_def s'_def b_def)
  moreover have "linked (nx s') (pv s') (ptrs (xs @ ys))"
    unfolding ptrs_join
  proof (rule linked_remove [where m = "Pool i" and nxt = "nx s" and prv = "pv s"])
    show "linked (nx s) (pv s) (butlast (Special 0 # map Pool xs) @ ?p # Pool i # ?q # tl (map Pool ys @ [Special 1]))"
      using L by (simp add: free_list_def ptrs_split)
    show "distinct (butlast (Special 0 # map Pool xs) @ ?p # Pool i # ?q # tl (map Pool ys @ [Special 1]))"
      using d distinct_ptrs [of "xs @ i # ys"] by (simp add: ptrs_split)
  qed (use neq in \<open>auto simp: s'_def b_def\<close>)
  then have "free_list s' (xs @ ys)"
    using L by (auto simp: free_list_def s'_def)
  moreover have "dat s' = (dat s)(i := (dat s i)\<lparr>b_state := ALLOCATED\<rparr>)"
    using neq by (auto simp: fun_eq_iff dat_def s'_def b_def)
  ultimately show ?thesis by (auto simp: frame_def s'_def)
qed

section \<open>free_cut\<close>

lemma get_unused_blockD:
  "get_unused_block s = Inr n \<Longrightarrow> n < POOL_SIZE \<and> b_state (blk s (Pool n)) = UNUSED"
  by (auto simp: get_unused_block_def dest!: first_idx_SomeD split: option.splits)

lemma free_cut_run:
  assumes L: "free_list s (xs @ i # ys)" and st: "b_state (blk s (Pool i)) = UNALLOCATED"
    and n: "get_unused_block s = Inr n" "b_id (blk s (Pool n)) = n" "n \<notin> set (xs @ i # ys)"
  shows "\<exists>s'. free_cut (Pool i) sz s = Inr s' \<and> free_list s' (xs @ i # n # ys) \<and> frame s s' \<and>
           dat s' = (dat s)(n := (dat s n)\<lparr>b_begin := b_begin (dat s i) + sz, b_end := b_end (dat s i),
                                           b_size := b_size (dat s i) - sz, b_state := UNALLOCATED\<rparr>,
                            i := (dat s i)\<lparr>b_end := b_begin (dat s i) + sz, b_size := sz\<rparr>)"
proof -
  let ?i = "Pool i" and ?m = "Pool n" and ?q = "firstp ys"
  have d: "distinct (xs @ i # ys)"
    using L by (simp_all add: free_list_def)
  note nbrs = free_list_nbrs [OF L]
  have neq: "?q \<noteq> ?i" "?q \<noteq> ?m" "?i \<noteq> ?m" "?m \<noteq> ?i"
    using d n(3) by auto
  define b where "b = ((blk s)(
      ?m := (blk s ?m)\<lparr>b_prev := ?i, b_next := ?q, b_begin := b_begin (blk s ?i) + sz,
                       b_end := b_end (blk s ?i), b_size := b_size (blk s ?i) - sz,
                       b_state := UNALLOCATED\<rparr>,
      ?q := (blk s ?q)\<lparr>b_prev := ?m\<rparr>,
      ?i := (blk s ?i)\<lparr>b_next := ?m, b_end := b_begin (blk s ?i) + sz, b_size := sz\<rparr>))"
  define s' where "s' = s\<lparr>blk := b, list_size := list_size s + 1\<rparr>"
  have "free_cut ?i sz s = Inr s'"
    using neq get_unused_blockD [OF n(1)]
    by (simp add: free_cut_def nbrs st n(1,2) ld_def st_def Let_def s'_def b_def)
      (auto simp: fun_eq_iff intro!: arg_cong [where f = "\<lambda>b. blk_update (\<lambda>_. b) s" for s])
  moreover have "linked (nx s') (pv s') (ptrs (xs @ i # n # ys))"
  proof -
    have "linked (nx s') (pv s') (butlast (Special 0 # map Pool (xs @ [i])) @ ?i # ?m # ?q # tl (map Pool ys @ [Special 1]))"
    proof (rule linked_insert [where nxt = "nx s" and prv = "pv s"])
      show "linked (nx s) (pv s) (butlast (Special 0 # map Pool (xs @ [i])) @ ?i # ?q # tl (map Pool ys @ [Special 1]))"
        using L ptrs_join [of "xs @ [i]" ys] by (simp add: free_list_def)
      show "distinct (butlast (Special 0 # map Pool (xs @ [i])) @ ?i # ?m # ?q # tl (map Pool ys @ [Special 1]))"
        using d n(3) distinct_ptrs [of "(xs @ [i]) @ n # ys"] ptrs_split [of "xs @ [i]" n ys] by simp
    qed (use neq in \<open>auto simp: s'_def b_def\<close>)
    then show ?thesis using ptrs_split [of "xs @ [i]" n ys] by simp
  qed
  then have "free_list s' (xs @ i # n # ys)"
    using L n(3) get_unused_blockD [OF n(1)] by (auto simp: free_list_def s'_def)
  moreover have "dat s' = (dat s)(n := (dat s n)\<lparr>b_begin := b_begin (dat s i) + sz, b_end := b_end (dat s i),
                                           b_size := b_size (dat s i) - sz, b_state := UNALLOCATED\<rparr>,
                            i := (dat s i)\<lparr>b_end := b_begin (dat s i) + sz, b_size := sz\<rparr>)"
    using neq by (auto simp: fun_eq_iff dat_def s'_def b_def)
  ultimately show ?thesis by (auto simp: frame_def s'_def)
qed

section \<open>free_insert\<close>

lemma free_link_run:
  assumes L: "free_list s (xs @ ys)" and i: "i \<notin> set (xs @ ys)" "i < POOL_SIZE"
  shows "\<exists>s'. free_link (Pool i) (lastp xs) (firstp ys) s = Inr s' \<and> free_list s' (xs @ i # ys) \<and>
           frame s s' \<and> dat s' = (dat s)(i := (dat s i)\<lparr>b_state := UNALLOCATED\<rparr>)"
proof -
  let ?p = "lastp xs" and ?i = "Pool i" and ?q = "firstp ys"
  have d: "distinct (xs @ i # ys)" and d': "distinct (xs @ ys)"
    using L i by (simp_all add: free_list_def)
  have neq: "?p \<noteq> ?q" "?p \<noteq> ?i" "?q \<noteq> ?i"
    using i lastp_firstp [OF d'] by auto
  note neq = neq neq(2,3) [THEN not_sym]
  define b where "b = ((blk s)(
      ?p := (blk s ?p)\<lparr>b_next := ?i\<rparr>, ?q := (blk s ?q)\<lparr>b_prev := ?i\<rparr>,
      ?i := (blk s ?i)\<lparr>b_prev := ?p, b_next := ?q, b_state := UNALLOCATED\<rparr>))"
  define s' where "s' = s\<lparr>blk := b, list_size := list_size s + 1\<rparr>"
  have "free_link ?i ?p ?q s = Inr s'"
    using neq by (simp add: free_link_def st_def s'_def b_def)
  moreover have "linked (nx s') (pv s') (ptrs (xs @ i # ys))"
    unfolding ptrs_split
  proof (rule linked_insert [where nxt = "nx s" and prv = "pv s"])
    show "linked (nx s) (pv s) (butlast (Special 0 # map Pool xs) @ ?p # ?q # tl (map Pool ys @ [Special 1]))"
      using L by (simp add: free_list_def ptrs_join)
    show "distinct (butlast (Special 0 # map Pool xs) @ ?p # ?i # ?q # tl (map Pool ys @ [Special 1]))"
      using d distinct_ptrs [of "xs @ i # ys"] by (simp add: ptrs_split)
  qed (use neq in \<open>auto simp: s'_def b_def\<close>)
  then have "free_list s' (xs @ i # ys)"
    using L i by (auto simp: free_list_def s'_def)
  moreover have "dat s' = (dat s)(i := (dat s i)\<lparr>b_state := UNALLOCATED\<rparr>)"
    using neq by (auto simp: fun_eq_iff dat_def s'_def b_def)
  ultimately show ?thesis by (auto simp: frame_def s'_def)
qed

lemma free_adjcent_Pool:
  "free_list s L \<Longrightarrow> free_adjcent (Pool i) (Pool j) s = Inr (b_end (dat s i) = b_begin (dat s j))"
  by (simp add: free_adjcent_def free_list_def ld_def)

lemma free_adjcent_ends:
  "free_list s L \<Longrightarrow> free_adjcent (Special 0) q s = Inr False"
  "free_list s L \<Longrightarrow> free_adjcent p (Special 1) s = Inr False"
  by (simp_all add: free_adjcent_def free_list_def)

lemma free_merge_run:
  assumes L: "free_list s (xs @ i # j # ys)"
    and st: "b_state (blk s (Pool i)) = UNALLOCATED" "b_state (blk s (Pool j)) = UNALLOCATED"
    and adj: "b_end (blk s (Pool i)) = b_begin (blk s (Pool j))"
    and sz: "b_end (blk s (Pool j)) - b_begin (blk s (Pool i)) = b_size (blk s (Pool i)) + b_size (blk s (Pool j))"
  shows "\<exists>s'. free_merge (Pool i) (Pool j) s = Inr s' \<and> free_list s' (xs @ i # ys) \<and> frame s s' \<and>
           dat s' = (dat s)(i := (dat s i)\<lparr>b_end := b_end (dat s j), b_size := b_end (dat s j) - b_begin (dat s i)\<rparr>,
                            j := (dat s j)\<lparr>b_state := UNUSED\<rparr>)"
proof -
  let ?i = "Pool i" and ?j = "Pool j" and ?q = "firstp ys"
  have ht: "free_head s = Special 0" "free_tail s = Special 1" and d: "distinct (xs @ i # j # ys)"
    using L by (simp_all add: free_list_def)
  note nbrs = free_list_nbrs [of s "xs @ [i]" j ys, simplified, OF L]
  have neq: "?q \<noteq> ?i" "?q \<noteq> ?j" "i \<noteq> j" "j \<noteq> i"
    using d by auto
  define b where "b = ((blk s)(
      ?q := (blk s ?q)\<lparr>b_prev := ?i\<rparr>,
      ?i := (blk s ?i)\<lparr>b_next := ?q, b_end := b_end (blk s ?j), b_size := b_end (blk s ?j) - b_begin (blk s ?i)\<rparr>,
      ?j := (blk s ?j)\<lparr>b_prev := BNull, b_next := BNull, b_state := UNUSED\<rparr>))"
  define s' where "s' = s\<lparr>blk := b, list_size := list_size s - 1\<rparr>"
  have "linked (nx s') (pv s') (ptrs (xs @ i # ys))"
  proof -
    have "linked (nx s') (pv s') (butlast (Special 0 # map Pool (xs @ [i])) @ ?i # ?q # tl (map Pool ys @ [Special 1]))"
    proof (rule linked_remove [where m = ?j and nxt = "nx s" and prv = "pv s"])
      show "linked (nx s) (pv s) (butlast (Special 0 # map Pool (xs @ [i])) @ ?i # ?j # ?q # tl (map Pool ys @ [Special 1]))"
        using L ptrs_split [of "xs @ [i]" j ys] by (simp add: free_list_def)
      show "distinct (butlast (Special 0 # map Pool (xs @ [i])) @ ?i # ?j # ?q # tl (map Pool ys @ [Special 1]))"
        using d distinct_ptrs [of "(xs @ [i]) @ j # ys"] ptrs_split [of "xs @ [i]" j ys] by simp
    qed (use neq in \<open>auto simp: s'_def b_def\<close>)
    then show ?thesis using ptrs_join [of "xs @ [i]" ys] by simp
  qed
  then have L': "free_list s' (xs @ i # ys)"
    using L by (auto simp: free_list_def s'_def)
  have "free_merge ?i ?j s = bindE (free_check s') (\<lambda>_. Inr s')"
    using neq
    by (simp add: free_merge_def free_adjcent_Pool [OF L] adj ht st nbrs sz [unfolded adj] sz ld_def st_def Let_def)
      (auto simp: s'_def b_def sz fun_eq_iff intro!: arg_cong [where f = "\<lambda>s. bindE (free_check s) (\<lambda>_. Inr s)"]
        arg_cong [where f = "\<lambda>b. blk_update (\<lambda>_. b) s" for s])
  then have "free_merge ?i ?j s = Inr s'"
    by (simp add: free_check_ok [OF L'])
  moreover have "dat s' = (dat s)(i := (dat s i)\<lparr>b_end := b_end (dat s j), b_size := b_end (dat s j) - b_begin (dat s i)\<rparr>,
                            j := (dat s j)\<lparr>b_state := UNUSED\<rparr>)"
    using neq by (auto simp: fun_eq_iff dat_def s'_def b_def)
  ultimately show ?thesis using L' by (auto simp: frame_def s'_def)
qed

subsection \<open>The insertion point\<close>

lemma free_cmp_Pool:
  "free_list s L \<Longrightarrow> b_begin (dat s i) \<noteq> b_begin (dat s j) \<Longrightarrow>
     free_cmp (Pool i) (Pool j) s = Inr (b_begin (dat s i) < b_begin (dat s j))"
  by (simp add: free_cmp_def free_list_def ld_def)

lemma free_cmp_lastp:
  assumes "free_list s L" and "\<forall>x \<in> set xs. b_begin (dat s x) < b_begin (dat s i)"
  shows "free_cmp (lastp xs) (Pool i) s = Inr True"
proof (cases xs rule: rev_cases)
  case Nil
  then show ?thesis using assms by (simp add: free_cmp_def free_list_def)
next
  case (snoc us u)
  then show ?thesis using assms free_cmp_Pool [OF assms(1), of u i] by auto
qed

lemma free_seek_run:
  assumes "free_list s (xs @ ys)" and "length ys < fuel"
    and "\<forall>x \<in> set xs. b_begin (dat s x) < b_begin (dat s i)"
    and "\<forall>y \<in> set ys. b_begin (dat s y) \<noteq> b_begin (dat s i)"
  shows "\<exists>us vs. ys = us @ vs \<and> free_seek fuel (Pool i) (lastp xs) (firstp ys) s = Inr (lastp (xs @ us), firstp vs) \<and>
           (\<forall>u \<in> set us. b_begin (dat s u) < b_begin (dat s i)) \<and>
           (\<forall>v vs'. vs = v # vs' \<longrightarrow> b_begin (dat s i) < b_begin (dat s v)) \<and>
           free_between (lastp (xs @ us)) (Pool i) (firstp vs) s = Inr True"
  using assms
proof (induction ys arbitrary: xs fuel)
  case Nil
  then obtain f where "fuel = Suc f" by (cases fuel) auto
  moreover have "free_cmp (Pool i) (Special 1) s = Inr True"
    using Nil.prems(1) by (simp add: free_cmp_def free_list_def)
  ultimately show ?case
    using free_cmp_lastp [OF Nil.prems(1,3)] by (simp add: free_between_def)
next
  case (Cons y ys)
  then obtain f where f: "fuel = Suc f" by (cases fuel) auto
  have between: "free_between (lastp xs) (Pool i) (Pool y) s = Inr (b_begin (dat s i) < b_begin (dat s y))"
    using free_cmp_lastp [OF Cons.prems(1,3)] free_cmp_Pool [OF Cons.prems(1), of i y] Cons.prems(4)
    by (fastforce simp: free_between_def)
  show ?case
  proof (cases "b_begin (dat s i) < b_begin (dat s y)")
    case True
    with between f show ?thesis
      by (intro exI [of _ "[]"] exI [of _ "y # ys"]) simp
  next
    case False
    then have lt: "\<forall>x \<in> set (xs @ [y]). b_begin (dat s x) < b_begin (dat s i)"
      using Cons.prems(3,4) by (auto simp: not_less order.order_iff_strict)
    have "free_list s ((xs @ [y]) @ ys)" and "length ys < f"
      using Cons.prems f by simp_all
    from Cons.IH [OF this lt] Cons.prems(4) obtain us vs where IH:
      "ys = us @ vs" "free_seek f (Pool i) (lastp (xs @ [y])) (firstp ys) s = Inr (lastp ((xs @ [y]) @ us), firstp vs)"
      "\<forall>u \<in> set us. b_begin (dat s u) < b_begin (dat s i)"
      "\<forall>v vs'. vs = v # vs' \<longrightarrow> b_begin (dat s i) < b_begin (dat s v)"
      "free_between (lastp ((xs @ [y]) @ us)) (Pool i) (firstp vs) s = Inr True"
      by auto
    have "free_tail s = Special 1" using Cons.prems(1) by (simp add: free_list_def)
    then have "free_seek fuel (Pool i) (lastp xs) (firstp (y # ys)) s =
        free_seek f (Pool i) (lastp (xs @ [y])) (firstp ys) s"
      using between False free_list_nbrs [OF Cons.prems(1)] by (simp add: f ld_def)
    with IH lt show ?thesis
      by (intro exI [of _ "y # us"] exI [of _ vs]) simp
  qed
qed

section \<open>free_find\<close>

lemma find_loop_run:
  assumes "free_list s (xs @ ys)" and "length ys < fuel"
    and "\<forall>y \<in> set ys. b_state (dat s y) = UNALLOCATED"
  shows "find_loop fuel newsz (firstp ys) s =
           Inr (firstp (dropWhile (\<lambda>y. b_size (dat s y) < newsz) ys))"
  using assms
proof (induction ys arbitrary: xs fuel)
  case Nil
  then show ?case by (cases fuel) (auto simp: free_list_def)
next
  case (Cons y ys)
  then obtain f where f: "fuel = Suc f" by (cases fuel) auto
  have "free_tail s = Special 1" using Cons.prems(1) by (simp add: free_list_def)
  moreover have "find_loop f newsz (firstp ys) s =
      Inr (firstp (dropWhile (\<lambda>y. b_size (dat s y) < newsz) ys))"
    using Cons.IH [of "xs @ [y]" f] Cons.prems f by simp
  ultimately show ?case
    using free_list_nbrs [OF Cons.prems(1)] Cons.prems(3) by (simp add: f ld_def)
qed

end
