(* ===== verification/Alloc_Inv.thy ===== *)
theory Alloc_Inv
  imports Alloc_List
begin

text \<open>
  The invariant of the allocator and the correctness of \<^verbatim>\<open>kalloc\<close> and \<^verbatim>\<open>kfree\<close>.  The blocks in use
  partition the heap, the free list holds exactly the free blocks in address order and no two free
  blocks are adjacent.  The first part shows that splitting, merging and changing the owner of a block
  keep the partition; the second runs the code.
\<close>

section \<open>The partition of the heap\<close>

definition used :: "(nat \<Rightarrow> mem_block) \<Rightarrow> nat \<Rightarrow> bool" where
  "used d i \<longleftrightarrow> i < POOL_SIZE \<and> b_state (d i) \<noteq> UNUSED"

definition block_ok :: "mem_block \<Rightarrow> u32 \<Rightarrow> u32 \<Rightarrow> bool" where
  "block_ok b lo hi \<longleftrightarrow> lo \<le> b_begin b \<and> b_begin b < b_end b \<and> b_end b \<le> hi \<and> b_size b = b_end b - b_begin b"

definition apart :: "mem_block \<Rightarrow> mem_block \<Rightarrow> bool" where
  "apart b c \<longleftrightarrow> b_end b \<le> b_begin c \<or> b_end c \<le> b_begin b"

definition heap_ok :: "(nat \<Rightarrow> mem_block) \<Rightarrow> u32 \<Rightarrow> u32 \<Rightarrow> bool" where
  "heap_ok d lo hi \<longleftrightarrow>
     (\<forall>i < POOL_SIZE. b_id (d i) = i) \<and>
     (\<forall>i. used d i \<longrightarrow> block_ok (d i) lo hi) \<and>
     (\<forall>i j. used d i \<and> used d j \<and> i \<noteq> j \<longrightarrow> apart (d i) (d j)) \<and>
     (\<forall>x. lo \<le> x \<and> x < hi \<longrightarrow> (\<exists>i. used d i \<and> b_begin (d i) \<le> x \<and> x < b_end (d i)))"

definition free_set :: "(nat \<Rightarrow> mem_block) \<Rightarrow> nat list \<Rightarrow> bool" where
  "free_set d L \<longleftrightarrow> (\<forall>i < POOL_SIZE. i \<in> set L \<longleftrightarrow> b_state (d i) = UNALLOCATED)"

definition ordered :: "(nat \<Rightarrow> mem_block) \<Rightarrow> nat list \<Rightarrow> bool" where
  "ordered d L \<longleftrightarrow> sorted_wrt (\<lambda>i j. b_end (d i) < b_begin (d j)) L"

definition pool_ok :: "pmm \<Rightarrow> bool" where
  "pool_ok s \<longleftrightarrow> heap_ok (dat s) (pm_start s) (pm_end s) \<and>
     (\<exists>L. free_list s L \<and> free_set (dat s) L \<and> ordered (dat s) L)"

definition alloc_inv :: "pmm \<Rightarrow> bool" where
  "alloc_inv s \<longleftrightarrow> 0 < pm_start s \<and> pm_start s < pm_end s \<and> pm_end s - pm_start s < 2 ^ 31 \<and>
     memoplk s = UNLOCKED \<and> pool_ok s"

text \<open>What the clients hold: the address ranges of the allocated blocks, and their accounted size.\<close>

definition allocated :: "(nat \<Rightarrow> mem_block) \<Rightarrow> nat set" where
  "allocated d = {i. i < POOL_SIZE \<and> b_state (d i) = ALLOCATED}"

definition regions :: "(nat \<Rightarrow> mem_block) \<Rightarrow> (u32 \<times> u32) set" where
  "regions d = (\<lambda>i. (b_begin (d i), b_end (d i))) ` allocated d"

definition alloc_total :: "(nat \<Rightarrow> mem_block) \<Rightarrow> u64" where
  "alloc_total d = (\<Sum>i \<in> allocated d. ucast (b_size (d i)))"

lemma heap_ok_block: "heap_ok d lo hi \<Longrightarrow> used d i \<Longrightarrow> block_ok (d i) lo hi"
  by (simp add: heap_ok_def)

lemma heap_ok_apart: "heap_ok d lo hi \<Longrightarrow> used d i \<Longrightarrow> used d j \<Longrightarrow> i \<noteq> j \<Longrightarrow> apart (d i) (d j)"
  by (simp add: heap_ok_def)

subsection \<open>Address arithmetic\<close>

lemma cut_point:
  fixes b e z :: u32
  assumes "b < e" and "0 < z" and "z < e - b"
  shows "b < b + z \<and> b + z < e"
  using assms by unat_arith

lemma word_diff_le:
  fixes a b c d :: u32
  assumes "a \<le> b" and "b < c" and "c \<le> d"
  shows "c - b \<le> d - a"
  using assms by unat_arith

lemma block_size_pos: "block_ok b lo hi \<Longrightarrow> 0 < b_size b"
  unfolding block_ok_def by unat_arith

subsection \<open>Steps on the partition\<close>

lemma heap_ok_state:
  assumes "heap_ok d lo hi" and "used d i" and "w \<noteq> UNUSED"
  shows "heap_ok (d(i := (d i)\<lparr>b_state := w\<rparr>)) lo hi"
proof -
  let ?d = "d(i := (d i)\<lparr>b_state := w\<rparr>)"
  have "used ?d = used d"
    using assms(2,3) by (auto simp: used_def fun_eq_iff)
  moreover have "b_begin (?d j) = b_begin (d j)" "b_end (?d j) = b_end (d j)"
    "b_size (?d j) = b_size (d j)" "b_id (?d j) = b_id (d j)" for j
    by simp_all
  ultimately show ?thesis
    using assms(1) by (simp add: heap_ok_def block_ok_def apart_def del: fun_upd_apply)
qed

text \<open>
  Splitting and merging, stated for any pool \<open>d'\<close> that differs from \<open>d\<close> as the operation makes it differ.
\<close>

lemma apart_sym: "apart b c \<longleftrightarrow> apart c b"
  by (auto simp: apart_def)

lemma apart_part:
  assumes "apart b c" and "b_begin b \<le> b_begin b'" and "b_end b' \<le> b_end b"
  shows "apart b' c"
  using assms unfolding apart_def by (metis order.trans)

lemma apart_union:
  assumes "apart a c" and "apart b c" and "b_end a = b_begin b" and "b_begin c < b_end c"
    and "b_begin a' = b_begin a" and "b_end a' = b_end b"
  shows "apart a' c"
proof (rule ccontr)
  assume "\<not> apart a' c"
  then have "b_begin c < b_end b" and "b_begin a < b_end c"
    using assms by (auto simp: apart_def not_le)
  with assms(1-3) have "b_end a \<le> b_begin c" and "b_end c \<le> b_end a"
    by (auto simp: apart_def)
  then have "b_end c \<le> b_begin c" by (rule order.trans [rotated])
  with assms(4) show False by simp
qed

lemma heap_ok_cutI:
  assumes ok: "heap_ok d lo hi" and i: "used d i" and n: "n < POOL_SIZE" "b_state (d n) = UNUSED"
    and rest: "\<And>j. j \<noteq> i \<Longrightarrow> j \<noteq> n \<Longrightarrow> d' j = d j" and id: "b_id (d' i) = i" "b_id (d' n) = n"
    and st: "b_state (d' i) \<noteq> UNUSED" "b_state (d' n) \<noteq> UNUSED"
    and bi: "b_begin (d' i) = b_begin (d i)" "b_end (d' i) = c" "b_size (d' i) = c - b_begin (d i)"
    and bn: "b_begin (d' n) = c" "b_end (d' n) = b_end (d i)" "b_size (d' n) = b_end (d i) - c"
    and c: "b_begin (d i) < c" "c < b_end (d i)"
  shows "heap_ok d' lo hi"
proof -
  have ni: "n \<noteq> i" using i n by (auto simp: used_def)
  have used': "used d' j \<longleftrightarrow> used d j \<or> j = n" for j
    using i n st rest [of j] by (cases "j = i \<or> j = n") (auto simp: used_def)
  have bd: "block_ok (d i) lo hi" using ok i by (rule heap_ok_block)
  have part: "b_begin (d i) \<le> b_begin (d' j) \<and> b_end (d' j) \<le> b_end (d i)" if "j \<in> {i, n}" for j
    using that bi bn c by auto
  have "block_ok (d' j) lo hi" if "used d' j" for j
  proof (cases "j \<in> {i, n}")
    case True
    with bd bi bn c show ?thesis by (auto simp: block_ok_def)
  next
    case False
    with that used' rest ok show ?thesis by (simp add: heap_ok_block)
  qed
  moreover have "apart (d' j) (d' k)" if jk: "used d' j" "used d' k" "j \<noteq> k" for j k
  proof -
    have new: "apart (d' j) (d' k)" if "j \<in> {i, n}" "k \<notin> {i, n}" "used d k" for j k
    proof -
      have "apart (d i) (d k)" using ok i that by (intro heap_ok_apart) auto
      then show ?thesis using part [OF that(1)] rest that(2) by (simp add: apart_part)
    qed
    have "apart (d' i) (d' n)" using bi bn by (simp add: apart_def)
    then show ?thesis
      using jk used' new [of j k] new [of k j] apart_sym [of "d' j" "d' k"] apart_sym [of "d' i" "d' n"] rest ok
      by (cases "j \<in> {i, n}"; cases "k \<in> {i, n}") (auto simp: heap_ok_apart)
  qed
  moreover have "\<exists>j. used d' j \<and> b_begin (d' j) \<le> x \<and> x < b_end (d' j)" if x: "lo \<le> x" "x < hi" for x
  proof -
    from ok x obtain j where j: "used d j" "b_begin (d j) \<le> x" "x < b_end (d j)"
      by (auto simp: heap_ok_def)
    show ?thesis
    proof (cases "j = i")
      case True
      with j i used' bi bn show ?thesis
        by (intro exI [of _ "if x < c then i else n"]) (auto simp: not_less)
    next
      case False
      moreover have "j \<noteq> n" using j n by (auto simp: used_def)
      ultimately show ?thesis using j used' rest by (intro exI [of _ j]) simp
    qed
  qed
  moreover have "b_id (d' j) = j" if "j < POOL_SIZE" for j
    using that ok id rest [of j] by (cases "j \<in> {i, n}") (auto simp: heap_ok_def)
  ultimately show ?thesis unfolding heap_ok_def by simp
qed

lemma heap_ok_mergeI:
  assumes ok: "heap_ok d lo hi" and ij: "used d i" "used d j" "i \<noteq> j" and adj: "b_end (d i) = b_begin (d j)"
    and rest: "\<And>k. k \<noteq> i \<Longrightarrow> k \<noteq> j \<Longrightarrow> d' k = d k" and id: "b_id (d' i) = i" "b_id (d' j) = j"
    and st: "b_state (d' i) \<noteq> UNUSED" "b_state (d' j) = UNUSED"
    and bi: "b_begin (d' i) = b_begin (d i)" "b_end (d' i) = b_end (d j)"
      "b_size (d' i) = b_end (d j) - b_begin (d i)"
  shows "heap_ok d' lo hi"
proof -
  have used': "used d' k \<longleftrightarrow> used d k \<and> k \<noteq> j" for k
    using ij st rest [of k] by (cases "k = i \<or> k = j") (auto simp: used_def)
  have bd: "block_ok (d i) lo hi" "block_ok (d j) lo hi" using ok ij by (auto intro: heap_ok_block)
  have "block_ok (d' k) lo hi" if "used d' k" for k
  proof (cases "k = i")
    case True
    with bd bi adj show ?thesis by (auto simp: block_ok_def)
  next
    case False
    with that used' rest ok show ?thesis by (simp add: heap_ok_block)
  qed
  moreover have "apart (d' k) (d' l)" if kl: "used d' k" "used d' l" "k \<noteq> l" for k l
  proof -
    have new: "apart (d' i) (d' m)" if m: "m \<noteq> i" "m \<noteq> j" "used d m" for m
    proof (rule apart_union [of "d i" _ "d j"])
      show "apart (d i) (d' m)" "apart (d j) (d' m)" "b_begin (d' m) < b_end (d' m)"
        using m rest ij heap_ok_apart [OF ok] heap_ok_block [OF ok m(3)] by (auto simp: block_ok_def)
    qed (use adj bi in simp_all)
    show ?thesis
      using kl used' new [of k] new [of l] apart_sym [of "d' k" "d' l"] rest ok
      by (cases "k = i"; cases "l = i") (auto simp: heap_ok_apart)
  qed
  moreover have "\<exists>k. used d' k \<and> b_begin (d' k) \<le> x \<and> x < b_end (d' k)" if x: "lo \<le> x" "x < hi" for x
  proof -
    from ok x obtain k where k: "used d k" "b_begin (d k) \<le> x" "x < b_end (d k)"
      by (auto simp: heap_ok_def)
    show ?thesis
    proof (cases "k = i \<or> k = j")
      case True
      have "b_begin (d i) < b_end (d i)" "b_begin (d j) < b_end (d j)"
        using bd by (simp_all add: block_ok_def)
      with True k adj have "b_begin (d i) \<le> x \<and> x < b_end (d j)"
        by (metis less_imp_le order.strict_trans order.trans)
      with ij used' bi show ?thesis by (intro exI [of _ i]) simp
    next
      case False
      with k used' rest show ?thesis by (intro exI [of _ k]) simp
    qed
  qed
  moreover have "b_id (d' k) = k" if "k < POOL_SIZE" for k
    using that ok id rest [of k] by (cases "k \<in> {i, j}") (auto simp: heap_ok_def)
  ultimately show ?thesis unfolding heap_ok_def by simp
qed

section \<open>The order of the free list\<close>

lemma ordered_cong: "(\<And>x. x \<in> set L \<Longrightarrow> d' x = d x) \<Longrightarrow> ordered d L \<Longrightarrow> ordered d' L"
  unfolding ordered_def by (erule sorted_wrt_mono_rel [rotated]) simp

lemma ordered_append:
  "ordered d (xs @ ys) \<longleftrightarrow> ordered d xs \<and> ordered d ys \<and> (\<forall>x \<in> set xs. \<forall>y \<in> set ys. b_end (d x) < b_begin (d y))"
  by (simp add: ordered_def sorted_wrt_append)

lemma ordered_Cons: "ordered d (x # ys) \<longleftrightarrow> (\<forall>y \<in> set ys. b_end (d x) < b_begin (d y)) \<and> ordered d ys"
  by (simp add: ordered_def)

lemma ordered_Nil [simp]: "ordered d []"
  by (simp add: ordered_def)

text \<open>A block \<open>i\<close> in its place in the list, separated from the blocks after it but not yet from those before.\<close>

definition slot :: "(nat \<Rightarrow> mem_block) \<Rightarrow> nat list \<Rightarrow> nat \<Rightarrow> nat list \<Rightarrow> bool" where
  "slot d us i vs \<longleftrightarrow> ordered d us \<and> ordered d (i # vs) \<and>
     (\<forall>u \<in> set us. b_end (d u) \<le> b_begin (d i) \<and> (\<forall>v \<in> set vs. b_end (d u) < b_begin (d v)))"

lemma ordered_cut:
  assumes "ordered d (us @ i # vs)" and "n \<notin> set (us @ vs)" and "i \<notin> set (us @ vs)"
    and "\<And>j. j \<noteq> i \<Longrightarrow> j \<noteq> n \<Longrightarrow> d' j = d j"
    and "b_begin (d i) < b_begin (d' n)" and "b_end (d' n) = b_end (d i)"
  shows "ordered d' (us @ n # vs)"
proof -
  have eq: "d' x = d x" if "x \<in> set (us @ vs)" for x
    using that assms(2-4) by metis
  have "b_end (d x) < b_begin (d' n)" if "x \<in> set us" for x
    using that assms(1,5) by (auto simp: ordered_append intro: order.strict_trans)
  then show ?thesis
    using assms(1,6) eq ordered_cong [of us d' d] ordered_cong [of vs d' d]
    by (simp add: ordered_append ordered_Cons)
qed

lemma slot_right_apart:
  assumes ord: "ordered d (us @ vs)" and ne: "\<And>j. j \<in> set vs \<Longrightarrow> b_begin (d j) < b_end (d j)"
    and us: "\<And>u. u \<in> set us \<Longrightarrow> b_end (d u) \<le> b_begin (d i)"
    and vs: "\<And>v vs'. vs = v # vs' \<Longrightarrow> b_end (d i) < b_begin (d v)"
  shows "slot d us i vs"
proof -
  have "b_end (d i) < b_begin (d x)" if x: "x \<in> set vs" for x
  proof -
    obtain v ws where v: "vs = v # ws" using x by (cases vs) auto
    have "b_end (d i) < b_begin (d v)" and "b_begin (d v) < b_end (d v)"
      using v vs ne by auto
    moreover have "x = v \<or> b_end (d v) < b_begin (d x)"
      using ord v x by (auto simp: ordered_append ordered_Cons)
    ultimately show ?thesis by (metis order.strict_trans)
  qed
  with ord us show ?thesis by (simp add: slot_def ordered_append ordered_Cons)
qed

lemma slot_right_merge:
  assumes ord: "ordered d (us @ v # vs)" and i: "i \<notin> set (us @ vs)" and v: "v \<notin> set (us @ vs)"
    and us: "\<And>u. u \<in> set us \<Longrightarrow> b_end (d u) \<le> b_begin (d i)"
    and d': "\<And>k. k \<noteq> i \<Longrightarrow> k \<noteq> v \<Longrightarrow> d' k = d k" "b_begin (d' i) = b_begin (d i)" "b_end (d' i) = b_end (d v)"
  shows "slot d' us i vs"
proof -
  have eq: "d' x = d x" if "x \<in> set (us @ vs)" for x
    using that i v d'(1) by metis
  with ord us d'(2,3) ordered_cong [of us d' d] ordered_cong [of vs d' d] show ?thesis
    by (simp add: slot_def ordered_append ordered_Cons)
qed

lemma ordered_left_apart:
  assumes sl: "slot d us i vs" and ne: "\<And>j. j \<in> set us \<Longrightarrow> b_begin (d j) < b_end (d j)"
    and us: "\<And>us' u. us = us' @ [u] \<Longrightarrow> b_end (d u) < b_begin (d i)"
  shows "ordered d (us @ i # vs)"
proof -
  have "b_end (d x) < b_begin (d i)" if x: "x \<in> set us" for x
  proof -
    obtain ws u where u: "us = ws @ [u]" using x by (cases us rule: rev_cases) auto
    have "b_end (d u) < b_begin (d i)" and "b_begin (d u) < b_end (d u)"
      using u us ne by auto
    moreover have "x = u \<or> b_end (d x) < b_begin (d u)"
      using sl u x by (auto simp: slot_def ordered_append)
    ultimately show ?thesis by (metis order.strict_trans)
  qed
  with sl show ?thesis by (simp add: slot_def ordered_append ordered_Cons)
qed

lemma ordered_left_merge:
  assumes sl: "slot d (us @ [u]) i vs" and i: "i \<notin> set (us @ vs)" and u: "u \<notin> set (us @ vs)"
    and d': "\<And>k. k \<noteq> u \<Longrightarrow> k \<noteq> i \<Longrightarrow> d' k = d k" "b_begin (d' u) = b_begin (d u)" "b_end (d' u) = b_end (d i)"
  shows "ordered d' (us @ u # vs)"
proof -
  have eq: "d' x = d x" if "x \<in> set (us @ vs)" for x
    using that i u d'(1) by metis
  with sl d'(2,3) ordered_cong [of us d' d] ordered_cong [of vs d' d] show ?thesis
    by (simp add: slot_def ordered_append ordered_Cons)
qed

section \<open>The size of a request\<close>

text \<open>
  The doubling loop of \<^verbatim>\<open>free_find\<close> rounds a request up to a power of two of at least 1 KB.  It ends
  exactly for requests of at most \<open>2 ^ 31\<close> bytes: beyond, the shifted size wraps to zero and stays there.
\<close>

lemma grow_pow:
  assumes "sz \<le> 2 ^ 31" and "k \<le> 31"
  shows "\<exists>m. k \<le> m \<and> m \<le> 31 \<and> grow (2 ^ k) sz = Some (2 ^ m) \<and> sz \<le> 2 ^ m \<and> (m = k \<or> 2 ^ (m - 1) < sz)"
  using assms(2)
proof (induction "31 - k" arbitrary: k)
  case 0
  then show ?case using assms(1) by (intro exI [of _ 31]) (simp, subst grow.simps, simp add: leD)
next
  case (Suc x)
  show ?case
  proof (cases "(2 ^ k :: u32) < sz")
    case True
    have "grow (2 ^ k) sz = grow (2 ^ Suc k) sz"
      using True by (subst grow.simps) (simp add: push_bit_eq_mult mult.commute)
    moreover obtain m where "Suc k \<le> m" "m \<le> 31" "grow (2 ^ Suc k) sz = Some (2 ^ m)" "sz \<le> 2 ^ m"
      "m = Suc k \<or> 2 ^ (m - 1) < sz"
      using Suc.hyps(1) [of "Suc k"] Suc.hyps(2) Suc.prems by force
    ultimately show ?thesis using True by (intro exI [of _ m]) auto
  next
    case False
    then have "grow (2 ^ k) sz = Some (2 ^ k)" by (subst grow.simps) simp
    with False Suc.prems show ?thesis by (intro exI [of _ k]) (simp add: not_less)
  qed
qed

lemma grow_SomeD:
  assumes "grow n sz = Some m"
  shows "sz \<le> m"
proof (rule grow.raw_induct [where P = "\<lambda>_ z y. z \<le> y", OF _ assms])
  show "z \<le> y" if "\<And>n z y. g n z = Some y \<Longrightarrow> z \<le> y"
    "(if n < z then g (push_bit 1 n) z else Some n) = Some y" for g and n z y :: u32
    using that(1) [of "push_bit 1 n" z y] that(2) by (auto simp: not_less split: if_splits)
qed

lemma pow_lt_u32: "k < 31 \<Longrightarrow> (2::u32) ^ k < 2 ^ 31"
  using power_strict_increasing [of k 31 "2::nat"] by (simp add: word_less_nat_alt unat_pow_u32)

lemma grow_diverges:
  assumes "2 ^ 31 < sz"
  shows "grow 1024 sz = None"
proof (rule ccontr)
  let ?S = "\<lambda>n. n = 0 \<or> (\<exists>k \<le> 31. n = (2::u32) ^ k)"
  assume "grow 1024 sz \<noteq> None"
  then obtain m where m: "grow 1024 sz = Some m" by auto
  have step: "n < sz \<and> ?S (push_bit 1 n)" if "?S n" for n
  proof -
    from that consider "n = 0" | k where "k < 31" "n = 2 ^ k" | "n = 2 ^ 31"
      by (metis le_neq_implies_less)
    then show ?thesis
    proof cases
      case 1
      with assms show ?thesis by (auto simp: word_gt_0)
    next
      case (2 k)
      with assms pow_lt_u32 [OF 2(1)] have "n < sz" by (metis order.strict_trans)
      moreover have "push_bit 1 n = 2 ^ Suc k" using 2 by (simp add: push_bit_eq_mult)
      ultimately show ?thesis using 2(1) by (metis Suc_leI)
    next
      case 3
      with assms show ?thesis by (simp add: push_bit_eq_mult)
    qed
  qed
  have "sz = sz \<longrightarrow> ?S 1024 \<longrightarrow> False"
  proof (rule grow.raw_induct [where P = "\<lambda>n z y. z = sz \<longrightarrow> ?S n \<longrightarrow> False", OF _ m])
    show "z = sz \<longrightarrow> ?S n \<longrightarrow> False" if "\<And>n z y. g n z = Some y \<Longrightarrow> z = sz \<longrightarrow> ?S n \<longrightarrow> False"
      "(if n < z then g (push_bit 1 n) z else Some n) = Some y" for g and n z y :: u32
      using that(1) [of "push_bit 1 n" z y] that(2) step [of n] by (auto split: if_splits)
  qed
  moreover have "?S 1024" by (intro disjI2 exI [of _ 10]) simp
  ultimately show False by blast
qed

end
