(* ===== verification/Allocator.thy ===== *)
theory Allocator
  imports Prelude
begin

text \<open>
  The contract of a memory allocator, as the clients of \<^verbatim>\<open>pmm->alloc\<close> and \<^verbatim>\<open>pmm->free\<close> use it
  (\<^verbatim>\<open>kernel.h\<close>), and what follows from it for any sequence of requests.  \<open>regs s\<close> are the regions
  handed out and not yet returned.
\<close>

datatype 'a heap_req = AllocReq 'a | FreeReq 'a

fun serve :: "('a \<Rightarrow> 's \<Rightarrow> ('a \<times> 's) res) \<Rightarrow> ('a \<Rightarrow> 's \<Rightarrow> 's res) \<Rightarrow> 'a heap_req list \<Rightarrow> 's \<Rightarrow> 's res" where
  "serve alloc free [] s = Inr s"
| "serve alloc free (AllocReq n # rs) s = bindE (alloc n s) (\<lambda>(_, s). serve alloc free rs s)"
| "serve alloc free (FreeReq p # rs) s = bindE (free p s) (serve alloc free rs)"

definition regions_apart :: "('a::linorder \<times> 'a) set \<Rightarrow> bool" where
  "regions_apart R \<longleftrightarrow> (\<forall>a b. (a, b) \<in> R \<longrightarrow> a < b) \<and>
     (\<forall>a b c d. (a, b) \<in> R \<and> (c, d) \<in> R \<and> (a, b) \<noteq> (c, d) \<longrightarrow> b \<le> c \<or> d \<le> a)"

lemma regions_apart_empty [simp]: "regions_apart {}"
  by (simp add: regions_apart_def)

lemma regions_apart_subset: "regions_apart R \<Longrightarrow> S \<subseteq> R \<Longrightarrow> regions_apart S"
  unfolding regions_apart_def by blast

lemma regions_apart_insert:
  assumes "regions_apart R" and "p < e" and "\<forall>(a, b) \<in> R. b \<le> p \<or> e \<le> a"
  shows "regions_apart (insert (p, e) R)"
  using assms unfolding regions_apart_def by fastforce

lemma regions_apart_inj: "regions_apart R \<Longrightarrow> (p, e) \<in> R \<Longrightarrow> (p, b) \<in> R \<Longrightarrow> b = e"
  unfolding regions_apart_def by (metis leD prod.inject)

locale allocator =
  fixes inv :: "'s \<Rightarrow> bool" and regs :: "'s \<Rightarrow> ('a::{linorder, zero} \<times> 'a) set"
    and alloc :: "'a \<Rightarrow> 's \<Rightarrow> ('a \<times> 's) res" and free :: "'a \<Rightarrow> 's \<Rightarrow> 's res"
  assumes alloc_fresh: "inv s \<Longrightarrow> n \<noteq> 0 \<Longrightarrow> alloc n s = Inr (p, s') \<Longrightarrow>
      inv s' \<and> (\<exists>e. p < e \<and> regs s' = insert (p, e) (regs s) \<and> (\<forall>(a, b) \<in> regs s. b \<le> p \<or> e \<le> a))"
    and alloc_zero: "alloc 0 s = Inr (0, s)"
    and free_known: "inv s \<Longrightarrow> (p, e) \<in> regs s \<Longrightarrow>
      \<exists>s'. free p s = Inr s' \<and> inv s' \<and> regs s' = regs s - {(p, e)}"
    and free_unknown: "inv s \<Longrightarrow> p \<notin> fst ` regs s \<Longrightarrow> free p s = Inl AssertFail"
begin

lemma free_Inr:
  assumes "inv s" and "free p s = Inr s'"
  shows "\<exists>e. (p, e) \<in> regs s \<and> inv s' \<and> regs s' = regs s - {(p, e)}"
proof (cases "p \<in> fst ` regs s")
  case True
  then obtain e where "(p, e) \<in> regs s" by auto
  with free_known [OF assms(1) this] assms(2) show ?thesis by auto
next
  case False
  with free_unknown [OF assms(1) False] assms(2) show ?thesis by simp
qed

theorem serve_apart:
  "inv s \<Longrightarrow> regions_apart (regs s) \<Longrightarrow> serve alloc free rs s = Inr s' \<Longrightarrow> inv s' \<and> regions_apart (regs s')"
proof (induction rs arbitrary: s)
  case Nil
  then show ?case by simp
next
  case (Cons r rs)
  show ?case
  proof (cases r)
    case (AllocReq n)
    with Cons.prems(3) obtain p s1 where s1: "alloc n s = Inr (p, s1)" "serve alloc free rs s1 = Inr s'"
      by (auto simp: res_iff)
    show ?thesis
    proof (cases "n = 0")
      case True
      with s1 alloc_zero Cons show ?thesis by auto
    next
      case False
      from alloc_fresh [OF Cons.prems(1) False s1(1)] Cons.prems(2) have "inv s1 \<and> regions_apart (regs s1)"
        using regions_apart_insert by auto
      with s1(2) Cons.IH show ?thesis by blast
    qed
  next
    case (FreeReq p)
    with Cons.prems(3) obtain s1 where s1: "free p s = Inr s1" "serve alloc free rs s1 = Inr s'"
      by (auto simp: res_iff)
    from free_Inr [OF Cons.prems(1) s1(1)] Cons.prems(2) have "inv s1 \<and> regions_apart (regs s1)"
      by (auto intro: regions_apart_subset)
    with s1(2) Cons.IH show ?thesis by blast
  qed
qed

theorem alloc_then_free:
  assumes "inv s" and "n \<noteq> 0" and "alloc n s = Inr (p, s1)"
  shows "\<exists>s2. free p s1 = Inr s2 \<and> inv s2 \<and> regs s2 = regs s"
proof -
  from alloc_fresh [OF assms] obtain e where e: "inv s1" "p < e" "regs s1 = insert (p, e) (regs s)"
    "\<forall>(a, b) \<in> regs s. b \<le> p \<or> e \<le> a" by blast
  then have "(p, e) \<notin> regs s" by auto
  with free_known [OF e(1), of p e] e(3) show ?thesis by auto
qed

theorem double_free:
  assumes "inv s" and "regions_apart (regs s)" and "free p s = Inr s1"
  shows "free p s1 = Inl AssertFail"
proof -
  from free_Inr [OF assms(1,3)] obtain e where e: "(p, e) \<in> regs s" "inv s1" "regs s1 = regs s - {(p, e)}" by blast
  have "p \<notin> fst ` regs s1"
  proof
    assume "p \<in> fst ` regs s1"
    then obtain b where "(p, b) \<in> regs s" "b \<noteq> e" using e(3) by force
    with assms(2) e(1) show False by (blast dest: regions_apart_inj)
  qed
  with e(2) show ?thesis by (rule free_unknown)
qed

end

end
