(* ===== verification/Alloc_Correct.thy ===== *)
theory Alloc_Correct
  imports Alloc_Inv Allocator
begin

text \<open>
  Correctness of the allocator's interface: \<^verbatim>\<open>pmm_init\<close> establishes the invariant, \<^verbatim>\<open>kalloc\<close> hands out
  a fresh region of the heap, \<^verbatim>\<open>kfree\<close> takes one back, both keep the invariant and the memory accounting
  of \<^verbatim>\<open>procfs\<close>.  The
  locale \<open>allocator\<close> is interpreted on them.
\<close>

section \<open>Allocated blocks\<close>

lemma allocated_used: "i \<in> allocated d \<Longrightarrow> used d i"
  by (simp add: allocated_def used_def)

lemma finite_allocated [simp]: "finite (allocated d)"
  by (simp add: allocated_def)

lemma regions_grow:
  assumes "allocated d' = insert i (allocated d)" and "i \<notin> allocated d"
    and "\<And>j. j \<in> allocated d \<Longrightarrow> d' j = d j"
  shows "regions d' = insert (b_begin (d' i), b_end (d' i)) (regions d)"
    and "alloc_total d' = alloc_total d + ucast (b_size (d' i))"
  using assms by (auto simp: regions_def alloc_total_def image_iff cong: sum.cong)

lemma heap_ok_begin_inj:
  assumes "heap_ok d lo hi" and "used d i" and "used d j" and "b_begin (d i) = b_begin (d j)"
  shows "i = j"
proof (rule ccontr)
  assume "i \<noteq> j"
  with assms have "apart (d i) (d j)" "block_ok (d i) lo hi" "block_ok (d j) lo hi"
    by (auto intro: heap_ok_apart heap_ok_block)
  with assms(4) show False by (auto simp: apart_def block_ok_def)
qed

lemma regions_shrink:
  assumes "heap_ok d lo hi" and "i \<in> allocated d" and "allocated d' = allocated d - {i}"
    and "\<And>j. j \<in> allocated d' \<Longrightarrow> d' j = d j"
  shows "regions d' = regions d - {(b_begin (d i), b_end (d i))}"
    and "alloc_total d' = alloc_total d - ucast (b_size (d i))"
proof -
  have "j = i" if "j \<in> allocated d" "b_begin (d j) = b_begin (d i)" for j
    using that assms(1,2) heap_ok_begin_inj allocated_used by metis
  with assms(2-4) show "regions d' = regions d - {(b_begin (d i), b_end (d i))}"
    unfolding regions_def by (auto simp: image_iff)
  have "alloc_total d = ucast (b_size (d i)) + (\<Sum>j \<in> allocated d - {i}. ucast (b_size (d j)))"
    using assms(2) by (simp add: alloc_total_def sum.remove)
  with assms(3,4) show "alloc_total d' = alloc_total d - ucast (b_size (d i))"
    by (simp add: alloc_total_def)
qed

lemma alloc_total_regions:
  assumes "heap_ok d lo hi"
  shows "alloc_total d = (\<Sum>(a, b) \<in> regions d. ucast (b - a))"
proof -
  have "inj_on (\<lambda>i. (b_begin (d i), b_end (d i))) (allocated d)"
    using heap_ok_begin_inj [OF assms] by (auto intro!: inj_onI allocated_used)
  then have "(\<Sum>(a, b) \<in> regions d. ucast (b - a)) = (\<Sum>i \<in> allocated d. ucast (b_end (d i) - b_begin (d i)))"
    by (simp add: regions_def sum.reindex)
  also have "\<dots> = alloc_total d"
    using heap_ok_block [OF assms allocated_used]
    by (auto simp: alloc_total_def block_ok_def intro!: sum.cong)
  finally show ?thesis by simp
qed

lemma regions_disjoint:
  assumes "heap_ok d lo hi" and "used d i" and "i \<notin> allocated d'" and "(a, b) \<in> regions d'"
    and "\<And>j. j \<in> allocated d' \<Longrightarrow> j \<in> allocated d \<and> d' j = d j"
  shows "b \<le> b_begin (d i) \<or> b_end (d i) \<le> a"
proof -
  from assms(4) obtain j where j: "j \<in> allocated d'" "a = b_begin (d' j)" "b = b_end (d' j)"
    by (auto simp: regions_def)
  with assms(3,5) have "apart (d j) (d i)"
    by (intro heap_ok_apart [OF assms(1) _ assms(2)]) (auto intro: allocated_used)
  with j assms(5) show ?thesis by (auto simp: apart_def)
qed

section \<open>Taking a block\<close>

lemma free_set_state: "free_set d L \<Longrightarrow> i \<in> set L \<Longrightarrow> i < POOL_SIZE \<Longrightarrow> b_state (d i) = UNALLOCATED"
  by (simp add: free_set_def)

lemma free_delete_ok:
  assumes L: "free_list s (us @ i # vs)" and ok: "heap_ok (dat s) lo hi"
    and fs: "free_set (dat s) (us @ i # vs)" and ord: "ordered (dat s) (us @ vs)"
  shows "\<exists>s'. free_delete (Pool i) s = Inr s' \<and> frame s s' \<and> heap_ok (dat s') lo hi \<and>
           free_list s' (us @ vs) \<and> free_set (dat s') (us @ vs) \<and> ordered (dat s') (us @ vs) \<and>
           allocated (dat s') = insert i (allocated (dat s)) \<and> i \<notin> allocated (dat s) \<and>
           dat s' = (dat s)(i := (dat s i)\<lparr>b_state := ALLOCATED\<rparr>)"
proof -
  have i: "i < POOL_SIZE" "distinct (us @ i # vs)" using L by (auto simp: free_list_def)
  have st: "b_state (dat s i) = UNALLOCATED" using fs i by (intro free_set_state) auto
  obtain s' where s': "free_delete (Pool i) s = Inr s'" "free_list s' (us @ vs)" "frame s s'"
    and d': "dat s' = (dat s)(i := (dat s i)\<lparr>b_state := ALLOCATED\<rparr>)"
    using free_delete_run [OF L] st by auto
  have "heap_ok (dat s') lo hi"
    unfolding d' using st i by (intro heap_ok_state [OF ok]) (auto simp: used_def)
  moreover have "free_set (dat s') (us @ vs)"
    using fs i by (auto simp: free_set_def d')
  moreover have "ordered (dat s') (us @ vs)"
    using i by (intro ordered_cong [OF _ ord]) (auto simp: d')
  moreover have "allocated (dat s') = insert i (allocated (dat s))" and "i \<notin> allocated (dat s)"
    using st i by (auto simp: allocated_def d')
  ultimately show ?thesis using s' d' by metis
qed

lemma get_unused_block_ex: "\<exists>k < POOL_SIZE. b_state (dat s k) = UNUSED \<Longrightarrow> \<exists>n. get_unused_block s = Inr n"
  using first_idx_ex [of 0 _ POOL_SIZE "\<lambda>i. b_state (blk s (Pool i)) = UNUSED"]
  by (force simp: get_unused_block_def)

lemma free_cut_ok:
  assumes L: "free_list s (us @ i # vs)" and ok: "heap_ok (dat s) lo hi"
    and fs: "free_set (dat s) (us @ i # vs)" and ord: "ordered (dat s) (us @ i # vs)"
    and z: "0 < z" "z < b_size (dat s i)" and ex: "\<exists>k < POOL_SIZE. b_state (dat s k) = UNUSED"
  shows "\<exists>s' n. free_cut (Pool i) z s = Inr s' \<and> frame s s' \<and> heap_ok (dat s') lo hi \<and>
           free_list s' (us @ i # n # vs) \<and> free_set (dat s') (us @ i # n # vs) \<and> ordered (dat s') (us @ n # vs) \<and>
           allocated (dat s') = allocated (dat s) \<and> b_size (dat s' i) = z \<and>
           (\<forall>j \<in> allocated (dat s). dat s' j = dat s j)"
proof -
  have i: "i < POOL_SIZE" "distinct (us @ i # vs)" using L by (auto simp: free_list_def)
  have st: "b_state (dat s i) = UNALLOCATED" using fs i by (intro free_set_state) auto
  have ui: "used (dat s) i" using st i by (simp add: used_def)
  from ex obtain n where n: "get_unused_block s = Inr n"
    using get_unused_block_ex by blast
  have nU: "n < POOL_SIZE" "b_state (dat s n) = UNUSED" using get_unused_blockD [OF n] by simp_all
  have nid: "b_id (dat s n) = n" using ok nU by (simp add: heap_ok_def)
  have nL: "n \<notin> set (us @ i # vs)" using fs nU by (auto simp: free_set_def)
  let ?c = "b_begin (dat s i) + z"
  obtain s' where s': "free_cut (Pool i) z s = Inr s'" "free_list s' (us @ i # n # vs)" "frame s s'"
    and d': "dat s' = (dat s)(n := (dat s n)\<lparr>b_begin := ?c, b_end := b_end (dat s i),
                                b_size := b_size (dat s i) - z, b_state := UNALLOCATED\<rparr>,
                              i := (dat s i)\<lparr>b_end := ?c, b_size := z\<rparr>)"
    using free_cut_run [OF L _ n, of z] st nid nL by auto
  have ni: "n \<noteq> i" using nL by auto
  have bi: "block_ok (dat s i) lo hi" using ok ui by (rule heap_ok_block)
  have c: "b_begin (dat s i) < ?c \<and> ?c < b_end (dat s i)"
    using bi z by (intro cut_point) (auto simp: block_ok_def)
  have idi: "b_id (dat s i) = i" using ok i by (simp add: heap_ok_def)
  have "heap_ok (dat s') lo hi"
    by (rule heap_ok_cutI [OF ok ui nU, where c = ?c])
      (use st ni nid idi bi c in \<open>simp_all add: d' block_ok_def algebra_simps\<close>)
  moreover have "free_set (dat s') (us @ i # n # vs)"
    using fs st ni by (auto simp: free_set_def d')
  moreover have "ordered (dat s') (us @ n # vs)"
    by (rule ordered_cut [OF ord]) (use nL i ni c in \<open>auto simp: d'\<close>)
  moreover have "allocated (dat s') = allocated (dat s)" and "b_size (dat s' i) = z"
    and "\<forall>j \<in> allocated (dat s). dat s' j = dat s j"
    using st nU ni by (auto simp: allocated_def d')
  ultimately show ?thesis using s' by metis
qed

lemma double_u32:
  fixes n b :: u32
  assumes "n \<le> b" and "b < 2 ^ 31" and "0 < n" and "2 * n \<le> b"
  shows "n < b"
proof -
  have "unat n < 2 ^ 31" using assms(1,2) by (simp add: word_le_nat_alt word_less_nat_alt)
  then have "unat (n + n) = unat n + unat n" by (intro unat_add_lem [THEN iffD1]) simp
  moreover have "unat (n + n) \<le> unat b" using assms(4) by (simp add: word_le_nat_alt)
  moreover have "0 < unat n" using assms(3) by (simp add: word_less_nat_alt)
  ultimately show ?thesis unfolding word_less_nat_alt by linarith
qed

lemma block_size_bound: "block_ok b lo hi \<Longrightarrow> b_size b \<le> hi - lo"
  by (simp add: block_ok_def word_diff_le)

lemma free_find_start:
  assumes L: "free_list s L" and fs: "free_set (dat s) L" and g: "grow 1024 sz = Some n"
    and dw: "dropWhile (\<lambda>y. b_size (dat s y) < n) L = R"
  shows "free_find sz s =
     (case R of
        [] \<Rightarrow> Inl AssertFail
      | i # _ \<Rightarrow>
          bindE (if 2 * n \<le> b_size (dat s i) then free_cut (Pool i) n s else Inr s) (\<lambda>s.
          bindE (free_delete (Pool i) s) (\<lambda>s. Inr (Pool i, s))))"
proof -
  have ht: "free_head s = Special 0" "free_tail s = Special 1" using L by (simp_all add: free_list_def)
  have "\<forall>y \<in> set L. b_state (dat s y) = UNALLOCATED"
    using L fs by (auto simp: free_list_def free_set_def simp del: dat_simps)
  then have "find_loop WALK n (firstp L) s = Inr (firstp R)"
    using find_loop_run [of s "[]" L WALK n] L free_list_length [OF L] dw by (simp add: WALK_def)
  moreover have "nx s (Special 0) = firstp L"
    using free_list_join [of s "[]" L] L by simp
  moreover have "n \<le> b_size (dat s i)" if "R = i # vs" for i vs
    using that dw by (metis dropWhile_eq_Cons_conv not_less)
  ultimately show ?thesis
    using g ht by (cases R) (simp_all add: free_find_def ld_def)
qed

lemma free_find_ok:
  assumes L: "free_list s L" and ok: "heap_ok (dat s) lo hi" and fs: "free_set (dat s) L"
    and ord: "ordered (dat s) L" and small: "hi - lo < 2 ^ 31"
    and g: "grow 1024 sz = Some n" "sz \<noteq> 0"
    and dw: "dropWhile (\<lambda>y. b_size (dat s y) < n) L = i # vs"
    and ex: "2 * n \<le> b_size (dat s i) \<Longrightarrow> \<exists>k < POOL_SIZE. b_state (dat s k) = UNUSED"
  shows "\<exists>s' L'. free_find sz s = Inr (Pool i, s') \<and> frame s s' \<and> heap_ok (dat s') lo hi \<and>
           free_list s' L' \<and> free_set (dat s') L' \<and> ordered (dat s') L' \<and>
           allocated (dat s') = insert i (allocated (dat s)) \<and> i \<notin> allocated (dat s) \<and>
           (\<forall>j \<in> allocated (dat s). dat s' j = dat s j) \<and> n \<le> b_size (dat s' i)"
proof -
  note start = free_find_start [OF L fs g(1) dw]
  obtain us where us: "L = us @ i # vs" and big: "n \<le> b_size (dat s i)"
    using dw by (metis dropWhile_eq_Cons_conv not_less takeWhile_dropWhile_id)
  note here = L [unfolded us] ok fs [unfolded us]
  have iP: "i < POOL_SIZE" using here(1) by (simp add: free_list_def)
  have "used (dat s) i"
    using free_set_state [OF here(3) _ iP] iP by (simp add: used_def)
  with ok small have size: "b_size (dat s i) < 2 ^ 31"
    using heap_ok_block block_size_bound order.strict_trans1 by blast
  have pos: "0 < n" using grow_SomeD [OF g(1)] g(2) by (auto simp: word_gt_0)
  show ?thesis
  proof (cases "2 * n \<le> b_size (dat s i)")
    case True
    from free_cut_ok [OF here ord [unfolded us] pos double_u32 [OF big size pos True] ex [OF True]]
    obtain s1 k where s1: "free_cut (Pool i) n s = Inr s1" "frame s s1" "heap_ok (dat s1) lo hi"
      "free_list s1 (us @ i # k # vs)" "free_set (dat s1) (us @ i # k # vs)" "ordered (dat s1) (us @ k # vs)"
      "allocated (dat s1) = allocated (dat s)" "b_size (dat s1 i) = n"
      "\<forall>j \<in> allocated (dat s). dat s1 j = dat s j"
      by blast
    from free_delete_ok [OF s1(4,3,5,6)] obtain s2 where s2: "free_delete (Pool i) s1 = Inr s2" "frame s1 s2"
      "heap_ok (dat s2) lo hi" "free_list s2 (us @ k # vs)" "free_set (dat s2) (us @ k # vs)"
      "ordered (dat s2) (us @ k # vs)" "allocated (dat s2) = insert i (allocated (dat s1))"
      "i \<notin> allocated (dat s1)" "dat s2 = (dat s1)(i := (dat s1 i)\<lparr>b_state := ALLOCATED\<rparr>)"
      by blast
    have "b_size (dat s2 i) = n" and "\<forall>j \<in> allocated (dat s). dat s2 j = dat s j"
      using s1(7-9) s2(8,9) by auto
    with s1 s2 start True show ?thesis
      by (intro exI [of _ s2] exI [of _ "us @ k # vs"]) (simp add: frame_def)
  next
    case False
    have "ordered (dat s) (us @ vs)" using ord us by (simp add: ordered_append ordered_Cons)
    from free_delete_ok [OF here this] obtain s2 where s2: "free_delete (Pool i) s = Inr s2" "frame s s2"
      "heap_ok (dat s2) lo hi" "free_list s2 (us @ vs)" "free_set (dat s2) (us @ vs)"
      "ordered (dat s2) (us @ vs)" "allocated (dat s2) = insert i (allocated (dat s))"
      "i \<notin> allocated (dat s)" "dat s2 = (dat s)(i := (dat s i)\<lparr>b_state := ALLOCATED\<rparr>)"
      by blast
    have "n \<le> b_size (dat s2 i)" and "\<forall>j \<in> allocated (dat s). dat s2 j = dat s j"
      using big s2(8,9) by auto
    with s2 start False show ?thesis
      by (intro exI [of _ s2] exI [of _ "us @ vs"]) simp
  qed
qed

section \<open>Returning a block\<close>

lemma free_merge_ok:
  assumes L: "free_list s (us @ i # j # vs)" and ok: "heap_ok (dat s) lo hi"
    and fs: "free_set (dat s) (us @ i # j # vs)" and adj: "b_end (dat s i) = b_begin (dat s j)"
  shows "\<exists>s'. free_merge (Pool i) (Pool j) s = Inr s' \<and> frame s s' \<and> heap_ok (dat s') lo hi \<and>
           free_list s' (us @ i # vs) \<and> free_set (dat s') (us @ i # vs) \<and> allocated (dat s') = allocated (dat s) \<and>
           (\<forall>k \<in> allocated (dat s). dat s' k = dat s k) \<and> (\<forall>k. k \<noteq> i \<longrightarrow> k \<noteq> j \<longrightarrow> dat s' k = dat s k) \<and>
           b_begin (dat s' i) = b_begin (dat s i) \<and> b_end (dat s' i) = b_end (dat s j)"
proof -
  have ij: "i < POOL_SIZE" "j < POOL_SIZE" "distinct (us @ i # j # vs)" using L by (auto simp: free_list_def)
  have st: "b_state (dat s i) = UNALLOCATED" "b_state (dat s j) = UNALLOCATED"
    using fs ij by (auto intro!: free_set_state simp del: dat_simps)
  have u: "used (dat s) i" "used (dat s) j" using st ij by (simp_all add: used_def)
  have sz: "b_end (dat s j) - b_begin (dat s i) = b_size (dat s i) + b_size (dat s j)"
    using heap_ok_block [OF ok u(1)] heap_ok_block [OF ok u(2)] adj by (simp add: block_ok_def)
  obtain s' where s': "free_merge (Pool i) (Pool j) s = Inr s'" "free_list s' (us @ i # vs)" "frame s s'"
    and d': "dat s' = (dat s)(i := (dat s i)\<lparr>b_end := b_end (dat s j), b_size := b_end (dat s j) - b_begin (dat s i)\<rparr>,
                              j := (dat s j)\<lparr>b_state := UNUSED\<rparr>)"
    using free_merge_run [OF L] st adj sz by auto
  have id: "b_id (dat s i) = i" "b_id (dat s j) = j" using ok ij by (auto simp: heap_ok_def)
  have ne: "i \<noteq> j" using ij by simp
  have "heap_ok (dat s') lo hi"
    by (rule heap_ok_mergeI [OF ok u ne adj]) (use st id ne in \<open>simp_all add: d'\<close>)
  moreover have "free_set (dat s') (us @ i # vs)"
    using fs st ij by (auto simp: free_set_def d')
  moreover have "allocated (dat s') = allocated (dat s)" "\<forall>k \<in> allocated (dat s). dat s' k = dat s k"
    using st by (auto simp: allocated_def d')
  ultimately show ?thesis using s' d' ne by (intro exI [of _ s']) simp
qed

lemma free_join_right:
  assumes L: "free_list s (us @ i # vs)" and ok: "heap_ok (dat s) lo hi" and fs: "free_set (dat s) (us @ i # vs)"
    and ord: "ordered (dat s) (us @ vs)" and us: "\<forall>u \<in> set us. b_end (dat s u) \<le> b_begin (dat s i)"
    and vs: "\<forall>v ws. vs = v # ws \<longrightarrow> b_end (dat s i) \<le> b_begin (dat s v)"
  shows "\<exists>a s' vs'. free_adjcent (Pool i) (firstp vs) s = Inr a \<and>
           (if a then free_merge (Pool i) (firstp vs) s else Inr s) = Inr s' \<and> frame s s' \<and> heap_ok (dat s') lo hi \<and>
           free_list s' (us @ i # vs') \<and> free_set (dat s') (us @ i # vs') \<and> allocated (dat s') = allocated (dat s) \<and>
           (\<forall>k \<in> allocated (dat s). dat s' k = dat s k) \<and> slot (dat s') us i vs'"
proof -
  have P: "set (us @ i # vs) \<subseteq> {..<POOL_SIZE}" "distinct (us @ i # vs)" using L by (simp_all add: free_list_def)
  have st: "b_state (dat s k) = UNALLOCATED" if "k \<in> set (us @ i # vs)" for k
    using that P by (intro free_set_state [OF fs]) auto
  show ?thesis
  proof (cases "\<exists>v ws. vs = v # ws \<and> b_end (dat s i) = b_begin (dat s v)")
    case True
    then obtain v ws where v: "vs = v # ws" and adj: "b_end (dat s i) = b_begin (dat s v)" by blast
    from free_merge_ok [OF L [unfolded v] ok fs [unfolded v] adj] obtain s' where s':
      "free_merge (Pool i) (Pool v) s = Inr s'" "frame s s'" "heap_ok (dat s') lo hi"
      "free_list s' (us @ i # ws)" "free_set (dat s') (us @ i # ws)" "allocated (dat s') = allocated (dat s)"
      "\<forall>k \<in> allocated (dat s). dat s' k = dat s k" "\<forall>k. k \<noteq> i \<longrightarrow> k \<noteq> v \<longrightarrow> dat s' k = dat s k"
      "b_begin (dat s' i) = b_begin (dat s i)" "b_end (dat s' i) = b_end (dat s v)"
      by blast
    have "slot (dat s') us i ws"
      by (rule slot_right_merge [OF ord [unfolded v]]) (use s' us P v in \<open>auto simp del: dat_simps\<close>)
    then show ?thesis
      using s' v adj free_adjcent_Pool [OF L, of i v] by (intro exI [of _ True] exI [of _ s'] exI [of _ ws]) simp
  next
    case False
    have "slot (dat s) us i vs"
    proof (rule slot_right_apart [OF ord _ bspec [OF us]])
      show "b_begin (dat s j) < b_end (dat s j)" if "j \<in> set vs" for j
        using heap_ok_block [OF ok, of j] st [of j] that P by (auto simp: used_def block_ok_def)
      show "b_end (dat s i) < b_begin (dat s v)" if "vs = v # ws" for v ws
        using vs False that by (auto simp: order.order_iff_strict simp del: dat_simps)
    qed
    moreover have "free_adjcent (Pool i) (firstp vs) s = Inr False"
      using False free_adjcent_Pool [OF L, of i] free_adjcent_ends(2) [OF L] by (cases vs) auto
    ultimately show ?thesis
      using L ok fs by (intro exI [of _ False] exI [of _ s] exI [of _ vs]) simp
  qed
qed

lemma free_join_left:
  assumes L: "free_list s (us @ i # vs)" and ok: "heap_ok (dat s) lo hi" and fs: "free_set (dat s) (us @ i # vs)"
    and sl: "slot (dat s) us i vs"
  shows "\<exists>a s' L'. free_adjcent (lastp us) (Pool i) s = Inr a \<and>
           (if a then free_merge (lastp us) (Pool i) s else Inr s) = Inr s' \<and> frame s s' \<and> heap_ok (dat s') lo hi \<and>
           free_list s' L' \<and> free_set (dat s') L' \<and> ordered (dat s') L' \<and> allocated (dat s') = allocated (dat s) \<and>
           (\<forall>k \<in> allocated (dat s). dat s' k = dat s k)"
proof -
  have P: "set (us @ i # vs) \<subseteq> {..<POOL_SIZE}" "distinct (us @ i # vs)" using L by (simp_all add: free_list_def)
  have st: "b_state (dat s k) = UNALLOCATED" if "k \<in> set (us @ i # vs)" for k
    using that P by (intro free_set_state [OF fs]) auto
  show ?thesis
  proof (cases "\<exists>ws u. us = ws @ [u] \<and> b_end (dat s u) = b_begin (dat s i)")
    case True
    then obtain ws u where u: "us = ws @ [u]" and adj: "b_end (dat s u) = b_begin (dat s i)" by blast
    have "free_list s (ws @ u # i # vs)" "free_set (dat s) (ws @ u # i # vs)" using L fs u by simp_all
    from free_merge_ok [OF this(1) ok this(2) adj] obtain s' where s':
      "free_merge (Pool u) (Pool i) s = Inr s'" "frame s s'" "heap_ok (dat s') lo hi"
      "free_list s' (ws @ u # vs)" "free_set (dat s') (ws @ u # vs)" "allocated (dat s') = allocated (dat s)"
      "\<forall>k \<in> allocated (dat s). dat s' k = dat s k" "\<forall>k. k \<noteq> u \<longrightarrow> k \<noteq> i \<longrightarrow> dat s' k = dat s k"
      "b_begin (dat s' u) = b_begin (dat s u)" "b_end (dat s' u) = b_end (dat s i)"
      by blast
    have "ordered (dat s') (ws @ u # vs)"
      by (rule ordered_left_merge [OF sl [unfolded u]]) (use s' P u in \<open>auto simp del: dat_simps\<close>)
    then show ?thesis
      using s' u adj free_adjcent_Pool [OF L, of u i]
      by (intro exI [of _ True] exI [of _ s'] exI [of _ "ws @ u # vs"]) simp
  next
    case False
    have "ordered (dat s) (us @ i # vs)"
    proof (rule ordered_left_apart [OF sl])
      show "b_begin (dat s j) < b_end (dat s j)" if "j \<in> set us" for j
        using heap_ok_block [OF ok, of j] st [of j] that P by (auto simp: used_def block_ok_def)
      show "b_end (dat s u) < b_begin (dat s i)" if "us = ws @ [u]" for ws u
        using sl False that by (auto simp: slot_def order.order_iff_strict simp del: dat_simps)
    qed
    moreover have "free_adjcent (lastp us) (Pool i) s = Inr False"
      using False free_adjcent_Pool [OF L, of _ i] free_adjcent_ends(1) [OF L] by (cases us rule: rev_cases) auto
    ultimately show ?thesis
      using L ok fs by (intro exI [of _ False] exI [of _ s] exI [of _ "us @ i # vs"]) simp
  qed
qed

lemma apart_before:
  assumes "apart b c" and "b_begin b < b_begin c" and "b_begin b < b_end b" and "b_begin c < b_end c"
  shows "b_end b \<le> b_begin c"
  using assms unfolding apart_def by (metis leD order.strict_trans order.trans)

text \<open>The search of \<^verbatim>\<open>free_insert\<close> ends between the blocks below and the blocks above the returned one.\<close>

lemma free_seek_ok:
  assumes ok: "heap_ok (dat s) lo hi" and L: "free_list s L" and fs: "free_set (dat s) L"
    and i: "i \<in> allocated (dat s)"
  shows "\<exists>us vs. L = us @ vs \<and> free_seek WALK (Pool i) (Special 0) (firstp L) s = Inr (lastp us, firstp vs) \<and>
           free_between (lastp us) (Pool i) (firstp vs) s = Inr True \<and>
           (\<forall>u \<in> set us. b_end (dat s u) \<le> b_begin (dat s i)) \<and>
           (\<forall>v ws. vs = v # ws \<longrightarrow> b_end (dat s i) \<le> b_begin (dat s v))"
proof -
  have ui: "used (dat s) i" and iP: "i < POOL_SIZE" and sti: "b_state (dat s i) = ALLOCATED"
    using i by (auto simp: allocated_def used_def)
  have LP: "set L \<subseteq> {..<POOL_SIZE}" using L by (simp add: free_list_def)
  have uL: "used (dat s) k \<and> k \<noteq> i" if "k \<in> set L" for k
    using that sti LP free_set_state [OF fs that] by (auto simp: used_def)
  have ne: "b_begin (dat s k) < b_end (dat s k)" if "used (dat s) k" for k
    using heap_ok_block [OF ok that] by (simp add: block_ok_def)
  have diff: "\<forall>y \<in> set L. b_begin (dat s y) \<noteq> b_begin (dat s i)"
    using heap_ok_begin_inj [OF ok _ ui] uL by blast
  obtain us vs where uv: "L = us @ vs" and
    seek: "free_seek WALK (Pool i) (Special 0) (firstp L) s = Inr (lastp us, firstp vs)" and
    before: "\<forall>u \<in> set us. b_begin (dat s u) < b_begin (dat s i)" and
    after: "\<forall>v vs'. vs = v # vs' \<longrightarrow> b_begin (dat s i) < b_begin (dat s v)" and
    between: "free_between (lastp us) (Pool i) (firstp vs) s = Inr True"
    using free_seek_run [of s "[]" L WALK i] L free_list_length [OF L] diff by (auto simp: WALK_def)
  have "b_end (dat s u) \<le> b_begin (dat s i)" if "u \<in> set us" for u
    using before that uL [of u] ui uv by (intro apart_before heap_ok_apart [OF ok] ne) auto
  moreover have "b_end (dat s i) \<le> b_begin (dat s v)" if "vs = v # ws" for v ws
    using after that uL [of v] ui uv by (intro apart_before heap_ok_apart [OF ok] ne) auto
  ultimately show ?thesis using uv seek between by blast
qed

lemma free_insert_ok:
  assumes ok: "heap_ok (dat s) lo hi" and L: "free_list s L" and fs: "free_set (dat s) L" and ord: "ordered (dat s) L"
    and i: "i \<in> allocated (dat s)"
  shows "\<exists>s' L'. free_insert (Pool i) s = Inr s' \<and> frame s s' \<and> heap_ok (dat s') lo hi \<and>
           free_list s' L' \<and> free_set (dat s') L' \<and> ordered (dat s') L' \<and>
           allocated (dat s') = allocated (dat s) - {i} \<and> (\<forall>k \<in> allocated (dat s'). dat s' k = dat s k)"
proof -
  have iP: "i < POOL_SIZE" and sti: "b_state (dat s i) = ALLOCATED" and iL: "i \<notin> set L"
    using i fs by (auto simp: allocated_def free_set_def)
  from free_seek_ok [OF ok L fs i] obtain us vs where uv: "L = us @ vs" and
    seek: "free_seek WALK (Pool i) (Special 0) (firstp L) s = Inr (lastp us, firstp vs)" and
    between: "free_between (lastp us) (Pool i) (firstp vs) s = Inr True" and
    us: "\<forall>u \<in> set us. b_end (dat s u) \<le> b_begin (dat s i)" and
    vs: "\<forall>v ws. vs = v # ws \<longrightarrow> b_end (dat s i) \<le> b_begin (dat s v)"
    by blast
  obtain s1 where s1: "free_link (Pool i) (lastp us) (firstp vs) s = Inr s1" "free_list s1 (us @ i # vs)" "frame s s1"
    and d1: "dat s1 = (dat s)(i := (dat s i)\<lparr>b_state := UNALLOCATED\<rparr>)"
    using free_link_run [OF L [unfolded uv]] iL iP uv by auto
  have ok1: "heap_ok (dat s1) lo hi"
    unfolding d1 by (rule heap_ok_state [OF ok allocated_used [OF i]]) simp
  have fs1: "free_set (dat s1) (us @ i # vs)" using fs uv by (auto simp: free_set_def d1)
  have ord1: "ordered (dat s1) (us @ vs)" by (rule ordered_cong [OF _ ord [unfolded uv]]) (use iL uv in \<open>auto simp: d1\<close>)
  have A1: "allocated (dat s1) = allocated (dat s) - {i}" by (auto simp: allocated_def d1)
  have us1: "\<forall>u \<in> set us. b_end (dat s1 u) \<le> b_begin (dat s1 i)"
    using us iL uv by (auto simp: d1 simp del: dat_simps)
  have vs1: "\<forall>v ws. vs = v # ws \<longrightarrow> b_end (dat s1 i) \<le> b_begin (dat s1 v)"
    using vs iL uv by (auto simp: d1 simp del: dat_simps)
  from free_join_right [OF s1(2) ok1 fs1 ord1 us1 vs1] obtain a2 s2 vs' where s2:
    "free_adjcent (Pool i) (firstp vs) s1 = Inr a2" "(if a2 then free_merge (Pool i) (firstp vs) s1 else Inr s1) = Inr s2"
    "frame s1 s2" "heap_ok (dat s2) lo hi" "free_list s2 (us @ i # vs')" "free_set (dat s2) (us @ i # vs')"
    "allocated (dat s2) = allocated (dat s1)" "\<forall>k \<in> allocated (dat s1). dat s2 k = dat s1 k" "slot (dat s2) us i vs'"
    by blast
  from free_join_left [OF s2(5,4,6,9)] obtain a3 s3 L' where s3:
    "free_adjcent (lastp us) (Pool i) s2 = Inr a3" "(if a3 then free_merge (lastp us) (Pool i) s2 else Inr s2) = Inr s3"
    "frame s2 s3" "heap_ok (dat s3) lo hi" "free_list s3 L'" "free_set (dat s3) L'" "ordered (dat s3) L'"
    "allocated (dat s3) = allocated (dat s2)" "\<forall>k \<in> allocated (dat s2). dat s3 k = dat s2 k"
    by blast
  have "free_head s = Special 0" and "nx s (Special 0) = firstp L"
    using L free_list_join [of s "[]" L] by (auto simp: free_list_def)
  then have "free_insert (Pool i) s = Inr s3"
    using sti seek between s1(1) s2(1,2) s3(1,2) free_check_ok [OF s3(5)]
    by (simp add: free_insert_def ld_def)
  moreover have "\<forall>k \<in> allocated (dat s3). dat s3 k = dat s k"
    using s3(8,9) s2(7,8) A1 by (simp add: d1)
  ultimately show ?thesis
    using s3 s2 s1 A1 by (intro exI [of _ s3] exI [of _ L']) (simp add: frame_def)
qed

section \<open>The interface\<close>

lemma memoplk_simps [simp]:
  "dat (s\<lparr>memoplk := l\<rparr>) = dat s"
  "free_list (s\<lparr>memoplk := l\<rparr>) L = free_list s L"
  "get_unused_block (s\<lparr>memoplk := l\<rparr>) = get_unused_block s"
  by (simp_all add: fun_eq_iff dat_def free_list_def get_unused_block_def)

lemma alloc_invE:
  assumes "alloc_inv s"
  obtains L where "free_list s L" "heap_ok (dat s) (pm_start s) (pm_end s)" "free_set (dat s) L" "ordered (dat s) L"
    "pm_end s - pm_start s < 2 ^ 31" "memoplk s = UNLOCKED" "0 < pm_start s" "pm_start s < pm_end s"
  using assms by (auto simp: alloc_inv_def pool_ok_def)

text \<open>A request that finds a block: the state after \<^verbatim>\<open>kalloc\<close> in terms of the block it took.\<close>

lemma kalloc_run:
  assumes inv: "alloc_inv s" and L: "free_list s L" "free_set (dat s) L" "ordered (dat s) L"
    and g: "grow 1024 sz = Some n" "sz \<noteq> 0"
    and dw: "dropWhile (\<lambda>y. b_size (dat s y) < n) L = i # vs"
    and ex: "2 * n \<le> b_size (dat s i) \<Longrightarrow> \<exists>k < POOL_SIZE. b_state (dat s k) = UNUSED"
  shows "\<exists>s'. kalloc sz s pf = Inr (b_begin (dat s' i), s', pf\<lparr>mem_used := mem_used pf + ucast (b_size (dat s' i))\<rparr>) \<and>
           alloc_inv s' \<and> pm_start s' = pm_start s \<and> pm_end s' = pm_end s \<and>
           allocated (dat s') = insert i (allocated (dat s)) \<and> i \<notin> allocated (dat s) \<and>
           (\<forall>j \<in> allocated (dat s). dat s' j = dat s j) \<and> n \<le> b_size (dat s' i)"
proof -
  let ?lo = "pm_start s" and ?hi = "pm_end s" and ?s = "s\<lparr>memoplk := LOCKED\<rparr>"
  from inv have pool: "heap_ok (dat s) ?lo ?hi" "?hi - ?lo < 2 ^ 31" and ul: "memoplk s = UNLOCKED" "0 < ?lo" "?lo < ?hi"
    by (auto elim: alloc_invE)
  from free_find_ok [of ?s L, OF _ _ _ _ pool(2) g] L pool(1) dw ex obtain s' L' where s':
    "free_find sz ?s = Inr (Pool i, s')" "frame ?s s'" "heap_ok (dat s') ?lo ?hi" "free_list s' L'"
    "free_set (dat s') L'" "ordered (dat s') L'" "allocated (dat s') = insert i (allocated (dat s))"
    "i \<notin> allocated (dat s)" "\<forall>j \<in> allocated (dat s). dat s' j = dat s j" "n \<le> b_size (dat s' i)"
    by force
  have "used (dat s') i" using s'(7) by (auto intro: allocated_used)
  then have "block_ok (dat s' i) ?lo ?hi" using s'(3) by (intro heap_ok_block)
  then have "b_begin (dat s' i) \<noteq> 0" using ul(2) by (auto simp: block_ok_def)
  then have "kalloc sz s pf = Inr (b_begin (dat s' i), s'\<lparr>memoplk := UNLOCKED\<rparr>,
      pf\<lparr>mem_used := mem_used pf + ucast (b_size (dat s' i))\<rparr>)"
    using s'(1) g(2) ul(1) free_check_ok [OF s'(4)]
    by (simp add: kalloc_def naivelock_lock_def naivelock_unlock_def procfs_mem_trace_def ld_def)
  moreover have "alloc_inv (s'\<lparr>memoplk := UNLOCKED\<rparr>)"
    using s' ul pool(2) by (auto simp: alloc_inv_def pool_ok_def frame_def)
  ultimately show ?thesis
    using s' by (intro exI [of _ "s'\<lparr>memoplk := UNLOCKED\<rparr>"]) (simp add: frame_def)
qed

text \<open>The converse: a request that returns has found such a block.\<close>

lemma kalloc_InrD:
  assumes inv: "alloc_inv s" and L: "free_list s L" "free_set (dat s) L" and sz: "sz \<noteq> 0"
    and run: "kalloc sz s pf = Inr r"
  shows "\<exists>n i vs. grow 1024 sz = Some n \<and> dropWhile (\<lambda>y. b_size (dat s y) < n) L = i # vs \<and>
           (2 * n \<le> b_size (dat s i) \<longrightarrow> (\<exists>k < POOL_SIZE. b_state (dat s k) = UNUSED))"
proof -
  let ?s = "s\<lparr>memoplk := LOCKED\<rparr>"
  have "memoplk s = UNLOCKED" using inv by (simp add: alloc_inv_def)
  with run sz obtain b s' where f: "free_find sz ?s = Inr (b, s')"
    by (auto simp: kalloc_def naivelock_lock_def res_iff)
  then obtain n where n: "grow 1024 sz = Some n"
    by (auto simp: free_find_def split: option.splits)
  have start: "free_find sz ?s =
     (case dropWhile (\<lambda>y. b_size (dat s y) < n) L of
        [] \<Rightarrow> Inl AssertFail
      | i # _ \<Rightarrow>
          bindE (if 2 * n \<le> b_size (dat s i) then free_cut (Pool i) n ?s else Inr ?s) (\<lambda>s.
          bindE (free_delete (Pool i) s) (\<lambda>s. Inr (Pool i, s))))"
    by (rule free_find_start [of ?s L sz n, unfolded memoplk_simps, OF L n refl])
  with f obtain i vs where i: "dropWhile (\<lambda>y. b_size (dat s y) < n) L = i # vs"
    by (auto split: list.splits)
  have "\<exists>k < POOL_SIZE. b_state (dat s k) = UNUSED" if "2 * n \<le> b_size (dat s i)"
  proof -
    from start f i that have "bindE (free_cut (Pool i) n ?s) (\<lambda>s. bindE (free_delete (Pool i) s) (\<lambda>s. Inr (Pool i, s))) = Inr (b, s')"
      by simp
    then obtain s1 where "free_cut (Pool i) n ?s = Inr s1" by (auto simp: res_iff)
    then obtain k where "get_unused_block s = Inr k" by (auto simp: free_cut_def res_iff)
    from get_unused_blockD [OF this] show ?thesis by auto
  qed
  with n i show ?thesis by blast
qed

lemma kalloc_fresh_lemma:
  assumes inv: "alloc_inv s" and acc: "mem_used pf = alloc_total (dat s)" and sz: "sz \<noteq> 0"
    and run: "kalloc sz s pf = Inr (p, s', pf')"
  shows "alloc_inv s' \<and> mem_used pf' = alloc_total (dat s') \<and> pm_start s' = pm_start s \<and> pm_end s' = pm_end s \<and>
     (\<exists>e. regions (dat s') = insert (p, e) (regions (dat s)) \<and> pm_start s \<le> p \<and> p < e \<and> e \<le> pm_end s \<and>
          sz \<le> e - p \<and> (\<forall>(a, b) \<in> regions (dat s). b \<le> p \<or> e \<le> a))"
proof -
  from inv obtain L where L: "free_list s L" "free_set (dat s) L" "ordered (dat s) L"
    by (auto elim: alloc_invE)
  from kalloc_InrD [OF inv L(1,2) sz run] obtain n i vs where n: "grow 1024 sz = Some n"
    and dw: "dropWhile (\<lambda>y. b_size (dat s y) < n) L = i # vs"
    and ex: "2 * n \<le> b_size (dat s i) \<Longrightarrow> \<exists>k < POOL_SIZE. b_state (dat s k) = UNUSED"
    by blast
  from kalloc_run [OF inv L n sz dw ex, of pf] run have p: "p = b_begin (dat s' i)"
    and pf': "pf' = pf\<lparr>mem_used := mem_used pf + ucast (b_size (dat s' i))\<rparr>"
    and inv': "alloc_inv s'" and b: "pm_start s' = pm_start s" "pm_end s' = pm_end s"
    and A: "allocated (dat s') = insert i (allocated (dat s))" "i \<notin> allocated (dat s)"
    and keep: "\<forall>j \<in> allocated (dat s). dat s' j = dat s j" and big: "n \<le> b_size (dat s' i)"
    by auto
  have ok': "heap_ok (dat s') (pm_start s) (pm_end s)" using inv' b by (auto elim: alloc_invE)
  have u: "used (dat s') i" using A by (auto intro: allocated_used)
  have bo: "block_ok (dat s' i) (pm_start s) (pm_end s)" using ok' u by (rule heap_ok_block)
  let ?e = "b_end (dat s' i)"
  have "regions (dat s') = insert (p, ?e) (regions (dat s))" "alloc_total (dat s') = alloc_total (dat s) + ucast (b_size (dat s' i))"
    using regions_grow [OF A] keep p by auto
  moreover have "sz \<le> ?e - p" using order.trans [OF grow_SomeD [OF n] big] bo p by (simp add: block_ok_def)
  moreover have "\<forall>(a, b) \<in> regions (dat s). b \<le> p \<or> ?e \<le> a"
    using regions_disjoint [OF ok' u A(2)] A(1) keep p by auto
  ultimately show ?thesis using inv' b bo p pf' acc by (auto simp: block_ok_def)
qed

lemma kfree_run:
  assumes inv: "alloc_inv s" and acc: "mem_used pf = alloc_total (dat s)" and pe: "(p, e) \<in> regions (dat s)"
  shows "\<exists>s' pf'. kfree p s pf = Inr (s', pf') \<and> alloc_inv s' \<and> mem_used pf' = alloc_total (dat s') \<and>
           pm_start s' = pm_start s \<and> pm_end s' = pm_end s \<and> regions (dat s') = regions (dat s) - {(p, e)}"
proof -
  let ?lo = "pm_start s" and ?hi = "pm_end s" and ?s = "s\<lparr>memoplk := LOCKED\<rparr>"
  from inv obtain L where L: "free_list s L" and ok: "heap_ok (dat s) ?lo ?hi" and fs: "free_set (dat s) L"
    and ord: "ordered (dat s) L" and bd: "?hi - ?lo < 2 ^ 31" "memoplk s = UNLOCKED" "0 < ?lo" "?lo < ?hi"
    by (rule alloc_invE)
  from pe obtain i where i: "i \<in> allocated (dat s)" and p: "p = b_begin (dat s i)" and e: "e = b_end (dat s i)"
    by (auto simp: regions_def)
  have "first_idx (\<lambda>k. b_state (blk s (Pool k)) = ALLOCATED \<and> b_begin (blk s (Pool k)) = p) 0 POOL_SIZE = Some i"
  proof (rule first_idx_eqI)
    show "\<not> (b_state (blk s (Pool j)) = ALLOCATED \<and> b_begin (blk s (Pool j)) = p)" if "j < i" for j
      using heap_ok_begin_inj [OF ok _ allocated_used [OF i], of j] that i p by (auto simp: allocated_def used_def)
  qed (use i p in \<open>auto simp: allocated_def\<close>)
  then have find: "find_allocated_block p ?s = Inr i" by (simp add: find_allocated_block_def)
  from free_insert_ok [of ?s, unfolded memoplk_simps, OF ok L fs ord i] obtain s' L' where s':
    "free_insert (Pool i) ?s = Inr s'" "frame ?s s'" "heap_ok (dat s') ?lo ?hi" "free_list s' L'"
    "free_set (dat s') L'" "ordered (dat s') L'" "allocated (dat s') = allocated (dat s) - {i}"
    "\<forall>k \<in> allocated (dat s'). dat s' k = dat s k"
    by blast
  have "kfree p s pf = Inr (s'\<lparr>memoplk := UNLOCKED\<rparr>, pf\<lparr>mem_used := mem_used pf - ucast (b_size (dat s i))\<rparr>)"
    using find s'(1) bd(2) by (simp add: kfree_def naivelock_lock_def naivelock_unlock_def procfs_mem_trace_def)
  moreover have "alloc_inv (s'\<lparr>memoplk := UNLOCKED\<rparr>)"
    using s' bd by (auto simp: alloc_inv_def pool_ok_def frame_def)
  moreover note regions_shrink [OF ok i s'(7)]
  ultimately show ?thesis
    using s' p e acc by (intro exI [of _ "s'\<lparr>memoplk := UNLOCKED\<rparr>"] exI) (auto simp: frame_def simp del: dat_simps)
qed

lemma kfree_unknown:
  assumes inv: "alloc_inv s" and p: "p \<notin> fst ` regions (dat s)"
  shows "kfree p s pf = Inl AssertFail"
proof -
  have "first_idx (\<lambda>k. b_state (blk s (Pool k)) = ALLOCATED \<and> b_begin (blk s (Pool k)) = p) 0 POOL_SIZE = None"
    using p unfolding first_idx_None_iff by (force simp: regions_def allocated_def image_iff)
  with inv show ?thesis
    by (simp add: kfree_def naivelock_lock_def find_allocated_block_def alloc_inv_def)
qed

lemma pmm_init_run:
  assumes "0 < hs" and "hs < he" and "he - hs < 2 ^ 31" and "memoplk s = UNLOCKED"
  shows "\<exists>s'. pmm_init hs he s pf = Inr (s', pf\<lparr>mem_total := ucast (he - hs)\<rparr>) \<and> alloc_inv s' \<and>
     pm_start s' = hs \<and> pm_end s' = he \<and> allocated (dat s') = {} \<and> free_list s' [0] \<and> free_set (dat s') [0] \<and>
     b_size (dat s' 0) = he - hs \<and> b_state (dat s' 1) = UNUSED"
proof -
  define s' where "s' = (free_init hs he (s\<lparr>memoplk := LOCKED, pm_start := hs, pm_end := he\<rparr>))\<lparr>memoplk := UNLOCKED\<rparr>"
  have run: "pmm_init hs he s pf = Inr (s', pf\<lparr>mem_total := ucast (he - hs)\<rparr>)"
    using assms(4) by (simp add: pmm_init_def s'_def naivelock_lock_def naivelock_unlock_def Let_def)
  have d: "b_id (dat s' i) = i" "b_state (dat s' i) = (if i = 0 then UNALLOCATED else UNUSED)" if "i < POOL_SIZE" for i
    using that by (simp_all add: s'_def free_init_def Let_def)
  have d0: "b_begin (dat s' 0) = hs" "b_end (dat s' 0) = he" "b_size (dat s' 0) = he - hs"
    by (simp_all add: s'_def free_init_def Let_def)
  have bnd: "pm_start s' = hs" "pm_end s' = he" "memoplk s' = UNLOCKED"
    by (simp_all add: s'_def free_init_def Let_def)
  have used: "used (dat s') i \<longleftrightarrow> i = 0" for i
    using d [of i] by (auto simp: used_def POOL_SIZE_def simp del: dat_simps split: if_splits)
  have L: "free_list s' [0]"
    by (simp add: free_list_def ptrs_def s'_def free_init_def Let_def POOL_SIZE_def)
  have fs: "free_set (dat s') [0]"
    using d by (auto simp: free_set_def simp del: dat_simps)
  have "heap_ok (dat s') hs he"
    unfolding heap_ok_def using d(1) d0 used assms(2) by (auto simp: block_ok_def simp del: dat_simps)
  moreover have "ordered (dat s') [0]" by (simp add: ordered_def)
  ultimately have "alloc_inv s'"
    using L fs bnd assms(1-3) unfolding alloc_inv_def pool_ok_def by auto
  moreover have "allocated (dat s') = {}"
    using d(2) by (auto simp: allocated_def simp del: dat_simps split: if_splits)
  ultimately show ?thesis
    using run L fs bnd d0 d(2) [of 1] by (intro exI [of _ s']) (simp add: POOL_SIZE_def)
qed

lemma kalloc_succeeds_lemma:
  assumes inv: "alloc_inv s" and n: "grow 1024 sz = Some n" "sz \<noteq> 0"
    and i: "i < POOL_SIZE" "b_state (dat s i) = UNALLOCATED" "n \<le> b_size (dat s i)"
    and k: "k < POOL_SIZE" "b_state (dat s k) = UNUSED"
  shows "\<exists>p s' pf'. kalloc sz s pf = Inr (p, s', pf')"
proof -
  from inv obtain L where L: "free_list s L" "free_set (dat s) L" "ordered (dat s) L"
    by (auto elim: alloc_invE)
  have "i \<in> set L" using L(2) i by (auto simp: free_set_def)
  with i(3) have "dropWhile (\<lambda>y. b_size (dat s y) < n) L \<noteq> []"
    by (auto simp: dropWhile_eq_Nil_conv not_less simp del: dat_simps)
  then obtain j vs where "dropWhile (\<lambda>y. b_size (dat s y) < n) L = j # vs"
    by (metis list.exhaust)
  from kalloc_run [OF inv L n this, of pf] k show ?thesis by blast
qed

lemma kalloc_full:
  assumes inv: "alloc_inv s" and n: "grow 1024 sz = Some n" "sz \<noteq> 0"
    and no: "\<forall>i < POOL_SIZE. b_state (dat s i) = UNALLOCATED \<longrightarrow> b_size (dat s i) < n"
  shows "kalloc sz s pf = Inl AssertFail"
proof -
  from inv obtain L where L: "free_list s L" "free_set (dat s) L" and ul: "memoplk s = UNLOCKED"
    by (auto elim: alloc_invE)
  then have "dropWhile (\<lambda>y. b_size (dat s y) < n) L = []"
    using no by (auto simp: dropWhile_eq_Nil_conv free_list_def free_set_def simp del: dat_simps)
  from free_find_start [of "s\<lparr>memoplk := LOCKED\<rparr>", unfolded memoplk_simps, OF L n(1) this]
  have "free_find sz (s\<lparr>memoplk := LOCKED\<rparr>) = Inl AssertFail" by simp
  with n(2) ul show ?thesis by (simp add: kalloc_def naivelock_lock_def)
qed

lemma kalloc_diverges:
  "alloc_inv s \<Longrightarrow> sz \<noteq> 0 \<Longrightarrow> 2 ^ 31 < sz \<Longrightarrow> kalloc sz s pf = Inl Diverge"
  using grow_diverges [of sz] by (simp add: kalloc_def naivelock_lock_def free_find_def alloc_inv_def)

section \<open>Properties\<close>

text \<open>
  \<^verbatim>\<open>pmm_init\<close> on any heap of less than 2 GB that does not start at address zero returns and
  establishes the allocator's invariant, with nothing handed out and the size of the heap recorded.
\<close>

theorem pmm_init_correct:
  assumes "0 < hs" and "hs < he" and "he - hs < 2 ^ 31" and "memoplk s = UNLOCKED"
  shows "\<exists>s' pf'. pmm_init hs he s pf = Inr (s', pf') \<and> alloc_inv s' \<and> regions (dat s') = {} \<and>
           pm_start s' = hs \<and> pm_end s' = he \<and> mem_total pf' = ucast (he - hs) \<and> mem_used pf' = mem_used pf"
  using pmm_init_run [OF assms, of pf] by (auto simp: regions_def)

theorem pmm_init_correct_witness:
  "\<exists>s' pf'. pmm_init 4096 69632 pmm0 procfs0 = Inr (s', pf') \<and> alloc_inv s' \<and> regions (dat s') = {} \<and>
     pm_start s' = 4096 \<and> pm_end s' = 69632 \<and> mem_total pf' = ucast (69632 - 4096 :: u32) \<and>
     mem_used pf' = mem_used procfs0"
  by (rule pmm_init_correct) (simp_all add: pmm0_def)

text \<open>
  Whenever \<^verbatim>\<open>kalloc\<close> returns for a nonzero size, the invariant and the memory accounting are kept and
  the address it returns starts a new region: inside the heap, at least as large as the request and
  disjoint from every region handed out before, which all remain.
\<close>

theorem kalloc_fresh:
  assumes "alloc_inv s" and "mem_used pf = alloc_total (dat s)" and "sz \<noteq> 0"
    and "kalloc sz s pf = Inr (p, s', pf')"
  shows "alloc_inv s' \<and> mem_used pf' = alloc_total (dat s') \<and>
     (\<exists>e. regions (dat s') = insert (p, e) (regions (dat s)) \<and> pm_start s \<le> p \<and> p < e \<and> e \<le> pm_end s \<and>
          sz \<le> e - p \<and> (\<forall>(a, b) \<in> regions (dat s). b \<le> p \<or> e \<le> a))"
  using kalloc_fresh_lemma [OF assms] by blast

text \<open>A booted heap on which requests run.\<close>

lemma booted:
  "\<exists>s. alloc_inv s \<and> allocated (dat s) = {} \<and> 0 < POOL_SIZE \<and> 1 < POOL_SIZE \<and> b_state (dat s 0) = UNALLOCATED \<and>
     b_size (dat s 0) = 65536 \<and> b_state (dat s 1) = UNUSED \<and> grow 1024 100 = Some 1024"
proof -
  obtain s where "alloc_inv s" "allocated (dat s) = {}" "free_set (dat s) [0]" "b_size (dat s 0) = 69632 - 4096"
    "b_state (dat s 1) = UNUSED"
    using pmm_init_run [of 4096 69632 pmm0] by (auto simp: pmm0_def)
  moreover have "grow 1024 100 = Some 1024" by (subst grow.simps) simp
  ultimately show ?thesis by (intro exI [of _ s]) (auto simp: POOL_SIZE_def intro!: free_set_state simp del: dat_simps)
qed

lemma booted_kalloc:
  "\<exists>s p s' pf'. alloc_inv s \<and> allocated (dat s) = {} \<and> mem_used procfs0 = alloc_total (dat s) \<and>
     kalloc 100 s procfs0 = Inr (p, s', pf')"
proof -
  obtain s where s: "alloc_inv s" "allocated (dat s) = {}" "0 < POOL_SIZE" "1 < POOL_SIZE"
    "b_state (dat s 0) = UNALLOCATED" "b_size (dat s 0) = 65536" "b_state (dat s 1) = UNUSED" "grow 1024 100 = Some 1024"
    using booted by blast
  obtain p s' pf' where run: "kalloc 100 s procfs0 = Inr (p, s', pf')"
    using kalloc_succeeds_lemma [OF s(1,8) _ s(3,5) _ s(4,7)] s(6) by (force simp del: dat_simps)
  have "mem_used procfs0 = alloc_total (dat s)" using s(2) by (simp add: procfs0_def alloc_total_def)
  with s run show ?thesis by blast
qed

theorem kalloc_fresh_witness:
  "\<exists>s s' pf' p e. alloc_inv s \<and> kalloc 100 s procfs0 = Inr (p, s', pf') \<and> alloc_inv s' \<and>
     regions (dat s') = {(p, e)} \<and> 100 \<le> e - p"
proof -
  obtain s p s' pf' where s: "alloc_inv s" "allocated (dat s) = {}" "mem_used procfs0 = alloc_total (dat s)"
    and run: "kalloc 100 s procfs0 = Inr (p, s', pf')"
    using booted_kalloc by blast
  from kalloc_fresh [OF s(1,3) _ run] s(1,2) run show ?thesis by (auto simp: regions_def)
qed

text \<open>
  C23: a request whose rounded size \<open>n\<close> fits into some free block succeeds as long as the descriptor
  pool is not exhausted; when no free block has \<open>n\<close> bytes it fails its assertion, and a request of
  more than 2 GB never returns because the rounding loop never ends.
\<close>

theorem kalloc_outcome:
  assumes "alloc_inv s" and "sz \<noteq> 0"
  shows "(case grow 1024 sz of
            None \<Rightarrow> 2 ^ 31 < sz \<and> kalloc sz s pf = Inl Diverge
          | Some n \<Rightarrow> sz \<le> 2 ^ 31 \<and>
             (\<exists>m. 10 \<le> m \<and> m \<le> 31 \<and> n = 2 ^ m \<and> sz \<le> n \<and> (m = 10 \<or> 2 ^ (m - 1) < sz)) \<and>
             ((\<exists>i < POOL_SIZE. b_state (dat s i) = UNALLOCATED \<and> n \<le> b_size (dat s i)) \<and>
                (\<exists>k < POOL_SIZE. b_state (dat s k) = UNUSED) \<longrightarrow> (\<exists>p s' pf'. kalloc sz s pf = Inr (p, s', pf'))) \<and>
             (\<not> (\<exists>i < POOL_SIZE. b_state (dat s i) = UNALLOCATED \<and> n \<le> b_size (dat s i)) \<longrightarrow>
                kalloc sz s pf = Inl AssertFail))"
proof (cases "sz \<le> 2 ^ 31")
  case True
  then obtain m where m: "10 \<le> m" "m \<le> 31" "grow 1024 sz = Some (2 ^ m)" "sz \<le> 2 ^ m" "m = 10 \<or> 2 ^ (m - 1) < sz"
    using grow_pow [OF True, of 10] by auto
  have "\<exists>p s' pf'. kalloc sz s pf = Inr (p, s', pf')"
    if "\<exists>i < POOL_SIZE. b_state (dat s i) = UNALLOCATED \<and> 2 ^ m \<le> b_size (dat s i)"
      "\<exists>k < POOL_SIZE. b_state (dat s k) = UNUSED"
    using that kalloc_succeeds_lemma [OF assms(1) m(3) assms(2)] by blast
  moreover have "kalloc sz s pf = Inl AssertFail"
    if "\<not> (\<exists>i < POOL_SIZE. b_state (dat s i) = UNALLOCATED \<and> 2 ^ m \<le> b_size (dat s i))"
    using that assms m(3) by (intro kalloc_full) (auto simp: not_le)
  ultimately show ?thesis using True m by (auto simp del: dat_simps)
next
  case False
  then show ?thesis
    using grow_diverges [of sz] kalloc_diverges [OF assms(1,2)] by (simp add: not_le)
qed

theorem kalloc_outcome_witness:
  "\<exists>s. alloc_inv s \<and> (\<exists>p s' pf'. kalloc 100 s procfs0 = Inr (p, s', pf')) \<and> kalloc 3000000000 s procfs0 = Inl Diverge"
proof -
  obtain s where s: "alloc_inv s" "0 < POOL_SIZE" "1 < POOL_SIZE" "b_state (dat s 0) = UNALLOCATED"
    "b_size (dat s 0) = 65536" "b_state (dat s 1) = UNUSED" "grow 1024 100 = Some 1024"
    using booted by blast
  have "\<exists>i < POOL_SIZE. b_state (dat s i) = UNALLOCATED \<and> 1024 \<le> b_size (dat s i)"
    using s(2,4,5) by (intro exI [of _ 0]) (simp del: dat_simps)
  moreover have "\<exists>k < POOL_SIZE. b_state (dat s k) = UNUSED" using s(3,6) by blast
  ultimately have "\<exists>p s' pf'. kalloc 100 s procfs0 = Inr (p, s', pf')"
    using kalloc_outcome [OF s(1), of 100 procfs0] s(7) by (simp del: dat_simps)
  moreover have "kalloc 3000000000 s procfs0 = Inl Diverge"
    using kalloc_outcome [OF s(1), of 3000000000 procfs0] grow_diverges [of 3000000000] by simp
  ultimately show ?thesis using s(1) by blast
qed

text \<open>
  C15: \<^verbatim>\<open>kfree\<close> of the start of a region that was handed out succeeds, keeps the invariant and the
  accounting and removes exactly that region.
\<close>

theorem kfree_correct:
  assumes "alloc_inv s" and "mem_used pf = alloc_total (dat s)" and "(p, e) \<in> regions (dat s)"
  shows "\<exists>s' pf'. kfree p s pf = Inr (s', pf') \<and> alloc_inv s' \<and> mem_used pf' = alloc_total (dat s') \<and>
           regions (dat s') = regions (dat s) - {(p, e)}"
  using kfree_run [OF assms] by blast

lemma booted_region:
  "\<exists>s (pf :: procfs) p e. alloc_inv s \<and> mem_used pf = alloc_total (dat s) \<and> regions (dat s) = {(p, e)}"
proof -
  obtain s p s' pf' where s: "alloc_inv s" "allocated (dat s) = {}" "mem_used procfs0 = alloc_total (dat s)"
    and run: "kalloc 100 s procfs0 = Inr (p, s', pf')"
    using booted_kalloc by blast
  from kalloc_fresh_lemma [OF s(1,3) _ run] obtain e where "alloc_inv s'" "mem_used pf' = alloc_total (dat s')"
    "regions (dat s') = insert (p, e) (regions (dat s))" by auto
  moreover have "regions (dat s) = {}" using s(2) by (simp add: regions_def)
  ultimately show ?thesis by blast
qed

theorem kfree_correct_witness:
  "\<exists>s pf p s' pf'. alloc_inv s \<and> kfree p s pf = Inr (s', pf') \<and> alloc_inv s' \<and> regions (dat s) \<noteq> {} \<and> regions (dat s') = {}"
proof -
  obtain s and pf :: procfs and p e where
    s: "alloc_inv s" "mem_used pf = alloc_total (dat s)" "regions (dat s) = {(p, e)}"
    using booted_region by blast
  from kfree_correct [OF s(1,2), of p e] s(3) obtain s' pf' where
    "kfree p s pf = Inr (s', pf')" "alloc_inv s'" "regions (dat s') = {}" by auto
  moreover have "regions (dat s) \<noteq> {}" using s(3) by simp
  ultimately show ?thesis using s(1) by blast
qed

section \<open>The allocator contract holds\<close>

definition heap_inv :: "pmm \<times> procfs \<Rightarrow> bool" where
  "heap_inv h = (case h of (s, pf) \<Rightarrow> alloc_inv s \<and> mem_used pf = alloc_total (dat s))"

interpretation heap: allocator heap_inv "\<lambda>(s, pf). regions (dat s)" "\<lambda>n (s, pf). kalloc n s pf" "\<lambda>p (s, pf). kfree p s pf"
proof (unfold_locales, goal_cases)
  case (1 s n p s')
  then show ?case using kalloc_fresh_lemma [of "fst s" "snd s" n p "fst s'" "snd s'"]
    by (auto simp: heap_inv_def split: prod.splits)
next
  case (2 s)
  then show ?case by (simp add: kalloc_def split: prod.splits)
next
  case (3 s p e)
  then show ?case using kfree_run [of "fst s" "snd s" p e]
    by (fastforce simp: heap_inv_def split: prod.splits)
next
  case (4 s p)
  then show ?case using kfree_unknown [of "fst s" p]
    by (simp add: heap_inv_def split: prod.splits)
qed

text \<open>
  C1: after any sequence of \<^verbatim>\<open>kalloc\<close> and \<^verbatim>\<open>kfree\<close> calls that returns, starting from a heap on which the
  regions handed out are nonempty and pairwise disjoint, they still are.
\<close>

theorem requests_keep_regions_apart:
  assumes "heap_inv h" and "regions_apart (regions (dat (fst h)))"
    and "serve (\<lambda>n (s, pf). kalloc n s pf) (\<lambda>p (s, pf). kfree p s pf) rs h = Inr h'"
  shows "heap_inv h' \<and> regions_apart (regions (dat (fst h')))"
  using heap.serve_apart [OF assms(1) _ assms(3)] assms(2) by (simp add: case_prod_unfold)

theorem requests_keep_regions_apart_witness:
  "\<exists>h h'. heap_inv h \<and> serve (\<lambda>n (s, pf). kalloc n s pf) (\<lambda>p (s, pf). kfree p s pf) [AllocReq 100] h = Inr h' \<and>
     heap_inv h' \<and> regions_apart (regions (dat (fst h')))"
proof -
  obtain s p s' pf' where s: "alloc_inv s" "allocated (dat s) = {}" "mem_used procfs0 = alloc_total (dat s)"
    and run: "kalloc 100 s procfs0 = Inr (p, s', pf')"
    using booted_kalloc by blast
  have h: "heap_inv (s, procfs0)" "regions_apart (regions (dat (fst (s, procfs0))))"
    using s(1,2) by (simp_all add: heap_inv_def procfs0_def alloc_total_def regions_def)
  have "serve (\<lambda>n (s, pf). kalloc n s pf) (\<lambda>p (s, pf). kfree p s pf) [AllocReq 100] (s, procfs0) = Inr (s', pf')"
    using run by simp
  with requests_keep_regions_apart [OF h this] h(1) show ?thesis by blast
qed

text \<open>
  A block allocated and at once freed leaves the regions as they were, and freeing the same address
  twice fails the assertion of \<^verbatim>\<open>find_allocated_block\<close> the second time.
\<close>

theorem kalloc_kfree_roundtrip:
  assumes "alloc_inv s" and "mem_used pf = alloc_total (dat s)" and "sz \<noteq> 0"
    and "kalloc sz s pf = Inr (p, s1, pf1)" and "regions_apart (regions (dat s))"
  shows "\<exists>s2 pf2. kfree p s1 pf1 = Inr (s2, pf2) \<and> alloc_inv s2 \<and> regions (dat s2) = regions (dat s) \<and>
           mem_used pf2 = mem_used pf \<and> kfree p s2 pf2 = Inl AssertFail"
proof -
  have h: "heap_inv (s, pf)" using assms(1,2) by (simp add: heap_inv_def)
  have a: "(\<lambda>(s, pf). kalloc sz s pf) (s, pf) = Inr (p, s1, pf1)" using assms(4) by simp
  from heap.alloc_then_free [OF h assms(3) a] obtain s2 pf2 where s2:
    "kfree p s1 pf1 = Inr (s2, pf2)" "heap_inv (s2, pf2)" "regions (dat s2) = regions (dat s)" by auto
  have h1: "heap_inv (s1, pf1)" "regions_apart (regions (dat s1))"
    using heap.serve_apart [OF h, of "[AllocReq sz]" "(s1, pf1)"] a assms(5) by auto
  have "kfree p s2 pf2 = Inl AssertFail"
    using heap.double_free [OF h1(1), of p "(s2, pf2)"] h1(2) s2(1) by simp
  moreover have "alloc_total (dat s2) = alloc_total (dat s)"
    using s2(2,3) assms(1) alloc_total_regions by (auto simp: heap_inv_def elim!: alloc_invE)
  ultimately show ?thesis using s2 assms(2) by (auto simp: heap_inv_def)
qed

theorem kalloc_kfree_roundtrip_witness:
  "\<exists>s p s1 pf1 s2 pf2. kalloc 100 s procfs0 = Inr (p, s1, pf1) \<and> kfree p s1 pf1 = Inr (s2, pf2) \<and>
     regions (dat s2) = {} \<and> mem_used pf2 = 0 \<and> kfree p s2 pf2 = Inl AssertFail"
proof -
  obtain s p s' pf' where s: "alloc_inv s" "allocated (dat s) = {}" "mem_used procfs0 = alloc_total (dat s)"
    and run: "kalloc 100 s procfs0 = Inr (p, s', pf')"
    using booted_kalloc by blast
  have "regions (dat s) = {}" "mem_used procfs0 = 0" using s(2) by (simp_all add: regions_def procfs0_def)
  with kalloc_kfree_roundtrip [OF s(1,3) _ run] obtain s2 pf2 where "kfree p s' pf' = Inr (s2, pf2)"
    "regions (dat s2) = {}" "mem_used pf2 = 0" "kfree p s2 pf2 = Inl AssertFail" by auto
  with run show ?thesis by blast
qed

end
