(* ===== verification/Cte.thy ===== *)
theory Cte
  imports Prelude
begin

text \<open>
  The context extension of the abstract machine, \<^verbatim>\<open>am/src/x86/qemu/cte.c\<close>: the processor context of
  \<^verbatim>\<open>am/include/arch/x86-qemu.h\<close>, the trap frame of \<^verbatim>\<open>x86.h\<close>, the initial context of a kernel
  thread, the classification of interrupts into events and the way from a trap through the handler
  to the context that is resumed.
\<close>

section \<open>Events and contexts\<close>

abbreviation (input) EVENT_NULL :: nat where "EVENT_NULL \<equiv> 0"
abbreviation (input) EVENT_ERROR :: nat where "EVENT_ERROR \<equiv> 1"
abbreviation (input) EVENT_IRQ_TIMER :: nat where "EVENT_IRQ_TIMER \<equiv> 2"
abbreviation (input) EVENT_IRQ_IODEV :: nat where "EVENT_IRQ_IODEV \<equiv> 3"
abbreviation (input) EVENT_PAGEFAULT :: nat where "EVENT_PAGEFAULT \<equiv> 4"
abbreviation (input) EVENT_YIELD :: nat where "EVENT_YIELD \<equiv> 5"
abbreviation (input) EVENT_SYSCALL :: nat where "EVENT_SYSCALL \<equiv> 6"

record event =
  ev_event :: nat
  ev_cause :: u32
  ev_ref :: u32

record Context =
  c_prot :: "u32 option"
  c_eax :: u32
  c_ebx :: u32
  c_ecx :: u32
  c_edx :: u32
  c_esi :: u32
  c_edi :: u32
  c_ebp :: u32
  c_esp3 :: u32
  c_eip :: u32
  c_eflags :: u32
  c_cs :: u32
  c_ds :: u32
  c_es :: u32
  c_ss :: u32
  c_ss0 :: u32
  c_esp0 :: u32

record trapframe =
  tf_edi :: u32
  tf_esi :: u32
  tf_ebp :: u32
  tf_ebx :: u32
  tf_edx :: u32
  tf_ecx :: u32
  tf_eax :: u32
  tf_es :: u32
  tf_ds :: u32
  tf_irq :: int
  tf_err :: u32
  tf_eip :: u32
  tf_cs :: u32
  tf_eflags :: u32
  tf_esp :: u32
  tf_ss :: u32

definition FL_IF :: u32 where "FL_IF = 0x200"
definition KSEL :: "u32 \<Rightarrow> u32" where "KSEL desc = push_bit 3 desc OR 0"
definition SEG_KCODE :: u32 where "SEG_KCODE = 1"
definition SEG_KDATA :: u32 where "SEG_KDATA = 2"
definition DPL_USER :: u32 where "DPL_USER = 3"

lemmas seg_defs = FL_IF_def KSEL_def SEG_KCODE_def SEG_KDATA_def DPL_USER_def

section \<open>Kernel threads\<close>

text \<open>
  \<^verbatim>\<open>kcontext\<close> builds the first context of a thread on the stack \<open>(start, end)\<close>.  It also stores two words
  at the new stack pointer, the address of \<^verbatim>\<open>panic_on_return\<close> (parameter \<open>ret\<close>) and the thread's
  argument: the frame of a call of \<open>entry\<close> with argument \<open>arg\<close>.
\<close>

definition kcontext :: "u32 \<Rightarrow> u32 \<times> u32 \<Rightarrow> u32 \<Rightarrow> u32 \<Rightarrow> Context \<times> (u32 \<times> u32) list" where
  "kcontext ret stack entry arg =
     (let ctx = \<lparr>c_prot = None, c_eax = 0, c_ebx = 0, c_ecx = 0, c_edx = 0, c_esi = 0, c_edi = 0, c_ebp = 0,
                 c_esp3 = 0, c_eip = entry, c_eflags = FL_IF, c_cs = KSEL SEG_KCODE, c_ds = KSEL SEG_KDATA,
                 c_es = KSEL SEG_KDATA, c_ss = KSEL SEG_KDATA, c_ss0 = 0, c_esp0 = snd stack\<rparr>;
          values = [ret, arg];
          ctx = ctx\<lparr>c_esp0 := c_esp0 ctx - of_nat (4 * length values)\<rparr>
      in (ctx, map (\<lambda>i. (c_esp0 ctx + of_nat (4 * i), values ! i)) [0..<length values]))"

section \<open>Traps\<close>

text \<open>The context saved for a trap whose frame ends at address \<open>frame_end\<close> (\<^verbatim>\<open>tf + 1\<close>).\<close>

definition irq_save :: "u32 option \<Rightarrow> u32 \<Rightarrow> trapframe \<Rightarrow> Context" where
  "irq_save prot frame_end tf =
     (let ctx = \<lparr>c_prot = prot, c_eax = tf_eax tf, c_ebx = tf_ebx tf, c_ecx = tf_ecx tf, c_edx = tf_edx tf,
                 c_esi = tf_esi tf, c_edi = tf_edi tf, c_ebp = tf_ebp tf, c_esp3 = 0, c_eip = tf_eip tf,
                 c_eflags = tf_eflags tf, c_cs = tf_cs tf, c_ds = tf_ds tf, c_es = tf_es tf, c_ss = 0,
                 c_ss0 = KSEL SEG_KDATA, c_esp0 = frame_end\<rparr>
      in if tf_cs tf AND DPL_USER \<noteq> 0 then ctx\<lparr>c_ss := tf_ss tf, c_esp3 := tf_esp tf\<rparr>
         else ctx\<lparr>c_esp0 := c_esp0 ctx - 8\<rparr>)"

definition irq_eoi :: "trapframe \<Rightarrow> bool" where
  "irq_eoi tf \<longleftrightarrow> 32 \<le> tf_irq tf \<and> tf_irq tf < 32 + 32"

text \<open>\<open>cr2\<close> is the faulting address the processor reports.\<close>

definition irq_event :: "u32 \<Rightarrow> trapframe \<Rightarrow> event" where
  "irq_event cr2 tf =
     (let irq = tf_irq tf; ev = \<lparr>ev_event = EVENT_NULL, ev_cause = 0, ev_ref = 0\<rparr> in
      if irq = 32 + 0 then ev\<lparr>ev_event := EVENT_IRQ_TIMER\<rparr>
      else if irq = 32 + 1 then ev\<lparr>ev_event := EVENT_IRQ_IODEV\<rparr>
      else if irq = 0x80 then
        ev\<lparr>ev_event := (if sint (tf_eax tf) = -1 then EVENT_YIELD else EVENT_SYSCALL)\<rparr>
      else if irq = 14 then
        ev\<lparr>ev_event := EVENT_PAGEFAULT,
           ev_cause := (ev_cause ev OR (if tf_err tf AND 1 \<noteq> 0 then 1 else 0)) OR
                       (if tf_err tf AND 2 \<noteq> 0 then 4 else 2),
           ev_ref := cr2\<rparr>
      else if irq \<in> {0, 6, 7, 8, 10, 11, 12, 13} then ev\<lparr>ev_event := EVENT_ERROR\<rparr>
      else ev\<lparr>ev_event := EVENT_ERROR, ev_cause := tf_err tf\<rparr>)"

text \<open>
  The trap: \<open>h\<close> is the handler registered by \<^verbatim>\<open>_cte_init\<close>, if any.  The result is the context that
  is resumed; a handler that returns a null context is a panic.
\<close>

definition irq_handle ::
  "(event \<Rightarrow> Context \<Rightarrow> 's \<Rightarrow> (Context option \<times> 's) res) option \<Rightarrow> u32 option \<Rightarrow> u32 \<Rightarrow> u32 \<Rightarrow> trapframe \<Rightarrow> 's \<Rightarrow>
     (Context \<times> 's) res" where
  "irq_handle h prot frame_end cr2 tf s =
     (let ctx = irq_save prot frame_end tf; ev = irq_event cr2 tf in
      case h of
        None \<Rightarrow> Inr (ctx, s)
      | Some user_handler \<Rightarrow>
          bindE (user_handler ev ctx s) (\<lambda>(nxt, s). case nxt of None \<Rightarrow> Inl Halted | Some c \<Rightarrow> Inr (c, s)))"

text \<open>
  Memory as far as the trap path uses it: the words of stacks, by their addresses.  Pushing a list of words, the first one first, and the
  words from an address upwards.
\<close>

type_synonym wmem = "u32 \<Rightarrow> u32"

definition push_words :: "u32 list \<Rightarrow> u32 \<times> wmem \<Rightarrow> u32 \<times> wmem" where
  "push_words ws = fold (\<lambda>w (esp, m). (esp - 4, m(esp - 4 := w))) ws"

definition words_at :: "wmem \<Rightarrow> u32 \<Rightarrow> nat \<Rightarrow> u32 list" where
  "words_at m a n = map (\<lambda>i. m (a + 4 * of_nat i)) [0..<n]"

record cpu =
  r_edi :: u32
  r_esi :: u32
  r_ebp :: u32
  r_esp :: u32
  r_ebx :: u32
  r_edx :: u32
  r_ecx :: u32
  r_eax :: u32
  r_es :: u32
  r_ds :: u32
  r_ss :: u32
  r_eip :: u32
  r_cs :: u32
  r_eflags :: u32




text \<open>
  Returning to a context: the stack pointer is moved to \<^verbatim>\<open>esp0\<close> of the context and the words of \<^verbatim>\<open>REGS_KERNEL\<close>, for user code after \<^verbatim>\<open>ss\<close> and
  \<^verbatim>\<open>esp3\<close>, are pushed.
\<close>

definition regs_kernel :: "Context \<Rightarrow> u32 list" where
  "regs_kernel c = [c_eflags c, c_cs c, c_eip c, c_ds c, c_es c, c_eax c, c_ecx c, c_edx c, c_ebx c,
                    c_esp0 c, c_ebp c, c_esi c, c_edi c]"

definition irq_pushed :: "Context \<Rightarrow> u32 list" where
  "irq_pushed c = (if c_cs c AND DPL_USER \<noteq> 0 then [c_ss c, c_esp3 c] @ regs_kernel c else regs_kernel c)"

text \<open>
  What the processor does with the words at the stack pointer: \<^verbatim>\<open>popal\<close> loads edi, esi, ebp, skips the stack pointer, loads ebx, edx, ecx,
  eax; then \<^verbatim>\<open>es\<close>, \<^verbatim>\<open>ds\<close>; \<^verbatim>\<open>iret\<close> loads eip, cs and the flags, and, when it returns to user mode, the stack of the user; otherwise the stack pointer
  stands above the words that were popped and the stack segment stays.
\<close>

definition iret :: "u32 \<Rightarrow> u32 \<times> wmem \<Rightarrow> cpu" where
  "iret ss = (\<lambda>(esp, m).
     let w = words_at m esp 15; user = (w ! 11 AND DPL_USER \<noteq> 0) in
     \<lparr>r_edi = w ! 0, r_esi = w ! 1, r_ebp = w ! 2, r_esp = (if user then w ! 13 else esp + 52), r_ebx = w ! 4, r_edx = w ! 5, r_ecx = w ! 6, r_eax = w ! 7,
      r_es = w ! 8, r_ds = w ! 9, r_ss = (if user then w ! 14 else ss), r_eip = w ! 10, r_cs = w ! 11, r_eflags = w ! 12\<rparr>)"



definition irq_return :: "Context \<Rightarrow> u32 \<Rightarrow> wmem \<Rightarrow> cpu \<times> wmem" where
  "irq_return c ss m = (let s = push_words (irq_pushed c) (c_esp0 c, m) in (iret ss s, snd s))"

section \<open>Stacks\<close>

lemma push_words_append: "push_words (xs @ ys) s = push_words ys (push_words xs s)"
  by (simp add: push_words_def)



lemma push_words_fst: "fst (push_words ws (e, m)) = e - 4 * of_nat (length ws)"
  by (induction ws arbitrary: e m) (simp_all add: push_words_def algebra_simps)


lemma offset_inj: "i < 2 ^ 30 \<Longrightarrow> j < 2 ^ 30 \<Longrightarrow> (a :: u32) + 4 * of_nat i = a + 4 * of_nat j \<Longrightarrow> i = j"
proof -
  assume ij: "i < 2 ^ 30" "j < 2 ^ 30" and "a + 4 * of_nat i = a + 4 * of_nat j"
  then have "(of_nat (4 * i) :: u32) = of_nat (4 * j)" by simp
  then have "unat (of_nat (4 * i) :: u32) = unat (of_nat (4 * j) :: u32)" by (rule arg_cong)
  moreover have "unat (of_nat (4 * i) :: u32) = 4 * i" "unat (of_nat (4 * j) :: u32) = 4 * j" by (rule unat_of_nat_u32; use ij in simp)+
  ultimately show "i = j" by simp
qed

lemma words_at_Suc: "words_at m a (Suc n) = m a # words_at m (a + 4) n"
  by (simp add: words_at_def map_upt_Suc algebra_simps del: upt_Suc)

lemma words_at_more: "words_at m a (n + k) = words_at m a n @ words_at m (a + 4 * of_nat n) k"
  by (induction n arbitrary: a) (simp_all add: words_at_Suc algebra_simps, simp add: words_at_def)

text \<open>What was pushed stands above the stack pointer, the last word first.\<close>

lemma push_words_read:
  "length ws < 2 ^ 30 \<Longrightarrow> words_at (snd (push_words ws (e, m))) (fst (push_words ws (e, m))) (length ws) = rev ws"
proof (induction ws rule: rev_induct)
  case (snoc w ws)
  let ?s = "push_words ws (e, m)" and ?n = "length ws"
  have s: "push_words (ws @ [w]) (e, m) = (fst ?s - 4, (snd ?s)(fst ?s - 4 := w))"
    by (simp add: push_words_append) (simp add: push_words_def split: prod.split)
  have "fst ?s + 4 * of_nat i \<noteq> fst ?s - 4" if "i < ?n" for i
    using offset_inj [of "Suc i" 0 "fst ?s - 4"] that snoc.prems by (auto simp: algebra_simps)
  then have "words_at ((snd ?s)(fst ?s - 4 := w)) (fst ?s) ?n = words_at (snd ?s) (fst ?s) ?n"
    by (simp add: words_at_def)
  then have "words_at ((snd ?s)(fst ?s - 4 := w)) (fst ?s - 4) (Suc ?n) = w # rev ws" using snoc by (simp add: words_at_Suc)
  then show ?case by (simp add: s del: fun_upd_apply)
qed (simp add: push_words_def words_at_def)

section \<open>Properties\<close>






text \<open>The registers after the return to a context.\<close>

lemma irq_return_regs:
  "fst (irq_return c ss m) = \<lparr>r_edi = c_edi c, r_esi = c_esi c, r_ebp = c_ebp c, r_esp = (if c_cs c AND DPL_USER \<noteq> 0 then c_esp3 c else c_esp0 c),
     r_ebx = c_ebx c, r_edx = c_edx c, r_ecx = c_ecx c, r_eax = c_eax c, r_es = c_es c, r_ds = c_ds c, r_ss = (if c_cs c AND DPL_USER \<noteq> 0 then c_ss c else ss),
     r_eip = c_eip c, r_cs = c_cs c, r_eflags = c_eflags c\<rparr>"
proof -
  define s where "s = push_words (irq_pushed c) (c_esp0 c, m)"
  have len: "length (irq_pushed c) \<le> 15" "length (irq_pushed c) < 2 ^ 30" by (simp_all add: irq_pushed_def regs_kernel_def)
  have rd: "words_at (snd s) (fst s) (length (irq_pushed c)) = rev (irq_pushed c)" unfolding s_def by (rule push_words_read) (rule len)
  have l: "length (irq_pushed c) + (15 - length (irq_pushed c)) = 15" using len by simp
  have w: "words_at (snd s) (fst s) 15 = rev (irq_pushed c) @ words_at (snd s) (fst s + 4 * of_nat (length (irq_pushed c))) (15 - length (irq_pushed c))"
    using words_at_more [of "snd s" "fst s" "length (irq_pushed c)" "15 - length (irq_pushed c)"] unfolding l rd .
  have "fst s + 52 = c_esp0 c" if "c_cs c AND DPL_USER = 0" using that unfolding s_def push_words_fst by (simp add: irq_pushed_def regs_kernel_def)
  then have "iret ss (fst s, snd s) = fst (irq_return c ss m)" "fst s + 52 = c_esp0 c \<or> c_cs c AND DPL_USER \<noteq> 0"
    by (auto simp: irq_return_def Let_def s_def)
  then show ?thesis unfolding iret_def prod.case w Let_def by (auto simp: irq_pushed_def regs_kernel_def)
qed





text \<open>
  The first context of a kernel thread starts \<open>entry\<close> in kernel mode with interrupts enabled, and its
  stack pointer, two words below the end of the stack, points at the return address followed by the argument.
\<close>

theorem kcontext_starts:
  "\<exists>r. fst (irq_return (fst (kcontext ret stack entry arg)) ss m) = r \<and> r_eip r = entry \<and> r_cs r AND DPL_USER = 0 \<and>
     r_eflags r AND FL_IF \<noteq> 0 \<and> r_esp r = snd stack - 8 \<and>
     snd (kcontext ret stack entry arg) = [(snd stack - 8, ret), (snd stack - 4, arg)]"
  by (simp add: irq_return_regs kcontext_def Let_def seg_defs upt_rec)

end
