(* ===== verification/Os_Irq.thy ===== *)
theory Os_Irq
  imports Cte "HOL-Library.Multiset"
begin

text \<open>
  \<^verbatim>\<open>kernel/include/os.h\<close> and the trap entry of \<^verbatim>\<open>kernel/src/os.c\<close>: the table of interrupt handlers, kept
  sorted by sequence number, and the loop that calls the handlers of an event.  Handlers are named by
  values of a type \<open>'h\<close>; what a handler does is the argument \<open>call\<close> of \<^verbatim>\<open>os_trap\<close>.
\<close>

section \<open>The handler table\<close>

record 'h item =
  i_seq :: int
  i_event :: nat
  i_handler :: 'h

record 'h item_table =
  it_size :: nat
  it_items :: "nat \<Rightarrow> 'h item"

definition MAX_HANDLER :: nat where
  "MAX_HANDLER = 128"

definition ITEM_push_back :: "int \<Rightarrow> nat \<Rightarrow> 'h \<Rightarrow> 'h item_table \<Rightarrow> 'h item_table res" where
  "ITEM_push_back sq event handler t =
     bindE (guardE OutOfBounds (it_size t < MAX_HANDLER)) (\<lambda>_.
     Inr (t\<lparr>it_items := (it_items t)(it_size t := \<lparr>i_seq = sq, i_event = event, i_handler = handler\<rparr>),
            it_size := it_size t + 1\<rparr>))"

text \<open>The exchange of two items, field by field in the code.\<close>

definition item_swap :: "nat \<Rightarrow> nat \<Rightarrow> (nat \<Rightarrow> 'h item) \<Rightarrow> nat \<Rightarrow> 'h item" where
  "item_swap i j f = f(i := f j, j := f i)"

function sort_inner :: "nat \<Rightarrow> nat \<Rightarrow> nat \<Rightarrow> (nat \<Rightarrow> 'h item) \<Rightarrow> nat \<Rightarrow> 'h item" where
  "sort_inner n i j f =
     (if j < n then sort_inner n i (j + 1) (if i_seq (f j) < i_seq (f i) then item_swap i j f else f) else f)"
  by pat_completeness auto
termination
  by (relation "measure (\<lambda>(n, i, j, f). n - j)") auto

function sort_outer :: "nat \<Rightarrow> nat \<Rightarrow> (nat \<Rightarrow> 'h item) \<Rightarrow> nat \<Rightarrow> 'h item" where
  "sort_outer n i f = (if i < n then sort_outer n (i + 1) (sort_inner n i (i + 1) f) else f)"
  by pat_completeness auto
termination
  by (relation "measure (\<lambda>(n, i, f). n - i)") auto

declare sort_inner.simps [simp del] sort_outer.simps [simp del]

definition ITEM_bubble_sort :: "'h item_table \<Rightarrow> 'h item_table" where
  "ITEM_bubble_sort t = t\<lparr>it_items := sort_outer (it_size t) 0 (it_items t)\<rparr>"

definition os_on_irq :: "int \<Rightarrow> nat \<Rightarrow> 'h \<Rightarrow> 'h item_table \<Rightarrow> 'h item_table res" where
  "os_on_irq sq event handler t =
     bindE (ITEM_push_back sq event handler t) (\<lambda>t. Inr (ITEM_bubble_sort t))"

section \<open>The trap loop\<close>

definition item_matches :: "nat \<Rightarrow> 'h item \<Rightarrow> bool" where
  "item_matches e it \<longleftrightarrow> i_event it = EVENT_NULL \<or> i_event it = e"

function trap_loop ::
  "('h \<Rightarrow> event \<Rightarrow> 'c \<Rightarrow> 's \<Rightarrow> ('c option \<times> 's) res) \<Rightarrow> 'h item_table \<Rightarrow> event \<Rightarrow> 'c \<Rightarrow> nat \<Rightarrow> 'c option \<Rightarrow> 's \<Rightarrow>
     ('c option \<times> 's) res" where
  "trap_loop call t ev ctx i ret s =
     (if i < it_size t then
        (if item_matches (ev_event ev) (it_items t i) then
           bindE (call (i_handler (it_items t i)) ev ctx s) (\<lambda>(nxt, s).
           trap_loop call t ev ctx (i + 1) (if nxt \<noteq> None then nxt else ret) s)
         else trap_loop call t ev ctx (i + 1) ret s)
      else Inr (ret, s))"
  by pat_completeness auto
termination
  by (relation "measure (\<lambda>(call, t, ev, ctx, i, ret, s). it_size t - i)") auto

declare trap_loop.simps [simp del]

text \<open>The whole trap, with \<^verbatim>\<open>current_tasks_mutex\<close> taken around the loop.\<close>

definition os_trap ::
  "('h \<Rightarrow> event \<Rightarrow> 'c \<Rightarrow> 's \<Rightarrow> ('c option \<times> 's) res) \<Rightarrow> 'h item_table \<Rightarrow> event \<Rightarrow> 'c \<Rightarrow> lock_state \<times> 's \<Rightarrow>
     ('c option \<times> lock_state \<times> 's) res" where
  "os_trap call t ev ctx = (\<lambda>(l, s).
     bindE (naivelock_lock l) (\<lambda>l.
     bindE (trap_loop call t ev ctx 0 None s) (\<lambda>(ret, s).
     Inr (ret, naivelock_unlock l, s))))"

section \<open>Sorting\<close>

definition table_list :: "'h item_table \<Rightarrow> 'h item list" where
  "table_list t = map (it_items t) [0..<it_size t]"

definition table_ok :: "'h item_table \<Rightarrow> bool" where
  "table_ok t \<longleftrightarrow> it_size t \<le> MAX_HANDLER \<and> sorted (map i_seq (table_list t))"

lemma mset_swap:
  assumes "i < n" and "j < n"
  shows "mset (map (item_swap i j f) [0..<n]) = mset (map f [0..<n])"
proof -
  let ?xs = "map f [0..<n]"
  have "map (item_swap i j f) [0..<n] = ?xs[i := ?xs ! j, j := ?xs ! i]"
    using assms by (intro nth_equalityI) (auto simp: item_swap_def nth_list_update)
  then show ?thesis using assms by (simp only: mset_swap length_map length_upt)
qed

text \<open>The inner loop brings the least item of positions \<open>i\<close> to \<open>n - 1\<close> to position \<open>i\<close>.\<close>

lemma sort_inner_ok:
  assumes "i < j" and "i < n" and "\<forall>k. i < k \<and> k < j \<longrightarrow> i_seq (f i) \<le> i_seq (f k)"
  shows "mset (map (sort_inner n i j f) [0..<n]) = mset (map f [0..<n]) \<and>
         (\<forall>k < i. sort_inner n i j f k = f k) \<and>
         (\<forall>k. i < k \<and> k < n \<longrightarrow> i_seq (sort_inner n i j f i) \<le> i_seq (sort_inner n i j f k)) \<and>
         (\<forall>x. (\<forall>k. i \<le> k \<and> k < n \<longrightarrow> x \<le> i_seq (f k)) \<longrightarrow>
              (\<forall>k. i \<le> k \<and> k < n \<longrightarrow> x \<le> i_seq (sort_inner n i j f k)))"
  using assms
proof (induction n i j f rule: sort_inner.induct)
  case (1 n i j f)
  show ?case
  proof (cases "j < n")
    case False
    with "1.prems" show ?thesis by (simp add: sort_inner.simps [of n i j f])
  next
    case True
    let ?g = "if i_seq (f j) < i_seq (f i) then item_swap i j f else f"
    have step: "sort_inner n i j f = sort_inner n i (j + 1) ?g"
      using True by (simp add: sort_inner.simps [of n i j f])
    have inv: "\<forall>k. i < k \<and> k < j + 1 \<longrightarrow> i_seq (?g i) \<le> i_seq (?g k)"
      using "1.prems" by (auto simp: item_swap_def less_Suc_eq)
    have low: "\<forall>k < i. ?g k = f k" using "1.prems" by (simp add: item_swap_def)
    have bnd: "\<forall>k. i \<le> k \<and> k < n \<longrightarrow> x \<le> i_seq (?g k)" if "\<forall>k. i \<le> k \<and> k < n \<longrightarrow> x \<le> i_seq (f k)" for x
      using that True "1.prems"(1,2) by (auto simp: item_swap_def)
    have ms: "mset (map ?g [0..<n]) = mset (map f [0..<n])"
      using True "1.prems"(2) mset_swap [of i n j f] by simp
    from "1.IH" [OF True] "1.prems" inv low bnd ms step show ?thesis by simp
  qed
qed

definition sorted_upto :: "nat \<Rightarrow> nat \<Rightarrow> (nat \<Rightarrow> 'h item) \<Rightarrow> bool" where
  "sorted_upto n i f \<longleftrightarrow> (\<forall>a b. a < i \<and> a \<le> b \<and> b < n \<longrightarrow> i_seq (f a) \<le> i_seq (f b))"

lemma sort_outer_ok:
  assumes "sorted_upto n i f"
  shows "mset (map (sort_outer n i f) [0..<n]) = mset (map f [0..<n]) \<and> sorted_upto n n (sort_outer n i f)"
  using assms
proof (induction n i f rule: sort_outer.induct)
  case (1 n i f)
  show ?case
  proof (cases "i < n")
    case False
    with "1.prems" show ?thesis by (auto simp: sort_outer.simps [of n i f] sorted_upto_def)
  next
    case True
    let ?g = "sort_inner n i (i + 1) f"
    have step: "sort_outer n i f = sort_outer n (i + 1) ?g"
      using True by (simp add: sort_outer.simps [of n i f])
    have inner: "mset (map ?g [0..<n]) = mset (map f [0..<n])" "\<forall>k < i. ?g k = f k"
      "\<forall>k. i < k \<and> k < n \<longrightarrow> i_seq (?g i) \<le> i_seq (?g k)"
      "\<And>x. \<forall>k. i \<le> k \<and> k < n \<longrightarrow> x \<le> i_seq (f k) \<Longrightarrow> \<forall>k. i \<le> k \<and> k < n \<longrightarrow> x \<le> i_seq (?g k)"
      using sort_inner_ok [of i "i + 1" n f] True by auto
    have "i_seq (?g a) \<le> i_seq (?g b)" if "a < i + 1" "a \<le> b" "b < n" for a b
    proof (cases "a = i")
      case True
      with that inner(3) show ?thesis by (cases "b = i") auto
    next
      case False
      then have a: "a < i" "?g a = f a" using that inner(2) by auto
      show ?thesis
      proof (cases "b < i")
        case True
        with a that "1.prems" inner(2) show ?thesis by (auto simp: sorted_upto_def)
      next
        case False
        have "\<forall>k. i \<le> k \<and> k < n \<longrightarrow> i_seq (f a) \<le> i_seq (f k)" using "1.prems" a(1) by (auto simp: sorted_upto_def)
        from inner(4) [OF this] a(2) False that(3) show ?thesis by auto
      qed
    qed
    then have "sorted_upto n (i + 1) ?g" by (simp add: sorted_upto_def)
    from "1.IH" [OF True this] inner(1) step show ?thesis by simp
  qed
qed

lemma sorted_upto_sorted: "sorted_upto n n f \<Longrightarrow> sorted (map i_seq (map f [0..<n]))"
  by (auto simp: sorted_upto_def sorted_iff_nth_mono)

lemma bubble_sort_ok:
  "it_size t \<le> MAX_HANDLER \<Longrightarrow>
     table_ok (ITEM_bubble_sort t) \<and> mset (table_list (ITEM_bubble_sort t)) = mset (table_list t)"
  using sort_outer_ok [of "it_size t" 0 "it_items t"]
  by (auto simp: table_ok_def table_list_def ITEM_bubble_sort_def sorted_upto_def [of _ 0] dest: sorted_upto_sorted)

section \<open>The trap loop as a fold\<close>

text \<open>Calling a list of handlers in order, the last context they return winning.\<close>

fun call_all :: "('h \<Rightarrow> event \<Rightarrow> 'c \<Rightarrow> 's \<Rightarrow> ('c option \<times> 's) res) \<Rightarrow> event \<Rightarrow> 'c \<Rightarrow> 'h list \<Rightarrow> 'c option \<Rightarrow> 's \<Rightarrow>
    ('c option \<times> 's) res" where
  "call_all call ev ctx [] ret s = Inr (ret, s)"
| "call_all call ev ctx (h # hs) ret s =
     bindE (call h ev ctx s) (\<lambda>(nxt, s). call_all call ev ctx hs (if nxt \<noteq> None then nxt else ret) s)"

lemma trap_loop_from:
  "trap_loop call t ev ctx i ret s =
     call_all call ev ctx
       (map i_handler (filter (item_matches (ev_event ev)) (map (it_items t) [i..<it_size t]))) ret s"
proof (induction call t ev ctx i ret s rule: trap_loop.induct)
  case (1 call t ev ctx i ret s)
  show ?case
  proof (cases "i < it_size t")
    case False
    then show ?thesis by (simp add: trap_loop.simps [of call t ev ctx i])
  next
    case True
    then have "[i..<it_size t] = i # [i + 1..<it_size t]" by (simp add: upt_rec)
    with True "1.IH" show ?thesis
      by (cases "item_matches (ev_event ev) (it_items t i)"; cases "call (i_handler (it_items t i)) ev ctx s")
        (auto simp: trap_loop.simps [of call t ev ctx i] split: prod.splits)
  qed
qed

section \<open>Properties\<close>

text \<open>
  Registering a handler with room in the table returns a table sorted by sequence number that holds
  exactly the old entries and the new one; a full table is written out of bounds.
\<close>

theorem os_on_irq_sorted:
  "case os_on_irq sq e h t of
     Inr t' \<Rightarrow> it_size t < MAX_HANDLER \<and> table_ok t' \<and>
       mset (table_list t') = add_mset \<lparr>i_seq = sq, i_event = e, i_handler = h\<rparr> (mset (table_list t))
   | Inl x \<Rightarrow> x = OutOfBounds \<and> MAX_HANDLER \<le> it_size t"
proof (cases "it_size t < MAX_HANDLER")
  case True
  let ?it = "\<lparr>i_seq = sq, i_event = e, i_handler = h\<rparr>"
  let ?t = "t\<lparr>it_items := (it_items t)(it_size t := ?it), it_size := it_size t + 1\<rparr>"
  have "table_list ?t = table_list t @ [?it]" by (simp add: table_list_def)
  with True bubble_sort_ok [of ?t] show ?thesis by (simp add: os_on_irq_def ITEM_push_back_def)
next
  case False
  then show ?thesis by (simp add: os_on_irq_def ITEM_push_back_def)
qed

text \<open>Registering a list of handlers, each with its sequence number and event.\<close>

fun register :: "(int \<times> nat \<times> 'h) list \<Rightarrow> 'h item_table \<Rightarrow> 'h item_table res" where
  "register [] t = Inr t"
| "register ((sq, e, h) # rs) t = bindE (os_on_irq sq e h t) (register rs)"

definition item_of :: "int \<times> nat \<times> 'h \<Rightarrow> 'h item" where
  "item_of = (\<lambda>(sq, e, h). \<lparr>i_seq = sq, i_event = e, i_handler = h\<rparr>)"

definition reg_of :: "'h item \<Rightarrow> int \<times> nat \<times> 'h" where
  "reg_of it = (i_seq it, i_event it, i_handler it)"

lemma reg_of_item [simp]: "reg_of (item_of r) = r"
  by (simp add: reg_of_def item_of_def split: prod.split)

lemma register_table:
  "table_ok t \<Longrightarrow> it_size t + length rs \<le> MAX_HANDLER \<Longrightarrow>
   \<exists>t'. register rs t = Inr t' \<and> table_ok t' \<and> mset (table_list t') = mset (table_list t) + mset (map item_of rs)"
proof (induction rs arbitrary: t)
  case (Cons r rs)
  obtain sq e h where r: "r = (sq, e, h)" by (cases r)
  have "it_size t < MAX_HANDLER" using Cons.prems(2) by simp
  then obtain t1 where t1: "os_on_irq sq e h t = Inr t1" "table_ok t1" "mset (table_list t1) = add_mset (item_of r) (mset (table_list t))"
    using os_on_irq_sorted [where sq = sq and e = e and h = h and t = t] by (auto simp: r item_of_def split: sum.splits)
  from arg_cong [OF t1(3), of size] have "it_size t1 = it_size t + 1" by (simp add: table_list_def)
  then obtain t' where "register rs t1 = Inr t'" "table_ok t'" "mset (table_list t') = mset (table_list t1) + mset (map item_of rs)"
    using Cons.IH [OF t1(2)] Cons.prems(2) by auto
  then show ?case using t1 by (auto simp: r)
qed simp

text \<open>
  C26: handlers from their registration to the trap.  When up to 128 handlers were registered, the table is a list of exactly these registrations in ascending order of
  their sequence numbers, and every trap calls from it, each once and in this order, the handlers that were registered for its event or for the null event, which stands for all;
  it threads the state through them, and returns the context of the last one that gave a context; the lock around them is free again afterwards.
\<close>

theorem os_trap_calls:
  assumes "length rs \<le> MAX_HANDLER"
  shows "\<exists>t order. register rs \<lparr>it_size = 0, it_items = items\<rparr> = Inr t \<and> mset order = mset rs \<and> sorted (map fst order) \<and>
    (\<forall>call ev ctx s. os_trap call t ev ctx (UNLOCKED, s) =
      bindE (call_all call ev ctx (map (\<lambda>(sq, e, h). h) (filter (\<lambda>(sq, e, h). e = 0 \<or> e = ev_event ev) order)) None s)
        (\<lambda>(ret, s). Inr (ret, UNLOCKED, s)))"
proof -
  have "table_ok \<lparr>it_size = 0, it_items = items\<rparr>" by (simp add: table_ok_def table_list_def)
  then obtain t where t: "register rs \<lparr>it_size = 0, it_items = items\<rparr> = Inr t" "table_ok t" "mset (table_list t) = mset (map item_of rs)"
    using register_table [of _ rs] assms by (fastforce simp: table_list_def)
  let ?order = "map reg_of (table_list t)"
  have "mset ?order = image_mset reg_of (mset (table_list t))" by simp
  also have "\<dots> = mset (map (reg_of \<circ> item_of) rs)" unfolding t(3) by (simp add: multiset.map_comp)
  finally have "mset ?order = mset rs" by (simp add: comp_def)
  moreover have "sorted (map fst ?order)" using t(2) by (simp add: table_ok_def comp_def reg_of_def)
  moreover have "os_trap call t ev ctx (UNLOCKED, s) =
      bindE (call_all call ev ctx (map (\<lambda>(sq, e, h). h) (filter (\<lambda>(sq, e, h). e = 0 \<or> e = ev_event ev) ?order)) None s)
        (\<lambda>(ret, s). Inr (ret, UNLOCKED, s))" for call ev ctx s
  proof -
    have "map (\<lambda>(sq, e, h). h) (filter (\<lambda>(sq, e, h). e = 0 \<or> e = ev_event ev) ?order) = map i_handler (filter (item_matches (ev_event ev)) (table_list t))"
      by (simp add: filter_map comp_def reg_of_def item_matches_def [abs_def])
    then show ?thesis using trap_loop_from [of call t ev ctx 0 None s]
      by (simp add: os_trap_def naivelock_lock_def naivelock_unlock_def table_list_def)
  qed
  ultimately show ?thesis using t(1) by blast
qed

theorem os_trap_calls_witness:
  "\<exists>t. register [(9, EVENT_NULL, CHR ''s''), (0, EVENT_IRQ_IODEV, CHR ''k''), (5, EVENT_YIELD, CHR ''y'')] \<lparr>it_size = 0, it_items = (\<lambda>_. undefined)\<rparr> = Inr t \<and>
     os_trap (\<lambda>h ev c s. Inr (if h = CHR ''s'' then Some (c + 1) else None, h # s)) t
       \<lparr>ev_event = EVENT_IRQ_IODEV, ev_cause = 0, ev_ref = 0\<rparr> (5 :: int) (UNLOCKED, []) = Inr (Some 6, UNLOCKED, ''sk'')"
proof -
  let ?rs = "[(9, 0, CHR ''s''), (0, 3, CHR ''k''), (5, 5, CHR ''y'')] :: (int \<times> nat \<times> char) list"
  let ?ev = "\<lparr>ev_event = 3, ev_cause = 0, ev_ref = 0\<rparr>" and ?call = "\<lambda>h ev (c :: int) s. Inr (if h = CHR ''s'' then Some (c + 1) else None, h # s)"
  obtain t order where t: "register ?rs \<lparr>it_size = 0, it_items = (\<lambda>_. undefined)\<rparr> = Inr t" "mset order = mset ?rs" "sorted (map fst order)"
    and tr: "\<forall>(call :: char \<Rightarrow> event \<Rightarrow> int \<Rightarrow> string \<Rightarrow> (int option \<times> string) res) ev ctx s. os_trap call t ev ctx (UNLOCKED, s) =
      bindE (call_all call ev ctx (map (\<lambda>(sq, e, h). h) (filter (\<lambda>(sq, e, h). e = 0 \<or> e = ev_event ev) order)) None s)
        (\<lambda>(ret, s). Inr (ret, UNLOCKED, s))"
    using os_trap_calls [of ?rs "\<lambda>_. undefined"] unfolding MAX_HANDLER_def by fastforce
  have "sort_key fst ?rs = order" by (rule sort_key_inj_key_eq) (use t(2,3) in \<open>auto simp: inj_on_def\<close>)
  moreover have "sort_key fst ?rs = [(0, 3, CHR ''k''), (5, 5, CHR ''y''), (9, 0, CHR ''s'')]" by (simp add: sort_key_def)
  ultimately show ?thesis using t(1) tr [rule_format, of ?call ?ev 5 "[]"] by auto
qed

end
