(* ===== verification/Ring.thy ===== *)
theory Ring
  imports Prelude
begin

text \<open>
  Bounded first-in first-out queues.  The kernel keeps three of them as rings with a head and a tail index
  (the tasks waiting for a semaphore, the keyboard events, the characters of a terminal).  The first part
  reads a ring as a list; the second states what a client relies on, as a locale.
\<close>

section \<open>Rings as lists\<close>

definition ring_len :: "nat \<Rightarrow> nat \<Rightarrow> nat \<Rightarrow> nat" where
  "ring_len n h t = (t + n - h) mod n"

definition ring_items :: "(nat \<Rightarrow> 'a) \<Rightarrow> nat \<Rightarrow> nat \<Rightarrow> nat \<Rightarrow> 'a list" where
  "ring_items f n h t = map (\<lambda>k. f ((h + k) mod n)) [0..<ring_len n h t]"

lemma length_ring_items [simp]: "length (ring_items f n h t) = ring_len n h t"
  by (simp add: ring_items_def)

lemma ring_len_cases:
  "h < n \<Longrightarrow> t < n \<Longrightarrow> ring_len n h t = (if h \<le> t then t - h else t + n - h)"
  by (simp add: ring_len_def mod_if)

lemma ring_len_less: "h < n \<Longrightarrow> t < n \<Longrightarrow> ring_len n h t < n"
  by (simp add: ring_len_def)

lemma ring_len_0: "h < n \<Longrightarrow> t < n \<Longrightarrow> ring_len n h t = 0 \<longleftrightarrow> h = t"
  by (auto simp: ring_len_cases)

lemma ring_len_full: "h < n \<Longrightarrow> t < n \<Longrightarrow> (t + 1) mod n = h \<longleftrightarrow> ring_len n h t = n - 1"
  by (auto simp: ring_len_cases mod_if)

lemma ring_len_push: "h < n \<Longrightarrow> t < n \<Longrightarrow> ring_len n h t < n - 1 \<Longrightarrow> ring_len n h ((t + 1) mod n) = ring_len n h t + 1"
  by (auto simp: ring_len_cases mod_if split: if_splits)

lemma ring_len_pop: "h < n \<Longrightarrow> t < n \<Longrightarrow> h \<noteq> t \<Longrightarrow> ring_len n h t = ring_len n ((h + 1) mod n) t + 1"
  by (auto simp: ring_len_cases mod_if split: if_splits)

lemma ring_tail: "h < n \<Longrightarrow> t < n \<Longrightarrow> (h + ring_len n h t) mod n = t"
  by (auto simp: ring_len_cases mod_if)

lemma ring_index: "h < n \<Longrightarrow> k < n \<Longrightarrow> (h + k) mod n = (if h + k < n then h + k else h + k - n)" for n :: nat
  by (simp add: mod_if)

lemma ring_index_inj:
  fixes n :: nat
  assumes "h < n" and "j < n" and "k < n" and "(h + j) mod n = (h + k) mod n"
  shows "j = k"
  using assms by (simp add: ring_index split: if_splits)

lemma ring_push:
  assumes "h < n" and "t < n" and "ring_len n h t < n - 1"
  shows "ring_items (f(t := x)) n h ((t + 1) mod n) = ring_items f n h t @ [x]"
proof -
  have "(f(t := x)) ((h + k) mod n) = f ((h + k) mod n)" if "k < ring_len n h t" for k
  proof -
    have "ring_len n h t < n" using assms(3) by simp
    then have "(h + k) mod n \<noteq> t"
      using ring_index_inj [of h n k "ring_len n h t"] ring_tail [OF assms(1,2)] that assms(1) by auto
    then show ?thesis by simp
  qed
  then show ?thesis
    using ring_tail [OF assms(1,2)] unfolding ring_items_def ring_len_push [OF assms]
    by simp
qed

lemma ring_pop:
  assumes "h < n" and "t < n" and "h \<noteq> t"
  shows "ring_items f n h t = f h # ring_items f n ((h + 1) mod n) t"
proof -
  have "[0..<ring_len n h t] = 0 # map Suc [0..<ring_len n ((h + 1) mod n) t]"
    using ring_len_pop [OF assms] by (metis Suc_eq_plus1 map_Suc_upt upt_conv_Cons zero_less_Suc)
  moreover have "(h + Suc k) mod n = ((h + 1) mod n + k) mod n" for k
    by (simp add: mod_add_left_eq)
  ultimately show ?thesis
    using assms(1) by (simp add: ring_items_def comp_def)
qed

section \<open>The contract of a bounded queue\<close>

datatype 'a qop = Put 'a | Get

fun qrun :: "('a \<Rightarrow> 's \<Rightarrow> 's res) \<Rightarrow> ('s \<Rightarrow> ('a \<times> 's) res) \<Rightarrow> 'a qop list \<Rightarrow> 's \<Rightarrow> ('a list \<times> 's) res" where
  "qrun push pop [] q = Inr ([], q)"
| "qrun push pop (Put x # ops) q = bindE (push x q) (qrun push pop ops)"
| "qrun push pop (Get # ops) q =
     bindE (pop q) (\<lambda>(x, q). bindE (qrun push pop ops q) (\<lambda>(xs, q). Inr (x # xs, q)))"

text \<open>A sequence of operations that never meets a full or an empty queue, from \<open>n\<close> elements on.\<close>

fun qlegal :: "nat \<Rightarrow> nat \<Rightarrow> 'a qop list \<Rightarrow> bool" where
  "qlegal cap n [] = True"
| "qlegal cap n (Put x # ops) = (n < cap \<and> qlegal cap (n + 1) ops)"
| "qlegal cap n (Get # ops) = (0 < n \<and> qlegal cap (n - 1) ops)"

fun puts_of :: "'a qop list \<Rightarrow> 'a list" where
  "puts_of [] = []"
| "puts_of (Put x # ops) = x # puts_of ops"
| "puts_of (Get # ops) = puts_of ops"

locale bounded_queue =
  fixes inv :: "'s \<Rightarrow> bool" and items :: "'s \<Rightarrow> 'a list" and cap :: nat
    and push :: "'a \<Rightarrow> 's \<Rightarrow> 's res" and pop :: "'s \<Rightarrow> ('a \<times> 's) res"
  assumes push_ok: "inv q \<Longrightarrow> length (items q) < cap \<Longrightarrow>
      \<exists>q'. push x q = Inr q' \<and> inv q' \<and> items q' = items q @ [x]"
    and pop_ok: "inv q \<Longrightarrow> items q = x # xs \<Longrightarrow> \<exists>q'. pop q = Inr (x, q') \<and> inv q' \<and> items q' = xs"
begin

theorem run_fifo:
  "inv q \<Longrightarrow> qlegal cap (length (items q)) ops \<Longrightarrow>
     \<exists>outs q'. qrun push pop ops q = Inr (outs, q') \<and> inv q' \<and> outs @ items q' = items q @ puts_of ops"
proof (induction ops arbitrary: q)
  case Nil
  then show ?case by simp
next
  case (Cons op ops)
  show ?case
  proof (cases op)
    case (Put x)
    with Cons.prems push_ok obtain q1 where q1: "push x q = Inr q1" "inv q1" "items q1 = items q @ [x]"
      by fastforce
    with Cons.prems Put have "qlegal cap (length (items q1)) ops" by simp
    from Cons.IH [OF q1(2) this] q1 Put show ?thesis by auto
  next
    case Get
    with Cons.prems obtain x xs where x: "items q = x # xs" by (cases "items q") auto
    from pop_ok [OF Cons.prems(1) this] obtain q1 where q1: "pop q = Inr (x, q1)" "inv q1" "items q1 = xs"
      by blast
    with Cons.prems Get x have "qlegal cap (length (items q1)) ops" by simp
    from Cons.IH [OF q1(2) this] q1 x Get show ?thesis by auto
  qed
qed

end

end
