(* ===== verification/Kthreads.thy ===== *)
theory Kthreads
  imports Os_Irq Procfs Ring
begin

text \<open>
  \<^verbatim>\<open>kernel/src/kthreads.c\<close>, \<^verbatim>\<open>include/kthreads.h\<close> and the structures of \<^verbatim>\<open>include/common.h\<close>: the task
  table, the context switch, interrupt nesting, spin locks and semaphores.  Tasks are pointers into a
  store, so that the table, the processors and the semaphore queues share them as in the code.  Every
  operation takes the number of the processor that runs it.
\<close>

section \<open>Data\<close>

datatype task_state = NIL | STARTED | RUNNABLE | RUNNING | YIELD | KILLED

type_synonym tptr = nat

definition MAX_CPU :: nat where "MAX_CPU = 8"
definition MAX_TASK :: nat where "MAX_TASK = 32"
definition NAME_LENGTH :: nat where "NAME_LENGTH = 32"
definition STK_SIZE :: u32 where "STK_SIZE = 4 * 1024"

record task =
  t_idx :: nat
  t_state :: task_state
  t_proc :: "nat option"
  t_ctx :: Context
  t_stk :: "u32 \<times> u32"
  t_name :: string
  t_stack :: "(u32 \<times> u32) list"

record spinlock =
  sl_name :: string
  sl_locked :: lock_state
  sl_cpu :: int

record sem =
  sem_name :: string
  sem_value :: int
  sem_lk :: spinlock
  sem_que :: "nat \<Rightarrow> tptr option"
  sem_head :: nat
  sem_tail :: nat

text \<open>
  The state of the module: the globals of \<^verbatim>\<open>kthreads.c\<close> and \<^verbatim>\<open>kthreads.h\<close>, the interrupt flag of every
  processor, the store of tasks and the process table of \<^verbatim>\<open>procfs\<close>.
\<close>

record kmt =
  tasks_size :: nat
  tasks :: "nat \<Rightarrow> tptr option"
  task_of :: "tptr \<Rightarrow> task"
  current_tasks :: "nat \<Rightarrow> tptr option"
  tasks_mutex :: lock_state
  cli_mutex :: lock_state
  ncli :: "nat \<Rightarrow> int"
  intena :: "nat \<Rightarrow> bool"
  iflag :: "nat \<Rightarrow> bool"
  proc_table :: procfs

definition upd_task :: "tptr \<Rightarrow> (task \<Rightarrow> task) \<Rightarrow> kmt \<Rightarrow> kmt" where
  "upd_task t f s = s\<lparr>task_of := (task_of s)(t := f (task_of s t))\<rparr>"

section \<open>The context switch\<close>

definition task_ready :: "kmt \<Rightarrow> nat \<Rightarrow> bool" where
  "task_ready s i \<longleftrightarrow> (case tasks s i of None \<Rightarrow> False | Some t \<Rightarrow> t_state (task_of s t) \<in> {STARTED, RUNNABLE})"

text \<open>
  The search loop.  It runs through the table in a circle and does not change it, so that a processor
  which has looked at every slot once keeps looking until another processor makes a task ready; the
  fuel of one round and one step is enough for every search that ends by itself.
\<close>

fun sched_loop :: "nat \<Rightarrow> nat \<Rightarrow> kmt \<Rightarrow> nat res" where
  "sched_loop 0 idx s = Inl Spin"
| "sched_loop (Suc fuel) idx s =
     (if tasks_size s = 0 then Inl DivZero
      else let idx = (idx + 1) mod tasks_size s in
           if task_ready s idx then Inr idx else sched_loop fuel idx s)"

text \<open>The first half of the switch: the context of the current task is saved and a running task becomes runnable.\<close>

definition switch_out :: "nat \<Rightarrow> Context \<Rightarrow> kmt \<Rightarrow> kmt" where
  "switch_out cpu ctx s =
     (case current_tasks s cpu of
        None \<Rightarrow> s
      | Some t \<Rightarrow>
          let s = upd_task t (\<lambda>k. k\<lparr>t_ctx := ctx\<rparr>) s in
          if t_state (task_of s t) = RUNNING then upd_task t (\<lambda>k. k\<lparr>t_state := RUNNABLE\<rparr>) s else s)"

definition kmt_context_save_switch :: "nat \<Rightarrow> event \<Rightarrow> Context \<Rightarrow> kmt \<Rightarrow> (Context option \<times> kmt) res" where
  "kmt_context_save_switch cpu ev ctx s =
     (let otask = current_tasks s cpu;
          s = switch_out cpu ctx s;
          idx = (case otask of None \<Rightarrow> 0 | Some t \<Rightarrow> t_idx (task_of s t))
      in
      bindE (sched_loop (tasks_size s + 1) idx s) (\<lambda>idx.
      case tasks s idx of
        None \<Rightarrow> Inl NullDeref
      | Some ntask \<Rightarrow>
          let s = s\<lparr>current_tasks := (current_tasks s)(cpu := Some ntask)\<rparr>;
              s = upd_task ntask (\<lambda>k. k\<lparr>t_state := RUNNING\<rparr>) s
          in
          (case otask of
             None \<Rightarrow> Inl NullDeref
           | Some old \<Rightarrow>
               let s = s\<lparr>proc_table := procfs_schdule cpu (t_proc (task_of s old)) (t_proc (task_of s ntask))
                                        (proc_table s)\<rparr>
               in Inr (Some (t_ctx (task_of s ntask)), s))))"

section \<open>The task table\<close>

text \<open>The loop keeps overwriting its result, so that the last empty slot is taken.\<close>

definition get_tasks_idx :: "kmt \<Rightarrow> nat" where
  "get_tasks_idx s = foldl (\<lambda>ret idx. if tasks s idx = None then idx else ret) (tasks_size s) [0..<tasks_size s]"

definition tasks_insert :: "tptr \<Rightarrow> kmt \<Rightarrow> kmt res" where
  "tasks_insert x s =
     bindE (naivelock_lock (tasks_mutex s)) (\<lambda>l.
     let s = s\<lparr>tasks_mutex := l\<rparr>;
         s = upd_task x (\<lambda>k. k\<lparr>t_idx := get_tasks_idx s\<rparr>) s;
         i = t_idx (task_of s x);
         s = (if i = tasks_size s then s\<lparr>tasks_size := tasks_size s + 1\<rparr> else s)
     in
     bindE (guardE OutOfBounds (i < MAX_TASK)) (\<lambda>_.
     Inr (s\<lparr>tasks := (tasks s)(i := Some x), tasks_mutex := naivelock_unlock (tasks_mutex s)\<rparr>)))"

definition tasks_remove :: "tptr \<Rightarrow> kmt \<Rightarrow> kmt res" where
  "tasks_remove x s =
     bindE (naivelock_lock (tasks_mutex s)) (\<lambda>l.
     let s = s\<lparr>tasks_mutex := l\<rparr> in
     bindE (guardE OutOfBounds (t_idx (task_of s x) < MAX_TASK)) (\<lambda>_.
     Inr (s\<lparr>tasks := (tasks s)(t_idx (task_of s x) := None),
            tasks_mutex := naivelock_unlock (tasks_mutex s)\<rparr>)))"

text \<open>
  Addresses the linker and the allocator fix: the stack of a task, the code of \<^verbatim>\<open>panic_on_return\<close> and of
  \<^verbatim>\<open>task_wait\<close>, the static \<^verbatim>\<open>wait\<close> tasks.
\<close>

record layout =
  stack_addr :: "tptr \<Rightarrow> u32"
  return_addr :: u32
  wait_entry :: u32
  wait_task :: "nat \<Rightarrow> tptr"

definition kmt_create :: "layout \<Rightarrow> tptr \<Rightarrow> string \<Rightarrow> u32 \<Rightarrow> u32 \<Rightarrow> kmt \<Rightarrow> kmt res" where
  "kmt_create lay task name entry arg s =
     bindE (guardE OutOfBounds (length name < NAME_LENGTH)) (\<lambda>_.
     let stk = (stack_addr lay task, stack_addr lay task + STK_SIZE);
         kc = kcontext (return_addr lay) stk entry arg;
         s = upd_task task (\<lambda>k. k\<lparr>t_state := STARTED, t_name := name, t_stk := stk, t_ctx := fst kc,
                                  t_stack := snd kc\<rparr>) s
     in
     bindE (procfs_addproc name (proc_table s)) (\<lambda>(p, pf).
     let s = upd_task task (\<lambda>k. k\<lparr>t_proc := p\<rparr>) (s\<lparr>proc_table := pf\<rparr>) in
     tasks_insert task s))"

definition kmt_teardown :: "tptr \<Rightarrow> kmt \<Rightarrow> kmt res" where
  "kmt_teardown task s = tasks_remove task s"

fun create_wait_loop :: "layout \<Rightarrow> nat list \<Rightarrow> kmt \<Rightarrow> kmt res" where
  "create_wait_loop lay [] s = Inr s"
| "create_wait_loop lay (i # is) s =
     bindE (sprintf ''wait%d'' [VInt (of_nat i)]) (\<lambda>(_, buf).
     bindE (guardE OutOfBounds (i < MAX_CPU)) (\<lambda>_.
     bindE (kmt_create lay (wait_task lay i) buf (wait_entry lay) 0 s) (\<lambda>s.
     create_wait_loop lay is s)))"

definition kmt_create_wait :: "layout \<Rightarrow> nat \<Rightarrow> kmt \<Rightarrow> kmt res" where
  "kmt_create_wait lay ncpu s = create_wait_loop lay [0..<ncpu] s"

text \<open>The handlers the kernel registers.\<close>

datatype irq_handler = Context_save_switch | Input_notify

definition kmt_init :: "layout \<Rightarrow> nat \<Rightarrow> irq_handler item_table \<Rightarrow> kmt \<Rightarrow> (irq_handler item_table \<times> kmt) res" where
  "kmt_init lay ncpu t s =
     bindE (os_on_irq (2 ^ 31 - 1) EVENT_NULL Context_save_switch t) (\<lambda>t.
     bindE (kmt_create_wait lay ncpu s) (\<lambda>s.
     Inr (t, s)))"

section \<open>Spin locks\<close>

definition pushcli :: "nat \<Rightarrow> kmt \<Rightarrow> kmt res" where
  "pushcli cpu s =
     (let s = s\<lparr>iflag := (iflag s)(cpu := False)\<rparr>;
          s = (if ncli s cpu = 0 then s\<lparr>intena := (intena s)(cpu := iflag s cpu)\<rparr> else s)
      in
      bindE (naivelock_lock (cli_mutex s)) (\<lambda>l.
      let s = s\<lparr>cli_mutex := l\<rparr>;
          s = s\<lparr>ncli := (ncli s)(cpu := ncli s cpu + 1)\<rparr>
      in Inr (s\<lparr>cli_mutex := naivelock_unlock (cli_mutex s)\<rparr>)))"

definition popcli :: "nat \<Rightarrow> kmt \<Rightarrow> kmt res" where
  "popcli cpu s =
     bindE (naivelock_lock (cli_mutex s)) (\<lambda>l.
     let s = s\<lparr>cli_mutex := l\<rparr>;
         s = s\<lparr>ncli := (ncli s)(cpu := ncli s cpu - 1)\<rparr>;
         s = s\<lparr>cli_mutex := naivelock_unlock (cli_mutex s)\<rparr>
     in Inr (if ncli s cpu = 0 \<and> intena s cpu then s\<lparr>iflag := (iflag s)(cpu := True)\<rparr> else s))"

definition holding :: "nat \<Rightarrow> spinlock \<Rightarrow> bool" where
  "holding cpu lk \<longleftrightarrow> sl_locked lk = LOCKED \<and> sl_cpu lk = int cpu"

definition kmt_spin_init :: "string \<Rightarrow> spinlock \<Rightarrow> spinlock res" where
  "kmt_spin_init name lk =
     bindE (guardE OutOfBounds (length name < NAME_LENGTH)) (\<lambda>_.
     Inr (lk\<lparr>sl_name := name, sl_locked := UNLOCKED, sl_cpu := -1\<rparr>))"

definition kmt_spin_lock :: "nat \<Rightarrow> spinlock \<Rightarrow> kmt \<Rightarrow> (spinlock \<times> kmt) res" where
  "kmt_spin_lock cpu lk s =
     bindE (pushcli cpu s) (\<lambda>s.
     bindE (naivelock_lock (sl_locked lk)) (\<lambda>l.
     Inr (lk\<lparr>sl_locked := l, sl_cpu := int cpu\<rparr>, s)))"

definition kmt_spin_unlock :: "nat \<Rightarrow> spinlock \<Rightarrow> kmt \<Rightarrow> (spinlock \<times> kmt) res" where
  "kmt_spin_unlock cpu lk s =
     (let lk = lk\<lparr>sl_cpu := -1\<rparr>;
          lk = lk\<lparr>sl_locked := naivelock_unlock (sl_locked lk)\<rparr>
      in bindE (popcli cpu s) (\<lambda>s. Inr (lk, s)))"

section \<open>Semaphores\<close>

definition sem_push :: "tptr option \<Rightarrow> sem \<Rightarrow> sem res" where
  "sem_push task q =
     bindE (assertE (sl_locked (sem_lk q) = LOCKED)) (\<lambda>_.
     Inr (q\<lparr>sem_que := (sem_que q)(sem_tail q := task), sem_tail := (sem_tail q + 1) mod MAX_TASK\<rparr>))"

definition sem_pop :: "sem \<Rightarrow> (tptr option \<times> sem) res" where
  "sem_pop q =
     bindE (assertE (sl_locked (sem_lk q) = LOCKED)) (\<lambda>_.
     let head = sem_head q in
     Inr (sem_que q head, q\<lparr>sem_head := (sem_head q + 1) mod MAX_TASK\<rparr>))"

text \<open>\<^verbatim>\<open>sleep\<close> up to the point where it traps with \<^verbatim>\<open>_yield\<close>.\<close>

definition sleep :: "nat \<Rightarrow> sem \<Rightarrow> kmt \<Rightarrow> (sem \<times> kmt) res" where
  "sleep cpu q s =
     (case current_tasks s cpu of
        None \<Rightarrow> Inl NullDeref
      | Some t \<Rightarrow>
          let s = upd_task t (\<lambda>k. k\<lparr>t_state := YIELD\<rparr>) s in
          bindE (sem_push (Some t) q) (\<lambda>q.
          bindE (kmt_spin_unlock cpu (sem_lk q) s) (\<lambda>(lk, s).
          Inr (q\<lparr>sem_lk := lk\<rparr>, s))))"

definition wakeup :: "nat \<Rightarrow> sem \<Rightarrow> kmt \<Rightarrow> (sem \<times> kmt) res" where
  "wakeup cpu q s =
     (if sem_head q = sem_tail q then Inl Halted
      else
        bindE (sem_pop q) (\<lambda>(task, q).
        case task of
          None \<Rightarrow> Inl NullDeref
        | Some t \<Rightarrow>
            let s = upd_task t (\<lambda>k. k\<lparr>t_state := RUNNABLE\<rparr>) s in
            bindE (kmt_spin_unlock cpu (sem_lk q) s) (\<lambda>(lk, s).
            Inr (q\<lparr>sem_lk := lk\<rparr>, s))))"

definition kmt_sem_init :: "string \<Rightarrow> int \<Rightarrow> sem \<Rightarrow> sem res" where
  "kmt_sem_init name value q =
     bindE (guardE OutOfBounds (length name < NAME_LENGTH)) (\<lambda>_.
     let q = q\<lparr>sem_name := name, sem_value := value, sem_head := 0, sem_tail := 0\<rparr> in
     bindE (kmt_spin_init name (sem_lk q)) (\<lambda>lk. Inr (q\<lparr>sem_lk := lk\<rparr>)))"

text \<open>The first component tells whether the caller traps with \<^verbatim>\<open>_yield\<close> at the end.\<close>

definition kmt_sem_wait :: "nat \<Rightarrow> sem \<Rightarrow> kmt \<Rightarrow> (bool \<times> sem \<times> kmt) res" where
  "kmt_sem_wait cpu q s =
     bindE (kmt_spin_lock cpu (sem_lk q) s) (\<lambda>(lk, s).
     let q = q\<lparr>sem_lk := lk, sem_value := sem_value q - 1\<rparr> in
     if sem_value q < 0 then bindE (sleep cpu q s) (\<lambda>(q, s). Inr (True, q, s))
     else bindE (kmt_spin_unlock cpu (sem_lk q) s) (\<lambda>(lk, s). Inr (False, q\<lparr>sem_lk := lk\<rparr>, s)))"

definition kmt_sem_signal :: "nat \<Rightarrow> sem \<Rightarrow> kmt \<Rightarrow> (sem \<times> kmt) res" where
  "kmt_sem_signal cpu q s =
     bindE (kmt_spin_lock cpu (sem_lk q) s) (\<lambda>(lk, s).
     let q = q\<lparr>sem_lk := lk, sem_value := sem_value q + 1\<rparr> in
     if sem_value q \<le> 0 then wakeup cpu q s
     else bindE (kmt_spin_unlock cpu (sem_lk q) s) (\<lambda>(lk, s). Inr (q\<lparr>sem_lk := lk\<rparr>, s)))"

end
