(* ===== verification/Kthreads_Sched.thy ===== *)
theory Kthreads_Sched
  imports Kthreads
begin

text \<open>
  Correctness of the scheduler: the search is round robin and ends whenever some task is ready, a switch
  saves the context of the old task and resumes the saved context of the new one, and the operations
  keep the invariant that the task table is consistent and no task is current on two processors.
\<close>

section \<open>The search\<close>

lemma sched_loop_found:
  assumes "tasks_size s = n" and "0 < n" and "1 \<le> d" and "d \<le> fuel"
    and "task_ready s ((idx + d) mod n)" and "\<forall>k. 1 \<le> k \<and> k < d \<longrightarrow> \<not> task_ready s ((idx + k) mod n)"
  shows "sched_loop fuel idx s = Inr ((idx + d) mod n)"
  using assms(3-6)
proof (induction d arbitrary: fuel idx)
  case 0
  then show ?case by simp
next
  case (Suc d)
  then obtain f where f: "fuel = Suc f" by (cases fuel) auto
  show ?case
  proof (cases "d = 0")
    case True
    with Suc.prems assms(1,2) f show ?thesis by simp
  next
    case False
    let ?i = "(idx + 1) mod n"
    have shift: "(?i + k) mod n = (idx + Suc k) mod n" for k
      by (simp add: mod_add_left_eq)
    have "\<not> task_ready s ?i" using Suc.prems(4) False by (metis One_nat_def Suc_lessI le_refl not_less_zero zero_less_Suc Suc_less_eq neq0_conv)
    moreover have "sched_loop f ?i s = Inr ((?i + d) mod n)"
      by (rule Suc.IH) (use Suc.prems False f shift in \<open>auto simp: Suc_le_eq\<close>)
    ultimately show ?thesis using assms(1,2) f shift by simp
  qed
qed

text \<open>A ready slot is met within one round.\<close>

lemma sched_loop_ready:
  assumes "tasks_size s = n" and "j < n" and "task_ready s j" and "n \<le> fuel"
  shows "\<exists>d. 1 \<le> d \<and> d \<le> n \<and> sched_loop fuel idx s = Inr ((idx + d) mod n) \<and> task_ready s ((idx + d) mod n) \<and>
           (\<forall>k. 1 \<le> k \<and> k < d \<longrightarrow> \<not> task_ready s ((idx + k) mod n))"
proof -
  let ?P = "\<lambda>d. 1 \<le> d \<and> task_ready s ((idx + d) mod n)"
  define m where "m = idx mod n"
  let ?e = "if m < j then j - m else n + j - m"
  have m: "m < n" using assms(2) by (simp add: m_def)
  have "m + ?e = j \<or> m + ?e = n + j" using m by auto
  then have "(m + ?e) mod n = j" using assms(2) by (metis mod_add_self1 mod_less)
  then have "(idx + ?e) mod n = j" by (metis m_def mod_add_left_eq)
  moreover have "1 \<le> ?e" "?e \<le> n" using m assms(2) by auto
  ultimately have e: "?P ?e" "?e \<le> n" using assms(3) by simp_all
  have d: "?P (LEAST d. ?P d)" using e(1) by (rule LeastI)
  have le: "(LEAST d. ?P d) \<le> n" using Least_le [of ?P, OF e(1)] e(2) by (rule order.trans)
  have least: "\<forall>k. 1 \<le> k \<and> k < (LEAST d. ?P d) \<longrightarrow> \<not> task_ready s ((idx + k) mod n)"
    using not_less_Least by blast
  then have "sched_loop fuel idx s = Inr ((idx + (LEAST d. ?P d)) mod n)"
    using d le assms by (intro sched_loop_found) auto
  with d le least show ?thesis by blast
qed

section \<open>The invariant\<close>

definition sched_inv :: "kmt \<Rightarrow> bool" where
  "sched_inv s \<longleftrightarrow> tasks_size s \<le> MAX_TASK \<and>
     (\<forall>i t. tasks s i = Some t \<longrightarrow> i < tasks_size s \<and> t_idx (task_of s t) = i) \<and>
     (\<forall>c t. current_tasks s c = Some t \<longrightarrow>
        t_state (task_of s t) \<in> {RUNNING, YIELD} \<and> tasks s (t_idx (task_of s t)) = Some t) \<and>
     (\<forall>c d t. current_tasks s c = Some t \<and> current_tasks s d = Some t \<longrightarrow> c = d)"

lemma sched_inv_table: "sched_inv s \<Longrightarrow> tasks s i = Some t \<Longrightarrow> i < tasks_size s \<and> t_idx (task_of s t) = i"
  by (simp add: sched_inv_def)

lemma sched_inv_current:
  "sched_inv s \<Longrightarrow> current_tasks s c = Some t \<Longrightarrow>
     t_state (task_of s t) \<in> {RUNNING, YIELD} \<and> tasks s (t_idx (task_of s t)) = Some t"
  by (simp add: sched_inv_def)

lemma sched_inv_exclusive:
  "sched_inv s \<Longrightarrow> current_tasks s c = Some t \<Longrightarrow> current_tasks s d = Some t \<Longrightarrow> c = d"
  by (auto simp: sched_inv_def)

lemma task_ready_less: "sched_inv s \<Longrightarrow> task_ready s i \<Longrightarrow> i < tasks_size s"
  by (auto simp: task_ready_def sched_inv_def split: option.splits)

text \<open>Saving the old task: only its context and state change.\<close>

lemma switch_out_simps [simp]:
  "tasks_size (switch_out cpu ctx s) = tasks_size s"
  "tasks (switch_out cpu ctx s) = tasks s"
  "current_tasks (switch_out cpu ctx s) = current_tasks s"
  "t_idx (task_of (switch_out cpu ctx s) t) = t_idx (task_of s t)"
  "proc_table (switch_out cpu ctx s) = proc_table s"
  by (simp_all add: switch_out_def upd_task_def Let_def split: option.splits)

lemma switch_out_other: "current_tasks s cpu \<noteq> Some t \<Longrightarrow> task_of (switch_out cpu ctx s) t = task_of s t"
  by (auto simp: switch_out_def upd_task_def Let_def split: option.splits)

lemma switch_out_current:
  "current_tasks s cpu = Some t \<Longrightarrow> t_ctx (task_of (switch_out cpu ctx s) t) = ctx \<and>
     t_state (task_of (switch_out cpu ctx s) t) =
       (if t_state (task_of s t) = RUNNING then RUNNABLE else t_state (task_of s t))"
  by (auto simp: switch_out_def upd_task_def Let_def)

lemma task_ready_switch_out:
  assumes "sched_inv s" and "current_tasks s cpu = Some old" and "t_state (task_of s old) = RUNNING"
  shows "task_ready (switch_out cpu ctx s) (t_idx (task_of s old))"
  using assms sched_inv_current [OF assms(1,2)] switch_out_current [OF assms(2)] by (auto simp: task_ready_def)

section \<open>The switch\<close>

lemma switch_run:
  assumes inv: "sched_inv s" and cur: "current_tasks s cpu = Some old"
    and ready: "task_ready (switch_out cpu ctx s) j"
  shows "\<exists>d n s'. 1 \<le> d \<and> d \<le> tasks_size s \<and>
     tasks s ((t_idx (task_of s old) + d) mod tasks_size s) = Some n \<and>
     t_state (task_of (switch_out cpu ctx s) n) \<in> {STARTED, RUNNABLE} \<and>
     (\<forall>k. 1 \<le> k \<and> k < d \<longrightarrow> \<not> task_ready (switch_out cpu ctx s) ((t_idx (task_of s old) + k) mod tasks_size s)) \<and>
     kmt_context_save_switch cpu ev ctx s = Inr (Some (t_ctx (task_of (switch_out cpu ctx s) n)), s') \<and>
     tasks_size s' = tasks_size s \<and> tasks s' = tasks s \<and> current_tasks s' = (current_tasks s)(cpu := Some n) \<and>
     task_of s' = (task_of (switch_out cpu ctx s))(n := (task_of (switch_out cpu ctx s) n)\<lparr>t_state := RUNNING\<rparr>)"
proof -
  let ?s = "switch_out cpu ctx s" and ?i = "t_idx (task_of s old)" and ?n = "tasks_size s"
  have j: "j < ?n" using ready inv by (auto simp: task_ready_def sched_inv_def split: option.splits)
  obtain d where d: "1 \<le> d" "d \<le> ?n" "sched_loop (?n + 1) ?i ?s = Inr ((?i + d) mod ?n)"
    "task_ready ?s ((?i + d) mod ?n)" "\<forall>k. 1 \<le> k \<and> k < d \<longrightarrow> \<not> task_ready ?s ((?i + k) mod ?n)"
    using sched_loop_ready [of ?s ?n j "?n + 1" ?i] j ready by auto
  then obtain n where n: "tasks s ((?i + d) mod ?n) = Some n" "t_state (task_of ?s n) \<in> {STARTED, RUNNABLE}"
    by (auto simp: task_ready_def split: option.splits)
  show ?thesis
    using d n cur
    by (intro exI [of _ d] exI [of _ n]) (simp add: kmt_context_save_switch_def upd_task_def Let_def del: sched_loop.simps)
qed

lemma switch_inv:
  assumes inv: "sched_inv s" and cur: "current_tasks s cpu = Some old"
    and ready: "task_ready (switch_out cpu ctx s) j"
    and run: "kmt_context_save_switch cpu ev ctx s = Inr (r, s')"
  shows "sched_inv s'"
proof -
  let ?s = "switch_out cpu ctx s"
  obtain d n where n: "tasks s ((t_idx (task_of s old) + d) mod tasks_size s) = Some n"
    "t_state (task_of ?s n) \<in> {STARTED, RUNNABLE}"
    and s': "tasks_size s' = tasks_size s" "tasks s' = tasks s" "current_tasks s' = (current_tasks s)(cpu := Some n)"
      "task_of s' = (task_of ?s)(n := (task_of ?s n)\<lparr>t_state := RUNNING\<rparr>)"
    using switch_run [OF inv cur ready, of ev] run by auto
  have idx: "t_idx (task_of s' t) = t_idx (task_of s t)" for t by (simp add: s')
  have other: "c = cpu" if "current_tasks s c = Some n" for c
  proof (rule ccontr)
    assume "c \<noteq> cpu"
    then have "current_tasks s cpu \<noteq> Some n" using that inv sched_inv_exclusive by blast
    with n(2) sched_inv_current [OF inv that] show False by (auto simp: switch_out_other)
  qed
  have st: "t_state (task_of s' t) \<in> {RUNNING, YIELD}" if "current_tasks s c = Some t" "c \<noteq> cpu" for c t
  proof -
    have "current_tasks s cpu \<noteq> Some t" using that inv sched_inv_exclusive by blast
    with that sched_inv_current [OF inv that(1)] show ?thesis by (auto simp: s' switch_out_other)
  qed
  have "t_idx (task_of s n) = (t_idx (task_of s old) + d) mod tasks_size s" using sched_inv_table [OF inv n(1)] by simp
  then have tab: "tasks s (t_idx (task_of s n)) = Some n" using n(1) by simp
  show ?thesis
    unfolding sched_inv_def
  proof (intro conjI allI impI)
    show "tasks_size s' \<le> MAX_TASK" using inv s' by (simp add: sched_inv_def)
    show "i < tasks_size s'" if "tasks s' i = Some t" for i t
      using that sched_inv_table [OF inv] by (simp add: s')
    show "t_idx (task_of s' t) = i" if "tasks s' i = Some t" for i t
      using that sched_inv_table [OF inv] by (simp add: s')
    show "t_state (task_of s' t) \<in> {RUNNING, YIELD}" if "current_tasks s' c = Some t" for c t
      using that st by (cases "c = cpu") (auto simp: s')
    show "tasks s' (t_idx (task_of s' t)) = Some t" if "current_tasks s' c = Some t" for c t
      using that tab sched_inv_current [OF inv] idx by (cases "c = cpu") (auto simp: s')
    show "c = e" if "current_tasks s' c = Some t \<and> current_tasks s' e = Some t" for c e t
      using that other sched_inv_exclusive [OF inv] by (auto simp: s' split: if_splits)
  qed
qed

section \<open>The table\<close>

lemma get_tasks_idx_spec:
  "get_tasks_idx s = tasks_size s \<and> (\<forall>i < tasks_size s. tasks s i \<noteq> None) \<or>
   get_tasks_idx s < tasks_size s \<and> tasks s (get_tasks_idx s) = None"
proof -
  let ?f = "\<lambda>ret idx. if tasks s idx = None then idx else ret"
  have "foldl ?f m [0..<n] = m \<and> (\<forall>i < n. tasks s i \<noteq> None) \<or>
        foldl ?f m [0..<n] < n \<and> tasks s (foldl ?f m [0..<n]) = None" for m n
    by (induction n) (auto simp: less_Suc_eq)
  then show ?thesis by (simp add: get_tasks_idx_def)
qed

text \<open>A new task: not in the table and not current anywhere.\<close>

lemma tasks_insert_inv:
  assumes inv: "sched_inv s" and new: "\<forall>i. tasks s i \<noteq> Some x" "\<forall>c. current_tasks s c \<noteq> Some x"
    and run: "tasks_insert x s = Inr s'"
  shows "sched_inv s' \<and> (\<exists>i < tasks_size s'. tasks s i = None \<and> tasks s' = (tasks s)(i := Some x)) \<and>
     current_tasks s' = current_tasks s \<and> (\<forall>t. t \<noteq> x \<longrightarrow> task_of s' t = task_of s t) \<and>
     t_state (task_of s' x) = t_state (task_of s x)"
proof -
  let ?i = "get_tasks_idx s"
  have free: "tasks s ?i = None"
    using get_tasks_idx_spec [of s] sched_inv_table [OF inv, of ?i] by (cases "tasks s ?i") auto
  have "get_tasks_idx (s\<lparr>tasks_mutex := l\<rparr>) = ?i" for l by (simp add: get_tasks_idx_def)
  with run have s': "?i < MAX_TASK" "tasks_size s' = (if ?i = tasks_size s then ?i + 1 else tasks_size s)"
    "tasks s' = (tasks s)(?i := Some x)" "current_tasks s' = current_tasks s"
    "task_of s' = (task_of s)(x := (task_of s x)\<lparr>t_idx := ?i\<rparr>)"
    by (auto simp: tasks_insert_def upd_task_def Let_def res_iff)
  have lt: "?i < tasks_size s'" using s'(2) get_tasks_idx_spec [of s] by auto
  have "sched_inv s'"
    unfolding sched_inv_def
  proof (intro conjI allI impI)
    show "tasks_size s' \<le> MAX_TASK" using inv s'(1,2) by (auto simp: sched_inv_def)
    show "i < tasks_size s'" if "tasks s' i = Some t" for i t
      using that lt sched_inv_table [OF inv, of i t] s'(2,3) by (cases "i = ?i") auto
    show "t_idx (task_of s' t) = i" if "tasks s' i = Some t" for i t
      using that sched_inv_table [OF inv, of i t] new(1) by (cases "i = ?i") (auto simp: s')
    show "t_state (task_of s' t) \<in> {RUNNING, YIELD}" if "current_tasks s' c = Some t" for c t
      using that sched_inv_current [OF inv, of c t] new(2) by (auto simp: s')
    show "tasks s' (t_idx (task_of s' t)) = Some t" if "current_tasks s' c = Some t" for c t
      using that sched_inv_current [OF inv, of c t] new(2) free by (auto simp: s')
    show "c = e" if "current_tasks s' c = Some t \<and> current_tasks s' e = Some t" for c e t
      using that sched_inv_exclusive [OF inv] by (simp add: s')
  qed
  with s' lt free show ?thesis by auto
qed

lemma sched_inv_cong:
  assumes "sched_inv s" and "tasks_size s' = tasks_size s" and "tasks s' = tasks s"
    and "current_tasks s' = current_tasks s"
    and "\<And>t. t_idx (task_of s' t) = t_idx (task_of s t) \<or> \<not> ((\<exists>c. current_tasks s c = Some t) \<or> (\<exists>i. tasks s i = Some t))"
    and "\<And>c t. current_tasks s c = Some t \<Longrightarrow> t_state (task_of s' t) \<in> {RUNNING, YIELD}"
  shows "sched_inv s'"
  using assms unfolding sched_inv_def by (simp, metis)

lemma kmt_create_inv:
  assumes inv: "sched_inv s" and new: "\<forall>i. tasks s i \<noteq> Some x" "\<forall>c. current_tasks s c \<noteq> Some x"
    and run: "kmt_create lay x name entry arg s = Inr s'"
  shows "sched_inv s' \<and> (\<exists>i < tasks_size s'. tasks s i = None \<and> tasks s' = (tasks s)(i := Some x)) \<and>
     current_tasks s' = current_tasks s \<and> t_state (task_of s' x) = STARTED"
proof -
  obtain p pf where pf: "procfs_addproc name (proc_table s) = Inr (p, pf)"
    using run by (auto simp: kmt_create_def upd_task_def Let_def res_iff)
  define kc where "kc = kcontext (return_addr lay) (stack_addr lay x, stack_addr lay x + STK_SIZE) entry arg"
  define s1 where "s1 = upd_task x (\<lambda>k. k\<lparr>t_proc := p\<rparr>) ((upd_task x (\<lambda>k. k\<lparr>t_state := STARTED, t_name := name,
    t_stk := (stack_addr lay x, stack_addr lay x + STK_SIZE), t_ctx := fst kc, t_stack := snd kc\<rparr>) s)\<lparr>proc_table := pf\<rparr>)"
  have run1: "tasks_insert x s1 = Inr s'"
    using run pf by (auto simp: kmt_create_def upd_task_def Let_def res_iff s1_def kc_def)
  have s1: "tasks_size s1 = tasks_size s" "tasks s1 = tasks s" "current_tasks s1 = current_tasks s"
    "\<And>t. t \<noteq> x \<Longrightarrow> task_of s1 t = task_of s t" "t_state (task_of s1 x) = STARTED"
    by (simp_all add: s1_def upd_task_def)
  have "sched_inv s1"
    by (rule sched_inv_cong [OF inv s1(1-3)]) (use new s1(4) sched_inv_current [OF inv] in metis)+
  from tasks_insert_inv [OF this _ _ run1] new s1 show ?thesis by auto
qed

lemma kmt_teardown_inv:
  assumes inv: "sched_inv s" and notcur: "\<forall>c. current_tasks s c \<noteq> Some x" and tab: "tasks s (t_idx (task_of s x)) = Some x"
    and run: "kmt_teardown x s = Inr s'"
  shows "sched_inv s' \<and> tasks s' = (tasks s)(t_idx (task_of s x) := None)"
proof -
  have s': "tasks s' = (tasks s)(t_idx (task_of s x) := None)" "tasks_size s' = tasks_size s"
    "current_tasks s' = current_tasks s" "task_of s' = task_of s"
    using run by (auto simp: kmt_teardown_def tasks_remove_def Let_def res_iff)
  have "tasks s' (t_idx (task_of s' t)) = Some t" if "current_tasks s' c = Some t" for c t
    using that s' notcur tab sched_inv_current [OF inv, of c t] by auto
  with inv s' show ?thesis unfolding sched_inv_def by (auto split: if_splits)
qed

end
