(* ===== verification/Kthreads_Sem.thy ===== *)
theory Kthreads_Sem
  imports Kthreads_Sched
begin

text \<open>
  Semaphores: the ring of waiting tasks is a first-in first-out queue, the value counts the free units
  or the waiting tasks, and waiting and signalling never reach the halt in \<^verbatim>\<open>wakeup\<close>.  The second part
  composes the operations of all processors into a step relation and shows that no task is current on
  two processors as long as a woken task has left its processor; a concrete run shows that the code
  itself does not wait for that.
\<close>

section \<open>Locks\<close>

lemma pushcli_run:
  "cli_mutex s = UNLOCKED \<Longrightarrow>
     pushcli cpu s = Inr (s\<lparr>iflag := (iflag s)(cpu := False),
       intena := (if ncli s cpu = 0 then (intena s)(cpu := False) else intena s),
       ncli := (ncli s)(cpu := ncli s cpu + 1)\<rparr>)"
  by (simp add: pushcli_def naivelock_lock_def naivelock_unlock_def Let_def)

lemma popcli_run:
  "cli_mutex s = UNLOCKED \<Longrightarrow>
     popcli cpu s = Inr (s\<lparr>ncli := (ncli s)(cpu := ncli s cpu - 1),
       iflag := (if ncli s cpu = 1 \<and> intena s cpu then (iflag s)(cpu := True) else iflag s)\<rparr>)"
  by (simp add: popcli_def naivelock_lock_def naivelock_unlock_def Let_def)

text \<open>The part of the state the scheduler works on is not touched by the lock operations.\<close>

definition same_tasks :: "kmt \<Rightarrow> kmt \<Rightarrow> bool" where
  "same_tasks s s' \<longleftrightarrow> tasks_size s' = tasks_size s \<and> tasks s' = tasks s \<and> task_of s' = task_of s \<and>
     current_tasks s' = current_tasks s \<and> tasks_mutex s' = tasks_mutex s"

lemma pushcli_same: "pushcli cpu s = Inr s' \<Longrightarrow> same_tasks s s' \<and> cli_mutex s' = UNLOCKED"
  by (auto simp: pushcli_def Let_def res_iff same_tasks_def naivelock_unlock_def)

lemma popcli_same: "popcli cpu s = Inr s' \<Longrightarrow> same_tasks s s' \<and> cli_mutex s' = UNLOCKED"
  by (auto simp: popcli_def Let_def res_iff same_tasks_def naivelock_unlock_def)

lemma spin_lock_InrD:
  "kmt_spin_lock cpu lk s = Inr (lk', s') \<Longrightarrow>
     sl_locked lk = UNLOCKED \<and> sl_locked lk' = LOCKED \<and> sl_cpu lk' = int cpu \<and> same_tasks s s' \<and> cli_mutex s' = UNLOCKED"
  by (auto simp: kmt_spin_lock_def res_iff naivelock_lock_def dest: pushcli_same split: if_splits)

lemma spin_unlock_InrD:
  "kmt_spin_unlock cpu lk s = Inr (lk', s') \<Longrightarrow>
     lk' = lk\<lparr>sl_cpu := -1, sl_locked := UNLOCKED\<rparr> \<and> same_tasks s s' \<and> cli_mutex s' = UNLOCKED"
  by (auto simp: kmt_spin_unlock_def Let_def res_iff naivelock_unlock_def dest: popcli_same)

lemma spin_lock_ex:
  "sl_locked lk = UNLOCKED \<Longrightarrow> cli_mutex s = UNLOCKED \<Longrightarrow> \<exists>s'. kmt_spin_lock cpu lk s = Inr (lk\<lparr>sl_locked := LOCKED, sl_cpu := int cpu\<rparr>, s')"
  by (simp add: kmt_spin_lock_def pushcli_run naivelock_lock_def)

lemma spin_unlock_ex: "cli_mutex s = UNLOCKED \<Longrightarrow> \<exists>lk' s'. kmt_spin_unlock cpu lk s = Inr (lk', s')"
  by (simp add: kmt_spin_unlock_def popcli_run)

section \<open>The queue of waiting tasks\<close>

definition sem_items :: "sem \<Rightarrow> tptr option list" where
  "sem_items q = ring_items (sem_que q) MAX_TASK (sem_head q) (sem_tail q)"

definition sem_ring :: "sem \<Rightarrow> bool" where
  "sem_ring q \<longleftrightarrow> sem_head q < MAX_TASK \<and> sem_tail q < MAX_TASK"

definition sem_locked :: "sem \<Rightarrow> bool" where
  "sem_locked q \<longleftrightarrow> sem_ring q \<and> sl_locked (sem_lk q) = LOCKED"

lemma sem_push_ok:
  assumes "sem_locked q" and "length (sem_items q) < MAX_TASK - 1"
  shows "\<exists>q'. sem_push x q = Inr q' \<and> sem_locked q' \<and> sem_items q' = sem_items q @ [x] \<and>
           sem_value q' = sem_value q \<and> sem_lk q' = sem_lk q"
  using assms ring_push [of "sem_head q" MAX_TASK "sem_tail q" "sem_que q" x]
  by (simp add: sem_push_def sem_locked_def sem_ring_def sem_items_def MAX_TASK_def)

lemma sem_items_Cons:
  assumes "sem_ring q" and "sem_items q = x # xs"
  shows "sem_head q \<noteq> sem_tail q \<and> sem_que q (sem_head q) = x \<and>
     ring_items (sem_que q) MAX_TASK ((sem_head q + 1) mod MAX_TASK) (sem_tail q) = xs"
proof -
  have "ring_len MAX_TASK (sem_head q) (sem_tail q) \<noteq> 0"
    using assms(2) length_ring_items [of "sem_que q" MAX_TASK "sem_head q" "sem_tail q"] by (simp add: sem_items_def)
  then have "sem_head q \<noteq> sem_tail q" using assms(1) ring_len_0 [of "sem_head q" MAX_TASK "sem_tail q"] by (auto simp: sem_ring_def)
  with assms ring_pop [of "sem_head q" MAX_TASK "sem_tail q" "sem_que q"] show ?thesis
    by (simp add: sem_items_def sem_ring_def)
qed

lemma sem_pop_ok:
  assumes "sem_locked q" and "sem_items q = x # xs"
  shows "\<exists>q'. sem_pop q = Inr (x, q') \<and> sem_locked q' \<and> sem_items q' = xs \<and> sem_value q' = sem_value q \<and>
           sem_lk q' = sem_lk q"
  using assms sem_items_Cons [of q x xs]
  by (simp add: sem_pop_def sem_locked_def sem_ring_def sem_items_def MAX_TASK_def)

interpretation semq: bounded_queue sem_locked sem_items "MAX_TASK - 1" sem_push sem_pop
proof (unfold_locales, goal_cases)
  case (1 q x)
  then show ?case using sem_push_ok [of q x] by blast
next
  case (2 q x xs)
  then show ?case using sem_pop_ok [of q x xs] by blast
qed

section \<open>Waiting and signalling\<close>

text \<open>
  A semaphore between two operations: unlocked, and as many tasks queued as the value is below zero.
\<close>

definition sem_ok :: "sem \<Rightarrow> bool" where
  "sem_ok q \<longleftrightarrow> sem_ring q \<and> sl_locked (sem_lk q) = UNLOCKED \<and> length (sem_items q) = nat (- sem_value q) \<and>
     None \<notin> set (sem_items q)"

lemma sem_items_upd [simp]:
  "sem_items (q\<lparr>sem_lk := lk\<rparr>) = sem_items q" "sem_items (q\<lparr>sem_value := v\<rparr>) = sem_items q"
  "sem_ring (q\<lparr>sem_lk := lk\<rparr>) = sem_ring q" "sem_ring (q\<lparr>sem_value := v\<rparr>) = sem_ring q"
  by (simp_all add: sem_items_def sem_ring_def)

lemma sem_init_ok:
  "length name < NAME_LENGTH \<Longrightarrow> 0 \<le> v \<Longrightarrow>
     \<exists>q'. kmt_sem_init name v q = Inr q' \<and> sem_ok q' \<and> sem_value q' = v \<and> sem_items q' = []"
  by (simp add: kmt_sem_init_def kmt_spin_init_def sem_ok_def sem_ring_def sem_items_def ring_items_def
      ring_len_def MAX_TASK_def)

lemma sem_wait_pass:
  assumes ok: "sem_ok q" and cli: "cli_mutex s = UNLOCKED" and v: "0 < sem_value q"
  shows "\<exists>q' s'. kmt_sem_wait cpu q s = Inr (False, q', s') \<and> sem_ok q' \<and> sem_value q' = sem_value q - 1 \<and>
     sem_items q' = [] \<and> same_tasks s s' \<and> cli_mutex s' = UNLOCKED"
proof -
  obtain s1 where s1: "kmt_spin_lock cpu (sem_lk q) s = Inr ((sem_lk q)\<lparr>sl_locked := LOCKED, sl_cpu := int cpu\<rparr>, s1)"
    using ok cli spin_lock_ex by (force simp: sem_ok_def)
  note t1 = spin_lock_InrD [OF s1]
  obtain lk2 s2 where s2: "kmt_spin_unlock cpu ((sem_lk q)\<lparr>sl_locked := LOCKED, sl_cpu := int cpu\<rparr>) s1 = Inr (lk2, s2)"
    using t1 spin_unlock_ex by blast
  note t2 = spin_unlock_InrD [OF s2]
  show ?thesis
    using s1 s2 t1 t2 ok v by (auto simp: kmt_sem_wait_def sem_ok_def same_tasks_def)
qed

lemma sem_wait_block:
  assumes ok: "sem_ok q" and cli: "cli_mutex s = UNLOCKED" and v: "sem_value q \<le> 0" "- sem_value q < int MAX_TASK - 1"
    and cur: "current_tasks s cpu = Some t"
  shows "\<exists>q' s'. kmt_sem_wait cpu q s = Inr (True, q', s') \<and> sem_ok q' \<and> sem_value q' = sem_value q - 1 \<and>
     sem_items q' = sem_items q @ [Some t] \<and> same_tasks (upd_task t (\<lambda>k. k\<lparr>t_state := YIELD\<rparr>) s) s' \<and> cli_mutex s' = UNLOCKED"
proof -
  let ?lk = "(sem_lk q)\<lparr>sl_locked := LOCKED, sl_cpu := int cpu\<rparr>"
  obtain s1 where s1: "kmt_spin_lock cpu (sem_lk q) s = Inr (?lk, s1)"
    using ok cli spin_lock_ex by (force simp: sem_ok_def)
  note t1 = spin_lock_InrD [OF s1]
  define q1 where "q1 = q\<lparr>sem_lk := ?lk, sem_value := sem_value q - 1\<rparr>"
  have q1: "sem_locked q1" "length (sem_items q1) < MAX_TASK - 1" "sem_items q1 = sem_items q"
    using ok v by (auto simp: q1_def sem_locked_def sem_ok_def)
  obtain q2 where q2: "sem_push (Some t) q1 = Inr q2" "sem_locked q2" "sem_items q2 = sem_items q @ [Some t]"
    "sem_value q2 = sem_value q - 1" "sem_lk q2 = ?lk"
    using sem_push_ok [OF q1(1,2), of "Some t"] q1(3) by (auto simp: q1_def)
  let ?s = "upd_task t (\<lambda>k. k\<lparr>t_state := YIELD\<rparr>) s1"
  obtain lk2 s2 where s2: "kmt_spin_unlock cpu ?lk ?s = Inr (lk2, s2)"
    using t1 spin_unlock_ex [of ?s cpu ?lk] by (auto simp: upd_task_def)
  note t2 = spin_unlock_InrD [OF s2]
  have "kmt_sem_wait cpu q s = Inr (True, q2\<lparr>sem_lk := lk2\<rparr>, s2)"
    using s1 s2 q2 t1 cur v(1) by (simp add: kmt_sem_wait_def sleep_def q1_def same_tasks_def)
  moreover have "sem_ok (q2\<lparr>sem_lk := lk2\<rparr>)"
    using q2 t2 ok v(1) by (auto simp: sem_ok_def sem_locked_def)
  ultimately show ?thesis
    using q2 t1 t2 by (intro exI [of _ "q2\<lparr>sem_lk := lk2\<rparr>"] exI [of _ s2]) (simp add: same_tasks_def upd_task_def)
qed

lemma sem_signal_free:
  assumes ok: "sem_ok q" and cli: "cli_mutex s = UNLOCKED" and v: "0 \<le> sem_value q"
  shows "\<exists>q' s'. kmt_sem_signal cpu q s = Inr (q', s') \<and> sem_ok q' \<and> sem_value q' = sem_value q + 1 \<and>
     sem_items q' = [] \<and> same_tasks s s' \<and> cli_mutex s' = UNLOCKED"
proof -
  obtain s1 where s1: "kmt_spin_lock cpu (sem_lk q) s = Inr ((sem_lk q)\<lparr>sl_locked := LOCKED, sl_cpu := int cpu\<rparr>, s1)"
    using ok cli spin_lock_ex by (force simp: sem_ok_def)
  note t1 = spin_lock_InrD [OF s1]
  obtain lk2 s2 where s2: "kmt_spin_unlock cpu ((sem_lk q)\<lparr>sl_locked := LOCKED, sl_cpu := int cpu\<rparr>) s1 = Inr (lk2, s2)"
    using t1 spin_unlock_ex by blast
  note t2 = spin_unlock_InrD [OF s2]
  show ?thesis
    using s1 s2 t1 t2 ok v by (auto simp: kmt_sem_signal_def sem_ok_def same_tasks_def)
qed

lemma sem_signal_wake:
  assumes ok: "sem_ok q" and cli: "cli_mutex s = UNLOCKED" and v: "sem_value q < 0"
  shows "\<exists>t ts q' s'. sem_items q = Some t # ts \<and> kmt_sem_signal cpu q s = Inr (q', s') \<and> sem_ok q' \<and>
     sem_value q' = sem_value q + 1 \<and> sem_items q' = ts \<and>
     same_tasks (upd_task t (\<lambda>k. k\<lparr>t_state := RUNNABLE\<rparr>) s) s' \<and> cli_mutex s' = UNLOCKED"
proof -
  let ?lk = "(sem_lk q)\<lparr>sl_locked := LOCKED, sl_cpu := int cpu\<rparr>"
  have ne: "sem_items q \<noteq> []" using ok v by (auto simp: sem_ok_def)
  then obtain t ts where items: "sem_items q = Some t # ts"
    using ok by (cases "sem_items q"; cases "hd (sem_items q)") (auto simp: sem_ok_def)
  obtain s1 where s1: "kmt_spin_lock cpu (sem_lk q) s = Inr (?lk, s1)"
    using ok cli spin_lock_ex by (force simp: sem_ok_def)
  note t1 = spin_lock_InrD [OF s1]
  define q1 where "q1 = q\<lparr>sem_lk := ?lk, sem_value := sem_value q + 1\<rparr>"
  have q1: "sem_locked q1" "sem_items q1 = Some t # ts"
    using ok items by (auto simp: q1_def sem_locked_def sem_ok_def)
  have hd: "sem_head q1 \<noteq> sem_tail q1" using sem_items_Cons q1 by (auto simp: sem_locked_def)
  obtain q2 where q2: "sem_pop q1 = Inr (Some t, q2)" "sem_locked q2" "sem_items q2 = ts"
    "sem_value q2 = sem_value q + 1" "sem_lk q2 = ?lk"
    using sem_pop_ok [OF q1] by (auto simp: q1_def)
  let ?s = "upd_task t (\<lambda>k. k\<lparr>t_state := RUNNABLE\<rparr>) s1"
  obtain lk2 s2 where s2: "kmt_spin_unlock cpu ?lk ?s = Inr (lk2, s2)"
    using t1 spin_unlock_ex [of ?s cpu ?lk] by (auto simp: upd_task_def)
  note t2 = spin_unlock_InrD [OF s2]
  have "kmt_sem_signal cpu q s = Inr (q2\<lparr>sem_lk := lk2\<rparr>, s2)"
    using s1 s2 q2 hd v by (simp add: kmt_sem_signal_def wakeup_def q1_def)
  moreover have "sem_ok (q2\<lparr>sem_lk := lk2\<rparr>)"
    using q2 t2 ok v items by (auto simp: sem_ok_def sem_locked_def)
  ultimately show ?thesis
    using q2 t1 t2 items by (intro exI [of _ t] exI [of _ ts] exI [of _ "q2\<lparr>sem_lk := lk2\<rparr>"] exI [of _ s2])
      (simp add: same_tasks_def upd_task_def)
qed

section \<open>All processors together\<close>

text \<open>
  One step of the machine: some processor runs one operation of the module, a wait up to its trap.  \<open>Q\<close> holds the
  semaphores.  A task is created when it is neither in the table nor running, and removed when it is in the table and not running.
\<close>

inductive kstep :: "kmt \<times> (nat \<Rightarrow> sem) \<Rightarrow> kmt \<times> (nat \<Rightarrow> sem) \<Rightarrow> bool" where
  step_switch: "current_tasks s cpu \<noteq> None \<Longrightarrow> kmt_context_save_switch cpu ev ctx s = Inr (r, s') \<Longrightarrow>
     kstep (s, Q) (s', Q)"
| step_wait: "kmt_sem_wait cpu (Q k) s = Inr (y, q, s') \<Longrightarrow> kstep (s, Q) (s', Q(k := q))"
| step_signal: "kmt_sem_signal cpu (Q k) s = Inr (q, s') \<Longrightarrow> kstep (s, Q) (s', Q(k := q))"
| step_create: "\<forall>i. tasks s i \<noteq> Some x \<Longrightarrow> \<forall>c. current_tasks s c \<noteq> Some x \<Longrightarrow>
     kmt_create lay x name entry arg s = Inr s' \<Longrightarrow> kstep (s, Q) (s', Q)"
| step_teardown: "\<forall>c. current_tasks s c \<noteq> Some x \<Longrightarrow> tasks s (t_idx (task_of s x)) = Some x \<Longrightarrow>
     kmt_teardown x s = Inr s' \<Longrightarrow> kstep (s, Q) (s', Q)"

text \<open>A signal that wakes a task which has not left its processor.\<close>

definition wakes_early :: "kmt \<times> (nat \<Rightarrow> sem) \<Rightarrow> kmt \<times> (nat \<Rightarrow> sem) \<Rightarrow> bool" where
  "wakes_early a b \<longleftrightarrow> (\<exists>cpu k q c t. kmt_sem_signal cpu (snd a k) (fst a) = Inr (q, fst b) \<and> snd b = (snd a)(k := q) \<and>
     sem_value (snd a k) < 0 \<and> sem_que (snd a k) (sem_head (snd a k)) = Some t \<and> current_tasks (fst a) c = Some t)"

definition kcalm :: "kmt \<times> (nat \<Rightarrow> sem) \<Rightarrow> kmt \<times> (nat \<Rightarrow> sem) \<Rightarrow> bool" where
  "kcalm a b \<longleftrightarrow> kstep a b \<and> \<not> wakes_early a b"

inductive_cases kstepE: "kstep a b"

lemma sched_loop_InrD: "sched_loop fuel idx s = Inr k \<Longrightarrow> task_ready s k"
  by (induction fuel idx s rule: sched_loop.induct) (auto simp: Let_def split: if_splits)

lemma switch_InrD:
  "kmt_context_save_switch cpu ev ctx s = Inr (r, s') \<Longrightarrow> \<exists>j. task_ready (switch_out cpu ctx s) j"
  by (auto simp: kmt_context_save_switch_def Let_def res_iff simp del: sched_loop.simps dest: sched_loop_InrD)

lemma same_tasks_inv: "sched_inv s \<Longrightarrow> same_tasks s s' \<Longrightarrow> sched_inv s'"
  by (simp add: sched_inv_def same_tasks_def)

lemma sched_inv_yield: "sched_inv s \<Longrightarrow> sched_inv (upd_task t (\<lambda>k. k\<lparr>t_state := YIELD\<rparr>) s)"
  by (rule sched_inv_cong) (auto simp: upd_task_def dest: sched_inv_current)

lemma sched_inv_runnable:
  "sched_inv s \<Longrightarrow> \<forall>c. current_tasks s c \<noteq> Some t \<Longrightarrow> sched_inv (upd_task t (\<lambda>k. k\<lparr>t_state := RUNNABLE\<rparr>) s)"
  by (rule sched_inv_cong) (auto simp: upd_task_def dest: sched_inv_current)

lemma same_tasks_trans: "same_tasks a b \<Longrightarrow> same_tasks b c \<Longrightarrow> same_tasks a c"
  by (simp add: same_tasks_def)

lemma same_tasks_upd: "same_tasks a b \<Longrightarrow> same_tasks (upd_task t f a) (upd_task t f b)"
  by (simp add: same_tasks_def upd_task_def)

lemma sem_wait_InrD:
  assumes "kmt_sem_wait cpu q s = Inr (y, q', s')"
  shows "same_tasks s s' \<or> (\<exists>t. current_tasks s cpu = Some t \<and> same_tasks (upd_task t (\<lambda>k. k\<lparr>t_state := YIELD\<rparr>) s) s')"
proof -
  from assms obtain lk s1 where s1: "kmt_spin_lock cpu (sem_lk q) s = Inr (lk, s1)"
    by (auto simp: kmt_sem_wait_def res_iff)
  note t1 = spin_lock_InrD [OF s1]
  show ?thesis
  proof (cases "sem_value q - 1 < 0")
    case True
    with assms s1 obtain t lk1 lk2 where t: "current_tasks s1 cpu = Some t"
      and "kmt_spin_unlock cpu lk1 (upd_task t (\<lambda>k. k\<lparr>t_state := YIELD\<rparr>) s1) = Inr (lk2, s')"
      by (auto simp: kmt_sem_wait_def sleep_def res_iff split: option.splits)
    moreover have "current_tasks s cpu = Some t" using t t1 by (simp add: same_tasks_def)
    ultimately show ?thesis
      using spin_unlock_InrD t1 by (meson same_tasks_trans same_tasks_upd)
  next
    case False
    with assms s1 obtain lk2 lk1 where "kmt_spin_unlock cpu lk1 s1 = Inr (lk2, s')"
      by (auto simp: kmt_sem_wait_def res_iff)
    from spin_unlock_InrD [OF this] t1 show ?thesis by (meson same_tasks_trans)
  qed
qed

lemma sem_signal_InrD:
  assumes "kmt_sem_signal cpu q s = Inr (q', s')"
  shows "0 \<le> sem_value q \<and> same_tasks s s' \<or> sem_value q < 0 \<and>
    (\<exists>t. sem_que q (sem_head q) = Some t \<and> same_tasks (upd_task t (\<lambda>k. k\<lparr>t_state := RUNNABLE\<rparr>) s) s')"
proof -
  from assms obtain lk s1 where s1: "kmt_spin_lock cpu (sem_lk q) s = Inr (lk, s1)"
    by (auto simp: kmt_sem_signal_def res_iff)
  note t1 = spin_lock_InrD [OF s1]
  show ?thesis
  proof (cases "sem_value q + 1 \<le> 0")
    case True
    with assms s1 obtain t lk1 lk2 where t: "sem_que q (sem_head q) = Some t"
      and "kmt_spin_unlock cpu lk1 (upd_task t (\<lambda>k. k\<lparr>t_state := RUNNABLE\<rparr>) s1) = Inr (lk2, s')"
      by (auto simp: kmt_sem_signal_def wakeup_def sem_pop_def res_iff split: option.splits if_splits)
    from spin_unlock_InrD [OF this(2)] t t1 True show ?thesis
      by (meson same_tasks_trans same_tasks_upd less_le_trans zless_add1_eq linorder_not_le order.refl add1_zle_eq)
  next
    case False
    with assms s1 obtain lk2 lk1 where "kmt_spin_unlock cpu lk1 s1 = Inr (lk2, s')"
      by (auto simp: kmt_sem_signal_def res_iff)
    from spin_unlock_InrD [OF this] t1 False show ?thesis using same_tasks_trans by force
  qed
qed

lemma kstep_inv: "kstep a b \<Longrightarrow> sched_inv (fst a) \<Longrightarrow> sched_inv (fst b) \<or> wakes_early a b"
proof (induction rule: kstep.induct)
  case (step_switch s cpu ev ctx r s' Q)
  obtain old where "current_tasks s cpu = Some old" using step_switch(1) by auto
  moreover obtain j where "task_ready (switch_out cpu ctx s) j" using switch_InrD [OF step_switch(2)] by auto
  ultimately show ?case using switch_inv step_switch(2,3) by simp
next
  case (step_wait cpu Q k s y q s')
  from sem_wait_InrD [OF step_wait(1)] step_wait(2) show ?case
    using same_tasks_inv sched_inv_yield by (metis fst_conv)
next
  case (step_signal cpu Q k s q s')
  from sem_signal_InrD [OF step_signal(1)] show ?case
  proof
    assume "0 \<le> sem_value (Q k) \<and> same_tasks s s'"
    then show ?thesis using same_tasks_inv step_signal(2) by simp
  next
    assume "sem_value (Q k) < 0 \<and> (\<exists>t. sem_que (Q k) (sem_head (Q k)) = Some t \<and> same_tasks (upd_task t (\<lambda>k. k\<lparr>t_state := RUNNABLE\<rparr>) s) s')"
    then obtain t where t: "sem_value (Q k) < 0" "sem_que (Q k) (sem_head (Q k)) = Some t" "same_tasks (upd_task t (\<lambda>k. k\<lparr>t_state := RUNNABLE\<rparr>) s) s'" by blast
    show ?thesis
    proof (cases "\<exists>c. current_tasks s c = Some t")
      case True
      then obtain c where "current_tasks s c = Some t" ..
      then have "wakes_early (s, Q) (s', Q(k := q))" using t step_signal(1) by (fastforce simp: wakes_early_def)
      then show ?thesis ..
    next
      case False
      then have "sched_inv (upd_task t (\<lambda>k. k\<lparr>t_state := RUNNABLE\<rparr>) s)" using step_signal(2) by (simp add: sched_inv_runnable)
      with t(3) show ?thesis using same_tasks_inv by simp
    qed
  qed
next
  case (step_create s x lay name entry arg s' Q)
  from kmt_create_inv [OF _ step_create(1-3)] step_create(4) show ?case by simp
next
  case (step_teardown s x s' Q)
  from kmt_teardown_inv [OF _ step_teardown(1-3)] step_teardown(4) show ?case by simp
qed

lemma kcalms_inv: "kcalm\<^sup>*\<^sup>* a b \<Longrightarrow> sched_inv (fst a) \<Longrightarrow> sched_inv (fst b)"
  by (induction rule: rtranclp_induct) (auto simp: kcalm_def dest: kstep_inv)

lemma ksteps_inv:
  "kstep\<^sup>*\<^sup>* a b \<Longrightarrow> sched_inv (fst a) \<Longrightarrow>
   kcalm\<^sup>*\<^sup>* a b \<or> (\<exists>x y. kcalm\<^sup>*\<^sup>* a x \<and> sched_inv (fst x) \<and> wakes_early x y \<and> kstep\<^sup>*\<^sup>* y b)"
proof (induction rule: rtranclp_induct)
  case (step b c)
  from step.IH [OF step.prems] show ?case
  proof
    assume calm: "kcalm\<^sup>*\<^sup>* a b"
    show ?thesis
    proof (cases "wakes_early b c")
      case True
      then show ?thesis using calm kcalms_inv [OF calm step.prems] by blast
    next
      case False
      then have "kcalm b c" using step.hyps(2) by (simp add: kcalm_def)
      with calm show ?thesis by (meson rtranclp.rtrancl_into_rtrancl)
    qed
  next
    assume "\<exists>x y. kcalm\<^sup>*\<^sup>* a x \<and> sched_inv (fst x) \<and> wakes_early x y \<and> kstep\<^sup>*\<^sup>* y b"
    then show ?thesis using step.hyps(2) by (meson rtranclp.rtrancl_into_rtrancl)
  qed
qed simp

section \<open>A concrete machine\<close>

text \<open>Two processors, each running one task, and a semaphore of value zero.\<close>

definition duo_task :: "nat \<Rightarrow> task" where
  "duo_task i = \<lparr>t_idx = i, t_state = RUNNING, t_proc = None, t_ctx = fst (kcontext 0 (0, 0) (of_nat i) 0),
     t_stk = (0, 0), t_name = [], t_stack = []\<rparr>"

definition duo :: kmt where
  "duo = \<lparr>tasks_size = 2, tasks = (\<lambda>i. if i < 2 then Some (i + 1) else None),
     task_of = (\<lambda>t. duo_task (t - 1)), current_tasks = (\<lambda>c. if c < 2 then Some (c + 1) else None),
     tasks_mutex = UNLOCKED, cli_mutex = UNLOCKED, ncli = (\<lambda>_. 0), intena = (\<lambda>_. False), iflag = (\<lambda>_. True),
     proc_table = procfs0\<rparr>"

definition sem0 :: sem where
  "sem0 = \<lparr>sem_name = [], sem_value = 0, sem_lk = \<lparr>sl_name = [], sl_locked = UNLOCKED, sl_cpu = -1\<rparr>,
     sem_que = (\<lambda>_. None), sem_head = 0, sem_tail = 0\<rparr>"

lemma duo_inv: "sched_inv duo"
  by (auto simp: sched_inv_def duo_def duo_task_def MAX_TASK_def split: if_splits)

lemma sem0_ok: "sem_ok sem0"
  by (simp add: sem0_def sem_ok_def sem_ring_def sem_items_def ring_items_def ring_len_def MAX_TASK_def)

section \<open>Properties\<close>

text \<open>
  C16: the context switch is round robin and always returns while the running task or any other one is ready:
  it takes the first ready slot after the current one and resumes the saved context of its task, marking it running; the old task keeps the interrupted context, and when another one
  follows it becomes runnable if it was running, and stays asleep if it was; every other task is left alone.
\<close>

theorem switch_round_robin:
  assumes inv: "sched_inv s" and cur: "current_tasks s cpu = Some old"
    and ready: "t_state (task_of s old) = RUNNING \<or> (\<exists>j. task_ready s j)"
  shows "\<exists>d n s'. 1 \<le> d \<and> d \<le> tasks_size s \<and>
     tasks s ((t_idx (task_of s old) + d) mod tasks_size s) = Some n \<and>
     (\<forall>k. 1 \<le> k \<and> k < d \<longrightarrow> \<not> task_ready s ((t_idx (task_of s old) + k) mod tasks_size s)) \<and>
     (if n = old then t_state (task_of s old) = RUNNING else t_state (task_of s n) \<in> {STARTED, RUNNABLE}) \<and>
     kmt_context_save_switch cpu ev ctx s = Inr (Some (if n = old then ctx else t_ctx (task_of s n)), s') \<and>
     tasks s' = tasks s \<and> current_tasks s' = (current_tasks s)(cpu := Some n) \<and>
     task_of s' = (let old' = (task_of s old)\<lparr>t_ctx := ctx, t_state := if t_state (task_of s old) = RUNNING then RUNNABLE else YIELD\<rparr>;
                       f = (task_of s)(old := old')
                   in f(n := (f n)\<lparr>t_state := RUNNING\<rparr>))"
proof -
  have st: "t_state (task_of s old) \<in> {RUNNING, YIELD}" using sched_inv_current [OF inv cur] by simp
  let ?old = "(task_of s old)\<lparr>t_ctx := ctx, t_state := if t_state (task_of s old) = RUNNING then RUNNABLE else YIELD\<rparr>"
  have out: "task_of (switch_out cpu ctx s) = (task_of s)(old := ?old)" using cur st by (auto simp: switch_out_def upd_task_def Let_def)
  have keep: "task_ready (switch_out cpu ctx s) j" if "task_ready s j" for j
    using that st by (cases "tasks s j = Some old") (auto simp: task_ready_def out split: option.splits)
  obtain j where "task_ready (switch_out cpu ctx s) j"
    using ready keep task_ready_switch_out [OF inv cur] by blast
  from switch_run [OF inv cur this, of ev] obtain d n s' where
    d: "1 \<le> d" "d \<le> tasks_size s" and n: "tasks s ((t_idx (task_of s old) + d) mod tasks_size s) = Some n"
      "t_state (task_of (switch_out cpu ctx s) n) \<in> {STARTED, RUNNABLE}"
    and none: "\<forall>k. 1 \<le> k \<and> k < d \<longrightarrow> \<not> task_ready (switch_out cpu ctx s) ((t_idx (task_of s old) + k) mod tasks_size s)"
    and run: "kmt_context_save_switch cpu ev ctx s = Inr (Some (t_ctx (task_of (switch_out cpu ctx s) n)), s')"
    and s': "tasks s' = tasks s" "current_tasks s' = (current_tasks s)(cpu := Some n)"
      "task_of s' = (task_of (switch_out cpu ctx s))(n := (task_of (switch_out cpu ctx s) n)\<lparr>t_state := RUNNING\<rparr>)"
    by blast
  have "if n = old then t_state (task_of s old) = RUNNING else t_state (task_of s n) \<in> {STARTED, RUNNABLE}"
    using n(2) by (simp add: out split: if_splits)
  moreover have "t_ctx (task_of (switch_out cpu ctx s) n) = (if n = old then ctx else t_ctx (task_of s n))" by (simp add: out)
  ultimately show ?thesis
    using d n(1) none keep run s' unfolding out Let_def by (intro exI [of _ d] exI [of _ n] exI [of _ s'] conjI) auto
qed

text \<open>A third task, which is ready: the first processor gives up its task and takes the third.\<close>

definition trio :: kmt where
  "trio = duo\<lparr>tasks_size := 3, tasks := (tasks duo)(2 := Some 3), task_of := (task_of duo)(3 := (duo_task 2)\<lparr>t_state := STARTED\<rparr>)\<rparr>"

lemma trio_inv: "sched_inv trio"
  by (auto simp: sched_inv_def trio_def duo_def duo_task_def MAX_TASK_def split: if_splits)

theorem switch_round_robin_witness:
  "\<exists>s'. kmt_context_save_switch 0 \<lparr>ev_event = EVENT_YIELD, ev_cause = 0, ev_ref = 0\<rparr> (t_ctx (duo_task 7)) trio = Inr (Some (t_ctx (duo_task 2)), s') \<and>
     current_tasks s' 0 = Some 3 \<and> current_tasks s' 1 = Some 2 \<and> t_state (task_of s' 3) = RUNNING \<and> t_state (task_of s' 2) = RUNNING \<and>
     task_of s' 1 = (duo_task 0)\<lparr>t_ctx := t_ctx (duo_task 7), t_state := RUNNABLE\<rparr>"
proof -
  let ?ev = "\<lparr>ev_event = EVENT_YIELD, ev_cause = 0, ev_ref = 0\<rparr>" and ?c = "t_ctx (duo_task 7)"
  have cur: "current_tasks trio 0 = Some 1" "t_state (task_of trio 1) = RUNNING" "t_idx (task_of trio 1) = 0" "tasks_size trio = 3"
    by (simp_all add: trio_def duo_def duo_task_def)
  have r: "\<not> task_ready trio 1" "task_ready trio 2" by (simp_all add: trio_def task_ready_def duo_def duo_task_def)
  obtain d n s' where d: "1 \<le> d" "d \<le> 3" "tasks trio (d mod 3) = Some n" "\<forall>k. 1 \<le> k \<and> k < d \<longrightarrow> \<not> task_ready trio (k mod 3)"
    "if n = 1 then True else t_state (task_of trio n) \<in> {STARTED, RUNNABLE}"
    and run: "kmt_context_save_switch 0 ?ev ?c trio = Inr (Some (if n = 1 then ?c else t_ctx (task_of trio n)), s')"
    and s': "current_tasks s' = (current_tasks trio)(0 := Some n)"
      "task_of s' = (let f = (task_of trio)(1 := (task_of trio 1)\<lparr>t_ctx := ?c, t_state := RUNNABLE\<rparr>) in f(n := (f n)\<lparr>t_state := RUNNING\<rparr>))"
    using switch_round_robin [OF trio_inv cur(1), of ?ev ?c] unfolding cur add_0 simp_thms if_True Let_def by blast
  have "d \<noteq> 3" using d(4) [rule_format, of 2] r(2) by auto
  moreover have "d \<noteq> 1" using d(3,5) r(1) by (auto simp: task_ready_def trio_def duo_def duo_task_def)
  ultimately have "d = 2" using d(1,2) by simp
  then have "n = 3" using d(3) by (simp add: trio_def)
  then show ?thesis using run s' by (simp add: trio_def duo_def duo_task_def)
qed

text \<open>A task that is woken before it has left its processor.\<close>

lemma sleep_race_run:
  "\<exists>q1 s1 q2 s2 r s3. sched_inv duo \<and> sem_ok sem0 \<and>
     kmt_sem_wait 0 sem0 duo = Inr (True, q1, s1) \<and> t_state (task_of s1 1) = YIELD \<and>
     kmt_sem_signal 1 q1 s1 = Inr (q2, s2) \<and> current_tasks s2 1 = Some 2 \<and>
     kmt_context_save_switch 1 \<lparr>ev_event = EVENT_IRQ_TIMER, ev_cause = 0, ev_ref = 0\<rparr> (t_ctx (duo_task 1)) s2 = Inr (r, s3) \<and>
     current_tasks s3 0 = Some 1 \<and> current_tasks s3 1 = Some 1"
proof -
  let ?ev = "\<lparr>ev_event = EVENT_IRQ_TIMER, ev_cause = 0, ev_ref = 0\<rparr>" and ?ctx = "t_ctx (duo_task 1)"
  have duo: "cli_mutex duo = UNLOCKED" "current_tasks duo 0 = Some 1" "sem_value sem0 = 0"
    by (simp_all add: duo_def sem0_def)
  obtain q1 s1 where 1: "kmt_sem_wait 0 sem0 duo = Inr (True, q1, s1)" "sem_ok q1" "sem_value q1 = -1"
    "sem_items q1 = sem_items sem0 @ [Some 1]" "same_tasks (upd_task 1 (\<lambda>k. k\<lparr>t_state := YIELD\<rparr>) duo) s1" "cli_mutex s1 = UNLOCKED"
    using sem_wait_block [OF sem0_ok duo(1) _ _ duo(2)] duo(3) by (auto simp: MAX_TASK_def)
  have "sem_items sem0 = []" by (simp add: sem0_def sem_items_def ring_items_def ring_len_def)
  with 1(2-4,6) obtain q2 s2 where 2: "kmt_sem_signal 1 q1 s1 = Inr (q2, s2)"
    "same_tasks (upd_task 1 (\<lambda>k. k\<lparr>t_state := RUNNABLE\<rparr>) s1) s2"
    using sem_signal_wake [of q1 s1 1] by auto
  have s2: "tasks_size s2 = 2" "tasks s2 0 = Some 1" "current_tasks s2 0 = Some 1" "current_tasks s2 1 = Some 2"
    "t_state (task_of s2 1) = RUNNABLE" "t_idx (task_of s2 2) = 1" "t_state (task_of s2 2) = RUNNING"
    using 1(5) 2(2) by (auto simp: same_tasks_def upd_task_def duo_def duo_task_def)
  have "task_ready (switch_out 1 ?ctx s2) 0"
    using s2 switch_out_other [of s2 1 1] by (simp add: task_ready_def)
  then have "sched_loop 3 1 (switch_out 1 ?ctx s2) = Inr 0"
    using s2(1) by (simp add: eval_nat_numeral)
  then have "\<exists>r s3. kmt_context_save_switch 1 ?ev ?ctx s2 = Inr (r, s3) \<and> current_tasks s3 0 = Some 1 \<and> current_tasks s3 1 = Some 1"
    using s2 by (simp add: kmt_context_save_switch_def Let_def upd_task_def del: sched_loop.simps)
  moreover have "t_state (task_of s1 1) = YIELD" using 1(5) by (simp add: same_tasks_def upd_task_def)
  ultimately show ?thesis using duo_inv sem0_ok 1(1) 2(1) s2(4) by blast
qed

text \<open>
  C2: whatever operations of the module the processors run, in any order, the invariant of the scheduler holds afterwards, as long as no signal wakes a task that has gone to sleep but
  not yet left its processor: the table is consistent, a current task is running or going to sleep, and no task is current on two processors.  And this is the only way to break it: in
  a run of any operations it holds at the end, or else there was a state of the run in which it still held and a signal woke such a task.  (Tasks are created when they are neither in the
  table nor running, and removed when they are not running.)
\<close>

theorem one_processor_per_task:
  assumes "sched_inv s"
  shows "(kcalm\<^sup>*\<^sup>* (s, Q) (s', Q') \<longrightarrow> sched_inv s' \<and> (\<forall>c d t. current_tasks s' c = Some t \<and> current_tasks s' d = Some t \<longrightarrow> c = d)) \<and>
    (kstep\<^sup>*\<^sup>* (s, Q) (s', Q') \<longrightarrow> sched_inv s' \<or>
      (\<exists>a b. kcalm\<^sup>*\<^sup>* (s, Q) a \<and> sched_inv (fst a) \<and> wakes_early a b \<and> kstep\<^sup>*\<^sup>* b (s', Q')))"
  using ksteps_inv [of "(s, Q)" "(s', Q')"] kcalms_inv [of "(s, Q)" "(s', Q')"] sched_inv_exclusive assms by auto

theorem one_processor_per_task_witness:
  "\<exists>s1 Q1 s3 Q3. kcalm\<^sup>*\<^sup>* (duo, \<lambda>_. sem0) (s1, Q1) \<and> t_state (task_of s1 1) = YIELD \<and> sched_inv s1 \<and>
     kstep\<^sup>*\<^sup>* (duo, \<lambda>_. sem0) (s3, Q3) \<and> current_tasks s3 0 = Some 1 \<and> current_tasks s3 1 = Some 1 \<and>
     (\<exists>a b. kcalm\<^sup>*\<^sup>* (duo, \<lambda>_. sem0) a \<and> sched_inv (fst a) \<and> wakes_early a b \<and> kstep\<^sup>*\<^sup>* b (s3, Q3))"
proof -
  let ?Q = "\<lambda>_::nat. sem0"
  obtain q1 s1 q2 s2 r ev ctx s3 where 1: "kmt_sem_wait 0 sem0 duo = Inr (True, q1, s1)" "t_state (task_of s1 1) = YIELD"
    and 2: "kmt_sem_signal 1 q1 s1 = Inr (q2, s2)" "current_tasks s2 1 = Some 2"
    and 3: "kmt_context_save_switch 1 ev ctx s2 = Inr (r, s3)" "current_tasks s3 0 = Some 1" "current_tasks s3 1 = Some 1"
    using sleep_race_run by blast
  let ?a = "(s1, ?Q(0 := q1))" and ?b = "(s2, ?Q(0 := q1, 0 := q2))"
  have s1: "kstep (duo, ?Q) ?a" using 1(1) by (intro step_wait) simp
  then have calm: "kcalm\<^sup>*\<^sup>* (duo, ?Q) ?a" by (intro r_into_rtranclp) (simp add: kcalm_def wakes_early_def sem0_def)
  have "kstep ?a ?b" using 2(1) by (intro step_signal) simp
  moreover have "kstep ?b (s3, ?Q(0 := q1, 0 := q2))" using 2(2) 3(1) by (intro step_switch) auto
  ultimately have run: "kstep\<^sup>*\<^sup>* (duo, ?Q) (s3, ?Q(0 := q1, 0 := q2))" using s1 by (meson converse_rtranclp_into_rtranclp r_into_rtranclp)
  have "\<not> sched_inv s3" using sched_inv_exclusive [of s3 0 1 1] 3(2,3) by auto
  then have early: "\<exists>a b. kcalm\<^sup>*\<^sup>* (duo, ?Q) a \<and> sched_inv (fst a) \<and> wakes_early a b \<and> kstep\<^sup>*\<^sup>* b (s3, ?Q(0 := q1, 0 := q2))"
    using one_processor_per_task [OF duo_inv, THEN conjunct2, rule_format, OF run] by (simp only: simp_thms)
  have "sched_inv s1" using one_processor_per_task [OF duo_inv, THEN conjunct1, rule_format, OF calm] by (rule conjunct1)
  with calm 1(2) run 3(2,3) early show ?thesis by blast
qed

text \<open>
  C39: a signal before the trap does put a task on two processors: a task on processor 0 goes to sleep, and after it has released the
  semaphore's lock but before it has yielded, processor 1 signals and switches to it, so that both
  processors now run the same task on the same stack.
\<close>

theorem sleep_race:
  "\<exists>q1 s1 q2 s2 r s3. sched_inv duo \<and> sem_ok sem0 \<and>
     kmt_sem_wait 0 sem0 duo = Inr (True, q1, s1) \<and>
     kmt_sem_signal 1 q1 s1 = Inr (q2, s2) \<and>
     kmt_context_save_switch 1 \<lparr>ev_event = EVENT_IRQ_TIMER, ev_cause = 0, ev_ref = 0\<rparr> (t_ctx (duo_task 1)) s2 = Inr (r, s3) \<and>
     current_tasks s3 0 = Some 1 \<and> current_tasks s3 1 = Some 1"
  using sleep_race_run by blast

text \<open>
  C6: waiting on a semaphore with a positive value takes one unit and continues; otherwise it queues the
  caller behind the tasks already waiting, marks it as sleeping and yields.  The value stays in step with
  the queue as long as fewer than \<^verbatim>\<open>MAX_TASK - 1\<close> tasks wait.
\<close>

theorem sem_wait_correct:
  assumes "sem_ok q" and "cli_mutex s = UNLOCKED" and "current_tasks s cpu = Some t"
    and "- sem_value q < int MAX_TASK - 1"
  shows "\<exists>q' s'. kmt_sem_wait cpu q s = Inr (sem_value q \<le> 0, q', s') \<and> sem_ok q' \<and>
     sem_value q' = sem_value q - 1 \<and>
     sem_items q' = (if 0 < sem_value q then [] else sem_items q @ [Some t]) \<and>
     task_of s' = (if 0 < sem_value q then task_of s else (task_of s)(t := (task_of s t)\<lparr>t_state := YIELD\<rparr>))"
proof (cases "0 < sem_value q")
  case True
  with sem_wait_pass [OF assms(1,2), of cpu] show ?thesis by (auto simp: same_tasks_def)
next
  case False
  with sem_wait_block [OF assms(1,2) _ assms(4,3)] show ?thesis
    by (auto simp: same_tasks_def upd_task_def not_less)
qed

theorem sem_wait_correct_witness:
  "\<exists>q' s'. kmt_sem_wait 0 sem0 duo = Inr (True, q', s') \<and> sem_items q' = [Some 1] \<and>
     t_state (task_of s' 1) = YIELD"
proof -
  have "cli_mutex duo = UNLOCKED" "current_tasks duo 0 = Some 1" "- sem_value sem0 < int MAX_TASK - 1"
    "sem_value sem0 = 0" "sem_items sem0 = []"
    by (simp_all add: duo_def sem0_def MAX_TASK_def sem_items_def ring_items_def ring_len_def)
  with sem_wait_correct [OF sem0_ok, of duo 0 1] show ?thesis by auto
qed

text \<open>
  C17: signalling a semaphore nobody waits for adds a unit; otherwise the task that has waited longest
  becomes runnable.  It never reaches the halt of \<^verbatim>\<open>wakeup\<close> and keeps the value in step with the queue.
\<close>

theorem sem_signal_correct:
  assumes "sem_ok q" and "cli_mutex s = UNLOCKED"
  shows "\<exists>q' s'. kmt_sem_signal cpu q s = Inr (q', s') \<and> sem_ok q' \<and> sem_value q' = sem_value q + 1 \<and>
     (case sem_items q of
        [] \<Rightarrow> 0 \<le> sem_value q \<and> sem_items q' = [] \<and> task_of s' = task_of s
      | x # xs \<Rightarrow> sem_items q' = xs \<and>
          (\<exists>t. x = Some t \<and> task_of s' = (task_of s)(t := (task_of s t)\<lparr>t_state := RUNNABLE\<rparr>)))"
proof (cases "sem_value q < 0")
  case True
  with sem_signal_wake [OF assms True, of cpu] show ?thesis by (auto simp: same_tasks_def upd_task_def)
next
  case False
  then have "sem_items q = []" using assms(1) by (simp add: sem_ok_def)
  with False sem_signal_free [OF assms, of cpu] show ?thesis by (auto simp: same_tasks_def)
qed

theorem sem_signal_correct_witness:
  "\<exists>q' s'. kmt_sem_signal 0 sem0 duo = Inr (q', s') \<and> sem_value q' = 1 \<and> sem_items q' = []"
proof -
  have "cli_mutex duo = UNLOCKED" "sem_value sem0 = 0" "sem_items sem0 = []"
    by (simp_all add: duo_def sem0_def sem_items_def ring_items_def ring_len_def)
  with sem_signal_correct [OF sem0_ok, of duo 0] show ?thesis by auto
qed

text \<open>
  The ring of a locked semaphore delivers the waiting tasks in the order in which they were queued, for
  any sequence of insertions and removals that never queues more than \<^verbatim>\<open>MAX_TASK - 1\<close> tasks.
\<close>

theorem sem_queue_fifo:
  assumes "sem_locked q" and "qlegal (MAX_TASK - 1) (length (sem_items q)) ops"
  shows "\<exists>outs q'. qrun sem_push sem_pop ops q = Inr (outs, q') \<and> sem_locked q' \<and>
           outs @ sem_items q' = sem_items q @ puts_of ops"
  using assms by (rule semq.run_fifo)

theorem sem_queue_fifo_witness:
  "\<exists>outs q'. qrun sem_push sem_pop [Put (Some 3), Put (Some 4), Get] (sem0\<lparr>sem_lk := (sem_lk sem0)\<lparr>sl_locked := LOCKED\<rparr>\<rparr>) =
       Inr (outs, q') \<and> outs @ sem_items q' = [Some 3, Some 4]"
proof -
  have "sem_locked (sem0\<lparr>sem_lk := (sem_lk sem0)\<lparr>sl_locked := LOCKED\<rparr>\<rparr>)"
    "sem_items (sem0\<lparr>sem_lk := (sem_lk sem0)\<lparr>sl_locked := LOCKED\<rparr>\<rparr>) = []"
    by (simp_all add: sem_locked_def sem_ring_def sem0_def MAX_TASK_def sem_items_def ring_items_def ring_len_def)
  with sem_queue_fifo [of "sem0\<lparr>sem_lk := (sem_lk sem0)\<lparr>sl_locked := LOCKED\<rparr>\<rparr>" "[Put (Some 3), Put (Some 4), Get]"]
  show ?thesis by (auto simp: MAX_TASK_def)
qed

text \<open>
  \<^verbatim>\<open>pushcli\<close> reads the interrupt flag after it has cleared it, so that the outermost lock and unlock of a
  spin lock leave interrupts disabled whether or not they were enabled before.
\<close>

theorem spin_unlock_keeps_interrupts_off:
  assumes "cli_mutex s = UNLOCKED" and "sl_locked lk = UNLOCKED" and "ncli s cpu = 0"
  shows "\<exists>lk' s'. bindE (kmt_spin_lock cpu lk s) (\<lambda>(lk, s). kmt_spin_unlock cpu lk s) = Inr (lk', s') \<and>
     ncli s' = ncli s \<and> sl_locked lk' = UNLOCKED \<and> \<not> iflag s' cpu"
  using assms
  by (auto simp: kmt_spin_lock_def kmt_spin_unlock_def pushcli_run popcli_run naivelock_lock_def naivelock_unlock_def)

theorem spin_unlock_keeps_interrupts_off_witness:
  "\<exists>lk' s'. iflag duo 0 \<and>
     bindE (kmt_spin_lock 0 (sem_lk sem0) duo) (\<lambda>(lk, s). kmt_spin_unlock 0 lk s) = Inr (lk', s') \<and> \<not> iflag s' 0"
  using spin_unlock_keeps_interrupts_off [of duo "sem_lk sem0" 0] by (auto simp: duo_def sem0_def)

end
