(* ===== verification/Spinlock.thy ===== *)
theory Spinlock
  imports Kthreads_Sem
begin

text \<open>
  The spin lock of \<^verbatim>\<open>kthreads.c\<close> under all interleavings of the processors: every access to the lock word
  is one atomic step, as \<^verbatim>\<open>_atomic_xchg\<close> makes it.  Mutual exclusion is an invariant of the step
  relation, and the straight-line functions of the previous theories are its uninterrupted runs.
\<close>

datatype spin_pc = Idle | Spinning | Taken | Critical | Leaving | Released

type_synonym spin_state = "spinlock \<times> kmt \<times> (nat \<Rightarrow> spin_pc)"

inductive spin_step :: "spin_state \<Rightarrow> spin_state \<Rightarrow> bool" where
  spin_enter: "pc c = Idle \<Longrightarrow> pushcli c s = Inr s' \<Longrightarrow> spin_step (lk, s, pc) (lk, s', pc(c := Spinning))"
| spin_again: "pc c = Spinning \<Longrightarrow> sl_locked lk = LOCKED \<Longrightarrow> spin_step (lk, s, pc) (lk\<lparr>sl_locked := LOCKED\<rparr>, s, pc)"
| spin_take: "pc c = Spinning \<Longrightarrow> sl_locked lk = UNLOCKED \<Longrightarrow>
     spin_step (lk, s, pc) (lk\<lparr>sl_locked := LOCKED\<rparr>, s, pc(c := Taken))"
| spin_own: "pc c = Taken \<Longrightarrow> spin_step (lk, s, pc) (lk\<lparr>sl_cpu := int c\<rparr>, s, pc(c := Critical))"
| spin_leave: "pc c = Critical \<Longrightarrow> spin_step (lk, s, pc) (lk\<lparr>sl_cpu := -1\<rparr>, s, pc(c := Leaving))"
| spin_release: "pc c = Leaving \<Longrightarrow> spin_step (lk, s, pc) (lk\<lparr>sl_locked := UNLOCKED\<rparr>, s, pc(c := Released))"
| spin_exit: "pc c = Released \<Longrightarrow> popcli c s = Inr s' \<Longrightarrow> spin_step (lk, s, pc) (lk, s', pc(c := Idle))"

inductive_cases spin_stepE: "spin_step a b"

definition inside :: "spin_pc \<Rightarrow> bool" where
  "inside p \<longleftrightarrow> p \<in> {Taken, Critical, Leaving}"

lemma inside_simps [simp]:
  "inside Taken" "inside Critical" "inside Leaving" "\<not> inside Idle" "\<not> inside Spinning" "\<not> inside Released"
  by (simp_all add: inside_def)

definition spin_inv :: "spin_state \<Rightarrow> bool" where
  "spin_inv x = (case x of (lk, s, pc) \<Rightarrow>
     (sl_locked lk = LOCKED \<longleftrightarrow> (\<exists>c. inside (pc c))) \<and>
     (\<forall>c d. inside (pc c) \<and> inside (pc d) \<longrightarrow> c = d) \<and>
     (\<forall>c. pc c = Critical \<longrightarrow> sl_cpu lk = int c) \<and>
     (\<forall>c. if pc c = Idle then ncli s c = 0 else ncli s c = 1 \<and> \<not> iflag s c \<and> \<not> intena s c))"

lemma pushcli_InrD:
  "pushcli c s = Inr s' \<Longrightarrow>
     s' = s\<lparr>iflag := (iflag s)(c := False), intena := (if ncli s c = 0 then (intena s)(c := False) else intena s),
            ncli := (ncli s)(c := ncli s c + 1)\<rparr>"
  using pushcli_run [of s c] by (cases "cli_mutex s") (auto simp: pushcli_def naivelock_lock_def Let_def)

lemma popcli_InrD:
  "popcli c s = Inr s' \<Longrightarrow>
     s' = s\<lparr>ncli := (ncli s)(c := ncli s c - 1),
            iflag := (if ncli s c = 1 \<and> intena s c then (iflag s)(c := True) else iflag s)\<rparr>"
  using popcli_run [of s c] by (cases "cli_mutex s") (auto simp: popcli_def naivelock_lock_def Let_def)

lemma spin_step_inv: "spin_step x y \<Longrightarrow> spin_inv x \<Longrightarrow> spin_inv y"
proof (induction rule: spin_step.induct)
  case (spin_enter pc c s s' lk)
  note s' = pushcli_InrD [OF spin_enter(2)]
  have "inside ((pc(c := Spinning)) d) = inside (pc d)" for d using spin_enter(1) by simp
  then show ?case using spin_enter(1,3) by (auto simp: spin_inv_def s' split: if_splits)
next
  case (spin_again pc c lk s)
  then show ?case by (auto simp: spin_inv_def)
next
  case (spin_take pc c lk s)
  then have none: "\<not> inside (pc d)" for d by (auto simp: spin_inv_def)
  have "inside ((pc(c := Taken)) d) \<longleftrightarrow> d = c" for d using none by simp
  then show ?case using spin_take none by (auto simp: spin_inv_def inside_def split: if_splits)
next
  case (spin_own pc c lk s)
  have "inside ((pc(c := Critical)) d) = inside (pc d)" for d using spin_own(1) by simp
  moreover have "d = c" if "inside (pc d)" for d using that spin_own by (auto simp: spin_inv_def inside_def)
  ultimately show ?case using spin_own by (auto simp: spin_inv_def inside_def split: if_splits)
next
  case (spin_leave pc c lk s)
  have "inside ((pc(c := Leaving)) d) = inside (pc d)" for d using spin_leave(1) by simp
  moreover have "d = c" if "inside (pc d)" for d using that spin_leave by (auto simp: spin_inv_def inside_def)
  ultimately show ?case using spin_leave by (auto simp: spin_inv_def inside_def split: if_splits)
next
  case (spin_release pc c lk s)
  have "d = c" if "inside (pc d)" for d using that spin_release by (auto simp: spin_inv_def inside_def)
  then have "\<not> inside ((pc(c := Released)) d)" for d by auto
  then show ?case using spin_release by (auto simp: spin_inv_def inside_def split: if_splits)
next
  case (spin_exit pc c s s' lk)
  note s' = popcli_InrD [OF spin_exit(2)]
  have "inside ((pc(c := Idle)) d) = inside (pc d)" for d using spin_exit(1) by simp
  then show ?case using spin_exit(1,3) by (auto simp: spin_inv_def s' split: if_splits)
qed

lemma spin_steps_inv: "spin_step\<^sup>*\<^sup>* x y \<Longrightarrow> spin_inv x \<Longrightarrow> spin_inv y"
  by (induction rule: rtranclp_induct) (auto intro: spin_step_inv)

lemma spin_init_inv:
  "sl_locked lk = UNLOCKED \<Longrightarrow> \<forall>c. ncli s c = 0 \<Longrightarrow> spin_inv (lk, s, \<lambda>_. Idle)"
  by (simp add: spin_inv_def)

lemma three_steps: "r x y \<Longrightarrow> r y z \<Longrightarrow> r z w \<Longrightarrow> w = w' \<Longrightarrow> r\<^sup>*\<^sup>* x w'"
  by (meson converse_rtranclp_into_rtranclp r_into_rtranclp)

section \<open>Properties\<close>

text \<open>
  C8: from an unlocked lock, under every interleaving of lock and unlock on all processors, at most one
  processor is in the critical section; the lock then records that processor, and its interrupts are disabled.
\<close>

theorem spin_mutual_exclusion:
  assumes "spin_step\<^sup>*\<^sup>* (lk, s, \<lambda>_. Idle) (lk', s', pc)" and "sl_locked lk = UNLOCKED" and "\<forall>c. ncli s c = 0"
    and "pc c = Critical"
  shows "holding c lk' \<and> \<not> iflag s' c \<and> (\<forall>d. pc d = Critical \<longrightarrow> d = c)"
proof -
  have inv: "spin_inv (lk', s', pc)" using spin_steps_inv [OF assms(1)] spin_init_inv assms(2,3) by blast
  have "pc c \<noteq> Idle" and "inside (pc c)" using assms(4) by simp_all
  with inv assms(4) show ?thesis unfolding spin_inv_def holding_def by (auto simp: inside_def split: if_splits)
qed

text \<open>
  \<^verbatim>\<open>kmt_spin_lock\<close> and \<^verbatim>\<open>kmt_spin_unlock\<close> as modelled for a processor that runs alone are runs of the
  interleaved machine into and out of the critical section.
\<close>

theorem spin_lock_refines:
  assumes "pc c = Idle" and "kmt_spin_lock c lk s = Inr (lk', s')"
  shows "spin_step\<^sup>*\<^sup>* (lk, s, pc) (lk', s', pc(c := Critical)) \<and>
    (\<forall>lk'' s''. kmt_spin_unlock c lk' s' = Inr (lk'', s'') \<longrightarrow>
       spin_step\<^sup>*\<^sup>* (lk', s', pc(c := Critical)) (lk'', s'', pc))"
proof (intro conjI allI impI)
  from assms(2) obtain s1 where s1: "pushcli c s = Inr s1" and l: "sl_locked lk = UNLOCKED"
    and lk': "lk' = lk\<lparr>sl_locked := LOCKED, sl_cpu := int c\<rparr>" "s' = s1"
    by (auto simp: kmt_spin_lock_def res_iff naivelock_lock_def split: if_splits)
  have "spin_step (lk, s, pc) (lk, s1, pc(c := Spinning))" using assms(1) s1 by (rule spin_enter)
  moreover have "spin_step (lk, s1, pc(c := Spinning)) (lk\<lparr>sl_locked := LOCKED\<rparr>, s1, (pc(c := Spinning))(c := Taken))"
    using l by (intro spin_take) simp_all
  moreover have "spin_step (lk\<lparr>sl_locked := LOCKED\<rparr>, s1, (pc(c := Spinning))(c := Taken))
      (lk\<lparr>sl_locked := LOCKED\<rparr>\<lparr>sl_cpu := int c\<rparr>, s1, ((pc(c := Spinning))(c := Taken))(c := Critical))"
    by (intro spin_own) simp
  ultimately show "spin_step\<^sup>*\<^sup>* (lk, s, pc) (lk', s', pc(c := Critical))"
    by (rule three_steps) (simp add: lk')
next
  fix lk'' s''
  assume u: "kmt_spin_unlock c lk' s' = Inr (lk'', s'')"
  let ?p = "pc(c := Critical)"
  have lk'': "lk'' = lk'\<lparr>sl_cpu := -1, sl_locked := UNLOCKED\<rparr>" "popcli c s' = Inr s''"
    using u by (auto simp: kmt_spin_unlock_def naivelock_unlock_def Let_def res_iff)
  have "spin_step (lk', s', ?p) (lk'\<lparr>sl_cpu := -1\<rparr>, s', ?p(c := Leaving))" by (intro spin_leave) simp
  moreover have "spin_step (lk'\<lparr>sl_cpu := -1\<rparr>, s', ?p(c := Leaving))
      (lk'\<lparr>sl_cpu := -1\<rparr>\<lparr>sl_locked := UNLOCKED\<rparr>, s', (?p(c := Leaving))(c := Released))" by (intro spin_release) simp
  moreover have "spin_step (lk'\<lparr>sl_cpu := -1\<rparr>\<lparr>sl_locked := UNLOCKED\<rparr>, s', (?p(c := Leaving))(c := Released))
      (lk'\<lparr>sl_cpu := -1\<rparr>\<lparr>sl_locked := UNLOCKED\<rparr>, s'', ((?p(c := Leaving))(c := Released))(c := Idle))"
    using lk''(2) by (intro spin_exit) simp_all
  ultimately show "spin_step\<^sup>*\<^sup>* (lk', s', ?p) (lk'', s'', pc)"
    by (rule three_steps) (use assms(1) in \<open>auto simp: lk''(1)\<close>)
qed

lemma duo_locks: "\<exists>lk' s'. kmt_spin_lock 1 (sem_lk sem0) duo = Inr (lk', s')"
  using spin_lock_ex [of "sem_lk sem0" duo 1] by (auto simp: sem0_def duo_def)

theorem spin_lock_refines_witness:
  "\<exists>lk' s'. spin_step\<^sup>*\<^sup>* (sem_lk sem0, duo, \<lambda>_. Idle) (lk', s', (\<lambda>_. Idle)(1 := Critical))"
  using spin_lock_refines [of "\<lambda>_. Idle" 1] duo_locks by blast

lemma duo_enters: "\<exists>lk' s'. spin_step\<^sup>*\<^sup>* (sem_lk sem0, duo, \<lambda>_. Idle) (lk', s', (\<lambda>_. Idle)(1 := Critical))"
proof -
  obtain s1 where s1: "pushcli 1 duo = Inr s1" by (simp add: pushcli_run duo_def)
  let ?lk = "sem_lk sem0" and ?i = "\<lambda>_::nat. Idle"
  have "spin_step (?lk, duo, ?i) (?lk, s1, ?i(1 := Spinning))" using s1 by (intro spin_enter) simp_all
  moreover have "spin_step (?lk, s1, ?i(1 := Spinning)) (?lk\<lparr>sl_locked := LOCKED\<rparr>, s1, (?i(1 := Spinning))(1 := Taken))"
    by (intro spin_take) (simp_all add: sem0_def)
  moreover have "spin_step (?lk\<lparr>sl_locked := LOCKED\<rparr>, s1, (?i(1 := Spinning))(1 := Taken))
      (?lk\<lparr>sl_locked := LOCKED\<rparr>\<lparr>sl_cpu := int 1\<rparr>, s1, ((?i(1 := Spinning))(1 := Taken))(1 := Critical))"
    by (intro spin_own) simp
  ultimately show ?thesis using three_steps [of spin_step, OF _ _ _ refl] by (metis fun_upd_upd)
qed

theorem spin_mutual_exclusion_witness:
  "\<exists>lk' s'. spin_step\<^sup>*\<^sup>* (sem_lk sem0, duo, \<lambda>_. Idle) (lk', s', (\<lambda>_. Idle)(1 := Critical)) \<and> holding 1 lk' \<and> \<not> iflag s' 1"
proof -
  obtain lk' s' where run: "spin_step\<^sup>*\<^sup>* (sem_lk sem0, duo, \<lambda>_. Idle) (lk', s', (\<lambda>_. Idle)(1 := Critical))"
    using duo_enters by blast
  have "sl_locked (sem_lk sem0) = UNLOCKED" "\<forall>c. ncli duo c = 0" by (simp_all add: sem0_def duo_def)
  from spin_mutual_exclusion [OF run this, of 1] run show ?thesis by auto
qed

end
