(* ===== verification/Block_Device.thy ===== *)
theory Block_Device
  imports Prelude
begin

text \<open>
  The contract of a random access device, as the file systems use \<^verbatim>\<open>dev->ops->read\<close> and \<^verbatim>\<open>dev->ops->write\<close>:
  a region reads back as it was last written and a write changes no other region.  The contents of a
  device as a function from offsets satisfy it.
\<close>

locale block_device =
  fixes dread :: "nat \<Rightarrow> nat \<Rightarrow> 's \<Rightarrow> 'b list" and dwrite :: "nat \<Rightarrow> 'b list \<Rightarrow> 's \<Rightarrow> 's"
  assumes dread_length: "length (dread off n s) = n"
    and dread_append: "dread off (m + n) s = dread off m s @ dread (off + m) n s"
    and dread_same: "dread off (length bs) (dwrite off bs s) = bs"
    and dread_other: "off + n \<le> off' \<or> off' + length bs \<le> off \<Longrightarrow> dread off n (dwrite off' bs s) = dread off n s"
begin

text \<open>A part of a larger region that was written.\<close>

lemma dread_part:
  assumes "k + n \<le> length bs"
  shows "dread (off + k) n (dwrite off bs s) = take n (drop k bs)"
proof -
  let ?s = "dwrite off bs s"
  have "dread off (k + n + (length bs - (k + n))) ?s = bs" using assms dread_same by simp
  then have "(dread off k ?s @ dread (off + k) n ?s) @ dread (off + (k + n)) (length bs - (k + n)) ?s = bs"
    using dread_append [of off k n ?s] dread_append [of off "k + n" "length bs - (k + n)" ?s] by simp
  then have "drop k bs = dread (off + k) n ?s @ dread (off + (k + n)) (length bs - (k + n)) ?s"
    using dread_length by (metis append.assoc append_eq_conv_conj)
  then show ?thesis by (simp add: dread_length)
qed

text \<open>Regions that are rewritten with what they hold already.\<close>

lemma dread_rewrite: "dread off n (dwrite off (dread off n s) s) = dread off n s"
  using dread_same [of off "dread off n s" s] by (simp add: dread_length)

end

section \<open>Contents as a function\<close>

definition dev_read :: "nat \<Rightarrow> nat \<Rightarrow> (nat \<Rightarrow> 'b) \<Rightarrow> 'b list" where
  "dev_read off n d = map (\<lambda>k. d (off + k)) [0..<n]"

definition dev_write :: "nat \<Rightarrow> 'b list \<Rightarrow> (nat \<Rightarrow> 'b) \<Rightarrow> nat \<Rightarrow> 'b" where
  "dev_write off bs d = (\<lambda>x. if off \<le> x \<and> x < off + length bs then bs ! (x - off) else d x)"

interpretation flat: block_device dev_read dev_write
proof (unfold_locales, goal_cases)
  case (2 off m n s)
  show ?case by (rule nth_equalityI) (auto simp: dev_read_def nth_append)
next
  case (3 off bs s)
  show ?case by (rule nth_equalityI) (simp_all add: dev_read_def dev_write_def)
qed (auto simp: dev_read_def dev_write_def)

lemma dev_read_length [simp]: "length (dev_read off n d) = n"
  by (rule flat.dread_length)

lemma dev_read_nth [simp]: "k < n \<Longrightarrow> dev_read off n d ! k = d (off + k)"
  by (simp add: dev_read_def)

lemma dev_write_read [simp]: "dev_write off (dev_read off n d) d = d"
  by (auto simp: dev_write_def fun_eq_iff)

end
