(* ===== verification/Ramdisk.thy ===== *)
theory Ramdisk
  imports Block_Device Klib_String Alloc_Correct
begin

text \<open>
  \<^verbatim>\<open>kernel/src/devices/ramdisk/ramdisk.c\<close>: a device whose contents are a region of memory.  Its read and
  write copy bytes with \<^verbatim>\<open>memcpy\<close>; seen from outside they are the reads and writes of a block device.
\<close>

section \<open>Operations\<close>

definition RD_SIZE :: u32 where
  "RD_SIZE = push_bit 20 4"

record rd =
  rd_start :: u32
  rd_end :: u32

text \<open>\<open>initrd\<close> are the addresses of the image the linker places into the kernel.\<close>

definition rd_init :: "u32 \<times> u32 \<Rightarrow> int \<Rightarrow> pmm \<Rightarrow> procfs \<Rightarrow> (rd \<times> pmm \<times> procfs) res" where
  "rd_init initrd dev_id s pf =
     (if dev_id = 1 then Inr (\<lparr>rd_start = fst initrd, rd_end = snd initrd\<rparr>, s, pf)
      else
        bindE (kalloc RD_SIZE s pf) (\<lambda>(space, s, pf).
        Inr (\<lparr>rd_start = space, rd_end = space + RD_SIZE\<rparr>, s, pf)))"

definition rd_read :: "rd \<Rightarrow> nat \<Rightarrow> addr \<Rightarrow> nat \<Rightarrow> mem \<Rightarrow> nat \<times> mem" where
  "rd_read r offset buf count m = (count, memcpy m buf (uint (rd_start r) + int offset) count)"

definition rd_write :: "rd \<Rightarrow> nat \<Rightarrow> addr \<Rightarrow> nat \<Rightarrow> mem \<Rightarrow> nat \<times> mem" where
  "rd_write r offset buf count m = (count, memcpy m (uint (rd_start r) + int offset) buf count)"

section \<open>The disk inside memory\<close>

definition rd_bytes :: "rd \<Rightarrow> mem \<Rightarrow> nat \<Rightarrow> char" where
  "rd_bytes r m = (\<lambda>k. m (uint (rd_start r) + int k))"

definition buf_bytes :: "mem \<Rightarrow> addr \<Rightarrow> nat \<Rightarrow> char list" where
  "buf_bytes m buf n = map (\<lambda>k. m (buf + int k)) [0..<n]"

text \<open>A buffer outside of the disk and of the bytes before it.\<close>

definition off_disk :: "rd \<Rightarrow> addr \<Rightarrow> nat \<Rightarrow> nat \<Rightarrow> bool" where
  "off_disk r buf n sz \<longleftrightarrow> disjoint_range (uint (rd_start r)) sz buf n"

section \<open>Properties\<close>

text \<open>
  Reading from the disk into a buffer outside of it delivers the bytes of the disk and leaves the
  disk as it was.
\<close>

theorem rd_read_refines:
  assumes "off_disk r buf n sz" and "off + n \<le> sz" and "rd_read r off buf n m = (ret, m')"
  shows "ret = n \<and> buf_bytes m' buf n = dev_read off n (rd_bytes r m) \<and> (\<forall>k < sz. rd_bytes r m' k = rd_bytes r m k)"
proof -
  let ?a = "uint (rd_start r)"
  have "buf \<le> ?a + int off \<or> ?a + int off + int n \<le> buf"
    using assms(1,2) by (auto simp: off_disk_def disjoint_range_def)
  then have m': "m' = moved m buf (?a + int off) n" "ret = n"
    using assms(3) memcpy_moved by (auto simp: rd_read_def)
  moreover have "buf_bytes m' buf n = dev_read off n (rd_bytes r m)"
    by (auto simp: buf_bytes_def dev_read_def rd_bytes_def m' moved_def algebra_simps)
  moreover have "rd_bytes r m' k = rd_bytes r m k" if "k < sz" for k
    using assms(1) that by (auto simp: rd_bytes_def m' moved_def off_disk_def disjoint_range_def)
  ultimately show ?thesis by blast
qed

theorem rd_read_refines_witness:
  "buf_bytes (snd (rd_read \<lparr>rd_start = 100, rd_end = 200\<rparr> 4 0 3 (\<lambda>a. char_of (nat a)))) 0 3 = map char_of [104, 105, 106::nat]"
proof -
  let ?m = "\<lambda>a. char_of (nat a) :: char" and ?r = "\<lparr>rd_start = 100, rd_end = 200\<rparr>"
  have "off_disk ?r 0 3 100" by (simp add: off_disk_def disjoint_range_def)
  then show ?thesis
    using rd_read_refines [of ?r 0 3 100 4 ?m 3 "snd (rd_read ?r 4 0 3 ?m)"]
    by (simp add: rd_read_def dev_read_def rd_bytes_def upt_rec)
qed

text \<open>
  Writing a buffer outside of the disk replaces exactly the bytes at the given offset, so that a
  later read of the region returns what was written and every other region reads as before.
\<close>

theorem rd_write_refines:
  assumes "off_disk r buf n sz" and "off + n \<le> sz" and "rd_write r off buf n m = (ret, m')"
  shows "ret = n \<and> (\<forall>k < sz. rd_bytes r m' k = dev_write off (buf_bytes m buf n) (rd_bytes r m) k) \<and>
    dev_read off n (rd_bytes r m') = buf_bytes m buf n \<and>
    (\<forall>o' n'. o' + n' \<le> sz \<longrightarrow> o' + n' \<le> off \<or> off + n \<le> o' \<longrightarrow>
       dev_read o' n' (rd_bytes r m') = dev_read o' n' (rd_bytes r m))"
proof -
  let ?a = "uint (rd_start r)"
  have "?a + int off \<le> buf \<or> buf + int n \<le> ?a + int off"
    using assms(1,2) by (auto simp: off_disk_def disjoint_range_def)
  then have m': "m' = moved m (?a + int off) buf n" "ret = n"
    using assms(3) memcpy_moved by (auto simp: rd_write_def)
  have eq: "rd_bytes r m' k = dev_write off (buf_bytes m buf n) (rd_bytes r m) k" for k
  proof (cases "off \<le> k \<and> k < off + n")
    case True
    then have "buf + int (k - off) = buf + (int k - int off)" by simp
    with True show ?thesis
      by (simp add: rd_bytes_def m' moved_def dev_write_def buf_bytes_def algebra_simps)
  next
    case False
    then show ?thesis by (auto simp: rd_bytes_def m' moved_def dev_write_def buf_bytes_def)
  qed
  then have bytes: "rd_bytes r m' = dev_write off (buf_bytes m buf n) (rd_bytes r m)" by blast
  have len: "length (buf_bytes m buf n) = n" by (simp add: buf_bytes_def)
  have "dev_read off n (rd_bytes r m') = buf_bytes m buf n"
    unfolding bytes using flat.dread_same [of off "buf_bytes m buf n"] len by simp
  moreover have "dev_read o' n' (rd_bytes r m') = dev_read o' n' (rd_bytes r m)" if "o' + n' \<le> off \<or> off + n \<le> o'" for o' n'
    unfolding bytes using that len by (intro flat.dread_other) auto
  ultimately show ?thesis using eq m'(2) by blast
qed

theorem rd_write_refines_witness:
  "dev_read 4 3 (rd_bytes \<lparr>rd_start = 100, rd_end = 200\<rparr> (snd (rd_write \<lparr>rd_start = 100, rd_end = 200\<rparr> 4 0 3 (\<lambda>a. char_of (nat a))))) =
     map char_of [0, 1, 2::nat]"
proof -
  let ?m = "\<lambda>a. char_of (nat a) :: char" and ?r = "\<lparr>rd_start = 100, rd_end = 200\<rparr>"
  have "off_disk ?r 0 3 100" by (simp add: off_disk_def disjoint_range_def)
  then show ?thesis
    using rd_write_refines [of ?r 0 3 100 4 ?m 3 "snd (rd_write ?r 4 0 3 ?m)"]
    by (simp add: rd_write_def buf_bytes_def upt_rec)
qed

end
