(* ===== verification/Bytes.thy ===== *)
theory Bytes
  imports Block_Device
begin

text \<open>
  Little-endian layout of the structures that the file system code keeps on disk and reads into C
  structures, and the round trips between the two.
\<close>

section \<open>Integers\<close>

definition enc16 :: "u16 \<Rightarrow> u8 list" where
  "enc16 w = [ucast w, ucast (drop_bit 8 w)]"

definition dec16 :: "u8 list \<Rightarrow> u16" where
  "dec16 bs = ucast (bs ! 0) OR push_bit 8 (ucast (bs ! 1))"

definition enc32 :: "u32 \<Rightarrow> u8 list" where
  "enc32 w = [ucast w, ucast (drop_bit 8 w), ucast (drop_bit 16 w), ucast (drop_bit 24 w)]"

definition dec32 :: "u8 list \<Rightarrow> u32" where
  "dec32 bs = ucast (bs ! 0) OR push_bit 8 (ucast (bs ! 1)) OR push_bit 16 (ucast (bs ! 2)) OR push_bit 24 (ucast (bs ! 3))"

lemma length_enc [simp]: "length (enc16 w) = 2" "length (enc32 v) = 4"
  by (simp_all add: enc16_def enc32_def)

lemma dec_enc16 [simp]: "dec16 (enc16 w) = w"
  unfolding dec16_def enc16_def
  by (rule bit_word_eqI) (auto simp: bit_simps)

lemma dec_enc32 [simp]: "dec32 (enc32 w) = w"
  unfolding dec32_def enc32_def
proof (rule bit_word_eqI, goal_cases)
  case (1 n)
  then show ?case by (cases "24 \<le> n"; cases "16 \<le> n") (auto simp: bit_simps)
qed

section \<open>Slices\<close>

definition slice :: "nat \<Rightarrow> nat \<Rightarrow> 'a list \<Rightarrow> 'a list" where
  "slice off n bs = take n (drop off bs)"

lemma slice_append1 [simp]: "off + n \<le> length xs \<Longrightarrow> slice off n (xs @ ys) = slice off n xs"
  by (simp add: slice_def)

lemma slice_append2 [simp]: "length xs \<le> off \<Longrightarrow> slice off n (xs @ ys) = slice (off - length xs) n ys"
  by (simp add: slice_def)

lemma slice_all [simp]: "n = length xs \<Longrightarrow> slice 0 n xs = xs"
  by (simp add: slice_def)

lemma length_slice [simp]: "off + n \<le> length bs \<Longrightarrow> length (slice off n bs) = n"
  by (simp add: slice_def)

text \<open>Arrays of fixed-size elements.\<close>

definition chunks :: "nat \<Rightarrow> nat \<Rightarrow> 'a list \<Rightarrow> 'a list list" where
  "chunks sz k bs = map (\<lambda>i. slice (sz * i) sz bs) [0..<k]"

lemma length_concat_const: "\<forall>x \<in> set xs. length x = sz \<Longrightarrow> length (concat xs) = sz * length xs"
  by (induction xs) simp_all

lemma chunks_concat:
  assumes "\<forall>x \<in> set xs. length x = sz"
  shows "chunks sz (length xs) (concat xs) = xs"
  using assms
proof (induction xs)
  case Nil
  then show ?case by (simp add: chunks_def)
next
  case (Cons x xs)
  have "chunks sz (length (x # xs)) (concat (x # xs)) =
      slice 0 sz (x @ concat xs) # map (\<lambda>i. slice (sz * Suc i) sz (x @ concat xs)) [0..<length xs]"
    by (simp add: chunks_def map_upt_Suc del: upt_Suc)
  also have "slice 0 sz (x @ concat xs) = x" using Cons.prems by simp
  also have "map (\<lambda>i. slice (sz * Suc i) sz (x @ concat xs)) [0..<length xs] = chunks sz (length xs) (concat xs)"
    using Cons.prems by (simp add: chunks_def)
  finally show ?case using Cons by simp
qed

section \<open>Strings in character arrays\<close>

definition byte_of :: "char \<Rightarrow> u8" where
  "byte_of c = of_nat (of_char c)"

definition char_of_byte :: "u8 \<Rightarrow> char" where
  "char_of_byte b = char_of (unat b)"

lemma unat_byte_of: "unat (byte_of c) = of_char c"
  using of_char_mod_256 [of c, where ?'a = nat]
  by (simp add: byte_of_def unsigned_of_nat take_bit_nat_def del: of_char_mod_256)

lemma char_of_byte_of [simp]: "char_of_byte (byte_of c) = c"
  by (simp add: char_of_byte_def unat_byte_of)

lemma byte_of_0 [simp]: "byte_of c = 0 \<longleftrightarrow> c = CHR 0x00"
proof
  assume "byte_of c = 0"
  then have "char_of_byte (byte_of c) = char_of_byte 0" by simp
  then show "c = CHR 0x00" by (simp add: char_of_byte_def [of 0] char_of_def)
qed (simp add: byte_of_def)

text \<open>\<^verbatim>\<open>strcpy\<close> into an array, and the string an array holds.\<close>

definition str_store :: "string \<Rightarrow> u8 list \<Rightarrow> u8 list res" where
  "str_store s arr =
     bindE (guardE OutOfBounds (length s < length arr)) (\<lambda>_.
     Inr (map byte_of s @ [0] @ drop (length s + 1) arr))"

definition str_load :: "u8 list \<Rightarrow> string" where
  "str_load arr = map char_of_byte (takeWhile (\<lambda>b. b \<noteq> 0) arr)"

lemma str_load_store:
  assumes "str_store s arr = Inr arr'" and "CHR 0x00 \<notin> set s"
  shows "str_load arr' = s \<and> length arr' = length arr"
proof -
  from assms(1) have arr': "arr' = map byte_of s @ 0 # drop (length s + 1) arr" "length s < length arr"
    by (auto simp: str_store_def res_iff)
  have "takeWhile (\<lambda>b. b \<noteq> 0) arr' = map byte_of s"
    using assms(2) unfolding arr'(1) by (subst takeWhile_append2) (auto simp: image_iff)
  then show ?thesis using arr' by (simp add: str_load_def comp_def)
qed

end
