(* ===== verification/Ext2.thy ===== *)
theory Ext2
  imports Bytes Klib_String Procfs
begin

text \<open>
  \<^verbatim>\<open>kernel/src/fs/ext2fs.c\<close> and \<^verbatim>\<open>include/fs/ext2fs.h\<close>: the disk file system.  The disk is a function from
  offsets to bytes, accessed with the reads and writes of its device; the structures are laid out in it
  byte by byte, and the buffers of \<^verbatim>\<open>ext2_t\<close> are the fields of a record, so that every operation reads,
  changes and writes back the same buffers as the code, in the same order.
\<close>

section \<open>Layout\<close>

definition BLK_SIZE :: nat where "BLK_SIZE = 512"
definition DISK_START :: nat where "DISK_START = 0 * BLK_SIZE"
definition GDT_START :: nat where "GDT_START = 1 * BLK_SIZE"
definition BLK_BITMAP :: nat where "BLK_BITMAP = 2 * BLK_SIZE"
definition IND_BITMAP :: nat where "IND_BITMAP = 3 * BLK_SIZE"
definition INDT_START :: nat where "INDT_START = 4 * BLK_SIZE"
definition DATA_BLOCK :: nat where "DATA_BLOCK = (4 + 512) * BLK_SIZE"
definition EXT2_N_BLOCKS :: nat where "EXT2_N_BLOCKS = 12"
definition INODE_TABLE_COUNT :: nat where "INODE_TABLE_COUNT = 4096"
definition DATA_BLOCK_COUNT :: nat where "DATA_BLOCK_COUNT = 4096"
definition SB_SIZE :: nat where "SB_SIZE = 32"
definition GD_SIZE :: nat where "GD_SIZE = 32"
definition IND_SIZE :: nat where "IND_SIZE = 64"
definition DIR_SIZE :: nat where "DIR_SIZE = 32"
definition DIR_AMUT :: nat where "DIR_AMUT = BLK_SIZE div DIR_SIZE"
definition MAX_OPEN_FILE_AMUT :: nat where "MAX_OPEN_FILE_AMUT = 16"

lemmas ext2_consts = BLK_SIZE_def DISK_START_def GDT_START_def BLK_BITMAP_def IND_BITMAP_def INDT_START_def
  DATA_BLOCK_def EXT2_N_BLOCKS_def INODE_TABLE_COUNT_def DATA_BLOCK_COUNT_def SB_SIZE_def GD_SIZE_def
  IND_SIZE_def DIR_SIZE_def DIR_AMUT_def MAX_OPEN_FILE_AMUT_def

record super_block =
  sb_volume_name :: "u8 list"
  disk_size :: u16
  blocks_per_group :: u16
  inodes_per_blocks :: u16
  sb_pad :: "u8 list"

record group_desc =
  gd_volume_name :: "u8 list"
  block_bitmap :: u16
  inode_bitmap :: u16
  inode_table :: u16
  free_blocks_count :: u16
  free_inodes_count :: u16
  used_dirs_count :: u16
  gd_pad :: "u8 list"

record ind =
  i_mode :: u32
  i_blocks :: u32
  i_size :: u32
  i_block :: "u32 list"
  i_pad :: "u8 list"

record directory =
  de_inode :: u32
  de_mode :: u32
  de_name_len :: u32
  de_name :: "u8 list"
  de_par :: "u8 list"

definition enc_sb :: "super_block \<Rightarrow> u8 list" where
  "enc_sb b = sb_volume_name b @ enc16 (disk_size b) @ enc16 (blocks_per_group b) @ enc16 (inodes_per_blocks b) @ sb_pad b"

definition dec_sb :: "u8 list \<Rightarrow> super_block" where
  "dec_sb bs = \<lparr>sb_volume_name = slice 0 16 bs, disk_size = dec16 (slice 16 2 bs),
     blocks_per_group = dec16 (slice 18 2 bs), inodes_per_blocks = dec16 (slice 20 2 bs), sb_pad = slice 22 10 bs\<rparr>"

definition enc_gd :: "group_desc \<Rightarrow> u8 list" where
  "enc_gd g = gd_volume_name g @ enc16 (block_bitmap g) @ enc16 (inode_bitmap g) @ enc16 (inode_table g) @
     enc16 (free_blocks_count g) @ enc16 (free_inodes_count g) @ enc16 (used_dirs_count g) @ gd_pad g"

definition dec_gd :: "u8 list \<Rightarrow> group_desc" where
  "dec_gd bs = \<lparr>gd_volume_name = slice 0 16 bs, block_bitmap = dec16 (slice 16 2 bs),
     inode_bitmap = dec16 (slice 18 2 bs), inode_table = dec16 (slice 20 2 bs),
     free_blocks_count = dec16 (slice 22 2 bs), free_inodes_count = dec16 (slice 24 2 bs),
     used_dirs_count = dec16 (slice 26 2 bs), gd_pad = slice 28 4 bs\<rparr>"

definition enc_ind :: "ind \<Rightarrow> u8 list" where
  "enc_ind i = enc32 (i_mode i) @ enc32 (i_blocks i) @ enc32 (i_size i) @ concat (map enc32 (i_block i)) @ i_pad i"

definition dec_ind :: "u8 list \<Rightarrow> ind" where
  "dec_ind bs = \<lparr>i_mode = dec32 (slice 0 4 bs), i_blocks = dec32 (slice 4 4 bs), i_size = dec32 (slice 8 4 bs),
     i_block = map dec32 (chunks 4 EXT2_N_BLOCKS (slice 12 48 bs)), i_pad = slice 60 4 bs\<rparr>"

definition enc_dir1 :: "directory \<Rightarrow> u8 list" where
  "enc_dir1 d = enc32 (de_inode d) @ enc32 (de_mode d) @ enc32 (de_name_len d) @ de_name d @ de_par d"

definition dec_dir1 :: "u8 list \<Rightarrow> directory" where
  "dec_dir1 bs = \<lparr>de_inode = dec32 (slice 0 4 bs), de_mode = dec32 (slice 4 4 bs),
     de_name_len = dec32 (slice 8 4 bs), de_name = slice 12 16 bs, de_par = slice 28 4 bs\<rparr>"

definition enc_dir :: "directory list \<Rightarrow> u8 list" where
  "enc_dir ds = concat (map enc_dir1 ds)"

definition dec_dir :: "u8 list \<Rightarrow> directory list" where
  "dec_dir bs = map dec_dir1 (chunks DIR_SIZE DIR_AMUT bs)"

record ext2 =
  e_sb :: super_block
  e_gdt :: group_desc
  e_ind :: ind
  e_dir :: "directory list"
  blockbitmapbuf :: "u8 list"
  inodebitmapbuf :: "u8 list"
  datablockbuf :: "u8 list"
  last_alloc_block :: u32
  last_alloc_inode :: u32
  current_dir :: u32
  file_open_table :: "u32 list"
  e_disk :: "nat \<Rightarrow> u8"

section \<open>Disk access\<close>

definition ext2_rd_sb :: "ext2 \<Rightarrow> ext2" where
  "ext2_rd_sb e = e\<lparr>e_sb := dec_sb (dev_read DISK_START SB_SIZE (e_disk e))\<rparr>"

definition ext2_wr_sb :: "ext2 \<Rightarrow> ext2" where
  "ext2_wr_sb e = e\<lparr>e_disk := dev_write DISK_START (enc_sb (e_sb e)) (e_disk e)\<rparr>"

definition ext2_rd_gd :: "ext2 \<Rightarrow> ext2" where
  "ext2_rd_gd e = e\<lparr>e_gdt := dec_gd (dev_read GDT_START GD_SIZE (e_disk e))\<rparr>"

definition ext2_wr_gd :: "ext2 \<Rightarrow> ext2" where
  "ext2_wr_gd e = e\<lparr>e_disk := dev_write GDT_START (enc_gd (e_gdt e)) (e_disk e)\<rparr>"

text \<open>Offsets are 32-bit numbers.\<close>

definition ind_offset :: "u32 \<Rightarrow> nat" where
  "ind_offset i = unat (of_nat INDT_START + (i - 1) * of_nat IND_SIZE :: u32)"

definition blk_offset :: "u32 \<Rightarrow> nat" where
  "blk_offset i = unat (of_nat DATA_BLOCK + i * of_nat BLK_SIZE :: u32)"

definition ext2_rd_ind :: "u32 \<Rightarrow> ext2 \<Rightarrow> ext2" where
  "ext2_rd_ind i e = e\<lparr>e_ind := dec_ind (dev_read (ind_offset i) IND_SIZE (e_disk e))\<rparr>"

definition ext2_wr_ind :: "u32 \<Rightarrow> ext2 \<Rightarrow> ext2" where
  "ext2_wr_ind i e = e\<lparr>e_disk := dev_write (ind_offset i) (enc_ind (e_ind e)) (e_disk e)\<rparr>"

definition ext2_rd_dir :: "u32 \<Rightarrow> ext2 \<Rightarrow> ext2" where
  "ext2_rd_dir i e = e\<lparr>e_dir := dec_dir (dev_read (blk_offset i) BLK_SIZE (e_disk e))\<rparr>"

definition ext2_wr_dir :: "u32 \<Rightarrow> ext2 \<Rightarrow> ext2" where
  "ext2_wr_dir i e = e\<lparr>e_disk := dev_write (blk_offset i) (enc_dir (e_dir e)) (e_disk e)\<rparr>"

definition ext2_rd_blockbitmap :: "ext2 \<Rightarrow> ext2" where
  "ext2_rd_blockbitmap e = e\<lparr>blockbitmapbuf := dev_read BLK_BITMAP BLK_SIZE (e_disk e)\<rparr>"

definition ext2_wr_blockbitmap :: "ext2 \<Rightarrow> ext2" where
  "ext2_wr_blockbitmap e = e\<lparr>e_disk := dev_write BLK_BITMAP (blockbitmapbuf e) (e_disk e)\<rparr>"

definition ext2_rd_inodebitmap :: "ext2 \<Rightarrow> ext2" where
  "ext2_rd_inodebitmap e = e\<lparr>inodebitmapbuf := dev_read IND_BITMAP BLK_SIZE (e_disk e)\<rparr>"

definition ext2_wr_inodebitmap :: "ext2 \<Rightarrow> ext2" where
  "ext2_wr_inodebitmap e = e\<lparr>e_disk := dev_write IND_BITMAP (inodebitmapbuf e) (e_disk e)\<rparr>"

definition ext2_rd_datablock :: "u32 \<Rightarrow> ext2 \<Rightarrow> ext2" where
  "ext2_rd_datablock i e = e\<lparr>datablockbuf := dev_read (blk_offset i) BLK_SIZE (e_disk e)\<rparr>"

definition ext2_wr_datablock :: "u32 \<Rightarrow> ext2 \<Rightarrow> ext2" where
  "ext2_wr_datablock i e = e\<lparr>e_disk := dev_write (blk_offset i) (datablockbuf e) (e_disk e)\<rparr>"

section \<open>Bitmaps\<close>

text \<open>
  The search for a byte that is not full, cyclic from \<open>cur\<close>.  After a round over all bytes it has met
  each of them, so fuel for one round decides whether it ends.
\<close>

fun seek_byte :: "nat \<Rightarrow> u8 list \<Rightarrow> nat \<Rightarrow> nat res" where
  "seek_byte 0 bm cur = Inl Diverge"
| "seek_byte (Suc fuel) bm cur =
     bindE (guardE OutOfBounds (cur < length bm)) (\<lambda>_.
     if bm ! cur = 0xff then seek_byte fuel bm (if cur = BLK_SIZE - 1 then 0 else cur + 1) else Inr cur)"

text \<open>The search for a clear bit, most significant first; \<open>con\<close> is zero after eight steps.\<close>

fun seek_bit :: "nat \<Rightarrow> u8 \<Rightarrow> u32 \<Rightarrow> nat \<Rightarrow> u32 \<times> nat" where
  "seek_bit 0 b con flag = (con, flag)"
| "seek_bit (Suc fuel) b con flag =
     (if ucast b AND con \<noteq> 0 then seek_bit fuel b (con div 2) (flag + 1) else (con, flag))"

text \<open>One search for a clear bit in a bitmap, shared by the two allocation functions: position and new bitmap.\<close>

definition bitmap_take :: "u8 list \<Rightarrow> u32 \<Rightarrow> (nat \<times> u8 list) res" where
  "bitmap_take bm start =
     bindE (seek_byte (BLK_SIZE + 1) bm (unat start)) (\<lambda>cur.
     let (con, flag) = seek_bit 9 (bm ! cur) 0x80 0 in
     Inr (cur * 8 + flag, bm[cur := ucast (ucast (bm ! cur) + con :: u32)]))"

definition ext2_alloc_block :: "ext2 \<Rightarrow> (u32 \<times> ext2) res" where
  "ext2_alloc_block e =
     (let cur = last_alloc_block e div 8 in
      if free_blocks_count (e_gdt e) = 0 then Inr (-1, e)
      else
        let e = ext2_rd_blockbitmap e in
        bindE (bitmap_take (blockbitmapbuf e) cur) (\<lambda>(pos, bm).
        let e = e\<lparr>blockbitmapbuf := bm, last_alloc_block := of_nat pos\<rparr>;
            e = ext2_wr_blockbitmap e;
            e = e\<lparr>e_gdt := (e_gdt e)\<lparr>free_blocks_count := free_blocks_count (e_gdt e) - 1\<rparr>\<rparr>;
            e = ext2_wr_gd e
        in Inr (last_alloc_block e, e)))"

definition ext2_alloc_inode :: "ext2 \<Rightarrow> (u32 \<times> ext2) res" where
  "ext2_alloc_inode e =
     (let cur = (last_alloc_inode e - 1) div 8 in
      if free_inodes_count (e_gdt e) = 0 then Inr (-1, e)
      else
        let e = ext2_rd_inodebitmap e in
        bindE (bitmap_take (inodebitmapbuf e) cur) (\<lambda>(pos, bm).
        let e = e\<lparr>inodebitmapbuf := bm, last_alloc_inode := of_nat pos + 1\<rparr>;
            e = ext2_wr_inodebitmap e;
            e = e\<lparr>e_gdt := (e_gdt e)\<lparr>free_inodes_count := free_inodes_count (e_gdt e) - 1\<rparr>\<rparr>;
            e = ext2_wr_gd e
        in Inr (last_alloc_inode e, e)))"

definition clear_mask :: "nat \<Rightarrow> u8" where
  "clear_mask k = (if k = 0 then 127 else if k = 1 then 191 else if k = 2 then 223 else if k = 3 then 239
     else if k = 4 then 247 else if k = 5 then 251 else if k = 6 then 253 else 254)"

definition bitmap_drop :: "u8 list \<Rightarrow> u32 \<Rightarrow> u8 list res" where
  "bitmap_drop bm n =
     (let tmp = unat (n div 8) in
      bindE (guardE OutOfBounds (tmp < length bm)) (\<lambda>_.
      Inr (bm[tmp := bm ! tmp AND clear_mask (unat (n mod 8))])))"

definition ext2_remove_block :: "u32 \<Rightarrow> ext2 \<Rightarrow> ext2 res" where
  "ext2_remove_block del_num e =
     (let e = ext2_rd_blockbitmap e in
      bindE (bitmap_drop (blockbitmapbuf e) del_num) (\<lambda>bm.
      let e = ext2_wr_blockbitmap (e\<lparr>blockbitmapbuf := bm\<rparr>);
          e = e\<lparr>e_gdt := (e_gdt e)\<lparr>free_blocks_count := free_blocks_count (e_gdt e) + 1\<rparr>\<rparr>
      in Inr (ext2_wr_gd e)))"

definition ext2_remove_inode :: "u32 \<Rightarrow> ext2 \<Rightarrow> ext2 res" where
  "ext2_remove_inode del_num e =
     (let e = ext2_rd_inodebitmap e in
      bindE (bitmap_drop (inodebitmapbuf e) (del_num - 1)) (\<lambda>bm.
      let e = ext2_wr_inodebitmap (e\<lparr>inodebitmapbuf := bm\<rparr>);
          e = e\<lparr>e_gdt := (e_gdt e)\<lparr>free_inodes_count := free_inodes_count (e_gdt e) + 1\<rparr>\<rparr>
      in Inr (ext2_wr_gd e)))"

section \<open>Blocks of an inode\<close>

definition ind_blk :: "nat \<Rightarrow> ext2 \<Rightarrow> u32 res" where
  "ind_blk k e = bindE (guardE OutOfBounds (k < length (i_block (e_ind e)))) (\<lambda>_. Inr (i_block (e_ind e) ! k))"

definition set_ind_blk :: "nat \<Rightarrow> u32 \<Rightarrow> ext2 \<Rightarrow> ext2 res" where
  "set_ind_blk k b e = bindE (guardE OutOfBounds (k < length (i_block (e_ind e)))) (\<lambda>_.
     Inr (e\<lparr>e_ind := (e_ind e)\<lparr>i_block := (i_block (e_ind e))[k := b]\<rparr>\<rparr>))"

abbreviation upd_ind :: "(ind \<Rightarrow> ind) \<Rightarrow> ext2 \<Rightarrow> ext2" where
  "upd_ind f e \<equiv> e\<lparr>e_ind := f (e_ind e)\<rparr>"

abbreviation upd_dir :: "nat \<Rightarrow> (directory \<Rightarrow> directory) \<Rightarrow> ext2 \<Rightarrow> ext2" where
  "upd_dir j f e \<equiv> e\<lparr>e_dir := (e_dir e)[j := f (e_dir e ! j)]\<rparr>"

text \<open>\<^verbatim>\<open>strcpy(ext2->dir[j].name, s)\<close>.\<close>

definition dir_name :: "nat \<Rightarrow> string \<Rightarrow> ext2 \<Rightarrow> ext2 res" where
  "dir_name j s e = bindE (str_store s (de_name (e_dir e ! j))) (\<lambda>nm. Inr (upd_dir j (\<lambda>d. d\<lparr>de_name := nm\<rparr>) e))"

section \<open>Directories\<close>

definition first_item_len :: "string \<Rightarrow> nat" where
  "first_item_len path = length (takeWhile (\<lambda>c. c \<noteq> CHR ''/'') path)"

text \<open>The loops of \<^verbatim>\<open>ext2_readdir\<close>: over the slots of a block, counting the used ones, and over the blocks.\<close>

fun readdir_slots :: "nat list \<Rightarrow> directory list \<Rightarrow> int \<Rightarrow> int \<Rightarrow> int \<times> nat option" where
  "readdir_slots [] ds kth cnt = (cnt, None)"
| "readdir_slots (k # ks) ds kth cnt =
     (if de_inode (ds ! k) \<noteq> 0 then
        let cnt = cnt + 1 in
        if cnt = kth then (cnt, Some k) else readdir_slots ks ds kth cnt
      else readdir_slots ks ds kth cnt)"

fun readdir_loop :: "nat list \<Rightarrow> int \<Rightarrow> int \<Rightarrow> ext2 \<Rightarrow> (dirent option \<times> ext2) res" where
  "readdir_loop [] kth cnt e = Inr (None, e)"
| "readdir_loop (i # is) kth cnt e =
     bindE (ind_blk i e) (\<lambda>b.
     let e = ext2_rd_dir b e in
     (case readdir_slots [0..<DIR_AMUT] (e_dir e) kth cnt of
        (cnt, Some k) \<Rightarrow>
          let d = e_dir e ! k in
          Inr (Some \<lparr>d_name = str_load (de_name d), d_ridx = unat (de_inode d), d_mode = de_mode d\<rparr>, e)
      | (cnt, None) \<Rightarrow> readdir_loop is kth cnt e))"

definition ext2_readdir :: "u32 \<Rightarrow> int \<Rightarrow> ext2 \<Rightarrow> (dirent option \<times> ext2) res" where
  "ext2_readdir ridx kth e =
     (let e = ext2_rd_ind ridx e in readdir_loop [0..<unat (i_blocks (e_ind e))] kth 0 e)"

text \<open>
  The entry the loop of \<^verbatim>\<open>ext2_reserch_file\<close> stops at: the first used one whose mode lacks a bit of \<open>mode\<close>
  and whose name agrees with the first item of the path.
\<close>

definition reserch_match :: "string \<Rightarrow> u32 \<Rightarrow> directory \<Rightarrow> bool" where
  "reserch_match path mode d \<longleftrightarrow>
     \<not> (de_inode d = 0 \<or> (de_mode d OR mode) = de_mode d \<or>
        strncmp_list (str_load (de_name d)) path (first_item_len path) \<noteq> 0)"

fun reserch_blocks :: "string \<Rightarrow> u32 \<Rightarrow> nat list \<Rightarrow> ext2 \<Rightarrow> ((nat \<times> nat) option \<times> ext2) res" where
  "reserch_blocks path mode [] e = Inr (None, e)"
| "reserch_blocks path mode (j # js) e =
     bindE (ind_blk j e) (\<lambda>b.
     let e = ext2_rd_dir b e in
     (case first_idx (\<lambda>k. reserch_match path mode (e_dir e ! k)) 0 DIR_AMUT of
        Some k \<Rightarrow> Inr (Some (j, k), e)
      | None \<Rightarrow> reserch_blocks path mode js e))"

function ext2_reserch_file :: "string \<Rightarrow> u32 \<Rightarrow> ext2 \<Rightarrow> ((u32 \<times> nat \<times> nat) option \<times> ext2) res" where
  "ext2_reserch_file path mode e =
     (let e = ext2_rd_ind (current_dir e) e in
      bindE (reserch_blocks path mode [0..<unat (i_blocks (e_ind e))] e) (\<lambda>(found, e).
      case found of
        None \<Rightarrow> Inr (None, e)
      | Some (j, k) \<Rightarrow>
          let n = de_inode (e_dir e ! k); e = e\<lparr>current_dir := n\<rparr> in
          if first_item_len path = length path then Inr (Some (n, j, k), e)
          else ext2_reserch_file (drop (first_item_len path + 1) path) mode e))"
  by pat_completeness auto
termination
proof (relation "measure (\<lambda>(path, mode, e). length path)", goal_cases)
  case (2 path mode)
  then show ?case
    using length_takeWhile_le [of "\<lambda>c. c \<noteq> CHR ''/''" path] by (auto simp: first_item_len_def)
qed simp

definition ext2_search_file :: "u32 \<Rightarrow> ext2 \<Rightarrow> bool" where
  "ext2_search_file idx e \<longleftrightarrow> (\<exists>i < MAX_OPEN_FILE_AMUT. file_open_table e ! i = idx)"

definition ext2_cd :: "string \<Rightarrow> ext2 \<Rightarrow> ext2 res" where
  "ext2_cd dirname e =
     (let dirname = (if dirname = ''../'' then ''..'' else dirname);
          dirname = (if dirname = ''./'' then ''.'' else dirname)
      in
      bindE (ext2_reserch_file dirname TYPE_DIR e) (\<lambda>(found, e).
      case found of
        Some (i, _, _) \<Rightarrow> Inr (e\<lparr>current_dir := i\<rparr>)
      | None \<Rightarrow> Inr e))"

section \<open>Files\<close>

text \<open>
  The inner loop of \<^verbatim>\<open>ext2_read\<close> over the positions \<open>js\<close> of a block, with the bytes delivered so far; the
  flag tells that the function returned from inside the loop.
\<close>

fun read_bytes :: "nat list \<Rightarrow> nat \<Rightarrow> u64 \<Rightarrow> u32 \<Rightarrow> ext2 \<Rightarrow> u8 list \<Rightarrow> (bool \<times> u8 list) res" where
  "read_bytes [] base offset len e out = Inr (False, out)"
| "read_bytes (j # js) base offset len e out =
     (if of_nat (length out) = len \<or> of_nat (length out) + offset = ucast (i_size (e_ind e)) then Inr (True, out)
      else
        bindE (guardE OutOfBounds (j + base < length (datablockbuf e))) (\<lambda>_.
        read_bytes js base offset len e (out @ [datablockbuf e ! (j + base)])))"

fun read_blocks :: "nat list \<Rightarrow> nat \<Rightarrow> nat \<Rightarrow> u64 \<Rightarrow> u32 \<Rightarrow> ext2 \<Rightarrow> u8 list \<Rightarrow> (u8 list \<times> ext2) res" where
  "read_blocks [] skip first offset len e out = Inr (out, e)"
| "read_blocks (i # is) skip first offset len e out =
     bindE (ind_blk i e) (\<lambda>b.
     let e = ext2_rd_datablock b e;
         js = [0..<unat (i_size (e_ind e) - of_nat (i * BLK_SIZE))]
     in
     bindE (read_bytes js (if i = skip then first else 0) offset len e out) (\<lambda>(done, out).
     if done then Inr (out, e) else read_blocks is skip first offset len e out))"

definition ext2_read :: "u32 \<Rightarrow> u64 \<Rightarrow> u32 \<Rightarrow> ext2 \<Rightarrow> (u8 list \<times> ext2) res" where
  "ext2_read ridx offset len e =
     (let skip_blocks = ucast (offset div of_nat BLK_SIZE) :: u32;
          first_offset = ucast offset - skip_blocks * of_nat BLK_SIZE :: u32;
          e = ext2_rd_ind ridx e
      in read_blocks [unat skip_blocks..<unat (i_blocks (e_ind e))] (unat skip_blocks) (unat first_offset) offset len e [])"

text \<open>The block count is brought to \<open>need\<close>: one block at a time, from above or from below.\<close>

function grow_blocks :: "nat \<Rightarrow> ext2 \<Rightarrow> ext2 res" where
  "grow_blocks need e =
     (let n = unat (i_blocks (e_ind e)) in
      if n < need then
        bindE (guardE OutOfBounds (n < EXT2_N_BLOCKS)) (\<lambda>_.
        bindE (ext2_alloc_block e) (\<lambda>(b, e).
        bindE (set_ind_blk n b e) (\<lambda>e.
        let e = upd_ind (\<lambda>i. i\<lparr>i_blocks := of_nat (n + 1)\<rparr>) e in
        grow_blocks need e)))
      else Inr e)"
  by pat_completeness auto
termination
proof (relation "measure (\<lambda>(need, e). need - unat (i_blocks (e_ind e)))", goal_cases)
  case (2 need e n u be b e1 e2 e3)
  then have "n < 12" by (simp add: EXT2_N_BLOCKS_def res_iff)
  then have "unat (of_nat (n + 1) :: u32) = n + 1" by (intro unat_of_nat_u32) simp
  with 2 show ?case by simp
qed simp

function shrink_blocks :: "nat \<Rightarrow> ext2 \<Rightarrow> ext2 res" where
  "shrink_blocks need e =
     (let n = unat (i_blocks (e_ind e)) in
      if need < n then
        let e = upd_ind (\<lambda>i. i\<lparr>i_blocks := i_blocks i - 1\<rparr>) e in
        bindE (ind_blk (n - 1) e) (\<lambda>b.
        bindE (ext2_remove_block b e) (\<lambda>e1.
        shrink_blocks need (e1\<lparr>e_ind := e_ind e\<rparr>)))
      else Inr e)"
  by pat_completeness auto
termination
proof (relation "measure (\<lambda>(need, e). unat (i_blocks (e_ind e)))", goal_cases)
  case (2 need e n e1 b e2)
  then have "i_blocks (e_ind e) \<noteq> 0" by auto
  with 2 show ?case by (simp add: unat_minus_one)
qed simp

text \<open>
  The three copy loops of \<^verbatim>\<open>ext2_write\<close>: the first and the middle blocks are filled to their end or to
  the end of the data; in the last block the bound of the loop shrinks as \<^verbatim>\<open>ret\<close> grows.
\<close>

function write_fill :: "nat \<Rightarrow> nat \<Rightarrow> nat \<Rightarrow> u8 list \<Rightarrow> u8 list \<Rightarrow> (nat \<times> u8 list) res" where
  "write_fill k ret len buf blk =
     (if ret < len \<and> k < BLK_SIZE then
        bindE (guardE OutOfBounds (ret < length buf \<and> k < length blk)) (\<lambda>_.
        write_fill (k + 1) (ret + 1) len buf (blk[k := buf ! ret]))
      else Inr (ret, blk))"
  by pat_completeness auto
termination
  by (relation "measure (\<lambda>(k, ret, len, buf, blk). len - ret)") auto

function write_last :: "nat \<Rightarrow> nat \<Rightarrow> nat \<Rightarrow> u8 list \<Rightarrow> u8 list \<Rightarrow> (nat \<times> u8 list) res" where
  "write_last k ret len buf blk =
     (if k < len - ret then
        bindE (guardE OutOfBounds (ret < length buf \<and> k < length blk)) (\<lambda>_.
        write_last (k + 1) (ret + 1) len buf (blk[k := buf ! ret]))
      else Inr (ret, blk))"
  by pat_completeness auto
termination
  by (relation "measure (\<lambda>(k, ret, len, buf, blk). len - ret)") auto

declare write_fill.simps [simp del] write_last.simps [simp del]

fun write_blocks :: "nat list \<Rightarrow> nat \<Rightarrow> nat \<Rightarrow> nat \<Rightarrow> u8 list \<Rightarrow> nat \<Rightarrow> ext2 \<Rightarrow> nat \<Rightarrow> (nat \<times> ext2) res" where
  "write_blocks [] skip first need buf len e ret = Inr (ret, e)"
| "write_blocks (n # ns) skip first need buf len e ret =
     bindE (ind_blk n e) (\<lambda>b.
     let e = ext2_rd_datablock b e in
     bindE (if n = skip then write_fill first ret len buf (datablockbuf e)
            else if n \<noteq> need - 1 then write_fill 0 ret len buf (datablockbuf e)
            else write_last 0 ret len buf (datablockbuf e)) (\<lambda>(ret, blk).
     write_blocks ns skip first need buf len (ext2_wr_datablock b (e\<lparr>datablockbuf := blk\<rparr>)) ret))"

text \<open>
  Block numbers are \<^verbatim>\<open>int\<close>s computed from 64-bit offsets; a negative first block is an access outside
  \<^verbatim>\<open>block\<close>.
\<close>

definition ext2_write :: "u32 \<Rightarrow> u64 \<Rightarrow> u8 list \<Rightarrow> u32 \<Rightarrow> ext2 \<Rightarrow> (nat \<times> ext2) res" where
  "ext2_write ridx offset buf len e =
     (let skip_blocks = ucast (offset div of_nat BLK_SIZE) :: u32;
          first_offset = ucast offset - skip_blocks * of_nat BLK_SIZE :: u32;
          need_blocks = ucast ((ucast len + offset + of_nat (BLK_SIZE - 1)) div of_nat BLK_SIZE) :: u32;
          e = ext2_rd_ind ridx e
      in
      if i_mode (e_ind e) AND WR_ABLE = 0 then Inr (0, e)
      else
        bindE (if i_blocks (e_ind e) \<le> need_blocks then grow_blocks (unat need_blocks) e
               else shrink_blocks (unat need_blocks) e) (\<lambda>e.
        bindE (guardE OutOfBounds (0 \<le> sint skip_blocks \<or> sint need_blocks \<le> sint skip_blocks)) (\<lambda>_.
        bindE (write_blocks [nat (sint skip_blocks)..<nat (sint need_blocks)] (unat skip_blocks) (unat first_offset)
          (unat need_blocks) buf (unat len) e 0) (\<lambda>(ret, e).
        let e = upd_ind (\<lambda>i. i\<lparr>i_size := ucast offset + len\<rparr>) e;
            e = ext2_wr_ind ridx e
        in Inr (ret, e)))))"

section \<open>Creating and removing\<close>

definition ext2_ind_prepare :: "u32 \<Rightarrow> u32 \<Rightarrow> u32 \<Rightarrow> ext2 \<Rightarrow> ext2 res" where
  "ext2_ind_prepare idx par mode e =
     (let e = ext2_rd_ind idx e in
      bindE (if mode AND TYPE_DIR \<noteq> 0 then
          let e = upd_ind (\<lambda>i. i\<lparr>i_size := of_nat (2 * DIR_SIZE), i_blocks := 1\<rparr>) e in
          bindE (ext2_alloc_block e) (\<lambda>(b, e).
          bindE (set_ind_blk 0 b e) (\<lambda>e.
          let e = upd_dir 0 (\<lambda>d. d\<lparr>de_inode := idx\<rparr>) e;
              e = upd_dir 1 (\<lambda>d. d\<lparr>de_inode := par\<rparr>) e;
              e = upd_dir 0 (\<lambda>d. d\<lparr>de_mode := TYPE_DIR\<rparr>) (upd_dir 1 (\<lambda>d. d\<lparr>de_mode := TYPE_DIR\<rparr>) e);
              e = fold (\<lambda>k. upd_dir k (\<lambda>d. d\<lparr>de_inode := 0\<rparr>)) [2..<DIR_AMUT] e
          in
          bindE (dir_name 0 ''.'' e) (\<lambda>e.
          bindE (dir_name 1 ''..'' e) (\<lambda>e.
          bindE (ind_blk 0 e) (\<lambda>b.
          let e = ext2_wr_dir b e in
          Inr (upd_ind (\<lambda>i. i\<lparr>i_mode := mode\<rparr>) e))))))
        else if mode AND TYPE_FILE \<noteq> 0 then
          Inr (upd_ind (\<lambda>i. i\<lparr>i_size := 0, i_blocks := 0, i_mode := mode\<rparr>) e)
        else Inl AssertFail) (\<lambda>e.
      Inr (ext2_wr_ind idx e)))"

text \<open>The search of \<^verbatim>\<open>ext2_create\<close> for a free entry of the directory: block index and slot.\<close>

fun create_seek :: "nat list \<Rightarrow> ext2 \<Rightarrow> ((nat \<times> nat) option \<times> ext2) res" where
  "create_seek [] e = Inr (None, e)"
| "create_seek (i # is) e =
     bindE (ind_blk i e) (\<lambda>b.
     let e = ext2_rd_dir b e in
     (case first_idx (\<lambda>j. de_inode (e_dir e ! j) = 0) 0 DIR_AMUT of
        Some j \<Rightarrow> Inr (Some (i, j), e)
      | None \<Rightarrow> create_seek is e))"

text \<open>The entry \<open>j\<close> for a new file, shared by the two branches.\<close>

definition create_entry :: "nat \<Rightarrow> string \<Rightarrow> u32 \<Rightarrow> ext2 \<Rightarrow> (u32 \<times> ext2) res" where
  "create_entry j name mode e =
     bindE (ext2_alloc_inode e) (\<lambda>(idx, e).
     let e = upd_dir j (\<lambda>d. d\<lparr>de_inode := idx\<rparr>) e;
         e = upd_dir j (\<lambda>d. d\<lparr>de_mode := mode\<rparr>) e;
         e = upd_dir j (\<lambda>d. d\<lparr>de_name_len := of_nat (length name)\<rparr>) e
     in
     bindE (dir_name j name e) (\<lambda>e. Inr (idx, e)))"

definition ext2_create :: "u32 \<Rightarrow> string \<Rightarrow> u32 \<Rightarrow> ext2 \<Rightarrow> (u32 \<times> ext2) res" where
  "ext2_create ridx name mode e =
     (let e = ext2_rd_ind ridx e in
      bindE (assertE (i_size (e_ind e) < 4096)) (\<lambda>_.
      bindE (if i_size (e_ind e) \<noteq> i_blocks (e_ind e) * of_nat BLK_SIZE then
          bindE (create_seek [0..<unat (i_blocks (e_ind e))] e) (\<lambda>(found, e).
          case found of
            None \<Rightarrow> Inl OutOfBounds
          | Some (i, j) \<Rightarrow>
              bindE (create_entry j name mode e) (\<lambda>(idx, e).
              bindE (ind_blk i e) (\<lambda>b. Inr (idx, ext2_wr_dir b e))))
        else
          let n = unat (i_blocks (e_ind e)) in
          bindE (ext2_alloc_block e) (\<lambda>(b, e).
          bindE (set_ind_blk n b e) (\<lambda>e.
          let e = upd_ind (\<lambda>i. i\<lparr>i_blocks := i_blocks i + 1\<rparr>) e in
          bindE (ind_blk n e) (\<lambda>b.
          let e = ext2_rd_dir b e in
          bindE (create_entry 0 name mode e) (\<lambda>(idx, e).
          let e = fold (\<lambda>i. upd_dir i (\<lambda>d. d\<lparr>de_inode := 0\<rparr>)) [1..<DIR_AMUT] e in
          bindE (ind_blk n e) (\<lambda>b. Inr (idx, ext2_wr_dir b e))))))) (\<lambda>(idx, e).
      let e = upd_ind (\<lambda>i. i\<lparr>i_size := i_size i + of_nat DIR_SIZE\<rparr>) e;
          e = ext2_wr_ind ridx e
      in
      bindE (ext2_ind_prepare idx ridx mode e) (\<lambda>e. Inr (idx, e)))))"

text \<open>
  The search of \<^verbatim>\<open>ext2_remove\<close>: the first entry of a block with the name, used or not; \<^verbatim>\<open>k == -1\<close> is the
  sign that there was none.
\<close>

fun remove_seek :: "string \<Rightarrow> nat list \<Rightarrow> ext2 \<Rightarrow> ((nat \<times> nat) option \<times> ext2) res" where
  "remove_seek name [] e = Inr (None, e)"
| "remove_seek name (i # is) e =
     bindE (ind_blk i e) (\<lambda>b.
     let e = ext2_rd_dir b e in
     (case first_idx (\<lambda>j. strcmp_list (str_load (de_name (e_dir e ! j))) name = 0) 0 DIR_AMUT of
        Some j \<Rightarrow> if de_inode (e_dir e ! j) \<noteq> -1 then Inr (Some (i, j), e) else remove_seek name is e
      | None \<Rightarrow> remove_seek name is e))"

text \<open>The loop that gives back the blocks of a removed file.\<close>

fun remove_blocks :: "nat list \<Rightarrow> ext2 \<Rightarrow> ext2 res" where
  "remove_blocks [] e = Inr e"
| "remove_blocks (m # ms) e =
     bindE (ind_blk m e) (\<lambda>b.
     bindE (ext2_remove_block b e) (\<lambda>e.
     bindE (set_ind_blk m 0 e) (\<lambda>e. remove_blocks ms e)))"

text \<open>
  The common end of both branches: the inode is written and given back, the entry \<open>j\<close> cleared, the
  directory buffer written to block \<open>i\<close> of the inode in the buffer, and the directory's size reduced.
\<close>

definition remove_finish :: "u32 \<Rightarrow> nat \<Rightarrow> nat \<Rightarrow> ext2 \<Rightarrow> ext2 res" where
  "remove_finish ridx i j e =
     (let e = ext2_wr_ind (de_inode (e_dir e ! j)) e in
      bindE (ext2_remove_inode (de_inode (e_dir e ! j)) e) (\<lambda>e.
      let e = upd_dir j (\<lambda>d. d\<lparr>de_inode := 0\<rparr>) e in
      bindE (ind_blk i e) (\<lambda>b.
      let e = ext2_wr_dir b e;
          e = ext2_rd_ind ridx e;
          e = upd_ind (\<lambda>x. x\<lparr>i_size := i_size x - of_nat DIR_SIZE\<rparr>) e
      in Inr (ext2_wr_ind ridx e))))"

definition ext2_remove :: "u32 \<Rightarrow> string \<Rightarrow> u32 \<Rightarrow> ext2 \<Rightarrow> (int \<times> ext2) res" where
  "ext2_remove ridx name mode e =
     (let e = ext2_rd_ind ridx e in
      bindE (remove_seek name [0..<unat (i_blocks (e_ind e))] e) (\<lambda>(found, e).
      case found of
        None \<Rightarrow> Inr (1, e)
      | Some (i, j) \<Rightarrow>
          let e = ext2_rd_ind (de_inode (e_dir e ! j)) e in
          if mode AND TYPE_DIR \<noteq> 0 then
            if i_size (e_ind e) = of_nat (2 * DIR_SIZE) then
              bindE (assertE (i_blocks (e_ind e) = 1)) (\<lambda>_.
              let e = upd_ind (\<lambda>x. x\<lparr>i_size := 0, i_blocks := 0\<rparr>) e in
              bindE (ind_blk 0 e) (\<lambda>b.
              bindE (ext2_remove_block b e) (\<lambda>e.
              bindE (remove_finish ridx i j e) (\<lambda>e. Inr (0, e)))))
            else Inr (1, e)
          else
            bindE (remove_blocks [0..<unat (i_blocks (e_ind e))] e) (\<lambda>e.
            bindE (remove_finish ridx i j e) (\<lambda>e. Inr (0, e)))))"

section \<open>Initialisation\<close>

text \<open>\<^verbatim>\<open>memset(ext2, 0, sizeof(ext2_t))\<close> with the device attached.\<close>

definition ext2_0 :: "(nat \<Rightarrow> u8) \<Rightarrow> ext2" where
  "ext2_0 disk = \<lparr>e_sb = dec_sb (replicate SB_SIZE 0), e_gdt = dec_gd (replicate GD_SIZE 0),
     e_ind = dec_ind (replicate IND_SIZE 0), e_dir = dec_dir (replicate BLK_SIZE 0),
     blockbitmapbuf = replicate BLK_SIZE 0, inodebitmapbuf = replicate BLK_SIZE 0, datablockbuf = replicate BLK_SIZE 0,
     last_alloc_block = 0, last_alloc_inode = 0, current_dir = 0,
     file_open_table = replicate MAX_OPEN_FILE_AMUT 0, e_disk = disk\<rparr>"

definition hello_str :: string where
  "hello_str = ''#include <iostream> '' @ [CHR 0x0A] @ ''using namespace std;'' @ [CHR 0x0A] @ ''int main(){'' @ [CHR 0x0A] @
     ''  cout << '' @ [CHR 0x22] @ ''hello, world!'' @ [CHR 0x22] @ '' << endl;'' @ [CHR 0x0A] @ ''  return 0;'' @ [CHR 0x0A] @
     ''}'' @ [CHR 0x0A]"

definition label_str :: string where
  "label_str = ''This is a label!'' @ [CHR 0x0A]"

definition write_string :: "u32 \<Rightarrow> string \<Rightarrow> ext2 \<Rightarrow> (nat \<times> ext2) res" where
  "write_string idx s e = ext2_write idx 0 (map byte_of s) (of_nat (length s)) e"

definition ext2_init :: "string \<Rightarrow> (nat \<Rightarrow> u8) \<Rightarrow> ext2 res" where
  "ext2_init name disk =
     (let e = (ext2_0 disk)\<lparr>last_alloc_inode := 1, last_alloc_block := 0\<rparr>;
          e = e\<lparr>file_open_table := replicate MAX_OPEN_FILE_AMUT 0\<rparr>;
          e = ext2_rd_gd (ext2_rd_dir 0 (ext2_rd_ind 1 e));
          e = e\<lparr>e_gdt := (e_gdt e)\<lparr>block_bitmap := of_nat BLK_BITMAP, inode_bitmap := of_nat IND_BITMAP,
                inode_table := of_nat INDT_START, free_blocks_count := of_nat DATA_BLOCK_COUNT,
                free_inodes_count := of_nat INODE_TABLE_COUNT, used_dirs_count := 0\<rparr>\<rparr>;
          e = ext2_rd_inodebitmap (ext2_rd_blockbitmap (ext2_wr_gd e));
          e = upd_ind (\<lambda>i. i\<lparr>i_mode := TYPE_DIR OR RD_ABLE OR WR_ABLE, i_blocks := 0, i_size := of_nat (2 * DIR_SIZE)\<rparr>) e
      in
      bindE (ext2_alloc_block e) (\<lambda>(b, e).
      bindE (set_ind_blk 0 b e) (\<lambda>e.
      let e = upd_ind (\<lambda>i. i\<lparr>i_blocks := i_blocks i + 1\<rparr>) e in
      bindE (ext2_alloc_inode e) (\<lambda>(root, e).
      let e = e\<lparr>current_dir := root\<rparr>;
          e = ext2_wr_ind root e;
          e = upd_dir 0 (\<lambda>d. d\<lparr>de_inode := root, de_name_len := 0\<rparr>) e;
          e = upd_dir 1 (\<lambda>d. d\<lparr>de_inode := root, de_name_len := 0\<rparr>) e
      in
      bindE (dir_name 0 ''.'' e) (\<lambda>e.
      bindE (dir_name 1 ''..'' e) (\<lambda>e.
      bindE (ind_blk 0 e) (\<lambda>b.
      let e = ext2_wr_dir b e in
      bindE (ext2_create (current_dir e) ''hello.cpp'' (TYPE_FILE OR RD_ABLE OR WR_ABLE) e) (\<lambda>(hello_cpp, e).
      bindE (write_string hello_cpp hello_str e) (\<lambda>(_, e).
      bindE (ext2_create (current_dir e) (name @ ''.txt'') (TYPE_FILE OR RD_ABLE OR WR_ABLE) e) (\<lambda>(label, e).
      bindE (write_string label label_str e) (\<lambda>(_, e). Inr e)))))))))))"

end
