(* ===== verification/Number_Pool.thy ===== *)
theory Number_Pool
  imports Prelude
begin

text \<open>
  The contract of a pool of numbers, as the file system uses its bitmaps for blocks and inodes: a number
  that is taken was free, a number that is given back is free again, and nothing else changes.  Programs
  that take and give back numbers never hold the same number twice.
\<close>

datatype pool_op = Take | Give nat

text \<open>A client runs operations and keeps the list of the numbers it holds; \<open>Give k\<close> gives back the number at position \<open>k\<close>.\<close>

primrec pool_run :: "('s \<Rightarrow> (nat \<times> 's) res) \<Rightarrow> (nat \<Rightarrow> 's \<Rightarrow> 's res) \<Rightarrow> pool_op list \<Rightarrow> nat list \<Rightarrow> 's \<Rightarrow> (nat list \<times> 's) res" where
  "pool_run tk gv [] held s = Inr (held, s)"
| "pool_run tk gv (x # xs) held s =
     (case x of
        Take \<Rightarrow> bindE (tk s) (\<lambda>(n, s). pool_run tk gv xs (n # held) s)
      | Give k \<Rightarrow> bindE (gv (held ! k) s) (\<lambda>s. pool_run tk gv xs (take k held @ drop (Suc k) held) s))"

text \<open>The client gives back what it holds and never holds more than \<open>room\<close> numbers.\<close>

primrec pool_legal :: "nat \<Rightarrow> pool_op list \<Rightarrow> nat \<Rightarrow> bool" where
  "pool_legal room [] n \<longleftrightarrow> True"
| "pool_legal room (x # xs) n \<longleftrightarrow>
     (case x of Take \<Rightarrow> n < room \<and> pool_legal room xs (n + 1) | Give k \<Rightarrow> k < n \<and> pool_legal room xs (n - 1))"

locale number_pool =
  fixes cap :: nat and used :: "'s \<Rightarrow> nat set" and ok :: "'s \<Rightarrow> bool"
    and take_num :: "'s \<Rightarrow> (nat \<times> 's) res" and give_num :: "nat \<Rightarrow> 's \<Rightarrow> 's res"
  assumes used_cap: "used s \<subseteq> {..<cap}"
    and take_law: "ok s \<Longrightarrow> used s \<noteq> {..<cap} \<Longrightarrow>
      \<exists>n s'. take_num s = Inr (n, s') \<and> n < cap \<and> n \<notin> used s \<and> used s' = insert n (used s) \<and> ok s'"
    and give_law: "ok s \<Longrightarrow> n \<in> used s \<Longrightarrow> \<exists>s'. give_num n s = Inr s' \<and> used s' = used s - {n} \<and> ok s'"
begin

lemma used_finite: "finite (used s)"
  using used_cap finite_subset by blast

text \<open>
  A program that never holds more numbers than there were free ones runs to its end; what it holds are
  distinct numbers, none of them in use before, and everything else is in use as before.
\<close>

lemma pool_run_distinct:
  assumes "ok s" and "distinct held" and "used s = base \<union> set held" and "base \<inter> set held = {}"
    and "pool_legal (cap - card base) xs (length held)"
  shows "\<exists>held' s'. pool_run take_num give_num xs held s = Inr (held', s') \<and> ok s' \<and> distinct held' \<and> used s' = base \<union> set held' \<and>
    base \<inter> set held' = {}"
  using assms
proof (induction xs arbitrary: held s)
  case Nil
  then show ?case by simp
next
  case (Cons x xs)
  have fin: "finite base" using used_finite [of s] Cons.prems(3) by simp
  show ?case
  proof (cases x)
    case Take
    with Cons.prems(5) have "length held < cap - card base" by simp
    moreover have "card (used s) = card base + length held"
      using Cons.prems(2,3,4) fin by (simp add: card_Un_disjoint distinct_card)
    ultimately have "card (used s) \<noteq> cap" by linarith
    then have "used s \<noteq> {..<cap}" by (metis card_lessThan)
    from take_law [OF Cons.prems(1) this] obtain n s' where
      t: "take_num s = Inr (n, s')" "n \<notin> used s" "used s' = insert n (used s)" "ok s'" by blast
    have "\<exists>held' t'. pool_run take_num give_num xs (n # held) s' = Inr (held', t') \<and> ok t' \<and> distinct held' \<and>
        used t' = base \<union> set held' \<and> base \<inter> set held' = {}"
    proof (rule Cons.IH)
      show "ok s'" by (rule t)
      show "distinct (n # held)" using t(2) Cons.prems(2,3) by simp
      show "used s' = base \<union> set (n # held)" using t(3) Cons.prems(3) by simp
      show "base \<inter> set (n # held) = {}" using t(2) Cons.prems(3,4) by simp
      show "pool_legal (cap - card base) xs (length (n # held))" using Cons.prems(5) Take by simp
    qed
    then show ?thesis using Take t by simp
  next
    case (Give k)
    with Cons.prems have k: "k < length held" by simp
    let ?h = "take k held @ drop (Suc k) held"
    have h: "held = take k held @ held ! k # drop (Suc k) held" using k by (rule id_take_nth_drop)
    have d: "distinct (take k held @ held ! k # drop (Suc k) held)" using Cons.prems(2) h by simp
    then have dh: "distinct ?h" and no: "held ! k \<notin> set ?h" by auto
    have sh: "set held = insert (held ! k) (set ?h)" by (subst h) auto
    from give_law [OF Cons.prems(1), of "held ! k"] obtain s' where
      g: "give_num (held ! k) s = Inr s'" "used s' = used s - {held ! k}" "ok s'"
      using Cons.prems(3) k by auto
    have u: "used s' = base \<union> set ?h" using g(2) Cons.prems(3,4) sh no by auto
    have "\<exists>held' t'. pool_run take_num give_num xs ?h s' = Inr (held', t') \<and> ok t' \<and> distinct held' \<and>
        used t' = base \<union> set held' \<and> base \<inter> set held' = {}"
    proof (rule Cons.IH)
      show "base \<inter> set ?h = {}" using Cons.prems(4) sh by blast
      have "length ?h = length held - 1" using k by simp
      then show "pool_legal (cap - card base) xs (length ?h)" using Cons.prems(5) Give by simp
    qed (use g u dh in simp_all)
    then show ?thesis using Give g by simp
  qed
qed

end

end
