(* ===== verification/Ext2_Bitmap.thy ===== *)
theory Ext2_Bitmap
  imports Ext2 Number_Pool
begin

text \<open>
  The bitmaps of the file system: the search finds a clear bit and sets exactly it, giving back clears
  exactly it, and so the two allocation functions implement pools of numbers.
\<close>

section \<open>Bits of a bitmap\<close>

definition bit_at :: "u8 list \<Rightarrow> nat \<Rightarrow> bool" where
  "bit_at bm n \<longleftrightarrow> bit (bm ! (n div 8)) (7 - n mod 8)"

lemma bit_at_upd:
  assumes "c < length bm" and "n div 8 < length bm"
  shows "bit_at (bm[c := x]) n \<longleftrightarrow> (if n div 8 = c then bit x (7 - n mod 8) else bit_at bm n)"
  using assms by (auto simp: bit_at_def)

lemma byte_not_full:
  assumes "(b :: u8) \<noteq> 0xff"
  shows "\<exists>i < 8. \<not> bit b i"
proof (rule ccontr)
  assume "\<not> ?thesis"
  then have all: "\<forall>i < 8. bit b i" by simp
  have "b = 0xff"
  proof (rule bit_word_eqI)
    fix n assume "n < LENGTH(8)"
    then have "n < 8" by simp
    then have "n \<in> {0, 1, 2, 3, 4, 5, 6, 7}" by auto
    then show "bit b n \<longleftrightarrow> bit (0xff :: u8) n" using all by (auto simp: bit_numeral_rec)
  qed
  with assms show False by simp
qed

lemma seek_byte_finds:
  assumes "length bm = BLK_SIZE" and "cur < BLK_SIZE" and "k < BLK_SIZE" and "bm ! k \<noteq> 0xff"
    and "d = (k + BLK_SIZE - cur) mod BLK_SIZE" and "d < fuel"
  shows "\<exists>c < BLK_SIZE. seek_byte fuel bm cur = Inr c \<and> bm ! c \<noteq> 0xff"
  using assms
proof (induction d arbitrary: cur fuel)
  case 0
  then have "cur = k"
    by (cases "cur \<le> k") (auto simp: BLK_SIZE_def Suc_diff_le mod_if split: if_splits)
  with 0 show ?case by (cases fuel) auto
next
  case (Suc d)
  then obtain f where f: "fuel = Suc f" "d < f" by (cases fuel) auto
  show ?case
  proof (cases "bm ! cur = 0xff")
    case True
    let ?n = "if cur = BLK_SIZE - 1 then 0 else cur + 1"
    have "d = (k + BLK_SIZE - ?n) mod BLK_SIZE"
      using Suc.prems(2,3,5) by (auto simp: BLK_SIZE_def mod_if split: if_splits)
    with Suc.prems f Suc.IH [of ?n f] have "\<exists>c < BLK_SIZE. seek_byte f bm ?n = Inr c \<and> bm ! c \<noteq> 0xff"
      by (auto simp: BLK_SIZE_def)
    with True f Suc.prems(1,2) show ?thesis by simp
  qed (use Suc.prems f in auto)
qed

lemma seek_byte_full:
  assumes "length bm = BLK_SIZE" and "cur < BLK_SIZE" and "\<forall>k < BLK_SIZE. bm ! k = 0xff"
  shows "seek_byte fuel bm cur = Inl Diverge"
  using assms
proof (induction fuel arbitrary: cur)
  case (Suc fuel)
  then show ?case by (auto simp: BLK_SIZE_def)
qed simp

lemma seek_bit_finds:
  assumes "i \<le> j" and "j < 8" and "\<not> bit b i" and "j < fuel"
  shows "\<exists>m \<le> j. seek_bit fuel b (2 ^ j) (7 - j) = (2 ^ m, 7 - m) \<and> \<not> bit b m"
  using assms
proof (induction j arbitrary: fuel)
  case 0
  then obtain f where "fuel = Suc f" by (cases fuel) auto
  moreover have "(ucast b AND (2 :: u32) ^ 0 = 0)"
    using 0 by (simp add: and_exp_eq_0_iff_not_bit bit_simps del: power_0)
  ultimately show ?case using 0 by simp
next
  case (Suc j)
  then obtain f where f: "fuel = Suc f" "j < f" by (cases fuel) auto
  have iff: "(ucast b AND (2 :: u32) ^ Suc j = 0) \<longleftrightarrow> \<not> bit b (Suc j)"
    using Suc.prems(2) by (auto simp: and_exp_eq_0_iff_not_bit bit_simps simp del: power_Suc)
  show ?case
  proof (cases "bit b (Suc j)")
    case True
    with Suc.prems have "i \<le> j" by (metis le_SucE)
    with Suc.IH [of f] Suc.prems f obtain m where
      m: "m \<le> j" "seek_bit f b (2 ^ j) (7 - j) = (2 ^ m, 7 - m)" "\<not> bit b m" by auto
    have "(2 :: u32) ^ Suc j div 2 = 2 ^ j"
      using Suc.prems(2) unat_pow_u32 [of "Suc j"] unat_pow_u32 [of j]
      by (simp add: word_unat_eq_iff unat_div del: power_Suc) simp
    moreover have "7 - Suc j + 1 = 7 - j" using Suc.prems(2) by simp
    ultimately show ?thesis using True f iff m by (auto simp del: power_Suc intro!: exI [of _ m])
  next
    case False
    then show ?thesis using f iff by (auto simp del: power_Suc)
  qed
qed

lemma add_clear_bit:
  assumes "i < 8" and "\<not> bit (b :: u8) i"
  shows "ucast (ucast b + 2 ^ i :: u32) = b OR 2 ^ i"
proof -
  have "ucast (ucast b + 2 ^ i :: u32) = b + 2 ^ i"
  proof -
    have "\<And>x y :: int. (x mod 256 + y) mod 4294967296 mod 256 = (x + y) mod 256"
      by (simp add: mod_mod_cancel mod_add_left_eq)
    then show ?thesis by transfer (simp add: take_bit_eq_mod)
  qed
  also have "\<dots> = b OR 2 ^ i"
    using assms by (intro disjunctive_add) (auto simp: bit_simps)
  finally show ?thesis .
qed

lemma bit_clear_mask:
  assumes "k < 8" and "i < 8"
  shows "bit (clear_mask k) i \<longleftrightarrow> i \<noteq> 7 - k"
proof -
  have "\<forall>k \<in> set [0..<8]. \<forall>i \<in> set [0..<8]. bit (clear_mask k) i \<longleftrightarrow> i \<noteq> 7 - k" by code_simp
  with assms show ?thesis by simp
qed

lemma bit_place: "m = n \<longleftrightarrow> m div 8 = n div 8 \<and> 7 - m mod 8 = 7 - n mod (8 :: nat)"
proof
  assume "m div 8 = n div 8 \<and> 7 - m mod 8 = 7 - n mod 8"
  moreover have "m mod 8 \<le> 7" "n mod 8 \<le> 7" using mod_less_divisor [of 8 m] mod_less_divisor [of 8 n] by auto
  ultimately have "m div 8 = n div 8" "m mod 8 = n mod 8" by linarith+
  then show "m = n" by (metis div_mult_mod_eq)
qed simp

lemma place_split: "k < 8 \<Longrightarrow> (c * 8 + k) div 8 = c \<and> (c * 8 + k) mod 8 = (k :: nat)"
  by simp

text \<open>Taking a number: one that was clear, and it alone is set.\<close>

lemma bitmap_take_finds:
  assumes len: "length bm = BLK_SIZE" and start: "unat start < BLK_SIZE" and ex: "n < 8 * BLK_SIZE" "\<not> bit_at bm n"
  shows "\<exists>pos bm'. bitmap_take bm start = Inr (pos, bm') \<and> pos < 8 * BLK_SIZE \<and> \<not> bit_at bm pos \<and>
    length bm' = BLK_SIZE \<and> (\<forall>m < 8 * BLK_SIZE. bit_at bm' m \<longleftrightarrow> m = pos \<or> bit_at bm m)"
proof -
  have "bm ! (n div 8) \<noteq> 0xff"
  proof
    assume "bm ! (n div 8) = 0xff"
    with ex(2) have "\<not> bit (0xff :: u8) (7 - n mod 8)" by (simp add: bit_at_def)
    moreover have "n mod 8 \<in> {0, 1, 2, 3, 4, 5, 6, 7}" using mod_less_divisor [of 8 n] by auto
    ultimately show False by (auto simp: bit_numeral_rec)
  qed
  moreover have "n div 8 < BLK_SIZE" using ex(1) by simp
  moreover have "x mod BLK_SIZE < BLK_SIZE + 1" for x
    using mod_less_divisor [of BLK_SIZE x] by (simp add: BLK_SIZE_def)
  ultimately obtain c where
    c: "c < BLK_SIZE" "seek_byte (BLK_SIZE + 1) bm (unat start) = Inr c" "bm ! c \<noteq> 0xff"
    using seek_byte_finds [OF len start _ _ refl] by blast
  from byte_not_full [OF c(3)] obtain i where "i < 8" "\<not> bit (bm ! c) i" by blast
  with seek_bit_finds [of i 7 "bm ! c" 9] obtain j where
    "j \<le> 7" and j': "seek_bit 9 (bm ! c) 0x80 0 = (2 ^ j, 7 - j)" "\<not> bit (bm ! c) j" by auto
  then have j: "j < 8" "seek_bit 9 (bm ! c) 0x80 0 = (2 ^ j, 7 - j)" "\<not> bit (bm ! c) j" by simp_all
  let ?pos = "c * 8 + (7 - j)"
  let ?bm = "bm[c := bm ! c OR 2 ^ j]"
  have "?pos mod 8 = (7 - j) mod 8" "?pos div 8 = c + (7 - j) div 8" by (rule mod_mult_self3, rule div_mult_self3) simp
  then have pos: "?pos div 8 = c" "7 - ?pos mod 8 = j" using j(1) by auto
  have "bit_at ?bm m \<longleftrightarrow> m = ?pos \<or> bit_at bm m" if "m < 8 * BLK_SIZE" for m
  proof -
    have "m = ?pos \<longleftrightarrow> m div 8 = c \<and> 7 - m mod 8 = j"
      using bit_place [of m ?pos] unfolding pos .
    then show ?thesis
      using that c(1) len j(1) by (simp add: bit_at_upd bit_or_iff bit_exp_iff) (auto simp: bit_at_def)
  qed
  moreover have "bitmap_take bm start = Inr (?pos, ?bm)"
    using c j add_clear_bit [OF j(1,3)] by (simp add: bitmap_take_def)
  moreover have "\<not> bit_at bm ?pos" unfolding bit_at_def pos by (rule j(3))
  moreover have "?pos < 8 * BLK_SIZE" using c(1) j(1) by simp
  ultimately show ?thesis using len by auto
qed

lemma bitmap_take_full:
  assumes "length bm = BLK_SIZE" and "unat start < BLK_SIZE" and "\<forall>k < BLK_SIZE. bm ! k = 0xff"
  shows "bitmap_take bm start = Inl Diverge"
  using seek_byte_full [OF assms] by (simp add: bitmap_take_def)

text \<open>Giving back a number clears its bit and no other.\<close>

lemma bitmap_drop_clears:
  assumes "length bm = BLK_SIZE" and "unat n < 8 * BLK_SIZE"
  shows "\<exists>bm'. bitmap_drop bm n = Inr bm' \<and> length bm' = BLK_SIZE \<and>
    (\<forall>m < 8 * BLK_SIZE. bit_at bm' m \<longleftrightarrow> m \<noteq> unat n \<and> bit_at bm m)"
proof -
  let ?t = "unat n div 8"
  have t: "unat (n div 8) = ?t" "unat (n mod 8) = unat n mod 8" by (simp_all add: unat_div unat_mod)
  have "?t < length bm" using assms by simp
  moreover have "bit_at (bm[?t := bm ! ?t AND clear_mask (unat n mod 8)]) m \<longleftrightarrow> m \<noteq> unat n \<and> bit_at bm m"
    if "m < 8 * BLK_SIZE" for m
  proof -
    have "m = unat n \<longleftrightarrow> m div 8 = ?t \<and> 7 - m mod 8 = 7 - unat n mod 8"
      by (rule bit_place)
    moreover have "m div 8 < length bm" using that assms(1) by simp
    ultimately show ?thesis
      using \<open>?t < length bm\<close> by (simp add: bit_at_upd bit_clear_mask bit_and_iff) (auto simp: bit_at_def)
  qed
  ultimately show ?thesis using assms t by (simp add: bitmap_drop_def Let_def)
qed

section \<open>The pools of blocks and inodes\<close>

text \<open>The numbers in use according to a bitmap on the disk.\<close>

definition marked :: "nat \<Rightarrow> ext2 \<Rightarrow> nat set" where
  "marked area e = {n. n < 8 * BLK_SIZE \<and> bit_at (dev_read area BLK_SIZE (e_disk e)) n}"

definition blocks_ok :: "ext2 \<Rightarrow> bool" where
  "blocks_ok e \<longleftrightarrow> length (enc_gd (e_gdt e)) = GD_SIZE \<and> unat (last_alloc_block e) < 8 * BLK_SIZE \<and>
     unat (free_blocks_count (e_gdt e)) = 8 * BLK_SIZE - card (marked BLK_BITMAP e)"

definition inodes_ok :: "ext2 \<Rightarrow> bool" where
  "inodes_ok e \<longleftrightarrow> length (enc_gd (e_gdt e)) = GD_SIZE \<and> unat (last_alloc_inode e - 1) < 8 * BLK_SIZE \<and>
     unat (free_inodes_count (e_gdt e)) = 8 * BLK_SIZE - card (marked IND_BITMAP e)"

lemma marked_sub: "marked area e \<subseteq> {..<8 * BLK_SIZE}"
  by (auto simp: marked_def)

lemma marked_finite: "finite (marked area e)"
  using marked_sub finite_subset by blast

lemma marked_card: "card (marked area e) \<le> 8 * BLK_SIZE"
  using card_mono [OF _ marked_sub] by simp

lemma marked_full: "marked area e \<noteq> {..<8 * BLK_SIZE} \<longleftrightarrow> card (marked area e) < 8 * BLK_SIZE"
proof
  assume "marked area e \<noteq> {..<8 * BLK_SIZE}"
  then have "marked area e \<subset> {..<8 * BLK_SIZE}" using marked_sub by blast
  then show "card (marked area e) < 8 * BLK_SIZE" using psubset_card_mono [of "{..<8 * BLK_SIZE}"] by simp
qed (metis card_lessThan less_irrefl)

lemma gd_length_upd [simp]:
  "length (enc_gd (g\<lparr>free_blocks_count := x\<rparr>)) = length (enc_gd g)"
  "length (enc_gd (g\<lparr>free_inodes_count := y\<rparr>)) = length (enc_gd g)"
  by (simp_all add: enc_gd_def)

text \<open>What is on disk at a bitmap after it and the group descriptor were written.\<close>

lemma dread_bitmap:
  assumes "length gd = GD_SIZE" and "length bm = BLK_SIZE" and "a \<in> {BLK_BITMAP, IND_BITMAP}" and "b \<in> {BLK_BITMAP, IND_BITMAP}"
  shows "dev_read a BLK_SIZE (dev_write GDT_START gd (dev_write b bm d)) = (if a = b then bm else dev_read a BLK_SIZE d)"
proof -
  have "dev_read a BLK_SIZE (dev_write GDT_START gd (dev_write b bm d)) = dev_read a BLK_SIZE (dev_write b bm d)"
    using assms by (intro flat.dread_other) (auto simp: ext2_consts)
  also have "\<dots> = (if a = b then bm else dev_read a BLK_SIZE d)"
    using assms flat.dread_same [of b bm d] flat.dread_other [of a BLK_SIZE b bm d] by (auto simp: ext2_consts)
  finally show ?thesis .
qed

lemma unat_dec16: "unat (w :: u16) = n \<Longrightarrow> 0 < n \<Longrightarrow> unat (w - 1) = n - 1"
  by (metis One_nat_def gr_implies_not0 unat_minus_one unsigned_0)

lemma unat_inc16: "unat (w :: u16) = n \<Longrightarrow> n < 4096 \<Longrightarrow> unat (w + 1) = n + 1"
  by (simp add: unat_word_ariths)

lemma ext2_alloc_block_takes:
  assumes lst: "unat (last_alloc_block e) < 8 * BLK_SIZE" and gd: "length (enc_gd (e_gdt e)) = GD_SIZE"
    and room: "marked BLK_BITMAP e \<noteq> {..<8 * BLK_SIZE}" and nz: "free_blocks_count (e_gdt e) \<noteq> 0"
  shows "\<exists>b e'. ext2_alloc_block e = Inr (b, e') \<and> unat b < 8 * BLK_SIZE \<and> unat b \<notin> marked BLK_BITMAP e \<and>
    marked BLK_BITMAP e' = insert (unat b) (marked BLK_BITMAP e) \<and> marked IND_BITMAP e' = marked IND_BITMAP e \<and>
    free_blocks_count (e_gdt e') = free_blocks_count (e_gdt e) - 1 \<and> last_alloc_block e' = b \<and> length (enc_gd (e_gdt e')) = GD_SIZE"
proof -
  let ?bm = "dev_read BLK_BITMAP BLK_SIZE (e_disk e)"
  from room marked_sub obtain n where n: "n < 8 * BLK_SIZE" "\<not> bit_at ?bm n"
    by (auto simp: marked_def)
  have start: "unat (last_alloc_block e div 8) < BLK_SIZE" using lst by (auto simp: unat_div BLK_SIZE_def)
  from bitmap_take_finds [OF dev_read_length start n] obtain pos bm where
    t: "bitmap_take ?bm (last_alloc_block e div 8) = Inr (pos, bm)" "pos < 8 * BLK_SIZE" "\<not> bit_at ?bm pos"
      "length bm = BLK_SIZE" "\<forall>m < 8 * BLK_SIZE. bit_at bm m \<longleftrightarrow> m = pos \<or> bit_at ?bm m"
    by blast
  let ?g = "(e_gdt e)\<lparr>free_blocks_count := free_blocks_count (e_gdt e) - 1\<rparr>"
  let ?e = "e\<lparr>blockbitmapbuf := bm, last_alloc_block := of_nat pos, e_gdt := ?g,
    e_disk := dev_write GDT_START (enc_gd ?g) (dev_write BLK_BITMAP bm (e_disk e))\<rparr>"
  have run: "ext2_alloc_block e = Inr (of_nat pos, ?e)"
    using t(1) nz by (simp add: ext2_alloc_block_def ext2_rd_blockbitmap_def ext2_wr_blockbitmap_def ext2_wr_gd_def)
  have pos: "unat (of_nat pos :: u32) = pos" using t(2) by (intro unat_of_nat_u32) (simp add: BLK_SIZE_def)
  have mb: "marked BLK_BITMAP ?e = insert pos (marked BLK_BITMAP e)"
    using t gd by (auto simp: marked_def dread_bitmap)
  have mi: "marked IND_BITMAP ?e = marked IND_BITMAP e"
    using t gd by (simp add: marked_def dread_bitmap) (simp add: ext2_consts)
  have np: "pos \<notin> marked BLK_BITMAP e" using t(3) by (simp add: marked_def)
  show ?thesis using run pos mb mi np t(2) gd by auto
qed

lemma ext2_alloc_block_pool:
  assumes ok: "blocks_ok e" and room: "marked BLK_BITMAP e \<noteq> {..<8 * BLK_SIZE}"
  shows "\<exists>b e'. ext2_alloc_block e = Inr (b, e') \<and> unat b < 8 * BLK_SIZE \<and> unat b \<notin> marked BLK_BITMAP e \<and>
    marked BLK_BITMAP e' = insert (unat b) (marked BLK_BITMAP e) \<and> marked IND_BITMAP e' = marked IND_BITMAP e \<and> blocks_ok e'"
proof -
  have cnt: "card (marked BLK_BITMAP e) < 8 * BLK_SIZE" using room marked_full by blast
  then have nz: "free_blocks_count (e_gdt e) \<noteq> 0" using ok by (auto simp: blocks_ok_def)
  from ext2_alloc_block_takes [OF _ _ room nz] ok obtain b e' where
    t: "ext2_alloc_block e = Inr (b, e')" "unat b < 8 * BLK_SIZE" "unat b \<notin> marked BLK_BITMAP e"
      "marked BLK_BITMAP e' = insert (unat b) (marked BLK_BITMAP e)" "marked IND_BITMAP e' = marked IND_BITMAP e"
      "free_blocks_count (e_gdt e') = free_blocks_count (e_gdt e) - 1" "last_alloc_block e' = b" "length (enc_gd (e_gdt e')) = GD_SIZE"
    unfolding blocks_ok_def by blast
  have "blocks_ok e'"
    using ok cnt t marked_finite unat_dec16 [of "free_blocks_count (e_gdt e)"] by (simp add: blocks_ok_def)
  with t show ?thesis by blast
qed

lemma ext2_alloc_inode_pool:
  assumes ok: "inodes_ok e" and room: "marked IND_BITMAP e \<noteq> {..<8 * BLK_SIZE}"
  shows "\<exists>b e'. ext2_alloc_inode e = Inr (b, e') \<and> unat (b - 1) < 8 * BLK_SIZE \<and> unat (b - 1) \<notin> marked IND_BITMAP e \<and>
    marked IND_BITMAP e' = insert (unat (b - 1)) (marked IND_BITMAP e) \<and> marked BLK_BITMAP e' = marked BLK_BITMAP e \<and> inodes_ok e'"
proof -
  let ?bm = "dev_read IND_BITMAP BLK_SIZE (e_disk e)"
  have cnt: "card (marked IND_BITMAP e) < 8 * BLK_SIZE" using room marked_full by blast
  from room marked_sub obtain n where n: "n < 8 * BLK_SIZE" "\<not> bit_at ?bm n"
    by (auto simp: marked_def)
  have start: "unat ((last_alloc_inode e - 1) div 8) < BLK_SIZE" using ok by (auto simp: inodes_ok_def unat_div BLK_SIZE_def)
  from bitmap_take_finds [OF dev_read_length start n] obtain pos bm where
    t: "bitmap_take ?bm ((last_alloc_inode e - 1) div 8) = Inr (pos, bm)" "pos < 8 * BLK_SIZE" "\<not> bit_at ?bm pos"
      "length bm = BLK_SIZE" "\<forall>m < 8 * BLK_SIZE. bit_at bm m \<longleftrightarrow> m = pos \<or> bit_at ?bm m"
    by blast
  let ?g = "(e_gdt e)\<lparr>free_inodes_count := free_inodes_count (e_gdt e) - 1\<rparr>"
  let ?e = "e\<lparr>inodebitmapbuf := bm, last_alloc_inode := of_nat pos + 1, e_gdt := ?g,
    e_disk := dev_write GDT_START (enc_gd ?g) (dev_write IND_BITMAP bm (e_disk e))\<rparr>"
  have nz: "free_inodes_count (e_gdt e) \<noteq> 0" using ok cnt by (auto simp: inodes_ok_def)
  then have run: "ext2_alloc_inode e = Inr (of_nat pos + 1, ?e)"
    using t(1) by (simp add: ext2_alloc_inode_def ext2_rd_inodebitmap_def ext2_wr_inodebitmap_def ext2_wr_gd_def)
  have pos: "unat (of_nat pos :: u32) = pos" using t(2) by (intro unat_of_nat_u32) (simp add: BLK_SIZE_def)
  have gd: "length (enc_gd ?g) = GD_SIZE" using ok by (simp add: inodes_ok_def)
  have mb: "marked IND_BITMAP ?e = insert pos (marked IND_BITMAP e)"
    using t gd by (auto simp: marked_def dread_bitmap)
  have mi: "marked BLK_BITMAP ?e = marked BLK_BITMAP e"
    using t gd by (simp add: marked_def dread_bitmap) (simp add: ext2_consts)
  have np: "pos \<notin> marked IND_BITMAP e" using t(3) by (simp add: marked_def)
  have "inodes_ok ?e"
    using ok cnt gd pos t(2) np marked_finite unat_dec16 [of "free_inodes_count (e_gdt e)"]
    by (simp add: inodes_ok_def mb)
  with run pos mb mi np t(2) show ?thesis by auto
qed

text \<open>Giving back.\<close>

lemma ext2_remove_block_pool:
  assumes ok: "blocks_ok e" and used: "unat b \<in> marked BLK_BITMAP e"
  shows "\<exists>e'. ext2_remove_block b e = Inr e' \<and> marked BLK_BITMAP e' = marked BLK_BITMAP e - {unat b} \<and>
    marked IND_BITMAP e' = marked IND_BITMAP e \<and> blocks_ok e'"
proof -
  let ?bm = "dev_read BLK_BITMAP BLK_SIZE (e_disk e)"
  have b: "unat b < 8 * BLK_SIZE" using used marked_sub by blast
  from bitmap_drop_clears [OF dev_read_length b] obtain bm where
    t: "bitmap_drop ?bm b = Inr bm" "length bm = BLK_SIZE" "\<forall>m < 8 * BLK_SIZE. bit_at bm m \<longleftrightarrow> m \<noteq> unat b \<and> bit_at ?bm m"
    by blast
  let ?g = "(e_gdt e)\<lparr>free_blocks_count := free_blocks_count (e_gdt e) + 1\<rparr>"
  let ?e = "e\<lparr>blockbitmapbuf := bm, e_gdt := ?g,
    e_disk := dev_write GDT_START (enc_gd ?g) (dev_write BLK_BITMAP bm (e_disk e))\<rparr>"
  have run: "ext2_remove_block b e = Inr ?e"
    using t(1) by (simp add: ext2_remove_block_def ext2_rd_blockbitmap_def ext2_wr_blockbitmap_def ext2_wr_gd_def)
  have gd: "length (enc_gd ?g) = GD_SIZE" using ok by (simp add: blocks_ok_def)
  have mb: "marked BLK_BITMAP ?e = marked BLK_BITMAP e - {unat b}"
    using t gd by (auto simp: marked_def dread_bitmap)
  have mi: "marked IND_BITMAP ?e = marked IND_BITMAP e"
    using t gd by (simp add: marked_def dread_bitmap) (simp add: ext2_consts)
  have "card (marked BLK_BITMAP e) > 0" using used marked_finite card_gt_0_iff by blast
  then have "blocks_ok ?e"
    using ok gd used marked_finite marked_card [of BLK_BITMAP e] unat_inc16 [of "free_blocks_count (e_gdt e)"]
    by (simp add: blocks_ok_def mb card_Diff_singleton BLK_SIZE_def del: card_gt_0_iff)
  with run mb mi show ?thesis by auto
qed

lemma ext2_remove_inode_pool:
  assumes ok: "inodes_ok e" and used: "unat (b - 1) \<in> marked IND_BITMAP e"
  shows "\<exists>e'. ext2_remove_inode b e = Inr e' \<and> marked IND_BITMAP e' = marked IND_BITMAP e - {unat (b - 1)} \<and>
    marked BLK_BITMAP e' = marked BLK_BITMAP e \<and> inodes_ok e'"
proof -
  let ?bm = "dev_read IND_BITMAP BLK_SIZE (e_disk e)"
  have b: "unat (b - 1) < 8 * BLK_SIZE" using used marked_sub by blast
  from bitmap_drop_clears [OF dev_read_length b] obtain bm where
    t: "bitmap_drop ?bm (b - 1) = Inr bm" "length bm = BLK_SIZE" "\<forall>m < 8 * BLK_SIZE. bit_at bm m \<longleftrightarrow> m \<noteq> unat (b - 1) \<and> bit_at ?bm m"
    by blast
  let ?g = "(e_gdt e)\<lparr>free_inodes_count := free_inodes_count (e_gdt e) + 1\<rparr>"
  let ?e = "e\<lparr>inodebitmapbuf := bm, e_gdt := ?g,
    e_disk := dev_write GDT_START (enc_gd ?g) (dev_write IND_BITMAP bm (e_disk e))\<rparr>"
  have run: "ext2_remove_inode b e = Inr ?e"
    using t(1) by (simp add: ext2_remove_inode_def ext2_rd_inodebitmap_def ext2_wr_inodebitmap_def ext2_wr_gd_def)
  have gd: "length (enc_gd ?g) = GD_SIZE" using ok by (simp add: inodes_ok_def)
  have mb: "marked IND_BITMAP ?e = marked IND_BITMAP e - {unat (b - 1)}"
    using t gd by (auto simp: marked_def dread_bitmap)
  have mi: "marked BLK_BITMAP ?e = marked BLK_BITMAP e"
    using t gd by (simp add: marked_def dread_bitmap) (simp add: ext2_consts)
  have "card (marked IND_BITMAP e) > 0" using used marked_finite card_gt_0_iff by blast
  then have "inodes_ok ?e"
    using ok gd used marked_finite marked_card [of IND_BITMAP e] unat_inc16 [of "free_inodes_count (e_gdt e)"]
    by (simp add: inodes_ok_def mb card_Diff_singleton BLK_SIZE_def del: card_gt_0_iff)
  with run mb mi show ?thesis by auto
qed

text \<open>So both are pools; inodes are numbered from one.\<close>

interpretation block_pool: number_pool "8 * BLK_SIZE" "marked BLK_BITMAP" blocks_ok
  "\<lambda>e. bindE (ext2_alloc_block e) (\<lambda>(b, e). Inr (unat b, e))" "\<lambda>n. ext2_remove_block (of_nat n)"
proof (unfold_locales, goal_cases)
  case (1 s)
  show ?case by (rule marked_sub)
next
  case (2 s)
  from ext2_alloc_block_pool [OF this] show ?case by auto
next
  case (3 s n)
  then have "unat (of_nat n :: u32) = n"
    using marked_sub [of BLK_BITMAP s] by (intro unat_of_nat_u32) (auto simp: BLK_SIZE_def)
  with ext2_remove_block_pool [of s "of_nat n"] 3 show ?case by auto
qed

interpretation inode_pool: number_pool "8 * BLK_SIZE" "marked IND_BITMAP" inodes_ok
  "\<lambda>e. bindE (ext2_alloc_inode e) (\<lambda>(i, e). Inr (unat (i - 1), e))" "\<lambda>n. ext2_remove_inode (of_nat n + 1)"
proof (unfold_locales, goal_cases)
  case (1 s)
  show ?case by (rule marked_sub)
next
  case (2 s)
  from ext2_alloc_inode_pool [OF this] show ?case by auto
next
  case (3 s n)
  then have "unat (of_nat n :: u32) = n"
    using marked_sub [of IND_BITMAP s] by (intro unat_of_nat_u32) (auto simp: BLK_SIZE_def)
  with ext2_remove_inode_pool [of s "of_nat n + 1"] 3 show ?case by auto
qed

end
