(* ===== verification/Ext2_Correct.thy ===== *)
theory Ext2_Correct
  imports Ext2_Bitmap
begin

text \<open>
  What the file system promises: its structures survive the way to the disk and back, blocks and inodes
  are handed out once, a file reads back what was written to it, and a directory lists its entries.
\<close>

section \<open>Structures on disk\<close>

definition ind_wf :: "ind \<Rightarrow> bool" where
  "ind_wf i \<longleftrightarrow> length (i_block i) = EXT2_N_BLOCKS \<and> length (i_pad i) = 4"

definition dir_wf :: "directory \<Rightarrow> bool" where
  "dir_wf d \<longleftrightarrow> length (de_name d) = 16 \<and> length (de_par d) = 4"

lemma length_enc_block: "length (concat (map enc32 ws)) = 4 * length ws"
  by (induction ws) simp_all

lemma length_enc_ind: "ind_wf i \<Longrightarrow> length (enc_ind i) = IND_SIZE"
  by (simp add: enc_ind_def ind_wf_def length_enc_block ext2_consts)

lemma dec_enc_ind: "ind_wf i \<Longrightarrow> dec_ind (enc_ind i) = i"
proof -
  assume wf: "ind_wf i"
  have "map dec32 (chunks 4 EXT2_N_BLOCKS (concat (map enc32 (i_block i)))) = i_block i"
    using wf chunks_concat [of "map enc32 (i_block i)" 4] by (simp add: ind_wf_def comp_def)
  then show ?thesis
    using wf by (simp add: dec_ind_def enc_ind_def ind_wf_def length_enc_block EXT2_N_BLOCKS_def)
qed

lemma length_enc_dir1: "dir_wf d \<Longrightarrow> length (enc_dir1 d) = DIR_SIZE"
  by (simp add: enc_dir1_def dir_wf_def DIR_SIZE_def)

lemma dec_enc_dir1: "dir_wf d \<Longrightarrow> dec_dir1 (enc_dir1 d) = d"
  by (simp add: dec_dir1_def enc_dir1_def dir_wf_def)

lemma dec_enc_dir:
  assumes "length ds = DIR_AMUT" and "\<forall>d \<in> set ds. dir_wf d"
  shows "dec_dir (enc_dir ds) = ds"
proof -
  have "chunks DIR_SIZE DIR_AMUT (concat (map enc_dir1 ds)) = map enc_dir1 ds"
    using assms chunks_concat [of "map enc_dir1 ds" DIR_SIZE] by (simp add: length_enc_dir1)
  then show ?thesis using assms(2) by (simp add: dec_dir_def enc_dir_def map_idI dec_enc_dir1)
qed

lemma length_enc_dir:
  assumes "length ds = DIR_AMUT" and "\<forall>d \<in> set ds. dir_wf d"
  shows "length (enc_dir ds) = BLK_SIZE"
  using assms length_concat_const [of "map enc_dir1 ds" DIR_SIZE]
  by (simp add: enc_dir_def length_enc_dir1) (simp add: ext2_consts)

lemma dec_ind_wf: "length bs = IND_SIZE \<Longrightarrow> ind_wf (dec_ind bs)"
  by (simp add: dec_ind_def ind_wf_def chunks_def ext2_consts)

section \<open>Areas of the disk\<close>

definition inode_num :: "u32 \<Rightarrow> bool" where
  "inode_num r \<longleftrightarrow> 1 \<le> unat r \<and> unat r \<le> INODE_TABLE_COUNT"

definition block_num :: "u32 \<Rightarrow> bool" where
  "block_num b \<longleftrightarrow> unat b < DATA_BLOCK_COUNT"

text \<open>The inode and the data block a number stands for.\<close>

definition inode_at :: "u32 \<Rightarrow> (nat \<Rightarrow> u8) \<Rightarrow> ind" where
  "inode_at r d = dec_ind (dev_read (ind_offset r) IND_SIZE d)"

definition block_at :: "u32 \<Rightarrow> (nat \<Rightarrow> u8) \<Rightarrow> u8 list" where
  "block_at b d = dev_read (blk_offset b) BLK_SIZE d"

lemma length_block_at: "length (block_at b d) = BLK_SIZE"
  by (simp add: block_at_def)

lemma ind_offset_eq:
  assumes "inode_num r"
  shows "ind_offset r = INDT_START + (unat r - 1) * IND_SIZE"
proof -
  have r: "unat (r - 1) = unat r - 1" using assms by (subst unat_minus_one) (auto simp: inode_num_def)
  have m: "unat ((r - 1) * 64) = (unat r - 1) * 64"
    using assms r by (subst unat_mult_lem [THEN iffD1]) (auto simp: inode_num_def INODE_TABLE_COUNT_def)
  have "unat (2048 + (r - 1) * 64) = 2048 + (unat r - 1) * 64"
    using assms m by (subst unat_add_lem [THEN iffD1]) (auto simp: inode_num_def INODE_TABLE_COUNT_def)
  then show ?thesis by (simp add: ind_offset_def ext2_consts)
qed

lemma blk_offset_eq:
  assumes "block_num b"
  shows "blk_offset b = DATA_BLOCK + unat b * BLK_SIZE"
proof -
  have m: "unat (b * 512) = unat b * 512"
    using assms by (subst unat_mult_lem [THEN iffD1]) (auto simp: block_num_def DATA_BLOCK_COUNT_def)
  have "unat (264192 + b * 512) = 264192 + unat b * 512"
    using assms m by (subst unat_add_lem [THEN iffD1]) (auto simp: block_num_def DATA_BLOCK_COUNT_def)
  then show ?thesis by (simp add: blk_offset_def ext2_consts)
qed

lemma inode_at_wr_ind:
  assumes "inode_num r" and "inode_num r'" and "length bs = IND_SIZE"
  shows "inode_at r (dev_write (ind_offset r') bs d) = (if r = r' then dec_ind bs else inode_at r d)"
proof (cases "r = r'")
  case True
  then show ?thesis using assms(3) flat.dread_same [of "ind_offset r'" bs d] by (simp add: inode_at_def)
next
  case False
  then have "unat r \<noteq> unat r'" by (simp add: word_unat_eq_iff)
  then have "unat r < unat r' \<or> unat r' < unat r" by arith
  then have "dev_read (ind_offset r) IND_SIZE (dev_write (ind_offset r') bs d) = dev_read (ind_offset r) IND_SIZE d"
    using assms by (intro flat.dread_other) (auto simp: ind_offset_eq inode_num_def IND_SIZE_def)
  with False show ?thesis by (simp add: inode_at_def)
qed

lemma block_at_wr_blk:
  assumes "block_num b" and "block_num b'" and "length bs = BLK_SIZE"
  shows "block_at b (dev_write (blk_offset b') bs d) = (if b = b' then bs else block_at b d)"
proof (cases "b = b'")
  case True
  then show ?thesis using assms(3) flat.dread_same [of "blk_offset b'" bs d] by (simp add: block_at_def)
next
  case False
  then have "unat b \<noteq> unat b'" by (simp add: word_unat_eq_iff)
  then have "unat b < unat b' \<or> unat b' < unat b" by arith
  then have "dev_read (blk_offset b) BLK_SIZE (dev_write (blk_offset b') bs d) = dev_read (blk_offset b) BLK_SIZE d"
    using assms by (intro flat.dread_other) (auto simp: blk_offset_eq BLK_SIZE_def)
  with False show ?thesis by (simp add: block_at_def)
qed

lemma inode_at_wr_blk:
  "inode_num r \<Longrightarrow> block_num b \<Longrightarrow> inode_at r (dev_write (blk_offset b) bs d) = inode_at r d"
  unfolding inode_at_def
  by (subst flat.dread_other) (auto simp: ind_offset_eq blk_offset_eq inode_num_def ext2_consts)

lemma block_at_wr_ind:
  "inode_num r \<Longrightarrow> block_num b \<Longrightarrow> length bs = IND_SIZE \<Longrightarrow> block_at b (dev_write (ind_offset r) bs d) = block_at b d"
  unfolding block_at_def
  by (subst flat.dread_other) (auto simp: ind_offset_eq blk_offset_eq inode_num_def ext2_consts)

lemmas area_simps = inode_at_wr_ind block_at_wr_blk inode_at_wr_blk block_at_wr_ind

text \<open>The allocation functions write to the bitmaps and the group descriptor only.\<close>

lemma bitmap_take_length: "bitmap_take bm n = Inr (pos, bm') \<Longrightarrow> length bm' = length bm"
  by (cases "seek_byte (BLK_SIZE + 1) bm (unat n)") (auto simp: bitmap_take_def split: prod.splits)

lemma low_write:
  assumes "length gd = GD_SIZE" and "length bm = BLK_SIZE" and "a \<in> {BLK_BITMAP, IND_BITMAP}" and "INDT_START \<le> off"
  shows "dev_read off n (dev_write GDT_START gd (dev_write a bm d)) = dev_read off n d"
proof -
  have "dev_read off n (dev_write GDT_START gd (dev_write a bm d)) = dev_read off n (dev_write a bm d)"
    using assms by (intro flat.dread_other) (auto simp: ext2_consts)
  also have "\<dots> = dev_read off n d" using assms by (intro flat.dread_other) (auto simp: ext2_consts)
  finally show ?thesis .
qed

lemma ext2_alloc_block_frame:
  assumes run: "ext2_alloc_block e = Inr (b, e')" and gd: "length (enc_gd (e_gdt e)) = GD_SIZE"
  shows "e_ind e' = e_ind e \<and> e_dir e' = e_dir e \<and> datablockbuf e' = datablockbuf e \<and>
    (\<forall>off n. INDT_START \<le> off \<longrightarrow> dev_read off n (e_disk e') = dev_read off n (e_disk e))"
proof (cases "free_blocks_count (e_gdt e) = 0")
  case False
  with run obtain pos bm where
    t: "bitmap_take (dev_read BLK_BITMAP BLK_SIZE (e_disk e)) (last_alloc_block e div 8) = Inr (pos, bm)"
    and e': "e' = ext2_wr_gd (let e = ext2_wr_blockbitmap (e\<lparr>blockbitmapbuf := bm, last_alloc_block := of_nat pos\<rparr>)
      in e\<lparr>e_gdt := (e_gdt e)\<lparr>free_blocks_count := free_blocks_count (e_gdt e) - 1\<rparr>\<rparr>)"
    by (auto simp: ext2_alloc_block_def ext2_rd_blockbitmap_def ext2_wr_blockbitmap_def ext2_wr_gd_def res_iff Let_def)
  have "length bm = BLK_SIZE" using bitmap_take_length [OF t] by simp
  then show ?thesis
    using gd unfolding e' by (simp add: ext2_wr_gd_def ext2_wr_blockbitmap_def low_write)
qed (use run in \<open>simp add: ext2_alloc_block_def\<close>)

lemma inode_at_cong: "(\<And>off n. INDT_START \<le> off \<Longrightarrow> dev_read off n d' = dev_read off n d) \<Longrightarrow> inode_num r \<Longrightarrow> inode_at r d' = inode_at r d"
  by (simp add: inode_at_def ind_offset_eq)

lemma block_at_cong: "(\<And>off n. INDT_START \<le> off \<Longrightarrow> dev_read off n d' = dev_read off n d) \<Longrightarrow> block_num b \<Longrightarrow> block_at b d' = block_at b d"
  by (simp add: block_at_def blk_offset_eq ext2_consts)

section \<open>The copy loops\<close>

lemma copy_step:
  assumes "k < length blk" and "ret < length buf"
  shows "take (k + 1) (blk[k := buf ! ret]) @ take m (drop (ret + 1) buf) @ drop (k + 1 + m) (blk[k := buf ! ret]) =
    take k blk @ take (m + 1) (drop ret buf) @ drop (k + (m + 1)) blk"
proof -
  have "take (k + 1) (blk[k := buf ! ret]) = take k blk @ [buf ! ret]"
    using assms(1) by (simp add: take_Suc_conv_app_nth)
  moreover have "take (m + 1) (drop ret buf) = buf ! ret # take m (drop (ret + 1) buf)"
    using assms(2) by (simp add: Cons_nth_drop_Suc [symmetric])
  ultimately show ?thesis by simp
qed

lemma write_fill_run:
  assumes "length blk = BLK_SIZE" and "k \<le> BLK_SIZE" and "len \<le> length buf" and "ret \<le> len"
    and "m = min (len - ret) (BLK_SIZE - k)"
  shows "write_fill k ret len buf blk = Inr (ret + m, take k blk @ take m (drop ret buf) @ drop (k + m) blk)"
  using assms
proof (induction k ret len buf blk arbitrary: m rule: write_fill.induct)
  case (1 k ret len buf blk)
  show ?case
  proof (cases "ret < len \<and> k < BLK_SIZE")
    case True
    let ?m = "min (len - (ret + 1)) (BLK_SIZE - (k + 1))"
    have m: "m = ?m + 1" using True "1.prems"(5) by auto
    have "write_fill k ret len buf blk = write_fill (k + 1) (ret + 1) len buf (blk[k := buf ! ret])"
      using True "1.prems" by (simp add: write_fill.simps [of k])
    also have "\<dots> = Inr (ret + 1 + ?m, take (k + 1) (blk[k := buf ! ret]) @ take ?m (drop (ret + 1) buf) @
        drop (k + 1 + ?m) (blk[k := buf ! ret]))"
      by (rule "1.IH") (use True "1.prems"(1-4) in simp_all)
    finally show ?thesis using copy_step [of k blk ret buf ?m] True "1.prems"(1,3) unfolding m by simp
  next
    case False
    then have "m = 0" using "1.prems" by auto
    with False show ?thesis by (auto simp: write_fill.simps [of k])
  qed
qed

lemma write_last_run:
  assumes "length blk = BLK_SIZE" and "k + m \<le> BLK_SIZE" and "len \<le> length buf" and "ret \<le> len"
    and "m = (len - ret - k + 1) div 2"
  shows "write_last k ret len buf blk = Inr (ret + m, take k blk @ take m (drop ret buf) @ drop (k + m) blk)"
  using assms
proof (induction k ret len buf blk arbitrary: m rule: write_last.induct)
  case (1 k ret len buf blk)
  show ?case
  proof (cases "k < len - ret")
    case True
    let ?m = "(len - (ret + 1) - (k + 1) + 1) div 2"
    have "len - ret - k = len - (ret + 1) - (k + 1) + 2 \<or> len - ret - k = 1" using True by arith
    then have m: "m = ?m + 1" using "1.prems"(5) by auto
    have kr: "ret < length buf \<and> k < length blk" using True "1.prems" m by auto
    have "write_last k ret len buf blk = write_last (k + 1) (ret + 1) len buf (blk[k := buf ! ret])"
      using True kr by (simp add: write_last.simps [of k])
    also have "\<dots> = Inr (ret + 1 + ?m, take (k + 1) (blk[k := buf ! ret]) @ take ?m (drop (ret + 1) buf) @
        drop (k + 1 + ?m) (blk[k := buf ! ret]))"
      by (rule "1.IH") (use True kr "1.prems"(1-4) m in simp_all)
    finally show ?thesis using copy_step [of k blk ret buf ?m] kr m by simp
  next
    case False
    then have "m = 0" using "1.prems" by auto
    with False show ?thesis by (simp add: write_last.simps [of k])
  qed
qed

section \<open>Files of one block\<close>

declare grow_blocks.simps [simp del] shrink_blocks.simps [simp del]

text \<open>Making room for one block: the file keeps the block it has or gets a free one.\<close>

lemma grow_to_one:
  assumes ok: "blocks_ok e" and wf: "ind_wf (e_ind e)" and le: "unat (i_blocks (e_ind e)) \<le> 1"
    and has: "i_blocks (e_ind e) = 1 \<Longrightarrow> block_num (i_block (e_ind e) ! 0)"
    and room: "i_blocks (e_ind e) = 0 \<Longrightarrow> marked BLK_BITMAP e \<noteq> {..<8 * BLK_SIZE}"
  shows "\<exists>b e2. grow_blocks 1 e = Inr e2 \<and> block_num b \<and> e_ind e2 = (e_ind e)\<lparr>i_blocks := 1, i_block := (i_block (e_ind e))[0 := b]\<rparr> \<and>
    (i_blocks (e_ind e) = 1 \<longrightarrow> b = i_block (e_ind e) ! 0) \<and> (i_blocks (e_ind e) = 0 \<longrightarrow> unat b \<notin> marked BLK_BITMAP e) \<and>
    (\<forall>off n. INDT_START \<le> off \<longrightarrow> dev_read off n (e_disk e2) = dev_read off n (e_disk e))"
proof -
  have "i_blocks (e_ind e) = 0 \<or> i_blocks (e_ind e) = 1" using le by (auto simp: word_unat_eq_iff)
  then show ?thesis
  proof
    assume 1: "i_blocks (e_ind e) = 1"
    then show ?thesis using has by (intro exI [of _ "i_block (e_ind e) ! 0"] exI [of _ e]) (simp add: grow_blocks.simps)
  next
    assume 0: "i_blocks (e_ind e) = 0"
    from ext2_alloc_block_pool [OF ok room [OF 0]] obtain b e1 where
      a: "ext2_alloc_block e = Inr (b, e1)" "unat b < 8 * BLK_SIZE" "unat b \<notin> marked BLK_BITMAP e" by blast
    from ok have "length (enc_gd (e_gdt e)) = GD_SIZE" by (simp add: blocks_ok_def)
    note f = ext2_alloc_block_frame [OF a(1) this]
    have "0 < length (i_block (e_ind e1))" using wf f by (simp add: ind_wf_def EXT2_N_BLOCKS_def)
    then have g: "grow_blocks 1 e = Inr (e1\<lparr>e_ind := (e_ind e)\<lparr>i_blocks := 1, i_block := (i_block (e_ind e))[0 := b]\<rparr>\<rparr>)"
      using 0 a(1) f by (simp add: grow_blocks.simps [of "Suc 0"] set_ind_blk_def EXT2_N_BLOCKS_def)
    then show ?thesis
      using a(2,3) 0 f by (intro exI [of _ b] exI) (auto simp: block_num_def DATA_BLOCK_COUNT_def BLK_SIZE_def)
  qed
qed

text \<open>Block numbers of a range inside the first block.\<close>

lemma one_block_range:
  assumes "0 < unat len" and "unat offset + unat len \<le> BLK_SIZE"
  shows "(offset :: u64) div of_nat BLK_SIZE = 0"
    and "unat (ucast offset :: u32) = unat offset"
    and "ucast ((ucast (len :: u32) + offset + of_nat (BLK_SIZE - 1)) div of_nat BLK_SIZE) = (1 :: u32)"
proof -
  have o: "unat offset < 512" and l: "unat len \<le> 512" using assms by (auto simp: BLK_SIZE_def)
  show "offset div of_nat BLK_SIZE = 0" using o by (simp add: word_unat_eq_iff unat_div BLK_SIZE_def)
  show "unat (ucast offset :: u32) = unat offset"
    using o by (simp add: unsigned_ucast_eq take_bit_nat_eq_self)
  have lu: "unat (ucast len :: u64) = unat len" using l by (simp add: unsigned_ucast_eq take_bit_nat_eq_self)
  have s1: "unat (ucast len + offset) = unat len + unat offset"
    using o l lu by (subst unat_add_lem [THEN iffD1]) auto
  have s2: "unat (ucast len + offset + 511) = unat len + unat offset + 511"
    using o l s1 by (subst unat_add_lem [THEN iffD1]) auto
  have "(unat len + unat offset + 511) div 512 = 1" using assms by (simp add: BLK_SIZE_def)
  then have "(ucast len + offset + 511) div 512 = 1" using s2 by (simp add: word_unat_eq_iff unat_div)
  then show "ucast ((ucast len + offset + of_nat (BLK_SIZE - 1)) div of_nat BLK_SIZE) = (1 :: u32)"
    by (simp add: BLK_SIZE_def)
qed

text \<open>
  The bytes of the block after the write, and the loop of \<^verbatim>\<open>ext2_read\<close> over them: it stops after \<open>len\<close>
  bytes, which is where the file ends.
\<close>

definition patch :: "nat \<Rightarrow> u8 list \<Rightarrow> u8 list \<Rightarrow> u8 list" where
  "patch k bs blk = take k blk @ bs @ drop (k + length bs) blk"

lemma length_patch: "k + length bs \<le> length blk \<Longrightarrow> length (patch k bs blk) = length blk"
  by (simp add: patch_def)

lemma read_bytes_run:
  assumes size: "unat (i_size (e_ind e)) = unat offset + unat len" and bnd: "unat offset + unat len \<le> BLK_SIZE"
    and blk: "length (datablockbuf e) = BLK_SIZE" and N: "unat len \<le> N" and j: "length out = j" "j \<le> unat len"
  shows "\<exists>stop. read_bytes [j..<N] (unat offset) offset len e out =
    Inr (stop, out @ take (unat len - j) (drop (unat offset + j) (datablockbuf e)))"
  using j
proof (induction "unat len - j" arbitrary: j out)
  case 0
  then have j: "j = unat len" by simp
  then have "of_nat (length out) = len" using 0 by simp
  then show ?case using 0 j by (cases "j < N") (auto simp: upt_conv_Cons)
next
  case (Suc m)
  then have jl: "j < unat len" by simp
  have "unat len < 2 ^ 32" "unat offset \<le> 512" using bnd unsigned_less [of len] by (simp_all add: BLK_SIZE_def)
  then have small: "unat (of_nat j :: u32) = j" "unat (of_nat j :: u64) = j" "unat (of_nat j + offset) = j + unat offset"
    using jl bnd by (auto simp: unat_of_nat_u32 unsigned_of_nat take_bit_nat_eq_self BLK_SIZE_def unat_word_ariths)
  have "unat (ucast (i_size (e_ind e)) :: u64) = unat offset + unat len"
    using size bnd by (simp add: unsigned_ucast_eq take_bit_nat_eq_self BLK_SIZE_def)
  then have go: "of_nat (length out) \<noteq> len" "of_nat (length out) + offset \<noteq> ucast (i_size (e_ind e))"
    using jl small Suc.prems by (auto simp: word_unat_eq_iff)
  have js: "[j..<N] = j # [Suc j..<N]" using jl N by (intro upt_conv_Cons) simp
  have in_blk: "j + unat offset < length (datablockbuf e)" using jl bnd blk by simp
  have "\<exists>stop. read_bytes [Suc j..<N] (unat offset) offset len e (out @ [datablockbuf e ! (j + unat offset)]) =
      Inr (stop, (out @ [datablockbuf e ! (j + unat offset)]) @
        take (unat len - Suc j) (drop (unat offset + Suc j) (datablockbuf e)))"
    by (rule Suc.hyps(1)) (use Suc.hyps(2) Suc.prems jl in simp_all)
  moreover have "take (unat len - j) (drop (unat offset + j) (datablockbuf e)) =
      datablockbuf e ! (j + unat offset) # take (unat len - Suc j) (drop (unat offset + Suc j) (datablockbuf e))"
    using jl in_blk by (simp add: Suc_diff_Suc [symmetric] Cons_nth_drop_Suc [symmetric] add.commute)
  ultimately show ?case unfolding js using go in_blk by simp
qed

lemma ext2_read_one:
  assumes "i_blocks (inode_at r (e_disk e)) = 1" and "unat (i_size (inode_at r (e_disk e))) = unat offset + unat len"
    and "0 < unat len" and bnd: "unat offset + unat len \<le> BLK_SIZE"
  shows "\<exists>e'. ext2_read r offset len e =
    Inr (take (unat len) (drop (unat offset) (block_at (i_block (inode_at r (e_disk e)) ! 0) (e_disk e))), e')"
proof -
  let ?i = "inode_at r (e_disk e)"
  let ?e = "e\<lparr>e_ind := ?i, datablockbuf := block_at (i_block ?i ! 0) (e_disk e)\<rparr>"
  have wf: "ind_wf ?i" unfolding inode_at_def by (rule dec_ind_wf) simp
  have "\<exists>stop. read_bytes [0..<unat (i_size ?i)] (unat offset) offset len ?e [] =
      Inr (stop, [] @ take (unat len - 0) (drop (unat offset + 0) (datablockbuf ?e)))"
    by (rule read_bytes_run) (use assms in \<open>simp_all add: block_at_def\<close>)
  then obtain stop where r: "read_bytes [0..<unat (i_size ?i)] (unat offset) offset len ?e [] =
      Inr (stop, take (unat len) (drop (unat offset) (datablockbuf ?e)))" by auto
  have "ext2_read r offset len e = Inr (take (unat len) (drop (unat offset) (datablockbuf ?e)), ?e)"
    using r assms(1) wf one_block_range [OF assms(3,4)]
    by (simp add: ext2_read_def ext2_rd_ind_def ext2_rd_datablock_def ind_blk_def ind_wf_def EXT2_N_BLOCKS_def Let_def
        flip: inode_at_def block_at_def)
  then show ?thesis by auto
qed

text \<open>A file that can be written and needs at most one block.\<close>

definition small_file :: "u32 \<Rightarrow> ext2 \<Rightarrow> bool" where
  "small_file r e \<longleftrightarrow> inode_num r \<and> i_mode (inode_at r (e_disk e)) AND WR_ABLE \<noteq> 0 \<and>
     (i_blocks (inode_at r (e_disk e)) = 0 \<and> marked BLK_BITMAP e \<noteq> {..<8 * BLK_SIZE} \<or>
      i_blocks (inode_at r (e_disk e)) = 1 \<and> block_num (i_block (inode_at r (e_disk e)) ! 0))"

lemma ext2_write_one:
  assumes ok: "blocks_ok e" and fl: "small_file r e" and len: "0 < unat len" and bnd: "unat offset + unat len \<le> BLK_SIZE"
    and buf: "unat len \<le> length buf"
  defines "i \<equiv> inode_at r (e_disk e)"
  shows "\<exists>b e'. ext2_write r offset buf len e = Inr (unat len, e') \<and> block_num b \<and>
    (if i_blocks i = 0 then unat b \<notin> marked BLK_BITMAP e else b = i_block i ! 0) \<and>
    inode_at r (e_disk e') = i\<lparr>i_blocks := 1, i_block := (i_block i)[0 := b], i_size := ucast offset + len\<rparr> \<and>
    block_at b (e_disk e') = patch (unat offset) (take (unat len) buf) (block_at b (e_disk e)) \<and>
    (\<forall>r'. inode_num r' \<and> r' \<noteq> r \<longrightarrow> inode_at r' (e_disk e') = inode_at r' (e_disk e)) \<and>
    (\<forall>b'. block_num b' \<and> b' \<noteq> b \<longrightarrow> block_at b' (e_disk e') = block_at b' (e_disk e))"
proof -
  note rng = one_block_range [OF len bnd]
  have r: "inode_num r" using fl by (simp add: small_file_def)
  have wf: "ind_wf i" unfolding i_def inode_at_def by (rule dec_ind_wf) simp
  let ?e1 = "e\<lparr>e_ind := i\<rparr>"
  have ok1: "blocks_ok ?e1" using ok by (simp add: blocks_ok_def marked_def)
  have m1: "marked BLK_BITMAP ?e1 = marked BLK_BITMAP e" by (simp add: marked_def)
  have n1: "i_blocks i \<le> 1" using fl by (auto simp: small_file_def i_def)
  obtain b e2 where g: "grow_blocks 1 ?e1 = Inr e2" "block_num b"
      "e_ind e2 = i\<lparr>i_blocks := 1, i_block := (i_block i)[0 := b]\<rparr>"
    and src: "i_blocks i = 1 \<longrightarrow> b = i_block i ! 0" "i_blocks i = 0 \<longrightarrow> unat b \<notin> marked BLK_BITMAP e"
    and fr: "\<And>off n. INDT_START \<le> off \<Longrightarrow> dev_read off n (e_disk e2) = dev_read off n (e_disk e)"
    using grow_to_one [OF ok1] wf fl m1 by (fastforce simp: small_file_def simp flip: i_def)
  let ?old = "block_at b (e_disk e2)"
  let ?new = "patch (unat offset) (take (unat len) buf) ?old"
  let ?d1 = "dev_write (blk_offset b) ?new (e_disk e2)"
  let ?i = "i\<lparr>i_blocks := 1, i_block := (i_block i)[0 := b], i_size := ucast offset + len\<rparr>"
  let ?e = "e2\<lparr>datablockbuf := ?new, e_ind := ?i, e_disk := dev_write (ind_offset r) (enc_ind ?i) ?d1\<rparr>"
  have old: "length ?old = BLK_SIZE" "?old = block_at b (e_disk e)"
    using block_at_cong [OF fr g(2)] by (simp_all add: block_at_def)
  have new: "length ?new = BLK_SIZE" using old(1) bnd buf by (simp add: length_patch)
  have wi: "ind_wf ?i" using wf by (simp add: ind_wf_def)
  have fill: "write_fill (unat offset) 0 (unat len) buf ?old = Inr (unat len, ?new)"
    using write_fill_run [OF old(1) _ buf _ refl, of "unat offset" 0] bnd buf by (simp add: patch_def min_absorb1)
  have b0: "ind_blk 0 e2 = Inr b" using wf g(3) by (simp add: ind_blk_def ind_wf_def EXT2_N_BLOCKS_def)
  have run: "ext2_write r offset buf len e = Inr (unat len, ?e)"
    using fl g(1) rng b0 fill n1 g(3)
    by (simp add: ext2_write_def ext2_rd_ind_def small_file_def ext2_rd_datablock_def ext2_wr_datablock_def ext2_wr_ind_def
        Let_def i_def flip: inode_at_def block_at_def)
  have d: "e_disk ?e = dev_write (ind_offset r) (enc_ind ?i) ?d1" by simp
  have li: "length (enc_ind ?i) = IND_SIZE" using wi by (rule length_enc_ind)
  have "inode_at r (e_disk ?e) = ?i" unfolding d using r li dec_enc_ind [OF wi] by (simp add: inode_at_wr_ind)
  moreover have "block_at b (e_disk ?e) = ?new" unfolding d using r li new g(2) by (simp add: block_at_wr_ind block_at_wr_blk)
  moreover have "inode_at r' (e_disk ?e) = inode_at r' (e_disk e)" if "inode_num r'" "r' \<noteq> r" for r'
    unfolding d using r li g(2) that inode_at_cong [OF fr that(1)] by (simp add: inode_at_wr_ind inode_at_wr_blk)
  moreover have "block_at b' (e_disk ?e) = block_at b' (e_disk e)" if "block_num b'" "b' \<noteq> b" for b'
    unfolding d using r li new g(2) that block_at_cong [OF fr that(1)] by (simp add: block_at_wr_ind block_at_wr_blk)
  moreover have "if i_blocks i = 0 then unat b \<notin> marked BLK_BITMAP e else b = i_block i ! 0"
    using src fl by (auto simp: small_file_def simp flip: i_def)
  ultimately show ?thesis using run g(2) old(2) by (intro exI [of _ b] exI [of _ ?e]) auto
qed

section \<open>Results\<close>

text \<open>A disk whose bitmaps are clear and whose inode 5 is a writable file without blocks.\<close>

definition file5 :: ind where
  "file5 = \<lparr>i_mode = TYPE_FILE OR RD_ABLE OR WR_ABLE, i_blocks = 0, i_size = 0, i_block = replicate EXT2_N_BLOCKS 0, i_pad = replicate 4 0\<rparr>"

definition demo :: ext2 where
  "demo = (let e = ext2_0 (dev_write (ind_offset 5) (enc_ind file5) (\<lambda>_. 0)) in
     e\<lparr>e_gdt := (e_gdt e)\<lparr>free_blocks_count := of_nat DATA_BLOCK_COUNT, free_inodes_count := of_nat INODE_TABLE_COUNT\<rparr>,
       last_alloc_inode := 1\<rparr>)"

lemma inode_num_5: "inode_num 5"
  by (simp add: inode_num_def INODE_TABLE_COUNT_def)

lemma demo_inode: "inode_at 5 (e_disk demo) = file5"
  using inode_at_wr_ind [OF inode_num_5 inode_num_5, of "enc_ind file5"]
  by (simp add: demo_def ext2_0_def length_enc_ind dec_enc_ind ind_wf_def file5_def)

lemma demo_low: "off + n \<le> INDT_START \<Longrightarrow> dev_read off n (e_disk demo) = replicate n 0"
proof -
  assume le: "off + n \<le> INDT_START"
  have "dev_read off n (e_disk demo) = dev_read off n (\<lambda>_. 0)"
    unfolding demo_def ext2_0_def Let_def using le
    by (simp, intro flat.dread_other) (auto simp: ind_offset_eq [OF inode_num_5])
  then show ?thesis by (simp add: dev_read_def map_replicate_const)
qed

lemma demo_marked: "marked BLK_BITMAP demo = {}" "marked IND_BITMAP demo = {}"
  by (auto simp: marked_def demo_low ext2_consts bit_at_def)

lemma not_all_free: "{} \<noteq> {..<4096 :: nat}"
  by (metis lessThan_empty_iff zero_neq_numeral)

lemma demo_ok: "blocks_ok demo"
  unfolding blocks_ok_def demo_marked
  by (simp add: demo_def ext2_0_def enc_gd_def dec_gd_def ext2_consts)

lemma demo_file: "small_file 5 demo"
  by (simp add: small_file_def inode_num_5 demo_inode demo_marked) (simp add: file5_def BLK_SIZE_def not_all_free)

lemma ext2_write_then_read:
  assumes "blocks_ok e" and "small_file r e" and "0 < unat len" and "unat offset + unat len \<le> BLK_SIZE" and "unat len \<le> length buf"
  shows "\<exists>b e' e''. ext2_write r offset buf len e = Inr (unat len, e') \<and> ext2_read r offset len e' = Inr (take (unat len) buf, e'') \<and>
    (i_blocks (inode_at r (e_disk e)) = 0 \<longrightarrow> unat b \<notin> marked BLK_BITMAP e) \<and>
    (\<forall>r'. inode_num r' \<and> r' \<noteq> r \<longrightarrow> inode_at r' (e_disk e') = inode_at r' (e_disk e)) \<and>
    (\<forall>b'. block_num b' \<and> b' \<noteq> b \<longrightarrow> block_at b' (e_disk e') = block_at b' (e_disk e))"
proof -
  let ?i = "inode_at r (e_disk e)"
  from ext2_write_one [OF assms] obtain b e' where
    w: "ext2_write r offset buf len e = Inr (unat len, e')" "block_num b"
      "if i_blocks ?i = 0 then unat b \<notin> marked BLK_BITMAP e else b = i_block ?i ! 0"
      "inode_at r (e_disk e') = ?i\<lparr>i_blocks := 1, i_block := (i_block ?i)[0 := b], i_size := ucast offset + len\<rparr>"
      "block_at b (e_disk e') = patch (unat offset) (take (unat len) buf) (block_at b (e_disk e))"
      "\<forall>r'. inode_num r' \<and> r' \<noteq> r \<longrightarrow> inode_at r' (e_disk e') = inode_at r' (e_disk e)"
      "\<forall>b'. block_num b' \<and> b' \<noteq> b \<longrightarrow> block_at b' (e_disk e') = block_at b' (e_disk e)"
    by blast
  have "ind_wf ?i" unfolding inode_at_def by (rule dec_ind_wf) simp
  then have b0: "i_block (inode_at r (e_disk e')) ! 0 = b" using w(4) by (simp add: ind_wf_def EXT2_N_BLOCKS_def)
  have "unat (ucast offset + len :: u32) = unat offset + unat len"
    using one_block_range(2) [OF assms(3,4)] assms(4) by (subst unat_add_lem [THEN iffD1]) (auto simp: BLK_SIZE_def)
  then have sz: "i_blocks (inode_at r (e_disk e')) = 1" "unat (i_size (inode_at r (e_disk e'))) = unat offset + unat len"
    using w(4) by simp_all
  from ext2_read_one [OF sz assms(3,4)] obtain e'' where
    "ext2_read r offset len e' = Inr (take (unat len) (drop (unat offset) (block_at b (e_disk e'))), e'')" unfolding b0 by blast
  moreover have "take (unat len) (drop (unat offset) (block_at b (e_disk e'))) = take (unat len) buf"
    using assms(4,5) by (simp add: w(5) patch_def length_block_at)
  ultimately show ?thesis using w by (intro exI [of _ b] exI [of _ e'] exI [of _ e'']) auto
qed

text \<open>
  C7: a file reads back what was written to it.  For a writable file of at most one block, writing
  \<open>len\<close> bytes that end inside the first block succeeds, reading the same range then delivers exactly these
  bytes, a block that had to be allocated was free, and no other inode and no other data block changes.
\<close>

theorem ext2_write_read:
  assumes "blocks_ok e" and "small_file r e" and "0 < unat len" and "unat offset + unat len \<le> BLK_SIZE" and "unat len \<le> length buf"
  shows "\<exists>b e' e''. ext2_write r offset buf len e = Inr (unat len, e') \<and> ext2_read r offset len e' = Inr (take (unat len) buf, e'') \<and>
    (i_blocks (inode_at r (e_disk e)) = 0 \<longrightarrow> unat b \<notin> marked BLK_BITMAP e) \<and>
    (\<forall>r'. inode_num r' \<and> r' \<noteq> r \<longrightarrow> inode_at r' (e_disk e') = inode_at r' (e_disk e)) \<and>
    (\<forall>b'. block_num b' \<and> b' \<noteq> b \<longrightarrow> block_at b' (e_disk e') = block_at b' (e_disk e))"
  using ext2_write_then_read [OF assms] .

theorem ext2_write_read_witness:
  "\<exists>e' e''. ext2_write 5 100 (map byte_of ''hello'') 5 demo = Inr (5, e') \<and>
     ext2_read 5 100 5 e' = Inr (map byte_of ''hello'', e'')"
proof -
  have "\<exists>b e' e''. ext2_write 5 100 (map byte_of ''hello'') 5 demo = Inr (unat (5 :: u32), e') \<and>
      ext2_read 5 100 5 e' = Inr (take (unat (5 :: u32)) (map byte_of ''hello''), e'') \<and>
      (i_blocks (inode_at 5 (e_disk demo)) = 0 \<longrightarrow> unat b \<notin> marked BLK_BITMAP demo) \<and>
      (\<forall>r'. inode_num r' \<and> r' \<noteq> 5 \<longrightarrow> inode_at r' (e_disk e') = inode_at r' (e_disk demo)) \<and>
      (\<forall>b'. block_num b' \<and> b' \<noteq> b \<longrightarrow> block_at b' (e_disk e') = block_at b' (e_disk demo))"
    by (rule ext2_write_read [OF demo_ok demo_file]) (simp_all add: BLK_SIZE_def)
  then show ?thesis by auto
qed

text \<open>
  C13: blocks are handed out once.  A program of allocations and removals that never holds more blocks
  than there were free ones runs to its end, whatever the bitmap was; the blocks it holds then are
  distinct, none of them was in use before, and the bitmap marks exactly these and the old ones.
\<close>

theorem block_requests_distinct:
  assumes "blocks_ok e" and "pool_legal (8 * BLK_SIZE - card (marked BLK_BITMAP e)) xs 0"
  shows "\<exists>held e'. pool_run (\<lambda>e. bindE (ext2_alloc_block e) (\<lambda>(b, e). Inr (unat b, e))) (\<lambda>n. ext2_remove_block (of_nat n)) xs [] e =
      Inr (held, e') \<and> blocks_ok e' \<and> distinct held \<and> marked BLK_BITMAP e' = marked BLK_BITMAP e \<union> set held \<and>
      marked BLK_BITMAP e \<inter> set held = {}"
  using block_pool.pool_run_distinct [of e "[]" "marked BLK_BITMAP e" xs] assms by simp

theorem block_requests_distinct_witness:
  "\<exists>held e'. pool_run (\<lambda>e. bindE (ext2_alloc_block e) (\<lambda>(b, e). Inr (unat b, e))) (\<lambda>n. ext2_remove_block (of_nat n))
      [Take, Take, Give 1, Take] [] demo = Inr (held, e') \<and> distinct held \<and> marked BLK_BITMAP e' = set held"
  using block_requests_distinct [OF demo_ok, of "[Take, Take, Give 1, Take]"]
  by (simp add: demo_marked BLK_SIZE_def) blast

text \<open>
  C40: the outcome of \<^verbatim>\<open>ext2_alloc_block\<close> on every branch.  When the count of free blocks is zero it returns
  -1 and changes nothing; when the count is positive and the bitmap has a clear bit it returns the number
  of such a bit and marks exactly it; when the bitmap is full although the count is positive the search
  never ends.
\<close>

theorem ext2_alloc_block_outcome:
  assumes "unat (last_alloc_block e) < 8 * BLK_SIZE" and "length (enc_gd (e_gdt e)) = GD_SIZE"
  shows "if free_blocks_count (e_gdt e) = 0 then ext2_alloc_block e = Inr (-1, e)
    else if marked BLK_BITMAP e \<noteq> {..<8 * BLK_SIZE} then
      \<exists>b e'. ext2_alloc_block e = Inr (b, e') \<and> unat b < 8 * BLK_SIZE \<and> unat b \<notin> marked BLK_BITMAP e \<and>
        marked BLK_BITMAP e' = insert (unat b) (marked BLK_BITMAP e) \<and> marked IND_BITMAP e' = marked IND_BITMAP e \<and>
        free_blocks_count (e_gdt e') = free_blocks_count (e_gdt e) - 1
    else ext2_alloc_block e = Inl Diverge"
proof (cases "free_blocks_count (e_gdt e) = 0")
  case True
  then show ?thesis by (simp add: ext2_alloc_block_def)
next
  case nz: False
  show ?thesis
  proof (cases "marked BLK_BITMAP e = {..<8 * BLK_SIZE}")
    case False
    have "\<exists>b e'. ext2_alloc_block e = Inr (b, e') \<and> unat b < 8 * BLK_SIZE \<and> unat b \<notin> marked BLK_BITMAP e \<and>
        marked BLK_BITMAP e' = insert (unat b) (marked BLK_BITMAP e) \<and> marked IND_BITMAP e' = marked IND_BITMAP e \<and>
        free_blocks_count (e_gdt e') = free_blocks_count (e_gdt e) - 1"
      using ext2_alloc_block_takes [OF assms False nz] by blast
    with nz False show ?thesis by simp
  next
    case True
    let ?bm = "dev_read BLK_BITMAP BLK_SIZE (e_disk e)"
    have "?bm ! k = 0xff" if "k < BLK_SIZE" for k
    proof (rule ccontr)
      assume "?bm ! k \<noteq> 0xff"
      from byte_not_full [OF this] obtain i where i: "i < 8" "\<not> bit (?bm ! k) i" by blast
      have "(k * 8 + (7 - i)) div 8 = k" "7 - (k * 8 + (7 - i)) mod 8 = i" using i(1) place_split [of "7 - i" k] by auto
      with i(2) have "\<not> bit_at ?bm (k * 8 + (7 - i))" by (simp only: bit_at_def not_False_eq_True)
      moreover have "k * 8 + (7 - i) \<in> marked BLK_BITMAP e" unfolding True using that by simp
      ultimately show False by (simp add: marked_def)
    qed
    moreover have "unat (last_alloc_block e div 8) < BLK_SIZE" using assms(1) by (auto simp: unat_div BLK_SIZE_def)
    ultimately have "bitmap_take ?bm (last_alloc_block e div 8) = Inl Diverge" by (intro bitmap_take_full) simp_all
    then show ?thesis using nz True by (simp add: ext2_alloc_block_def ext2_rd_blockbitmap_def)
  qed
qed

theorem ext2_alloc_block_outcome_witness:
  "\<exists>b e'. ext2_alloc_block demo = Inr (b, e') \<and> marked BLK_BITMAP e' = {unat b}"
proof -
  have "free_blocks_count (e_gdt demo) \<noteq> 0" "unat (last_alloc_block demo) < 8 * BLK_SIZE"
    by (simp_all add: demo_def ext2_0_def DATA_BLOCK_COUNT_def BLK_SIZE_def)
  moreover have "marked BLK_BITMAP demo \<noteq> {..<8 * BLK_SIZE}" by (simp add: demo_marked not_all_free BLK_SIZE_def)
  ultimately show ?thesis
    using ext2_alloc_block_outcome [of demo] demo_ok demo_marked unfolding blocks_ok_def by auto
qed

text \<open>
  The last block of a longer write is filled to half only.  A write of more than one and at most two
  blocks to a file of two blocks stores the first block completely, but of the \<open>len - 512\<close> bytes of the
  second block only one half, because the loop compares its counter with the bytes that are left; the
  size of the file is set to \<open>len\<close> all the same.
\<close>

theorem ext2_write_loses_half:
  assumes "inode_num r" and "i_mode (inode_at r (e_disk e)) AND WR_ABLE \<noteq> 0" and two: "i_blocks (inode_at r (e_disk e)) = 2"
    and len: "512 < unat len" "unat len \<le> 1024" and buf: "unat len \<le> length buf"
    and blocks: "block_num b0" "block_num b1" "b0 \<noteq> b1" "i_block (inode_at r (e_disk e)) ! 0 = b0" "i_block (inode_at r (e_disk e)) ! 1 = b1"
  shows "\<exists>e'. ext2_write r 0 buf len e = Inr (512 + (unat len - 511) div 2, e') \<and> i_size (inode_at r (e_disk e')) = len \<and>
    block_at b0 (e_disk e') = take 512 buf \<and>
    block_at b1 (e_disk e') = patch 0 (take ((unat len - 511) div 2) (drop 512 buf)) (block_at b1 (e_disk e))"
proof -
  let ?i = "inode_at r (e_disk e)"
  let ?m = "(unat len - 511) div 2"
  have wf: "ind_wf ?i" unfolding inode_at_def by (rule dec_ind_wf) simp
  have lu: "unat (ucast len :: u64) = unat len" using len by (simp add: unsigned_ucast_eq take_bit_nat_eq_self)
  have "unat (ucast len + 0 + 511 :: u64) = unat len + 511"
    using lu len by (subst unat_add_lem [THEN iffD1]) auto
  moreover have "(unat len + 511) div 512 = 2" using len by simp
  ultimately have "(ucast len + 0 + 511 :: u64) div 512 = 2" by (simp add: word_unat_eq_iff unat_div)
  then have need: "ucast ((ucast len + 0 + of_nat (BLK_SIZE - 1)) div of_nat BLK_SIZE :: u64) = (2 :: u32)"
    by (simp add: BLK_SIZE_def)
  let ?e1 = "e\<lparr>e_ind := ?i\<rparr>"
  let ?n1 = "patch 0 (take ?m (drop 512 buf)) (block_at b1 (e_disk e))"
  let ?d1 = "dev_write (blk_offset b0) (take 512 buf) (e_disk e)"
  let ?d2 = "dev_write (blk_offset b1) ?n1 ?d1"
  let ?j = "?i\<lparr>i_size := len\<rparr>"
  have l0: "length (take 512 buf) = BLK_SIZE" using len buf by (simp add: BLK_SIZE_def)
  have l1: "length ?n1 = BLK_SIZE" using len buf by (subst length_patch) (simp_all add: length_block_at BLK_SIZE_def)
  have f0: "write_fill 0 0 (unat len) buf (block_at b0 (e_disk e)) = Inr (512, take 512 buf)"
    using write_fill_run [OF length_block_at _ buf _ refl, of 0 0 b0 "e_disk e"] len
    by (simp add: length_block_at BLK_SIZE_def)
  have b1: "block_at b1 ?d1 = block_at b1 (e_disk e)" using blocks l0 by (simp add: block_at_wr_blk)
  have f1: "write_last 0 512 (unat len) buf (block_at b1 (e_disk e)) = Inr (512 + ?m, ?n1)"
  proof -
    have "?m = (unat len - 512 - 0 + 1) div 2" using len by (simp add: Suc_diff_le)
    from write_last_run [OF length_block_at _ buf _ this, of b1 "e_disk e"] len buf show ?thesis
      by (simp add: patch_def BLK_SIZE_def min_absorb2)
  qed
  have n12: "length (i_block ?i) = 12" using wf by (simp add: ind_wf_def EXT2_N_BLOCKS_def)
  let ?e = "e\<lparr>e_ind := ?j, datablockbuf := ?n1, e_disk := dev_write (ind_offset r) (enc_ind ?j) ?d2\<rparr>"
  have "ext2_write r 0 buf len e = Inr (512 + ?m, ?e)"
    using assms(2) two need f0 f1 b1 blocks n12
    by (simp add: ext2_write_def ext2_rd_ind_def grow_blocks.simps ext2_rd_datablock_def ext2_wr_datablock_def ext2_wr_ind_def
        ind_blk_def Let_def upt_conv_Cons flip: inode_at_def block_at_def)
  moreover have wj: "ind_wf ?j" using wf by (simp add: ind_wf_def)
  ultimately show ?thesis
    using assms(1) blocks l0 l1 length_enc_ind [OF wj] dec_enc_ind [OF wj]
    by (intro exI [of _ ?e]) (simp add: area_simps)
qed

definition file_two :: ind where
  "file_two = file5\<lparr>i_blocks := 2, i_block := [1, 2] @ replicate 10 0\<rparr>"

definition demo_two :: ext2 where
  "demo_two = ext2_0 (dev_write (ind_offset 5) (enc_ind file_two) (\<lambda>_. 0))"

lemma demo_two_inode: "inode_at 5 (e_disk demo_two) = file_two"
  using inode_at_wr_ind [OF inode_num_5 inode_num_5, of "enc_ind file_two"]
  by (simp add: demo_two_def ext2_0_def length_enc_ind dec_enc_ind ind_wf_def file_two_def file5_def EXT2_N_BLOCKS_def)

theorem ext2_write_loses_half_witness:
  "\<exists>e'. ext2_write 5 0 (replicate 600 7) 600 demo_two = Inr (556, e') \<and> i_size (inode_at 5 (e_disk e')) = 600"
proof -
  have f: "i_mode file_two AND WR_ABLE \<noteq> 0" "i_blocks file_two = 2" "i_block file_two ! 0 = 1" "i_block file_two ! 1 = 2"
    by (simp_all add: file_two_def file5_def)
  show ?thesis
    using ext2_write_loses_half [of 5 demo_two 600 "replicate 600 7" 1 2] inode_num_5 f
    by (auto simp: demo_two_inode block_num_def DATA_BLOCK_COUNT_def)
qed

section \<open>Removing a file\<close>

lemma bitmap_drop_length: "bitmap_drop bm n = Inr bm' \<Longrightarrow> length bm' = length bm"
  by (auto simp: bitmap_drop_def res_iff Let_def)

lemma ext2_remove_block_frame:
  assumes run: "ext2_remove_block b e = Inr e'" and gd: "length (enc_gd (e_gdt e)) = GD_SIZE"
  shows "e_ind e' = e_ind e \<and> e_dir e' = e_dir e \<and> length (enc_gd (e_gdt e')) = GD_SIZE \<and>
    (\<forall>off n. INDT_START \<le> off \<longrightarrow> dev_read off n (e_disk e') = dev_read off n (e_disk e))"
proof -
  from run obtain bm where t: "bitmap_drop (dev_read BLK_BITMAP BLK_SIZE (e_disk e)) b = Inr bm"
    and e': "e' = ext2_wr_gd (let e = ext2_wr_blockbitmap (e\<lparr>blockbitmapbuf := bm\<rparr>)
      in e\<lparr>e_gdt := (e_gdt e)\<lparr>free_blocks_count := free_blocks_count (e_gdt e) + 1\<rparr>\<rparr>)"
    by (auto simp: ext2_remove_block_def ext2_rd_blockbitmap_def ext2_wr_blockbitmap_def res_iff Let_def)
  have "length bm = BLK_SIZE" using bitmap_drop_length [OF t] by simp
  then show ?thesis using gd unfolding e' by (simp add: ext2_wr_gd_def ext2_wr_blockbitmap_def low_write)
qed

lemma ext2_remove_inode_frame:
  assumes run: "ext2_remove_inode n e = Inr e'" and gd: "length (enc_gd (e_gdt e)) = GD_SIZE"
  shows "e_ind e' = e_ind e \<and> e_dir e' = e_dir e \<and>
    (\<forall>off n. INDT_START \<le> off \<longrightarrow> dev_read off n (e_disk e') = dev_read off n (e_disk e))"
proof -
  from run obtain bm where t: "bitmap_drop (dev_read IND_BITMAP BLK_SIZE (e_disk e)) (n - 1) = Inr bm"
    and e': "e' = ext2_wr_gd (let e = ext2_wr_inodebitmap (e\<lparr>inodebitmapbuf := bm\<rparr>)
      in e\<lparr>e_gdt := (e_gdt e)\<lparr>free_inodes_count := free_inodes_count (e_gdt e) + 1\<rparr>\<rparr>)"
    by (auto simp: ext2_remove_inode_def ext2_rd_inodebitmap_def ext2_wr_inodebitmap_def res_iff Let_def)
  have "length bm = BLK_SIZE" using bitmap_drop_length [OF t] by simp
  then show ?thesis using gd unfolding e' by (simp add: ext2_wr_gd_def ext2_wr_inodebitmap_def low_write)
qed

lemma ext2_remove_block_total:
  assumes "unat b < 8 * BLK_SIZE"
  shows "\<exists>e'. ext2_remove_block b e = Inr e'"
  using bitmap_drop_clears [OF dev_read_length assms, of BLK_BITMAP "e_disk e"]
  by (auto simp: ext2_remove_block_def ext2_rd_blockbitmap_def Let_def)

lemma ext2_remove_inode_total:
  assumes "inode_num r"
  shows "\<exists>e'. ext2_remove_inode r e = Inr e'"
proof -
  have "unat (r - 1) < 8 * BLK_SIZE"
    using assms by (subst unat_minus_one) (auto simp: inode_num_def ext2_consts)
  from bitmap_drop_clears [OF dev_read_length this, of IND_BITMAP "e_disk e"] show ?thesis
    by (auto simp: ext2_remove_inode_def ext2_rd_inodebitmap_def Let_def)
qed

lemma dirs_wf_upd: "\<forall>d \<in> set ds. dir_wf d \<Longrightarrow> dir_wf x \<Longrightarrow> \<forall>d \<in> set (ds[j := x]). dir_wf d"
  using set_update_subset_insert by fastforce

lemma dec_dir_wf: "length bs = BLK_SIZE \<Longrightarrow> length (dec_dir bs) = DIR_AMUT \<and> (\<forall>d \<in> set (dec_dir bs). dir_wf d)"
  by (auto simp: dec_dir_def chunks_def dec_dir1_def dir_wf_def ext2_consts)

text \<open>
  Removing a file destroys the root directory.  When a file that has a block is removed from a
  directory whose entries are in one block other than block 0, the call reports success, but the
  directory's block is written to data block 0, which is the root directory's, and the entry stays in
  its directory: the block number is taken from the inode of the removed file, whose block numbers have
  just been cleared.
\<close>

theorem ext2_remove_overwrites_root:
  assumes dir: "inode_num r" "i_blocks (inode_at r (e_disk e)) = 1" "block_num d" "d \<noteq> 0" "i_block (inode_at r (e_disk e)) ! 0 = d"
    and entry: "first_idx (\<lambda>j. strcmp_list (str_load (de_name (dec_dir (block_at d (e_disk e)) ! j))) name = 0) 0 DIR_AMUT = Some j"
    and f: "de_inode (dec_dir (block_at d (e_disk e)) ! j) = f" "inode_num f" "f \<noteq> r"
    and file_block: "i_blocks (inode_at f (e_disk e)) = 1" "block_num (i_block (inode_at f (e_disk e)) ! 0)"
    and gd: "length (enc_gd (e_gdt e)) = GD_SIZE" and mode: "mode AND TYPE_DIR = 0"
  shows "\<exists>e'. ext2_remove r name mode e = Inr (0, e') \<and> block_at d (e_disk e') = block_at d (e_disk e) \<and>
    dec_dir (block_at 0 (e_disk e')) = (dec_dir (block_at d (e_disk e)))[j := (dec_dir (block_at d (e_disk e)) ! j)\<lparr>de_inode := 0\<rparr>]"
proof -
  let ?ds = "dec_dir (block_at d (e_disk e))"
  let ?fi = "inode_at f (e_disk e)"
  let ?b = "i_block ?fi ! 0"
  have wf: "length (i_block (inode_at x (e_disk e))) = 12" for x
    using dec_ind_wf [of "dev_read (ind_offset x) IND_SIZE (e_disk e)"] by (simp add: inode_at_def ind_wf_def EXT2_N_BLOCKS_def)
  have ne: "i_block (inode_at x (e_disk e)) \<noteq> []" for x using wf [of x] by auto
  have j: "j < DIR_AMUT" using first_idx_SomeD [OF entry] by simp
  have b0: "block_num 0" by (simp add: block_num_def DATA_BLOCK_COUNT_def)
  let ?e1 = "e\<lparr>e_dir := ?ds, e_ind := ?fi\<rparr>"
  have "unat ?b < 8 * BLK_SIZE" using file_block(2) by (simp add: block_num_def ext2_consts)
  from ext2_remove_block_total [OF this] obtain e2 where e2: "ext2_remove_block ?b ?e1 = Inr e2" by blast
  have gd1: "length (enc_gd (e_gdt ?e1)) = GD_SIZE" using gd by simp
  note fr2 = ext2_remove_block_frame [OF e2 gd1]
  let ?i3 = "?fi\<lparr>i_block := (i_block ?fi)[0 := 0]\<rparr>"
  let ?e3 = "ext2_wr_ind f (e2\<lparr>e_ind := ?i3\<rparr>)"
  have gd3: "length (enc_gd (e_gdt ?e3)) = GD_SIZE" using fr2 by (simp add: ext2_wr_ind_def)
  from ext2_remove_inode_total [OF f(2)] obtain e4 where e4: "ext2_remove_inode f ?e3 = Inr e4" by blast
  note fr4 = ext2_remove_inode_frame [OF e4 gd3]
  let ?new = "?ds[j := (?ds ! j)\<lparr>de_inode := 0\<rparr>]"
  let ?e5 = "ext2_rd_ind r (ext2_wr_dir 0 (e4\<lparr>e_dir := ?new\<rparr>))"
  let ?e6 = "ext2_wr_ind r (upd_ind (\<lambda>x. x\<lparr>i_size := i_size x - of_nat DIR_SIZE\<rparr>) ?e5)"
  have "unat f \<noteq> unat (-1 :: u32)" using f(2) by (auto simp: inode_num_def INODE_TABLE_COUNT_def unsigned_minus_1_eq_mask mask_eq_exp_minus_1)
  then have fm: "f \<noteq> -1" by auto
  have seek: "remove_seek name [0..<1] (e\<lparr>e_ind := inode_at r (e_disk e)\<rparr>) =
      Inr (Some (0, j), e\<lparr>e_ind := inode_at r (e_disk e), e_dir := ?ds\<rparr>)"
    using dir entry f(1) fm ne by (simp add: ind_blk_def ext2_rd_dir_def Let_def flip: block_at_def)
  have rem: "remove_blocks [0..<1] ?e1 = Inr (e2\<lparr>e_ind := ?i3\<rparr>)"
    using e2 fr2 ne by (simp add: ind_blk_def set_ind_blk_def)
  have fin: "remove_finish r 0 j (e2\<lparr>e_ind := ?i3\<rparr>) = Inr ?e6"
    using e4 fr2 fr4 f(1) ne by (simp add: remove_finish_def ind_blk_def ext2_wr_ind_def Let_def)
  have run: "ext2_remove r name mode e = Inr (0, ?e6)"
    using seek rem fin dir(2) file_block(1) mode f(1)
    by (simp add: ext2_remove_def ext2_rd_ind_def Let_def del: remove_blocks.simps remove_seek.simps flip: inode_at_def)
  have dd: "length ?ds = DIR_AMUT" "\<forall>x \<in> set ?ds. dir_wf x" using dec_dir_wf [OF length_block_at] by blast+
  have "dir_wf (?ds ! j)" using dd j by simp
  then have "dir_wf ((?ds ! j)\<lparr>de_inode := 0\<rparr>)" by (simp add: dir_wf_def)
  with dd have dw: "length ?new = DIR_AMUT" "\<forall>x \<in> set ?new. dir_wf x" by (simp, intro dirs_wf_upd)
  have iw: "ind_wf (inode_at x y)" for x y unfolding inode_at_def by (rule dec_ind_wf) simp
  let ?d4 = "dev_write (blk_offset 0) (enc_dir ?new) (e_disk e4)"
  define ri where "ri = (inode_at r ?d4)\<lparr>i_size := i_size (inode_at r ?d4) - of_nat DIR_SIZE\<rparr>"
  have ri: "ind_wf ri" "e_disk ?e6 = dev_write (ind_offset r) (enc_ind ri) ?d4"
    using iw [of r ?d4] by (simp_all add: ri_def ext2_wr_ind_def ext2_rd_ind_def ext2_wr_dir_def ind_wf_def flip: inode_at_def)
  have d4: "block_at x (e_disk e4) = block_at x (e_disk e)" if "block_num x" for x
  proof -
    have "block_at x (e_disk e4) = block_at x (e_disk ?e3)" using fr4 that by (intro block_at_cong) auto
    also have "\<dots> = block_at x (e_disk e2)"
      using f(2) that iw [of f "e_disk e"] by (simp add: ext2_wr_ind_def block_at_wr_ind length_enc_ind ind_wf_def)
    also have "\<dots> = block_at x (e_disk e)" using fr2 that by (intro block_at_cong) auto
    finally show ?thesis .
  qed
  have "block_at d (e_disk ?e6) = block_at d (e_disk e)" "block_at 0 (e_disk ?e6) = enc_dir ?new"
    using dir b0 ri d4 [OF dir(3)] length_enc_dir [OF dw] by (simp_all add: block_at_wr_ind block_at_wr_blk length_enc_ind)
  then show ?thesis using run dec_enc_dir [OF dw] by auto
qed

text \<open>A disk with a directory in inode 2, block 3, whose first entry is the file \<^verbatim>\<open>a\<close> with inode 5 and block 7.\<close>

definition entry_a :: directory where
  "entry_a = \<lparr>de_inode = 5, de_mode = TYPE_FILE, de_name_len = 1, de_name = byte_of (CHR ''a'') # replicate 15 0, de_par = replicate 4 0\<rparr>"

definition dir_a :: "directory list" where
  "dir_a = entry_a # replicate 15 (entry_a\<lparr>de_inode := 0, de_name := replicate 16 0\<rparr>)"

definition demo_dir :: ext2 where
  "demo_dir = ext2_0 (dev_write (blk_offset 3) (enc_dir dir_a)
     (dev_write (ind_offset 5) (enc_ind (file5\<lparr>i_blocks := 1, i_block := 7 # replicate 11 0\<rparr>))
     (dev_write (ind_offset 2) (enc_ind (file5\<lparr>i_blocks := 1, i_block := 3 # replicate 11 0\<rparr>)) (\<lambda>_. 0))))"

lemma demo_dir_facts:
  "inode_at 5 (e_disk demo_dir) = file5\<lparr>i_blocks := 1, i_block := 7 # replicate 11 0\<rparr>"
  "inode_at 2 (e_disk demo_dir) = file5\<lparr>i_blocks := 1, i_block := 3 # replicate 11 0\<rparr>"
  "dec_dir (block_at 3 (e_disk demo_dir)) = dir_a"
proof -
  have n: "inode_num 2" "inode_num 5" "block_num 3" by (simp_all add: inode_num_def block_num_def ext2_consts)
  have w: "ind_wf (file5\<lparr>i_blocks := 1, i_block := b # replicate 11 0\<rparr>)" for b
    by (simp add: ind_wf_def file5_def EXT2_N_BLOCKS_def)
  have d: "length dir_a = DIR_AMUT" "\<forall>x \<in> set dir_a. dir_wf x" by (auto simp: dir_a_def entry_a_def dir_wf_def ext2_consts)
  show "inode_at 5 (e_disk demo_dir) = file5\<lparr>i_blocks := 1, i_block := 7 # replicate 11 0\<rparr>"
    "inode_at 2 (e_disk demo_dir) = file5\<lparr>i_blocks := 1, i_block := 3 # replicate 11 0\<rparr>"
    using n w by (simp_all add: demo_dir_def ext2_0_def area_simps length_enc_ind dec_enc_ind)
  show "dec_dir (block_at 3 (e_disk demo_dir)) = dir_a"
    using n d by (simp add: demo_dir_def ext2_0_def area_simps length_enc_dir dec_enc_dir)
qed

theorem ext2_remove_overwrites_root_witness:
  "\<exists>e'. ext2_remove 2 ''a'' TYPE_FILE demo_dir = Inr (0, e') \<and> dec_dir (block_at 0 (e_disk e')) = dir_a[0 := entry_a\<lparr>de_inode := 0\<rparr>] \<and>
     dec_dir (block_at 3 (e_disk e')) = dir_a"
proof -
  have "str_load (de_name entry_a) = ''a''" by (simp add: str_load_def entry_a_def takeWhile_replicate)
  then have "first_idx (\<lambda>j. strcmp_list (str_load (de_name (dir_a ! j))) ''a'' = 0) 0 DIR_AMUT = Some 0"
    by (intro first_idx_eqI) (simp_all add: dir_a_def ext2_consts)
  moreover have "length (enc_gd (e_gdt demo_dir)) = GD_SIZE"
    by (simp add: demo_dir_def ext2_0_def enc_gd_def dec_gd_def ext2_consts)
  ultimately show ?thesis
    using ext2_remove_overwrites_root [of 2 demo_dir 3 "''a''" 0 5 TYPE_FILE]
    by (simp add: demo_dir_facts inode_num_def block_num_def ext2_consts file5_def) (auto simp: dir_a_def entry_a_def demo_dir_facts)
qed

section \<open>Listing a directory\<close>

text \<open>The used entries of a directory, in the order of its blocks.\<close>

definition dir_entries :: "u32 \<Rightarrow> (nat \<Rightarrow> u8) \<Rightarrow> directory list" where
  "dir_entries r d = concat (map (\<lambda>k. filter (\<lambda>x. de_inode x \<noteq> 0) (dec_dir (block_at (i_block (inode_at r d) ! k) d)))
     [0..<unat (i_blocks (inode_at r d))])"

definition dirent_of :: "directory \<Rightarrow> dirent" where
  "dirent_of d = \<lparr>d_name = str_load (de_name d), d_ridx = unat (de_inode d), d_mode = de_mode d\<rparr>"

lemma readdir_slots_run:
  assumes "\<forall>k \<in> set ks. k < length ds" and "cnt < kth"
  shows "readdir_slots ks ds kth cnt =
    (let us = filter (\<lambda>k. de_inode (ds ! k) \<noteq> 0) ks in
     if kth - cnt \<le> int (length us) then (kth, Some (us ! nat (kth - cnt - 1))) else (cnt + int (length us), None))"
  using assms
proof (induction ks arbitrary: cnt)
  case (Cons k ks)
  show ?case
  proof (cases "de_inode (ds ! k) \<noteq> 0 \<and> cnt + 1 \<noteq> kth")
    case True
    then have n: "nat (kth - cnt - 1) = Suc (nat (kth - (cnt + 1) - 1))" using Cons.prems(2) by arith
    show ?thesis using True Cons.prems Cons.IH [of "cnt + 1"] by (simp add: Let_def n)
  next
    case False
    then show ?thesis using Cons.prems Cons.IH [of cnt] by (auto simp: Let_def)
  qed
qed (simp add: Let_def)

lemma filter_idx: "map ((!) ds) (filter (\<lambda>k. P (ds ! k)) [0..<length ds]) = filter P ds"
  using filter_map [of P "(!) ds" "[0..<length ds]"] by (simp add: comp_def map_nth)

lemma readdir_block:
  assumes "length ds = DIR_AMUT" and "cnt < kth"
  shows "readdir_slots [0..<DIR_AMUT] ds kth cnt =
      (let us = filter (\<lambda>x. de_inode x \<noteq> 0) ds in
       if kth - cnt \<le> int (length us) then (kth, snd (readdir_slots [0..<DIR_AMUT] ds kth cnt))
       else (cnt + int (length us), None))"
    and "kth - cnt \<le> int (length (filter (\<lambda>x. de_inode x \<noteq> 0) ds)) \<Longrightarrow>
      \<exists>k. readdir_slots [0..<DIR_AMUT] ds kth cnt = (kth, Some k) \<and>
        ds ! k = filter (\<lambda>x. de_inode x \<noteq> 0) ds ! nat (kth - cnt - 1)"
proof -
  let ?ks = "filter (\<lambda>k. de_inode (ds ! k) \<noteq> 0) [0..<DIR_AMUT]"
  have run: "readdir_slots [0..<DIR_AMUT] ds kth cnt =
      (if kth - cnt \<le> int (length ?ks) then (kth, Some (?ks ! nat (kth - cnt - 1))) else (cnt + int (length ?ks), None))"
    using readdir_slots_run [of "[0..<DIR_AMUT]" ds cnt kth] assms by (simp add: Let_def)
  have us: "map ((!) ds) ?ks = filter (\<lambda>x. de_inode x \<noteq> 0) ds"
    using filter_idx [of ds "\<lambda>x. de_inode x \<noteq> 0"] assms(1) by simp
  then have len: "length ?ks = length (filter (\<lambda>x. de_inode x \<noteq> 0) ds)" by (metis length_map)
  show "readdir_slots [0..<DIR_AMUT] ds kth cnt =
      (let us = filter (\<lambda>x. de_inode x \<noteq> 0) ds in
       if kth - cnt \<le> int (length us) then (kth, snd (readdir_slots [0..<DIR_AMUT] ds kth cnt))
       else (cnt + int (length us), None))"
    using run len by (simp add: Let_def)
  assume le: "kth - cnt \<le> int (length (filter (\<lambda>x. de_inode x \<noteq> 0) ds))"
  then have "nat (kth - cnt - 1) < length ?ks" using assms(2) len by linarith
  then have "ds ! (?ks ! nat (kth - cnt - 1)) = filter (\<lambda>x. de_inode x \<noteq> 0) ds ! nat (kth - cnt - 1)"
    using nth_map [of "nat (kth - cnt - 1)" ?ks "(!) ds"] us by simp
  then show "\<exists>k. readdir_slots [0..<DIR_AMUT] ds kth cnt = (kth, Some k) \<and>
      ds ! k = filter (\<lambda>x. de_inode x \<noteq> 0) ds ! nat (kth - cnt - 1)"
    using run le len by auto
qed

text \<open>The entry that is number \<open>k\<close>, counted from one.\<close>

definition nth_entry :: "directory list \<Rightarrow> int \<Rightarrow> dirent option" where
  "nth_entry us k = (if 0 < k \<and> k \<le> int (length us) then Some (dirent_of (us ! nat (k - 1))) else None)"

lemma nth_entry_append:
  assumes "0 < k"
  shows "nth_entry (us @ vs) k = (if k \<le> int (length us) then nth_entry us k else nth_entry vs (k - int (length us)))"
proof -
  have "nat (k - 1) - length us = nat (k - int (length us) - 1)" by arith
  moreover have "nat (k - 1) < length us \<longleftrightarrow> k \<le> int (length us)" using assms by arith
  ultimately show ?thesis using assms by (auto simp: nth_entry_def nth_append)
qed

lemma readdir_loop_run:
  assumes "\<forall>k \<in> set ks. k < length (i_block (e_ind e))" and "cnt < kth"
  shows "\<exists>e'. readdir_loop ks kth cnt e =
    Inr (nth_entry (concat (map (\<lambda>k. filter (\<lambda>x. de_inode x \<noteq> 0) (dec_dir (block_at (i_block (e_ind e) ! k) (e_disk e)))) ks))
      (kth - cnt), e')"
  using assms
proof (induction ks arbitrary: cnt e)
  case (Cons i ks)
  let ?ds = "dec_dir (block_at (i_block (e_ind e) ! i) (e_disk e))"
  let ?u = "filter (\<lambda>x. de_inode x \<noteq> 0) ?ds"
  have len: "length ?ds = DIR_AMUT" using dec_dir_wf [OF length_block_at] by blast
  have b: "ind_blk i e = Inr (i_block (e_ind e) ! i)" using Cons.prems(1) by (simp add: ind_blk_def)
  have pos: "0 < kth - cnt" using Cons.prems(2) by simp
  show ?case
  proof (cases "kth - cnt \<le> int (length ?u)")
    case True
    from readdir_block(2) [OF len Cons.prems(2) this] obtain k where
      k: "readdir_slots [0..<DIR_AMUT] ?ds kth cnt = (kth, Some k)" "?ds ! k = ?u ! nat (kth - cnt - 1)" by blast
    then show ?thesis
      using b True pos by (simp add: ext2_rd_dir_def Let_def nth_entry_append flip: block_at_def)
        (simp add: nth_entry_def dirent_of_def)
  next
    case False
    then have k: "readdir_slots [0..<DIR_AMUT] ?ds kth cnt = (cnt + int (length ?u), None)"
      using readdir_block(1) [OF len Cons.prems(2)] by (simp add: Let_def)
    have "kth - (cnt + int (length ?u)) = kth - cnt - int (length ?u)" by simp
    with Cons.IH [of "e\<lparr>e_dir := ?ds\<rparr>" "cnt + int (length ?u)"] Cons.prems False b k pos show ?thesis
      by (simp add: ext2_rd_dir_def Let_def nth_entry_append flip: block_at_def)
  qed
qed (simp add: nth_entry_def)

text \<open>
  C22: \<^verbatim>\<open>ext2_readdir\<close> enumerates a directory: for \<open>kth\<close> from one on it delivers the \<open>kth\<close> used entry of the
  directory's blocks, in their order, and it reports the end exactly when there are fewer.
\<close>

theorem ext2_readdir_enumerates:
  assumes "unat (i_blocks (inode_at r (e_disk e))) \<le> EXT2_N_BLOCKS" and "0 < kth"
  shows "\<exists>e'. ext2_readdir r kth e = Inr (nth_entry (dir_entries r (e_disk e)) kth, e')"
proof -
  let ?i = "inode_at r (e_disk e)"
  have len: "length (i_block ?i) = EXT2_N_BLOCKS"
    using dec_ind_wf [of "dev_read (ind_offset r) IND_SIZE (e_disk e)"] by (simp add: inode_at_def ind_wf_def)
  then show ?thesis
    using readdir_loop_run [of "[0..<unat (i_blocks ?i)]" "e\<lparr>e_ind := ?i\<rparr>" 0 kth] assms
    by (simp add: ext2_readdir_def ext2_rd_ind_def dir_entries_def Let_def flip: inode_at_def)
qed

theorem ext2_readdir_enumerates_witness:
  "(\<exists>e'. ext2_readdir 2 1 demo_dir = Inr (Some \<lparr>d_name = ''a'', d_ridx = 5, d_mode = TYPE_FILE\<rparr>, e')) \<and>
   (\<exists>e'. ext2_readdir 2 2 demo_dir = Inr (None, e'))"
proof -
  have "filter (\<lambda>x. de_inode x \<noteq> 0) dir_a = [entry_a]" by (simp add: dir_a_def entry_a_def)
  then have "dir_entries 2 (e_disk demo_dir) = [entry_a]" by (simp add: dir_entries_def demo_dir_facts)
  moreover have "dirent_of entry_a = \<lparr>d_name = ''a'', d_ridx = 5, d_mode = TYPE_FILE\<rparr>"
    by (simp add: dirent_of_def entry_a_def str_load_def takeWhile_replicate)
  ultimately show ?thesis
    using ext2_readdir_enumerates [of 2 demo_dir 1] ext2_readdir_enumerates [of 2 demo_dir 2]
    by (simp add: demo_dir_facts EXT2_N_BLOCKS_def nth_entry_def)
qed

end
