(* ===== verification/Video.thy ===== *)
theory Video
  imports Bytes Kthreads_Sem Alloc_Correct
begin

text \<open>
  \<^verbatim>\<open>kernel/src/devices/video/video.c\<close>: the sprite engine on the frame buffer.  The texture memory is kept as
  bytes, as \<^verbatim>\<open>fb_write\<close> copies bytes into it; what \<^verbatim>\<open>_io_write\<close> sends to the video controller is logged.
\<close>

section \<open>Data\<close>

definition TEXTURE_W :: nat where "TEXTURE_W = 8"
definition TEXTURE_H :: nat where "TEXTURE_H = 8"
definition SPRITE_BRK :: nat where "SPRITE_BRK = 0x1000000"
definition NTEXTURE :: nat where "NTEXTURE = 16384"
definition NSPRITE :: nat where "NSPRITE = 16384"

record display_info =
  di_width :: u32
  di_height :: u32
  di_num_displays :: u32
  di_current :: u32
  di_num_textures :: u32
  di_num_sprites :: u32

text \<open>A sprite is packed into eight bytes: three 16-bit numbers and the display (4 bits) below the z value (12 bits).\<close>

record sprite =
  sp_texture :: u16
  sp_x :: u16
  sp_y :: u16
  sp_display :: "4 word"
  sp_z :: "12 word"

definition enc_sprite :: "sprite \<Rightarrow> u8 list" where
  "enc_sprite p = enc16 (sp_texture p) @ enc16 (sp_x p) @ enc16 (sp_y p) @ enc16 (ucast (sp_display p) OR push_bit 4 (ucast (sp_z p)))"

definition dec_sprite :: "u8 list \<Rightarrow> sprite" where
  "dec_sprite bs = \<lparr>sp_texture = dec16 (slice 0 2 bs), sp_x = dec16 (slice 2 2 bs), sp_y = dec16 (slice 4 2 bs),
     sp_display = ucast (dec16 (slice 6 2 bs)), sp_z = ucast (drop_bit 4 (dec16 (slice 6 2 bs)))\<rparr>"

lemma length_enc_sprite [simp]: "length (enc_sprite p) = 8"
  by (simp add: enc_sprite_def)

lemma dec_enc_sprite: "dec_sprite (enc_sprite p) = p"
proof -
  have "ucast (ucast d OR push_bit 4 (ucast z) :: u16) = d" for d :: "4 word" and z :: "12 word"
    by (rule bit_word_eqI) (auto simp: bit_simps)
  moreover have "ucast (drop_bit 4 (ucast d OR push_bit 4 (ucast z) :: u16)) = z" for d :: "4 word" and z :: "12 word"
    by (rule bit_word_eqI) (auto simp: bit_simps dest: bit_imp_le_length)
  ultimately show ?thesis by (simp add: dec_sprite_def enc_sprite_def)
qed

text \<open>One command to the video controller: position and the pixels of the tile.\<close>

record draw =
  dr_x :: u16
  dr_y :: u16
  dr_pixels :: "u32 list"

record fb =
  fb_info :: display_info
  fb_textures :: "nat \<Rightarrow> u8"
  fb_sem :: sem
  fb_log :: "draw list"

section \<open>Textures\<close>

text \<open>The pixel values in the order of the two loops of \<^verbatim>\<open>texture_fill\<close>; \<open>bits\<close> are the 16 bytes of a glyph.\<close>

definition texture_pixels :: "bool \<Rightarrow> u8 list \<Rightarrow> u32 \<Rightarrow> u32 \<Rightarrow> u32 list" where
  "texture_pixels tp bits fg bg =
     concat (map (\<lambda>y. map (\<lambda>x.
       let bitmask = (if tp then bits ! (y + TEXTURE_H) else bits ! y) in
       if drop_bit (7 - x) bitmask AND 1 \<noteq> 0 then fg else bg) [0..<TEXTURE_W]) [0..<TEXTURE_H])"

definition texture_fill :: "nat \<Rightarrow> bool \<Rightarrow> u8 list \<Rightarrow> u32 \<Rightarrow> u32 \<Rightarrow> (nat \<Rightarrow> u8) \<Rightarrow> nat \<Rightarrow> u8" where
  "texture_fill tx tp bits fg bg tex = dev_write (256 * tx) (concat (map enc32 (texture_pixels tp bits fg bg))) tex"

definition font_load :: "(nat \<Rightarrow> u8) \<Rightarrow> (nat \<Rightarrow> u8) \<Rightarrow> nat \<Rightarrow> u8" where
  "font_load font =
     fold (\<lambda>ch tex.
       let tex = texture_fill (ch * 2 + 1) False (dev_read (16 * ch) 16 font) 0xffffff 0 tex in
       texture_fill (ch * 2 + 2) True (dev_read (16 * ch) 16 font) 0xffffff 0 tex) [0..<256]"

text \<open>The pixels of texture \<open>tx\<close>, as the video controller reads them.\<close>

definition pixels :: "nat \<Rightarrow> (nat \<Rightarrow> u8) \<Rightarrow> u32 list" where
  "pixels tx tex = map dec32 (chunks 4 (TEXTURE_W * TEXTURE_H) (dev_read (256 * tx) 256 tex))"

section \<open>Operations\<close>

text \<open>The screen size comes from the video controller.\<close>

definition fb_init :: "u32 \<Rightarrow> u32 \<Rightarrow> (nat \<Rightarrow> u8) \<Rightarrow> string \<Rightarrow> fb \<Rightarrow> pmm \<Rightarrow> procfs \<Rightarrow> (fb \<times> pmm \<times> procfs) res" where
  "fb_init screen_width screen_height font name f p pf =
     bindE (kalloc 24 p pf) (\<lambda>(_, p, pf).
     bindE (kalloc (of_nat (256 * NTEXTURE)) p pf) (\<lambda>(_, p, pf).
     bindE (kalloc (of_nat (8 * NSPRITE)) p pf) (\<lambda>(_, p, pf).
     let f = f\<lparr>fb_info := \<lparr>di_width = screen_width, di_height = screen_height, di_num_displays = 8, di_current = 0,
               di_num_textures = of_nat NTEXTURE, di_num_sprites = of_nat NSPRITE\<rparr>\<rparr> in
     bindE (kmt_sem_init name 1 (fb_sem f)) (\<lambda>q.
     let f = f\<lparr>fb_sem := q, fb_textures := font_load font (fb_textures f)\<rparr> in
     Inr (f, p, pf)))))"

text \<open>The count that is returned and what is copied to the buffer.\<close>

definition fb_read :: "nat \<Rightarrow> nat \<Rightarrow> fb \<Rightarrow> nat \<times> display_info option" where
  "fb_read offset cnt f =
     (if offset \<noteq> 0 then (0, None) else if cnt \<noteq> 24 then (0, None) else (0, Some (fb_info f)))"

text \<open>The loop over the sprites in the buffer.\<close>

fun draw_sprites :: "sprite list \<Rightarrow> fb \<Rightarrow> fb res" where
  "draw_sprites [] f = Inr f"
| "draw_sprites (p # ps) f =
     (if 0 < sp_texture p \<and> ucast (sp_display p) = di_current (fb_info f) then
        bindE (guardE OutOfBounds (unat (sp_texture p) < NTEXTURE)) (\<lambda>_.
        draw_sprites ps (f\<lparr>fb_log := fb_log f @ [\<lparr>dr_x = sp_x p, dr_y = sp_y p, dr_pixels = pixels (unat (sp_texture p)) (fb_textures f)\<rparr>]\<rparr>))
      else draw_sprites ps f)"

definition fb_write :: "nat \<Rightarrow> nat \<Rightarrow> u8 list \<Rightarrow> fb \<times> kmt \<Rightarrow> (nat \<times> fb \<times> kmt) res" where
  "fb_write cpu offset buf = (\<lambda>(f, s).
     bindE (kmt_sem_wait cpu (fb_sem f) s) (\<lambda>(slept, q, s).
     if slept then Inl Blocked
     else
       let f = f\<lparr>fb_sem := q\<rparr> in
       bindE (if offset = 0 then
           bindE (guardE OutOfBounds (24 \<le> length buf)) (\<lambda>_.
           let current = dec32 (slice 12 4 buf) in
           Inr (if di_current (fb_info f) \<noteq> current then f\<lparr>fb_info := (fb_info f)\<lparr>di_current := current\<rparr>\<rparr> else f))
         else if offset < SPRITE_BRK then
           bindE (guardE OutOfBounds (offset + length buf \<le> 256 * NTEXTURE)) (\<lambda>_.
           Inr (f\<lparr>fb_textures := dev_write offset buf (fb_textures f)\<rparr>))
         else
           bindE (guardE OutOfBounds (length buf mod 8 = 0)) (\<lambda>_.
           draw_sprites (map dec_sprite (chunks 8 (length buf div 8) buf)) f)) (\<lambda>f.
       bindE (kmt_sem_signal cpu (fb_sem f) s) (\<lambda>(q, s).
       Inr (length buf, f\<lparr>fb_sem := q\<rparr>, s)))))"

section \<open>Glyphs\<close>

lemma length_concat_same: "(\<And>x. x \<in> set xs \<Longrightarrow> length (f x) = n) \<Longrightarrow> length (concat (map f xs)) = n * length xs"
  by (induction xs) auto

lemma nth_concat_same:
  assumes "\<And>x. x \<in> set xs \<Longrightarrow> length (f x) = n" and "i < length xs" and "j < n"
  shows "concat (map f xs) ! (i * n + j) = f (xs ! i) ! j"
  using assms
proof (induction xs arbitrary: i)
  case (Cons x xs)
  then show ?case by (cases i) (simp_all add: nth_append)
qed simp

lemma length_texture_pixels [simp]: "length (texture_pixels tp bits fg bg) = 64"
  by (simp add: texture_pixels_def length_concat_same [where n = 8] TEXTURE_W_def TEXTURE_H_def)

lemma pixels_fill:
  "pixels tx' (texture_fill tx tp bits fg bg tex) = (if tx' = tx then texture_pixels tp bits fg bg else pixels tx' tex)"
proof -
  let ?px = "texture_pixels tp bits fg bg"
  have len: "length (concat (map enc32 ?px)) = 256" using length_concat_const [of "map enc32 ?px" 4] by simp
  show ?thesis
  proof (cases "tx' = tx")
    case True
    have "dev_read (256 * tx) 256 (texture_fill tx tp bits fg bg tex) = concat (map enc32 ?px)"
      using flat.dread_same [of "256 * tx" "concat (map enc32 ?px)"] len by (simp add: texture_fill_def)
    moreover have "chunks 4 64 (concat (map enc32 ?px)) = map enc32 ?px"
      using chunks_concat [of "map enc32 ?px" 4] by simp
    ultimately show ?thesis using True by (simp add: pixels_def TEXTURE_W_def TEXTURE_H_def comp_def)
  next
    case False
    then have "tx' < tx \<or> tx < tx'" by arith
    then have "dev_read (256 * tx') 256 (texture_fill tx tp bits fg bg tex) = dev_read (256 * tx') 256 tex"
      unfolding texture_fill_def using len by (intro flat.dread_other) auto
    with False show ?thesis by (simp add: pixels_def)
  qed
qed

lemma font_load_pixels:
  assumes "n \<le> 256" and "ch < n"
  shows "pixels (ch * 2 + 1) (fold (\<lambda>ch tex.
       let tex = texture_fill (ch * 2 + 1) False (dev_read (16 * ch) 16 font) 0xffffff 0 tex in
       texture_fill (ch * 2 + 2) True (dev_read (16 * ch) 16 font) 0xffffff 0 tex) [0..<n] tex) =
      texture_pixels False (dev_read (16 * ch) 16 font) 0xffffff 0"
    and "pixels (ch * 2 + 2) (fold (\<lambda>ch tex.
       let tex = texture_fill (ch * 2 + 1) False (dev_read (16 * ch) 16 font) 0xffffff 0 tex in
       texture_fill (ch * 2 + 2) True (dev_read (16 * ch) 16 font) 0xffffff 0 tex) [0..<n] tex) =
      texture_pixels True (dev_read (16 * ch) 16 font) 0xffffff 0"
  using assms
proof (induction n)
  case (Suc n)
  {
    case 1
    then show ?case using Suc.IH(1) by (cases "ch = n") (simp_all add: Let_def pixels_fill)
  next
    case 2
    then show ?case using Suc.IH(2) by (cases "ch = n") (simp_all add: Let_def pixels_fill)
  }
qed simp_all

lemma texture_pixel:
  assumes "x < 8" and "y < 8"
  shows "texture_pixels tp bits fg bg ! (8 * y + x) = (if bit (bits ! (if tp then y + 8 else y)) (7 - x) then fg else bg)"
proof -
  have "texture_pixels tp bits fg bg ! (y * 8 + x) =
      (let bitmask = (if tp then bits ! (y + 8) else bits ! y) in if drop_bit (7 - x) bitmask AND 1 \<noteq> 0 then fg else bg)"
    unfolding texture_pixels_def using assms
    by (subst nth_concat_same [where n = 8]) (auto simp: TEXTURE_W_def TEXTURE_H_def)
  then show ?thesis by (simp add: Let_def mult.commute and_one_eq mod_2_eq_odd bit_iff_odd_drop_bit split: if_splits)
qed

end
