(* ===== verification/Input.thy ===== *)
theory Input
  imports Kthreads_Sem Alloc_Correct
begin

text \<open>
  \<^verbatim>\<open>kernel/src/devices/input/input.c\<close> and \<^verbatim>\<open>keymaps.c\<close>, with \<^verbatim>\<open>read_key\<close> of klib: key codes become
  characters with modifiers, which wait in a ring that is guarded by a spin lock and counted by a semaphore.
\<close>

section \<open>Keys\<close>

text \<open>The names of the macro \<^verbatim>\<open>_KEYS\<close> of \<^verbatim>\<open>amdev.h\<close>, in order; the code of a key is its place, counted from one.\<close>

definition KEYS :: "string list" where
  "KEYS = [''ESCAPE'', ''F1'', ''F2'', ''F3'', ''F4'', ''F5'', ''F6'', ''F7'', ''F8'', ''F9'', ''F10'', ''F11'', ''F12'',
     ''GRAVE'', ''1'', ''2'', ''3'', ''4'', ''5'', ''6'', ''7'', ''8'', ''9'', ''0'', ''MINUS'', ''EQUALS'', ''BACKSPACE'',
     ''TAB'', ''Q'', ''W'', ''E'', ''R'', ''T'', ''Y'', ''U'', ''I'', ''O'', ''P'', ''LEFTBRACKET'', ''RIGHTBRACKET'', ''BACKSLASH'',
     ''CAPSLOCK'', ''A'', ''S'', ''D'', ''F'', ''G'', ''H'', ''J'', ''K'', ''L'', ''SEMICOLON'', ''APOSTROPHE'', ''RETURN'',
     ''LSHIFT'', ''Z'', ''X'', ''C'', ''V'', ''B'', ''N'', ''M'', ''COMMA'', ''PERIOD'', ''SLASH'', ''RSHIFT'',
     ''LCTRL'', ''APPLICATION'', ''LALT'', ''SPACE'', ''RALT'', ''RCTRL'',
     ''UP'', ''DOWN'', ''LEFT'', ''RIGHT'', ''INSERT'', ''DELETE'', ''HOME'', ''END'', ''PAGEUP'', ''PAGEDOWN'']"

fun index_of :: "'a \<Rightarrow> 'a list \<Rightarrow> nat" where
  "index_of x [] = 0"
| "index_of x (y # ys) = (if x = y then 1 else (case index_of x ys of 0 \<Rightarrow> 0 | Suc n \<Rightarrow> n + 2))"

definition KEY :: "string \<Rightarrow> nat" where
  "KEY name = index_of name KEYS"

definition keymap_list :: "(string \<times> char) list" where
  "keymap_list = [(''0'', CHR ''0''), (''1'', CHR ''1''), (''2'', CHR ''2''), (''3'', CHR ''3''), (''4'', CHR ''4''), (''5'', CHR ''5''),
     (''6'', CHR ''6''), (''7'', CHR ''7''), (''8'', CHR ''8''), (''9'', CHR ''9''), (''GRAVE'', CHR 0x60), (''MINUS'', CHR ''-''),
     (''EQUALS'', CHR ''=''), (''LEFTBRACKET'', CHR ''[''), (''RIGHTBRACKET'', CHR '']''), (''BACKSLASH'', CHR 0x5C),
     (''SEMICOLON'', CHR '';''), (''APOSTROPHE'', CHR 0x27), (''RETURN'', CHR 0x0A), (''COMMA'', CHR '',''), (''PERIOD'', CHR ''.''),
     (''SLASH'', CHR ''/''), (''SPACE'', CHR '' ''), (''BACKSPACE'', CHR 0x08), (''A'', CHR ''a''), (''B'', CHR ''b''),
     (''C'', CHR ''c''), (''D'', CHR ''d''), (''E'', CHR ''e''), (''F'', CHR ''f''), (''G'', CHR ''g''), (''H'', CHR ''h''),
     (''I'', CHR ''i''), (''J'', CHR ''j''), (''K'', CHR ''k''), (''L'', CHR ''l''), (''M'', CHR ''m''), (''N'', CHR ''n''),
     (''O'', CHR ''o''), (''P'', CHR ''p''), (''Q'', CHR ''q''), (''R'', CHR ''r''), (''S'', CHR ''s''), (''T'', CHR ''t''),
     (''U'', CHR ''u''), (''V'', CHR ''v''), (''W'', CHR ''w''), (''X'', CHR ''x''), (''Y'', CHR ''y''), (''Z'', CHR ''z'')]"

definition keymap_shift_list :: "(string \<times> char) list" where
  "keymap_shift_list = [(''0'', CHR '')''), (''1'', CHR ''!''), (''2'', CHR ''@''), (''3'', CHR ''#''), (''4'', CHR ''$''),
     (''5'', CHR ''%''), (''6'', CHR ''^''), (''7'', CHR ''&''), (''8'', CHR ''*''), (''9'', CHR ''(''), (''GRAVE'', CHR ''~''),
     (''MINUS'', CHR ''_''), (''EQUALS'', CHR ''+''), (''LEFTBRACKET'', CHR ''{''), (''RIGHTBRACKET'', CHR ''}''),
     (''BACKSLASH'', CHR ''|''), (''SEMICOLON'', CHR '':''), (''APOSTROPHE'', CHR 0x22), (''COMMA'', CHR ''<''),
     (''PERIOD'', CHR ''>''), (''SLASH'', CHR ''?''), (''SPACE'', CHR '' ''), (''BACKSPACE'', CHR 0x08), (''A'', CHR ''A''),
     (''B'', CHR ''B''), (''C'', CHR ''C''), (''D'', CHR ''D''), (''E'', CHR ''E''), (''F'', CHR ''F''), (''G'', CHR ''G''),
     (''H'', CHR ''H''), (''I'', CHR ''I''), (''J'', CHR ''J''), (''K'', CHR ''K''), (''L'', CHR ''L''), (''M'', CHR ''M''),
     (''N'', CHR ''N''), (''O'', CHR ''O''), (''P'', CHR ''P''), (''Q'', CHR ''Q''), (''R'', CHR ''R''), (''S'', CHR ''S''),
     (''T'', CHR ''T''), (''U'', CHR ''U''), (''V'', CHR ''V''), (''W'', CHR ''W''), (''X'', CHR ''X''), (''Y'', CHR ''Y''),
     (''Z'', CHR ''Z'')]"

text \<open>An array of 256 characters with designated initialisers: zero where nothing is written.\<close>

definition key_array :: "(string \<times> char) list \<Rightarrow> nat \<Rightarrow> char" where
  "key_array l k = (case find (\<lambda>(n, c). KEY n = k) l of Some (n, c) \<Rightarrow> c | None \<Rightarrow> CHR 0x00)"

definition keymap :: "nat \<Rightarrow> char" where "keymap = key_array keymap_list"
definition keymap_shift :: "nat \<Rightarrow> char" where "keymap_shift = key_array keymap_shift_list"

section \<open>The device\<close>

definition NEVENTS :: nat where "NEVENTS = 128"

record input_event =
  ev_ctrl :: bool
  ev_alt :: bool
  ev_data :: u16

record input =
  in_lock :: spinlock
  event_sem :: sem
  events :: "nat \<Rightarrow> input_event"
  in_front :: nat
  in_rear :: nat
  capslock :: int
  shift_down :: "nat \<Rightarrow> int"
  ctrl_down :: "nat \<Rightarrow> int"
  alt_down :: "nat \<Rightarrow> int"

text \<open>\<^verbatim>\<open>event\<close>: the fields have one, one and sixteen bits.\<close>

definition mk_event :: "bool \<Rightarrow> bool \<Rightarrow> char \<Rightarrow> input_event" where
  "mk_event ctrl alt data = \<lparr>ev_ctrl = ctrl, ev_alt = alt, ev_data = of_nat (of_char data)\<rparr>"

definition push_event :: "nat \<Rightarrow> input_event \<Rightarrow> input \<times> kmt \<Rightarrow> (input \<times> kmt) res" where
  "push_event cpu ev = (\<lambda>(inp, s).
     bindE (kmt_spin_lock cpu (in_lock inp) s) (\<lambda>(lk, s).
     let inp = inp\<lparr>in_lock := lk, events := (events inp)(in_rear inp := ev)\<rparr>;
         inp = inp\<lparr>in_rear := (in_rear inp + 1) mod NEVENTS\<rparr>
     in
     bindE (guardE Halted (in_rear inp \<noteq> in_front inp)) (\<lambda>_.
     bindE (kmt_spin_unlock cpu (in_lock inp) s) (\<lambda>(lk, s).
     bindE (kmt_sem_signal cpu (event_sem inp) s) (\<lambda>(q, s).
     Inr (inp\<lparr>in_lock := lk, event_sem := q\<rparr>, s))))))"

text \<open>
  \<^verbatim>\<open>pop_event\<close> after the wait, and the whole: \<open>None\<close> says that the caller has gone to sleep and goes on with
  the rest when it is woken.
\<close>

definition pop_event_rest :: "nat \<Rightarrow> input \<times> kmt \<Rightarrow> (input_event \<times> input \<times> kmt) res" where
  "pop_event_rest cpu = (\<lambda>(inp, s).
     bindE (kmt_spin_lock cpu (in_lock inp) s) (\<lambda>(lk, s).
     bindE (guardE Halted (in_rear inp \<noteq> in_front inp)) (\<lambda>_.
     let idx = in_front inp;
         inp = inp\<lparr>in_lock := lk, in_front := (in_front inp + 1) mod NEVENTS\<rparr>;
         ret = events inp idx
     in
     bindE (kmt_spin_unlock cpu (in_lock inp) s) (\<lambda>(lk, s).
     Inr (ret, inp\<lparr>in_lock := lk\<rparr>, s)))))"

definition pop_event :: "nat \<Rightarrow> input \<times> kmt \<Rightarrow> (input_event option \<times> input \<times> kmt) res" where
  "pop_event cpu = (\<lambda>(inp, s).
     bindE (kmt_sem_wait cpu (event_sem inp) s) (\<lambda>(slept, q, s).
     let inp = inp\<lparr>event_sem := q\<rparr> in
     if slept then Inr (None, inp, s)
     else bindE (pop_event_rest cpu (inp, s)) (\<lambda>(ev, inp, s). Inr (Some ev, inp, s))))"

text \<open>The default branch of the switch in \<^verbatim>\<open>input_keydown\<close>.\<close>

definition key_char :: "nat \<Rightarrow> nat \<Rightarrow> input \<times> kmt \<Rightarrow> (input \<times> kmt) res" where
  "key_char cpu key = (\<lambda>(inp, s).
     bindE (guardE OutOfBounds (key < 256)) (\<lambda>_.
     let ch = keymap key in
     if ch = CHR 0x00 then Inr (inp, s)
     else
       let shift = (if shift_down inp 0 \<noteq> 0 \<or> shift_down inp 1 \<noteq> 0 then 1 else 0 :: int);
           ctrl = (ctrl_down inp 0 \<noteq> 0 \<or> ctrl_down inp 1 \<noteq> 0);
           alt = (alt_down inp 0 \<noteq> 0 \<or> alt_down inp 1 \<noteq> 0)
       in
       if ctrl \<or> alt then push_event cpu (mk_event ctrl alt ch) (inp, s)
       else
         let shift = (if of_char ch \<ge> (of_char (CHR ''a'') :: nat) \<and> of_char ch \<le> (of_char (CHR ''z'') :: nat)
                      then shift XOR capslock inp else shift)
         in
         if shift \<noteq> 0 then push_event cpu (mk_event False False (keymap_shift key)) (inp, s)
         else push_event cpu (mk_event False False ch) (inp, s)))"

text \<open>A key code is an \<^verbatim>\<open>int\<close> whose bit 15 tells that the key goes down.\<close>

definition input_keydown :: "nat \<Rightarrow> u32 \<Rightarrow> input \<times> kmt \<Rightarrow> (input \<times> kmt) res" where
  "input_keydown cpu code = (\<lambda>(inp, s).
     let key = unat (code AND NOT 0x8000) in
     if code AND 0x8000 \<noteq> 0 then
       if key = KEY ''CAPSLOCK'' then Inr (inp\<lparr>capslock := capslock inp XOR 1\<rparr>, s)
       else if key = KEY ''LCTRL'' then Inr (inp\<lparr>ctrl_down := (ctrl_down inp)(0 := 1)\<rparr>, s)
       else if key = KEY ''RCTRL'' then Inr (inp\<lparr>ctrl_down := (ctrl_down inp)(1 := 1)\<rparr>, s)
       else if key = KEY ''LALT'' then Inr (inp\<lparr>alt_down := (alt_down inp)(0 := 1)\<rparr>, s)
       else if key = KEY ''RALT'' then Inr (inp\<lparr>alt_down := (alt_down inp)(1 := 1)\<rparr>, s)
       else if key = KEY ''LSHIFT'' then Inr (inp\<lparr>shift_down := (shift_down inp)(0 := 1)\<rparr>, s)
       else if key = KEY ''RSHIFT'' then Inr (inp\<lparr>shift_down := (shift_down inp)(1 := 1)\<rparr>, s)
       else key_char cpu key (inp, s)
     else
       if key = KEY ''LCTRL'' then Inr (inp\<lparr>ctrl_down := (ctrl_down inp)(0 := 0)\<rparr>, s)
       else if key = KEY ''RCTRL'' then Inr (inp\<lparr>ctrl_down := (ctrl_down inp)(1 := 0)\<rparr>, s)
       else if key = KEY ''LALT'' then Inr (inp\<lparr>alt_down := (alt_down inp)(0 := 0)\<rparr>, s)
       else if key = KEY ''RALT'' then Inr (inp\<lparr>alt_down := (alt_down inp)(1 := 0)\<rparr>, s)
       else if key = KEY ''LSHIFT'' then Inr (inp\<lparr>shift_down := (shift_down inp)(0 := 0)\<rparr>, s)
       else if key = KEY ''RSHIFT'' then Inr (inp\<lparr>shift_down := (shift_down inp)(1 := 0)\<rparr>, s)
       else Inr (inp, s))"

text \<open>\<^verbatim>\<open>read_key\<close> on the contents of the keyboard register.\<close>

definition read_key :: "bool \<times> u32 \<Rightarrow> u32" where
  "read_key = (\<lambda>(keydown, keycode). if keydown then keycode OR 0x8000 else keycode)"

text \<open>
  The inner loop of \<^verbatim>\<open>input_task\<close> over the successive contents of the register; an exhausted keyboard
  delivers code zero.
\<close>

fun input_drain :: "nat \<Rightarrow> (bool \<times> u32) list \<Rightarrow> input \<times> kmt \<Rightarrow> (input \<times> kmt) res" where
  "input_drain cpu [] x = Inr x"
| "input_drain cpu (r # rs) x =
     (if read_key r \<noteq> 0 then bindE (input_keydown cpu (read_key r) x) (input_drain cpu rs) else Inr x)"

text \<open>One round of \<^verbatim>\<open>input_task\<close>: drain the keyboard, then wait for its interrupt; the flag tells that the task sleeps.\<close>

definition input_round :: "nat \<Rightarrow> (bool \<times> u32) list \<Rightarrow> sem \<Rightarrow> input \<times> kmt \<Rightarrow> (bool \<times> sem \<times> input \<times> kmt) res" where
  "input_round cpu rs kbdirq x =
     bindE (input_drain cpu rs x) (\<lambda>(inp, s).
     bindE (kmt_sem_wait cpu kbdirq s) (\<lambda>(slept, q, s). Inr (slept, q, inp, s)))"

definition input_notify :: "nat \<Rightarrow> event \<Rightarrow> Context \<Rightarrow> sem \<times> kmt \<Rightarrow> (Context option \<times> sem \<times> kmt) res" where
  "input_notify cpu ev ctx = (\<lambda>(kbdirq, s). bindE (kmt_sem_signal cpu kbdirq s) (\<lambda>(q, s). Inr (None, q, s)))"

text \<open>The memory of the device is not cleared: the modifier fields of \<open>inp\<close> stay what they were.\<close>

definition input_init :: "input \<Rightarrow> sem \<Rightarrow> irq_handler item_table \<Rightarrow> pmm \<Rightarrow> procfs \<Rightarrow>
    (input \<times> sem \<times> irq_handler item_table \<times> pmm \<times> procfs) res" where
  "input_init inp kbdirq t p pf =
     bindE (kalloc (of_nat (4 * NEVENTS)) p pf) (\<lambda>(_, p, pf).
     let inp = inp\<lparr>in_front := 0, in_rear := 0\<rparr> in
     bindE (kmt_spin_init ''/dev/input lock'' (in_lock inp)) (\<lambda>lk.
     bindE (kmt_sem_init ''events in queue'' 0 (event_sem inp)) (\<lambda>q.
     bindE (kmt_sem_init ''keyboard-interrupt'' 0 kbdirq) (\<lambda>kbdirq.
     bindE (os_on_irq 0 EVENT_IRQ_IODEV Input_notify t) (\<lambda>t.
     Inr (inp\<lparr>in_lock := lk, event_sem := q\<rparr>, kbdirq, t, p, pf))))))"

text \<open>\<^verbatim>\<open>input_read\<close>: the returned count and what is copied to the buffer.\<close>

definition input_read :: "nat \<Rightarrow> nat \<Rightarrow> input \<times> kmt \<Rightarrow> ((nat \<times> input_event option) option \<times> input \<times> kmt) res" where
  "input_read cpu cnt x =
     bindE (pop_event cpu x) (\<lambda>(ev, inp, s).
     Inr (map_option (\<lambda>e. if 4 \<le> cnt then (4, Some e) else (0, None)) ev, inp, s))"

definition input_write :: "nat \<Rightarrow> nat" where
  "input_write cnt = 0"

section \<open>The queue of events\<close>

definition in_items :: "input \<Rightarrow> input_event list" where
  "in_items inp = ring_items (events inp) NEVENTS (in_front inp) (in_rear inp)"

text \<open>Between two operations, with nobody waiting for an event: the semaphore counts the events in the ring.\<close>

definition input_ok :: "input \<times> kmt \<Rightarrow> bool" where
  "input_ok = (\<lambda>(inp, s). in_front inp < NEVENTS \<and> in_rear inp < NEVENTS \<and> sl_locked (in_lock inp) = UNLOCKED \<and>
     sem_ok (event_sem inp) \<and> sem_value (event_sem inp) = int (length (in_items inp)) \<and> cli_mutex s = UNLOCKED)"

text \<open>What the queue operations leave alone.\<close>

definition same_keys :: "input \<Rightarrow> input \<Rightarrow> bool" where
  "same_keys a b \<longleftrightarrow> capslock b = capslock a \<and> shift_down b = shift_down a \<and> ctrl_down b = ctrl_down a \<and> alt_down b = alt_down a"

lemma push_event_ok:
  assumes ok: "input_ok (inp, s)" and room: "length (in_items inp) < NEVENTS - 1"
  shows "\<exists>inp' s'. push_event cpu ev (inp, s) = Inr (inp', s') \<and> input_ok (inp', s') \<and>
    in_items inp' = in_items inp @ [ev] \<and> same_keys inp inp'"
proof -
  let ?lk = "(in_lock inp)\<lparr>sl_locked := LOCKED, sl_cpu := int cpu\<rparr>"
  let ?r = "(in_rear inp + 1) mod NEVENTS"
  obtain s1 where s1: "kmt_spin_lock cpu (in_lock inp) s = Inr (?lk, s1)"
    using ok spin_lock_ex by (force simp: input_ok_def)
  note t1 = spin_lock_InrD [OF s1]
  obtain lk2 s2 where s2: "kmt_spin_unlock cpu ?lk s1 = Inr (lk2, s2)" using t1 spin_unlock_ex by blast
  note t2 = spin_unlock_InrD [OF s2]
  obtain q s3 where q: "kmt_sem_signal cpu (event_sem inp) s2 = Inr (q, s3)" "sem_ok q"
      "sem_value q = sem_value (event_sem inp) + 1" "cli_mutex s3 = UNLOCKED"
    using sem_signal_free [of "event_sem inp" s2 cpu] ok t2 by (auto simp: input_ok_def)
  have len: "ring_len NEVENTS (in_front inp) (in_rear inp) < NEVENTS - 1" using room by (simp add: in_items_def)
  have fr: "in_front inp < NEVENTS" "in_rear inp < NEVENTS" using ok by (auto simp: input_ok_def)
  have ne: "?r \<noteq> in_front inp" using ring_len_full [OF fr] len by auto
  have items: "ring_items ((events inp)(in_rear inp := ev)) NEVENTS (in_front inp) ?r = in_items inp @ [ev]"
    unfolding in_items_def by (rule ring_push [OF fr len])
  have rlt: "?r < NEVENTS" by (simp add: NEVENTS_def)
  let ?inp = "inp\<lparr>events := (events inp)(in_rear inp := ev), in_rear := ?r, in_lock := lk2, event_sem := q\<rparr>"
  have "push_event cpu ev (inp, s) = Inr (?inp, s3)"
    using s1 s2 q(1) ne by (simp add: push_event_def Let_def)
  moreover have "in_items ?inp = in_items inp @ [ev]" using items by (simp add: in_items_def)
  ultimately show ?thesis
    using fr rlt t2 q ok by (intro exI [of _ ?inp] exI [of _ s3]) (simp add: input_ok_def same_keys_def)
qed

lemma pop_event_ok:
  assumes ok: "input_ok (inp, s)" and ev: "in_items inp = ev # evs"
  shows "\<exists>inp' s'. pop_event cpu (inp, s) = Inr (Some ev, inp', s') \<and> input_ok (inp', s') \<and> in_items inp' = evs \<and> same_keys inp inp'"
proof -
  let ?lk = "(in_lock inp)\<lparr>sl_locked := LOCKED, sl_cpu := int cpu\<rparr>"
  let ?f = "(in_front inp + 1) mod NEVENTS"
  have fr: "in_front inp < NEVENTS" "in_rear inp < NEVENTS" using ok by (auto simp: input_ok_def)
  have v: "sem_value (event_sem inp) = int (length (ev # evs))" using ok ev by (simp add: input_ok_def)
  obtain q s1 where q: "kmt_sem_wait cpu (event_sem inp) s = Inr (False, q, s1)" "sem_ok q"
      "sem_value q = sem_value (event_sem inp) - 1" "cli_mutex s1 = UNLOCKED"
    using sem_wait_pass [of "event_sem inp" s cpu] ok v by (auto simp: input_ok_def)
  obtain s2 where s2: "kmt_spin_lock cpu (in_lock inp) s1 = Inr (?lk, s2)"
    using ok q(4) spin_lock_ex by (force simp: input_ok_def)
  note t2 = spin_lock_InrD [OF s2]
  obtain lk3 s3 where s3: "kmt_spin_unlock cpu ?lk s2 = Inr (lk3, s3)" using t2 spin_unlock_ex by blast
  note t3 = spin_unlock_InrD [OF s3]
  have ne: "in_rear inp \<noteq> in_front inp"
    using ring_len_0 [OF fr] ev length_ring_items [of "events inp" NEVENTS "in_front inp" "in_rear inp"] by (auto simp: in_items_def)
  have items: "events inp (in_front inp) = ev" "ring_items (events inp) NEVENTS ?f (in_rear inp) = evs"
    using ring_pop [OF fr ne [symmetric], of "events inp"] ev by (simp_all add: in_items_def)
  have flt: "?f < NEVENTS" by (simp add: NEVENTS_def)
  let ?inp = "inp\<lparr>event_sem := q, in_front := ?f, in_lock := lk3\<rparr>"
  have "pop_event cpu (inp, s) = Inr (Some ev, ?inp, s3)"
    using q(1) s2 s3 ne items(1) by (simp add: pop_event_def pop_event_rest_def Let_def)
  moreover have "in_items ?inp = evs" using items(2) by (simp add: in_items_def)
  ultimately show ?thesis
    using fr flt t3 q v ok by (intro exI [of _ ?inp] exI [of _ s3]) (simp add: input_ok_def same_keys_def)
qed

definition event_get :: "nat \<Rightarrow> input \<times> kmt \<Rightarrow> (input_event \<times> input \<times> kmt) res" where
  "event_get cpu x = bindE (pop_event cpu x) (\<lambda>(ev, x). case ev of None \<Rightarrow> Inl Blocked | Some e \<Rightarrow> Inr (e, x))"

interpretation evq: bounded_queue input_ok "\<lambda>x. in_items (fst x)" "NEVENTS - 1" "push_event cpu" "event_get cpu" for cpu
proof (unfold_locales, goal_cases)
  case (1 q x)
  then show ?case using push_event_ok [of "fst q" "snd q" cpu x] by auto
next
  case (2 q x xs)
  then show ?case using pop_event_ok [of "fst q" "snd q" x xs cpu] by (auto simp: event_get_def)
qed

section \<open>Typing\<close>

text \<open>The key map by codes instead of names.\<close>

definition key_codes :: "(nat \<times> char) list" where
  "key_codes = map (\<lambda>(n, c). (KEY n, c)) keymap_list"

lemma key_codes_eq [code]:
  "key_codes =
   [(24, CHR ''0''), (15, CHR ''1''), (16, CHR ''2''), (17, CHR ''3''), (18, CHR ''4''), (19, CHR ''5''), (20, CHR ''6''),
    (21, CHR ''7''), (22, CHR ''8''), (23, CHR ''9''), (14, CHR 0x60), (25, CHR ''-''), (26, CHR ''=''), (39, CHR ''[''),
    (40, CHR '']''), (41, CHR 0x5C), (52, CHR '';''), (53, CHR 0x27), (54, CHR 0x0A), (63, CHR '',''), (64, CHR ''.''), (65,
    CHR ''/''), (70, CHR '' ''), (27, CHR 0x08), (43, CHR ''a''), (60, CHR ''b''), (58, CHR ''c''), (45, CHR ''d''), (31,
    CHR ''e''), (46, CHR ''f''), (47, CHR ''g''), (48, CHR ''h''), (36, CHR ''i''), (49, CHR ''j''), (50, CHR ''k''), (51,
    CHR ''l''), (62, CHR ''m''), (61, CHR ''n''), (37, CHR ''o''), (38, CHR ''p''), (29, CHR ''q''), (32, CHR ''r''), (44,
    CHR ''s''), (33, CHR ''t''), (35, CHR ''u''), (59, CHR ''v''), (30, CHR ''w''), (57, CHR ''x''), (34, CHR ''y''), (56,
    CHR ''z'')]"
  by code_simp

definition modifiers :: "nat list" where
  "modifiers = map KEY [''CAPSLOCK'', ''LCTRL'', ''RCTRL'', ''LALT'', ''RALT'', ''LSHIFT'', ''RSHIFT'']"

lemma modifiers_eq [code]: "modifiers = [42, 67, 72, 69, 71, 55, 66]"
  by code_simp

lemma keymap_find: "keymap k = (case find (\<lambda>(m, c). m = k) key_codes of Some (m, c) \<Rightarrow> c | None \<Rightarrow> CHR 0x00)"
proof -
  have "find (\<lambda>(m, c). m = k) (map (\<lambda>(n, c). (KEY n, c)) l) = map_option (\<lambda>(n, c). (KEY n, c)) (find (\<lambda>(n, c). KEY n = k) l)" for l
    by (induction l) auto
  from this [of keymap_list] show ?thesis
    unfolding keymap_def key_array_def key_codes_def by (simp only:) (auto split: option.splits)
qed

text \<open>The key of a character and the register contents when it is pressed and released.\<close>

definition key_for :: "char \<Rightarrow> nat" where
  "key_for c = (case find (\<lambda>(m, d). d = c) key_codes of Some (m, d) \<Rightarrow> m | None \<Rightarrow> 0)"

definition stroke :: "char \<Rightarrow> (bool \<times> u32) list" where
  "stroke c = [(True, of_nat (key_for c)), (False, of_nat (key_for c))]"

lemma key_table:
  "\<forall>c \<in> set (map snd key_codes). 0 < key_for c \<and> key_for c < 256 \<and>
     (case find (\<lambda>(m, d). m = key_for c) key_codes of Some (m, d) \<Rightarrow> d | None \<Rightarrow> CHR 0x00) = c \<and>
     c \<noteq> CHR 0x00 \<and> key_for c \<notin> set modifiers"
  by code_simp

lemma key_for_facts:
  assumes "c \<in> set (map snd key_codes)"
  shows "0 < key_for c" and "key_for c < 256" and "keymap (key_for c) = c" and "c \<noteq> CHR 0x00" and "key_for c \<notin> set modifiers"
  using key_table assms unfolding keymap_find by blast+

lemma code_bits:
  assumes "k < 256"
  shows "(of_nat k OR 0x8000 :: u32) AND 0x8000 \<noteq> 0" and "unat ((of_nat k OR 0x8000 :: u32) AND NOT 0x8000) = k"
    and "(of_nat k :: u32) AND 0x8000 = 0" and "unat ((of_nat k :: u32) AND NOT 0x8000) = k"
proof -
  have nb: "\<not> bit (of_nat k :: u32) 15"
    using assms by (simp add: bit_of_nat_iff bit_nat_def)
  have e: "(0x8000 :: u32) = 2 ^ 15" by simp
  show z: "(of_nat k :: u32) AND 0x8000 = 0"
    unfolding e using nb by (simp add: and_exp_eq_0_iff_not_bit del: power_numeral)
  have "bit (of_nat k OR 2 ^ 15 :: u32) 15" by (simp add: bit_or_iff bit_exp_iff del: power_numeral)
  then show "(of_nat k OR 0x8000 :: u32) AND 0x8000 \<noteq> 0"
    unfolding e by (simp add: and_exp_eq_0_iff_not_bit del: power_numeral)
  have "(of_nat k :: u32) AND NOT (2 ^ 15) = of_nat k" "(of_nat k OR 2 ^ 15 :: u32) AND NOT (2 ^ 15) = of_nat k"
    using nb by (auto intro!: bit_word_eqI simp: bit_simps simp del: power_numeral)
  then show "unat ((of_nat k :: u32) AND NOT 0x8000) = k" "unat ((of_nat k OR 0x8000 :: u32) AND NOT 0x8000) = k"
    unfolding e using assms by (simp_all add: unat_of_nat_u32)
qed

text \<open>No modifier key is down and the shift lock is off.\<close>

definition plain_keys :: "input \<Rightarrow> bool" where
  "plain_keys inp \<longleftrightarrow> capslock inp = 0 \<and> shift_down inp 0 = 0 \<and> shift_down inp 1 = 0 \<and> ctrl_down inp 0 = 0 \<and> ctrl_down inp 1 = 0 \<and>
     alt_down inp 0 = 0 \<and> alt_down inp 1 = 0"

lemma stroke_run:
  assumes c: "c \<in> set (map snd key_codes)" and ok: "input_ok (inp, s)" "plain_keys inp" and room: "length (in_items inp) < NEVENTS - 1"
  shows "\<exists>inp' s'. input_drain cpu (stroke c @ rs) (inp, s) = input_drain cpu rs (inp', s') \<and> input_ok (inp', s') \<and> plain_keys inp' \<and>
    in_items inp' = in_items inp @ [mk_event False False c]"
proof -
  note k = key_for_facts [OF c]
  note b = code_bits [OF k(2)]
  from push_event_ok [OF ok(1) room] obtain inp' s' where
    p: "push_event cpu (mk_event False False c) (inp, s) = Inr (inp', s')" "input_ok (inp', s')"
      "in_items inp' = in_items inp @ [mk_event False False c]" "same_keys inp inp'" by blast
  have m: "key_for c \<noteq> KEY n" if "n \<in> {''CAPSLOCK'', ''LCTRL'', ''RCTRL'', ''LALT'', ''RALT'', ''LSHIFT'', ''RSHIFT''}" for n
    using k(5) that by (auto simp: modifiers_def)
  have down: "input_keydown cpu (read_key (True, of_nat (key_for c))) (inp, s) = Inr (inp', s')"
    using b k m p(1) ok(2) by (simp add: input_keydown_def read_key_def key_char_def plain_keys_def Let_def)
  have up: "input_keydown cpu (read_key (False, of_nat (key_for c))) (inp', s') = Inr (inp', s')"
    using b m by (simp add: input_keydown_def read_key_def Let_def)
  have nz: "read_key (True, of_nat (key_for c)) \<noteq> 0" "read_key (False, of_nat (key_for c)) \<noteq> 0"
  proof -
    show "read_key (True, of_nat (key_for c)) \<noteq> 0"
    proof
      assume "read_key (True, of_nat (key_for c)) = 0"
      then have "(of_nat (key_for c) OR 0x8000 :: u32) = 0" by (simp add: read_key_def)
      then have "(of_nat (key_for c) OR 0x8000 :: u32) AND 0x8000 = 0" by (simp only: and_zero_eq and.left_neutral zero_and_eq)
      with b(1) show False by blast
    qed
    show "read_key (False, of_nat (key_for c)) \<noteq> 0" using b(4) k(1) by (auto simp: read_key_def)
  qed
  have "input_drain cpu (stroke c @ rs) (inp, s) = input_drain cpu rs (inp', s')"
    using down up nz by (simp add: stroke_def)
  moreover have "plain_keys inp'" using p(4) ok(2) by (simp add: same_keys_def plain_keys_def)
  ultimately show ?thesis using p by blast
qed

section \<open>Results\<close>

text \<open>
  C14: the ring of events is a first-in first-out queue for its clients: as long as at most 127 events
  wait and readers come after the events, every sequence of pushes and pops runs to its end and delivers
  the events in the order in which they were pushed.
\<close>

theorem event_queue_fifo:
  assumes "input_ok x" and "qlegal (NEVENTS - 1) (length (in_items (fst x))) ops"
  shows "\<exists>outs x'. qrun (push_event cpu) (event_get cpu) ops x = Inr (outs, x') \<and> input_ok x' \<and>
    outs @ in_items (fst x') = in_items (fst x) @ puts_of ops"
  by (rule evq.run_fifo [OF assms])

text \<open>An idle keyboard with an empty queue.\<close>

definition idle_input :: input where
  "idle_input = \<lparr>in_lock = sem_lk sem0, event_sem = sem0, events = (\<lambda>_. mk_event False False CHR 0x00), in_front = 0, in_rear = 0,
     capslock = 0, shift_down = (\<lambda>_. 0), ctrl_down = (\<lambda>_. 0), alt_down = (\<lambda>_. 0)\<rparr>"

lemma idle_input_ok: "input_ok (idle_input, duo)" "plain_keys idle_input" "in_items idle_input = []"
  by (simp_all add: input_ok_def idle_input_def NEVENTS_def sem0_def duo_def in_items_def ring_items_def ring_len_def
      sem_ok_def sem_ring_def sem_items_def MAX_TASK_def plain_keys_def)

theorem event_queue_fifo_witness:
  "\<exists>outs x'. qrun (push_event 0) (event_get 0) [Put (mk_event False False (CHR ''a'')), Get] (idle_input, duo) = Inr (outs, x') \<and>
     outs @ in_items (fst x') = [mk_event False False (CHR ''a'')]"
  using event_queue_fifo [OF idle_input_ok(1), of "[Put (mk_event False False (CHR ''a'')), Get]" 0]
  by (auto simp: idle_input_ok(3) NEVENTS_def)

text \<open>
  Typing a text delivers it.  With no modifier down, pressing and releasing the keys of the characters
  of a text puts exactly these characters into the queue, in order, for every text over the 50 characters of
  the key map that fits.
\<close>

theorem input_types_text:
  assumes "input_ok (inp, s)" and "plain_keys inp" and "set cs \<subseteq> set (map snd key_codes)"
    and "length (in_items inp) + length cs \<le> NEVENTS - 1"
  shows "\<exists>inp' s'. input_drain cpu (concat (map stroke cs)) (inp, s) = Inr (inp', s') \<and> input_ok (inp', s') \<and> plain_keys inp' \<and>
    in_items inp' = in_items inp @ map (mk_event False False) cs"
  using assms
proof (induction cs arbitrary: inp s)
  case (Cons c cs)
  from stroke_run [of c inp s cpu "concat (map stroke cs)"] Cons.prems obtain inp1 s1 where
    1: "input_drain cpu (stroke c @ concat (map stroke cs)) (inp, s) = input_drain cpu (concat (map stroke cs)) (inp1, s1)"
      "input_ok (inp1, s1)" "plain_keys inp1" "in_items inp1 = in_items inp @ [mk_event False False c]" by auto
  from Cons.IH [OF 1(2,3)] Cons.prems 1(4) obtain inp' s' where
    "input_drain cpu (concat (map stroke cs)) (inp1, s1) = Inr (inp', s')" "input_ok (inp', s')" "plain_keys inp'"
      "in_items inp' = in_items inp1 @ map (mk_event False False) cs" by auto
  with 1 show ?case by simp
qed simp

theorem input_types_text_witness:
  "\<exists>inp' s'. input_drain 0 (concat (map stroke ''ls'')) (idle_input, duo) = Inr (inp', s') \<and>
     in_items inp' = map (mk_event False False) ''ls''"
proof -
  have "set ''ls'' \<subseteq> set (map snd key_codes)" unfolding key_codes_eq by simp
  then show ?thesis
    using input_types_text [OF idle_input_ok(1,2), of "''ls''" 0] by (auto simp: idle_input_ok(3) NEVENTS_def)
qed

end
