(* ===== verification/Tty.thy ===== *)
theory Tty
  imports Video Input
begin

text \<open>
  \<^verbatim>\<open>kernel/src/devices/tty/tty.c\<close>: terminals.  A terminal has a screen of characters with a cursor, and a ring in
  which typed characters are collected to lines.  Pointers into its arrays are indices; a wait that puts
  the caller to sleep is the outcome \<open>Blocked\<close>.
\<close>

section \<open>Data\<close>

definition TTY_COOK_BUF_SZ :: nat where "TTY_COOK_BUF_SZ = 1024"

record character =
  c_metadata :: u32
  c_ch :: char

definition tty_defaultch :: character where
  "tty_defaultch = \<lparr>c_metadata = 0, c_ch = CHR 0x00\<rparr>"

record tty_queue =
  q_buf :: "char list"
  q_front :: nat
  q_rear :: nat

record tty =
  tty_lock :: sem
  tty_cooked :: sem
  tty_display :: nat
  tty_lines :: nat
  tty_columns :: nat
  tty_size :: nat
  tty_buf :: "character list"
  tty_cursor :: nat
  tty_queue :: tty_queue
  tty_dirty :: "nat list"

section \<open>The queue of typed characters\<close>

definition tty_enqueue :: "char \<Rightarrow> tty_queue \<Rightarrow> tty_queue res" where
  "tty_enqueue ch q =
     bindE (guardE OutOfBounds (q_rear q < length (q_buf q))) (\<lambda>_.
     let q = q\<lparr>q_buf := (q_buf q)[q_rear q := ch], q_rear := q_rear q + 1\<rparr>;
         q = (if q_rear q = length (q_buf q) then q\<lparr>q_rear := 0\<rparr> else q)
     in
     bindE (guardE Halted (q_rear q \<noteq> q_front q)) (\<lambda>_.
     Inr (q\<lparr>q_buf := (q_buf q)[q_rear q := CHR 0x00]\<rparr>)))"

definition tty_pop_back :: "tty_queue \<Rightarrow> int \<times> tty_queue" where
  "tty_pop_back q =
     (if q_front q \<noteq> length (q_buf q) then
        let pos = (if q_rear q = 0 then length (q_buf q) else q_rear q) in
        if q_buf q ! (pos - 1) \<noteq> CHR 0x00 then (0, q\<lparr>q_rear := pos - 1, q_buf := (q_buf q)[pos - 1 := CHR 0x00]\<rparr>)
        else (1, q)
      else (1, q))"

section \<open>The screen\<close>

text \<open>\<^verbatim>\<open>memmove\<close> of \<open>n\<close> elements from position \<open>c\<close> to the start of an array.\<close>

definition move_up :: "nat \<Rightarrow> nat \<Rightarrow> 'a list \<Rightarrow> 'a list" where
  "move_up c n xs = take n (drop c xs) @ drop n xs"

definition set_char :: "nat \<Rightarrow> (character \<Rightarrow> character) \<Rightarrow> tty \<Rightarrow> tty res" where
  "set_char i f t =
     bindE (guardE OutOfBounds (i < length (tty_buf t))) (\<lambda>_.
     Inr (t\<lparr>tty_buf := (tty_buf t)[i := f (tty_buf t ! i)]\<rparr>))"

fun clear_loop :: "nat list \<Rightarrow> tty \<Rightarrow> tty res" where
  "clear_loop [] t = Inr t"
| "clear_loop (i # is) t = bindE (set_char (tty_cursor t + i) (\<lambda>_. tty_defaultch) t) (clear_loop is)"

definition tty_upd_scrollup :: "tty \<Rightarrow> tty res" where
  "tty_upd_scrollup t =
     (let move_sz = tty_columns t * (tty_lines t - 1) in
      bindE (guardE OutOfBounds (tty_columns t + move_sz \<le> length (tty_buf t) \<and> tty_columns t + move_sz \<le> length (tty_dirty t) \<and>
        tty_columns t \<le> tty_cursor t)) (\<lambda>_.
      let t = t\<lparr>tty_buf := move_up (tty_columns t) move_sz (tty_buf t),
                tty_dirty := move_up (tty_columns t) move_sz (tty_dirty t),
                tty_cursor := tty_cursor t - tty_columns t\<rparr>
      in clear_loop [0..<tty_columns t] t))"

definition tty_upd_cr :: "tty \<Rightarrow> tty" where
  "tty_upd_cr t = t\<lparr>tty_cursor := tty_cursor t - tty_cursor t mod tty_columns t\<rparr>"

definition tty_upd_lf :: "tty \<Rightarrow> tty" where
  "tty_upd_lf t = t\<lparr>tty_cursor := tty_cursor t + tty_columns t\<rparr>"

definition tty_upd_backsp :: "tty \<Rightarrow> tty res" where
  "tty_upd_backsp t =
     (if 0 < tty_cursor t then
        let t = t\<lparr>tty_cursor := tty_cursor t - 1\<rparr> in set_char (tty_cursor t) (\<lambda>c. c\<lparr>c_ch := CHR 0x00\<rparr>) t
      else Inr t)"

definition tty_upd_putc :: "char \<Rightarrow> tty \<Rightarrow> tty res" where
  "tty_upd_putc ch t =
     bindE (set_char (tty_cursor t) (\<lambda>c. c\<lparr>c_ch := ch\<rparr>) t) (\<lambda>t.
     Inr (t\<lparr>tty_cursor := tty_cursor t + 1\<rparr>))"

section \<open>Marking\<close>

definition tty_mark :: "nat \<Rightarrow> tty \<Rightarrow> tty res" where
  "tty_mark i t = bindE (guardE OutOfBounds (i < length (tty_dirty t))) (\<lambda>_. Inr (t\<lparr>tty_dirty := (tty_dirty t)[i := 1]\<rparr>))"

fun mark_loop :: "nat list \<Rightarrow> tty \<Rightarrow> tty res" where
  "mark_loop [] t = Inr t"
| "mark_loop (i # is) t = bindE (tty_mark i t) (mark_loop is)"

definition tty_mark_line :: "nat \<Rightarrow> tty \<Rightarrow> tty res" where
  "tty_mark_line ch t = (let x = ch mod tty_columns t in mark_loop [ch - x..<ch - x + tty_columns t] t)"

definition tty_mark_all :: "tty \<Rightarrow> tty res" where
  "tty_mark_all t = mark_loop [0..<tty_size t] t"

section \<open>Writing\<close>

definition tty_putc :: "char \<Rightarrow> tty \<Rightarrow> tty res" where
  "tty_putc ch t =
     (if ch = CHR 0x0D then
        let t = tty_upd_cr t in tty_mark_line (tty_cursor t) t
      else if ch = CHR 0x08 then
        bindE (tty_upd_backsp t) (\<lambda>t.
        bindE (tty_mark (tty_cursor t) t) (\<lambda>t.
        tty_mark (tty_cursor t + 1) t))
      else if ch = CHR 0x0A then
        let t = tty_upd_lf (tty_upd_cr t) in
        if tty_cursor t = tty_size t then bindE (tty_upd_scrollup t) tty_mark_all
        else
          bindE (tty_mark_line (tty_cursor t - tty_columns t) t) (\<lambda>t.
          tty_mark_line (tty_cursor t) t)
      else
        bindE (tty_upd_putc ch t) (\<lambda>t.
        if tty_cursor t = tty_size t then bindE (tty_upd_scrollup t) tty_mark_all
        else
          bindE (tty_mark (tty_cursor t - 1) t) (\<lambda>t.
          tty_mark (tty_cursor t) t)))"

fun tty_puts :: "string \<Rightarrow> tty \<Rightarrow> tty res" where
  "tty_puts [] t = Inr t"
| "tty_puts (c # cs) t = bindE (tty_putc c t) (tty_puts cs)"

text \<open>The two sprites of a cell; texture numbers and coordinates are truncated to 16 bits.\<close>

definition cell_sprites :: "tty \<Rightarrow> nat \<Rightarrow> nat \<Rightarrow> u8 list" where
  "cell_sprites t y x =
     (let i = y * tty_columns t + x;
          draw = (if i = tty_cursor t then 0xdb else of_char (c_ch (tty_buf t ! i)))
      in
      enc_sprite \<lparr>sp_texture = of_nat (draw * 2 + 1), sp_x = of_nat (x * 8), sp_y = of_nat (y * 16),
                  sp_display = of_nat (tty_display t), sp_z = 0\<rparr> @
      enc_sprite \<lparr>sp_texture = of_nat (draw * 2 + 2), sp_x = of_nat (x * 8), sp_y = of_nat (y * 16 + 8),
                  sp_display = of_nat (tty_display t), sp_z = 0\<rparr>)"

fun render_loop :: "nat \<Rightarrow> (nat \<times> nat) list \<Rightarrow> tty \<Rightarrow> fb \<times> kmt \<Rightarrow> (fb \<times> kmt) res" where
  "render_loop cpu [] t x = Inr x"
| "render_loop cpu ((j, k) # cells) t x =
     (if tty_dirty t ! (j * tty_columns t + k) \<noteq> 0 then
        bindE (fb_write cpu SPRITE_BRK (cell_sprites t j k) x) (\<lambda>(_, x). render_loop cpu cells t x)
      else render_loop cpu cells t x)"

definition cells :: "nat \<Rightarrow> nat \<Rightarrow> (nat \<times> nat) list" where
  "cells lines columns = concat (map (\<lambda>y. map (\<lambda>x. (y, x)) [0..<columns]) [0..<lines])"

definition tty_render :: "nat \<Rightarrow> tty \<times> fb \<times> kmt \<Rightarrow> (tty \<times> fb \<times> kmt) res" where
  "tty_render cpu = (\<lambda>(t, f, s).
     bindE (kmt_sem_wait cpu (tty_lock t) s) (\<lambda>(slept, q, s).
     if slept then Inl Blocked
     else
       let t = t\<lparr>tty_lock := q\<rparr> in
       bindE (render_loop cpu (cells (tty_lines t) (tty_columns t)) t (f, s)) (\<lambda>(f, s).
       bindE (kmt_sem_signal cpu (tty_lock t) s) (\<lambda>(q, s).
       Inr (t\<lparr>tty_lock := q\<rparr>, f, s)))))"

definition tty_write :: "nat \<Rightarrow> string \<Rightarrow> tty \<times> fb \<times> kmt \<Rightarrow> (nat \<times> tty \<times> fb \<times> kmt) res" where
  "tty_write cpu buf = (\<lambda>(t, f, s).
     bindE (kmt_sem_wait cpu (tty_lock t) s) (\<lambda>(slept, q, s).
     if slept then Inl Blocked
     else
       bindE (tty_puts buf (t\<lparr>tty_lock := q\<rparr>)) (\<lambda>t.
       bindE (kmt_sem_signal cpu (tty_lock t) s) (\<lambda>(q, s).
       bindE (tty_render cpu (t\<lparr>tty_lock := q\<rparr>, f, s)) (\<lambda>x.
       Inr (length buf, x))))))"

section \<open>Lines\<close>

text \<open>The switch of \<^verbatim>\<open>tty_cook\<close> on the queue: the result, the queue and whether a line is complete.\<close>

definition cook_char :: "char \<Rightarrow> tty_queue \<Rightarrow> (int \<times> tty_queue \<times> bool) res" where
  "cook_char ch q =
     (if ch = CHR 0x0A then
        bindE (tty_enqueue ch q) (\<lambda>q.
        bindE (tty_enqueue CHR 0x00 q) (\<lambda>q. Inr (0, q, True)))
      else if ch = CHR 0x08 then
        let (ret, q) = tty_pop_back q in Inr (ret, q, False)
      else bindE (tty_enqueue ch q) (\<lambda>q. Inr (0, q, False)))"

definition tty_cook :: "nat \<Rightarrow> char \<Rightarrow> tty \<times> kmt \<Rightarrow> (int \<times> tty \<times> kmt) res" where
  "tty_cook cpu ch = (\<lambda>(t, s).
     bindE (kmt_sem_wait cpu (tty_lock t) s) (\<lambda>(slept, l, s).
     if slept then Inl Blocked
     else
       bindE (cook_char ch (tty_queue t)) (\<lambda>(ret, q, fin).
       bindE (if fin then kmt_sem_signal cpu (tty_cooked t) s else Inr (tty_cooked t, s)) (\<lambda>(ck, s).
       bindE (kmt_sem_signal cpu l s) (\<lambda>(l, s).
       Inr (ret, t\<lparr>tty_queue := q, tty_cooked := ck, tty_lock := l\<rparr>, s))))))"

text \<open>
  The loop of \<^verbatim>\<open>tty_read\<close>: the characters up to the next zero byte.  After one round without a zero byte it
  never ends.  The number it returns is the length of the line, also when only \<open>cnt\<close> bytes were copied.
\<close>

fun read_loop :: "nat \<Rightarrow> tty_queue \<Rightarrow> string \<Rightarrow> (string \<times> tty_queue) res" where
  "read_loop 0 q acc = Inl Diverge"
| "read_loop (Suc fuel) q acc =
     bindE (guardE OutOfBounds (q_front q < length (q_buf q))) (\<lambda>_.
     let ch = q_buf q ! q_front q;
         q = q\<lparr>q_front := q_front q + 1\<rparr>;
         q = (if q_front q = length (q_buf q) then q\<lparr>q_front := 0\<rparr> else q)
     in if ch = CHR 0x00 then Inr (acc, q) else read_loop fuel q (acc @ [ch]))"

definition tty_read :: "nat \<Rightarrow> nat \<Rightarrow> tty \<times> kmt \<Rightarrow> (nat \<times> string \<times> tty \<times> kmt) res" where
  "tty_read cpu cnt = (\<lambda>(t, s).
     bindE (kmt_sem_wait cpu (tty_cooked t) s) (\<lambda>(slept, ck, s).
     if slept then Inl Blocked
     else
       bindE (kmt_sem_wait cpu (tty_lock t) s) (\<lambda>(slept, l, s).
       if slept then Inl Blocked
       else
         bindE (read_loop (TTY_COOK_BUF_SZ + 1) (tty_queue t) []) (\<lambda>(line, q).
         bindE (kmt_sem_signal cpu l s) (\<lambda>(l, s).
         Inr (length line, take cnt line, t\<lparr>tty_queue := q, tty_cooked := ck, tty_lock := l\<rparr>, s))))))"

section \<open>Initialisation and the terminal task\<close>

text \<open>\<open>mem\<close> is what the memory of the ring holds, which is not cleared.\<close>

definition tty_init :: "int \<Rightarrow> display_info \<Rightarrow> char list \<Rightarrow> tty \<Rightarrow> pmm \<Rightarrow> procfs \<Rightarrow> (tty \<times> pmm \<times> procfs) res" where
  "tty_init dev_id info mem t p pf =
     (let lines = unat (di_height info) div 16;
          columns = unat (di_width info) div 8;
          sz = columns * lines
      in
      bindE (kalloc (of_nat (sz * 8)) p pf) (\<lambda>(_, p, pf).
      bindE (kalloc (of_nat sz) p pf) (\<lambda>(_, p, pf).
      bindE (kalloc (of_nat TTY_COOK_BUF_SZ) p pf) (\<lambda>(_, p, pf).
      let t = t\<lparr>tty_display := nat (dev_id - 1), tty_lines := lines, tty_columns := columns, tty_size := sz,
                tty_buf := replicate sz tty_defaultch, tty_dirty := replicate sz 1, tty_cursor := 0,
                tty_queue := \<lparr>q_buf = take TTY_COOK_BUF_SZ (mem @ replicate TTY_COOK_BUF_SZ CHR 0x00), q_front = 0, q_rear = 0\<rparr>\<rparr>
      in
      bindE (kmt_sem_init ''tty lock'' 1 (tty_lock t)) (\<lambda>l.
      bindE (kmt_sem_init ''tty cooked lines'' 0 (tty_cooked t)) (\<lambda>ck.
      Inr (t\<lparr>tty_lock := l, tty_cooked := ck\<rparr>, p, pf)))))))"

text \<open>
  One turn of the loop of \<^verbatim>\<open>tty_task\<close> after an event was read: the current terminal and the terminals, by
  name.  The data of an event are 16 bits, of which a character keeps eight.
\<close>

definition next_tty :: "string \<Rightarrow> u16 \<Rightarrow> string" where
  "next_tty cur d =
     (if d = of_nat (of_char (CHR ''1'')) then ''tty1'' else if d = of_nat (of_char (CHR ''2'')) then ''tty2''
      else if d = of_nat (of_char (CHR ''3'')) then ''tty3'' else if d = of_nat (of_char (CHR ''4'')) then ''tty4'' else cur)"

definition switch_tty :: "nat \<Rightarrow> string \<Rightarrow> (string \<Rightarrow> tty) \<times> fb \<times> kmt \<Rightarrow> ((string \<Rightarrow> tty) \<times> fb \<times> kmt) res" where
  "switch_tty cpu new = (\<lambda>(ttys, f, s).
     bindE (tty_mark_all (ttys new)) (\<lambda>t.
     bindE (fb_write cpu 0 (replicate 12 0 @ enc32 (of_nat (tty_display t)) @ replicate 8 0) (f, s)) (\<lambda>(_, f, s).
     bindE (tty_write cpu [] (t, f, s)) (\<lambda>(_, t, f, s).
     Inr (ttys(new := t), f, s)))))"

definition tty_task_turn :: "nat \<Rightarrow> input_event \<Rightarrow> string \<Rightarrow> (string \<Rightarrow> tty) \<times> fb \<times> kmt \<Rightarrow>
    (string \<times> (string \<Rightarrow> tty) \<times> fb \<times> kmt) res" where
  "tty_task_turn cpu ev cur x =
     bindE (if ev_alt ev \<and> next_tty cur (ev_data ev) \<noteq> cur
            then bindE (switch_tty cpu (next_tty cur (ev_data ev)) x) (\<lambda>x. Inr (next_tty cur (ev_data ev), x))
            else Inr (cur, x)) (\<lambda>(cur, ttys, f, s).
     if \<not> ev_ctrl ev \<and> \<not> ev_alt ev then
       let ch = char_of_byte (ucast (ev_data ev)) in
       bindE (tty_cook cpu ch (ttys cur, s)) (\<lambda>(ret, t, s).
       if ret = 0 then
         bindE (tty_write cpu [ch] (t, f, s)) (\<lambda>(_, t, f, s). Inr (cur, ttys(cur := t), f, s))
       else Inr (cur, ttys(cur := t), f, s))
     else Inr (cur, ttys, f, s))"

end
