(* ===== verification/Tty_Correct.thy ===== *)
theory Tty_Correct
  imports Tty
begin

text \<open>
  The terminal seen from outside: its screen is a list of characters with a position, on which every
  character has a simple effect, and its queue is a line editor whose finished lines are read one by one.
\<close>

section \<open>The screen\<close>

definition tty_ok :: "tty \<Rightarrow> bool" where
  "tty_ok t \<longleftrightarrow> 0 < tty_columns t \<and> 2 \<le> tty_size t \<and> tty_size t = tty_columns t * tty_lines t \<and>
     length (tty_buf t) = tty_size t \<and> length (tty_dirty t) = tty_size t \<and> tty_cursor t < tty_size t"

definition screen :: "tty \<Rightarrow> char list \<times> nat" where
  "screen t = (map c_ch (tty_buf t), tty_cursor t)"

text \<open>The abstract screen: scrolling drops the first line and adds an empty one.\<close>

definition screen_scroll :: "nat \<Rightarrow> char list \<times> nat \<Rightarrow> char list \<times> nat" where
  "screen_scroll cols = (\<lambda>(xs, p). if p = length xs then (drop cols xs @ replicate cols CHR 0x00, p - cols) else (xs, p))"

definition screen_step :: "nat \<Rightarrow> char \<Rightarrow> char list \<times> nat \<Rightarrow> char list \<times> nat" where
  "screen_step cols ch = (\<lambda>(xs, p).
     if ch = CHR 0x0D then (xs, p - p mod cols)
     else if ch = CHR 0x08 then (if 0 < p then (xs[p - 1 := CHR 0x00], p - 1) else (xs, p))
     else if ch = CHR 0x0A then screen_scroll cols (xs, p - p mod cols + cols)
     else screen_scroll cols (xs[p := ch], p + 1))"

lemma mark_loop_run:
  "\<forall>i \<in> set is. i < length (tty_dirty t) \<Longrightarrow>
     \<exists>d. length d = length (tty_dirty t) \<and> mark_loop is t = Inr (t\<lparr>tty_dirty := d\<rparr>)"
proof (induction "is" arbitrary: t)
  case Nil
  then show ?case by (intro exI [of _ "tty_dirty t"]) simp
next
  case (Cons i "is")
  from Cons.IH [of "t\<lparr>tty_dirty := (tty_dirty t)[i := 1]\<rparr>"] Cons.prems show ?case by (simp add: tty_mark_def)
qed

lemma fold_clear:
  "c + n \<le> length xs \<Longrightarrow> fold (\<lambda>i b. b[c + i := d]) [0..<n] xs = take c xs @ replicate n d @ drop (c + n) xs"
proof (induction n)
  case (Suc n)
  then have "fold (\<lambda>i b. b[c + i := d]) [0..<Suc n] xs = (take c xs @ replicate n d @ drop (c + n) xs)[c + n := d]"
    by simp
  also have "\<dots> = take c xs @ replicate n d @ (drop (c + n) xs)[0 := d]"
    using Suc.prems by (simp add: list_update_append)
  also have "(drop (c + n) xs)[0 := d] = d # drop (c + Suc n) xs"
    using Suc.prems by (simp add: Cons_nth_drop_Suc [symmetric])
  finally show ?case by (simp add: replicate_append_same [symmetric])
qed simp

lemma clear_loop_run:
  "\<forall>i \<in> set is. tty_cursor t + i < length (tty_buf t) \<Longrightarrow>
     clear_loop is t = Inr (t\<lparr>tty_buf := fold (\<lambda>i b. b[tty_cursor t + i := tty_defaultch]) is (tty_buf t)\<rparr>)"
  by (induction "is" arbitrary: t) (simp_all add: set_char_def)

lemma scrollup_run:
  assumes "0 < tty_columns t" and "tty_size t = tty_columns t * tty_lines t" and "0 < tty_size t"
    and "length (tty_buf t) = tty_size t" and "length (tty_dirty t) = tty_size t" and "tty_cursor t = tty_size t"
  shows "\<exists>d. length d = tty_size t \<and> tty_upd_scrollup t = Inr (t\<lparr>tty_buf := drop (tty_columns t) (tty_buf t) @ replicate (tty_columns t) tty_defaultch,
    tty_dirty := d, tty_cursor := tty_size t - tty_columns t\<rparr>)"
proof -
  let ?c = "tty_columns t"
  let ?m = "?c * (tty_lines t - 1)"
  have m: "?c + ?m = tty_size t" using assms(2,3) by (cases "tty_lines t") auto
  let ?d = "move_up ?c ?m (tty_dirty t)"
  let ?t = "t\<lparr>tty_buf := move_up ?c ?m (tty_buf t), tty_dirty := ?d, tty_cursor := tty_size t - ?c\<rparr>"
  have len: "length (move_up ?c ?m (tty_buf t)) = tty_size t" "length ?d = tty_size t"
    using assms m by (simp_all add: move_up_def)
  have cur: "tty_size t - ?c = ?m" using m by simp
  have "tty_upd_scrollup t = clear_loop [0..<?c] ?t" using assms m by (simp add: tty_upd_scrollup_def Let_def)
  also have "\<dots> = Inr (?t\<lparr>tty_buf := take ?m (move_up ?c ?m (tty_buf t)) @ replicate ?c tty_defaultch\<rparr>)"
    using m len cur fold_clear [of ?m ?c "move_up ?c ?m (tty_buf t)" tty_defaultch] by (subst clear_loop_run) auto
  also have "take ?m (move_up ?c ?m (tty_buf t)) = drop ?c (tty_buf t)"
    using assms(4) m by (simp add: move_up_def)
  finally show ?thesis using len by auto
qed

lemma line_start:
  assumes "p < c * l" and "0 < (c :: nat)"
  shows "p - p mod c + c \<le> c * l" and "p - p mod c \<le> p"
proof -
  have e: "p - p mod c = c * (p div c)" by (simp add: minus_mod_eq_mult_div)
  have "p div c < l" using assms by (metis div_less_iff_less_mult mult.commute)
  then have "c * (p div c) + c \<le> c * l" by (metis Suc_leI mult_Suc_right mult_le_mono2 add.commute)
  with e show "p - p mod c + c \<le> c * l" by simp
qed simp

lemma mark_line_run:
  assumes "length (tty_dirty t) = tty_columns t * l" and "ch < tty_columns t * l" and "0 < tty_columns t"
  shows "\<exists>d. length d = length (tty_dirty t) \<and> tty_mark_line ch t = Inr (t\<lparr>tty_dirty := d\<rparr>)"
  using line_start [OF assms(2,3)] assms(1) unfolding tty_mark_line_def Let_def by (intro mark_loop_run) auto

lemma scroll_or_mark:
  assumes ok: "0 < tty_columns t" "2 \<le> tty_size t" "tty_size t = tty_columns t * tty_lines t"
    "length (tty_buf t) = tty_size t" "length (tty_dirty t) = tty_size t" and cur: "tty_cursor t = tty_size t"
  shows "\<exists>t'. bindE (tty_upd_scrollup t) tty_mark_all = Inr t' \<and> tty_ok t' \<and> screen t' = screen_scroll (tty_columns t) (screen t) \<and>
    tty_columns t' = tty_columns t \<and> tty_queue t' = tty_queue t"
proof -
  have sz: "0 < tty_size t" using ok(2) by simp
  from scrollup_run [OF ok(1,3) sz ok(4,5) cur] obtain d where d: "length d = tty_size t"
    "tty_upd_scrollup t = Inr (t\<lparr>tty_buf := drop (tty_columns t) (tty_buf t) @ replicate (tty_columns t) tty_defaultch,
      tty_dirty := d, tty_cursor := tty_size t - tty_columns t\<rparr>)" by blast
  let ?t = "t\<lparr>tty_buf := drop (tty_columns t) (tty_buf t) @ replicate (tty_columns t) tty_defaultch,
      tty_dirty := d, tty_cursor := tty_size t - tty_columns t\<rparr>"
  from mark_loop_run [of "[0..<tty_size t]" ?t] d obtain d' where
    d': "length d' = tty_size t" "tty_mark_all ?t = Inr (?t\<lparr>tty_dirty := d'\<rparr>)" by (auto simp: tty_mark_all_def)
  have le: "tty_columns t \<le> tty_size t" using ok(1,2,3) by (cases "tty_lines t") auto
  show ?thesis
    using d d' ok cur le by (intro exI [of _ "?t\<lparr>tty_dirty := d'\<rparr>"])
      (simp add: tty_ok_def screen_def screen_scroll_def drop_map tty_defaultch_def)
qed

lemma backsp_run:
  assumes ok: "tty_ok t"
  shows "\<exists>t1. tty_upd_backsp t = Inr t1 \<and> tty_ok t1 \<and> screen t1 = screen_step (tty_columns t) CHR 0x08 (screen t) \<and>
    tty_columns t1 = tty_columns t \<and> tty_queue t1 = tty_queue t \<and> tty_cursor t1 + 1 < tty_size t1"
proof (cases "0 < tty_cursor t")
  case True
  let ?p = "tty_cursor t - 1"
  have "tty_cursor t < tty_size t" "length (tty_buf t) = tty_size t" using ok by (simp_all add: tty_ok_def)
  then have p: "?p < length (tty_buf t)" "?p + 1 < tty_size t" using True by linarith+
  let ?t = "t\<lparr>tty_cursor := ?p, tty_buf := (tty_buf t)[?p := (tty_buf t ! ?p)\<lparr>c_ch := CHR 0x00\<rparr>]\<rparr>"
  have "tty_upd_backsp t = Inr ?t" using True p by (simp add: tty_upd_backsp_def set_char_def)
  moreover have "tty_ok ?t" using ok p by (simp add: tty_ok_def)
  moreover have "screen ?t = screen_step (tty_columns t) CHR 0x08 (screen t)"
    using True by (simp add: screen_def screen_step_def map_update)
  ultimately show ?thesis using p by (intro exI [of _ ?t]) simp
next
  case False
  then show ?thesis using ok by (auto simp: tty_upd_backsp_def screen_def screen_step_def tty_ok_def)
qed

lemma tty_okD:
  assumes "tty_ok t"
  shows "0 < tty_columns t" "2 \<le> tty_size t" "tty_size t = tty_columns t * tty_lines t" "length (tty_buf t) = tty_size t"
    "length (tty_dirty t) = tty_size t" "tty_cursor t < tty_size t"
  using assms by (auto simp: tty_ok_def)

text \<open>A character is printed as on the screen; one lemma for each kind of character.\<close>

definition prints :: "char \<Rightarrow> tty \<Rightarrow> bool" where
  "prints ch t \<longleftrightarrow> (\<exists>t'. tty_putc ch t = Inr t' \<and> tty_ok t' \<and> screen t' = screen_step (tty_columns t) ch (screen t) \<and>
    tty_columns t' = tty_columns t \<and> tty_queue t' = tty_queue t)"

lemma prints_cr:
  assumes "tty_ok t" and "ch = CHR 0x0D"
  shows "prints ch t"
proof -
  let ?c = "tty_columns t" and ?p = "tty_cursor t"
  note c = tty_okD [OF assms(1)]
  have lt0: "?p - ?p mod ?c < tty_size t" using c(6) by (meson diff_le_self le_less_trans)
  let ?t = "tty_upd_cr t"
  from mark_line_run [of ?t "tty_lines t" "tty_cursor ?t"] c lt0 obtain d where
    "length d = tty_size t" "tty_mark_line (tty_cursor ?t) ?t = Inr (?t\<lparr>tty_dirty := d\<rparr>)" by (auto simp: tty_upd_cr_def)
  then show ?thesis using assms(2) c lt0 unfolding prints_def by (simp add: tty_putc_def tty_ok_def screen_def screen_step_def tty_upd_cr_def)
qed

lemma prints_backsp:
  assumes "tty_ok t" and "ch = CHR 0x08"
  shows "prints ch t"
proof -
  let ?c = "tty_columns t" and ?p = "tty_cursor t"
  note c = tty_okD [OF assms(1)]
  from backsp_run [OF assms(1)] obtain t1 where t1: "tty_upd_backsp t = Inr t1" "tty_ok t1" "screen t1 = screen_step ?c ch (screen t)"
      "tty_columns t1 = ?c" "tty_queue t1 = tty_queue t" "tty_cursor t1 + 1 < tty_size t1"
    unfolding assms(2) by blast
  let ?t3 = "t1\<lparr>tty_dirty := (tty_dirty t1)[tty_cursor t1 := 1, tty_cursor t1 + 1 := 1]\<rparr>"
  have "tty_putc ch t = Inr ?t3" using assms(2) t1 by (simp add: tty_putc_def tty_mark_def tty_ok_def)
  then show ?thesis using t1 unfolding prints_def by (intro exI [of _ ?t3]) (simp add: tty_ok_def screen_def)
qed

lemma prints_lf:
  assumes "tty_ok t" and "ch = CHR 0x0A"
  shows "prints ch t"
proof -
  let ?c = "tty_columns t" and ?p = "tty_cursor t"
  note c = tty_okD [OF assms(1)]
  have ls: "?p - ?p mod ?c + ?c \<le> tty_size t" using line_start [of ?p ?c "tty_lines t"] c by simp
  let ?t = "tty_upd_lf (tty_upd_cr t)"
  have cur: "tty_cursor ?t = ?p - ?p mod ?c + ?c" by (simp add: tty_upd_lf_def tty_upd_cr_def)
  show ?thesis
  proof (cases "tty_cursor ?t = tty_size t")
    case True
    have "\<exists>t'. bindE (tty_upd_scrollup ?t) tty_mark_all = Inr t' \<and> tty_ok t' \<and> screen t' = screen_scroll (tty_columns ?t) (screen ?t) \<and>
        tty_columns t' = tty_columns ?t \<and> tty_queue t' = tty_queue ?t"
      by (rule scroll_or_mark) (use c True in \<open>simp_all add: tty_upd_lf_def tty_upd_cr_def\<close>)
    then show ?thesis using assms(2) True unfolding prints_def by (auto simp: tty_putc_def Let_def screen_step_def screen_def tty_upd_lf_def tty_upd_cr_def)
  next
    case False
    then have lt: "?p - ?p mod ?c + ?c < tty_size t" using cur ls by simp
    from mark_line_run [of ?t "tty_lines t" "tty_cursor ?t - ?c"] c lt obtain d where
      d: "length d = tty_size t" "tty_mark_line (tty_cursor ?t - ?c) ?t = Inr (?t\<lparr>tty_dirty := d\<rparr>)"
      by (auto simp: tty_upd_lf_def tty_upd_cr_def)
    from mark_line_run [of "?t\<lparr>tty_dirty := d\<rparr>" "tty_lines t" "tty_cursor ?t"] c lt d obtain d' where
      d': "length d' = tty_size t" "tty_mark_line (tty_cursor ?t) (?t\<lparr>tty_dirty := d\<rparr>) = Inr (?t\<lparr>tty_dirty := d'\<rparr>)"
      by (auto simp: tty_upd_lf_def tty_upd_cr_def)
    have "tty_putc ch t = Inr (?t\<lparr>tty_dirty := d'\<rparr>)"
      using assms(2) d d' False by (simp add: tty_putc_def Let_def) (simp add: tty_upd_lf_def tty_upd_cr_def)
    moreover have "tty_ok (?t\<lparr>tty_dirty := d'\<rparr>)"
      using c(1,4,5,6) c(3) [symmetric] lt d'(1) by (simp add: c(2) tty_ok_def tty_upd_lf_def tty_upd_cr_def)
    moreover have "screen (?t\<lparr>tty_dirty := d'\<rparr>) = screen_step ?c ch (screen t)"
      using assms(2) c(4) cur False by (simp add: screen_def screen_step_def screen_scroll_def) (simp add: tty_upd_lf_def tty_upd_cr_def)
    ultimately show ?thesis unfolding prints_def by (intro exI [of _ "?t\<lparr>tty_dirty := d'\<rparr>"]) (simp add: tty_upd_lf_def tty_upd_cr_def)
  qed
qed

lemma prints_plain:
  assumes "tty_ok t" and "ch \<noteq> CHR 0x0D" "ch \<noteq> CHR 0x08" "ch \<noteq> CHR 0x0A"
  shows "prints ch t"
proof -
  let ?c = "tty_columns t" and ?p = "tty_cursor t"
  note c = tty_okD [OF assms(1)]
  let ?t = "t\<lparr>tty_buf := (tty_buf t)[?p := (tty_buf t ! ?p)\<lparr>c_ch := ch\<rparr>], tty_cursor := ?p + 1\<rparr>"
  have put: "tty_upd_putc ch t = Inr ?t" using c by (simp add: tty_upd_putc_def set_char_def)
  have scr: "screen ?t = ((map c_ch (tty_buf t))[?p := ch], ?p + 1)" by (simp add: screen_def map_update)
  show ?thesis
  proof (cases "?p + 1 = tty_size t")
    case True
    have "\<exists>t'. bindE (tty_upd_scrollup ?t) tty_mark_all = Inr t' \<and> tty_ok t' \<and> screen t' = screen_scroll (tty_columns ?t) (screen ?t) \<and>
        tty_columns t' = tty_columns ?t \<and> tty_queue t' = tty_queue ?t"
      by (rule scroll_or_mark) (use c True in simp_all)
    then show ?thesis using assms(2-4) True put scr unfolding prints_def by (auto simp: tty_putc_def screen_step_def screen_def)
  next
    case False
    let ?t3 = "?t\<lparr>tty_dirty := (tty_dirty t)[?p := 1, ?p + 1 := 1]\<rparr>"
    have "tty_putc ch t = Inr ?t3" using assms(2-4) False put c by (simp add: tty_putc_def tty_mark_def)
    then show ?thesis
      using assms(2-4) False c unfolding prints_def by (intro exI [of _ ?t3]) (simp add: tty_ok_def screen_def screen_step_def screen_scroll_def map_update)
  qed
qed

lemma tty_putc_run:
  assumes "tty_ok t"
  shows "\<exists>t'. tty_putc ch t = Inr t' \<and> tty_ok t' \<and> screen t' = screen_step (tty_columns t) ch (screen t) \<and>
    tty_columns t' = tty_columns t \<and> tty_queue t' = tty_queue t"
  using prints_cr [OF assms, of ch] prints_backsp [OF assms, of ch] prints_lf [OF assms, of ch] prints_plain [OF assms, of ch]
  unfolding prints_def by blast

lemma tty_puts_run:
  "tty_ok t \<Longrightarrow> \<exists>t'. tty_puts cs t = Inr t' \<and> tty_ok t' \<and> screen t' = fold (screen_step (tty_columns t)) cs (screen t) \<and>
    tty_columns t' = tty_columns t \<and> tty_queue t' = tty_queue t"
proof (induction cs arbitrary: t)
  case (Cons c cs)
  from tty_putc_run [OF Cons.prems] obtain t1 where
    1: "tty_putc c t = Inr t1" "tty_ok t1" "screen t1 = screen_step (tty_columns t) c (screen t)"
      "tty_columns t1 = tty_columns t" "tty_queue t1 = tty_queue t" by blast
  from Cons.IH [OF 1(2)] 1 show ?case by simp
qed simp

section \<open>The line editor\<close>

text \<open>
  The abstract state: the finished lines that nobody has read and the line being typed.  In the ring every
  finished line is followed by a zero byte, and a zero byte is before the first line.
\<close>

definition edit :: "char \<Rightarrow> string list \<times> string \<Rightarrow> string list \<times> string" where
  "edit ch = (\<lambda>(ls, cur).
     if ch = CHR 0x0A then (ls @ [cur @ [CHR 0x0A]], [])
     else if ch = CHR 0x08 then (ls, butlast cur)
     else (ls, cur @ [ch]))"

abbreviation ring_of :: "tty_queue \<Rightarrow> char list" where
  "ring_of q \<equiv> ring_items ((!) (q_buf q)) (length (q_buf q)) (q_front q) (q_rear q)"

definition prev_idx :: "nat \<Rightarrow> nat \<Rightarrow> nat" where
  "prev_idx n i = (if i = 0 then n - 1 else i - 1)"

definition q_rep :: "tty_queue \<Rightarrow> string list \<times> string \<Rightarrow> bool" where
  "q_rep q = (\<lambda>(ls, cur).
     length (q_buf q) = TTY_COOK_BUF_SZ \<and> q_front q < length (q_buf q) \<and> q_rear q < length (q_buf q) \<and>
     ring_of q = concat (map (\<lambda>l. l @ [CHR 0x00]) ls) @ cur \<and>
     (\<forall>l \<in> set ls. CHR 0x00 \<notin> set l) \<and> CHR 0x00 \<notin> set cur \<and>
     q_buf q ! prev_idx (length (q_buf q)) (q_front q) = CHR 0x00)"

lemma ring_items_cong:
  "h < n \<Longrightarrow> (\<And>k. k < ring_len n h t \<Longrightarrow> f ((h + k) mod n) = g ((h + k) mod n)) \<Longrightarrow> ring_items f n h t = ring_items g n h t"
  by (simp add: ring_items_def)

lemma ring_items_nth_upd:
  assumes "h < n" and "n = length xs" and "i < n"
  shows "ring_items ((!) (xs[i := x])) n h t = ring_items (((!) xs)(i := x)) n h t"
  using assms by (intro ring_items_cong) (auto simp: nth_list_update)

lemma ring_items_other:
  assumes "h < n" and "t < n" and "i = t"
  shows "ring_items (f(i := x)) n h t = ring_items f n h t"
proof (rule ring_items_cong [OF assms(1)])
  fix k assume k: "k < ring_len n h t"
  have "ring_len n h t < n" using ring_len_less [OF assms(1,2)] .
  then have "(h + k) mod n \<noteq> t" using ring_index_inj [of h n k "ring_len n h t"] ring_tail [OF assms(1,2)] k assms(1) by auto
  then show "(f(i := x)) ((h + k) mod n) = f ((h + k) mod n)" using assms(3) by simp
qed

lemma succ_idx: "r < n \<Longrightarrow> (if r + 1 = n then 0 else r + 1) = (r + 1) mod (n :: nat)"
  by simp

lemma enqueue_run:
  assumes n: "length (q_buf q) = n" "2 \<le> n" and fr: "q_front q < n" "q_rear q < n" and room: "length (ring_of q) < n - 1"
    and prev: "q_buf q ! prev_idx n (q_front q) = CHR 0x00"
  shows "\<exists>q'. tty_enqueue ch q = Inr q' \<and> length (q_buf q') = n \<and> q_front q' = q_front q \<and> q_rear q' < n \<and> ring_of q' = ring_of q @ [ch] \<and>
    q_buf q' ! prev_idx n (q_front q) = CHR 0x00"
proof -
  let ?r = "(q_rear q + 1) mod n"
  let ?b = "(q_buf q)[q_rear q := ch, ?r := CHR 0x00]"
  let ?q = "q\<lparr>q_buf := ?b, q_rear := ?r\<rparr>"
  have len: "ring_len n (q_front q) (q_rear q) < n - 1" using room n(1) by simp
  have r: "?r < n" using n by simp
  have ne: "?r \<noteq> q_front q" using ring_len_full [OF fr] len by auto
  have dr: "?r \<noteq> q_rear q" using fr n by (auto simp: mod_if split: if_splits)
  have "tty_enqueue ch q = Inr ?q"
  proof (cases "q_rear q + 1 = n")
    case True
    then show ?thesis using n fr ne by (simp add: tty_enqueue_def)
  next
    case False
    then have "?r = q_rear q + 1" using fr by simp
    then show ?thesis using n fr ne False by (simp add: tty_enqueue_def)
  qed
  moreover have "ring_of ?q = ring_of q @ [ch]"
  proof -
    have "ring_of ?q = ring_items ((!) ?b) n (q_front q) ?r" using n(1) by simp
    also have "\<dots> = ring_items (((!) ((q_buf q)[q_rear q := ch]))(?r := CHR 0x00)) n (q_front q) ?r"
      by (rule ring_items_nth_upd [OF fr(1) _ r]) (simp add: n(1))
    also have "\<dots> = ring_items ((!) ((q_buf q)[q_rear q := ch])) n (q_front q) ?r"
      by (rule ring_items_other [OF fr(1) r refl])
    also have "\<dots> = ring_items (((!) (q_buf q))(q_rear q := ch)) n (q_front q) ?r"
      by (rule ring_items_nth_upd [OF fr(1) _ fr(2)]) (simp add: n(1))
    also have "\<dots> = ring_of q @ [ch]" using ring_push [OF fr len] n by simp
    finally show ?thesis .
  qed
  moreover have "prev_idx n (q_front q) \<noteq> q_rear q" "prev_idx n (q_front q) < n"
    using ne fr n by (auto simp: prev_idx_def mod_if split: if_splits)
  then have "?b ! prev_idx n (q_front q) = CHR 0x00" using prev n r by (simp add: nth_list_update)
  ultimately show ?thesis using n fr r by (intro exI [of _ ?q]) simp
qed

lemma ring_len_back:
  assumes "h < n" and "t < n" and "h \<noteq> t"
  shows "ring_len n h t = ring_len n h (prev_idx n t) + 1" and "prev_idx n t < n"
  using assms by (auto simp: ring_len_cases prev_idx_def split: if_splits)

lemma ring_last:
  assumes "h < n" and "t < n" and "h \<noteq> t"
  shows "ring_items f n h t = ring_items f n h (prev_idx n t) @ [f (prev_idx n t)]"
proof -
  note b = ring_len_back [OF assms]
  have "(h + ring_len n h (prev_idx n t)) mod n = prev_idx n t" using ring_tail [OF assms(1) b(2)] .
  then show ?thesis by (simp add: ring_items_def b(1))
qed

lemma q_rep_intro:
  assumes "length (q_buf q) = TTY_COOK_BUF_SZ" and "q_front q < TTY_COOK_BUF_SZ" and "q_rear q < TTY_COOK_BUF_SZ"
    and "ring_items ((!) (q_buf q)) TTY_COOK_BUF_SZ (q_front q) (q_rear q) = concat (map (\<lambda>l. l @ [CHR 0x00]) ls) @ cur"
    and "\<forall>l \<in> set ls. CHR 0x00 \<notin> set l" and "CHR 0x00 \<notin> set cur" and "q_buf q ! prev_idx TTY_COOK_BUF_SZ (q_front q) = CHR 0x00"
  shows "q_rep q (ls, cur)"
  using assms by (simp add: q_rep_def)

lemma concat_lines_last: "ls \<noteq> [] \<Longrightarrow> \<exists>xs. concat (map (\<lambda>l. l @ [CHR 0x00]) ls) = xs @ [CHR 0x00]"
  by (induction ls rule: rev_induct) auto

lemma q_repD:
  assumes "q_rep q (ls, cur)"
  shows "length (q_buf q) = TTY_COOK_BUF_SZ" "q_front q < TTY_COOK_BUF_SZ" "q_rear q < TTY_COOK_BUF_SZ"
    "ring_items ((!) (q_buf q)) TTY_COOK_BUF_SZ (q_front q) (q_rear q) = concat (map (\<lambda>l. l @ [CHR 0x00]) ls) @ cur"
    "\<forall>l \<in> set ls. CHR 0x00 \<notin> set l" "CHR 0x00 \<notin> set cur" "q_buf q ! prev_idx TTY_COOK_BUF_SZ (q_front q) = CHR 0x00"
  using assms by (auto simp: q_rep_def)

lemma pop_back_empty:
  assumes "q_rep q (ls, [])"
  shows "tty_pop_back q = (1, q)"
proof -
  let ?N = TTY_COOK_BUF_SZ and ?p = "prev_idx TTY_COOK_BUF_SZ (q_rear q)"
  note r = q_repD [OF assms(1)]
  have pos: "(if q_rear q = 0 then length (q_buf q) else q_rear q) - 1 = ?p" by (simp add: prev_idx_def r)
  have "q_buf q ! ?p = CHR 0x00"
  proof (cases "ls = []")
    case True
    with r(4) have "ring_len ?N (q_front q) (q_rear q) = 0" by (metis append_Nil concat.simps(1) length_0_conv length_ring_items list.simps(8))
    then show ?thesis using ring_len_0 [OF r(2,3)] r(7) by simp
  next
    case False
    from concat_lines_last [OF this] obtain xs where xs: "concat (map (\<lambda>l. l @ [CHR 0x00]) ls) = xs @ [CHR 0x00]" by blast
    then have "ring_len ?N (q_front q) (q_rear q) \<noteq> 0" using r(4) by (metis append_is_Nil_conv length_0_conv length_ring_items not_Cons_self2)
    then have "q_front q \<noteq> q_rear q" using ring_len_0 [OF r(2,3)] by simp
    from ring_last [OF r(2,3) this, of "(!) (q_buf q)"] r(4) xs show ?thesis by simp
  qed
  then show ?thesis using pos r(1) by (simp add: tty_pop_back_def Let_def)
qed

lemma pop_back_char:
  assumes "q_rep q (ls, cur)" and nonempty: "cur \<noteq> []"
  shows "\<exists>q'. tty_pop_back q = (0, q') \<and> q_rep q' (ls, butlast cur)"
proof -
  let ?N = TTY_COOK_BUF_SZ and ?p = "prev_idx TTY_COOK_BUF_SZ (q_rear q)"
  note r = q_repD [OF assms(1)]
  have pos: "(if q_rear q = 0 then length (q_buf q) else q_rear q) - 1 = ?p" by (simp add: prev_idx_def r)
  have "ring_len ?N (q_front q) (q_rear q) \<noteq> 0" using nonempty r(4) by (metis append_is_Nil_conv length_0_conv length_ring_items)
  then have ne: "q_front q \<noteq> q_rear q" using ring_len_0 [OF r(2,3)] by simp
  note lst = ring_last [OF r(2,3) ne, of "(!) (q_buf q)"]
  have cur: "cur = butlast cur @ [last cur]" using nonempty by simp
  then have eq: "ring_items ((!) (q_buf q)) ?N (q_front q) ?p @ [q_buf q ! ?p] =
      (concat (map (\<lambda>l. l @ [CHR 0x00]) ls) @ butlast cur) @ [last cur]" using lst r(4) by simp
  have plt: "?p < ?N" using ring_len_back(2) [OF r(2,3) ne] .
  have nz: "q_buf q ! ?p \<noteq> CHR 0x00" using eq r(6) nonempty by (metis append1_eq_conv last_in_set)
  let ?q = "q\<lparr>q_rear := ?p, q_buf := (q_buf q)[?p := CHR 0x00]\<rparr>"
  have pop: "tty_pop_back q = (0, ?q)" using nz pos r(1,2,3) by (simp add: tty_pop_back_def Let_def)
  have "ring_items ((!) ((q_buf q)[?p := CHR 0x00])) ?N (q_front q) ?p = ring_items (((!) (q_buf q))(?p := CHR 0x00)) ?N (q_front q) ?p"
    by (rule ring_items_nth_upd [OF r(2) r(1) [symmetric] plt])
  also have "\<dots> = ring_items ((!) (q_buf q)) ?N (q_front q) ?p" by (rule ring_items_other [OF r(2) plt refl])
  also have "\<dots> = concat (map (\<lambda>l. l @ [CHR 0x00]) ls) @ butlast cur" using eq by (metis append1_eq_conv)
  finally have rg: "ring_items ((!) (q_buf ?q)) ?N (q_front ?q) (q_rear ?q) = concat (map (\<lambda>l. l @ [CHR 0x00]) ls) @ butlast cur" by simp
  have "q_rep ?q (ls, butlast cur)"
  proof (rule q_rep_intro [OF _ _ _ rg r(5)])
    show "q_buf ?q ! prev_idx ?N (q_front ?q) = CHR 0x00"
      using r(1,7) plt by (cases "?p = prev_idx ?N (q_front q)") simp_all
    show "CHR 0x00 \<notin> set (butlast cur)" using r(6) in_set_butlastD by fastforce
  qed (use r(1,2,3) plt in simp_all)
  then show ?thesis using pop by blast
qed

lemma cook_char_run:
  assumes rep: "q_rep q (ls, cur)" and ch: "ch \<noteq> CHR 0x00" and room: "length (ring_of q) + 2 < TTY_COOK_BUF_SZ"
  shows "\<exists>q'. cook_char ch q = Inr (if ch = CHR 0x08 \<and> cur = [] then 1 else 0, q', ch = CHR 0x0A) \<and> q_rep q' (edit ch (ls, cur))"
proof -
  let ?N = TTY_COOK_BUF_SZ
  have n: "length (q_buf q) = ?N" "2 \<le> ?N" using q_repD(1) [OF rep] by (simp_all add: TTY_COOK_BUF_SZ_def)
  note fr = q_repD(2,3) [OF rep] and ring = q_repD(4) [OF rep] and nul = q_repD(5,6) [OF rep] and prev = q_repD(7) [OF rep]
  have room1: "length (ring_of q) < ?N - 1" using room by simp
  from enqueue_run [OF n fr room1 prev, of ch] obtain q1 where
    q1: "tty_enqueue ch q = Inr q1" "length (q_buf q1) = ?N" "q_front q1 = q_front q" "q_rear q1 < ?N"
      "ring_of q1 = ring_of q @ [ch]" "q_buf q1 ! prev_idx ?N (q_front q1) = CHR 0x00" by auto
  have r1: "ring_items ((!) (q_buf q1)) ?N (q_front q1) (q_rear q1) = concat (map (\<lambda>l. l @ [CHR 0x00]) ls) @ cur @ [ch]"
    using q1(5) ring n(1) q1(2) by simp
  consider "ch = CHR 0x0A" | "ch = CHR 0x08" | "ch \<noteq> CHR 0x0A" "ch \<noteq> CHR 0x08" by blast
  then show ?thesis
  proof cases
    case 1
    have "length (ring_of q1) < ?N - 1" using room unfolding q1(5) by simp
    from enqueue_run [OF q1(2) n(2) _ q1(4) this q1(6), of "CHR 0x00"] fr q1(3) obtain q2 where
      q2: "tty_enqueue CHR 0x00 q1 = Inr q2" "length (q_buf q2) = ?N" "q_front q2 = q_front q1" "q_rear q2 < ?N"
        "ring_of q2 = ring_of q1 @ [CHR 0x00]" "q_buf q2 ! prev_idx ?N (q_front q2) = CHR 0x00" by auto
    have "q_rep q2 (ls @ [cur @ [ch]], [])"
      using q2 q1 r1 fr nul 1 by (intro q_rep_intro) auto
    then show ?thesis using 1 q1(1) q2(1) by (auto simp: cook_char_def edit_def)
  next
    case 2
    then show ?thesis using pop_back_empty [of q ls] pop_back_char [OF rep] rep by (cases "cur = []") (auto simp: cook_char_def edit_def)
  next
    case 3
    have "q_rep q1 (ls, cur @ [ch])" using q1 r1 fr nul ch by (intro q_rep_intro) auto
    then show ?thesis using 3 q1(1) by (auto simp: cook_char_def edit_def)
  qed
qed

lemma read_loop_run:
  assumes "length (q_buf q) = N" and "q_front q < N" and "q_rear q < N" and "CHR 0x00 \<notin> set l" and "length l < fuel"
    and "ring_items ((!) (q_buf q)) N (q_front q) (q_rear q) = l @ CHR 0x00 # rest"
  shows "\<exists>f. read_loop fuel q acc = Inr (acc @ l, q\<lparr>q_front := f\<rparr>) \<and> f < N \<and>
    ring_items ((!) (q_buf q)) N f (q_rear q) = rest \<and> q_buf q ! prev_idx N f = CHR 0x00"
  using assms
proof (induction l arbitrary: q fuel acc)
  case Nil
  obtain k where k: "fuel = Suc k" using Nil.prems(5) by (cases fuel) auto
  have "ring_len N (q_front q) (q_rear q) \<noteq> 0" using Nil.prems(6) by (metis append_Nil length_0_conv length_ring_items list.distinct(1))
  then have ne: "q_front q \<noteq> q_rear q" using ring_len_0 [OF Nil.prems(2,3)] by simp
  let ?f = "(q_front q + 1) mod N"
  have f: "q_buf q ! q_front q = CHR 0x00" "ring_items ((!) (q_buf q)) N ?f (q_rear q) = rest"
    using ring_pop [OF Nil.prems(2,3) ne, of "(!) (q_buf q)"] Nil.prems(6) by simp_all
  have "?f < N" "prev_idx N ?f = q_front q" using Nil.prems(2) by (auto simp: prev_idx_def mod_if)
  moreover have "read_loop fuel q acc = Inr (acc, q\<lparr>q_front := ?f\<rparr>)"
    using k Nil.prems(1,2) f(1) by (cases "q_front q + 1 = N") simp_all
  ultimately show ?case using f by (intro exI [of _ ?f]) simp
next
  case (Cons c l)
  obtain k where k: "fuel = Suc k" "length l < k" using Cons.prems(5) by (cases fuel) auto
  have "ring_len N (q_front q) (q_rear q) \<noteq> 0" using Cons.prems(6) by (metis append_Cons length_0_conv length_ring_items list.distinct(1))
  then have ne: "q_front q \<noteq> q_rear q" using ring_len_0 [OF Cons.prems(2,3)] by simp
  let ?f = "(q_front q + 1) mod N"
  have f: "q_buf q ! q_front q = c" "ring_items ((!) (q_buf q)) N ?f (q_rear q) = l @ CHR 0x00 # rest"
    using ring_pop [OF Cons.prems(2,3) ne, of "(!) (q_buf q)"] Cons.prems(6) by simp_all
  have flt: "?f < N" using Cons.prems(2) by simp
  have "read_loop fuel q acc = read_loop k (q\<lparr>q_front := ?f\<rparr>) (acc @ [c])"
    using k(1) Cons.prems(1,2,4) f(1) by (cases "q_front q + 1 = N") (auto simp: Let_def)
  with Cons.IH [of "q\<lparr>q_front := ?f\<rparr>" k "acc @ [c]"] Cons.prems k(2) f(2) flt show ?case by simp
qed

text \<open>A terminal between two operations: nobody holds its lock, and \<^verbatim>\<open>cooked\<close> counts the finished lines.\<close>

definition tty_rep :: "tty \<times> kmt \<Rightarrow> string list \<times> string \<Rightarrow> bool" where
  "tty_rep = (\<lambda>(t, s) (ls, cur). q_rep (tty_queue t) (ls, cur) \<and> sem_ok (tty_lock t) \<and> sem_value (tty_lock t) = 1 \<and>
     sem_ok (tty_cooked t) \<and> sem_value (tty_cooked t) = int (length ls) \<and> cli_mutex s = UNLOCKED)"

lemma tty_cook_run:
  assumes rep: "tty_rep (t, s) (ls, cur)" and ch: "ch \<noteq> CHR 0x00" and room: "length (ring_of (tty_queue t)) + 2 < TTY_COOK_BUF_SZ"
  shows "\<exists>t' s'. tty_cook cpu ch (t, s) = Inr (if ch = CHR 0x08 \<and> cur = [] then 1 else 0, t', s') \<and>
    tty_rep (t', s') (edit ch (ls, cur))"
proof -
  from rep have r: "q_rep (tty_queue t) (ls, cur)" "sem_ok (tty_lock t)" "sem_value (tty_lock t) = 1" "sem_ok (tty_cooked t)"
    "sem_value (tty_cooked t) = int (length ls)" "cli_mutex s = UNLOCKED" by (auto simp: tty_rep_def)
  obtain l1 s1 where 1: "kmt_sem_wait cpu (tty_lock t) s = Inr (False, l1, s1)" "sem_ok l1" "sem_value l1 = 0" "cli_mutex s1 = UNLOCKED"
    using sem_wait_pass [OF r(2,6), of cpu] r(3) by auto
  from cook_char_run [OF r(1) ch room] obtain q where
    q: "cook_char ch (tty_queue t) = Inr (if ch = CHR 0x08 \<and> cur = [] then 1 else 0, q, ch = CHR 0x0A)" "q_rep q (edit ch (ls, cur))" by blast
  obtain ck s2 where 2: "(if ch = CHR 0x0A then kmt_sem_signal cpu (tty_cooked t) s1 else Inr (tty_cooked t, s1)) = Inr (ck, s2)"
      "sem_ok ck" "sem_value ck = int (length (fst (edit ch (ls, cur))))" "cli_mutex s2 = UNLOCKED"
    using sem_signal_free [OF r(4) 1(4), of cpu] r(4,5) 1(4) by (cases "ch = CHR 0x0A") (auto simp: edit_def)
  obtain l3 s3 where 3: "kmt_sem_signal cpu l1 s2 = Inr (l3, s3)" "sem_ok l3" "sem_value l3 = 1" "cli_mutex s3 = UNLOCKED"
    using sem_signal_free [OF 1(2) 2(4), of cpu] 1(3) by auto
  have "tty_cook cpu ch (t, s) = Inr (if ch = CHR 0x08 \<and> cur = [] then 1 else 0, t\<lparr>tty_queue := q, tty_cooked := ck, tty_lock := l3\<rparr>, s3)"
    using 1(1) q(1) 2(1) 3(1) by (simp add: tty_cook_def)
  moreover have "tty_rep (t\<lparr>tty_queue := q, tty_cooked := ck, tty_lock := l3\<rparr>, s3) (edit ch (ls, cur))"
    using q(2) 2 3 by (cases "edit ch (ls, cur)") (simp add: tty_rep_def)
  ultimately show ?thesis by blast
qed

lemma tty_read_run:
  assumes rep: "tty_rep (t, s) (l # ls, cur)"
  shows "\<exists>t' s'. tty_read cpu cnt (t, s) = Inr (length l, take cnt l, t', s') \<and> tty_rep (t', s') (ls, cur)"
proof -
  let ?q = "tty_queue t"
  from rep have r: "q_rep ?q (l # ls, cur)" "sem_ok (tty_lock t)" "sem_value (tty_lock t) = 1" "sem_ok (tty_cooked t)"
    "sem_value (tty_cooked t) = int (length (l # ls))" "cli_mutex s = UNLOCKED" by (auto simp: tty_rep_def)
  have v: "0 < sem_value (tty_cooked t)" using r(5) by simp
  obtain ck s1 where 1: "kmt_sem_wait cpu (tty_cooked t) s = Inr (False, ck, s1)" "sem_ok ck" "sem_value ck = int (length ls)" "cli_mutex s1 = UNLOCKED"
    using sem_wait_pass [OF r(4,6) v, of cpu] r(5) by auto
  obtain l2 s2 where 2: "kmt_sem_wait cpu (tty_lock t) s1 = Inr (False, l2, s2)" "sem_ok l2" "sem_value l2 = 0" "cli_mutex s2 = UNLOCKED"
    using sem_wait_pass [OF r(2) 1(4), of cpu] r(3) by auto
  have q: "length (q_buf ?q) = TTY_COOK_BUF_SZ" "q_front ?q < TTY_COOK_BUF_SZ" "q_rear ?q < TTY_COOK_BUF_SZ" "CHR 0x00 \<notin> set l"
    "ring_items ((!) (q_buf ?q)) TTY_COOK_BUF_SZ (q_front ?q) (q_rear ?q) = l @ CHR 0x00 # concat (map (\<lambda>l. l @ [CHR 0x00]) ls) @ cur"
    "\<forall>l \<in> set ls. CHR 0x00 \<notin> set l" "CHR 0x00 \<notin> set cur"
    using r(1) by (auto simp: q_rep_def)
  have "length l < TTY_COOK_BUF_SZ + 1"
    using arg_cong [OF q(5), of length] ring_len_less [OF q(2,3)] by simp
  from read_loop_run [OF q(1-4) this q(5), of "[]"] obtain f where
    f: "read_loop (TTY_COOK_BUF_SZ + 1) ?q [] = Inr (l, ?q\<lparr>q_front := f\<rparr>)" "f < TTY_COOK_BUF_SZ"
      "ring_items ((!) (q_buf ?q)) TTY_COOK_BUF_SZ f (q_rear ?q) = concat (map (\<lambda>l. l @ [CHR 0x00]) ls) @ cur"
      "q_buf ?q ! prev_idx TTY_COOK_BUF_SZ f = CHR 0x00" by auto
  have rq: "q_rep (?q\<lparr>q_front := f\<rparr>) (ls, cur)" using q f by (intro q_rep_intro) simp_all
  obtain l3 s3 where 3: "kmt_sem_signal cpu l2 s2 = Inr (l3, s3)" "sem_ok l3" "sem_value l3 = 1" "cli_mutex s3 = UNLOCKED"
    using sem_signal_free [OF 2(2,4), of cpu] 2(3) by auto
  have "tty_read cpu cnt (t, s) = Inr (length l, take cnt l, t\<lparr>tty_queue := ?q\<lparr>q_front := f\<rparr>, tty_cooked := ck, tty_lock := l3\<rparr>, s3)"
    using 1(1) 2(1) f(1) 3(1) by (simp add: tty_read_def)
  moreover have "tty_rep (t\<lparr>tty_queue := ?q\<lparr>q_front := f\<rparr>, tty_cooked := ck, tty_lock := l3\<rparr>, s3) (ls, cur)"
    using rq 1 3 by (simp add: tty_rep_def)
  ultimately show ?thesis by blast
qed

section \<open>Results\<close>

definition demo_tty :: tty where
  "demo_tty = \<lparr>tty_lock = sem0\<lparr>sem_value := 1\<rparr>, tty_cooked = sem0, tty_display = 0, tty_lines = 2, tty_columns = 3, tty_size = 6,
     tty_buf = replicate 6 tty_defaultch, tty_cursor = 0,
     tty_queue = \<lparr>q_buf = replicate TTY_COOK_BUF_SZ CHR 0x00, q_front = 0, q_rear = 0\<rparr>, tty_dirty = replicate 6 1\<rparr>"

lemma demo_tty_ok: "tty_ok demo_tty" "tty_rep (demo_tty, duo) ([], [])" "length (ring_of (tty_queue demo_tty)) = 0"
  by (simp_all add: tty_ok_def demo_tty_def tty_rep_def q_rep_def TTY_COOK_BUF_SZ_def prev_idx_def sem0_def duo_def ring_items_def
      ring_len_def sem_ok_def sem_ring_def sem_items_def MAX_TASK_def)

text \<open>
  C12: writing a text to a terminal of at least two cells never leaves its arrays, whatever bytes it contains,
  and changes the screen like the abstract screen: line feeds, carriage returns, backspaces and other
  characters move the position and change one cell, and at the end of the screen the first line is dropped
  and an empty one appears.
\<close>

theorem tty_puts_refines:
  assumes "tty_ok t"
  shows "\<exists>t'. tty_puts cs t = Inr t' \<and> tty_ok t' \<and> screen t' = fold (screen_step (tty_columns t)) cs (screen t)"
  using tty_puts_run [OF assms] by blast

theorem tty_puts_refines_witness:
  "\<exists>t'. tty_puts ''abcdefg'' demo_tty = Inr t' \<and> screen t' = (''defg'' @ replicate 2 CHR 0x00, 4)"
  using tty_puts_refines [OF demo_tty_ok(1), of "''abcdefg''"]
  by (auto simp: screen_def demo_tty_def screen_step_def screen_scroll_def tty_defaultch_def numeral_eq_Suc)

text \<open>
  C20: the terminal is a line editor.  Typing a character other than the zero byte, while the ring has room,
  appends it to the line being typed, a backspace removes the last character of that line and never reaches
  into a finished one, and a line feed finishes the line; reading delivers the oldest finished line and
  its length, although at most \<open>cnt\<close> characters of it are copied.
\<close>

theorem tty_line_discipline:
  assumes "tty_rep (t, s) x"
  shows "(ch \<noteq> CHR 0x00 \<and> length (ring_of (tty_queue t)) + 2 < TTY_COOK_BUF_SZ \<longrightarrow>
      (\<exists>ret t' s'. tty_cook cpu ch (t, s) = Inr (ret, t', s') \<and> tty_rep (t', s') (edit ch x) \<and> (ret = 0 \<longleftrightarrow> ch \<noteq> CHR 0x08 \<or> snd x \<noteq> []))) \<and>
    (fst x \<noteq> [] \<longrightarrow>
      (\<exists>t' s'. tty_read cpu cnt (t, s) = Inr (length (hd (fst x)), take cnt (hd (fst x)), t', s') \<and> tty_rep (t', s') (tl (fst x), snd x)))"
proof -
  obtain ls cur where x: "x = (ls, cur)" by (cases x)
  have "\<exists>t' s'. tty_read cpu cnt (t, s) = Inr (length (hd ls), take cnt (hd ls), t', s') \<and> tty_rep (t', s') (tl ls, cur)" if "ls \<noteq> []"
    using tty_read_run [of t s "hd ls" "tl ls" cur cpu cnt] assms x that by simp
  then show ?thesis using tty_cook_run [of t s ls cur ch cpu] assms x by fastforce
qed

theorem tty_line_discipline_witness:
  "\<exists>t' s'. tty_cook 0 (CHR ''x'') (demo_tty, duo) = Inr (0, t', s') \<and> tty_rep (t', s') ([], ''x'')"
  using tty_line_discipline [OF demo_tty_ok(2), of "CHR ''x''" 0] demo_tty_ok(3)
  by (auto simp: TTY_COOK_BUF_SZ_def edit_def)

end
