(* ===== verification/Vfs.thy ===== *)
theory Vfs
  imports Ext2_Correct Tty_Correct
begin

text \<open>
  \<^verbatim>\<open>kernel/src/fs/vfs.c\<close>: the virtual file system.  A table of vinodes caches the directory trees of the mounted
  file systems; the children of a directory are a list linked by \<^verbatim>\<open>next\<close>, the links to a vinode a ring linked
  by \<^verbatim>\<open>prev_link\<close> and \<^verbatim>\<open>next_link\<close>.  An index that may be -1 is an option, and using -1 as an index is a fault.
  A traversal that has taken more steps than there are vinodes runs in a cycle and never ends.
\<close>

section \<open>Data\<close>

abbreviation (input) ALLOCED :: u32 where "ALLOCED \<equiv> 0x8000"
abbreviation (input) MNT_ABLE :: u32 where "MNT_ABLE \<equiv> 0x100"
abbreviation (input) UNMNT_ABLE :: u32 where "UNMNT_ABLE \<equiv> 0x200"

definition MAX_VINODE :: nat where "MAX_VINODE = 1024"
definition MAX_FILESYSTEM :: nat where "MAX_FILESYSTEM = 16"
definition MAX_FILE :: nat where "MAX_FILE = 32"
definition MAX_PATH_LENGTH :: nat where "MAX_PATH_LENGTH = 256"
definition MAX_NAME_LENGTH :: nat where "MAX_NAME_LENGTH = 32"

datatype fs_type = VFS | EXT2FS | PROCFS | TTY

definition VFS_ROOT :: nat where "VFS_ROOT = 0"
definition EXT2_ROOT :: int where "EXT2_ROOT = 1"

record vfile =
  f_refcnt :: int
  f_vinode_idx :: "nat option"
  f_offset :: u64

record vinode =
  v_path :: string
  v_name :: string
  v_dot :: "nat option"
  v_ddot :: "nat option"
  v_next :: "nat option"
  v_child :: "nat option"
  v_mode :: u32
  v_linkcnt :: int
  v_ridx :: int
  v_fs_type :: fs_type
  v_fs :: "nat option"
  v_prev_link :: nat
  v_next_link :: nat

text \<open>The function pointers of a file system are those of \<^verbatim>\<open>ext2fs.c\<close> or of \<^verbatim>\<open>procfs.c\<close>.\<close>

datatype fs_ops = Ext2_ops | Procfs_ops

record filesystem =
  fs_name :: string
  fs_rfs :: "ext2 option"
  fs_ops :: fs_ops

text \<open>The globals of \<^verbatim>\<open>vfs.c\<close> and the parts of the kernel they lead to; terminals are found by name.\<close>

record vfs =
  filesys :: "nat \<Rightarrow> filesystem"
  vinodes :: "nat \<Rightarrow> vinode"
  files :: "nat \<Rightarrow> vfile"
  v_pmm :: pmm
  v_kmt :: kmt
  v_ttys :: "string \<Rightarrow> tty option"
  v_fb :: fb

abbreviation upd_v :: "nat \<Rightarrow> (vinode \<Rightarrow> vinode) \<Rightarrow> vfs \<Rightarrow> vfs" where
  "upd_v k f v \<equiv> v\<lparr>vinodes := (vinodes v)(k := f (vinodes v k))\<rparr>"

definition deref :: "nat option \<Rightarrow> nat res" where
  "deref i = (case i of None \<Rightarrow> Inl OutOfBounds | Some k \<Rightarrow> Inr k)"

definition set_name :: "nat \<Rightarrow> string \<Rightarrow> vfs \<Rightarrow> vfs res" where
  "set_name k s v = bindE (guardE OutOfBounds (length s < MAX_NAME_LENGTH)) (\<lambda>_. Inr (upd_v k (\<lambda>n. n\<lparr>v_name := s\<rparr>) v))"

definition set_path :: "nat \<Rightarrow> string \<Rightarrow> vfs \<Rightarrow> vfs res" where
  "set_path k s v = bindE (guardE OutOfBounds (length s < MAX_PATH_LENGTH)) (\<lambda>_. Inr (upd_v k (\<lambda>n. n\<lparr>v_path := s\<rparr>) v))"

section \<open>Links\<close>

definition add_link :: "nat \<Rightarrow> nat \<Rightarrow> vfs \<Rightarrow> vfs" where
  "add_link oidx nidx v =
     (let n_link = v_next_link (vinodes v oidx);
          v = upd_v nidx (\<lambda>n. n\<lparr>v_next_link := n_link\<rparr>) v;
          v = upd_v nidx (\<lambda>n. n\<lparr>v_prev_link := oidx\<rparr>) v;
          v = upd_v oidx (\<lambda>n. n\<lparr>v_next_link := nidx\<rparr>) v
      in upd_v n_link (\<lambda>n. n\<lparr>v_prev_link := nidx\<rparr>) v)"

definition remove_link :: "nat \<Rightarrow> vfs \<Rightarrow> vfs" where
  "remove_link idx v =
     (let p_link = v_prev_link (vinodes v idx);
          n_link = v_next_link (vinodes v idx);
          v = upd_v p_link (\<lambda>n. n\<lparr>v_next_link := v_next_link (vinodes v idx)\<rparr>) v
      in upd_v n_link (\<lambda>n. n\<lparr>v_prev_link := v_prev_link (vinodes v idx)\<rparr>) v)"

section \<open>Vinodes\<close>

definition vinodes_alloc :: "vfs \<Rightarrow> nat option \<times> vfs" where
  "vinodes_alloc v =
     (case first_idx (\<lambda>i. v_mode (vinodes v i) = 0) 0 MAX_VINODE of
        None \<Rightarrow> (None, v)
      | Some i \<Rightarrow> (Some i, upd_v i (\<lambda>n. n\<lparr>v_mode := v_mode n OR ALLOCED\<rparr>) v))"

definition vinodes_free :: "nat \<Rightarrow> vfs \<Rightarrow> vfs" where
  "vinodes_free idx v = upd_v idx (\<lambda>n. n\<lparr>v_mode := 0\<rparr>) v"

definition vfs_first_item_len :: "string \<Rightarrow> nat" where
  "vfs_first_item_len path = length (takeWhile (\<lambda>c. c \<noteq> CHR ''/'') path)"

text \<open>Without a slash the loop runs off the front of the string.\<close>

definition last_item_len :: "string \<Rightarrow> nat res" where
  "last_item_len path =
     bindE (guardE OutOfBounds (CHR ''/'' \<in> set path)) (\<lambda>_.
     let ret = length (takeWhile (\<lambda>c. c \<noteq> CHR ''/'') (rev path)) in
     bindE (assertE (ret < length path)) (\<lambda>_. Inr ret))"

definition item_match :: "string \<Rightarrow> string \<Rightarrow> nat \<Rightarrow> bool" where
  "item_match s1 s2 len \<longleftrightarrow> (if strncmp_list s1 s2 len \<noteq> 0 then False else length s1 = len)"

section \<open>Lookup\<close>

text \<open>The loop over the children of a directory.\<close>

fun child_find :: "nat \<Rightarrow> (vinode \<Rightarrow> bool) \<Rightarrow> nat option \<Rightarrow> vfs \<Rightarrow> nat option res" where
  "child_find fuel P None v = Inr None"
| "child_find 0 P (Some k) v = Inl Diverge"
| "child_find (Suc fuel) P (Some k) v =
     (if P (vinodes v k) then Inr (Some k) else child_find fuel P (v_next (vinodes v k)) v)"

text \<open>The loop that follows links.\<close>

fun follow_links :: "nat \<Rightarrow> nat \<Rightarrow> vfs \<Rightarrow> nat res" where
  "follow_links 0 k v = Inl Diverge"
| "follow_links (Suc fuel) k v =
     (if v_mode (vinodes v k) AND TYPE_LINK \<noteq> 0 then follow_links fuel (v_next_link (vinodes v k)) v else Inr k)"

text \<open>The result: the flag, the vinode and the offset reached in the path.\<close>

function lookup_cur :: "string \<Rightarrow> nat \<Rightarrow> nat \<Rightarrow> vfs \<Rightarrow> (bool \<times> nat \<times> nat) res" where
  "lookup_cur path cur offset v =
     (if path = [] then Inr (True, cur, offset)
      else
        let len = vfs_first_item_len path in
        bindE (child_find (MAX_VINODE + 1) (\<lambda>n. item_match (v_name n) path len) (v_child (vinodes v cur)) v) (\<lambda>k.
        case k of
          None \<Rightarrow> Inr (False, cur, offset)
        | Some k \<Rightarrow>
            bindE (follow_links (MAX_VINODE + 1) k v) (\<lambda>nxt.
            let step = (if len < length path then len + 1 else len) in
            lookup_cur (drop step path) nxt (offset + step) v)))"
  by pat_completeness auto
termination
proof (relation "measure (\<lambda>(path, cur, offset, v). length path)", goal_cases)
  case (2 path cur offset v len k k' nxt step)
  have "vfs_first_item_len path \<noteq> 0 \<or> vfs_first_item_len path < length path"
    using 2(1) by (cases path) (auto simp: vfs_first_item_len_def)
  with 2 show ?case by auto
qed simp

declare lookup_cur.simps [simp del]

definition lookup_root :: "string \<Rightarrow> nat \<Rightarrow> vfs \<Rightarrow> (bool \<times> nat \<times> nat) res" where
  "lookup_root path offset v = lookup_cur (drop 1 path) VFS_ROOT offset v"

definition lookup_any :: "string \<Rightarrow> vfs \<Rightarrow> (bool \<times> nat \<times> nat) res" where
  "lookup_any path v =
     (if path \<noteq> [] \<and> hd path = CHR ''/'' then lookup_root path 1 v else lookup_cur path VFS_ROOT 1 v)"

text \<open>A call through the pointer \<^verbatim>\<open>fs->readdir\<close>.\<close>

definition fs_readdir :: "nat \<Rightarrow> int \<Rightarrow> int \<Rightarrow> vfs \<Rightarrow> (dirent option \<times> vfs) res" where
  "fs_readdir f ridx kth v =
     (case fs_ops (filesys v f) of
        Ext2_ops \<Rightarrow>
          (case fs_rfs (filesys v f) of
             None \<Rightarrow> Inl NullDeref
           | Some e \<Rightarrow>
               bindE (ext2_readdir (of_int ridx) kth e) (\<lambda>(d, e).
               Inr (d, v\<lparr>filesys := (filesys v)(f := (filesys v f)\<lparr>fs_rfs := Some e\<rparr>)\<rparr>)))
      | Procfs_ops \<Rightarrow> bindE (procfs_readdir (proc_table (v_kmt v)) kth) (\<lambda>d. Inr (d, v)))"

text \<open>The local variables of the loop in \<^verbatim>\<open>lookup_auto\<close> that reads a directory into the table.\<close>

record scan =
  sc_oidx :: "nat option"
  sc_dot :: "nat option"
  sc_ddot :: "nat option"
  sc_next :: "nat option"

definition scan_dot :: "nat \<Rightarrow> nat \<Rightarrow> scan \<Rightarrow> vfs \<Rightarrow> (scan \<times> vfs) res" where
  "scan_dot idx nidx sc v =
     bindE (assertE (sc_oidx sc = None)) (\<lambda>_.
     let v = upd_v idx (\<lambda>n. n\<lparr>v_child := Some nidx\<rparr>) v in
     bindE (set_name nidx ''.'' v) (\<lambda>v.
     bindE (set_path nidx (v_path (vinodes v idx)) v) (\<lambda>v.
     let v = upd_v nidx (\<lambda>n. n\<lparr>v_dot := None, v_ddot := None, v_next := None, v_child := Some idx,
                v_prev_link := nidx, v_next_link := nidx, v_linkcnt := 1, v_mode := TYPE_LINK\<rparr>) v;
         v = add_link idx nidx v
     in Inr (sc\<lparr>sc_dot := Some nidx\<rparr>, v))))"

definition scan_ddot :: "nat \<Rightarrow> nat \<Rightarrow> scan \<Rightarrow> vfs \<Rightarrow> (scan \<times> vfs) res" where
  "scan_ddot idx nidx sc v =
     bindE (deref (sc_oidx sc)) (\<lambda>oidx.
     bindE (assertE (v_next (vinodes v oidx) = None)) (\<lambda>_.
     let v = upd_v oidx (\<lambda>n. n\<lparr>v_next := Some nidx, v_ddot := Some nidx\<rparr>) v in
     bindE (set_name nidx ''..'' v) (\<lambda>v.
     bindE (deref (v_dot (vinodes v idx))) (\<lambda>pdot.
     bindE (deref (v_child (vinodes v pdot))) (\<lambda>par.
     bindE (set_path nidx (v_path (vinodes v par)) v) (\<lambda>v.
     bindE (deref (v_ddot (vinodes v idx))) (\<lambda>pddot.
     let v = upd_v nidx (\<lambda>n. n\<lparr>v_dot := Some oidx, v_ddot := None, v_next := None, v_child := v_child (vinodes v pddot),
                v_prev_link := nidx, v_next_link := nidx, v_linkcnt := 1, v_mode := TYPE_LINK\<rparr>) v;
         v = add_link par nidx v
     in Inr (sc\<lparr>sc_ddot := Some nidx\<rparr>, v))))))))"

definition scan_entry :: "dirent \<Rightarrow> nat \<Rightarrow> nat \<Rightarrow> scan \<Rightarrow> vfs \<Rightarrow> (scan \<times> vfs) res" where
  "scan_entry buf idx nidx sc v =
     bindE (assertE (sc_dot sc \<noteq> None \<and> sc_ddot sc \<noteq> None)) (\<lambda>_.
     bindE (deref (sc_oidx sc)) (\<lambda>oidx.
     bindE (assertE (v_next (vinodes v oidx) = None)) (\<lambda>_.
     let v = upd_v oidx (\<lambda>n. n\<lparr>v_next := Some nidx\<rparr>) v in
     bindE (set_name nidx (d_name buf) v) (\<lambda>v.
     bindE (set_path nidx (v_path (vinodes v idx) @ d_name buf @ (if d_mode buf AND TYPE_DIR \<noteq> 0 then ''/'' else [])) v) (\<lambda>v.
     Inr (sc, upd_v nidx (\<lambda>n. n\<lparr>v_dot := sc_dot sc, v_ddot := sc_ddot sc, v_next := None, v_child := None,
                v_prev_link := nidx, v_next_link := nidx, v_linkcnt := 1, v_mode := d_mode buf\<rparr>) v))))))"

text \<open>Every turn takes a vinode and a full table fails the assertion, so the fuel of the loop never runs out.\<close>

fun scan_loop :: "nat \<Rightarrow> nat \<Rightarrow> string \<Rightarrow> nat \<Rightarrow> int \<Rightarrow> scan \<Rightarrow> vfs \<Rightarrow> (scan \<times> vfs) res" where
  "scan_loop 0 idx rest flen kth sc v = Inl Diverge"
| "scan_loop (Suc fuel) idx rest flen kth sc v =
     (case v_fs (vinodes v idx) of
        None \<Rightarrow> Inl NullDeref
      | Some f \<Rightarrow>
          bindE (fs_readdir f (v_ridx (vinodes v idx)) kth v) (\<lambda>(d, v).
          case d of
            None \<Rightarrow> Inr (sc, v)
          | Some buf \<Rightarrow>
              let (nidx, v) = vinodes_alloc v in
              (case nidx of
                 None \<Rightarrow> Inl AssertFail
               | Some nidx \<Rightarrow>
                   bindE (if d_name buf = ''.'' then scan_dot idx nidx sc v
                          else if d_name buf = ''..'' then scan_ddot idx nidx sc v
                          else scan_entry buf idx nidx sc v) (\<lambda>(sc, v).
                   let v = upd_v nidx (\<lambda>n. n\<lparr>v_ridx := int (d_ridx buf), v_fs_type := v_fs_type (vinodes v idx),
                              v_fs := v_fs (vinodes v idx)\<rparr>) v;
                       sc = sc\<lparr>sc_oidx := Some nidx\<rparr>
                   in
                   if item_match (d_name buf) rest flen then
                     bindE (assertE (sc_next sc = None)) (\<lambda>_.
                     scan_loop fuel idx rest flen (kth + 1) (sc\<lparr>sc_next := Some nidx\<rparr>) v)
                   else scan_loop fuel idx rest flen (kth + 1) sc v))))"

definition trim_slash :: "string \<Rightarrow> string" where
  "trim_slash path = (if path \<noteq> [] \<and> last path = CHR ''/'' then butlast path else path)"

text \<open>
  The recursion of \<^verbatim>\<open>lookup_auto\<close> advances in the path, which the assertion checks, so fuel above its length
  is enough.  The result has the path buffer, from which a slash at the end was cut.
\<close>

fun lookup_auto_n :: "nat \<Rightarrow> string \<Rightarrow> vfs \<Rightarrow> (nat option \<times> string \<times> vfs) res" where
  "lookup_auto_n 0 path v = Inl Diverge"
| "lookup_auto_n (Suc fuel) path v =
     (let path = trim_slash path in
      bindE (lookup_any path v) (\<lambda>(flag, idx, offset).
      if flag then Inr (Some idx, path, v)
      else
        let flen = vfs_first_item_len (drop offset path) in
        if v_fs (vinodes v idx) = None then Inr (None, path, v)
        else if v_child (vinodes v idx) \<noteq> None then Inr (None, path, v)
        else
          bindE (scan_loop (MAX_VINODE + 2) idx (drop offset path) flen 1
                  \<lparr>sc_oidx = None, sc_dot = None, sc_ddot = None, sc_next = None\<rparr> v) (\<lambda>(sc, v).
          if sc_next sc = None then Inr (None, path, v)
          else
            bindE (lookup_any path v) (\<lambda>(_, _, noffset).
            bindE (assertE (offset < noffset)) (\<lambda>_.
            lookup_auto_n fuel path v)))))"

definition lookup_auto :: "string \<Rightarrow> vfs \<Rightarrow> (nat option \<times> string \<times> vfs) res" where
  "lookup_auto path v = lookup_auto_n (length path + 2) path v"

section \<open>File systems\<close>

definition filesys_alloc :: "vfs \<Rightarrow> nat option" where
  "filesys_alloc v = first_idx (\<lambda>i. fs_name (filesys v i) = []) 0 MAX_FILESYSTEM"

definition filesys_free :: "nat \<Rightarrow> vfs \<Rightarrow> vfs" where
  "filesys_free idx v = v\<lparr>filesys := (filesys v)(idx := (filesys v idx)\<lparr>fs_name := []\<rparr>)\<rparr>"

text \<open>\<^verbatim>\<open>sizeof(ext2_t)\<close>; \<open>disk\<close> is the content of the device.\<close>

definition EXT2_T_SIZE :: u32 where "EXT2_T_SIZE = 2256"

definition vfs_init_blockdev :: "string \<Rightarrow> (nat \<Rightarrow> u8) \<Rightarrow> vfs \<Rightarrow> (nat \<times> vfs) res" where
  "vfs_init_blockdev nm disk v =
     bindE (deref (filesys_alloc v)) (\<lambda>idx.
     bindE (kalloc EXT2_T_SIZE (v_pmm v) (proc_table (v_kmt v))) (\<lambda>(rfs, p, pf).
     bindE (guardE NullDeref (rfs \<noteq> 0)) (\<lambda>_.
     bindE (ext2_init nm disk) (\<lambda>e.
     Inr (idx, v\<lparr>filesys := (filesys v)(idx := \<lparr>fs_name = nm, fs_rfs = Some e, fs_ops = Ext2_ops\<rparr>),
                 v_pmm := p, v_kmt := (v_kmt v)\<lparr>proc_table := pf\<rparr>\<rparr>)))))"

definition vfs_init_procfs :: "vfs \<Rightarrow> (nat \<times> vfs) res" where
  "vfs_init_procfs v =
     bindE (deref (filesys_alloc v)) (\<lambda>idx.
     bindE (procfs_init (proc_table (v_kmt v))) (\<lambda>pf.
     Inr (idx, v\<lparr>filesys := (filesys v)(idx := \<lparr>fs_name = ''procfs'', fs_rfs = None, fs_ops = Procfs_ops\<rparr>),
                 v_kmt := (v_kmt v)\<lparr>proc_table := pf\<rparr>\<rparr>)))"

section \<open>Directories\<close>

definition build_dot :: "nat \<Rightarrow> nat \<Rightarrow> nat \<Rightarrow> fs_type \<Rightarrow> nat option \<Rightarrow> vfs \<Rightarrow> vfs res" where
  "build_dot dot ddot cur ft fs v =
     bindE (set_name dot ''.'' v) (\<lambda>v.
     bindE (set_path dot (v_path (vinodes v cur)) v) (\<lambda>v.
     let v = upd_v dot (\<lambda>n. n\<lparr>v_dot := None, v_ddot := Some ddot, v_next := Some ddot, v_child := Some cur,
                v_prev_link := dot, v_next_link := dot, v_linkcnt := 1, v_mode := TYPE_LINK\<rparr>) v;
         v = add_link cur dot v
     in Inr (upd_v dot (\<lambda>n. n\<lparr>v_fs_type := ft, v_fs := fs\<rparr>) v)))"

definition build_ddot :: "nat \<Rightarrow> nat \<Rightarrow> nat \<Rightarrow> fs_type \<Rightarrow> nat option \<Rightarrow> vfs \<Rightarrow> vfs res" where
  "build_ddot dot ddot par ft fs v =
     bindE (set_name ddot ''..'' v) (\<lambda>v.
     bindE (set_path ddot (v_path (vinodes v par)) v) (\<lambda>v.
     let v = upd_v ddot (\<lambda>n. n\<lparr>v_dot := Some dot, v_ddot := None, v_next := None, v_child := Some par,
                v_prev_link := ddot, v_next_link := ddot, v_linkcnt := 1, v_mode := TYPE_LINK\<rparr>) v;
         v = add_link par ddot v
     in Inr (upd_v ddot (\<lambda>n. n\<lparr>v_fs_type := ft, v_fs := fs\<rparr>) v)))"

text \<open>The macros for a new directory and a new file differ in the slash at the end of the path.\<close>

definition build_general :: "string \<Rightarrow> nat \<Rightarrow> nat \<Rightarrow> nat \<Rightarrow> string \<Rightarrow> u32 \<Rightarrow> fs_type \<Rightarrow> nat option \<Rightarrow> vfs \<Rightarrow> vfs res" where
  "build_general suf idx dot ddot nm mode ft fs v =
     bindE (set_name idx nm v) (\<lambda>v.
     bindE (set_path idx (v_path (vinodes v dot) @ nm @ suf) v) (\<lambda>v.
     Inr (upd_v idx (\<lambda>n. n\<lparr>v_dot := Some dot, v_ddot := Some ddot, v_next := None, v_child := None,
            v_prev_link := idx, v_next_link := idx, v_linkcnt := 1, v_mode := mode, v_fs_type := ft, v_fs := fs\<rparr>) v)))"

definition build_general_null_dir :: "nat \<Rightarrow> nat \<Rightarrow> nat \<Rightarrow> string \<Rightarrow> u32 \<Rightarrow> fs_type \<Rightarrow> nat option \<Rightarrow> vfs \<Rightarrow> vfs res" where
  "build_general_null_dir = build_general ''/''"

definition build_general_file :: "nat \<Rightarrow> nat \<Rightarrow> nat \<Rightarrow> string \<Rightarrow> u32 \<Rightarrow> fs_type \<Rightarrow> nat option \<Rightarrow> vfs \<Rightarrow> vfs res" where
  "build_general_file = build_general []"

definition delete_vinode :: "nat \<Rightarrow> vfs \<Rightarrow> vfs" where
  "delete_vinode idx v = remove_link idx (vinodes_free idx v)"

definition build_root :: "vfs \<Rightarrow> (nat \<times> vfs) res" where
  "build_root v =
     (let (idx, v) = vinodes_alloc v;
          (dot, v) = vinodes_alloc v;
          (ddot, v) = vinodes_alloc v
      in
      bindE (assertE (idx = Some VFS_ROOT)) (\<lambda>_.
      bindE (deref idx) (\<lambda>idx.
      bindE (set_name idx ''/'' v) (\<lambda>v.
      bindE (set_path idx ''/'' v) (\<lambda>v.
      let v = upd_v idx (\<lambda>n. n\<lparr>v_ridx := - 1, v_dot := None, v_ddot := None, v_next := None, v_child := dot,
                 v_prev_link := idx, v_next_link := idx, v_linkcnt := 1, v_mode := TYPE_DIR, v_fs_type := VFS, v_fs := None\<rparr>) v
      in
      bindE (deref dot) (\<lambda>dot.
      bindE (deref ddot) (\<lambda>ddot.
      bindE (build_dot dot ddot idx VFS None v) (\<lambda>v.
      bindE (build_ddot dot ddot idx VFS None v) (\<lambda>v.
      Inr (idx, v))))))))))"

text \<open>The loop to the last child, which notes the entries for the directory and its parent on the way.\<close>

fun last_child :: "nat \<Rightarrow> nat \<Rightarrow> nat option \<times> nat option \<Rightarrow> vfs \<Rightarrow> (nat \<times> nat option \<times> nat option) res" where
  "last_child 0 k dd v = Inl Diverge"
| "last_child (Suc fuel) k dd v =
     (case v_next (vinodes v k) of
        None \<Rightarrow> Inr (k, dd)
      | Some k' \<Rightarrow> last_child fuel k' (if v_name (vinodes v k) = ''.'' then (Some k, Some k') else dd) v)"

definition append_vinode :: "string \<Rightarrow> nat \<Rightarrow> string \<Rightarrow> u32 \<Rightarrow> fs_type \<Rightarrow> nat option \<Rightarrow> vfs \<Rightarrow> (nat \<times> vfs) res" where
  "append_vinode suf par nm mode ft fs v =
     (let (nidx, v) = vinodes_alloc v in
      case v_child (vinodes v par) of
        None \<Rightarrow> Inl AssertFail
      | Some k \<Rightarrow>
          bindE (last_child (MAX_VINODE + 1) k (None, None) v) (\<lambda>(k, dot, ddot).
          bindE (assertE (dot \<noteq> None \<and> ddot \<noteq> None)) (\<lambda>_.
          let v = upd_v k (\<lambda>n. n\<lparr>v_next := nidx\<rparr>) v in
          bindE (deref nidx) (\<lambda>nidx.
          bindE (deref dot) (\<lambda>dot.
          bindE (deref ddot) (\<lambda>ddot.
          bindE (build_general suf nidx dot ddot nm mode ft fs v) (\<lambda>v.
          Inr (nidx, v))))))))"

definition append_dir :: "nat \<Rightarrow> string \<Rightarrow> u32 \<Rightarrow> fs_type \<Rightarrow> nat option \<Rightarrow> vfs \<Rightarrow> (nat \<times> vfs) res" where
  "append_dir = append_vinode ''/''"

definition append_file :: "nat \<Rightarrow> string \<Rightarrow> u32 \<Rightarrow> fs_type \<Rightarrow> nat option \<Rightarrow> vfs \<Rightarrow> (nat \<times> vfs) res" where
  "append_file = append_vinode []"

definition prepare_dir :: "nat \<Rightarrow> nat \<Rightarrow> fs_type \<Rightarrow> nat option \<Rightarrow> vfs \<Rightarrow> (nat \<times> vfs) res" where
  "prepare_dir idx par ft fs v =
     (let (dot, v) = vinodes_alloc v;
          (ddot, v) = vinodes_alloc v
      in
      bindE (assertE (v_child (vinodes v idx) = None)) (\<lambda>_.
      let v = upd_v idx (\<lambda>n. n\<lparr>v_child := dot\<rparr>) v in
      bindE (deref dot) (\<lambda>dot.
      bindE (deref ddot) (\<lambda>ddot.
      bindE (build_dot dot ddot idx ft fs v) (\<lambda>v.
      bindE (build_ddot dot ddot par ft fs v) (\<lambda>v.
      Inr (dot, v)))))))"

text \<open>The loop to the predecessor of \<open>idx\<close>, and the loop that deletes the children.\<close>

fun find_pre :: "nat \<Rightarrow> nat \<Rightarrow> nat option \<Rightarrow> vfs \<Rightarrow> nat res" where
  "find_pre fuel idx None v = Inl OutOfBounds"
| "find_pre 0 idx (Some pre) v = Inl Diverge"
| "find_pre (Suc fuel) idx (Some pre) v =
     (if v_next (vinodes v pre) \<noteq> Some idx then find_pre fuel idx (v_next (vinodes v pre)) v else Inr pre)"

fun delete_children :: "nat \<Rightarrow> nat option \<Rightarrow> vfs \<Rightarrow> vfs res" where
  "delete_children fuel None v = Inr v"
| "delete_children 0 (Some k) v = Inl Diverge"
| "delete_children (Suc fuel) (Some k) v =
     (let v = delete_vinode k v in delete_children fuel (v_next (vinodes v k)) v)"

definition remove_dir :: "nat \<Rightarrow> nat \<Rightarrow> vfs \<Rightarrow> vfs res" where
  "remove_dir idx par v =
     bindE (find_pre (MAX_VINODE + 1) idx (v_child (vinodes v par)) v) (\<lambda>pre.
     let v = upd_v pre (\<lambda>n. n\<lparr>v_next := v_next (vinodes v idx)\<rparr>) v in
     bindE (delete_children (MAX_VINODE + 1) (v_child (vinodes v idx)) v) (\<lambda>v.
     Inr (delete_vinode idx v)))"

section \<open>Descriptors\<close>

definition files_alloc :: "vfs \<Rightarrow> nat option" where
  "files_alloc v = first_idx (\<lambda>i. f_refcnt (files v i) = 0) 0 MAX_FILE"

definition files_free :: "nat \<Rightarrow> vfs \<Rightarrow> vfs" where
  "files_free fd v = v\<lparr>files := (files v)(fd := (files v fd)\<lparr>f_refcnt := 0\<rparr>)\<rparr>"

definition vinode_open :: "nat option \<Rightarrow> vfs \<Rightarrow> int \<times> vfs" where
  "vinode_open inode_idx v =
     (case files_alloc v of
        None \<Rightarrow> (- 1, v)
      | Some fd \<Rightarrow>
          (int fd, v\<lparr>files := (files v)(fd := (files v fd)\<lparr>f_vinode_idx := inode_idx, f_offset := 0,
                        f_refcnt := f_refcnt (files v fd) + 1\<rparr>)\<rparr>))"

section \<open>The interface\<close>

text \<open>
  Each entry point copies its path to the buffer \<^verbatim>\<open>tmppath\<close> before \<^verbatim>\<open>lookup_auto\<close> changes it.  The result
  of \<open>vfs_access\<close> includes the buffer, which \<open>vfs_open\<close> goes on using.
\<close>

definition TMPPATH :: nat where "TMPPATH = 1024"

definition lookup_tmp :: "string \<Rightarrow> vfs \<Rightarrow> (nat option \<times> string \<times> vfs) res" where
  "lookup_tmp path v = bindE (guardE OutOfBounds (length path < TMPPATH)) (\<lambda>_. lookup_auto path v)"

definition vfs_access :: "string \<Rightarrow> u32 \<Rightarrow> vfs \<Rightarrow> (bool \<times> string \<times> vfs) res" where
  "vfs_access path mode v =
     bindE (lookup_tmp path v) (\<lambda>(idx, tmp, v).
     Inr (case idx of None \<Rightarrow> True | Some idx \<Rightarrow> v_mode (vinodes v idx) AND mode \<noteq> mode, tmp, v))"

definition vfs_getpath :: "string \<Rightarrow> vfs \<Rightarrow> (string \<times> vfs) res" where
  "vfs_getpath path v =
     bindE (lookup_tmp path v) (\<lambda>(idx, _, v).
     bindE (deref idx) (\<lambda>idx. Inr (v_path (vinodes v idx), v)))"

definition vfs_help_getpathlen :: "string \<Rightarrow> nat" where
  "vfs_help_getpathlen path =
     (if CHR ''/'' \<in> set path then length path - 1 - length (takeWhile (\<lambda>c. c \<noteq> CHR ''/'') (rev path)) else 0)"

definition vfs_mount :: "string \<Rightarrow> string \<Rightarrow> vfs \<Rightarrow> (int \<times> vfs) res" where
  "vfs_mount filename dirname v =
     bindE (vfs_access filename (TYPE_FILE OR MNT_ABLE) v) (\<lambda>(no, _, v).
     if no then Inr (1, v)
     else
       bindE (vfs_access dirname TYPE_DIR v) (\<lambda>(no, _, v).
       if \<not> no then Inr (2, v)
       else
         bindE (lookup_tmp filename v) (\<lambda>(fl, _, v).
         bindE (last_item_len dirname) (\<lambda>l.
         let offset = length dirname - l - 1 in
         bindE (lookup_auto (take offset dirname) v) (\<lambda>(par, _, v).
         bindE (deref fl) (\<lambda>fl.
         bindE (deref par) (\<lambda>par.
         bindE (append_dir par (drop (offset + 1) dirname) (TYPE_DIR OR UNMNT_ABLE)
                  (v_fs_type (vinodes v fl)) (v_fs (vinodes v fl)) v) (\<lambda>(nidx, v).
         let v = upd_v fl (\<lambda>n. n\<lparr>v_mode := v_mode n AND NOT MNT_ABLE\<rparr>) v;
             v = upd_v nidx (\<lambda>n. n\<lparr>v_linkcnt := int fl\<rparr>) v
         in
         Inr (0, if v_fs_type (vinodes v fl) = EXT2FS then upd_v nidx (\<lambda>n. n\<lparr>v_ridx := EXT2_ROOT\<rparr>) v else v)))))))))"

definition vfs_unmount :: "string \<Rightarrow> vfs \<Rightarrow> (int \<times> vfs) res" where
  "vfs_unmount path v =
     bindE (vfs_access path (TYPE_DIR OR UNMNT_ABLE) v) (\<lambda>(no, _, v).
     if no then Inr (1, v)
     else
       bindE (lookup_tmp path v) (\<lambda>(idx, tmp, v).
       bindE (last_item_len path) (\<lambda>l.
       let offset = length path - l - 1 in
       bindE (lookup_auto (take offset tmp) v) (\<lambda>(par, _, v).
       bindE (deref idx) (\<lambda>idx.
       let fl = v_linkcnt (vinodes v idx) in
       bindE (guardE OutOfBounds (0 \<le> fl \<and> fl < int MAX_VINODE)) (\<lambda>_.
       let v = upd_v (nat fl) (\<lambda>n. n\<lparr>v_mode := v_mode n OR MNT_ABLE\<rparr>) v in
       bindE (deref par) (\<lambda>par.
       bindE (remove_dir idx par v) (\<lambda>v.
       Inr (0, v)))))))))"

text \<open>The disk file system behind a vinode, and its return after an operation.\<close>

definition get_rfs :: "nat \<Rightarrow> vfs \<Rightarrow> (nat \<times> ext2) res" where
  "get_rfs idx v =
     (case v_fs (vinodes v idx) of
        None \<Rightarrow> Inl NullDeref
      | Some f \<Rightarrow> (case fs_rfs (filesys v f) of None \<Rightarrow> Inl NullDeref | Some e \<Rightarrow> Inr (f, e)))"

definition put_rfs :: "nat \<Rightarrow> ext2 \<Rightarrow> vfs \<Rightarrow> vfs" where
  "put_rfs f e v = v\<lparr>filesys := (filesys v)(f := (filesys v f)\<lparr>fs_rfs := Some e\<rparr>)\<rparr>"

definition vfs_create :: "string \<Rightarrow> vfs \<Rightarrow> (int \<times> vfs) res" where
  "vfs_create path v =
     (let offset = vfs_help_getpathlen path in
      if length path = offset then Inr (1, v)
      else
        bindE (guardE OutOfBounds (length path < TMPPATH)) (\<lambda>_.
        bindE (lookup_auto (take offset path) v) (\<lambda>(idx, _, v).
        bindE (deref idx) (\<lambda>idx.
        let nm = drop (offset + 1) path in
        if v_fs_type (vinodes v idx) = EXT2FS then
          bindE (get_rfs idx v) (\<lambda>(f, e).
          bindE (ext2_create (of_int (v_ridx (vinodes v idx))) nm TYPE_DIR e) (\<lambda>(ridx, e).
          let v = put_rfs f e v in
          bindE (append_dir idx nm TYPE_DIR (v_fs_type (vinodes v idx)) (v_fs (vinodes v idx)) v) (\<lambda>(nidx, v).
          bindE (prepare_dir nidx idx (v_fs_type (vinodes v idx)) (v_fs (vinodes v idx)) v) (\<lambda>(_, v).
          Inr (0, upd_v nidx (\<lambda>n. n\<lparr>v_ridx := sint ridx\<rparr>) v)))))
        else Inr (2, v)))))"

definition vfs_remove :: "string \<Rightarrow> vfs \<Rightarrow> (int \<times> vfs) res" where
  "vfs_remove path v =
     (let offset = vfs_help_getpathlen path in
      if length path = offset then Inr (1, v)
      else
        bindE (lookup_tmp path v) (\<lambda>(nidx, tmp, v).
        bindE (lookup_auto (take offset tmp) v) (\<lambda>(idx, _, v).
        let nm = drop (offset + 1) tmp;
            mode = (if CHR ''.'' \<in> set nm then TYPE_FILE else TYPE_DIR)
        in
        bindE (deref idx) (\<lambda>idx.
        if v_fs_type (vinodes v idx) = EXT2FS then
          bindE (get_rfs idx v) (\<lambda>(f, e).
          bindE (ext2_remove (of_int (v_ridx (vinodes v idx))) nm mode e) (\<lambda>(r, e).
          let v = put_rfs f e v in
          if r = 0 then
            bindE (deref nidx) (\<lambda>nidx.
            bindE (remove_dir nidx idx v) (\<lambda>v. Inr (0, v)))
          else Inr (3, v)))
        else Inr (2, v)))))"

definition vfs_link :: "string \<Rightarrow> string \<Rightarrow> vfs \<Rightarrow> (int \<times> vfs) res" where
  "vfs_link oldpath newpath v =
     bindE (lookup_tmp oldpath v) (\<lambda>(oidx, _, v).
     case oidx of
       None \<Rightarrow> Inr (1, v)
     | Some oidx \<Rightarrow>
         bindE (lookup_tmp newpath v) (\<lambda>(nidx, tmp, v).
         if nidx \<noteq> None then Inr (2, v)
         else
           bindE (last_item_len newpath) (\<lambda>l.
           let offset = length newpath - l - 1 in
           bindE (lookup_auto (take offset tmp) v) (\<lambda>(par, _, v).
           bindE (deref par) (\<lambda>par.
           bindE (append_dir par (drop (offset + 1) tmp) TYPE_LINK VFS None v) (\<lambda>(nidx, v).
           let v = (if v_mode (vinodes v oidx) AND TYPE_FILE \<noteq> 0
                    then upd_v nidx (\<lambda>n. n\<lparr>v_path := butlast (v_path n)\<rparr>) v else v)
           in Inr (0, add_link oidx nidx v)))))))"

text \<open>The loop of \<^verbatim>\<open>vfs_unlink\<close> stops at the first entry of the name.\<close>

definition vfs_unlink :: "string \<Rightarrow> vfs \<Rightarrow> (int \<times> vfs) res" where
  "vfs_unlink path v =
     bindE (guardE OutOfBounds (length path < TMPPATH)) (\<lambda>_.
     bindE (last_item_len path) (\<lambda>l.
     let offset = length path - l - 1;
         nm = drop (offset + 1) path
     in
     bindE (lookup_auto (take offset path) v) (\<lambda>(par, _, v).
     bindE (deref par) (\<lambda>par.
     bindE (child_find (MAX_VINODE + 1) (\<lambda>n. v_name n = nm) (v_child (vinodes v par)) v) (\<lambda>k.
     case k of
       None \<Rightarrow> Inr (1, v)
     | Some k \<Rightarrow>
         bindE (assertE (v_name (vinodes v k) \<noteq> ''.'' \<and> v_name (vinodes v k) \<noteq> ''..'')) (\<lambda>_.
         if v_mode (vinodes v k) AND TYPE_LINK \<noteq> 0 then
           bindE (remove_dir k par (remove_link k v)) (\<lambda>v. Inr (0, v))
         else if v_prev_link (vinodes v k) \<noteq> k then
           let l = v_prev_link (vinodes v k);
               v = upd_v l (\<lambda>n. n\<lparr>v_mode := v_mode (vinodes v k), v_ridx := v_ridx (vinodes v k),
                                  v_fs := v_fs (vinodes v k), v_fs_type := v_fs_type (vinodes v k)\<rparr>) v
           in bindE (remove_dir k par (remove_link k v)) (\<lambda>v. Inr (0, v))
         else bindE (vfs_remove path v) (\<lambda>(_, v). Inr (0, v))))))))"

definition vfs_open :: "string \<Rightarrow> u32 \<Rightarrow> vfs \<Rightarrow> (int \<times> vfs) res" where
  "vfs_open path mode v =
     bindE (vfs_access path mode v) (\<lambda>(no, tmp, v).
     if no then Inr (- 1, v)
     else
       bindE (lookup_auto tmp v) (\<lambda>(idx, _, v).
       Inr (vinode_open idx v)))"

text \<open>The vinode of a descriptor.\<close>

definition fd_vinode :: "int \<Rightarrow> vfs \<Rightarrow> nat res" where
  "fd_vinode fd v =
     bindE (guardE OutOfBounds (fd < int MAX_FILE)) (\<lambda>_. deref (f_vinode_idx (files v (nat fd))))"

definition fd_advance :: "int \<Rightarrow> nat \<Rightarrow> vfs \<Rightarrow> vfs" where
  "fd_advance fd ret v =
     v\<lparr>files := (files v)(nat fd := (files v (nat fd))\<lparr>f_offset := f_offset (files v (nat fd)) + of_nat ret\<rparr>)\<rparr>"

text \<open>The bytes that arrive in the buffer; their number is the result of the call.\<close>

definition vfs_read :: "nat \<Rightarrow> int \<Rightarrow> nat \<Rightarrow> vfs \<Rightarrow> (u8 list \<times> vfs) res" where
  "vfs_read ncpu fd nbyte v =
     (if fd < 0 then Inr ([], v)
      else
        bindE (assertE (nbyte \<le> 1024)) (\<lambda>_.
        bindE (fd_vinode fd v) (\<lambda>idx.
        let offset = f_offset (files v (nat fd)) in
        case v_fs_type (vinodes v idx) of
          EXT2FS \<Rightarrow>
            bindE (get_rfs idx v) (\<lambda>(f, e).
            bindE (ext2_read (of_int (v_ridx (vinodes v idx))) offset (of_nat nbyte) e) (\<lambda>(bs, e).
            Inr (bs, fd_advance fd (length bs) (put_rfs f e v))))
        | PROCFS \<Rightarrow>
            bindE (guardE OutOfBounds (0 \<le> v_ridx (vinodes v idx))) (\<lambda>_.
            bindE (procfs_read ncpu (proc_table (v_kmt v)) (nat (v_ridx (vinodes v idx))) offset) (\<lambda>out.
            Inr (map byte_of out, fd_advance fd (length out) v)))
        | _ \<Rightarrow> Inr ([], v))))"

definition vfs_write :: "nat \<Rightarrow> int \<Rightarrow> u8 list \<Rightarrow> nat \<Rightarrow> vfs \<Rightarrow> (nat \<times> vfs) res" where
  "vfs_write cpu fd buf nbyte v =
     (if fd < 0 then Inr (0, v)
      else
        bindE (assertE (nbyte \<le> 1024)) (\<lambda>_.
        bindE (fd_vinode fd v) (\<lambda>idx.
        let offset = f_offset (files v (nat fd)) in
        case v_fs_type (vinodes v idx) of
          EXT2FS \<Rightarrow>
            bindE (get_rfs idx v) (\<lambda>(f, e).
            bindE (ext2_write (of_int (v_ridx (vinodes v idx))) offset buf (of_nat nbyte) e) (\<lambda>(ret, e).
            Inr (ret, fd_advance fd ret (put_rfs f e v))))
        | TTY \<Rightarrow>
            (case v_ttys v (v_name (vinodes v idx)) of
               None \<Rightarrow> Inl Halted
             | Some t \<Rightarrow>
                 bindE (guardE OutOfBounds (nbyte \<le> length buf)) (\<lambda>_.
                 bindE (tty_write cpu (map char_of_byte (take nbyte buf)) (t, v_fb v, v_kmt v)) (\<lambda>(ret, t, f, s).
                 Inr (ret, fd_advance fd ret (v\<lparr>v_ttys := (v_ttys v)(v_name (vinodes v idx) \<mapsto> t), v_fb := f, v_kmt := s\<rparr>)))))
        | _ \<Rightarrow> Inr (0, v))))"

definition vfs_lseek :: "int \<Rightarrow> int \<Rightarrow> int \<Rightarrow> int" where
  "vfs_lseek fd offset whence = 0"

definition vfs_close :: "int \<Rightarrow> vfs \<Rightarrow> int \<times> vfs" where
  "vfs_close fd v = (0, v)"

definition ls_line :: string where
  "ls_line = replicate 59 (CHR ''-'') @ newline"

fun ls_children :: "nat \<Rightarrow> nat option \<Rightarrow> vfs \<Rightarrow> (string \<times> va list) list res" where
  "ls_children fuel None v = Inr []"
| "ls_children 0 (Some k) v = Inl Diverge"
| "ls_children (Suc fuel) (Some k) v =
     bindE (ls_children fuel (v_next (vinodes v k)) v) (\<lambda>r.
     Inr ((''-    %4d         %12s          %s'' @ newline,
           [VInt (of_nat k), VStr (v_name (vinodes v k)), VStr (v_path (vinodes v k))]) # r))"

definition vfs_ls :: "string \<Rightarrow> vfs \<Rightarrow> (string option \<times> vfs) res" where
  "vfs_ls dirname v =
     bindE (lookup_auto dirname v) (\<lambda>(idx, _, v).
     case idx of
       None \<Rightarrow> Inr (None, v)
     | Some idx \<Rightarrow>
         bindE (ls_children (MAX_VINODE + 1) (v_child (vinodes v idx)) v) (\<lambda>cs.
         bindE (sprints ((ls_line, []) #
            (''      index       name                  path        '' @ newline, []) #
            (''>>   %4d         %12s          %s'' @ newline @ newline,
              [VInt (of_nat idx), VStr (v_name (vinodes v idx)), VStr (v_path (vinodes v idx))]) #
            cs @ [(ls_line, [])])) (\<lambda>out.
         Inr (Some out, v))))"

text \<open>\<open>d0\<close> and \<open>d1\<close> are the contents of the two ram disks.\<close>

definition vfs_init :: "(nat \<Rightarrow> u8) \<Rightarrow> (nat \<Rightarrow> u8) \<Rightarrow> vfs \<Rightarrow> (int \<times> vfs) res" where
  "vfs_init d0 d1 v =
     bindE (build_root v) (\<lambda>(root, v).
     bindE (append_dir root ''dev'' TYPE_DIR VFS None v) (\<lambda>(dev, v).
     bindE (append_dir root ''mnt'' TYPE_DIR VFS None v) (\<lambda>(mnt, v).
     bindE (vfs_init_procfs v) (\<lambda>(procfs, v).
     bindE (vfs_init_blockdev ''ramdisk0'' d0 v) (\<lambda>(r0fs, v).
     bindE (vfs_init_blockdev ''ramdisk1'' d1 v) (\<lambda>(r1fs, v).
     bindE (prepare_dir dev root VFS None v) (\<lambda>(_, v).
     bindE (prepare_dir mnt root VFS None v) (\<lambda>(_, v).
     bindE (append_dir root ''proc'' TYPE_DIR PROCFS (Some procfs) v) (\<lambda>(_, v).
     bindE (append_file dev ''ramdisk0'' (TYPE_FILE OR MNT_ABLE) EXT2FS (Some r0fs) v) (\<lambda>(_, v).
     bindE (append_file dev ''ramdisk1'' (TYPE_FILE OR MNT_ABLE) EXT2FS (Some r1fs) v) (\<lambda>(_, v).
     bindE (append_file dev ''tty1'' (TYPE_FILE OR WR_ABLE) TTY None v) (\<lambda>(_, v).
     bindE (append_file dev ''tty2'' (TYPE_FILE OR WR_ABLE) TTY None v) (\<lambda>(_, v).
     bindE (append_file dev ''tty3'' (TYPE_FILE OR WR_ABLE) TTY None v) (\<lambda>(_, v).
     bindE (append_file dev ''tty4'' (TYPE_FILE OR WR_ABLE) TTY None v) (\<lambda>(_, v).
     bindE (vfs_mount ''/dev/ramdisk0'' ''/R0'' v) (\<lambda>(_, v).
     bindE (vfs_mount ''/dev/ramdisk1'' ''/mnt/R1'' v) (\<lambda>(_, v).
     Inr (0, v))))))))))))))))))"

end
