(* ===== verification/Vfs_Dir.thy ===== *)
theory Vfs_Dir
  imports Vfs
begin

text \<open>
  The children of a directory as a list of names and vinodes.  A locale states what the virtual file system
  promises of its directories: a new entry goes to the end of its directory and nowhere else, and a name is
  found when it is there.  \<open>append_vinode\<close> and the search loop keep that contract.
\<close>

section \<open>The contract of a table of directories\<close>

text \<open>A client enters several names into one directory.\<close>

primrec enter_all :: "('d \<Rightarrow> string \<Rightarrow> 's \<Rightarrow> ('d \<times> 's) res) \<Rightarrow> 'd \<Rightarrow> string list \<Rightarrow> 's \<Rightarrow> ('d list \<times> 's) res" where
  "enter_all ins d [] s = Inr ([], s)"
| "enter_all ins d (nm # nms) s =
     bindE (ins d nm s) (\<lambda>(i, s). bindE (enter_all ins d nms s) (\<lambda>(is, s). Inr (i # is, s)))"

locale directories =
  fixes rep :: "'s \<Rightarrow> ('d \<rightharpoonup> (string \<times> 'd) list) \<Rightarrow> bool" and fits :: "'s \<Rightarrow> 'd \<Rightarrow> string \<Rightarrow> bool"
    and free :: "'s \<Rightarrow> 'd set" and ins :: "'d \<Rightarrow> string \<Rightarrow> 's \<Rightarrow> ('d \<times> 's) res"
    and lookup :: "'d \<Rightarrow> string \<Rightarrow> 's \<Rightarrow> 'd option res"
  assumes free_finite: "finite (free s)"
    and ins_law: "rep s D \<Longrightarrow> D d = Some es \<Longrightarrow> fits s d nm \<Longrightarrow> nm \<notin> fst ` set es \<Longrightarrow> free s \<noteq> {} \<Longrightarrow>
      \<exists>i s'. ins d nm s = Inr (i, s') \<and> i \<in> free s \<and> free s' = free s - {i} \<and> rep s' (D(d \<mapsto> es @ [(nm, i)])) \<and>
        (\<forall>nm'. fits s d nm' \<longrightarrow> fits s' d nm')"
    and lookup_law: "rep s D \<Longrightarrow> D d = Some es \<Longrightarrow> fits s d nm \<Longrightarrow> lookup d nm s = Inr (map_of es nm)"
begin

lemma enter_all_run:
  assumes "rep s D" and "D d = Some es" and "\<forall>nm \<in> set nms. fits s d nm" and "distinct nms"
    and "fst ` set es \<inter> set nms = {}" and "length nms \<le> card (free s)"
  shows "\<exists>is s'. enter_all ins d nms s = Inr (is, s') \<and> length is = length nms \<and> distinct is \<and> set is \<subseteq> free s \<and>
    rep s' (D(d \<mapsto> es @ zip nms is)) \<and> (\<forall>nm. fits s d nm \<longrightarrow> fits s' d nm)"
  using assms
proof (induction nms arbitrary: s D es)
  case Nil
  then have "D(d \<mapsto> es) = D" by auto
  with Nil show ?case by simp
next
  case (Cons nm nms)
  have ne: "free s \<noteq> {}" using Cons.prems(6) by auto
  obtain i s1 where i: "ins d nm s = Inr (i, s1)" "i \<in> free s" "free s1 = free s - {i}"
    "rep s1 (D(d \<mapsto> es @ [(nm, i)]))" "\<forall>nm'. fits s d nm' \<longrightarrow> fits s1 d nm'"
    using ins_law [OF Cons.prems(1,2) _ _ ne, of nm] Cons.prems(3,5) by auto
  have "\<exists>is s'. enter_all ins d nms s1 = Inr (is, s') \<and> length is = length nms \<and> distinct is \<and> set is \<subseteq> free s1 \<and>
    rep s' ((D(d \<mapsto> es @ [(nm, i)]))(d \<mapsto> (es @ [(nm, i)]) @ zip nms is)) \<and> (\<forall>nm. fits s1 d nm \<longrightarrow> fits s' d nm)"
  proof (rule Cons.IH [OF i(4)])
    show "\<forall>nm \<in> set nms. fits s1 d nm" using Cons.prems(3) i(5) by simp
    show "length nms \<le> card (free s1)" using Cons.prems(6) i(2,3) free_finite [of s] by simp
  qed (use Cons.prems in auto)
  then obtain "is" s' where r: "enter_all ins d nms s1 = Inr (is, s')" "length is = length nms" "distinct is" "set is \<subseteq> free s1"
    "rep s' (D(d \<mapsto> es @ zip (nm # nms) (i # is)))" "\<forall>nm. fits s1 d nm \<longrightarrow> fits s' d nm" by auto
  then show ?case using i by (intro exI [of _ "i # is"] exI [of _ s']) (auto simp del: fun_upd_apply)
qed

text \<open>Every name that was entered is found, and the other names of the directory are found as before.\<close>

lemma enter_all_lookup:
  assumes "rep s D" and "D d = Some es" and "\<forall>nm \<in> set nms. fits s d nm" and "distinct nms"
    and "fst ` set es \<inter> set nms = {}" and "length nms \<le> card (free s)"
  shows "\<exists>is s'. enter_all ins d nms s = Inr (is, s') \<and> length is = length nms \<and> distinct is \<and> set is \<subseteq> free s \<and>
    rep s' (D(d \<mapsto> es @ zip nms is)) \<and>
    (\<forall>k < length nms. lookup d (nms ! k) s' = Inr (Some (is ! k))) \<and>
    (\<forall>nm. fits s d nm \<and> nm \<notin> set nms \<longrightarrow> lookup d nm s' = Inr (map_of es nm))"
proof -
  obtain "is" s' where r: "enter_all ins d nms s = Inr (is, s')" "length is = length nms" "distinct is" "set is \<subseteq> free s"
    "rep s' (D(d \<mapsto> es @ zip nms is))" "\<forall>nm. fits s d nm \<longrightarrow> fits s' d nm"
    using enter_all_run [OF assms] by blast
  have lk: "lookup d nm s' = Inr (map_of (es @ zip nms is) nm)" if "fits s d nm" for nm
    using lookup_law [OF r(5), of d] r(6) that by simp
  have "map_of (es @ zip nms is) (nms ! k) = Some (is ! k)" if k: "k < length nms" for k
  proof -
    have "nms ! k \<notin> fst ` set es" using assms(5) nth_mem [OF k] by blast
    then have "map_of es (nms ! k) = None" by (simp add: map_of_eq_None_iff)
    moreover have "map_of (zip nms is) (nms ! k) = Some (is ! k)"
      using k r(2) assms(4) by (simp add: map_of_zip_nth)
    ultimately show ?thesis by (simp add: map_add_def)
  qed
  moreover have "map_of (es @ zip nms is) nm = map_of es nm" if "nm \<notin> set nms" for nm
  proof -
    have "nm \<notin> fst ` set (zip nms is)" using that by (auto dest: set_zip_leftD)
    then have "map_of (zip nms is) nm = None" by (simp add: map_of_eq_None_iff)
    then show ?thesis by (cases "map_of es nm") (simp_all add: map_add_def)
  qed
  ultimately show ?thesis using r lk assms(3) nth_mem by (intro exI [of _ "is"] exI [of _ s']) auto
qed

end

section \<open>The children of a vinode\<close>

primrec child_list :: "vfs \<Rightarrow> nat option \<Rightarrow> nat list \<Rightarrow> bool" where
  "child_list v s [] \<longleftrightarrow> s = None"
| "child_list v s (k # ks) \<longleftrightarrow> s = Some k \<and> child_list v (v_next (vinodes v k)) ks"

lemma child_list_cong:
  "(\<And>k. k \<in> set ks \<Longrightarrow> v_next (vinodes v' k) = v_next (vinodes v k)) \<Longrightarrow> child_list v' s ks = child_list v s ks"
  by (induction ks arbitrary: s) auto

lemma child_list_snoc:
  assumes "child_list v s (ks @ [k])" and "\<And>j. j \<in> set ks \<Longrightarrow> v_next (vinodes v' j) = v_next (vinodes v j)"
    and "v_next (vinodes v' k) = Some n" and "v_next (vinodes v' n) = None"
  shows "child_list v' s (ks @ [k, n])"
  using assms by (induction ks arbitrary: s) auto

lemma child_list_tail: "child_list v s (xs @ y # ys) \<Longrightarrow> child_list v (Some y) (y # ys)"
  by (induction xs arbitrary: s) auto

lemma child_list_unique: "child_list v s xs \<Longrightarrow> child_list v s ys \<Longrightarrow> xs = ys"
  by (induction xs arbitrary: s ys) (case_tac ys; auto)+

lemma child_list_distinct: "child_list v s ks \<Longrightarrow> distinct ks"
proof (induction ks arbitrary: s)
  case (Cons k ks)
  have "k \<notin> set ks"
  proof
    assume "k \<in> set ks"
    then obtain xs ys where ks: "ks = xs @ k # ys" by (meson split_list)
    then have "child_list v (Some k) (k # ys)" using Cons.prems child_list_tail [of v s "k # xs" k ys] by simp
    moreover have "child_list v (Some k) (k # ks)" using Cons.prems by simp
    ultimately have "k # ys = k # ks" by (rule child_list_unique)
    with ks show False by simp
  qed
  with Cons show ?case by auto
qed simp

lemma child_find_run:
  "child_list v s ks \<Longrightarrow> length ks \<le> fuel \<Longrightarrow> child_find fuel P s v = Inr (find (\<lambda>k. P (vinodes v k)) ks)"
proof (induction ks arbitrary: s fuel)
  case (Cons k ks)
  then obtain f where f: "fuel = Suc f" by (cases fuel) auto
  then show ?case using Cons by auto
qed simp

lemma last_child_plain:
  "child_list v (Some k) (k # ks) \<Longrightarrow> length ks < fuel \<Longrightarrow> \<forall>j \<in> set (k # ks). v_name (vinodes v j) \<noteq> ''.'' \<Longrightarrow>
     last_child fuel k dd v = Inr (last (k # ks), dd)"
proof (induction ks arbitrary: k fuel)
  case Nil
  then obtain f where "fuel = Suc f" by (cases fuel) auto
  then show ?case using Nil by auto
next
  case (Cons j ks)
  then obtain f where f: "fuel = Suc f" by (cases fuel) auto
  have "last_child f j dd v = Inr (last (j # ks), dd)" by (rule Cons.IH) (use Cons.prems f in auto)
  then show ?case using Cons.prems f by simp
qed

section \<open>The table of directories\<close>

text \<open>
  \<open>dirs_rep v D\<close>: the vinodes in the domain of \<open>D\<close> are directories with the given entries.  The first two
  entries are those for the directory itself and its parent, names are distinct C strings, and no vinode is an
  entry of two directories.
\<close>

definition entries_rep :: "vfs \<Rightarrow> nat \<Rightarrow> (string \<times> nat) list \<Rightarrow> bool" where
  "entries_rep v d es \<longleftrightarrow>
     child_list v (v_child (vinodes v d)) (map snd es) \<and> distinct (map fst es) \<and>
     (\<exists>dot ddot rest. es = (''.'', dot) # (''..'', ddot) # rest) \<and>
     (\<forall>(nm, k) \<in> set es. v_name (vinodes v k) = nm \<and> NUL \<notin> set nm \<and> k < MAX_VINODE \<and> v_mode (vinodes v k) \<noteq> 0)"

definition dirs_rep :: "vfs \<Rightarrow> (nat \<rightharpoonup> (string \<times> nat) list) \<Rightarrow> bool" where
  "dirs_rep v D \<longleftrightarrow>
     (\<forall>d es. D d = Some es \<longrightarrow> entries_rep v d es \<and> d < MAX_VINODE \<and> v_mode (vinodes v d) \<noteq> 0) \<and>
     (\<forall>d d' es es'. D d = Some es \<longrightarrow> D d' = Some es' \<longrightarrow> d \<noteq> d' \<longrightarrow> snd ` set es \<inter> snd ` set es' = {})"

definition free_vinodes :: "vfs \<Rightarrow> nat set" where
  "free_vinodes v = {i. i < MAX_VINODE \<and> v_mode (vinodes v i) = 0}"

text \<open>The name and the path of a new entry fit into their buffers.\<close>

definition entry_fits :: "string \<Rightarrow> vfs \<Rightarrow> nat \<Rightarrow> string \<Rightarrow> bool" where
  "entry_fits suf v d nm \<longleftrightarrow> NUL \<notin> set nm \<and> CHR ''/'' \<notin> set nm \<and> nm \<noteq> [] \<and> length nm < MAX_NAME_LENGTH \<and>
     (\<exists>k. v_child (vinodes v d) = Some k \<and> length (v_path (vinodes v k) @ nm @ suf) < MAX_PATH_LENGTH \<and> v_mode (vinodes v k) \<noteq> 0)"

text \<open>The search for one name among the children.\<close>

definition find_entry :: "nat \<Rightarrow> string \<Rightarrow> vfs \<Rightarrow> nat option res" where
  "find_entry d nm v =
     child_find (MAX_VINODE + 1) (\<lambda>n. item_match (v_name n) nm (vfs_first_item_len nm)) (v_child (vinodes v d)) v"

lemma entries_small:
  assumes "entries_rep v d es"
  shows "length es \<le> MAX_VINODE" "distinct (map snd es)"
proof -
  show d: "distinct (map snd es)" using assms child_list_distinct unfolding entries_rep_def by blast
  have "set (map snd es) \<subseteq> {..<MAX_VINODE}" using assms by (auto simp: entries_rep_def)
  then have "card (set (map snd es)) \<le> MAX_VINODE" using card_mono [of "{..<MAX_VINODE}"] by simp
  then show "length es \<le> MAX_VINODE" using distinct_card [OF d] by simp
qed

lemma entries_used:
  assumes "entries_rep v d es" and "k \<in> snd ` set es"
  shows "k < MAX_VINODE" "v_mode (vinodes v k) \<noteq> 0"
  using assms unfolding entries_rep_def by auto

lemma entries_name: "entries_rep v d es \<Longrightarrow> (nm, k) \<in> set es \<Longrightarrow> v_name (vinodes v k) = nm \<and> NUL \<notin> set nm"
  unfolding entries_rep_def by blast

lemma item_match_iff:
  assumes "NUL \<notin> set nm" and "NUL \<notin> set path" and "n \<le> length path"
  shows "item_match nm path n \<longleftrightarrow> nm = take n path"
proof -
  have "strcmp_list (take n nm) (take n path) = 0 \<longleftrightarrow> take n nm = take n path"
    by (rule strcmp_list_eq_0) (use assms in \<open>auto dest: in_set_takeD\<close>)
  then show ?thesis using assms(3) by (auto simp: item_match_def strncmp_list_def)
qed

lemma find_map_of:
  assumes "\<And>nm k. (nm, k) \<in> set es \<Longrightarrow> P k \<longleftrightarrow> nm = x"
  shows "find P (map snd es) = map_of es x"
  using assms
proof (induction es)
  case (Cons e es)
  have "P (snd e) \<longleftrightarrow> fst e = x" using Cons.prems [of "fst e" "snd e"] by simp
  moreover have "find P (map snd es) = map_of es x" by (rule Cons.IH) (use Cons.prems in auto)
  ultimately show ?case by (cases e) auto
qed simp

lemma first_item_len_plain [simp]: "CHR ''/'' \<notin> set nm \<Longrightarrow> vfs_first_item_len nm = length nm"
  unfolding vfs_first_item_len_def by (subst takeWhile_eq_all_conv [THEN iffD2]) auto

lemma child_find_entries:
  assumes "entries_rep v d es" and "NUL \<notin> set path" and "n \<le> length path"
  shows "child_find (MAX_VINODE + 1) (\<lambda>m. item_match (v_name m) path n) (v_child (vinodes v d)) v = Inr (map_of es (take n path))"
proof -
  have "child_find (MAX_VINODE + 1) (\<lambda>m. item_match (v_name m) path n) (v_child (vinodes v d)) v =
      Inr (find (\<lambda>k. item_match (v_name (vinodes v k)) path n) (map snd es))"
    using assms(1) entries_small(1) [OF assms(1)] by (intro child_find_run) (simp_all add: entries_rep_def)
  moreover have "find (\<lambda>k. item_match (v_name (vinodes v k)) path n) (map snd es) = map_of es (take n path)"
  proof (rule find_map_of)
    fix nm k assume "(nm, k) \<in> set es"
    then have "v_name (vinodes v k) = nm" "NUL \<notin> set nm" using assms(1) by (auto simp: entries_rep_def)
    then show "item_match (v_name (vinodes v k)) path n \<longleftrightarrow> nm = take n path"
      using item_match_iff [OF _ assms(2,3), of nm] by simp
  qed
  ultimately show ?thesis by simp
qed

lemma last_child_dots:
  assumes "entries_rep v d es" and "es = (''.'', dot) # (''..'', ddot) # rest"
  shows "last_child (MAX_VINODE + 1) dot (None, None) v = Inr (last (map snd es), Some dot, Some ddot)"
proof -
  have c: "child_list v (Some ddot) (ddot # map snd rest)" and n: "v_next (vinodes v dot) = Some ddot"
    and nm: "v_name (vinodes v dot) = ''.''"
    using assms by (auto simp: entries_rep_def)
  have "\<forall>j \<in> set (ddot # map snd rest). v_name (vinodes v j) \<noteq> ''.''"
  proof
    fix j assume "j \<in> set (ddot # map snd rest)"
    then obtain x where x: "(x, j) \<in> set ((''..'', ddot) # rest)" by fastforce
    then have "x \<in> set (map fst ((''..'', ddot) # rest))" by force
    then have "x \<noteq> ''.''" using assms by (auto simp: entries_rep_def)
    moreover have "v_name (vinodes v j) = x" using x assms by (auto simp: entries_rep_def)
    ultimately show "v_name (vinodes v j) \<noteq> ''.''" by simp
  qed
  then have "last_child MAX_VINODE ddot (Some dot, Some ddot) v = Inr (last (ddot # map snd rest), Some dot, Some ddot)"
    using entries_small(1) [OF assms(1)] assms(2) by (intro last_child_plain [OF c]) auto
  then show ?thesis using n nm assms(2) by simp
qed

text \<open>A new entry.\<close>

lemma entries_frame:
  assumes "entries_rep v d es" and "v_child (vinodes v' d) = v_child (vinodes v d)"
    and "\<And>k. k \<in> snd ` set es \<Longrightarrow> v_next (vinodes v' k) = v_next (vinodes v k) \<and> v_name (vinodes v' k) = v_name (vinodes v k) \<and>
      (v_mode (vinodes v' k) = 0) = (v_mode (vinodes v k) = 0)"
  shows "entries_rep v' d es"
proof -
  have "child_list v' (v_child (vinodes v' d)) (map snd es) = child_list v (v_child (vinodes v d)) (map snd es)"
    unfolding assms(2) by (rule child_list_cong) (use assms(3) in auto)
  moreover have "(\<forall>(nm, k) \<in> set es. v_name (vinodes v' k) = nm \<and> NUL \<notin> set nm \<and> k < MAX_VINODE \<and> v_mode (vinodes v' k) \<noteq> 0) \<longleftrightarrow>
      (\<forall>(nm, k) \<in> set es. v_name (vinodes v k) = nm \<and> NUL \<notin> set nm \<and> k < MAX_VINODE \<and> v_mode (vinodes v k) \<noteq> 0)"
    using assms(3) by (intro ball_cong) force+
  ultimately show ?thesis using assms(1) by (simp add: entries_rep_def)
qed

text \<open>The state after \<open>append_vinode\<close>.\<close>

definition appended :: "string \<Rightarrow> nat \<Rightarrow> nat \<Rightarrow> nat \<Rightarrow> nat \<Rightarrow> string \<Rightarrow> u32 \<Rightarrow> fs_type \<Rightarrow> nat option \<Rightarrow> vfs \<Rightarrow> vfs" where
  "appended path nidx lst dot ddot nm mode ft fs v =
     v\<lparr>vinodes := (vinodes v)(lst := (vinodes v lst)\<lparr>v_next := Some nidx\<rparr>,
       nidx := (vinodes v nidx)\<lparr>v_name := nm, v_path := path, v_dot := Some dot, v_ddot := Some ddot, v_next := None, v_child := None,
         v_prev_link := nidx, v_next_link := nidx, v_linkcnt := 1, v_mode := mode, v_fs_type := ft, v_fs := fs\<rparr>)\<rparr>"

lemma append_vinode_run:
  assumes d: "entries_rep v d es" and es: "es = (''.'', dot) # (''..'', ddot) # rest" and fit: "entry_fits suf v d nm"
    and fr: "free_vinodes v \<noteq> {}"
  defines "nidx \<equiv> Min (free_vinodes v)"
  shows "append_vinode suf d nm mode ft fs v =
    Inr (nidx, appended (v_path (vinodes v dot) @ nm @ suf) nidx (last (map snd es)) dot ddot nm mode ft fs v)"
proof -
  have fin: "finite (free_vinodes v)" by (simp add: free_vinodes_def)
  have ni: "nidx \<in> free_vinodes v" "\<And>j. j \<in> free_vinodes v \<Longrightarrow> nidx \<le> j"
    using Min_in [OF fin fr] Min_le [OF fin] by (simp_all add: nidx_def)
  have al: "vinodes_alloc v = (Some nidx, upd_v nidx (\<lambda>n. n\<lparr>v_mode := v_mode n OR ALLOCED\<rparr>) v)"
  proof -
    have "v_mode (vinodes v j) \<noteq> 0" if "j < nidx" for j
      using ni(1) ni(2) [of j] that by (auto simp: free_vinodes_def)
    then have "first_idx (\<lambda>i. v_mode (vinodes v i) = 0) 0 MAX_VINODE = Some nidx"
      using ni(1) by (intro first_idx_eqI) (auto simp: free_vinodes_def)
    then show ?thesis by (simp add: vinodes_alloc_def)
  qed
  let ?v = "upd_v nidx (\<lambda>n. n\<lparr>v_mode := v_mode n OR ALLOCED\<rparr>) v"
  have nin: "nidx \<notin> snd ` set es" using d ni(1) by (auto simp: entries_rep_def free_vinodes_def)
  have d': "entries_rep ?v d es" by (rule entries_frame [OF d]) (use nin in auto)
  note lc = last_child_dots [OF d' es]
  have ch: "v_child (vinodes v d) = Some dot" using d es by (simp add: entries_rep_def)
  then have chv: "v_child (vinodes ?v d) = Some dot" by (cases "d = nidx") simp_all
  let ?k = "last (map snd es)"
  have k: "?k \<in> snd ` set es" using es by (metis last_in_set list.distinct(1) list.map_disc_iff list.set_map)
  have "dot \<in> snd ` set es" using es by simp
  then have dn: "dot \<noteq> nidx" "?k \<noteq> nidx" using nin k by metis+
  have "?k = last (ddot # map snd rest)" using es by simp
  then have "?k \<in> set (ddot # map snd rest)" using last_in_set [of "ddot # map snd rest"] by simp
  moreover have "dot \<notin> set (ddot # map snd rest)" using entries_small(2) [OF d] unfolding es by simp
  ultimately have dk: "dot \<noteq> ?k" by metis
  have len: "length nm < MAX_NAME_LENGTH" "length (v_path (vinodes v dot) @ nm @ suf) < MAX_PATH_LENGTH"
    using fit ch by (auto simp: entry_fits_def)
  show ?thesis
    unfolding append_vinode_def al Let_def prod.case chv option.case
    using lc dn dk len
    by (simp add: deref_def build_general_def set_name_def set_path_def appended_def fun_upd_twist)
qed

text \<open>The entries of one directory change; the nodes of the other directories keep their links, names and modes.\<close>

lemma dirs_rep_update:
  assumes rep: "dirs_rep v D" and d: "D d = Some es" and new: "entries_rep v' d es'" "v_mode (vinodes v' d) \<noteq> 0"
    and keep: "\<And>x e. D x = Some e \<Longrightarrow> x \<noteq> d \<Longrightarrow> v_child (vinodes v' x) = v_child (vinodes v x) \<and> v_mode (vinodes v' x) \<noteq> 0"
    and frame: "\<And>x e j. D x = Some e \<Longrightarrow> x \<noteq> d \<Longrightarrow> j \<in> snd ` set e \<Longrightarrow> j \<notin> snd ` set es' \<and> v_next (vinodes v' j) = v_next (vinodes v j) \<and>
      v_name (vinodes v' j) = v_name (vinodes v j) \<and> (v_mode (vinodes v' j) = 0) = (v_mode (vinodes v j) = 0)"
  shows "dirs_rep v' (D(d \<mapsto> es'))"
  unfolding dirs_rep_def
proof (intro conjI allI impI)
  fix x e assume x: "(D(d \<mapsto> es')) x = Some e"
  have o: "entries_rep v x e" if "D x = Some e" using rep that by (auto simp: dirs_rep_def)
  show "entries_rep v' x e"
  proof (cases "x = d")
    case False
    then have Dx: "D x = Some e" using x by simp
    show ?thesis by (rule entries_frame [OF o [OF Dx]]) (use keep [OF Dx False] frame [OF Dx False] in simp_all)
  qed (use x new in simp)
  show "x < MAX_VINODE" using rep d x unfolding dirs_rep_def by (auto split: if_splits)
  show "v_mode (vinodes v' x) \<noteq> 0" using keep [of x] new(2) x by (cases "x = d") auto
next
  fix d1 d2 e1 e2
  assume a: "(D(d \<mapsto> es')) d1 = Some e1" "(D(d \<mapsto> es')) d2 = Some e2" "d1 \<noteq> d2"
  have dis: "snd ` set e \<inter> snd ` set e' = {}" if "D x = Some e" "D y = Some e'" "x \<noteq> y" for x y e e'
    using rep that unfolding dirs_rep_def by blast
  have dn: "snd ` set e \<inter> snd ` set es' = {}" if "D x = Some e" "x \<noteq> d" for x e using frame [OF that] by blast
  show "snd ` set e1 \<inter> snd ` set e2 = {}" using a dis [of d1 e1 d2 e2] dn [of d1 e1] dn [of d2 e2] by (cases "d1 = d"; cases "d2 = d") auto
qed

text \<open>A directory with a new node behind its last entry.\<close>

lemma entries_rep_snoc:
  assumes er: "entries_rep v d es" and k: "k = last (map snd es)" and i: "i \<notin> snd ` set es" "i < MAX_VINODE" "v_mode (vinodes v' i) \<noteq> 0"
    and vi: "v_next (vinodes v' i) = None" "v_name (vinodes v' i) = nm" and nm: "nm \<notin> fst ` set es" "NUL \<notin> set nm"
    and vk: "v_next (vinodes v' k) = Some i" and c: "v_child (vinodes v' d) = v_child (vinodes v d)"
    and keep: "\<And>j. j \<in> snd ` set es \<Longrightarrow> v_name (vinodes v' j) = v_name (vinodes v j) \<and> v_mode (vinodes v' j) = v_mode (vinodes v j) \<and>
      (j \<noteq> k \<longrightarrow> v_next (vinodes v' j) = v_next (vinodes v j))"
  shows "entries_rep v' d (es @ [(nm, i)])"
proof -
  have es: "es \<noteq> []" using er by (auto simp: entries_rep_def)
  then have ks: "map snd es = butlast (map snd es) @ [k]" unfolding k by (simp del: butlast.simps last.simps)
  have dk: "k \<notin> set (butlast (map snd es))" using entries_small(2) [OF er] ks by (metis distinct_append disjoint_iff list.set_intros(1))
  have "child_list v' (v_child (vinodes v d)) (butlast (map snd es) @ [k, i])"
  proof (rule child_list_snoc)
    show "child_list v (v_child (vinodes v d)) (butlast (map snd es) @ [k])" using er ks unfolding entries_rep_def by metis
    fix j assume j: "j \<in> set (butlast (map snd es))"
    then have "j \<in> snd ` set es" by (metis in_set_butlastD list.set_map)
    then show "v_next (vinodes v' j) = v_next (vinodes v j)" using keep [of j] j dk by metis
  qed (use vk vi in simp_all)
  moreover have "butlast (map snd es) @ [k, i] = map snd (es @ [(nm, i)])" using ks by simp
  ultimately have cl: "child_list v' (v_child (vinodes v' d)) (map snd (es @ [(nm, i)]))" unfolding c by metis
  have "v_name (vinodes v' j) = x \<and> NUL \<notin> set x \<and> j < MAX_VINODE \<and> v_mode (vinodes v' j) \<noteq> 0" if x: "(x, j) \<in> set es" for x j
  proof -
    have "j \<in> snd ` set es" using x by (metis image_eqI snd_conv)
    moreover have "v_name (vinodes v j) = x \<and> NUL \<notin> set x \<and> j < MAX_VINODE \<and> v_mode (vinodes v j) \<noteq> 0"
      using er x unfolding entries_rep_def by blast
    ultimately show ?thesis using keep [of j] by simp
  qed
  then have "\<forall>(x, j) \<in> set (es @ [(nm, i)]). v_name (vinodes v' j) = x \<and> NUL \<notin> set x \<and> j < MAX_VINODE \<and> v_mode (vinodes v' j) \<noteq> 0"
    using vi i nm by auto
  moreover have "\<exists>dot ddot rest. es @ [(nm, i)] = (''.'', dot) # (''..'', ddot) # rest" using er by (auto simp: entries_rep_def)
  moreover have "distinct (map fst (es @ [(nm, i)]))" using er nm by (simp add: entries_rep_def)
  ultimately show ?thesis using cl unfolding entries_rep_def by blast
qed

lemma append_vinode_law:
  assumes rep: "dirs_rep v D" and d: "D d = Some es" and fit: "entry_fits suf v d nm" and new: "nm \<notin> fst ` set es"
    and fr: "free_vinodes v \<noteq> {}" and mode: "mode \<noteq> 0"
  shows "\<exists>i v'. append_vinode suf d nm mode ft fs v = Inr (i, v') \<and> i \<in> free_vinodes v \<and> free_vinodes v' = free_vinodes v - {i} \<and>
    dirs_rep v' (D(d \<mapsto> es @ [(nm, i)])) \<and> (\<forall>nm'. entry_fits suf v d nm' \<longrightarrow> entry_fits suf v' d nm')"
proof -
  have er: "entries_rep v d es" "d < MAX_VINODE" "v_mode (vinodes v d) \<noteq> 0" using rep d by (auto simp: dirs_rep_def)
  then obtain dot ddot rest where es: "es = (''.'', dot) # (''..'', ddot) # rest" by (auto simp: entries_rep_def)
  define i where "i = Min (free_vinodes v)"
  define k where "k = last (map snd es)"
  define v' where "v' = appended (v_path (vinodes v dot) @ nm @ suf) i k dot ddot nm mode ft fs v"
  have run: "append_vinode suf d nm mode ft fs v = Inr (i, v')"
    using append_vinode_run [OF er(1) es fit fr] by (simp add: i_def k_def v'_def)
  have i: "i \<in> free_vinodes v" unfolding i_def by (rule Min_in) (use fr in \<open>simp_all add: free_vinodes_def\<close>)
  have used: "j \<noteq> i" if "v_mode (vinodes v j) \<noteq> 0" for j using i that by (auto simp: free_vinodes_def)
  have k: "k \<in> snd ` set es" unfolding k_def using es by (metis last_in_set list.distinct(1) list.map_disc_iff list.set_map)
  then have ki: "k \<noteq> i" using entries_used(2) [OF er(1)] used by blast
  have di: "d \<noteq> i" using used er(3) by blast
  have vi: "vinodes v' j = vinodes v j" if "j \<noteq> i" "j \<noteq> k" for j using that by (simp add: v'_def appended_def)
  have vk: "vinodes v' k = (vinodes v k)\<lparr>v_next := Some i\<rparr>" using ki by (simp add: v'_def appended_def)
  have vn: "v_next (vinodes v' i) = None" "v_name (vinodes v' i) = nm" "v_mode (vinodes v' i) = mode"
    by (simp_all add: v'_def appended_def)
  have keep: "v_name (vinodes v' j) = v_name (vinodes v j)" "v_mode (vinodes v' j) = v_mode (vinodes v j)"
    "v_child (vinodes v' j) = v_child (vinodes v j)" "v_path (vinodes v' j) = v_path (vinodes v j)" if "j \<noteq> i" for j
    using vi [OF that] vk by (cases "j = k"; simp)+
  have fr': "free_vinodes v' = free_vinodes v - {i}"
  proof (intro set_eqI iffI)
    fix j assume "j \<in> free_vinodes v'"
    then show "j \<in> free_vinodes v - {i}" using keep(2) [of j] vn(3) mode by (cases "j = i") (auto simp: free_vinodes_def)
  next
    fix j assume "j \<in> free_vinodes v - {i}"
    then show "j \<in> free_vinodes v'" using keep(2) [of j] by (simp add: free_vinodes_def)
  qed
  have inn: "i \<notin> snd ` set e" if "entries_rep v x e" for x e using used entries_used(2) [OF that] by blast
  have new_d: "entries_rep v' d (es @ [(nm, i)])"
  proof (rule entries_rep_snoc [OF er(1) k_def inn [OF er(1)]])
    fix j assume "j \<in> snd ` set es"
    then have "j \<noteq> i" using inn [OF er(1)] by blast
    then show "v_name (vinodes v' j) = v_name (vinodes v j) \<and> v_mode (vinodes v' j) = v_mode (vinodes v j) \<and>
      (j \<noteq> k \<longrightarrow> v_next (vinodes v' j) = v_next (vinodes v j))" using keep vi by simp
  qed (use i fit vn vk mode new di keep(3) in \<open>auto simp: free_vinodes_def entry_fits_def\<close>)
  have "dirs_rep v' (D(d \<mapsto> es @ [(nm, i)]))"
  proof (rule dirs_rep_update [OF rep d new_d])
    show "v_mode (vinodes v' d) \<noteq> 0" using keep(2) [OF di] er(3) by simp
    fix x e assume x: "D x = Some e" "x \<noteq> d"
    have ex: "entries_rep v x e" "v_mode (vinodes v x) \<noteq> 0" "snd ` set e \<inter> snd ` set es = {}" using rep x d unfolding dirs_rep_def by blast+
    show "v_child (vinodes v' x) = v_child (vinodes v x) \<and> v_mode (vinodes v' x) \<noteq> 0" using keep(2,3) ex(2) used by simp
    fix j assume j: "j \<in> snd ` set e"
    have "j \<noteq> i" "j \<noteq> k" "j \<notin> snd ` set es" using j inn [OF ex(1)] ex(3) k by blast+
    then show "j \<notin> snd ` set (es @ [(nm, i)]) \<and> v_next (vinodes v' j) = v_next (vinodes v j) \<and>
      v_name (vinodes v' j) = v_name (vinodes v j) \<and> (v_mode (vinodes v' j) = 0) = (v_mode (vinodes v j) = 0)" using vi by simp
  qed
  moreover have "entry_fits suf v' d nm'" if f: "entry_fits suf v d nm'" for nm'
  proof -
    have c: "v_child (vinodes v d) = Some dot" "v_mode (vinodes v dot) \<noteq> 0" using er(1) es by (auto simp: entries_rep_def)
    then show ?thesis using f keep(2-4) used [of dot] di by (simp add: entry_fits_def)
  qed
  ultimately show ?thesis using run i fr' by blast
qed

lemma find_entry_law:
  assumes "dirs_rep v D" and "D d = Some es" and "entry_fits suf v d nm"
  shows "find_entry d nm v = Inr (map_of es nm)"
proof -
  have "entries_rep v d es" using assms by (auto simp: dirs_rep_def)
  then show ?thesis using assms(3) child_find_entries [of v d es nm "length nm"]
    by (simp add: find_entry_def entry_fits_def)
qed

interpretation dir: directories dirs_rep "entry_fits ''/''" free_vinodes "\<lambda>d nm. append_dir d nm TYPE_DIR ft fs" find_entry for ft fs
proof unfold_locales
  show "finite (free_vinodes v)" for v by (simp add: free_vinodes_def)
qed (use append_vinode_law [where mode = "TYPE_DIR"] find_entry_law in \<open>auto simp: append_dir_def\<close>)

interpretation reg: directories dirs_rep "entry_fits []" free_vinodes "\<lambda>d nm. append_file d nm (TYPE_FILE OR WR_ABLE) ft fs" find_entry for ft fs
proof unfold_locales
  show "finite (free_vinodes v)" for v by (simp add: free_vinodes_def)
qed (use append_vinode_law [where mode = "TYPE_FILE OR WR_ABLE"] find_entry_law in \<open>auto simp: append_file_def\<close>)

end
