(* ===== verification/Vfs_Correct.thy ===== *)
theory Vfs_Correct
  imports Vfs_Dir
begin

text \<open>
  Properties of the virtual file system: entries of a directory, rings of links, path lookup, links made by
  \<open>vfs_link\<close>, writing and reading files through descriptors, and the descriptors themselves.
\<close>

section \<open>Rings of links\<close>

abbreviation nlink :: "vfs \<Rightarrow> nat \<Rightarrow> nat" where "nlink v \<equiv> \<lambda>k. v_next_link (vinodes v k)"
abbreviation plink :: "vfs \<Rightarrow> nat \<Rightarrow> nat" where "plink v \<equiv> \<lambda>k. v_prev_link (vinodes v k)"

definition link_ring :: "vfs \<Rightarrow> nat list \<Rightarrow> bool" where
  "link_ring v ks \<longleftrightarrow> ks \<noteq> [] \<and> distinct ks \<and> linked (nlink v) (plink v) (ks @ [hd ks])"

lemma link_ring_frame:
  assumes "link_ring v ks" and "\<And>k. k \<in> set ks \<Longrightarrow> nlink v' k = nlink v k \<and> plink v' k = plink v k"
  shows "link_ring v' ks"
proof -
  obtain k ys where ks: "ks = k # ys" using assms(1) by (cases ks) (auto simp: link_ring_def)
  have "linked (nlink v') (plink v') (ks @ [hd ks]) = linked (nlink v) (plink v) (ks @ [hd ks])"
    by (rule linked_cong) (use assms(2) ks in auto)
  then show ?thesis using assms(1) by (simp add: link_ring_def)
qed

lemma link_ring_rotate:
  assumes "link_ring v (k # ks)"
  shows "link_ring v (ks @ [k])"
proof (cases ks)
  case (Cons q ys)
  have "linked (nlink v) (plink v) ((k # ks @ [k]))" using assms by (simp add: link_ring_def)
  then have "nlink v k = q" "plink v q = k" "linked (nlink v) (plink v) (q # ys @ [k])" by (simp_all add: Cons)
  then have "linked (nlink v) (plink v) ((q # ys) @ k # q # [])"
    unfolding linked_append by simp
  then show ?thesis using assms Cons by (auto simp: link_ring_def)
qed (use assms in simp)

lemma add_link_links:
  "nlink (add_link o' n v) k = (if k = o' then n else if k = n then nlink v o' else nlink v k)"
  "plink (add_link o' n v) k = (if k = nlink v o' then n else if k = n then o' else plink v k)"
  by (simp_all add: add_link_def Let_def)

lemma add_link_ring:
  assumes ring: "link_ring v (o' # xs)" and n: "n \<notin> set (o' # xs)"
  shows "link_ring (add_link o' n v) (o' # n # xs)"
proof -
  let ?v = "add_link o' n v"
  obtain q ys where q: "xs @ [o'] = q # ys" by (cases "xs @ [o']") auto
  have l: "linked (nlink v) (plink v) (o' # q # ys)" and d: "distinct (q # ys)" "n \<notin> set (q # ys)"
    using ring n unfolding q [symmetric] by (auto simp: link_ring_def)
  have nq: "nlink v o' = q" using l by simp
  have "linked (nlink ?v) (plink ?v) (q # ys) = linked (nlink v) (plink v) (q # ys)"
  proof (rule linked_cong)
    fix p assume "p \<in> set (butlast (q # ys))"
    then have "p \<in> set xs" unfolding q [symmetric] by simp
    then show "nlink ?v p = nlink v p" using ring n by (auto simp: add_link_links link_ring_def)
  next
    fix p assume "p \<in> set (tl (q # ys))"
    then show "plink ?v p = plink v p" using d nq by (auto simp: add_link_links)
  qed
  then have "linked (nlink ?v) (plink ?v) (o' # n # q # ys)"
    using l d n nq by (auto simp: add_link_links)
  moreover have "o' # n # q # ys = (o' # n # xs) @ [hd (o' # n # xs)]" using q by simp
  ultimately show ?thesis using ring n unfolding link_ring_def by auto
qed

lemma remove_link_links:
  assumes "nlink v k \<noteq> k" and "plink v k \<noteq> k"
  shows "nlink (remove_link k v) j = (if j = plink v k then nlink v k else nlink v j)"
    "plink (remove_link k v) j = (if j = nlink v k then plink v k else plink v j)"
  using assms by (simp_all add: remove_link_def Let_def)

lemma remove_link_ring:
  assumes ring: "link_ring v (n # ks)" and ks: "ks \<noteq> []"
  shows "link_ring (remove_link n v) ks"
proof -
  let ?v = "remove_link n v"
  obtain q where q: "hd ks = q" "q \<in> set ks" using ks hd_in_set by blast
  obtain p where p: "ks = butlast ks @ [p]" using ks by (metis append_butlast_last_id)
  then have pm: "p \<in> set ks" by (metis in_set_conv_decomp)
  have l: "linked (nlink v) (plink v) (n # ks @ [n])" and d: "distinct ks" "n \<notin> set ks"
    using ring by (auto simp: link_ring_def)
  have kq: "ks @ [n] = q # (tl ks @ [n])" using ks q by (cases ks) auto
  have "nlink v n = q" "linked (nlink v) (plink v) (ks @ [n])" using l unfolding kq by auto
  moreover have "linked (nlink v) (plink v) (butlast ks @ p # n # [])" using calculation(2) p by (metis append.assoc append_Cons append_Nil)
  then have "plink v n = p" "linked (nlink v) (plink v) ks" using p unfolding linked_append by auto
  moreover have "nlink v n \<noteq> n" "plink v n \<noteq> n" using calculation q pm d(2) by metis+
  ultimately have lk: "nlink ?v j = (if j = p then q else nlink v j)" "plink ?v j = (if j = q then p else plink v j)" for j
    using remove_link_links [of v n j] by simp_all
  have pd: "p \<notin> set (butlast ks)" using d(1) p by (metis distinct_append disjoint_iff list.set_intros(1))
  have qd: "q \<notin> set (tl ks)" using d(1) q ks by (cases ks) auto
  have "linked (nlink ?v) (plink ?v) ks = linked (nlink v) (plink v) ks"
    by (rule linked_cong) (use lk pd qd in auto)
  then have "linked (nlink ?v) (plink ?v) (butlast ks @ p # q # [])"
    using \<open>linked (nlink v) (plink v) ks\<close> p lk unfolding linked_append by simp
  then have "linked (nlink ?v) (plink ?v) (ks @ [q])" using p by (metis append.assoc append_Cons append_Nil)
  then show ?thesis using ks d q by (simp add: link_ring_def)
qed

text \<open>In a ring where only \<open>o'\<close> is not a link every member leads to \<open>o'\<close>.\<close>

lemma follow_links_run:
  "linked (nlink v) (plink v) (xs @ [t]) \<Longrightarrow> \<forall>k \<in> set xs. v_mode (vinodes v k) AND TYPE_LINK \<noteq> 0 \<Longrightarrow>
     v_mode (vinodes v t) AND TYPE_LINK = 0 \<Longrightarrow> length xs < fuel \<Longrightarrow> follow_links fuel (hd (xs @ [t])) v = Inr t"
proof (induction xs arbitrary: fuel)
  case Nil
  then obtain f where "fuel = Suc f" by (cases fuel) auto
  then show ?case using Nil by simp
next
  case (Cons x xs)
  then obtain f where f: "fuel = Suc f" by (cases fuel) auto
  obtain y ys where y: "xs @ [t] = y # ys" by (cases "xs @ [t]") auto
  have "nlink v x = y" "linked (nlink v) (plink v) (xs @ [t])" using Cons.prems(1) y by auto
  moreover have "follow_links f (hd (xs @ [t])) v = Inr t" by (rule Cons.IH) (use calculation Cons.prems f in auto)
  ultimately show ?case using Cons.prems f y by simp
qed

lemma ring_resolves:
  assumes ring: "link_ring v (t # xs)" and ln: "\<forall>k \<in> set xs. v_mode (vinodes v k) AND TYPE_LINK \<noteq> 0"
    and t: "v_mode (vinodes v t) AND TYPE_LINK = 0" and b: "set xs \<subseteq> {..<MAX_VINODE}" and k: "k \<in> set (t # xs)"
  shows "follow_links (MAX_VINODE + 1) k v = Inr t"
proof (cases "k = t")
  case False
  then obtain as bs where ab: "xs = as @ k # bs" using k by (meson set_ConsD split_list)
  have "linked (nlink v) (plink v) ((t # as) @ (k # bs @ [t]))" using ring ab by (simp add: link_ring_def)
  then have "linked (nlink v) (plink v) ((k # bs) @ [t])" using linked_tail by fastforce
  moreover have "length (k # bs) \<le> MAX_VINODE"
  proof -
    have "distinct xs" using ring by (simp add: link_ring_def)
    then have "length xs \<le> MAX_VINODE" using card_mono [OF _ b] distinct_card by fastforce
    then show ?thesis using ab by simp
  qed
  ultimately show ?thesis using follow_links_run [of v "k # bs" t "MAX_VINODE + 1"] ln t ab by simp
qed (use t in simp)

section \<open>Path lookup\<close>

text \<open>A path without its leading slash, from its components.\<close>

fun rel_path :: "string list \<Rightarrow> string" where
  "rel_path [] = []"
| "rel_path [c] = c"
| "rel_path (c # cs) = c @ CHR ''/'' # rel_path cs"

definition component :: "string \<Rightarrow> bool" where
  "component c \<longleftrightarrow> c \<noteq> [] \<and> CHR ''/'' \<notin> set c \<and> NUL \<notin> set c"

definition abs_path :: "string list \<Rightarrow> string" where
  "abs_path cs = concat (map (\<lambda>c. CHR ''/'' # c) cs)"

text \<open>\<open>walk v D cur cs k\<close>: the components lead from \<open>cur\<close> to \<open>k\<close> through entries that are not links.\<close>

primrec walk :: "vfs \<Rightarrow> (nat \<rightharpoonup> (string \<times> nat) list) \<Rightarrow> nat \<Rightarrow> string list \<Rightarrow> nat \<Rightarrow> bool" where
  "walk v D cur [] k \<longleftrightarrow> cur = k"
| "walk v D cur (c # cs) k \<longleftrightarrow>
     component c \<and> (\<exists>es j. D cur = Some es \<and> map_of es c = Some j \<and> v_mode (vinodes v j) AND TYPE_LINK = 0 \<and> walk v D j cs k)"

lemma first_item_len_slash: "CHR ''/'' \<notin> set c \<Longrightarrow> vfs_first_item_len (c @ CHR ''/'' # rest) = length c"
  unfolding vfs_first_item_len_def by (subst takeWhile_append2) auto

lemma rel_path_NUL: "\<forall>c \<in> set cs. component c \<Longrightarrow> NUL \<notin> set (rel_path cs)"
  by (induction cs rule: rel_path.induct) (auto simp: component_def)

lemma rel_path_nonempty: "component c \<Longrightarrow> rel_path (c # cs) \<noteq> []"
  by (cases cs) (auto simp: component_def)

lemma rel_path_first:
  assumes "component c"
  shows "take (vfs_first_item_len (rel_path (c # cs))) (rel_path (c # cs)) = c" "vfs_first_item_len (rel_path (c # cs)) = length c"
    "vfs_first_item_len (rel_path (c # cs)) \<le> length (rel_path (c # cs))"
  using assms by (cases cs; simp add: component_def first_item_len_slash)+

text \<open>One step of the lookup.\<close>

lemma lookup_cur_step:
  assumes c: "component c" "\<forall>c \<in> set cs. component c" and es: "entries_rep v cur es"
  shows "lookup_cur (rel_path (c # cs)) cur off v =
    (case map_of es c of None \<Rightarrow> Inr (False, cur, off)
     | Some k \<Rightarrow> bindE (follow_links (MAX_VINODE + 1) k v) (\<lambda>t.
         let step = length (rel_path (c # cs)) - length (rel_path cs) in
         lookup_cur (rel_path cs) t (off + step) v))"
proof -
  let ?p = "rel_path (c # cs)"
  have f: "child_find (Suc MAX_VINODE) (\<lambda>n. item_match (v_name n) ?p (length c)) (v_child (vinodes v cur)) v = Inr (map_of es c)"
    using child_find_entries [OF es rel_path_NUL rel_path_first(3) [OF c(1)], of cs] c rel_path_first(1,2) [OF c(1)] by simp
  define st where "st = (if length c < length ?p then length c + 1 else length c)"
  have st: "st = length ?p - length (rel_path cs)" "drop st ?p = rel_path cs"
    using c(1) by (cases cs; simp add: st_def)+
  show ?thesis
    by (subst lookup_cur.simps)
      (simp add: f rel_path_nonempty [OF c(1)] Let_def rel_path_first(2) [OF c(1)] st_def [symmetric] st(2) st(1) [symmetric]
        del: follow_links.simps child_find.simps split: option.split)
qed

lemma walk_components: "walk v D cur cs k \<Longrightarrow> \<forall>c \<in> set cs. component c"
  by (induction cs arbitrary: cur) auto

lemma rel_path_length: "length (rel_path cs) \<le> length (rel_path (c # cs))"
  by (cases cs) auto

lemma follow_direct: "v_mode (vinodes v j) AND TYPE_LINK = 0 \<Longrightarrow> follow_links (Suc MAX_VINODE) j v = Inr j"
  by simp

lemma walk_lookup:
  assumes "walk v D cur cs d" and "\<forall>c \<in> set ds. component c" and rep: "dirs_rep v D"
  shows "\<exists>off'. lookup_cur (rel_path (cs @ ds)) cur off v = lookup_cur (rel_path ds) d off' v"
  using assms(1)
proof (induction cs arbitrary: cur off)
  case Nil
  then show ?case by auto
next
  case (Cons c cs)
  then obtain es j where w: "component c" "D cur = Some es" "map_of es c = Some j" "v_mode (vinodes v j) AND TYPE_LINK = 0" "walk v D j cs d"
    by auto
  have cs: "\<forall>x \<in> set (cs @ ds). component x" using walk_components [OF w(5)] assms(2) by auto
  have es: "entries_rep v cur es" using rep w(2) by (auto simp: dirs_rep_def)
  show ?case
    unfolding append_Cons lookup_cur_step [OF w(1) cs es] w(3)
    using w(4) Cons.IH [OF w(5)] by (simp add: Let_def del: follow_links.simps rel_path.simps add: follow_direct)
qed

lemma abs_path_rel: "abs_path (c # cs) = CHR ''/'' # rel_path (c # cs)"
proof (induction cs arbitrary: c)
  case (Cons x xs)
  have "abs_path (c # x # xs) = CHR ''/'' # c @ abs_path (x # xs)" by (simp add: abs_path_def)
  then show ?case using Cons.IH [of x] by simp
qed (simp add: abs_path_def)

lemma abs_path_snoc: "abs_path (cs @ [c]) = abs_path cs @ CHR ''/'' # c"
  by (simp add: abs_path_def)

lemma lookup_any_abs: "lookup_any (abs_path cs) v = lookup_cur (rel_path cs) VFS_ROOT 1 v"
  by (cases cs) (simp_all add: lookup_any_def lookup_root_def abs_path_rel del: rel_path.simps(3), simp add: abs_path_def)

lemma trim_abs:
  assumes "\<forall>c \<in> set cs. component c"
  shows "trim_slash (abs_path cs) = abs_path cs"
proof (cases cs rule: rev_cases)
  case (snoc ds c)
  then have "c \<noteq> []" "last c \<in> set c" "CHR ''/'' \<notin> set c" using assms by (auto simp: component_def)
  then have "last (abs_path cs) \<noteq> CHR ''/''" unfolding snoc abs_path_snoc by (metis last_ConsR last_appendR list.distinct(1))
  then show ?thesis by (simp add: trim_slash_def)
qed (simp add: abs_path_def trim_slash_def)

lemma lookup_auto_hit:
  assumes "\<forall>c \<in> set cs. component c" and "lookup_cur (rel_path cs) VFS_ROOT 1 v = Inr (True, k, off)"
  shows "lookup_auto (abs_path cs) v = Inr (Some k, abs_path cs, v)"
  using assms by (simp add: lookup_auto_def trim_abs lookup_any_abs)

text \<open>A lookup that stops in a directory whose entries are known finds nothing and reads nothing.\<close>

lemma lookup_auto_miss:
  assumes "\<forall>c \<in> set cs. component c" and "lookup_cur (rel_path cs) VFS_ROOT 1 v = Inr (False, d, off)" and "v_child (vinodes v d) \<noteq> None"
  shows "lookup_auto (abs_path cs) v = Inr (None, abs_path cs, v)"
  using assms by (simp add: lookup_auto_def trim_abs lookup_any_abs Let_def)

lemma walk_found:
  assumes "walk v D VFS_ROOT cs d" and "dirs_rep v D"
  shows "lookup_auto (abs_path cs) v = Inr (Some d, abs_path cs, v)"
proof -
  obtain off' where "lookup_cur (rel_path cs) VFS_ROOT 1 v = lookup_cur [] d off' v"
    using walk_lookup [OF assms(1) _ assms(2), of "[]" 1] by auto
  then show ?thesis using lookup_auto_hit [OF walk_components [OF assms(1)]] by (simp add: lookup_cur.simps)
qed

lemma last_item_abs:
  assumes "component c"
  shows "last_item_len (abs_path (cs @ [c])) = Inr (length c)"
proof -
  have "takeWhile (\<lambda>x. x \<noteq> CHR ''/'') (rev c @ CHR ''/'' # rev (abs_path cs)) = rev c"
    using assms by (subst takeWhile_append2) (auto simp: component_def)
  then show ?thesis by (simp add: last_item_len_def abs_path_snoc)
qed

section \<open>Links\<close>

lemma dirs_frame:
  assumes "dirs_rep v D" and "\<And>k. v_child (vinodes v' k) = v_child (vinodes v k) \<and> v_next (vinodes v' k) = v_next (vinodes v k) \<and>
    v_name (vinodes v' k) = v_name (vinodes v k) \<and> v_mode (vinodes v' k) = v_mode (vinodes v k)"
  shows "dirs_rep v' D"
proof -
  have "entries_rep v' d es" if "entries_rep v d es" for d es
    by (rule entries_frame [OF that]) (simp_all add: assms(2))
  then show ?thesis using assms unfolding dirs_rep_def by metis
qed

lemma walk_extend:
  assumes "walk v D cur cs k" and "\<And>j. v_mode (vinodes v j) \<noteq> 0 \<Longrightarrow> v_mode (vinodes v' j) = v_mode (vinodes v j)" and "dirs_rep v D"
    and "D d = Some es"
  shows "walk v' (D(d \<mapsto> es @ fs)) cur cs k"
  using assms(1)
proof (induction cs arbitrary: cur)
  case (Cons c cs)
  then obtain es' j where w: "component c" "D cur = Some es'" "map_of es' c = Some j" "v_mode (vinodes v j) AND TYPE_LINK = 0" "walk v D j cs k"
    by auto
  have "j \<in> snd ` set es'" using w(3) by (metis map_of_SomeD imageI snd_conv)
  moreover have "entries_rep v cur es'" using assms(3) w(2) by (auto simp: dirs_rep_def)
  ultimately have "v_mode (vinodes v j) \<noteq> 0" using entries_used(2) by blast
  then have "v_mode (vinodes v' j) AND TYPE_LINK = 0" using assms(2) w(4) by simp
  moreover have "\<exists>es''. (D(d \<mapsto> es @ fs)) cur = Some es'' \<and> map_of es'' c = Some j"
    using w(2,3) assms(4) by (cases "cur = d") auto
  ultimately show ?case using w(1) Cons.IH [OF w(5)] by auto
qed simp

text \<open>The parts of the path of an entry, and the search for a name that the directory does not have or has.\<close>

lemma abs_path_parts:
  "take (length (abs_path (cs @ [nm])) - length nm - 1) (abs_path (cs @ [nm])) = abs_path cs"
  "drop (length (abs_path (cs @ [nm])) - length nm - 1 + 1) (abs_path (cs @ [nm])) = nm"
  by (simp_all add: abs_path_snoc)

lemma lookup_new_name:
  assumes rep: "dirs_rep v D" and dir: "walk v D VFS_ROOT cs d" "D d = Some es" and c: "component nm" and nm: "nm \<notin> fst ` set es"
  shows "lookup_auto (abs_path (cs @ [nm])) v = Inr (None, abs_path (cs @ [nm]), v)"
proof -
  have cs: "\<forall>c \<in> set (cs @ [nm]). component c" using c walk_components [OF dir(1)] by auto
  have er: "entries_rep v d es" using rep dir(2) by (auto simp: dirs_rep_def)
  have none: "map_of es nm = None" using nm by (simp add: map_of_eq_None_iff)
  have "\<exists>off. lookup_cur (rel_path (cs @ [nm])) VFS_ROOT 1 v = Inr (False, d, off)"
    using walk_lookup [OF dir(1) _ rep, of "[nm]" 1] c lookup_cur_step [OF c _ er, of "[]"] none by force
  moreover have "v_child (vinodes v d) \<noteq> None" using er by (auto simp: entries_rep_def)
  ultimately show ?thesis using lookup_auto_miss [OF cs] by blast
qed

lemma lookup_link_name:
  assumes rep: "dirs_rep v D" and dir: "walk v D VFS_ROOT cs d" "D d = Some es" and c: "component nm" and nm: "map_of es nm = Some i"
    and fl: "follow_links (MAX_VINODE + 1) i v = Inr t"
  shows "lookup_auto (abs_path (cs @ [nm])) v = Inr (Some t, abs_path (cs @ [nm]), v)"
proof -
  have cs: "\<forall>c \<in> set (cs @ [nm]). component c" using c walk_components [OF dir(1)] by auto
  have er: "entries_rep v d es" using rep dir(2) by (auto simp: dirs_rep_def)
  have "\<exists>off'. lookup_cur nm d off v = Inr (True, t, off')" for off
    using lookup_cur_step [OF c _ er, of "[]"] nm fl by (simp add: lookup_cur.simps [of "[]"] del: follow_links.simps)
  then have "\<exists>off. lookup_cur (rel_path (cs @ [nm])) VFS_ROOT 1 v = Inr (True, t, off)"
    using walk_lookup [OF dir(1) _ rep, of "[nm]" 1] c by force
  then show ?thesis using lookup_auto_hit [OF cs] by blast
qed

lemma child_find_name:
  assumes er: "entries_rep v d (es1 @ (nm, k) # es2)"
  shows "child_find (Suc MAX_VINODE) (\<lambda>n. v_name n = nm) (v_child (vinodes v d)) v = Inr (Some k)"
proof -
  let ?es = "es1 @ (nm, k) # es2"
  have "child_find (Suc MAX_VINODE) (\<lambda>n. v_name n = nm) (v_child (vinodes v d)) v = Inr (find (\<lambda>k. v_name (vinodes v k) = nm) (map snd ?es))"
    using er entries_small(1) [OF er] by (intro child_find_run) (simp_all add: entries_rep_def)
  also have "find (\<lambda>k. v_name (vinodes v k) = nm) (map snd ?es) = map_of ?es nm"
    by (rule find_map_of) (use entries_name [OF er] in blast)
  also have "map_of ?es nm = Some k" using er by (intro map_of_is_SomeI) (simp_all add: entries_rep_def)
  finally show ?thesis .
qed

text \<open>
  C9: \<open>vfs_link\<close> of an existing vinode \<open>t\<close> that is not itself a link to a new name in a known directory succeeds: the
  new name is a new entry at the end of that directory, it joins the ring of the links to \<open>t\<close>, the directories are
  otherwise as before, and looking the new path up delivers \<open>t\<close>.
\<close>

theorem vfs_link_resolves:
  assumes rep: "dirs_rep v D" and old: "lookup_auto old v = Inr (Some t, old', v)" "length old < TMPPATH"
    and dir: "walk v D VFS_ROOT cs d" "D d = Some es" and nm: "entry_fits ''/'' v d nm" "nm \<notin> fst ` set es"
    and free: "free_vinodes v \<noteq> {}" and len: "length (abs_path (cs @ [nm])) < TMPPATH"
    and ring: "link_ring v (t # xs)" "\<forall>k \<in> set xs. v_mode (vinodes v k) AND TYPE_LINK \<noteq> 0" "set xs \<subseteq> {..<MAX_VINODE}"
    and t: "v_mode (vinodes v t) AND TYPE_LINK = 0" "v_mode (vinodes v t) \<noteq> 0"
  shows "\<exists>i v'. vfs_link old (abs_path (cs @ [nm])) v = Inr (0, v') \<and> i \<in> free_vinodes v \<and>
    dirs_rep v' (D(d \<mapsto> es @ [(nm, i)])) \<and> link_ring v' (t # i # xs) \<and>
    lookup_auto (abs_path (cs @ [nm])) v' = Inr (Some t, abs_path (cs @ [nm]), v')"
proof -
  have c: "component nm" using nm(1) by (simp add: component_def entry_fits_def)
  have er: "entries_rep v d es" using rep dir(2) by (auto simp: dirs_rep_def)
  then obtain dot ddot rest where es: "es = (''.'', dot) # (''..'', ddot) # rest" by (auto simp: entries_rep_def)
  obtain i v1 where ap: "append_vinode ''/'' d nm TYPE_LINK VFS None v = Inr (i, v1)" "i \<in> free_vinodes v"
    "dirs_rep v1 (D(d \<mapsto> es @ [(nm, i)]))"
    using append_vinode_law [OF rep dir(2) nm free, of "TYPE_LINK" VFS None] by auto
  have v1: "v1 = appended (v_path (vinodes v dot) @ nm @ ''/'') i (last (map snd es)) dot ddot nm TYPE_LINK VFS None v"
    using append_vinode_run [OF er es nm(1) free, of "TYPE_LINK" VFS None] ap(1) by simp
  have mode1: "v_mode (vinodes v1 k) = (if k = i then TYPE_LINK else v_mode (vinodes v k))"
    and link1: "k \<noteq> i \<Longrightarrow> nlink v1 k = nlink v k \<and> plink v1 k = plink v k" for k
    by (simp_all add: v1 appended_def)
  have i: "i \<notin> set (t # xs)" "i < MAX_VINODE" using ap(2) ring(2) t(2) by (auto simp: free_vinodes_def)
  have ring1: "link_ring v1 (t # xs)" by (rule link_ring_frame [OF ring(1)]) (use link1 i in metis)
  define v2 where "v2 = (if v_mode (vinodes v1 t) AND TYPE_FILE \<noteq> 0
                         then upd_v i (\<lambda>n. n\<lparr>v_path := butlast (v_path n)\<rparr>) v1 else v1)"
  let ?v = "add_link t i v2"
  have link: "vfs_link old (abs_path (cs @ [nm])) v = Inr (0, ?v)"
    using old len lookup_new_name [OF rep dir c nm(2)] walk_found [OF dir(1) rep] ap(1)
    unfolding vfs_link_def lookup_tmp_def append_dir_def
    by (simp add: last_item_abs [OF c] Let_def abs_path_parts [simplified] deref_def v2_def)
  have keep: "v_child (vinodes ?v k) = v_child (vinodes v1 k) \<and> v_next (vinodes ?v k) = v_next (vinodes v1 k) \<and>
      v_name (vinodes ?v k) = v_name (vinodes v1 k) \<and> v_mode (vinodes ?v k) = v_mode (vinodes v1 k)" for k
    by (simp add: add_link_def Let_def v2_def)
  have rep': "dirs_rep ?v (D(d \<mapsto> es @ [(nm, i)]))" by (rule dirs_frame [OF ap(3) keep])
  have "link_ring v2 (t # xs)" by (rule link_ring_frame [OF ring1]) (simp add: v2_def)
  then have ring': "link_ring ?v (t # i # xs)" using i(1) by (rule add_link_ring)
  have wk: "walk ?v (D(d \<mapsto> es @ [(nm, i)])) VFS_ROOT cs d"
    by (rule walk_extend [OF dir(1) _ rep dir(2)]) (use ap(2) keep mode1 in \<open>auto simp: free_vinodes_def\<close>)
  have fl: "follow_links (MAX_VINODE + 1) i ?v = Inr t"
    by (rule ring_resolves [OF ring']) (use keep mode1 i ring(2,3) t in auto)
  have "map_of (es @ [(nm, i)]) nm = Some i" using nm(2) by (simp add: map_of_eq_None_iff [symmetric] map_add_def)
  from lookup_link_name [OF rep' wk _ c this fl] have "lookup_auto (abs_path (cs @ [nm])) ?v = Inr (Some t, abs_path (cs @ [nm]), ?v)" by simp
  then show ?thesis using link ap(2) rep' ring' by blast
qed

section \<open>Removing a link\<close>

lemma find_pre_run:
  "child_list v s (xs @ p # k # ys) \<Longrightarrow> length xs < fuel \<Longrightarrow> find_pre fuel k s v = Inr p"
proof (induction xs arbitrary: s fuel)
  case Nil
  then obtain f where "fuel = Suc f" by (cases fuel) auto
  then show ?case using Nil by simp
next
  case (Cons x xs)
  then obtain f where f: "fuel = Suc f" by (cases fuel) auto
  have c: "s = Some x" "child_list v (v_next (vinodes v x)) (xs @ p # k # ys)" using Cons.prems by auto
  have "distinct (x # xs @ p # k # ys)" using child_list_distinct [OF Cons.prems(1)] by simp
  then have "v_next (vinodes v x) \<noteq> Some k" using c(2) by (cases xs) auto
  then show ?case using Cons.IH [OF c(2), of f] Cons.prems(2) c(1) f by simp
qed

lemma child_list_cut:
  assumes "child_list v s (xs @ p # k # ys)" and "\<And>j. j \<in> set (xs @ ys) \<Longrightarrow> v_next (vinodes v' j) = v_next (vinodes v j)"
    and "v_next (vinodes v' p) = v_next (vinodes v k)"
  shows "child_list v' s (xs @ p # ys)"
  using assms
proof (induction xs arbitrary: s)
  case Nil
  then have "child_list v' (v_next (vinodes v k)) ys = child_list v (v_next (vinodes v k)) ys" by (intro child_list_cong) simp
  then show ?case using Nil by simp
qed simp

lemma remove_link_fields:
  "v_child (vinodes (remove_link k v) j) = v_child (vinodes v j)" "v_next (vinodes (remove_link k v) j) = v_next (vinodes v j)"
  "v_name (vinodes (remove_link k v) j) = v_name (vinodes v j)" "v_mode (vinodes (remove_link k v) j) = v_mode (vinodes v j)"
  by (simp_all add: remove_link_def Let_def)

text \<open>The links after two removals of the same vinode are those after one.\<close>

lemma remove_link_twice:
  assumes "link_ring v (k # ks)" and "ks \<noteq> []" and "\<And>j. nlink w j = nlink (remove_link k v) j \<and> plink w j = plink (remove_link k v) j"
  shows "link_ring (remove_link k w) ks"
proof -
  obtain q ys where ks: "ks = q # ys" using assms(2) by (cases ks) auto
  have l: "linked (nlink v) (plink v) (k # q # ys @ [k])" "k \<notin> set ks" using assms(1) by (auto simp: ks link_ring_def)
  obtain zs p where p: "q # ys = zs @ [p]" using rev_exhaust [of "q # ys"] by blast
  have "linked (nlink v) (plink v) (k # zs @ p # k # [])" using l(1) p by (metis append_Cons append.assoc append_Nil)
  then have "linked (nlink v) (plink v) ((k # zs) @ p # k # [])" by simp
  then have pk: "plink v k = p" unfolding linked_append by simp
  have pq: "nlink v k = q" using l(1) by simp
  have "p \<in> set ks" "q \<in> set ks" using p unfolding ks by (metis in_set_conv_decomp, metis list.set_intros(1))
  then have ne: "nlink v k \<noteq> k" "plink v k \<noteq> k" using l(2) pk pq by auto
  note r = remove_link_links [OF ne]
  have w: "nlink w k = nlink v k" "plink w k = plink v k" using assms(3) [of k] r [of k] ne by auto
  have "nlink (remove_link k w) j = nlink (remove_link k v) j \<and> plink (remove_link k w) j = plink (remove_link k v) j" for j
    using remove_link_links [of w k j] r [of j] w ne assms(3) [of j] by auto
  then show ?thesis using link_ring_frame [OF remove_link_ring [OF assms(1,2)]] by metis
qed

lemma entries_cut:
  assumes "entries_rep v d (es1 @ (nm, k) # es2)" and "nm \<noteq> ''.''" and "nm \<noteq> ''..''"
  obtains fs m p where "es1 = fs @ [(m, p)]" and "\<exists>dot ddot rest. es1 @ es2 = (''.'', dot) # (''..'', ddot) # rest"
proof -
  obtain dot ddot rest where e: "es1 @ (nm, k) # es2 = (''.'', dot) # (''..'', ddot) # rest"
    using assms(1) by (auto simp: entries_rep_def)
  then have "es1 \<noteq> []" using assms(2) by auto
  then obtain a es1' where 1: "es1 = a # es1'" by (cases es1) auto
  then have "es1' \<noteq> []" using e assms(3) by auto
  then obtain b es1'' where 2: "es1' = b # es1''" by (cases es1') auto
  have "\<exists>dot ddot rest. es1 @ es2 = (''.'', dot) # (''..'', ddot) # rest" using e 1 2 by auto
  moreover obtain fs x where "es1 = fs @ [x]" using \<open>es1 \<noteq> []\<close> rev_exhaust by blast
  ultimately show thesis using that by (cases x) auto
qed

text \<open>Taking an entry without children out of its directory.\<close>

lemma cut_entry_rep:
  assumes rep: "dirs_rep v D" and d: "D d = Some (es1 @ (nm, k) # es2)" and nm: "nm \<noteq> ''.''" "nm \<noteq> ''..''" and k: "D k = None"
    and es1: "es1 = fs @ [(m, p)]"
    and v': "\<And>j. v_child (vinodes v' j) = v_child (vinodes v j)" "\<And>j. v_name (vinodes v' j) = v_name (vinodes v j)"
      "\<And>j. v_mode (vinodes v' j) = (if j = k then 0 else v_mode (vinodes v j))"
      "\<And>j. v_next (vinodes v' j) = (if j = p then v_next (vinodes v k) else v_next (vinodes v j))"
  shows "dirs_rep v' (D(d \<mapsto> es1 @ es2))"
proof -
  let ?es = "es1 @ (nm, k) # es2"
  have er: "entries_rep v d ?es" "d < MAX_VINODE" "v_mode (vinodes v d) \<noteq> 0" using rep d by (auto simp: dirs_rep_def)
  have dk: "d \<noteq> k" using k d by auto
  have dis: "distinct (map snd ?es)" by (rule entries_small(2) [OF er(1)])
  have new: "entries_rep v' d (es1 @ es2)"
  proof -
    have pn: "p \<notin> set (map snd fs @ map snd es2)" using dis es1 by auto
    have "child_list v (v_child (vinodes v d)) (map snd fs @ p # k # map snd es2)" using er(1) es1 by (simp add: entries_rep_def)
    then have "child_list v' (v_child (vinodes v d)) (map snd fs @ p # map snd es2)"
      by (rule child_list_cut) (use pn v'(4) in auto)
    moreover have "\<exists>dot ddot rest. es1 @ es2 = (''.'', dot) # (''..'', ddot) # rest" by (rule entries_cut [OF er(1) nm])
    moreover have "\<forall>(x, j) \<in> set (es1 @ es2). v_name (vinodes v' j) = x \<and> NUL \<notin> set x \<and> j < MAX_VINODE \<and> v_mode (vinodes v' j) \<noteq> 0"
    proof -
      have "v_name (vinodes v' j) = x \<and> NUL \<notin> set x \<and> j < MAX_VINODE \<and> v_mode (vinodes v' j) \<noteq> 0"
        if x: "(x, j) \<in> set (es1 @ es2)" for x j
      proof -
        have "j \<in> snd ` set (es1 @ es2)" using x by force
        then have "j \<noteq> k" using dis by auto
        moreover have "(x, j) \<in> set ?es" using x by auto
        then have "v_name (vinodes v j) = x \<and> NUL \<notin> set x \<and> j < MAX_VINODE \<and> v_mode (vinodes v j) \<noteq> 0"
          using er(1) unfolding entries_rep_def by blast
        ultimately show ?thesis using v'(2,3) by simp
      qed
      then show ?thesis by blast
    qed
    ultimately show ?thesis using er(1) es1 v'(1) by (simp add: entries_rep_def)
  qed
  have other: "snd ` set e \<inter> snd ` set ?es = {}" if "D x = Some e" "x \<noteq> d" for x e
    using rep d that unfolding dirs_rep_def by blast
  show ?thesis
  proof (rule dirs_rep_update [OF rep d new])
    show "v_mode (vinodes v' d) \<noteq> 0" using er(3) dk v'(3) by simp
    fix x e assume x: "D x = Some e" "x \<noteq> d"
    have "x \<noteq> k" "v_mode (vinodes v x) \<noteq> 0" using x k rep unfolding dirs_rep_def by auto
    then show "v_child (vinodes v' x) = v_child (vinodes v x) \<and> v_mode (vinodes v' x) \<noteq> 0" using v'(1,3) by simp
    fix j assume "j \<in> snd ` set e"
    then have j: "j \<notin> snd ` set ?es" using other [OF x] by blast
    then have "j \<noteq> k" "j \<noteq> p" "j \<notin> snd ` set (es1 @ es2)" using es1 by auto
    then show "j \<notin> snd ` set (es1 @ es2) \<and> v_next (vinodes v' j) = v_next (vinodes v j) \<and> v_name (vinodes v' j) = v_name (vinodes v j) \<and>
      (v_mode (vinodes v' j) = 0) = (v_mode (vinodes v j) = 0)" using v' by simp
  qed
qed

text \<open>
  C18: \<open>vfs_unlink\<close> of an entry that is a link removes exactly that entry from its directory: its vinode is free again, the
  other entries and all other directories stay, and the ring of links closes around the gap.
\<close>

theorem vfs_unlink_removes:
  assumes rep: "dirs_rep v D" and dir: "walk v D VFS_ROOT cs d" "D d = Some (es1 @ (nm, k) # es2)" and nm: "component nm" "nm \<noteq> ''.''" "nm \<noteq> ''..''"
    and k: "v_mode (vinodes v k) AND TYPE_LINK \<noteq> 0" "v_child (vinodes v k) = None" "D k = None"
    and ring: "link_ring v (k # ks)" "ks \<noteq> []" and len: "length (abs_path (cs @ [nm])) < TMPPATH"
  shows "\<exists>v'. vfs_unlink (abs_path (cs @ [nm])) v = Inr (0, v') \<and> dirs_rep v' (D(d \<mapsto> es1 @ es2)) \<and>
    free_vinodes v' = insert k (free_vinodes v) \<and> link_ring v' ks"
proof -
  let ?es = "es1 @ (nm, k) # es2"
  have er: "entries_rep v d ?es" using rep dir(2) by (auto simp: dirs_rep_def)
  obtain fs m p where es1: "es1 = fs @ [(m, p)]" by (rule entries_cut [OF er nm(2,3)])
  have kk: "v_name (vinodes v k) = nm" "k < MAX_VINODE" using er by (auto simp: entries_rep_def)
  note fnd = child_find_name [OF er]
  let ?v1 = "remove_link k v"
  let ?v2 = "upd_v p (\<lambda>n. n\<lparr>v_next := v_next (vinodes ?v1 k)\<rparr>) ?v1"
  let ?v3 = "delete_vinode k ?v2"
  have pk: "p \<noteq> k" using entries_small(2) [OF er] es1 by auto
  have "child_list ?v1 (v_child (vinodes ?v1 d)) (map snd ?es)"
    using er child_list_cong [of "map snd ?es" ?v1 v] by (simp add: remove_link_fields entries_rep_def)
  then have c: "child_list ?v1 (v_child (vinodes ?v1 d)) (map snd fs @ p # k # map snd es2)" using es1 by simp
  have "length (map snd fs) < Suc MAX_VINODE" using entries_small(1) [OF er] es1 by simp
  note pre = find_pre_run [OF c this]
  have "remove_dir k d ?v1 = Inr ?v3"
    using pre k(2) pk by (simp add: remove_dir_def Let_def remove_link_fields)
  then have run: "vfs_unlink (abs_path (cs @ [nm])) v = Inr (0, ?v3)"
    using len walk_found [OF dir(1) rep] fnd kk nm k(1)
    by (simp add: vfs_unlink_def last_item_abs [OF nm(1)] Let_def abs_path_parts [simplified] deref_def del: child_find.simps)
  have v': "v_child (vinodes ?v3 j) = v_child (vinodes v j)" "v_name (vinodes ?v3 j) = v_name (vinodes v j)"
    "v_mode (vinodes ?v3 j) = (if j = k then 0 else v_mode (vinodes v j))"
    "v_next (vinodes ?v3 j) = (if j = p then v_next (vinodes v k) else v_next (vinodes v j))" for j
    using pk by (simp_all add: delete_vinode_def vinodes_free_def remove_link_fields)
  have "dirs_rep ?v3 (D(d \<mapsto> es1 @ es2))"
    by (rule cut_entry_rep [OF rep dir(2) nm(2,3) k(3) es1 v'])
  moreover have "free_vinodes ?v3 = insert k (free_vinodes v)" using v'(3) kk(2) by (auto simp: free_vinodes_def)
  moreover have "link_ring ?v3 ks"
    unfolding delete_vinode_def by (rule remove_link_twice [OF ring]) (simp add: vinodes_free_def)
  ultimately show ?thesis using run by blast
qed

text \<open>
  C19: Entering distinct new names into a directory with \<open>append_file\<close>, as \<open>vfs_init\<close> does for the devices, takes
  distinct free vinodes, adds the names in order to this directory and to no other, and afterwards the search among the
  children finds every new name at its vinode and the other names as before.
\<close>

theorem append_files_found:
  assumes "dirs_rep v D" and "D d = Some es" and "\<forall>nm \<in> set nms. entry_fits [] v d nm" and "distinct nms"
    and "fst ` set es \<inter> set nms = {}" and "length nms \<le> card (free_vinodes v)"
  shows "\<exists>is v'. enter_all (\<lambda>d nm. append_file d nm (TYPE_FILE OR WR_ABLE) ft fs) d nms v = Inr (is, v') \<and>
    length is = length nms \<and> distinct is \<and> set is \<subseteq> free_vinodes v \<and> dirs_rep v' (D(d \<mapsto> es @ zip nms is)) \<and>
    (\<forall>k < length nms. find_entry d (nms ! k) v' = Inr (Some (is ! k))) \<and>
    (\<forall>nm. entry_fits [] v d nm \<and> nm \<notin> set nms \<longrightarrow> find_entry d nm v' = Inr (map_of es nm))"
  by (rule reg.enter_all_lookup [OF assms])

section \<open>Descriptors\<close>

lemma same_vinodes:
  assumes "vinodes v' = vinodes v"
  shows "dirs_rep v D \<Longrightarrow> dirs_rep v' D" "walk v D cur cs k \<Longrightarrow> walk v' D cur cs k"
proof -
  show "dirs_rep v D \<Longrightarrow> dirs_rep v' D" by (rule dirs_frame) (simp_all add: assms)
  show "walk v D cur cs k \<Longrightarrow> walk v' D cur cs k" by (induction cs arbitrary: cur) (auto simp: assms)
qed

lemma vfs_open_run:
  assumes "dirs_rep v D" and "walk v D VFS_ROOT cs idx" and "length (abs_path cs) < TMPPATH" and "v_mode (vinodes v idx) AND mode = mode"
  shows "vfs_open (abs_path cs) mode v = Inr (vinode_open (Some idx) v)"
  using assms walk_found [OF assms(2,1)] by (simp add: vfs_open_def vfs_access_def lookup_tmp_def)

text \<open>A program of opens and closes on one path; the results of the opens in their order.\<close>

datatype fd_op = Open | Close int

primrec fd_run :: "string \<Rightarrow> u32 \<Rightarrow> fd_op list \<Rightarrow> vfs \<Rightarrow> (int list \<times> vfs) res" where
  "fd_run path mode [] v = Inr ([], v)"
| "fd_run path mode (x # xs) v =
     (case x of
        Open \<Rightarrow> bindE (vfs_open path mode v) (\<lambda>(fd, v). bindE (fd_run path mode xs v) (\<lambda>(fds, v). Inr (fd # fds, v)))
      | Close fd \<Rightarrow> let (_, v) = vfs_close fd v in fd_run path mode xs v)"

definition opens :: "fd_op list \<Rightarrow> nat" where
  "opens xs = length (filter (\<lambda>x. x = Open) xs)"

lemma files_alloc_first:
  assumes "\<And>i. i < MAX_FILE \<Longrightarrow> (f_refcnt (files v i) = 0) = (n \<le> i)"
  shows "files_alloc v = (if n < MAX_FILE then Some n else None)"
proof (cases "n < MAX_FILE")
  case True
  then have "files_alloc v = Some n" unfolding files_alloc_def by (intro first_idx_eqI) (use assms in auto)
  with True show ?thesis by simp
next
  case False
  then have "files_alloc v = None" unfolding files_alloc_def first_idx_None_iff using assms by auto
  with False show ?thesis by simp
qed

lemma fd_run_results:
  assumes "dirs_rep v D" and "walk v D VFS_ROOT cs idx" and "length (abs_path cs) < TMPPATH" and "v_mode (vinodes v idx) AND mode = mode"
    and "\<And>i. i < MAX_FILE \<Longrightarrow> (f_refcnt (files v i) = 0) = (n \<le> i)" and "n \<le> MAX_FILE"
  shows "\<exists>v'. fd_run (abs_path cs) mode xs v = Inr (map (\<lambda>k. if k < MAX_FILE then int k else - 1) [n..<n + opens xs], v')"
  using assms
proof (induction xs arbitrary: v n)
  case Nil
  then show ?case by (simp add: opens_def)
next
  case (Cons x xs)
  note open_run = vfs_open_run [OF Cons.prems(1-4)] and al = files_alloc_first [OF Cons.prems(5)]
  show ?case
  proof (cases x)
    case (Close fd)
    then show ?thesis using Cons.IH [OF Cons.prems] by (simp add: vfs_close_def opens_def)
  next
    case Open
    show ?thesis
    proof (cases "n < MAX_FILE")
      case True
      let ?v = "v\<lparr>files := (files v)(n := (files v n)\<lparr>f_vinode_idx := Some idx, f_offset := 0, f_refcnt := f_refcnt (files v n) + 1\<rparr>)\<rparr>"
      have op: "vfs_open (abs_path cs) mode v = Inr (int n, ?v)" using open_run al True by (simp add: vinode_open_def)
      have n0: "f_refcnt (files v n) = 0" using Cons.prems(5) True by simp
      have "\<exists>v'. fd_run (abs_path cs) mode xs ?v = Inr (map (\<lambda>k. if k < MAX_FILE then int k else - 1) [Suc n..<Suc n + opens xs], v')"
      proof (rule Cons.IH)
        show "dirs_rep ?v D" "walk ?v D VFS_ROOT cs idx" using same_vinodes [of ?v v] Cons.prems(1,2) by simp_all
        show "(f_refcnt (files ?v i) = 0) = (Suc n \<le> i)" if "i < MAX_FILE" for i
          using Cons.prems(5) [OF that] n0 by (cases "i = n") auto
      qed (use Cons.prems True in simp_all)
      moreover have "opens (Open # xs) = Suc (opens xs)" by (simp add: opens_def)
      then have "[n..<n + opens (Open # xs)] = n # [Suc n..<Suc n + opens xs]" by (simp add: upt_conv_Cons del: upt_Suc)
      ultimately show ?thesis using op True Open by auto
    next
      case False
      then have n: "n = MAX_FILE" using Cons.prems(6) by simp
      have op: "vfs_open (abs_path cs) mode v = Inr (- 1, v)" using open_run al False by (simp add: vinode_open_def)
      have m: "map (\<lambda>k. if k < MAX_FILE then int k else - 1) [MAX_FILE..<MAX_FILE + j] = replicate j (- 1)" for j
        by (rule nth_equalityI) auto
      have "opens (x # xs) = Suc (opens xs)" using Open by (simp add: opens_def)
      then show ?thesis using Cons.IH [OF Cons.prems] op Open unfolding n m by auto
    qed
  qed
qed

text \<open>
  C38: Descriptors are never given back: in any program of opens and closes on a known, permitted path that starts with an
  empty table, the opens deliver 0, 1, up to 31 and then -1 for ever, whatever was closed in between.
\<close>

theorem descriptors_run_out:
  assumes "dirs_rep v D" and "walk v D VFS_ROOT cs idx" and "length (abs_path cs) < TMPPATH" and "v_mode (vinodes v idx) AND mode = mode"
    and "\<forall>i < MAX_FILE. f_refcnt (files v i) = 0"
  shows "\<exists>v'. fd_run (abs_path cs) mode xs v = Inr (map (\<lambda>k. if k < MAX_FILE then int k else - 1) [0..<opens xs], v')"
  using fd_run_results [OF assms(1-4), of 0] assms(5) by simp

section \<open>Reading what was written\<close>

text \<open>
  C3: Opening a file of the disk file system through its path, writing between one byte and a block, opening it again and reading as many
  bytes delivers the bytes that were written.  The path is absolute, leads through directories without a link and its entries are in the table of vinodes already, the file has the
  requested rights and at most one block, and two descriptors are free.
\<close>

theorem vfs_write_read:
  assumes rep: "dirs_rep v D" and w: "walk v D VFS_ROOT cs idx" and len: "length (abs_path cs) < TMPPATH"
    and mode: "v_mode (vinodes v idx) AND mode = mode"
    and fs: "v_fs_type (vinodes v idx) = EXT2FS" "v_fs (vinodes v idx) = Some f" "fs_rfs (filesys v f) = Some e"
    and e: "blocks_ok e" "small_file (of_int (v_ridx (vinodes v idx))) e"
    and fds: "fd < fd'" "fd' < MAX_FILE" "\<forall>i < fd'. (f_refcnt (files v i) = 0) = (i = fd)" "f_refcnt (files v fd') = 0"
    and n: "0 < n" "n \<le> BLK_SIZE" "n \<le> length buf"
  shows "\<exists>v1 v2 v3 v4. vfs_open (abs_path cs) mode v = Inr (int fd, v1) \<and> vfs_write cpu (int fd) buf n v1 = Inr (n, v2) \<and>
    vfs_open (abs_path cs) mode v2 = Inr (int fd', v3) \<and> vfs_read ncpu (int fd') n v3 = Inr (take n buf, v4)"
proof -
  let ?r = "of_int (v_ridx (vinodes v idx)) :: u32"
  have u: "unat (of_nat n :: u32) = n" "unat (0 :: u64) = 0" using n(2) by (auto intro!: unat_of_nat_u32 simp: BLK_SIZE_def)
  obtain e' e'' where io: "ext2_write ?r 0 buf (of_nat n) e = Inr (n, e')" "ext2_read ?r 0 (of_nat n) e' = Inr (take n buf, e'')"
    using ext2_write_then_read [OF e, of "of_nat n" 0 buf] n u by auto
  have al: "files_alloc v = Some fd" unfolding files_alloc_def by (rule first_idx_eqI) (use fds in auto)
  define v1 where "v1 = v\<lparr>files := (files v)(fd := (files v fd)\<lparr>f_vinode_idx := Some idx, f_offset := 0, f_refcnt := f_refcnt (files v fd) + 1\<rparr>)\<rparr>"
  have open1: "vfs_open (abs_path cs) mode v = Inr (int fd, v1)"
    using vfs_open_run [OF rep w len mode] al by (simp add: vinode_open_def v1_def)
  define v2 where "v2 = fd_advance (int fd) n (put_rfs f e' v1)"
  have wr: "vfs_write cpu (int fd) buf n v1 = Inr (n, v2)"
    using fs io(1) fds(1,2) n(2)
    by (simp add: vfs_write_def fd_vinode_def deref_def v1_def get_rfs_def v2_def BLK_SIZE_def Let_def)
  have vin: "vinodes v2 = vinodes v" by (simp add: v2_def fd_advance_def put_rfs_def v1_def)
  have "(f_refcnt (files v2 i) = 0) = (i = fd')" if "i \<le> fd'" for i
    using that fds by (auto simp: v2_def fd_advance_def put_rfs_def v1_def le_less)
  then have al2: "files_alloc v2 = Some fd'" unfolding files_alloc_def by (intro first_idx_eqI) (use fds in auto)
  define v3 where "v3 = v2\<lparr>files := (files v2)(fd' := (files v2 fd')\<lparr>f_vinode_idx := Some idx, f_offset := 0, f_refcnt := f_refcnt (files v2 fd') + 1\<rparr>)\<rparr>"
  have open2: "vfs_open (abs_path cs) mode v2 = Inr (int fd', v3)"
    using vfs_open_run [OF same_vinodes(1) [OF vin rep] same_vinodes(2) [OF vin w] len] mode al2 by (simp add: vin vinode_open_def v3_def)
  have "vinodes v3 = vinodes v" "fs_rfs (filesys v3 f) = Some e'"
    using vin by (simp_all add: v3_def, simp add: v2_def fd_advance_def put_rfs_def)
  then have "\<exists>v4. vfs_read ncpu (int fd') n v3 = Inr (take n buf, v4)"
    using fs(1,2) io(2) fds(2) n(2)
    by (simp add: vfs_read_def fd_vinode_def deref_def get_rfs_def BLK_SIZE_def Let_def) (simp add: v3_def get_rfs_def)
  then show ?thesis using open1 wr open2 by blast
qed

section \<open>Witnesses\<close>

text \<open>A root directory with a file of the disk file system and a link to the root itself.\<close>

definition demo_vinode :: vinode where
  "demo_vinode = \<lparr>v_path = [], v_name = [], v_dot = None, v_ddot = None, v_next = None, v_child = None, v_mode = 0, v_linkcnt = 0,
     v_ridx = 0, v_fs_type = VFS, v_fs = None, v_prev_link = 0, v_next_link = 0\<rparr>"

definition demo_vinodes :: "nat \<Rightarrow> vinode" where
  "demo_vinodes = (\<lambda>_. demo_vinode)
     (0 := demo_vinode\<lparr>v_path := ''/'', v_name := ''/'', v_child := Some 1, v_mode := TYPE_DIR, v_prev_link := 1, v_next_link := 4\<rparr>,
      1 := demo_vinode\<lparr>v_path := ''/'', v_name := ''.'', v_next := Some 2, v_mode := TYPE_LINK, v_prev_link := 2, v_next_link := 0\<rparr>,
      2 := demo_vinode\<lparr>v_path := ''/'', v_name := ''..'', v_next := Some 3, v_mode := TYPE_LINK, v_prev_link := 4, v_next_link := 1\<rparr>,
      3 := demo_vinode\<lparr>v_path := ''/f'', v_name := ''f'', v_next := Some 4, v_mode := TYPE_FILE OR RD_ABLE OR WR_ABLE, v_ridx := 5,
             v_fs_type := EXT2FS, v_fs := Some 0, v_prev_link := 3, v_next_link := 3\<rparr>,
      4 := demo_vinode\<lparr>v_path := ''/l/'', v_name := ''l'', v_mode := TYPE_LINK, v_prev_link := 0, v_next_link := 2\<rparr>)"

definition demo_vfs :: vfs where
  "demo_vfs = \<lparr>filesys = (\<lambda>_. \<lparr>fs_name = ''ramdisk0'', fs_rfs = Some demo, fs_ops = Ext2_ops\<rparr>), vinodes = demo_vinodes,
     files = (\<lambda>_. \<lparr>f_refcnt = 0, f_vinode_idx = None, f_offset = 0\<rparr>), v_pmm = pmm0, v_kmt = duo, v_ttys = (\<lambda>_. None),
     v_fb = \<lparr>fb_info = \<lparr>di_width = 0, di_height = 0, di_num_displays = 0, di_current = 0, di_num_textures = 0, di_num_sprites = 0\<rparr>,
       fb_textures = (\<lambda>_. 0), fb_sem = sem0, fb_log = []\<rparr>\<rparr>"

definition demo_entries :: "(string \<times> nat) list" where
  "demo_entries = [(''.'', 1), (''..'', 2), (''f'', 3), (''l'', 4)]"

lemma demo_rep: "dirs_rep demo_vfs [0 \<mapsto> demo_entries]"
  by (simp add: dirs_rep_def entries_rep_def demo_vfs_def demo_vinodes_def demo_vinode_def demo_entries_def MAX_VINODE_def)

lemma demo_free: "free_vinodes demo_vfs = {5..<MAX_VINODE}"
  by (auto simp: free_vinodes_def demo_vfs_def demo_vinodes_def demo_vinode_def MAX_VINODE_def split: if_splits)

lemma demo_walk: "walk demo_vfs [0 \<mapsto> demo_entries] VFS_ROOT [] 0" "walk demo_vfs [0 \<mapsto> demo_entries] VFS_ROOT [''f''] 3"
  by (simp_all add: VFS_ROOT_def component_def demo_entries_def demo_vfs_def demo_vinodes_def demo_vinode_def)

lemma demo_ring: "link_ring demo_vfs [0, 4, 2, 1]"
  by (simp add: link_ring_def demo_vfs_def demo_vinodes_def demo_vinode_def)

lemma demo_fits: "entry_fits suf demo_vfs 0 nm" if "component nm" "length nm < 20" "length suf < 2" for nm suf
  using that by (simp add: entry_fits_def component_def demo_vfs_def demo_vinodes_def demo_vinode_def MAX_NAME_LENGTH_def MAX_PATH_LENGTH_def)

theorem vfs_link_resolves_witness:
  "\<exists>v'. vfs_link [] ''/a'' demo_vfs = Inr (0, v') \<and> lookup_auto ''/a'' v' = Inr (Some 0, ''/a'', v')"
proof -
  have p: "abs_path ([] @ [''a'']) = ''/a''" by (simp add: abs_path_def)
  have "lookup_auto [] demo_vfs = Inr (Some 0, [], demo_vfs)"
    using walk_found [OF demo_walk(1) demo_rep] by (simp add: abs_path_def)
  from vfs_link_resolves [OF demo_rep this _ demo_walk(1), of demo_entries "''a''" "[4, 2, 1]", unfolded p] show ?thesis
    using demo_ring by (simp add: demo_fits component_def demo_entries_def demo_free TMPPATH_def MAX_VINODE_def)
      (auto simp: demo_vfs_def demo_vinodes_def demo_vinode_def)
qed

theorem vfs_unlink_removes_witness:
  "\<exists>v'. vfs_unlink ''/l'' demo_vfs = Inr (0, v') \<and> dirs_rep v' [0 \<mapsto> [(''.'', 1), (''..'', 2), (''f'', 3)]]"
proof -
  have p: "abs_path ([] @ [''l'']) = ''/l''" by (simp add: abs_path_def)
  have r: "link_ring demo_vfs [4, 2, 1, 0]" using link_ring_rotate [OF demo_ring] by simp
  from vfs_unlink_removes [OF demo_rep demo_walk(1), of "[(''.'', 1), (''..'', 2), (''f'', 3)]" "''l''" 4 "[]" "[2, 1, 0]", unfolded p] show ?thesis
    using r by (simp add: component_def demo_entries_def TMPPATH_def) (auto simp: demo_vfs_def demo_vinodes_def demo_vinode_def)
qed

theorem append_files_found_witness:
  "\<exists>is v'. enter_all (\<lambda>d nm. append_file d nm (TYPE_FILE OR WR_ABLE) TTY None) 0 [''tty1'', ''tty2''] demo_vfs = Inr (is, v') \<and>
     find_entry 0 ''tty2'' v' = Inr (Some (is ! 1)) \<and> find_entry 0 ''f'' v' = Inr (Some 3)"
proof -
  have c: "length [''tty1'', ''tty2''] \<le> card (free_vinodes demo_vfs)" by (simp add: demo_free MAX_VINODE_def)
  have f: "\<forall>nm \<in> set [''tty1'', ''tty2'']. entry_fits [] demo_vfs 0 nm" "entry_fits [] demo_vfs 0 ''f''"
    by (auto intro!: demo_fits simp: component_def)
  show ?thesis using append_files_found [OF demo_rep _ f(1) _ _ c, of demo_entries TTY None] f(2)
    by (fastforce simp: demo_entries_def)
qed

theorem descriptors_run_out_witness:
  "\<exists>v'. fd_run ''/f'' RD_ABLE [Open, Close 0, Open] demo_vfs = Inr ([0, 1], v')"
  using descriptors_run_out [OF demo_rep demo_walk(2), of "RD_ABLE" "[Open, Close 0, Open]"]
  by (simp add: abs_path_def TMPPATH_def opens_def MAX_FILE_def upt_rec) (simp add: demo_vfs_def demo_vinodes_def demo_vinode_def)

theorem vfs_write_read_witness:
  "\<exists>v1 v2 v3 v4. vfs_open ''/f'' WR_ABLE demo_vfs = Inr (0, v1) \<and> vfs_write 0 0 (map byte_of ''hello'') 5 v1 = Inr (5, v2) \<and>
     vfs_open ''/f'' WR_ABLE v2 = Inr (1, v3) \<and> vfs_read 2 1 5 v3 = Inr (map byte_of ''hello'', v4)"
proof -
  have f: "v_fs_type (vinodes demo_vfs 3) = EXT2FS" "v_fs (vinodes demo_vfs 3) = Some 0" "fs_rfs (filesys demo_vfs 0) = Some demo"
    "v_mode (vinodes demo_vfs 3) AND WR_ABLE = WR_ABLE" "v_ridx (vinodes demo_vfs 3) = 5" "\<And>i. f_refcnt (files demo_vfs i) = 0"
    by (simp_all add: demo_vfs_def demo_vinodes_def demo_vinode_def)
  have s: "small_file (of_int (v_ridx (vinodes demo_vfs 3))) demo" using demo_file by (simp add: f)
  show ?thesis
    using vfs_write_read [OF demo_rep demo_walk(2) _ f(4,1-3) demo_ok s, of 0 1 5 "map byte_of ''hello''" 0 2]
    by (simp add: abs_path_def TMPPATH_def MAX_FILE_def BLK_SIZE_def f)
qed

end
