(* ===== verification/Shell.thy ===== *)
theory Shell
  imports Vfs_Correct
begin

text \<open>
  \<^verbatim>\<open>kernel/src/devices/tty/shell.c\<close>: the shell that runs on every terminal.  Its commands work on the virtual file
  system and print to the terminal through the buffer \<^verbatim>\<open>bigbuf\<close>; the buffers are strings up to their
  terminator, and writing beyond their size is a fault.
\<close>

section \<open>State\<close>

record shell =
  sh_vfs :: vfs
  sh_big :: string
  sh_abs :: string
  sh_abs2 :: string
  sh_pwd :: string

definition BIGBUF :: nat where "BIGBUF = 2048"
definition ABS_PATH :: nat where "ABS_PATH = 256"
definition PWD :: nat where "PWD = 1024"
definition READBUF :: nat where "READBUF = 128"

definition set_abs :: "string \<Rightarrow> shell \<Rightarrow> shell res" where
  "set_abs s sh = bindE (guardE OutOfBounds (length s < ABS_PATH)) (\<lambda>_. Inr (sh\<lparr>sh_abs := s\<rparr>))"

definition build_abs_path :: "string \<Rightarrow> shell \<Rightarrow> shell res" where
  "build_abs_path dirname sh =
     (if dirname = [] \<or> hd dirname \<noteq> CHR ''/'' then set_abs (sh_pwd sh @ dirname) sh else set_abs dirname sh)"

text \<open>\<^verbatim>\<open>sprintf(bigbuf, ...)\<close>, and \<^verbatim>\<open>tty->ops->write(tty, 0, bigbuf, strlen(bigbuf))\<close> for the terminal of the task.\<close>

definition sh_sprintf :: "string \<Rightarrow> va list \<Rightarrow> shell \<Rightarrow> shell res" where
  "sh_sprintf fmt ap sh =
     bindE (sprintf fmt ap) (\<lambda>(_, out).
     bindE (guardE OutOfBounds (length out < BIGBUF)) (\<lambda>_. Inr (sh\<lparr>sh_big := out\<rparr>)))"

definition sh_write :: "nat \<Rightarrow> string \<Rightarrow> string \<Rightarrow> shell \<Rightarrow> shell res" where
  "sh_write cpu tty s sh =
     (let v = sh_vfs sh in
      case v_ttys v tty of
        None \<Rightarrow> Inl Halted
      | Some t \<Rightarrow>
          bindE (tty_write cpu s (t, v_fb v, v_kmt v)) (\<lambda>(_, t, f, s).
          Inr (sh\<lparr>sh_vfs := v\<lparr>v_ttys := (v_ttys v)(tty \<mapsto> t), v_fb := f, v_kmt := s\<rparr>\<rparr>)))"

definition sh_flush :: "nat \<Rightarrow> string \<Rightarrow> shell \<Rightarrow> shell res" where
  "sh_flush cpu tty sh = sh_write cpu tty (sh_big sh) sh"

definition sh_read :: "nat \<Rightarrow> string \<Rightarrow> nat \<Rightarrow> shell \<Rightarrow> (nat \<times> string \<times> shell) res" where
  "sh_read cpu tty cnt sh =
     (let v = sh_vfs sh in
      case v_ttys v tty of
        None \<Rightarrow> Inl Halted
      | Some t \<Rightarrow>
          bindE (tty_read cpu cnt (t, v_kmt v)) (\<lambda>(nread, s, t, k).
          Inr (nread, s, sh\<lparr>sh_vfs := v\<lparr>v_ttys := (v_ttys v)(tty \<mapsto> t), v_kmt := k\<rparr>\<rparr>)))"

section \<open>Commands\<close>

definition pwd_do :: "nat \<Rightarrow> string \<Rightarrow> string \<Rightarrow> shell \<Rightarrow> shell res" where
  "pwd_do cpu tty unused sh = bindE (sh_sprintf (''%s'' @ newline) [VStr (sh_pwd sh)] sh) (sh_flush cpu tty)"

definition echo_do :: "nat \<Rightarrow> string \<Rightarrow> string \<Rightarrow> shell \<Rightarrow> shell res" where
  "echo_do cpu tty str sh = bindE (sh_sprintf (''%s'' @ newline) [VStr str] sh) (sh_flush cpu tty)"

text \<open>The dot that \<^verbatim>\<open>ls\<close> and \<^verbatim>\<open>cd\<close> append.\<close>

definition append_dot :: "shell \<Rightarrow> shell res" where
  "append_dot sh =
     bindE (guardE OutOfBounds (sh_abs sh \<noteq> [])) (\<lambda>_.
     if last (sh_abs sh) = CHR ''/'' then set_abs (sh_abs sh @ ''.'') sh else set_abs (sh_abs sh @ ''/.'') sh)"

definition ls_do :: "nat \<Rightarrow> string \<Rightarrow> string \<Rightarrow> shell \<Rightarrow> shell res" where
  "ls_do cpu tty dirname sh =
     bindE (build_abs_path dirname sh) (\<lambda>sh.
     bindE (append_dot sh) (\<lambda>sh.
     bindE (vfs_ls (sh_abs sh) (sh_vfs sh)) (\<lambda>(out, v).
     bindE (case out of
              None \<Rightarrow> Inr (sh\<lparr>sh_vfs := v\<rparr>)
            | Some s \<Rightarrow> bindE (guardE OutOfBounds (length s < BIGBUF)) (\<lambda>_. Inr (sh\<lparr>sh_vfs := v, sh_big := s\<rparr>)))
       (sh_flush cpu tty))))"

definition cd_do :: "nat \<Rightarrow> string \<Rightarrow> string \<Rightarrow> shell \<Rightarrow> shell res" where
  "cd_do cpu tty dirname sh =
     bindE (build_abs_path dirname sh) (\<lambda>sh.
     bindE (vfs_access (sh_abs sh) TYPE_DIR (sh_vfs sh)) (\<lambda>(no, _, v).
     let sh = sh\<lparr>sh_vfs := v\<rparr> in
     bindE (if no then sh_sprintf (''That is not a dir! '' @ newline) [] sh
            else
              bindE (append_dot sh) (\<lambda>sh.
              bindE (vfs_access (sh_abs sh) TYPE_DIR (sh_vfs sh)) (\<lambda>(no, _, v).
              let sh = sh\<lparr>sh_vfs := v\<rparr> in
              bindE (if no then Inr sh
                     else
                       bindE (vfs_getpath (sh_abs sh) (sh_vfs sh)) (\<lambda>(p, v). Inr (sh\<lparr>sh_pwd := p, sh_vfs := v\<rparr>))) (\<lambda>sh.
              sh_sprintf (''Current: %s'' @ newline) [VStr (sh_pwd sh)] sh))))
       (sh_flush cpu tty)))"

text \<open>
  The loop of \<^verbatim>\<open>cat\<close>.  A turn delivers at least one byte, and a file has at most twelve blocks, so the fuel is
  more than the turns that can be made.
\<close>

definition CAT_FUEL :: nat where "CAT_FUEL = 8192"

fun cat_loop :: "nat \<Rightarrow> nat \<Rightarrow> nat \<Rightarrow> string \<Rightarrow> int \<Rightarrow> shell \<Rightarrow> shell res" where
  "cat_loop 0 cpu ncpu tty fd sh = Inl Diverge"
| "cat_loop (Suc fuel) cpu ncpu tty fd sh =
     bindE (vfs_read ncpu fd 1024 (sh_vfs sh)) (\<lambda>(bs, v).
     let sh = sh\<lparr>sh_vfs := v\<rparr> in
     if bs = [] then Inr sh
     else
       bindE (sh_flush cpu tty (sh\<lparr>sh_big := takeWhile (\<lambda>c. c \<noteq> NUL) (map char_of_byte bs)\<rparr>)) (cat_loop fuel cpu ncpu tty fd))"

definition cat_do :: "nat \<Rightarrow> nat \<Rightarrow> string \<Rightarrow> string \<Rightarrow> shell \<Rightarrow> shell res" where
  "cat_do cpu ncpu tty dirname sh =
     bindE (build_abs_path dirname sh) (\<lambda>sh.
     bindE (vfs_open (sh_abs sh) (TYPE_FILE OR RD_ABLE) (sh_vfs sh)) (\<lambda>(fd, v).
     let sh = sh\<lparr>sh_vfs := v\<rparr> in
     if fd = - 1 then bindE (sh_sprintf (''That is not a readable file! '' @ newline) [] sh) (sh_flush cpu tty)
     else cat_loop CAT_FUEL cpu ncpu tty fd sh))"

text \<open>The loop of \<^verbatim>\<open>cat >\<close>: every turn takes a line from the terminal, and waits for one when there is none.\<close>

fun catto_loop :: "nat \<Rightarrow> nat \<Rightarrow> string \<Rightarrow> int \<Rightarrow> shell \<Rightarrow> shell res" where
  "catto_loop 0 cpu tty fd sh = Inl Diverge"
| "catto_loop (Suc fuel) cpu tty fd sh =
     bindE (sh_read cpu tty BIGBUF sh) (\<lambda>(nread, s, sh).
     bindE (guardE OutOfBounds (2 \<le> nread)) (\<lambda>_.
     let n = (if s ! (nread - 2) = CHR ''~'' then nread - 2 else nread) in
     bindE (vfs_write cpu fd (map byte_of s) n (sh_vfs sh)) (\<lambda>(_, v).
     let sh = sh\<lparr>sh_vfs := v, sh_big := s\<rparr> in
     if s ! (nread - 2) = CHR ''~'' then Inr sh else catto_loop fuel cpu tty fd sh)))"

definition catto_do :: "nat \<Rightarrow> string \<Rightarrow> string \<Rightarrow> shell \<Rightarrow> shell res" where
  "catto_do cpu tty dirname sh =
     bindE (build_abs_path dirname sh) (\<lambda>sh.
     bindE (vfs_open (sh_abs sh) (TYPE_FILE OR WR_ABLE) (sh_vfs sh)) (\<lambda>(fd, v).
     let sh = sh\<lparr>sh_vfs := v\<rparr> in
     if fd = - 1 then bindE (sh_sprintf (''That is not a writeable file! '' @ newline) [] sh) (sh_flush cpu tty)
     else catto_loop TTY_COOK_BUF_SZ cpu tty fd sh))"

text \<open>The switches on the result of an operation: the messages by result; \<open>strict\<close> is the assertion in the default case.\<close>

definition report :: "bool \<Rightarrow> (int \<times> string) list \<Rightarrow> int \<Rightarrow> shell \<Rightarrow> shell res" where
  "report strict msgs r sh =
     (case map_of msgs r of
        None \<Rightarrow> if strict then Inl AssertFail else Inr sh
      | Some m \<Rightarrow> sh_sprintf (m @ newline) [] sh)"

definition mkdir_do :: "nat \<Rightarrow> string \<Rightarrow> string \<Rightarrow> shell \<Rightarrow> shell res" where
  "mkdir_do cpu tty dirname sh =
     bindE (build_abs_path dirname sh) (\<lambda>sh.
     bindE (vfs_access (sh_abs sh) TYPE_DIR (sh_vfs sh)) (\<lambda>(no, _, v).
     let sh = sh\<lparr>sh_vfs := v\<rparr> in
     if \<not> no then sh_sprintf (''Dir is exists! '' @ newline) [] sh
     else
       bindE (vfs_create (sh_abs sh) (sh_vfs sh)) (\<lambda>(r, v).
       bindE (report False [(0, ''Success! ''), (1, ''Incorrect pathname! ''), (2, ''Uncapable filesystem! '')] r (sh\<lparr>sh_vfs := v\<rparr>))
         (sh_flush cpu tty))))"

definition rmdir_do :: "nat \<Rightarrow> string \<Rightarrow> string \<Rightarrow> shell \<Rightarrow> shell res" where
  "rmdir_do cpu tty dirname sh =
     bindE (build_abs_path dirname sh) (\<lambda>sh.
     bindE (vfs_access (sh_abs sh) TYPE_DIR (sh_vfs sh)) (\<lambda>(no, _, v).
     bindE (if no then sh_sprintf (''Dir is not exists! '' @ newline) [] (sh\<lparr>sh_vfs := v\<rparr>) else Inr (sh\<lparr>sh_vfs := v\<rparr>)) (\<lambda>sh.
     bindE (vfs_remove (sh_abs sh) (sh_vfs sh)) (\<lambda>(r, v).
     bindE (report True [(0, ''Success! ''), (1, ''Incorrect pathname! ''), (2, ''Uncapable filesystem! ''), (3, ''Cannot remove! '')] r
              (sh\<lparr>sh_vfs := v\<rparr>))
       (sh_flush cpu tty)))))"

text \<open>The two arguments of \<^verbatim>\<open>link\<close> and \<^verbatim>\<open>mount\<close>; with one argument the second is read behind the end of the line.\<close>

definition two_paths :: "string \<Rightarrow> shell \<Rightarrow> shell res" where
  "two_paths argv sh =
     (let offset = length (takeWhile (\<lambda>c. c \<noteq> CHR '' '') argv) in
      bindE (build_abs_path (take offset argv) sh) (\<lambda>sh.
      bindE (guardE OutOfBounds (offset < length argv)) (\<lambda>_.
      build_abs_path (drop (offset + 1) argv) (sh\<lparr>sh_abs2 := sh_abs sh\<rparr>))))"

definition link_do :: "nat \<Rightarrow> string \<Rightarrow> string \<Rightarrow> shell \<Rightarrow> shell res" where
  "link_do cpu tty argv sh =
     bindE (two_paths argv sh) (\<lambda>sh.
     bindE (vfs_link (sh_abs2 sh) (sh_abs sh) (sh_vfs sh)) (\<lambda>(r, v).
     bindE (report True [(0, ''Success! ''), (1, ''Oldpath is not exists! ''), (2, ''Newpath is exists! '')] r (sh\<lparr>sh_vfs := v\<rparr>))
       (sh_flush cpu tty)))"

definition unlink_do :: "nat \<Rightarrow> string \<Rightarrow> string \<Rightarrow> shell \<Rightarrow> shell res" where
  "unlink_do cpu tty path sh =
     bindE (build_abs_path path sh) (\<lambda>sh.
     bindE (vfs_unlink (sh_abs sh) (sh_vfs sh)) (\<lambda>(r, v).
     bindE (report True [(0, ''Success! ''), (1, ''Failed! '')] r (sh\<lparr>sh_vfs := v\<rparr>)) (sh_flush cpu tty)))"

definition mount_do :: "nat \<Rightarrow> string \<Rightarrow> string \<Rightarrow> shell \<Rightarrow> shell res" where
  "mount_do cpu tty argv sh =
     bindE (two_paths argv sh) (\<lambda>sh.
     bindE (vfs_mount (sh_abs2 sh) (sh_abs sh) (sh_vfs sh)) (\<lambda>(r, v).
     bindE (report True [(0, ''Success! ''), (1, ''Uncapable filesystem! ''), (2, ''Dir already exists! '')] r (sh\<lparr>sh_vfs := v\<rparr>))
       (sh_flush cpu tty)))"

definition unmount_do :: "nat \<Rightarrow> string \<Rightarrow> string \<Rightarrow> shell \<Rightarrow> shell res" where
  "unmount_do cpu tty argv sh =
     bindE (build_abs_path argv sh) (\<lambda>sh.
     bindE (vfs_unmount (sh_abs sh) (sh_vfs sh)) (\<lambda>(r, v).
     bindE (report True [(0, ''Success! ''), (1, ''Incorrect pathname! '')] r (sh\<lparr>sh_vfs := v\<rparr>)) (sh_flush cpu tty)))"

section \<open>The command table and the task\<close>

datatype shell_func = Unlink_do | Link_do | Unmount_do | Mount_do | Rmdir_do | Mkdir_do | Catto_do | Cat_do | Cd_do | Ls_do | Echo_do | Pwd_do

record shellinfo =
  si_name :: string
  si_script :: string
  si_func :: shell_func
  si_offset :: nat

definition INFO :: "shellinfo list" where
  "INFO = map (\<lambda>(n, s, f, k). \<lparr>si_name = n, si_script = s, si_func = f, si_offset = k\<rparr>)
    [(''unlink '', ''  unlink [path]            (unlink [path])'', Unlink_do, 7),
     (''link '', ''  link [oldpath] [newpath] (link two [path])'', Link_do, 5),
     (''unmount '', ''  unmount [path]    (unmount [path])'', Unmount_do, 8),
     (''mount '', ''  mount [fs] [path] (mount [fs] to [path])'', Mount_do, 6),
     (''rmdir '', ''  rmdir [dirname]   (remove [dirname])'', Rmdir_do, 6),
     (''mkdir '', ''  mkdir [dirname]   (create [dirname])'', Mkdir_do, 6),
     (''cat > '', ''  cat > [file]  (write [file], end with [~])'', Catto_do, 6),
     (''cat '', ''  cat [file]    (read [file])'', Cat_do, 4),
     (''cd '', ''  cd [dirname]      (change [work_dir])'', Cd_do, 3),
     (''ls '', ''  ls [dirname]      (list [dirname]'' @ [CHR 0x27] @ ''s items)'', Ls_do, 3),
     (''echo '', ''  echo [message]       (print [message])'', Echo_do, 5),
     (''pwd '', ''  pwd               (print [work_dir])'', Pwd_do, 4)]"

definition sh_call :: "shell_func \<Rightarrow> nat \<Rightarrow> nat \<Rightarrow> string \<Rightarrow> string \<Rightarrow> shell \<Rightarrow> shell res" where
  "sh_call f cpu ncpu tty argv =
     (case f of
        Unlink_do \<Rightarrow> unlink_do cpu tty argv | Link_do \<Rightarrow> link_do cpu tty argv | Unmount_do \<Rightarrow> unmount_do cpu tty argv
      | Mount_do \<Rightarrow> mount_do cpu tty argv | Rmdir_do \<Rightarrow> rmdir_do cpu tty argv | Mkdir_do \<Rightarrow> mkdir_do cpu tty argv
      | Catto_do \<Rightarrow> catto_do cpu tty argv | Cat_do \<Rightarrow> cat_do cpu ncpu tty argv | Cd_do \<Rightarrow> cd_do cpu tty argv
      | Ls_do \<Rightarrow> ls_do cpu tty argv | Echo_do \<Rightarrow> echo_do cpu tty argv | Pwd_do \<Rightarrow> pwd_do cpu tty argv)"

text \<open>The help starts at the entry behind the end of the table.\<close>

fun help_loop :: "nat list \<Rightarrow> (string \<times> va list) list res" where
  "help_loop [] = Inr []"
| "help_loop (i # is) =
     bindE (guardE OutOfBounds (i < length INFO)) (\<lambda>_.
     bindE (help_loop is) (\<lambda>r. Inr ((''%s'' @ newline, [VStr (si_script (INFO ! i))]) # r)))"

definition default_do :: "nat \<Rightarrow> string \<Rightarrow> shell \<Rightarrow> shell res" where
  "default_do cpu tty sh =
     bindE (help_loop (rev [0..<length INFO + 1])) (\<lambda>ls.
     bindE (sprints ((''Unexpected command'' @ newline, []) # (newline @ ''             -- help --'' @ newline, []) # ls)) (\<lambda>out.
     bindE (guardE OutOfBounds (length out < BIGBUF)) (\<lambda>_.
     sh_flush cpu tty (sh\<lparr>sh_big := out\<rparr>))))"

text \<open>The loop over the table: the command and its argument.\<close>

definition sh_dispatch :: "string \<Rightarrow> (shell_func \<times> string) option" where
  "sh_dispatch line =
     (case find (\<lambda>i. strncmp_list line (si_name i) (si_offset i) = 0) INFO of
        None \<Rightarrow> None
      | Some i \<Rightarrow> Some (si_func i, drop (si_offset i) line))"

text \<open>One turn of the loop of \<^verbatim>\<open>shell_task\<close>.\<close>

definition shell_turn :: "nat \<Rightarrow> nat \<Rightarrow> string \<Rightarrow> shell \<Rightarrow> shell res" where
  "shell_turn cpu ncpu name sh =
     bindE (sprintf ''(%s) $ '' [VStr name]) (\<lambda>(_, prompt).
     bindE (sh_write cpu name prompt sh) (\<lambda>sh.
     bindE (sh_read cpu name READBUF sh) (\<lambda>(nread, s, sh).
     bindE (guardE OutOfBounds (0 < nread \<and> nread \<le> READBUF)) (\<lambda>_.
     let line = take (nread - 1) s;
         line = (if line = ''ls'' then ''ls '' else line);
         line = (if line = ''cd'' then ''cd '' else line);
         line = (if line = ''pwd'' then ''pwd '' else line)
     in
     bindE (case sh_dispatch line of
              Some (f, argv) \<Rightarrow> sh_call f cpu ncpu name argv sh
            | None \<Rightarrow> default_do cpu name sh) (\<lambda>sh.
     Inr (sh\<lparr>sh_big := []\<rparr>))))))"

section \<open>Properties\<close>

lemma strncmp_skip: "strncmp_list (x # xs) (y # ys) (Suc n) = (if x = y then strncmp_list xs ys n else cmp_char x y)"
  by (simp add: strncmp_list_def)

lemma strncmp_zero: "strncmp_list xs ys 0 = 0"
  by (simp add: strncmp_list_def)

lemmas dispatch_simps = sh_dispatch_def INFO_def strncmp_skip strncmp_zero numeral_eq_Suc cmp_char_def

lemma cat_not_catto:
  assumes "\<forall>r. arg \<noteq> ''> '' @ r"
  shows "strncmp_list arg ''> '' 2 \<noteq> 0"
proof (cases arg)
  case Nil
  then show ?thesis by (simp add: strncmp_list_def cmp_char_def)
next
  case (Cons a as)
  then show ?thesis using assms
    by (cases as) (auto simp: strncmp_list_def cmp_char_def numeral_2_eq_2)
qed

text \<open>
  The shell runs the command that was typed.  For every entry of the command table a line that consists of its name
  and an argument is dispatched to that entry with exactly this argument, \<open>cat\<close> with an argument that starts with the
  redirection sign apart; a line that matches no entry makes the help read the table behind its end.
\<close>

theorem shell_dispatch:
  assumes "i \<in> set INFO" and "si_func i = Cat_do \<Longrightarrow> \<forall>r. arg \<noteq> ''> '' @ r"
  shows "sh_dispatch (si_name i @ arg) = Some (si_func i, arg) \<and>
    (sh_dispatch line = None \<longrightarrow> default_do cpu tty sh = Inl OutOfBounds)"
proof
  show "sh_dispatch (si_name i @ arg) = Some (si_func i, arg)"
  proof (cases "si_func i = Cat_do")
    case True
    have "strncmp_list arg ''> '' (Suc (Suc 0)) \<noteq> 0" using cat_not_catto [OF assms(2) [OF True]] by (simp add: numeral_2_eq_2)
    moreover have "si_name i = ''cat ''" using assms(1) True by (auto simp: INFO_def)
    ultimately show ?thesis using True by (simp add: dispatch_simps)
  next
    case False
    then show ?thesis using assms(1) by (auto simp: INFO_def) (simp_all add: dispatch_simps)
  qed
  show "sh_dispatch line = None \<longrightarrow> default_do cpu tty sh = Inl OutOfBounds"
    by (simp add: default_do_def)
qed

theorem shell_dispatch_witness:
  "sh_dispatch ''cat a.txt'' = Some (Cat_do, ''a.txt'') \<and> (\<forall>sh. default_do 0 ''tty1'' sh = Inl OutOfBounds)"
proof -
  let ?i = "\<lparr>si_name = ''cat '', si_script = ''  cat [file]    (read [file])'', si_func = Cat_do, si_offset = 4\<rparr>"
  have "sh_dispatch ''foo'' = None" by (simp add: dispatch_simps)
  then show ?thesis
    using shell_dispatch [of ?i "''a.txt''" "''foo''" 0 "''tty1''"] by (simp add: INFO_def)
qed

end
