(* ===== verification/Os.thy ===== *)
theory Os
  imports Shell Ramdisk
begin

text \<open>
  \<^verbatim>\<open>kernel/src/devices/dev.c\<close> and the start of \<^verbatim>\<open>kernel/src/os.c\<close>: the device table and the initialisation of the whole
  kernel, in which the allocator, the threads, the devices and the file systems come together.
\<close>

section \<open>Devices\<close>

text \<open>\<^verbatim>\<open>device_t\<close>: the operations are those of one of the four drivers.\<close>

datatype devops = Rd_ops | Input_ops | Fb_ops | Tty_ops

record device =
  dev_name :: string
  dev_id :: int
  dev_ptr :: u32
  dev_ops :: devops

text \<open>Sizes on the 32-bit target: \<^verbatim>\<open>rd_t\<close>, \<^verbatim>\<open>input_t\<close>, \<^verbatim>\<open>fb_t\<close>, \<^verbatim>\<open>tty_t\<close>, \<^verbatim>\<open>device_t\<close> and \<^verbatim>\<open>task_t\<close>.\<close>

definition dev_size :: "devops \<Rightarrow> u32" where
  "dev_size ops = (case ops of Rd_ops \<Rightarrow> 8 | Input_ops \<Rightarrow> 292 | Fb_ops \<Rightarrow> 12 | Tty_ops \<Rightarrow> 476)"

definition DEVICE_T_SIZE :: u32 where "DEVICE_T_SIZE = 16"
definition TASK_T_SIZE :: u32 where "TASK_T_SIZE = 4352"

definition DEVICES :: "(string \<times> int \<times> devops) list" where
  "DEVICES = [(''ramdisk0'', 1, Rd_ops), (''ramdisk1'', 2, Rd_ops), (''input'', 1, Input_ops), (''fb'', 1, Fb_ops),
     (''tty1'', 1, Tty_ops), (''tty2'', 2, Tty_ops), (''tty3'', 3, Tty_ops), (''tty4'', 4, Tty_ops)]"

text \<open>
  What the loader and the machine provide: the bounds of the heap, the image of the first disk, the font and the screen,
  the memory that \<^verbatim>\<open>pmm->alloc\<close> hands out uncleared, and the addresses of the task functions and their arguments.
\<close>

record machine =
  m_heap :: "u32 \<times> u32"
  m_ncpu :: nat
  m_initrd :: "u32 \<times> u32"
  m_mem :: "u32 \<Rightarrow> u8"
  m_screen :: "u32 \<times> u32"
  m_font :: "nat \<Rightarrow> u8"
  m_layout :: layout
  m_entry :: "string \<Rightarrow> u32"
  m_string :: "string \<Rightarrow> u32"
  m_tty0 :: tty

text \<open>The state of the kernel outside of the file systems; their record holds the allocator, the threads and the terminals.\<close>

record kernel =
  k_vfs :: vfs
  k_items :: "irq_handler item_table"
  k_devices :: "nat \<Rightarrow> device option"
  k_rd :: "string \<Rightarrow> rd"
  k_input :: input
  k_kbdirq :: sem

abbreviation k_kmt :: "kernel \<Rightarrow> kmt" where "k_kmt k \<equiv> v_kmt (k_vfs k)"
abbreviation k_pf :: "kernel \<Rightarrow> procfs" where "k_pf k \<equiv> proc_table (k_kmt k)"

definition set_alloc :: "pmm \<Rightarrow> procfs \<Rightarrow> kernel \<Rightarrow> kernel" where
  "set_alloc p pf k = k\<lparr>k_vfs := (k_vfs k)\<lparr>v_pmm := p, v_kmt := (k_kmt k)\<lparr>proc_table := pf\<rparr>\<rparr>\<rparr>"

definition k_alloc :: "u32 \<Rightarrow> kernel \<Rightarrow> (u32 \<times> kernel) res" where
  "k_alloc sz k = bindE (kalloc sz (v_pmm (k_vfs k)) (k_pf k)) (\<lambda>(a, p, pf). Inr (a, set_alloc p pf k))"

text \<open>An entry that is not set yet is a null pointer.\<close>

fun dev_scan :: "string \<Rightarrow> nat list \<Rightarrow> kernel \<Rightarrow> device res" where
  "dev_scan name [] k = Inl Halted"
| "dev_scan name (i # is) k =
     (case k_devices k i of
        None \<Rightarrow> Inl NullDeref
      | Some d \<Rightarrow> if dev_name d = name then Inr d else dev_scan name is k)"

definition dev_lookup :: "string \<Rightarrow> kernel \<Rightarrow> device res" where
  "dev_lookup name k = dev_scan name [0..<length DEVICES] k"

definition dev_create :: "nat \<Rightarrow> string \<times> int \<times> devops \<Rightarrow> kernel \<Rightarrow> kernel res" where
  "dev_create i = (\<lambda>(nm, devid, ops) k.
     bindE (k_alloc (dev_size ops) k) (\<lambda>(data, k).
     bindE (k_alloc DEVICE_T_SIZE k) (\<lambda>(dev, k).
     bindE (guardE NullDeref (dev \<noteq> 0)) (\<lambda>_.
     Inr (k\<lparr>k_devices := (k_devices k)(i \<mapsto> \<lparr>dev_name = nm, dev_id = devid, dev_ptr = data, dev_ops = ops\<rparr>)\<rparr>)))))"

fun dev_create_all :: "nat \<Rightarrow> (string \<times> int \<times> devops) list \<Rightarrow> kernel \<Rightarrow> kernel res" where
  "dev_create_all i [] k = Inr k"
| "dev_create_all i (d # ds) k = bindE (dev_create i d k) (dev_create_all (Suc i) ds)"

text \<open>\<^verbatim>\<open>devices[id]->ops->init(devices[id])\<close>.\<close>

definition dev_init1 :: "machine \<Rightarrow> device \<Rightarrow> kernel \<Rightarrow> kernel res" where
  "dev_init1 m d k =
     (let p = v_pmm (k_vfs k); pf = k_pf k in
      case dev_ops d of
        Rd_ops \<Rightarrow>
          bindE (rd_init (m_initrd m) (dev_id d) p pf) (\<lambda>(r, p, pf).
          Inr (set_alloc p pf (k\<lparr>k_rd := (k_rd k)(dev_name d := r)\<rparr>)))
      | Input_ops \<Rightarrow>
          bindE (input_init (k_input k) (k_kbdirq k) (k_items k) p pf) (\<lambda>(inp, kbd, t, p, pf).
          Inr (set_alloc p pf (k\<lparr>k_input := inp, k_kbdirq := kbd, k_items := t\<rparr>)))
      | Fb_ops \<Rightarrow>
          bindE (fb_init (fst (m_screen m)) (snd (m_screen m)) (m_font m) (dev_name d) (v_fb (k_vfs k)) p pf) (\<lambda>(f, p, pf).
          let k = set_alloc p pf k in Inr (k\<lparr>k_vfs := (k_vfs k)\<lparr>v_fb := f\<rparr>\<rparr>))
      | Tty_ops \<Rightarrow>
          bindE (dev_lookup ''fb'' k) (\<lambda>_.
          bindE (tty_init (dev_id d) (fb_info (v_fb (k_vfs k))) (q_buf (tty_queue (m_tty0 m))) (m_tty0 m) p pf) (\<lambda>(t, p, pf).
          let k = set_alloc p pf k in Inr (k\<lparr>k_vfs := (k_vfs k)\<lparr>v_ttys := (v_ttys (k_vfs k))(dev_name d \<mapsto> t)\<rparr>\<rparr>))))"

fun dev_init_all :: "machine \<Rightarrow> nat list \<Rightarrow> kernel \<Rightarrow> kernel res" where
  "dev_init_all m [] k = Inr k"
| "dev_init_all m (i # is) k =
     (case k_devices k i of None \<Rightarrow> Inl NullDeref | Some d \<Rightarrow> bindE (dev_init1 m d k) (dev_init_all m is))"

text \<open>\<^verbatim>\<open>kmt->create(pmm->alloc(sizeof(task_t)), name, entry, arg)\<close>.\<close>

definition create_task :: "machine \<Rightarrow> string \<Rightarrow> u32 \<Rightarrow> u32 \<Rightarrow> kernel \<Rightarrow> kernel res" where
  "create_task m name entry arg k =
     bindE (k_alloc TASK_T_SIZE k) (\<lambda>(task, k).
     bindE (kmt_create (m_layout m) (unat task) name entry arg (k_kmt k)) (\<lambda>s.
     Inr (k\<lparr>k_vfs := (k_vfs k)\<lparr>v_kmt := s\<rparr>\<rparr>)))"

definition dev_init :: "machine \<Rightarrow> kernel \<Rightarrow> kernel res" where
  "dev_init m k =
     bindE (dev_create_all 0 DEVICES k) (\<lambda>k.
     bindE (dev_init_all m [0..<length DEVICES] k) (\<lambda>k.
     bindE (create_task m ''input-task'' (m_entry m ''input_task'') 0 k) (\<lambda>k.
     create_task m ''tty-task'' (m_entry m ''tty_task'') 0 k)))"

section \<open>Initialisation and the processors\<close>

text \<open>The bytes of a ram disk.\<close>

definition rd_content :: "machine \<Rightarrow> rd \<Rightarrow> nat \<Rightarrow> u8" where
  "rd_content m r = (\<lambda>off. m_mem m (rd_start r + of_nat off))"

fun create_shells :: "machine \<Rightarrow> string list \<Rightarrow> kernel \<Rightarrow> kernel res" where
  "create_shells m [] k = Inr k"
| "create_shells m (t # ts) k = bindE (create_task m t (m_entry m ''shell_task'') (m_string m t) k) (create_shells m ts)"

definition os_init :: "machine \<Rightarrow> kernel \<Rightarrow> kernel res" where
  "os_init m k =
     bindE (pmm_init (fst (m_heap m)) (snd (m_heap m)) (v_pmm (k_vfs k)) (k_pf k)) (\<lambda>(p, pf).
     let k = set_alloc p pf k in
     bindE (kmt_init (m_layout m) (m_ncpu m) (k_items k) (k_kmt k)) (\<lambda>(t, s).
     let k = k\<lparr>k_items := t, k_vfs := (k_vfs k)\<lparr>v_kmt := s\<rparr>\<rparr> in
     bindE (dev_init m k) (\<lambda>k.
     bindE (dev_lookup ''ramdisk0'' k) (\<lambda>d0.
     bindE (dev_lookup ''ramdisk1'' k) (\<lambda>d1.
     bindE (vfs_init (rd_content m (k_rd k (dev_name d0))) (rd_content m (k_rd k (dev_name d1))) (k_vfs k)) (\<lambda>(_, v).
     create_shells m [''tty1'', ''tty2'', ''tty3'', ''tty4''] (k\<lparr>k_vfs := v\<rparr>)))))))"

text \<open>What a processor prints, and the state in which it starts to yield.\<close>

definition hello :: "nat \<Rightarrow> string res" where
  "hello cpu =
     bindE (guardE OutOfBounds (cpu \<le> 8)) (\<lambda>_.
     Inr (''Hello from CPU #'' @ [(''12345678'' @ [NUL]) ! cpu] @ newline))"

definition os_run_start :: "nat \<Rightarrow> kernel \<Rightarrow> (string \<times> kernel) res" where
  "os_run_start cpu k =
     bindE (hello cpu) (\<lambda>out.
     Inr (out, k\<lparr>k_vfs := (k_vfs k)\<lparr>v_kmt := (k_kmt k)\<lparr>iflag := (iflag (k_kmt k))(cpu := True)\<rparr>\<rparr>\<rparr>))"

section \<open>The device table\<close>

lemma k_alloc_devices: "k_alloc sz k = Inr (a, k') \<Longrightarrow> k_devices k' = k_devices k"
  by (auto simp: k_alloc_def set_alloc_def res_iff)

lemma dev_create_devices:
  "dev_create i (nm, devid, ops) k = Inr k' \<Longrightarrow>
     \<exists>p. k_devices k' = (k_devices k)(i \<mapsto> \<lparr>dev_name = nm, dev_id = devid, dev_ptr = p, dev_ops = ops\<rparr>)"
  by (auto simp: dev_create_def res_iff dest!: k_alloc_devices)

lemma dev_create_all_devices:
  assumes "dev_create_all i ds k = Inr k'" and "j < length ds"
  shows "\<exists>p. k_devices k' (i + j) = Some \<lparr>dev_name = fst (ds ! j), dev_id = fst (snd (ds ! j)), dev_ptr = p, dev_ops = snd (snd (ds ! j))\<rparr>"
proof -
  have keep: "k_devices k' n = k_devices k n" if "dev_create_all i ds k = Inr k'" "n < i" for i ds k k' n
    using that
  proof (induction ds arbitrary: i k)
    case (Cons d ds)
    then obtain k1 where "dev_create i d k = Inr k1" "dev_create_all (Suc i) ds k1 = Inr k'" by (auto simp: res_iff)
    moreover have "k_devices k1 n = k_devices k n"
      using dev_create_devices [of i "fst d" "fst (snd d)" "snd (snd d)" k k1] calculation Cons.prems(2) by auto
    ultimately show ?case using Cons.IH [of "Suc i" k1] Cons.prems(2) by simp
  qed simp
  show ?thesis using assms
  proof (induction ds arbitrary: i k j)
    case (Cons d ds)
    then obtain k1 where k1: "dev_create i d k = Inr k1" "dev_create_all (Suc i) ds k1 = Inr k'" by (auto simp: res_iff)
    show ?case
    proof (cases j)
      case 0
      then show ?thesis using dev_create_devices [of i "fst d" "fst (snd d)" "snd (snd d)" k k1] k1 keep [OF k1(2), of i] by auto
    next
      case (Suc n)
      then show ?thesis using Cons.IH [OF k1(2), of n] Cons.prems(2) by simp
    qed
  qed simp
qed

end
