(* ===== verification/Vme.thy ===== *)
theory Vme
  imports Cte
begin

text \<open>
  \<^verbatim>\<open>am/src/x86/qemu/vme.c\<close>: page directories and page tables of the 32-bit x86.  A table is an array of 1024 entries
  identified by its address; the page allocator belongs to the caller and is represented by the pages it
  will deliver, in order.  The specification is the translation the processor makes.
\<close>

section \<open>Entries\<close>

definition PGSIZE :: u32 where "PGSIZE = 4096"
definition PTE_P :: u32 where "PTE_P = 1"
definition PTE_W :: u32 where "PTE_W = 2"
definition PTE_U :: u32 where "PTE_U = 4"
definition PROT_NONE :: u32 where "PROT_NONE = 1"
definition PROT_WRITE :: u32 where "PROT_WRITE = 4"

lemmas pte_flags = PTE_P_def PTE_W_def PTE_U_def

definition PDX :: "u32 \<Rightarrow> nat" where "PDX va = unat (drop_bit 22 va AND 0x3ff)"
definition PTX :: "u32 \<Rightarrow> nat" where "PTX va = unat (drop_bit 12 va AND 0x3ff)"
definition PTE_ADDR :: "u32 \<Rightarrow> u32" where "PTE_ADDR pte = pte AND NOT 0xfff"
definition ROUNDDOWN :: "u32 \<Rightarrow> u32 \<Rightarrow> u32" where "ROUNDDOWN a sz = a AND NOT (sz - 1)"

section \<open>State\<close>

record vme =
  vm_tab :: "u32 \<Rightarrow> nat \<Rightarrow> u32"
  vm_supply :: "u32 list"
  vm_freed :: "u32 list"
  vm_kpt :: u32
  vm_cr3 :: "nat \<Rightarrow> u32"
  vm_pg :: "nat \<Rightarrow> bool"

definition set_entry :: "u32 \<Rightarrow> nat \<Rightarrow> u32 \<Rightarrow> vme \<Rightarrow> vme" where
  "set_entry t i e s = s\<lparr>vm_tab := (vm_tab s)(t := (vm_tab s t)(i := e))\<rparr>"

text \<open>The areas: kernel memory and the devices are mapped, the range between them is for user processes.\<close>

definition areas :: "(u32 \<times> u32 \<times> bool) list" where
  "areas = [(0x00000000, 0x20000000, True), (0x40000000, 0x80000000, False), (0xf0000000, 0x00000000, True)]"

definition uvm_area :: "u32 \<times> u32" where
  "uvm_area = (0x40000000, 0x80000000)"

definition in_range :: "u32 \<Rightarrow> u32 \<times> u32 \<Rightarrow> bool" where
  "in_range p area \<longleftrightarrow> fst area \<le> p \<and> p < snd area"

section \<open>Operations\<close>

definition pgalloc :: "vme \<Rightarrow> (u32 \<times> vme) res" where
  "pgalloc s =
     (case vm_supply s of
        [] \<Rightarrow> Inl Halted
      | p # ps \<Rightarrow> if p = 0 then Inl Halted else Inr (p, s\<lparr>vm_supply := ps, vm_tab := (vm_tab s)(p := \<lambda>_. 0)\<rparr>))"

definition pgfree :: "u32 \<Rightarrow> vme \<Rightarrow> vme" where
  "pgfree p s = s\<lparr>vm_freed := vm_freed s @ [p]\<rparr>"

text \<open>The body of the loop in \<^verbatim>\<open>vme_init\<close>, and the loop, which ends after at most one round of the address space.\<close>

definition kmap_page :: "u32 \<Rightarrow> vme \<Rightarrow> vme res" where
  "kmap_page pa s =
     bindE (if vm_tab s (vm_kpt s) (PDX pa) AND PTE_P = 0 then
              bindE (pgalloc s) (\<lambda>(ptab, s). Inr (ptab, set_entry (vm_kpt s) (PDX pa) (PTE_P OR PTE_W OR ptab) s))
            else Inr (PTE_ADDR (vm_tab s (vm_kpt s) (PDX pa)), s)) (\<lambda>(ptab, s).
     Inr (set_entry ptab (PTX pa) (PTE_P OR PTE_W OR pa) s))"

fun kmap_loop :: "nat \<Rightarrow> u32 \<Rightarrow> u32 \<Rightarrow> vme \<Rightarrow> vme res" where
  "kmap_loop 0 pa e s = (if pa = e then Inr s else Inl Diverge)"
| "kmap_loop (Suc fuel) pa e s = (if pa = e then Inr s else bindE (kmap_page pa s) (kmap_loop fuel (pa + PGSIZE) e))"

fun kmap_areas :: "(u32 \<times> u32 \<times> bool) list \<Rightarrow> vme \<Rightarrow> vme res" where
  "kmap_areas [] s = Inr s"
| "kmap_areas ((a, b, phys) # r) s = (if \<not> phys then kmap_areas r s else bindE (kmap_loop (2 ^ 20) a b s) (kmap_areas r))"

definition percpu_initpg :: "nat \<Rightarrow> vme \<Rightarrow> vme" where
  "percpu_initpg cpu s =
     (if vm_kpt s \<noteq> 0 then s\<lparr>vm_cr3 := (vm_cr3 s)(cpu := vm_kpt s), vm_pg := (vm_pg s)(cpu := True)\<rparr> else s)"

definition vme_init :: "nat \<Rightarrow> vme \<Rightarrow> (int \<times> vme) res" where
  "vme_init cpu s =
     (if cpu \<noteq> 0 then Inl Halted
      else
        bindE (pgalloc s) (\<lambda>(k, s).
        bindE (kmap_areas areas (s\<lparr>vm_kpt := k\<rparr>)) (\<lambda>s.
        Inr (0, percpu_initpg cpu s))))"

record address_space =
  as_pgsize :: u32
  as_area :: "u32 \<times> u32"
  as_ptr :: u32

definition protect :: "vme \<Rightarrow> (address_space \<times> vme) res" where
  "protect s =
     bindE (pgalloc s) (\<lambda>(ud, s).
     let s = s\<lparr>vm_tab := (vm_tab s)(ud := (\<lambda>i. if i < 1024 then vm_tab s (vm_kpt s) i else vm_tab s ud i))\<rparr>
     in Inr (\<lparr>as_pgsize = PGSIZE, as_area = uvm_area, as_ptr = ud\<rparr>, s))"

fun unprotect_loop :: "nat \<Rightarrow> u32 \<Rightarrow> u32 \<Rightarrow> vme \<Rightarrow> vme res" where
  "unprotect_loop 0 ud va s = (if va = snd uvm_area then Inr s else Inl Diverge)"
| "unprotect_loop (Suc fuel) ud va s =
     (if va = snd uvm_area then Inr s
      else
        let pde = vm_tab s ud (PDX va);
            s = (if pde AND PTE_P \<noteq> 0 then pgfree (PTE_ADDR pde) s else s)
        in unprotect_loop fuel ud (va + push_bit 22 1) s)"

definition unprotect :: "address_space \<Rightarrow> vme \<Rightarrow> vme res" where
  "unprotect p s =
     bindE (unprotect_loop 1024 (as_ptr p) (fst uvm_area) s) (\<lambda>s. Inr (pgfree (as_ptr p) s))"

definition map_page :: "address_space \<Rightarrow> u32 \<Rightarrow> u32 \<Rightarrow> u32 \<Rightarrow> vme \<Rightarrow> (int \<times> vme) res" where
  "map_page p va pa prot s =
     (if prot AND PROT_NONE \<noteq> 0 \<and> prot \<noteq> PROT_NONE then Inl Halted
      else if va \<noteq> ROUNDDOWN va PGSIZE \<or> pa \<noteq> ROUNDDOWN pa PGSIZE then Inl Halted
      else if \<not> in_range va uvm_area then Inr (1, s)
      else
        let ud = as_ptr p in
        bindE (if vm_tab s ud (PDX va) AND PTE_P = 0 then
                 bindE (pgalloc s) (\<lambda>(pg, s). Inr (set_entry ud (PDX va) (PTE_P OR PTE_W OR PTE_U OR pg) s))
               else Inr s) (\<lambda>s.
        let pt = PTE_ADDR (vm_tab s ud (PDX va)) in
        Inr (0, if prot AND PROT_NONE \<noteq> 0 then set_entry pt (PTX va) 0 s
                else set_entry pt (PTX va) (PTE_P OR (if prot AND PROT_WRITE \<noteq> 0 then PTE_W else 0) OR PTE_U OR pa) s)))"

definition USEL :: "u32 \<Rightarrow> u32" where "USEL desc = push_bit 3 desc OR DPL_USER"
definition SEG_UCODE :: u32 where "SEG_UCODE = 3"
definition SEG_UDATA :: u32 where "SEG_UDATA = 4"

definition ucontext :: "u32 \<Rightarrow> u32 \<times> u32 \<Rightarrow> u32 \<times> u32 \<Rightarrow> u32 \<Rightarrow> u32 \<Rightarrow> Context" where
  "ucontext p ustack kstack entry args =
     \<lparr>c_prot = Some p, c_eax = args, c_ebx = 0, c_ecx = 0, c_edx = 0, c_esi = 0, c_edi = 0, c_ebp = 0,
      c_esp3 = snd ustack, c_eip = entry, c_eflags = FL_IF, c_cs = USEL SEG_UCODE, c_ds = USEL SEG_UDATA,
      c_es = USEL SEG_UDATA, c_ss = USEL SEG_UDATA, c_ss0 = KSEL SEG_KDATA, c_esp0 = snd kstack\<rparr>"

section \<open>What the processor does\<close>

text \<open>The physical address, and whether the page may be written and may be used in user mode.\<close>

definition translate :: "vme \<Rightarrow> u32 \<Rightarrow> u32 \<Rightarrow> (u32 \<times> bool \<times> bool) option" where
  "translate s cr3 va =
     (let pde = vm_tab s cr3 (PDX va) in
      if pde AND PTE_P = 0 then None
      else
        let pte = vm_tab s (PTE_ADDR pde) (PTX va) in
        if pte AND PTE_P = 0 then None
        else Some (PTE_ADDR pte OR (va AND 0xfff), pde AND pte AND PTE_W \<noteq> 0, pde AND pte AND PTE_U \<noteq> 0))"

section \<open>Bits of addresses\<close>

definition aligned :: "u32 \<Rightarrow> bool" where "aligned a \<longleftrightarrow> a AND 0xfff = 0"

lemma PDX_less: "PDX va < 1024" and PTX_less: "PTX va < 1024"
proof -
  have "unat (x AND 0x3ff) < 1024" for x :: u32
  proof -
    have "x AND 0x3ff \<le> 0x3ff" by (rule word_and_le1)
    then show ?thesis by (simp add: word_le_nat_alt)
  qed
  then show "PDX va < 1024" "PTX va < 1024" by (simp_all add: PDX_def PTX_def)
qed

lemma PTE_ADDR_aligned: "aligned a \<Longrightarrow> PTE_ADDR a = a"
proof -
  assume "aligned a"
  then have "a AND NOT 0xfff = (a AND 0xfff) OR (a AND NOT 0xfff)" by (simp add: aligned_def)
  also have "\<dots> = a" by (simp flip: bit.conj_disj_distrib)
  finally show ?thesis by (simp add: PTE_ADDR_def)
qed

lemma aligned_PTE_ADDR: "aligned (PTE_ADDR a)"
  by (simp add: aligned_def PTE_ADDR_def and.assoc)

lemma PTE_ADDR_or:
  assumes "aligned a" and "f AND NOT 0xfff = 0"
  shows "PTE_ADDR (f OR a) = a"
  using assms PTE_ADDR_aligned [OF assms(1)] by (simp add: PTE_ADDR_def bit.conj_disj_distrib2)

lemma flag_or:
  assumes "aligned a" and "m AND NOT 0xfff = 0"
  shows "(f OR a) AND m = f AND m"
proof -
  have "a AND m = a AND (m AND (0xfff OR NOT 0xfff))" by simp
  also have "\<dots> = (a AND 0xfff) AND m" using assms(2) by (simp only: bit.conj_disj_distrib) (simp add: ac_simps)
  also have "\<dots> = 0" using assms(1) by (simp add: aligned_def)
  finally show ?thesis by (simp add: bit.conj_disj_distrib2)
qed

lemma ROUNDDOWN_page: "ROUNDDOWN a PGSIZE = PTE_ADDR a"
  by (simp add: ROUNDDOWN_def PGSIZE_def PTE_ADDR_def)

lemma page_eq:
  assumes "PDX a = PDX b" and "PTX a = PTX b"
  shows "PTE_ADDR a = PTE_ADDR b"
proof (rule bit_word_eqI)
  fix n :: nat assume n: "n < LENGTH(32)"
  have "drop_bit 22 a AND 0x3ff = drop_bit 22 b AND 0x3ff" "drop_bit 12 a AND 0x3ff = drop_bit 12 b AND 0x3ff"
    using assms by (simp_all add: PDX_def PTX_def word_unat_eq_iff)
  then have "bit (drop_bit 22 a AND mask 10) (n - 22) = bit (drop_bit 22 b AND mask 10) (n - 22)"
    "bit (drop_bit 12 a AND mask 10) (n - 12) = bit (drop_bit 12 b AND mask 10) (n - 12)"
    by (simp_all add: mask_numeral)
  then have "22 \<le> n \<Longrightarrow> bit a n = bit b n" "12 \<le> n \<Longrightarrow> n < 22 \<Longrightarrow> bit a n = bit b n"
    using n by (auto simp: bit_simps)
  then have "12 \<le> n \<Longrightarrow> bit a n = bit b n" by (cases "22 \<le> n") auto
  moreover have "bit (PTE_ADDR x) n \<longleftrightarrow> bit x n \<and> 12 \<le> n" for x
  proof -
    have "PTE_ADDR x = x AND NOT (mask 12)" by (simp add: PTE_ADDR_def mask_numeral)
    then show ?thesis using n by (auto simp: bit_simps)
  qed
  ultimately show "bit (PTE_ADDR a) n = bit (PTE_ADDR b) n" by auto
qed

section \<open>Directories whose tables do not overlap\<close>

abbreviation present :: "vme \<Rightarrow> u32 \<Rightarrow> nat \<Rightarrow> bool" where
  "present s d i \<equiv> vm_tab s d i AND PTE_P \<noteq> 0"

abbreviation ptab :: "vme \<Rightarrow> u32 \<Rightarrow> nat \<Rightarrow> u32" where
  "ptab s d i \<equiv> PTE_ADDR (vm_tab s d i)"

text \<open>
  The tables of the directory are pages of their own, and the pages the allocator will deliver are page aligned, distinct
  and used nowhere in the directory.
\<close>

definition dir_ok :: "vme \<Rightarrow> u32 \<Rightarrow> bool" where
  "dir_ok s d \<longleftrightarrow>
     (\<forall>i < 1024. present s d i \<longrightarrow> ptab s d i \<noteq> d \<and> ptab s d i \<notin> set (vm_supply s) \<and>
        (\<forall>j < 1024. present s d j \<and> j \<noteq> i \<longrightarrow> ptab s d j \<noteq> ptab s d i)) \<and>
     d \<notin> set (vm_supply s) \<and> distinct (vm_supply s) \<and> (\<forall>p \<in> set (vm_supply s). aligned p \<and> p \<noteq> 0)"

lemma set_entry_tab: "vm_tab (set_entry t i e s) t' = (if t' = t then (vm_tab s t)(i := e) else vm_tab s t')"
  by (simp add: set_entry_def)

text \<open>Setting an entry of the table for \<open>va\<close> changes the translation of this page only.\<close>

lemma translate_set:
  assumes ok: "dir_ok s d" and p: "present s d (PDX va)" and va: "aligned va"
  shows "translate (set_entry (ptab s d (PDX va)) (PTX va) e s) d va' =
    (if PTE_ADDR va' = va then
       (if e AND PTE_P = 0 then None
        else Some (PTE_ADDR e OR (va' AND 0xfff), vm_tab s d (PDX va) AND e AND PTE_W \<noteq> 0, vm_tab s d (PDX va) AND e AND PTE_U \<noteq> 0))
     else translate s d va')"
proof -
  have "ptab s d (PDX va) \<noteq> d" using ok p PDX_less [of va] by (simp add: dir_ok_def)
  then have dir: "vm_tab (set_entry (ptab s d (PDX va)) (PTX va) e s) d = vm_tab s d" by (simp add: set_entry_tab)
  show ?thesis
  proof (cases "PTE_ADDR va' = va")
    case True
    have "PDX va' = PDX (PTE_ADDR va')" "PTX va' = PTX (PTE_ADDR va')"
    proof -
      have "drop_bit n (PTE_ADDR va') = drop_bit n va'" if "12 \<le> n" for n
      proof (rule bit_word_eqI)
        fix k :: nat
        have "PTE_ADDR va' = va' AND NOT (mask 12)" by (simp add: PTE_ADDR_def mask_numeral)
        then show "bit (drop_bit n (PTE_ADDR va')) k = bit (drop_bit n va') k"
          using that by (auto simp: bit_simps dest: bit_imp_le_length)
      qed
      then show "PDX va' = PDX (PTE_ADDR va')" "PTX va' = PTX (PTE_ADDR va')" by (simp_all add: PDX_def PTX_def)
    qed
    then show ?thesis using True p unfolding translate_def Let_def dir by (simp add: set_entry_tab)
  next
    case False
    then have ne: "PDX va' \<noteq> PDX va \<or> PTX va' \<noteq> PTX va" using page_eq [of va' va] PTE_ADDR_aligned [OF va] by auto
    have "vm_tab (set_entry (ptab s d (PDX va)) (PTX va) e s) (ptab s d (PDX va')) (PTX va') = vm_tab s (ptab s d (PDX va')) (PTX va')"
      if "present s d (PDX va')"
    proof (cases "PDX va' = PDX va")
      case True
      with ne show ?thesis by (simp add: set_entry_tab)
    next
      case neq: False
      have "ptab s d (PDX va') \<noteq> ptab s d (PDX va)" using ok p that neq PDX_less unfolding dir_ok_def by blast
      then show ?thesis by (simp add: set_entry_tab)
    qed
    then show ?thesis using False unfolding translate_def Let_def dir by auto
  qed
qed

text \<open>A new empty table for an absent directory entry changes no translation.\<close>

lemma new_table:
  assumes ok: "dir_ok s d" and i: "i < 1024" "\<not> present s d i" and sup: "vm_supply s = pg # ps" and f: "f AND NOT 0xfff = 0" "f AND PTE_P \<noteq> 0"
  defines "s' \<equiv> set_entry d i (f OR pg) (s\<lparr>vm_supply := ps, vm_tab := (vm_tab s)(pg := \<lambda>_. 0)\<rparr>)"
  shows "pgalloc s = Inr (pg, s\<lparr>vm_supply := ps, vm_tab := (vm_tab s)(pg := \<lambda>_. 0)\<rparr>)" and "dir_ok s' d"
    and "vm_tab s' d i = f OR pg" and "ptab s' d i = pg" and "present s' d i" and "\<And>va. translate s' d va = translate s d va"
    and "\<And>j. j \<noteq> i \<Longrightarrow> vm_tab s' d j = vm_tab s d j"
proof -
  have pg: "aligned pg" "pg \<noteq> 0" "pg \<noteq> d" "pg \<notin> set ps" "d \<notin> set ps" "distinct ps" using ok sup by (auto simp: dir_ok_def)
  show "pgalloc s = Inr (pg, s\<lparr>vm_supply := ps, vm_tab := (vm_tab s)(pg := \<lambda>_. 0)\<rparr>)" using pg sup by (simp add: pgalloc_def)
  show t: "vm_tab s' d i = f OR pg" and o: "\<And>j. j \<noteq> i \<Longrightarrow> vm_tab s' d j = vm_tab s d j"
    using pg by (simp_all add: s'_def set_entry_tab)
  show pt: "ptab s' d i = pg" using PTE_ADDR_or [OF pg(1) f(1)] t by simp
  have "(f OR pg) AND PTE_P = f AND PTE_P" by (rule flag_or [OF pg(1)]) (simp add: PTE_P_def)
  then show pr: "present s' d i" using t f(2) by simp
  have sup': "vm_supply s' = ps" by (simp add: s'_def set_entry_def)
  have old: "ptab s d j \<noteq> pg" "ptab s d j \<noteq> d" "ptab s d j \<notin> set ps" if "j < 1024" "present s d j" for j
    using ok that sup by (auto simp: dir_ok_def)
  show "dir_ok s' d"
    unfolding dir_ok_def sup'
  proof (intro conjI allI impI)
    fix j assume j: "j < 1024" "present s' d j"
    show "ptab s' d j \<noteq> d" "ptab s' d j \<notin> set ps"
      using j old [of j] o [of j] pt pg(3,4) by (cases "j = i"; simp)+
    fix k assume k: "k < 1024" "present s' d k \<and> k \<noteq> j"
    show "ptab s' d k \<noteq> ptab s' d j"
    proof (cases "j = i \<or> k = i")
      case True
      then show ?thesis using j k old [of j] old [of k] o [of j] o [of k] pt by auto
    next
      case False
      then have "present s d j" "present s d k" using j k o by auto
      then have "ptab s d k \<noteq> ptab s d j" using ok j(1) k unfolding dir_ok_def by blast
      then show ?thesis using False o by auto
    qed
  qed (use pg ok sup in \<open>auto simp: dir_ok_def\<close>)
  show "translate s' d va = translate s d va" for va
  proof (cases "PDX va = i")
    case True
    have "vm_tab s' pg = (\<lambda>_. 0)" using pg(3) by (simp add: s'_def set_entry_tab)
    then show ?thesis using True i(2) pt pr by (simp add: translate_def Let_def)
  next
    case False
    have "vm_tab s' (ptab s d (PDX va)) = vm_tab s (ptab s d (PDX va))" if "present s d (PDX va)"
      using old [OF PDX_less that] by (simp add: s'_def set_entry_tab)
    then show ?thesis using o [OF False] by (auto simp: translate_def Let_def)
  qed
qed

lemma set_entry_ok:
  assumes "dir_ok s d" and "present s d i" and "i < 1024"
  shows "dir_ok (set_entry (ptab s d i) j e s) d" "vm_tab (set_entry (ptab s d i) j e s) d = vm_tab s d"
    "vm_supply (set_entry (ptab s d i) j e s) = vm_supply s"
proof -
  have "ptab s d i \<noteq> d" using assms by (simp add: dir_ok_def)
  then show t: "vm_tab (set_entry (ptab s d i) j e s) d = vm_tab s d" by (simp add: set_entry_tab)
  show "vm_supply (set_entry (ptab s d i) j e s) = vm_supply s" by (simp add: set_entry_def)
  with t show "dir_ok (set_entry (ptab s d i) j e s) d" using assms(1) by (simp add: dir_ok_def)
qed

section \<open>Mapping a page\<close>

text \<open>User pages: the directory entries of the user area give all rights.\<close>

definition user_ok :: "vme \<Rightarrow> u32 \<Rightarrow> bool" where
  "user_ok s d \<longleftrightarrow> dir_ok s d \<and> (\<forall>i < 1024. 256 \<le> i \<and> i < 512 \<and> present s d i \<longrightarrow> vm_tab s d i AND 7 = 7)"

lemma and_absorb:
  fixes x m :: u32
  assumes "x AND m = m" and "n AND m = n"
  shows "x AND y AND n = y AND n"
proof -
  have "x AND n = x AND m AND n" using assms(2) by (simp add: ac_simps)
  also have "\<dots> = n" using assms by (metis and.assoc and.commute)
  finally show ?thesis by (metis and.assoc and.commute)
qed

lemma PDX_div: "PDX va = unat va div 2 ^ 22"
proof -
  have d: "unat (drop_bit 22 va) = unat va div 2 ^ 22" by (simp add: drop_bit_eq_div unat_div)
  have "unat va < 2 ^ 32" using unsigned_less [of va] by simp
  then have "unat va div 2 ^ 22 < 1024" by auto
  moreover have "PDX va = unat (take_bit 10 (drop_bit 22 va))" by (simp add: PDX_def take_bit_eq_mask mask_numeral)
  moreover have "unat (take_bit 10 (drop_bit 22 va)) = unat (drop_bit 22 va) mod 1024" by (simp add: take_bit_eq_mod unat_mod)
  ultimately show ?thesis using d by simp
qed

lemma user_PDX: "in_range va uvm_area \<longleftrightarrow> 256 \<le> PDX va \<and> PDX va < 512"
  by (auto simp: in_range_def uvm_area_def word_le_nat_alt word_less_nat_alt PDX_div)

definition user_pte :: "u32 \<Rightarrow> u32 \<Rightarrow> u32" where
  "user_pte prot pa = (if prot AND PROT_NONE \<noteq> 0 then 0 else PTE_P OR (if prot AND PROT_WRITE \<noteq> 0 then PTE_W else 0) OR PTE_U OR pa)"

lemma user_pte_bits:
  assumes "aligned pa"
  shows "user_pte prot pa AND PTE_P = (if prot AND PROT_NONE \<noteq> 0 then 0 else PTE_P)"
    and "prot AND PROT_NONE = 0 \<Longrightarrow> PTE_ADDR (user_pte prot pa) = pa"
    and "prot AND PROT_NONE = 0 \<Longrightarrow> user_pte prot pa AND PTE_W = (if prot AND PROT_WRITE \<noteq> 0 then PTE_W else 0)"
    and "prot AND PROT_NONE = 0 \<Longrightarrow> user_pte prot pa AND PTE_U = PTE_U"
proof -
  let ?f = "PTE_P OR (if prot AND PROT_WRITE \<noteq> 0 then PTE_W else 0) OR PTE_U"
  have e: "user_pte prot pa = ?f OR pa" if "prot AND PROT_NONE = 0" using that by (simp add: user_pte_def or.assoc)
  have f: "?f AND NOT 0xfff = 0" by (simp add: pte_flags)
  show "user_pte prot pa AND PTE_P = (if prot AND PROT_NONE \<noteq> 0 then 0 else PTE_P)"
  proof (cases "prot AND PROT_NONE = 0")
    case True
    have "?f AND PTE_P = PTE_P" by (simp add: pte_flags)
    then show ?thesis using e [OF True] flag_or [OF assms, of PTE_P ?f] True by (simp add: PTE_P_def)
  qed (simp add: user_pte_def)
  show "PTE_ADDR (user_pte prot pa) = pa" if "prot AND PROT_NONE = 0"
    using e [OF that] PTE_ADDR_or [OF assms f] by simp
  show "user_pte prot pa AND PTE_W = (if prot AND PROT_WRITE \<noteq> 0 then PTE_W else 0)" "user_pte prot pa AND PTE_U = PTE_U"
    if "prot AND PROT_NONE = 0"
    using e [OF that] flag_or [OF assms, of PTE_W ?f] flag_or [OF assms, of PTE_U ?f] by (simp_all add: pte_flags)
qed

text \<open>The state with the table for a page of the user area, which is taken from the page allocator when it is missing.\<close>

definition with_table :: "u32 \<Rightarrow> nat \<Rightarrow> vme \<Rightarrow> vme" where
  "with_table d i s = (if present s d i then s
     else set_entry d i ((PTE_P OR PTE_W OR PTE_U) OR hd (vm_supply s)) (s\<lparr>vm_supply := tl (vm_supply s), vm_tab := (vm_tab s)(hd (vm_supply s) := \<lambda>_. 0)\<rparr>))"

lemma user_flags: "(PTE_P OR PTE_W OR PTE_U) AND NOT 0xfff = 0" "(PTE_P OR PTE_W OR PTE_U) AND PTE_P \<noteq> 0"
  by (simp_all add: pte_flags)

lemma with_table_ok:
  assumes ok: "user_ok s d" and sup: "vm_supply s \<noteq> []" and va: "in_range va uvm_area"
  shows "dir_ok (with_table d (PDX va) s) d \<and> present (with_table d (PDX va) s) d (PDX va) \<and> user_ok (with_table d (PDX va) s) d \<and>
    (\<forall>x. translate (with_table d (PDX va) s) d x = translate s d x) \<and> vm_tab (with_table d (PDX va) s) d (PDX va) AND 7 = 7"
proof (cases "present s d (PDX va)")
  case True
  then show ?thesis using ok user_PDX [THEN iffD1, OF va] PDX_less [of va] by (simp add: with_table_def user_ok_def)
next
  case False
  let ?i = "PDX va" and ?f = "PTE_P OR PTE_W OR PTE_U" and ?s = "with_table d (PDX va) s"
  obtain pg ps where pg: "vm_supply s = pg # ps" using sup by (cases "vm_supply s") auto
  have dok: "dir_ok s d" using ok by (simp add: user_ok_def)
  note n = new_table [OF dok PDX_less False pg user_flags]
  have e: "?s = set_entry d ?i (?f OR pg) (s\<lparr>vm_supply := ps, vm_tab := (vm_tab s)(pg := \<lambda>_. 0)\<rparr>)"
    using False pg by (simp add: with_table_def)
  have "aligned pg" using dok pg by (simp add: dir_ok_def)
  then have "(?f OR pg) AND 7 = ?f AND 7" by (rule flag_or) simp
  then have 7: "vm_tab ?s d ?i AND 7 = 7" using n(3) by (simp add: e) (simp add: pte_flags)
  moreover have "vm_tab ?s d j AND 7 = 7" if "j < 1024" "256 \<le> j" "j < 512" "present ?s d j" for j
    using that 7 n(7) ok by (cases "j = ?i") (simp_all add: e user_ok_def)
  ultimately show ?thesis using n(2,5,6) by (simp add: e user_ok_def)
qed

lemma rounddown_aligned: "a \<noteq> ROUNDDOWN a PGSIZE \<longleftrightarrow> \<not> aligned a"
  using PTE_ADDR_aligned [of a] aligned_PTE_ADDR [of a] by (auto simp: ROUNDDOWN_page)

lemma map_page_run:
  assumes ok: "user_ok s (as_ptr p)" and sup: "vm_supply s \<noteq> []"
    and legal: "\<not> (prot AND PROT_NONE \<noteq> 0 \<and> prot \<noteq> PROT_NONE)" "aligned va" "aligned pa" "in_range va uvm_area"
  shows "map_page p va pa prot s =
    Inr (0, set_entry (ptab (with_table (as_ptr p) (PDX va) s) (as_ptr p) (PDX va)) (PTX va) (user_pte prot pa) (with_table (as_ptr p) (PDX va) s))"
proof (cases "present s (as_ptr p) (PDX va)")
  case True
  then show ?thesis using legal rounddown_aligned by (auto simp: map_page_def Let_def with_table_def user_pte_def or.assoc)
next
  case False
  obtain pg ps where pg: "vm_supply s = pg # ps" using sup by (cases "vm_supply s") auto
  have dok: "dir_ok s (as_ptr p)" using ok by (simp add: user_ok_def)
  show ?thesis using False legal pg rounddown_aligned new_table(1) [OF dok PDX_less False pg user_flags]
    by (auto simp: map_page_def Let_def with_table_def user_pte_def or.assoc)
qed

text \<open>
  C4: \<open>map\<close> is an update of the translation.  For aligned addresses, a user page and a legal protection, \<open>map\<close> succeeds when a
  page is left for a table; afterwards the processor translates the addresses of this page to the new frame,
  writable as requested (or not at all for \<open>PROT_NONE\<close>), and every other address as before.  Addresses
  outside the user area are refused and change nothing, and illegal arguments stop the machine.
\<close>

theorem map_page_translates:
  assumes ok: "user_ok s (as_ptr p)" and sup: "vm_supply s \<noteq> []"
  shows "(prot AND PROT_NONE \<noteq> 0 \<and> prot \<noteq> PROT_NONE \<or> \<not> aligned va \<or> \<not> aligned pa \<longrightarrow> map_page p va pa prot s = Inl Halted) \<and>
    (\<not> (prot AND PROT_NONE \<noteq> 0 \<and> prot \<noteq> PROT_NONE) \<and> aligned va \<and> aligned pa \<longrightarrow>
      (if in_range va uvm_area then
        \<exists>s'. map_page p va pa prot s = Inr (0, s') \<and> user_ok s' (as_ptr p) \<and>
          (\<forall>va'. translate s' (as_ptr p) va' =
            (if PTE_ADDR va' = va
             then (if prot AND PROT_NONE \<noteq> 0 then None else Some (pa OR (va' AND 0xfff), prot AND PROT_WRITE \<noteq> 0, True))
             else translate s (as_ptr p) va'))
       else map_page p va pa prot s = Inr (1, s)))"
proof -
  let ?d = "as_ptr p"
  have main: "\<exists>s'. map_page p va pa prot s = Inr (0, s') \<and> user_ok s' ?d \<and>
          (\<forall>va'. translate s' ?d va' =
            (if PTE_ADDR va' = va
             then (if prot AND PROT_NONE \<noteq> 0 then None else Some (pa OR (va' AND 0xfff), prot AND PROT_WRITE \<noteq> 0, True))
             else translate s ?d va'))"
    if legal: "\<not> (prot AND PROT_NONE \<noteq> 0 \<and> prot \<noteq> PROT_NONE)" "aligned va" "aligned pa" "in_range va uvm_area"
  proof -
    define s1 where "s1 = with_table ?d (PDX va) s"
    have s1: "dir_ok s1 ?d" "present s1 ?d (PDX va)" "user_ok s1 ?d" "\<And>x. translate s1 ?d x = translate s ?d x" "vm_tab s1 ?d (PDX va) AND 7 = 7"
      using with_table_ok [OF ok sup legal(4)] unfolding s1_def by blast+
    let ?s = "set_entry (ptab s1 ?d (PDX va)) (PTX va) (user_pte prot pa) s1"
    have uo: "user_ok ?s ?d" using s1(3) set_entry_ok [OF s1(1,2) PDX_less, of "PTX va" "user_pte prot pa"] by (simp add: user_ok_def)
    have wu: "vm_tab s1 ?d (PDX va) AND PTE_W = PTE_W" "vm_tab s1 ?d (PDX va) AND PTE_U = PTE_U"
      using and_absorb [OF s1(5), of PTE_W "- 1"] and_absorb [OF s1(5), of PTE_U "- 1"] by (simp_all add: pte_flags)
    have "translate ?s ?d va' =
            (if PTE_ADDR va' = va
             then (if prot AND PROT_NONE \<noteq> 0 then None else Some (pa OR (va' AND 0xfff), prot AND PROT_WRITE \<noteq> 0, True))
             else translate s ?d va')" for va'
      using user_pte_bits [OF legal(3), of prot]
      by (simp add: translate_set [OF s1(1,2) legal(2)] s1(4) wu) (simp add: pte_flags)
    then show ?thesis using map_page_run [OF ok sup legal] uo unfolding s1_def by blast
  qed
  have "map_page p va pa prot s = Inl Halted" if "prot AND PROT_NONE \<noteq> 0 \<and> prot \<noteq> PROT_NONE \<or> \<not> aligned va \<or> \<not> aligned pa"
    using that rounddown_aligned unfolding map_page_def by auto
  moreover have "map_page p va pa prot s = Inr (1, s)"
    if "\<not> (prot AND PROT_NONE \<noteq> 0 \<and> prot \<noteq> PROT_NONE)" "aligned va" "aligned pa" "\<not> in_range va uvm_area"
    using that rounddown_aligned unfolding map_page_def by auto
  ultimately show ?thesis using main by auto
qed

section \<open>The kernel's own mapping\<close>

text \<open>
  While the kernel directory is built: its tables do not overlap, its entries are for the kernel only and lie outside the
  user area, and there is a page left for every entry that is absent.
\<close>

definition kern_ok :: "vme \<Rightarrow> bool" where
  "kern_ok s \<longleftrightarrow> dir_ok s (vm_kpt s) \<and>
     (\<forall>i < 1024. present s (vm_kpt s) i \<longrightarrow> vm_tab s (vm_kpt s) i AND 7 = 3 \<and> (i < 256 \<or> 512 \<le> i)) \<and>
     1024 \<le> length (vm_supply s) + card {i. i < 1024 \<and> present s (vm_kpt s) i}"

text \<open>The page table for an address of the kernel, made when there is none.\<close>

lemma kmap_table:
  assumes ok: "kern_ok s" and pa: "\<not> in_range pa uvm_area"
  shows "\<exists>s1. (if \<not> present s (vm_kpt s) (PDX pa) then
              bindE (pgalloc s) (\<lambda>(ptab, s). Inr (ptab, set_entry (vm_kpt s) (PDX pa) (PTE_P OR PTE_W OR ptab) s))
            else Inr (ptab s (vm_kpt s) (PDX pa), s)) = Inr (ptab s1 (vm_kpt s) (PDX pa), s1) \<and> kern_ok s1 \<and> vm_kpt s1 = vm_kpt s \<and>
            present s1 (vm_kpt s) (PDX pa) \<and> (\<forall>x. translate s1 (vm_kpt s) x = translate s (vm_kpt s) x)"
proof (cases "present s (vm_kpt s) (PDX pa)")
  case True
  then show ?thesis using ok by auto
next
  case False
  let ?d = "vm_kpt s" and ?i = "PDX pa" and ?f = "PTE_P OR PTE_W"
  have dok: "dir_ok s ?d" using ok by (simp add: kern_ok_def)
  have f: "?f AND NOT 0xfff = 0" "?f AND PTE_P \<noteq> 0" by (simp_all add: pte_flags)
  have "{i. i < 1024 \<and> present s ?d i} \<subseteq> {..<1024} - {?i}" using False by auto
  then have "card {i. i < 1024 \<and> present s ?d i} \<le> card ({..<1024} - {?i})" by (intro card_mono) auto
  then have "card {i. i < 1024 \<and> present s ?d i} < 1024" using PDX_less [of pa] by simp
  then obtain pg ps where pg: "vm_supply s = pg # ps" using ok by (cases "vm_supply s") (auto simp: kern_ok_def)
  note n = new_table [OF dok PDX_less False pg f]
  let ?s = "set_entry ?d ?i (?f OR pg) (s\<lparr>vm_supply := ps, vm_tab := (vm_tab s)(pg := \<lambda>_. 0)\<rparr>)"
  have k: "vm_kpt ?s = ?d" "vm_supply ?s = ps" by (simp_all add: set_entry_def)
  have "aligned pg" using dok pg by (simp add: dir_ok_def)
  then have "(?f OR pg) AND 7 = ?f AND 7" by (rule flag_or) simp
  then have 7: "vm_tab ?s ?d ?i AND 7 = 3" using n(3) by (simp add: pte_flags)
  have "vm_tab ?s ?d j AND 7 = 3 \<and> (j < 256 \<or> 512 \<le> j)" if "j < 1024" "present ?s ?d j" for j
    using that 7 n(7) ok pa by (cases "j = ?i") (auto simp: kern_ok_def user_PDX)
  moreover have "{i. i < 1024 \<and> present ?s ?d i} = insert ?i {i. i < 1024 \<and> present s ?d i}"
    using n(5,7) PDX_less [of pa] by (auto split: if_splits) metis+
  then have "card {i. i < 1024 \<and> present ?s ?d i} = Suc (card {i. i < 1024 \<and> present s ?d i})" using False by simp
  ultimately have "kern_ok ?s" using n(2) ok pg by (simp add: kern_ok_def k)
  moreover have "set_entry ?d ?i (PTE_P OR PTE_W OR pg) (s\<lparr>vm_supply := ps, vm_tab := (vm_tab s)(pg := \<lambda>_. 0)\<rparr>) = ?s" by (simp add: or.assoc)
  ultimately show ?thesis using False n k by (intro exI [of _ ?s]) simp
qed

lemma kmap_page_run:
  assumes ok: "kern_ok s" and pa: "aligned pa" "\<not> in_range pa uvm_area"
  shows "\<exists>s'. kmap_page pa s = Inr s' \<and> kern_ok s' \<and> vm_kpt s' = vm_kpt s \<and>
    (\<forall>va. translate s' (vm_kpt s) va = (if PTE_ADDR va = pa then Some (PTE_ADDR va OR (va AND 0xfff), True, False) else translate s (vm_kpt s) va))"
proof -
  let ?d = "vm_kpt s"
  let ?i = "PDX pa"
  let ?f = "PTE_P OR PTE_W"
  have f: "?f AND NOT 0xfff = 0" by (simp add: pte_flags)
  obtain s1 where s1: "(if \<not> present s ?d ?i then
              bindE (pgalloc s) (\<lambda>(ptab, s). Inr (ptab, set_entry (vm_kpt s) (PDX pa) (PTE_P OR PTE_W OR ptab) s))
            else Inr (ptab s ?d ?i, s)) = Inr (ptab s1 ?d ?i, s1)" "kern_ok s1" "vm_kpt s1 = ?d" "present s1 ?d ?i"
            "\<And>x. translate s1 ?d x = translate s ?d x" using kmap_table [OF ok pa(2)] by blast
  let ?e = "PTE_P OR PTE_W OR pa"
  let ?s = "set_entry (ptab s1 ?d ?i) (PTX pa) ?e s1"
  have dok1: "dir_ok s1 ?d" using s1(2,3) by (simp add: kern_ok_def)
  note so = set_entry_ok [OF dok1 s1(4) PDX_less, of "PTX pa" ?e]
  have kp: "vm_kpt ?s = ?d" using s1(3) by (simp add: set_entry_def)
  have run: "kmap_page pa s = Inr ?s" using s1(1) by (simp add: kmap_page_def)
  have ko: "kern_ok ?s" using s1(2,3) so kp by (simp add: kern_ok_def)
  have e: "PTE_ADDR ?e = pa" "?e AND PTE_P \<noteq> 0" "?e AND PTE_W = PTE_W" "?e AND PTE_U = 0"
    using PTE_ADDR_or [OF pa(1) f] flag_or [OF pa(1), of PTE_P ?f] flag_or [OF pa(1), of PTE_W ?f] flag_or [OF pa(1), of PTE_U ?f]
    unfolding or.assoc [symmetric] by (simp_all add: pte_flags)
  have "vm_tab s1 ?d ?i AND 7 = 3" using s1(2-4) PDX_less [of pa] by (simp add: kern_ok_def)
  then have "(vm_tab s1 ?d ?i AND 7) AND PTE_W = PTE_W" by (simp add: pte_flags)
  then have w: "vm_tab s1 ?d ?i AND PTE_W = PTE_W" by (simp add: and.assoc pte_flags)
  have "translate ?s ?d va = (if PTE_ADDR va = pa then Some (PTE_ADDR va OR (va AND 0xfff), True, False) else translate s ?d va)" for va
    using e w by (simp add: translate_set [OF dok1 s1(4) pa(1)] s1(5)) (simp add: pte_flags)
  then show ?thesis using run ko kp by blast
qed

lemma aligned_iff: "aligned a \<longleftrightarrow> 4096 dvd unat a"
proof -
  have "a AND 0xfff = take_bit 12 a" by (simp add: take_bit_eq_mask mask_numeral)
  moreover have "unat (take_bit 12 a) = unat a mod 4096" by (simp add: take_bit_eq_mod unat_mod)
  ultimately show ?thesis by (simp add: aligned_def dvd_eq_mod_eq_0 word_unat_eq_iff)
qed

lemma aligned_add:
  assumes "aligned pa"
  shows "aligned (pa + PGSIZE * of_nat k)"
proof -
  have "4096 dvd unat (PGSIZE * of_nat k :: u32)"
    by (simp add: unat_word_ariths PGSIZE_def) (auto intro!: dvd_mod)
  then show ?thesis using assms by (simp add: aligned_iff unat_word_ariths dvd_mod)
qed

lemma page_step_nonzero:
  assumes "0 < n" "n < 2 ^ 20"
  shows "pa + PGSIZE * of_nat n \<noteq> pa"
proof -
  have "PGSIZE * of_nat n = (of_nat (4096 * n) :: u32)" by (simp add: PGSIZE_def)
  moreover have "unat (of_nat (4096 * n) :: u32) = 4096 * n" by (rule unat_of_nat_u32) (use assms in auto)
  ultimately have "unat (PGSIZE * of_nat n :: u32) \<noteq> 0" using assms by simp
  then show ?thesis by (metis add_cancel_right_right unat_0)
qed

lemma kmap_loop_run:
  assumes "kern_ok s" and "aligned pa" and "\<And>k. k < n \<Longrightarrow> \<not> in_range (pa + PGSIZE * of_nat k) uvm_area" and "n \<le> fuel" and "n < 2 ^ 20"
  shows "\<exists>s'. kmap_loop fuel pa (pa + PGSIZE * of_nat n) s = Inr s' \<and> kern_ok s' \<and> vm_kpt s' = vm_kpt s \<and>
    (\<forall>va. translate s' (vm_kpt s) va =
       (if \<exists>k < n. PTE_ADDR va = pa + PGSIZE * of_nat k then Some (PTE_ADDR va OR (va AND 0xfff), True, False) else translate s (vm_kpt s) va))"
  using assms
proof (induction n arbitrary: pa s fuel)
  case 0
  then show ?case by (cases fuel) auto
next
  case (Suc n)
  obtain f where f: "fuel = Suc f" using Suc.prems(4) by (cases fuel) auto
  have ne: "pa \<noteq> pa + PGSIZE * of_nat (Suc n)" using page_step_nonzero [of "Suc n" pa] Suc.prems(5) by (metis zero_less_Suc)
  have e: "pa + PGSIZE * of_nat (Suc n) = (pa + PGSIZE) + PGSIZE * of_nat n" by (simp add: algebra_simps)
  have sh: "(pa + PGSIZE) + PGSIZE * of_nat k = pa + PGSIZE * of_nat (Suc k)" for k by (simp add: algebra_simps)
  obtain s1 where s1: "kmap_page pa s = Inr s1" "kern_ok s1" "vm_kpt s1 = vm_kpt s"
    "\<And>va. translate s1 (vm_kpt s) va = (if PTE_ADDR va = pa then Some (PTE_ADDR va OR (va AND 0xfff), True, False) else translate s (vm_kpt s) va)"
    using kmap_page_run [OF Suc.prems(1,2)] Suc.prems(3) [of 0] by auto
  have al: "aligned (pa + PGSIZE)" using aligned_add [OF Suc.prems(2), of 1] by simp
  have nr: "\<And>k. k < n \<Longrightarrow> \<not> in_range (pa + PGSIZE + PGSIZE * of_nat k) uvm_area"
    using Suc.prems(3) unfolding sh by (metis Suc_less_eq)
  obtain s' where s': "kmap_loop f (pa + PGSIZE) (pa + PGSIZE + PGSIZE * of_nat n) s1 = Inr s'" "kern_ok s'" "vm_kpt s' = vm_kpt s"
    "\<And>va. translate s' (vm_kpt s) va = (if \<exists>k < n. PTE_ADDR va = pa + PGSIZE + PGSIZE * of_nat k
       then Some (PTE_ADDR va OR (va AND 0xfff), True, False) else translate s1 (vm_kpt s) va)"
    using Suc.IH [OF s1(2) al nr, of f, unfolded s1(3)] Suc.prems(4,5) f by auto
  have "kmap_loop fuel pa (pa + PGSIZE * of_nat (Suc n)) s = Inr s'"
    using s1(1) s'(1) ne unfolding f e by simp
  moreover have "(\<exists>k < Suc n. PTE_ADDR va = pa + PGSIZE * of_nat k) \<longleftrightarrow> PTE_ADDR va = pa \<or> (\<exists>k < n. PTE_ADDR va = pa + PGSIZE + PGSIZE * of_nat k)" for va
    unfolding sh by (subst Ex_less_Suc2) simp
  ultimately show ?case using s'(2,3) s'(4) s1(4) by auto
qed

lemma PTE_ADDR_nat: "PTE_ADDR va = of_nat (4096 * (unat va div 4096))"
proof -
  have "PTE_ADDR va = va AND NOT (mask 12)" by (simp add: PTE_ADDR_def mask_numeral)
  also have "\<dots> = push_bit 12 (drop_bit 12 va)" by (rule bit_word_eqI) (auto simp: bit_simps)
  also have "\<dots> = 4096 * drop_bit 12 va" by (simp add: push_bit_eq_mult mult.commute)
  also have "drop_bit 12 va = of_nat (unat va div 4096)"
  proof -
    have "unat va < 2 ^ 32" using unsigned_less [of va] by simp
    then have "unat (of_nat (unat va div 4096) :: u32) = unat va div 4096" by (intro unat_of_nat_u32) auto
    then show ?thesis by (simp add: word_unat_eq_iff drop_bit_eq_div unat_div)
  qed
  finally show ?thesis by simp
qed

lemma page_plus_offset: "PTE_ADDR va OR (va AND 0xfff) = va"
  by (simp add: PTE_ADDR_def flip: bit.conj_disj_distrib)

lemma in_pages:
  assumes "B + n \<le> 2 ^ 20"
  shows "(\<exists>k < n. PTE_ADDR va = of_nat (4096 * B) + PGSIZE * of_nat k) \<longleftrightarrow> 4096 * B \<le> unat va \<and> unat va < 4096 * (B + n)"
proof -
  have inj: "(of_nat (4096 * x) = (of_nat (4096 * y) :: u32)) \<longleftrightarrow> x = y" if "x < 2 ^ 20" "y < 2 ^ 20" for x y
    using unat_of_nat_u32 [of "4096 * x"] unat_of_nat_u32 [of "4096 * y"] that by (auto simp: word_unat_eq_iff)
  have "unat va < 2 ^ 32" using unsigned_less [of va] by simp
  then have v: "unat va div 4096 < 2 ^ 20" by auto
  have "PTE_ADDR va = of_nat (4096 * B) + PGSIZE * of_nat k \<longleftrightarrow> unat va div 4096 = B + k" if "k < n" for k
  proof -
    have "of_nat (4096 * B) + PGSIZE * of_nat k = (of_nat (4096 * (B + k)) :: u32)" by (simp add: PGSIZE_def algebra_simps)
    then show ?thesis unfolding PTE_ADDR_nat using inj [of "unat va div 4096" "B + k"] v assms that by auto
  qed
  then have "(\<exists>k < n. PTE_ADDR va = of_nat (4096 * B) + PGSIZE * of_nat k) \<longleftrightarrow> (\<exists>k < n. unat va div 4096 = B + k)" by blast
  also have "\<dots> \<longleftrightarrow> B \<le> unat va div 4096 \<and> unat va div 4096 < B + n"
    by (auto simp: le_iff_add)
  finally show ?thesis by (auto simp: less_eq_div_iff_mult_less_eq div_less_iff_less_mult mult.commute)
qed

text \<open>The pages of an allocator that keeps its contract.\<close>

definition pages_ok :: "u32 list \<Rightarrow> bool" where
  "pages_ok ps \<longleftrightarrow> distinct ps \<and> (\<forall>p \<in> set ps. aligned p \<and> p \<noteq> 0)"

definition identity_map :: "u32 \<Rightarrow> (u32 \<times> bool \<times> bool) option" where
  "identity_map va = (if va < 0x20000000 \<or> 0xf0000000 \<le> va then Some (va, True, False) else None)"

text \<open>The pages of the two areas that are mapped are no pages of the user.\<close>

lemma kernel_page:
  assumes "b + 4096 * j < 0x40000000 \<or> 0x80000000 \<le> b" and "b + 4096 * j < 2 ^ 32"
  shows "\<not> in_range (of_nat b + PGSIZE * of_nat j) uvm_area"
proof -
  have "of_nat b + PGSIZE * of_nat j = (of_nat (b + 4096 * j) :: u32)" by (simp add: PGSIZE_def)
  moreover have "unat (of_nat (b + 4096 * j) :: u32) = b + 4096 * j" by (rule unat_of_nat_u32) (use assms(2) in simp)
  ultimately show ?thesis using assms(1) by (auto simp: in_range_def uvm_area_def word_le_nat_alt word_less_nat_alt)
qed

lemma vme_init_run:
  assumes sup: "pages_ok (vm_supply s)" "1025 \<le> length (vm_supply s)"
  shows "\<exists>s'. vme_init 0 s = Inr (0, s') \<and> kern_ok s' \<and> vm_pg s' 0 \<and> vm_cr3 s' 0 = vm_kpt s' \<and>
    (\<forall>va. translate s' (vm_kpt s') va = identity_map va)"
proof -
  obtain k ps where k: "vm_supply s = k # ps" using sup by (cases "vm_supply s") auto
  have k0: "k \<noteq> 0" "aligned k" "k \<notin> set ps" using sup k by (auto simp: pages_ok_def)
  define s0 where "s0 = s\<lparr>vm_supply := ps, vm_tab := (vm_tab s)(k := \<lambda>_. 0), vm_kpt := k\<rparr>"
  have pg: "pgalloc s = Inr (k, s\<lparr>vm_supply := ps, vm_tab := (vm_tab s)(k := \<lambda>_. 0)\<rparr>)" using k k0 by (simp add: pgalloc_def)
  have ok0: "kern_ok s0" using sup k k0 by (simp add: s0_def kern_ok_def dir_ok_def pages_ok_def)
  have t0: "translate s0 k va = None" "vm_kpt s0 = k" for va by (simp_all add: s0_def translate_def)
  have r1: "\<not> in_range (0 + PGSIZE * of_nat j) uvm_area" if "j < 0x20000" for j using kernel_page [of 0 j] that by simp
  have r2: "\<not> in_range (0xf0000000 + PGSIZE * of_nat j) uvm_area" if "j < 0x10000" for j using kernel_page [of "0xf0000000" j] that by simp
  have a: "aligned 0" "aligned 0xf0000000" by (simp_all add: aligned_def)
  obtain s1 where s1: "kmap_loop (2 ^ 20) 0 0x20000000 s0 = Inr s1" "kern_ok s1" "vm_kpt s1 = k"
    "\<And>va. translate s1 k va = (if \<exists>j < 0x20000. PTE_ADDR va = 0 + PGSIZE * of_nat j then Some (va, True, False) else None)"
    using kmap_loop_run [OF ok0 a(1) r1, of "0x20000" "2 ^ 20", unfolded t0] by (auto simp: PGSIZE_def page_plus_offset)
  have e2: "0xf0000000 + PGSIZE * of_nat 0x10000 = (0 :: u32)" by (simp add: PGSIZE_def)
  obtain s2 where s2: "kmap_loop (2 ^ 20) 0xf0000000 0 s1 = Inr s2" "kern_ok s2" "vm_kpt s2 = k"
    "\<And>va. translate s2 k va = (if \<exists>j < 0x10000. PTE_ADDR va = 0xf0000000 + PGSIZE * of_nat j then Some (va, True, False) else translate s1 k va)"
    using kmap_loop_run [OF s1(2) a(2) r2, of "0x10000" "2 ^ 20", unfolded s1(3) e2 page_plus_offset] by auto
  have "translate s2 k va = identity_map va" for va
  proof -
    have "unat va < 2 ^ 32" using unsigned_less [of va] by simp
    moreover have "(\<exists>j < 0x20000. PTE_ADDR va = 0 + PGSIZE * of_nat j) \<longleftrightarrow> va < 0x20000000"
      using in_pages [of 0 "0x20000" va] by (simp add: word_less_nat_alt)
    moreover have "(\<exists>j < 0x10000. PTE_ADDR va = 0xf0000000 + PGSIZE * of_nat j) \<longleftrightarrow> 0xf0000000 \<le> va"
      using in_pages [of "0xf0000" "0x10000" va] calculation(1) by (simp add: word_le_nat_alt)
    ultimately show ?thesis using s1(4) s2(4) by (auto simp: identity_map_def)
  qed
  moreover have "vme_init 0 s = Inr (0, percpu_initpg 0 s2)"
    using pg s1(1) s2(1) by (simp add: vme_init_def areas_def s0_def)
  moreover have "translate (percpu_initpg 0 s2) k va = translate s2 k va" for va by (simp add: percpu_initpg_def translate_def Let_def)
  moreover have "kern_ok (percpu_initpg 0 s2)" using s2(2,3) k0(1) by (simp add: percpu_initpg_def kern_ok_def dir_ok_def)
  moreover have "vm_kpt (percpu_initpg 0 s2) = k" "vm_pg (percpu_initpg 0 s2) 0" "vm_cr3 (percpu_initpg 0 s2) 0 = k"
    using s2(3) k0 by (simp_all add: percpu_initpg_def)
  ultimately show ?thesis by auto
qed

lemma protect_run:
  assumes ok: "kern_ok s"
  shows "\<exists>p s'. protect s = Inr (p, s') \<and> user_ok s' (as_ptr p) \<and> (\<forall>va. translate s' (as_ptr p) va = translate s (vm_kpt s) va)"
proof -
  let ?k = "vm_kpt s"
  have dok: "dir_ok s ?k" using ok by (simp add: kern_ok_def)
  have "{i. i < 1024 \<and> present s ?k i} \<subseteq> {..<1024} - {256..<512}" using ok by (auto simp: kern_ok_def)
  then have "card {i. i < 1024 \<and> present s ?k i} \<le> card ({..<1024} - {256..<512 :: nat})" by (intro card_mono) auto
  also have "card ({..<1024} - {256..<512 :: nat}) = 768" by (subst card_Diff_subset) auto
  finally obtain u ps where u: "vm_supply s = u # ps" using ok by (cases "vm_supply s") (auto simp: kern_ok_def)
  have u0: "u \<noteq> 0" "u \<noteq> ?k" "u \<notin> set ps" "\<And>i. i < 1024 \<Longrightarrow> present s ?k i \<Longrightarrow> ptab s ?k i \<noteq> u"
    using dok u by (auto simp: dir_ok_def)
  let ?s1 = "s\<lparr>vm_supply := ps, vm_tab := (vm_tab s)(u := \<lambda>_. 0)\<rparr>"
  let ?s = "?s1\<lparr>vm_tab := (vm_tab ?s1)(u := (\<lambda>i. if i < 1024 then vm_tab s ?k i else vm_tab ?s1 u i))\<rparr>"
  have run: "protect s = Inr (\<lparr>as_pgsize = PGSIZE, as_area = uvm_area, as_ptr = u\<rparr>, ?s)"
    using u u0 by (simp add: protect_def pgalloc_def cong: if_cong)
  have e: "i < 1024 \<Longrightarrow> vm_tab ?s u i = vm_tab s ?k i" and o: "t \<noteq> u \<Longrightarrow> vm_tab ?s t = vm_tab s t" for i t by simp_all
  have "user_ok ?s u"
    unfolding user_ok_def
  proof
    show "dir_ok ?s u"
      using dok u u0 e unfolding dir_ok_def by auto
    show "\<forall>i < 1024. 256 \<le> i \<and> i < 512 \<and> present ?s u i \<longrightarrow> vm_tab ?s u i AND 7 = 7"
      using ok e by (auto simp: kern_ok_def)
  qed
  moreover have "translate ?s u va = translate s ?k va" for va
    unfolding translate_def e [OF PDX_less] Let_def using u0(4) [OF PDX_less] by auto
  ultimately show ?thesis using run by (intro exI) (rule conjI, assumption, simp)
qed

text \<open>
  C21: \<open>vme_init\<close> with an allocator that delivers enough distinct aligned pages turns paging on with a directory under which
  kernel memory and the devices are mapped to themselves, writable and only for the kernel, and nothing else is
  mapped; \<open>protect\<close> then makes an address space with the same translation, to which user pages can be added.
\<close>

theorem vme_init_identity:
  assumes "pages_ok (vm_supply s)" and "1025 \<le> length (vm_supply s)"
  shows "\<exists>s' p s''. vme_init 0 s = Inr (0, s') \<and> vm_pg s' 0 \<and> vm_cr3 s' 0 = vm_kpt s' \<and>
    (\<forall>va. translate s' (vm_cr3 s' 0) va = identity_map va) \<and>
    protect s' = Inr (p, s'') \<and> user_ok s'' (as_ptr p) \<and> (\<forall>va. translate s'' (as_ptr p) va = identity_map va)"
proof -
  obtain s' where s': "vme_init 0 s = Inr (0, s')" "kern_ok s'" "vm_pg s' 0" "vm_cr3 s' 0 = vm_kpt s'"
    "\<And>va. translate s' (vm_kpt s') va = identity_map va"
    using vme_init_run [OF assms] by blast
  from protect_run [OF s'(2)] s' show ?thesis by fastforce
qed

definition demo_vme :: "u32 list \<Rightarrow> vme" where
  "demo_vme ps = \<lparr>vm_tab = (\<lambda>_ _. 0), vm_supply = ps, vm_freed = [], vm_kpt = 0, vm_cr3 = (\<lambda>_. 0), vm_pg = (\<lambda>_. False)\<rparr>"

definition demo_pages :: "u32 list" where
  "demo_pages = map (\<lambda>k. of_nat (4096 * (k + 1))) [0..<1025]"

lemma demo_pages_ok: "pages_ok demo_pages" "length demo_pages = 1025"
proof -
  have u: "unat (of_nat (4096 * (k + 1)) :: u32) = 4096 * (k + 1)" if "k < 1025" for k
    by (rule unat_of_nat_u32) (use that in simp)
  have "inj_on (\<lambda>k. of_nat (4096 * (k + 1)) :: u32) (set [0..<1025])"
  proof (rule inj_onI)
    fix x y assume "x \<in> set [0..<1025]" "y \<in> set [0..<1025]" "of_nat (4096 * (x + 1)) = (of_nat (4096 * (y + 1)) :: u32)"
    then have "4096 * (x + 1) = 4096 * (y + 1)" using u [of x] u [of y] by (metis atLeastLessThan_iff set_upt)
    then show "x = y" by simp
  qed
  then have "distinct demo_pages" by (simp add: demo_pages_def distinct_map)
  moreover have "aligned p \<and> p \<noteq> 0" if p: "p \<in> set demo_pages" for p
  proof -
    obtain k where k: "p = of_nat (4096 * (k + 1))" "k \<in> {0..<1025}" using p unfolding demo_pages_def set_map set_upt by (rule imageE)
    then have "unat p = 4096 * (k + 1)" using u by (metis atLeastLessThan_iff)
    then show ?thesis by (auto simp: aligned_iff)
  qed
  ultimately show "pages_ok demo_pages" by (simp add: pages_ok_def)
  show "length demo_pages = 1025" by (simp add: demo_pages_def)
qed

theorem vme_init_identity_witness:
  "\<exists>s'. vme_init 0 (demo_vme demo_pages) = Inr (0, s') \<and> translate s' (vm_cr3 s' 0) 0x12345 = Some (0x12345, True, False)"
  using vme_init_identity [of "demo_vme demo_pages"] demo_pages_ok by (auto simp: demo_vme_def identity_map_def)

theorem map_page_translates_witness:
  "\<exists>s'. map_page \<lparr>as_pgsize = PGSIZE, as_area = uvm_area, as_ptr = 0x2000\<rparr> 0x40001000 0x5000 6 (demo_vme [0x1000]) = Inr (0, s') \<and>
     translate s' 0x2000 0x40001234 = Some (0x5234, True, True)"
proof -
  let ?p = "\<lparr>as_pgsize = PGSIZE, as_area = uvm_area, as_ptr = 0x2000\<rparr>"
  have ok: "user_ok (demo_vme [0x1000]) (as_ptr ?p)" by (simp add: user_ok_def dir_ok_def demo_vme_def aligned_def)
  show ?thesis using map_page_translates [OF ok, of 6 "0x40001000" "0x5000"]
    by (auto simp: demo_vme_def aligned_def PROT_NONE_def PROT_WRITE_def in_range_def uvm_area_def PTE_ADDR_def)
qed

end
