(* ===== verification/Kvdb.thy ===== *)
theory Kvdb
  imports Prelude
begin

text \<open>
  The key-value database of \<^verbatim>\<open>libkvdb/kvdb.c\<close> and \<^verbatim>\<open>kvdb.h\<close>: a table of items, each the head of a chain of
  4 KB cells, kept in one struct that is copied to the disk as a whole, and a log of the operations
  that were finished since.  Arrays are functions of their index with the bounds checked where the code
  indexes them.  The disk has binary files, which hold an image of the struct or are empty, and text files;
  the three names that \<^verbatim>\<open>kvdb_open\<close> derives from one file name differ, by their length or their last letters.
  The advisory file locks around each file access have no effect in a single process, and opening a
  file for writing succeeds.  The mutex of the struct is initialised by every
  \<^verbatim>\<open>kvdb_open\<close>, so that the bytes of it in an image never matter; it is kept beside the struct.
\<close>

section \<open>The struct, the buffers and the disk\<close>

definition KEY_LENGTH :: nat where "KEY_LENGTH = 256"
definition FILENAME_LENGTH :: nat where "FILENAME_LENGTH = 256"
definition ITEMS_SIZE :: nat where "ITEMS_SIZE = 256"
definition DATAS_SIZE :: nat where "DATAS_SIZE = 12 * 1024"
definition DATA_LENGTH :: nat where "DATA_LENGTH = 4 * 1024"
definition MAX_LENGTH :: nat where "MAX_LENGTH = 32 * 1024 * 1024"

lemmas kvdb_consts = KEY_LENGTH_def FILENAME_LENGTH_def ITEMS_SIZE_def DATAS_SIZE_def DATA_LENGTH_def MAX_LENGTH_def

text \<open>The number of rows of \<^verbatim>\<open>vec\<close>, \<^verbatim>\<open>readbuf\<close> and \<^verbatim>\<open>writebuf\<close>.\<close>

definition ROWS :: nat where "ROWS = MAX_LENGTH div DATA_LENGTH"

abbreviation NUL :: char where "NUL \<equiv> CHR 0x00"

type_synonym buffer = "nat \<Rightarrow> char"

record node =
  n_data :: buffer
  n_used :: int
  n_next :: int

record item_t =
  it_head :: int
  it_size :: int
  it_key :: string

record kvdb =
  kv_filename :: string
  kv_copyname :: string
  kv_logname :: string
  kv_size :: int
  kv_items :: "nat \<Rightarrow> item_t"
  kv_datas :: "nat \<Rightarrow> node"

text \<open>What is outside the struct: its mutex, the static buffers, and the files by name.\<close>

record kenv =
  tlock :: bool
  readbuf :: buffer
  writebuf :: buffer
  kvalue :: string
  images :: "string \<Rightarrow> kvdb option option"
  logs :: "string \<Rightarrow> string option"

definition upd_node :: "nat \<Rightarrow> (node \<Rightarrow> node) \<Rightarrow> kvdb \<Rightarrow> kvdb" where
  "upd_node i f db = db\<lparr>kv_datas := (kv_datas db)(i := f (kv_datas db i))\<rparr>"

definition upd_item :: "nat \<Rightarrow> item_t \<Rightarrow> kvdb \<Rightarrow> kvdb" where
  "upd_item i it db = db\<lparr>kv_items := (kv_items db)(i := it)\<rparr>"

text \<open>A row of a two-dimensional buffer, \<^verbatim>\<open>strncpy\<close> of \<open>n\<close> characters, and \<^verbatim>\<open>strcpy\<close> of a string to a buffer.\<close>

definition row :: "buffer \<Rightarrow> nat \<Rightarrow> buffer" where
  "row b r = (\<lambda>i. b (r * DATA_LENGTH + i))"

definition set_row :: "buffer \<Rightarrow> nat \<Rightarrow> buffer \<Rightarrow> buffer" where
  "set_row b r c = (\<lambda>j. if j div DATA_LENGTH = r then c (j mod DATA_LENGTH) else b j)"

definition strncpy_buf :: "buffer \<Rightarrow> buffer \<Rightarrow> nat \<Rightarrow> buffer" where
  "strncpy_buf d src n = (\<lambda>i. if i < n then (if \<exists>j<i. src j = NUL then NUL else src i) else d i)"

definition strcpy_buf :: "buffer \<Rightarrow> string \<Rightarrow> buffer" where
  "strcpy_buf d src = (\<lambda>i. if i < length src then src ! i else if i = length src then NUL else d i)"

definition in_datas :: "int \<Rightarrow> bool" where
  "in_datas x \<longleftrightarrow> 0 \<le> x \<and> x < int DATAS_SIZE"

definition blocks_of :: "int \<Rightarrow> nat" where
  "blocks_of sz = nat ((sz + int DATA_LENGTH - 1) div int DATA_LENGTH)"

section \<open>Chains of cells\<close>

definition kvdb_get_unused_idx :: "kvdb \<Rightarrow> int \<Rightarrow> int" where
  "kvdb_get_unused_idx db k =
     (if k < 0 then -1
      else case first_idx (\<lambda>i. n_used (kv_datas db i) = 0) (nat k) DATAS_SIZE of Some i \<Rightarrow> int i | None \<Rightarrow> -1)"

text \<open>The loop that fills \<^verbatim>\<open>vec\<close>; \<open>None\<close> when it returns 1 because no cell is left.\<close>

fun alloc_loop :: "nat \<Rightarrow> int \<Rightarrow> int list \<Rightarrow> kvdb \<Rightarrow> int list option res" where
  "alloc_loop 0 k vec db = Inr (Some vec)"
| "alloc_loop (Suc n) k vec db =
     (let k = kvdb_get_unused_idx db (k + 1) in
      if k = -1 then Inr None
      else bindE (guardE OutOfBounds (length vec < ROWS)) (\<lambda>_. alloc_loop n k (vec @ [k]) db))"

fun link_loop :: "int list \<Rightarrow> kvdb \<Rightarrow> kvdb" where
  "link_loop (x # y # vec) db = link_loop (y # vec) (upd_node (nat x) (\<lambda>n. n\<lparr>n_used := 1, n_next := y\<rparr>) db)"
| "link_loop _ db = db"

definition kvdb_alloc :: "kvdb \<Rightarrow> int \<Rightarrow> string \<Rightarrow> (int \<times> kvdb) res" where
  "kvdb_alloc db sz key =
     (let need = blocks_of sz in
      bindE (alloc_loop need (-1) [] db) (\<lambda>r.
      case r of
        None \<Rightarrow> Inr (1, db)
      | Some vec \<Rightarrow>
          if length vec \<noteq> need then Inr (1, db)
          else
            bindE (guardE OutOfBounds (need < ROWS)) (\<lambda>_.
            let vec = vec @ [-1];
                db = link_loop vec db
            in
            bindE (guardE OutOfBounds (0 \<le> kv_size db \<and> kv_size db < int ITEMS_SIZE \<and> length key < KEY_LENGTH)) (\<lambda>_.
            let db = upd_item (nat (kv_size db)) \<lparr>it_head = vec ! 0, it_size = sz, it_key = key\<rparr> db
            in Inr (0, db\<lparr>kv_size := kv_size db + 1\<rparr>)))))"

fun free_loop :: "nat \<Rightarrow> int \<Rightarrow> kvdb \<Rightarrow> (int \<times> kvdb) res" where
  "free_loop 0 x db = Inr (x, db)"
| "free_loop (Suc n) x db =
     bindE (guardE OutOfBounds (in_datas x)) (\<lambda>_.
     let db = upd_node (nat x) (\<lambda>c. c\<lparr>n_used := 0\<rparr>) db
     in free_loop n (n_next (kv_datas db (nat x))) db)"

definition kvdb_free :: "kvdb \<Rightarrow> nat \<Rightarrow> (int \<times> kvdb) res" where
  "kvdb_free db item_idx =
     (let itm = kv_items db item_idx in
      bindE (free_loop (blocks_of (it_size itm)) (it_head itm) db) (\<lambda>(x, db).
      if x \<noteq> -1 then Inr (1, db)
      else
        bindE (guardE OutOfBounds (0 < kv_size db \<and> kv_size db \<le> int ITEMS_SIZE)) (\<lambda>_.
        let db = upd_item item_idx (kv_items db (nat (kv_size db - 1))) db
        in Inr (0, db\<lparr>kv_size := kv_size db - 1\<rparr>))))"

fun read_rows :: "nat \<Rightarrow> nat \<Rightarrow> int \<Rightarrow> kvdb \<Rightarrow> buffer \<Rightarrow> (int \<times> buffer) res" where
  "read_rows 0 cnt x db b = Inr (x, b)"
| "read_rows (Suc n) cnt x db b =
     bindE (guardE OutOfBounds (cnt < ROWS \<and> in_datas x)) (\<lambda>_.
     let b = set_row b cnt (strncpy_buf (row b cnt) (n_data (kv_datas db (nat x))) DATA_LENGTH)
     in read_rows n (cnt + 1) (n_next (kv_datas db (nat x))) db b)"

definition kvdb_read :: "kvdb \<Rightarrow> nat \<Rightarrow> kenv \<Rightarrow> (int \<times> kenv) res" where
  "kvdb_read db item_idx e =
     (let itm = kv_items db item_idx in
      bindE (read_rows (blocks_of (it_size itm)) 0 (it_head itm) db (readbuf e)) (\<lambda>(x, b).
      Inr (if x \<noteq> -1 then 1 else 0, e\<lparr>readbuf := b\<rparr>)))"

fun write_rows :: "nat \<Rightarrow> nat \<Rightarrow> int \<Rightarrow> buffer \<Rightarrow> kvdb \<Rightarrow> (int \<times> kvdb) res" where
  "write_rows 0 cnt x b db = Inr (x, db)"
| "write_rows (Suc n) cnt x b db =
     bindE (guardE OutOfBounds (cnt < ROWS \<and> in_datas x)) (\<lambda>_.
     let db = upd_node (nat x) (\<lambda>c. c\<lparr>n_data := strncpy_buf (n_data c) (row b cnt) DATA_LENGTH\<rparr>) db
     in write_rows n (cnt + 1) (n_next (kv_datas db (nat x))) b db)"

definition kvdb_write :: "kvdb \<Rightarrow> nat \<Rightarrow> kenv \<Rightarrow> (int \<times> kvdb) res" where
  "kvdb_write db item_idx e =
     (let itm = kv_items db item_idx in
      bindE (write_rows (blocks_of (it_size itm)) 0 (it_head itm) (writebuf e) db) (\<lambda>(x, db).
      Inr (if x \<noteq> -1 then 1 else 0, db)))"

definition kvdb_search_key :: "kvdb \<Rightarrow> string \<Rightarrow> int" where
  "kvdb_search_key db key =
     (case first_idx (\<lambda>i. it_key (kv_items db i) = key) 0 (nat (kv_size db)) of Some i \<Rightarrow> int i | None \<Rightarrow> -1)"

text \<open>\<^verbatim>\<open>strcpy((char *)writebuf, value)\<close>.\<close>

definition fill_writebuf :: "string \<Rightarrow> kenv \<Rightarrow> kenv res" where
  "fill_writebuf v e =
     bindE (guardE OutOfBounds (length v < MAX_LENGTH)) (\<lambda>_. Inr (e\<lparr>writebuf := strcpy_buf (writebuf e) v\<rparr>))"

text \<open>The call of \<^verbatim>\<open>kvdb_free\<close> for a key that is present, its result ignored.\<close>

definition drop_old :: "string \<Rightarrow> kvdb \<Rightarrow> kvdb res" where
  "drop_old key db =
     (let item_idx = kvdb_search_key db key in
      if 0 \<le> item_idx then bindE (kvdb_free db (nat item_idx)) (\<lambda>(r, db). Inr db) else Inr db)"

section \<open>Redoing the log\<close>

definition kvdb_put_redo :: "string \<Rightarrow> string \<Rightarrow> kvdb \<times> kenv \<Rightarrow> (kvdb \<times> kenv) res" where
  "kvdb_put_redo key v = (\<lambda>(db, e).
     bindE (drop_old key db) (\<lambda>db.
     bindE (kvdb_alloc db (int (length v)) key) (\<lambda>(r, db).
     if r \<noteq> 0 then Inl Halted
     else
       bindE (fill_writebuf v e) (\<lambda>e.
       bindE (kvdb_write db (nat (kv_size db - 1)) e) (\<lambda>(r, db).
       if r \<noteq> 0 then Inl Halted else Inr (db, e))))))"

definition kvdb_get_redo :: "string \<Rightarrow> kvdb \<times> kenv \<Rightarrow> (kvdb \<times> kenv) res" where
  "kvdb_get_redo key = (\<lambda>(db, e).
     let item_idx = kvdb_search_key db key in
     if item_idx = -1 then Inr (db, e)
     else bindE (kvdb_free db (nat item_idx)) (\<lambda>(r, db). if r \<noteq> 0 then Inl Halted else Inr (db, e)))"

text \<open>The character class \<^verbatim>\<open>isspace\<close> of the C locale, and what \<^verbatim>\<open>fscanf(lp, "%3s %s ", operation, key)\<close> reads.\<close>

definition is_space :: "char \<Rightarrow> bool" where
  "is_space c \<longleftrightarrow> c \<in> {CHR 0x20, CHR 0x09, CHR 0x0A, CHR 0x0B, CHR 0x0C, CHR 0x0D}"

definition scan_record :: "string \<Rightarrow> (string \<times> string \<times> string) option" where
  "scan_record lp =
     (let lp = dropWhile is_space lp;
          operation = take 3 (takeWhile (Not \<circ> is_space) lp);
          lp = dropWhile is_space (drop (length operation) lp);
          key = takeWhile (Not \<circ> is_space) lp
      in if operation = [] \<or> key = [] then None
         else Some (operation, key, dropWhile is_space (drop (length key) lp)))"

text \<open>\<^verbatim>\<open>fgets\<close>: a line with its newline, or as many characters as the buffer has room for.\<close>

fun fgets_line :: "nat \<Rightarrow> string \<Rightarrow> string \<times> string" where
  "fgets_line n [] = ([], [])"
| "fgets_line n (c # lp) =
     (if n = 0 then ([], c # lp)
      else if c = CHR 0x0A then ([c], lp)
      else case fgets_line (n - 1) lp of (l, rest) \<Rightarrow> (c # l, rest))"

lemma fgets_line_length: "fgets_line n lp = (l, rest) \<Longrightarrow> length rest \<le> length lp"
proof (induction n lp arbitrary: l rule: fgets_line.induct)
  case (2 n c lp)
  then show ?case by (fastforce split: if_splits prod.splits)
qed simp

lemma length_dropWhile_less: "length (dropWhile P xs) \<le> length xs"
  by (induction xs) auto

lemma scan_record_length: "scan_record lp = Some (operation, key, rest) \<Longrightarrow> length rest < length lp"
proof -
  assume a: "scan_record lp = Some (operation, key, rest)"
  let ?a = "dropWhile is_space lp"
  let ?op = "take 3 (takeWhile (Not \<circ> is_space) ?a)"
  let ?b = "dropWhile is_space (drop (length ?op) ?a)"
  from a have ne: "?op \<noteq> []" and r: "rest = dropWhile is_space (drop (length key) ?b)"
    by (auto simp: scan_record_def Let_def split: if_splits)
  have "length rest \<le> length ?b"
    unfolding r using length_dropWhile_less [of is_space "drop (length key) ?b"] by (simp del: length_take)
  also have "\<dots> \<le> length (drop (length ?op) ?a)" by (rule length_dropWhile_less)
  also have "\<dots> < length ?a"
  proof -
    have "0 < length ?op" using ne by blast
    moreover have "length ?op \<le> length ?a" using length_takeWhile_le [of "Not \<circ> is_space" ?a] by simp
    ultimately show ?thesis unfolding length_drop by linarith
  qed
  also have "\<dots> \<le> length lp" by (rule length_dropWhile_less)
  finally show ?thesis .
qed

function redo_operation :: "string \<Rightarrow> kvdb \<times> kenv \<Rightarrow> (kvdb \<times> kenv) res" where
  "redo_operation lp (db, e) =
     (case scan_record lp of
        None \<Rightarrow> Inr (db, e)
      | Some (operation, key, lp') \<Rightarrow>
          bindE (guardE OutOfBounds (length key < KEY_LENGTH)) (\<lambda>_.
          if operation = ''put'' then
            let (line, lp'') = fgets_line (MAX_LENGTH - 1) lp';
                v = (if line = [] then kvalue e else line)
            in
            bindE (guardE OutOfBounds (v \<noteq> [])) (\<lambda>_.
            bindE (kvdb_put_redo key (butlast v) (db, e\<lparr>kvalue := butlast v\<rparr>)) (\<lambda>s.
            redo_operation lp'' s))
          else if operation = ''get'' then
            bindE (kvdb_get_redo key (db, e)) (\<lambda>s. redo_operation lp' s)
          else Inl Halted))"
  by pat_completeness auto
termination
proof (relation "measure (\<lambda>(lp, s). length lp)", goal_cases)
  case 2
  show ?case using 2(1-3) 2(6,7) by (auto dest!: scan_record_length fgets_line_length [OF sym])
next
  case 3
  show ?case using 3(1-3) by (auto dest!: scan_record_length)
qed simp

declare redo_operation.simps [simp del]

section \<open>Opening and closing\<close>

text \<open>
  \<^verbatim>\<open>strncpy\<close> of \<open>n\<close> characters of a name that has so many: no terminator is written, so that what an
  earlier, longer name left in the array stays behind the copied characters.
\<close>

definition copy_name :: "string \<Rightarrow> string \<Rightarrow> nat \<Rightarrow> string" where
  "copy_name old s n = take n s @ drop n old"

definition set_names :: "string \<Rightarrow> kvdb \<Rightarrow> kvdb res" where
  "set_names fname db =
     (let len = length fname in
      bindE (guardE OutOfBounds (3 \<le> len)) (\<lambda>_.
      let db = db\<lparr>kv_filename := copy_name (kv_filename db) fname len,
                  kv_copyname := copy_name (kv_copyname db) fname (len - 3) @ ''.dbc'',
                  kv_logname := copy_name (kv_logname db) fname (len - 3) @ ''.log''\<rparr>
      in
      bindE (guardE OutOfBounds (length (kv_filename db) < FILENAME_LENGTH \<and> length (kv_copyname db) < FILENAME_LENGTH \<and>
        length (kv_logname db) < FILENAME_LENGTH)) (\<lambda>_. Inr db)))"

text \<open>\<^verbatim>\<open>fread\<close> of one struct: an empty file leaves the struct as it was.\<close>

definition fread_db :: "string \<Rightarrow> kvdb \<Rightarrow> kenv \<Rightarrow> kvdb" where
  "fread_db name db e = (case images e name of Some (Some d) \<Rightarrow> d | _ \<Rightarrow> db)"

abbreviation set_image :: "string \<Rightarrow> kvdb option \<Rightarrow> kenv \<Rightarrow> kenv" where
  "set_image name c e \<equiv> e\<lparr>images := (images e)(name \<mapsto> c)\<rparr>"

abbreviation set_log :: "string \<Rightarrow> string \<Rightarrow> kenv \<Rightarrow> kenv" where
  "set_log name t e \<equiv> e\<lparr>logs := (logs e)(name \<mapsto> t)\<rparr>"

definition kvdb_open :: "string \<Rightarrow> kvdb \<times> kenv \<Rightarrow> (int \<times> kvdb \<times> kenv) res" where
  "kvdb_open fname = (\<lambda>(db, e).
     bindE (set_names fname db) (\<lambda>db.
     let fp = kv_filename db; cp = kv_copyname db; lp = kv_logname db in
     bindE
       (if images e cp \<noteq> None \<and> logs e lp \<noteq> None then
          let e = set_image fp None e in
          bindE (redo_operation (the (logs e lp)) (fread_db cp db e, e)) (\<lambda>(db, e).
          let e = set_image fp (Some db) e in
          Inr (db, set_log (kv_logname db) [] e))
        else if images e fp \<noteq> None then
          let e = set_log lp [] (set_image cp None e);
              db = fread_db fp db e
          in Inr (db, set_image cp (Some db) e)
        else
          let e = set_log lp [] (set_image cp None (set_image fp None e))
          in Inr (db, set_image cp (Some db) (set_image fp (Some db) e))) (\<lambda>(db, e).
     Inr (0, db, e\<lparr>tlock := False\<rparr>))))"

definition kvdb_close :: "kvdb \<times> kenv \<Rightarrow> int \<times> kenv" where
  "kvdb_close = (\<lambda>(db, e).
     let e = set_image (kv_filename db) (Some db) e;
         e = e\<lparr>images := (images e)(kv_copyname db := None)\<rparr>;
         e = e\<lparr>logs := (logs e)(kv_logname db := None)\<rparr>
     in (0, e))"

section \<open>The operations\<close>

definition lock_db :: "kenv \<Rightarrow> kenv res" where
  "lock_db e = (if tlock e then Inl Blocked else Inr (e\<lparr>tlock := True\<rparr>))"

definition unlock_db :: "kenv \<Rightarrow> kenv" where
  "unlock_db e = e\<lparr>tlock := False\<rparr>"

text \<open>A line appended to the log, which is created when it is missing.\<close>

definition log_append :: "string \<Rightarrow> string \<Rightarrow> kenv \<Rightarrow> kenv" where
  "log_append name line e = set_log name ((case logs e name of Some t \<Rightarrow> t | None \<Rightarrow> []) @ line) e"

definition put_line :: "string \<Rightarrow> string \<Rightarrow> string" where
  "put_line key v = ''put '' @ key @ '' '' @ v @ [CHR 0x0A]"

definition get_line :: "string \<Rightarrow> string" where
  "get_line key = ''get '' @ key @ '' '' @ [CHR 0x0A]"

definition kvdb_put :: "string \<Rightarrow> string \<Rightarrow> kvdb \<times> kenv \<Rightarrow> (int \<times> kvdb \<times> kenv) res" where
  "kvdb_put key v = (\<lambda>(db, e).
     bindE (lock_db e) (\<lambda>e.
     bindE (drop_old key db) (\<lambda>db.
     bindE (kvdb_alloc db (int (length v)) key) (\<lambda>(r, db).
     if r \<noteq> 0 then Inr (1, db, unlock_db e)
     else
       bindE (fill_writebuf v e) (\<lambda>e.
       bindE (kvdb_write db (nat (kv_size db - 1)) e) (\<lambda>(r, db).
       if r \<noteq> 0 then Inr (1, db, unlock_db e)
       else
         let e = log_append (kv_logname db) (put_line key v) e
         in Inr (0, db, unlock_db e)))))))"

text \<open>\<^verbatim>\<open>kvdb_get\<close> returns a pointer to \<^verbatim>\<open>readbuf\<close> (\<open>True\<close>) or \<^verbatim>\<open>NULL\<close> (\<open>False\<close>).\<close>

definition kvdb_get :: "string \<Rightarrow> kvdb \<times> kenv \<Rightarrow> (bool \<times> kvdb \<times> kenv) res" where
  "kvdb_get key = (\<lambda>(db, e).
     bindE (lock_db e) (\<lambda>e.
     let item_idx = kvdb_search_key db key in
     if item_idx = -1 then Inr (False, db, unlock_db e)
     else
       bindE (kvdb_read db (nat item_idx) e) (\<lambda>(r, e).
       if r \<noteq> 0 then Inr (False, db, unlock_db e)
       else
         bindE (kvdb_free db (nat item_idx)) (\<lambda>(r, db).
         if r \<noteq> 0 then Inr (False, db, unlock_db e)
         else
           let e = log_append (kv_logname db) (get_line key) e
           in Inr (True, db, unlock_db e)))))"

end
