(* ===== verification/Kvdb_Chain.thy ===== *)
theory Kvdb_Chain
  imports Kvdb
begin

text \<open>
  Chains of cells of the database: what the loops of \<^verbatim>\<open>kvdb_alloc\<close>, \<^verbatim>\<open>kvdb_free\<close>, \<^verbatim>\<open>kvdb_read\<close> and
  \<^verbatim>\<open>kvdb_write\<close> do to the list of cells that hold one value.
\<close>

section \<open>Vocabulary\<close>

text \<open>The cells that follow each other from \<open>x\<close> to the end mark \<open>-1\<close>, all of them in use.\<close>

fun chain :: "(nat \<Rightarrow> node) \<Rightarrow> int \<Rightarrow> nat list \<Rightarrow> bool" where
  "chain d x [] \<longleftrightarrow> x = -1"
| "chain d x (n # ns) \<longleftrightarrow> x = int n \<and> n < DATAS_SIZE \<and> n_used (d n) = 1 \<and> chain d (n_next (d n)) ns"

text \<open>A string followed by null characters, and the cells of a chain that hold it in rows.\<close>

definition pad :: "string \<Rightarrow> buffer" where
  "pad v = (\<lambda>i. if i < length v then v ! i else NUL)"

definition holds :: "(nat \<Rightarrow> node) \<Rightarrow> nat list \<Rightarrow> string \<Rightarrow> bool" where
  "holds d ns v \<longleftrightarrow> (\<forall>j<length ns. \<forall>i<DATA_LENGTH. n_data (d (ns ! j)) i = pad v (j * DATA_LENGTH + i))"

definition free_cells :: "kvdb \<Rightarrow> nat set" where
  "free_cells db = {i. i < DATAS_SIZE \<and> n_used (kv_datas db i) = 0}"

definition rows_of :: "string \<Rightarrow> nat" where
  "rows_of v = blocks_of (int (length v))"

lemma DATA_LENGTH_pos [simp]: "0 < DATA_LENGTH"
  by (simp add: DATA_LENGTH_def)

lemma blocks_of_nat: "blocks_of (int n) = (n + (DATA_LENGTH - 1)) div DATA_LENGTH"
proof -
  have "int n + int DATA_LENGTH - 1 = int (n + (DATA_LENGTH - 1))" by (simp add: DATA_LENGTH_def)
  then show ?thesis unfolding blocks_of_def by (simp only: zdiv_int [symmetric] nat_int)
qed

lemma rows_of_le: "length v \<le> rows_of v * DATA_LENGTH"
  unfolding rows_of_def blocks_of_nat by (simp add: DATA_LENGTH_def)

lemma rows_of_inner: "j < rows_of v \<Longrightarrow> j * DATA_LENGTH < length v"
  unfolding rows_of_def blocks_of_nat by (simp add: DATA_LENGTH_def)

lemma rows_end: "length v < rows_of v * DATA_LENGTH \<longleftrightarrow> length v mod DATA_LENGTH \<noteq> 0"
proof -
  define q r where "q = length v div DATA_LENGTH" and "r = length v mod DATA_LENGTH"
  have l: "length v = q * DATA_LENGTH + r" "r < DATA_LENGTH" by (simp_all add: q_def r_def)
  have "rows_of v = q + (r + (DATA_LENGTH - 1)) div DATA_LENGTH"
    unfolding rows_of_def blocks_of_nat l(1) by (simp add: add.assoc)
  moreover have "(r + (DATA_LENGTH - 1)) div DATA_LENGTH = (if r = 0 then 0 else 1)"
    using l(2) by (simp add: DATA_LENGTH_def div_nat_eqI)
  ultimately show ?thesis using l by (simp add: r_def [symmetric])
qed

lemma in_datas_int [simp]: "in_datas (int n) \<longleftrightarrow> n < DATAS_SIZE"
  by (simp add: in_datas_def)

lemma finite_free_cells [simp]: "finite (free_cells db)"
  by (simp add: free_cells_def)

lemma kv_datas_upd_node [simp]: "kv_datas (upd_node i f db) = (kv_datas db)(i := f (kv_datas db i))"
  by (simp add: upd_node_def)

lemma upd_node_fields [simp]:
  "kv_items (upd_node i f db) = kv_items db" "kv_size (upd_node i f db) = kv_size db"
  "kv_logname (upd_node i f db) = kv_logname db" "kv_filename (upd_node i f db) = kv_filename db"
  "kv_copyname (upd_node i f db) = kv_copyname db"
  by (simp_all add: upd_node_def)

lemma chain_cong:
  "(\<And>i. i \<in> set ns \<Longrightarrow> n_used (d' i) = n_used (d i) \<and> n_next (d' i) = n_next (d i)) \<Longrightarrow> chain d' x ns = chain d x ns"
  by (induction ns arbitrary: x) auto

lemma chain_fun_upd [simp]: "n \<notin> set ns \<Longrightarrow> chain (d(n := c)) x ns = chain d x ns"
  by (rule chain_cong) auto

lemma chain_bound: "chain d x ns \<Longrightarrow> i \<in> set ns \<Longrightarrow> i < DATAS_SIZE \<and> n_used (d i) = 1"
  by (induction ns arbitrary: x) auto

lemma holds_cong: "(\<And>i. i \<in> set ns \<Longrightarrow> n_data (d' i) = n_data (d i)) \<Longrightarrow> holds d' ns v = holds d ns v"
  by (simp add: holds_def)

section \<open>Taking cells\<close>

definition free_above :: "kvdb \<Rightarrow> int \<Rightarrow> nat set" where
  "free_above db k = {i \<in> free_cells db. k < int i}"

lemma get_unused_Some:
  assumes "-1 \<le> k" and "free_above db k \<noteq> {}"
  shows "\<exists>j. kvdb_get_unused_idx db (k + 1) = int j \<and> j \<in> free_above db k \<and> free_above db k = insert j (free_above db (int j))"
proof -
  let ?P = "\<lambda>i. n_used (kv_datas db i) = 0"
  from assms obtain i where i: "i < DATAS_SIZE" "?P i" "k < int i" by (auto simp: free_above_def free_cells_def)
  then have "nat (k + 1) \<le> i" by linarith
  then obtain j where j: "first_idx ?P (nat (k + 1)) DATAS_SIZE = Some j" using first_idx_ex [of "nat (k + 1)" i DATAS_SIZE ?P] i by blast
  note D = first_idx_SomeD [OF j]
  have "k < int j" using D assms(1) by linarith
  then have mem: "j \<in> free_above db k" using D by (simp add: free_above_def free_cells_def)
  have "i = j \<or> int j < int i" if "i \<in> free_above db k" for i
  proof (rule ccontr)
    assume "\<not> (i = j \<or> int j < int i)"
    moreover have "k < int i" using that by (simp add: free_above_def)
    then have "nat (k + 1) \<le> i" by linarith
    ultimately show False using D that by (auto simp: free_above_def free_cells_def)
  qed
  then have "free_above db k = insert j (free_above db (int j))" using mem \<open>k < int j\<close> by (auto simp: free_above_def)
  moreover have "kvdb_get_unused_idx db (k + 1) = int j" using assms(1) j by (simp add: kvdb_get_unused_idx_def)
  ultimately show ?thesis using mem by blast
qed

lemma get_unused_None: "-1 \<le> k \<Longrightarrow> free_above db k = {} \<Longrightarrow> kvdb_get_unused_idx db (k + 1) = -1"
proof -
  assume k: "-1 \<le> k" and e: "free_above db k = {}"
  have "first_idx (\<lambda>i. n_used (kv_datas db i) = 0) (nat (k + 1)) DATAS_SIZE = None"
    unfolding first_idx_None_iff
  proof (intro allI impI)
    fix j assume j: "nat (k + 1) \<le> j \<and> j < DATAS_SIZE"
    then have "k < int j" using k by linarith
    then show "n_used (kv_datas db j) \<noteq> 0" using e j by (auto simp: free_above_def free_cells_def)
  qed
  then show ?thesis by (simp add: kvdb_get_unused_idx_def)
qed

lemma finite_free_above [simp]: "finite (free_above db k)"
  by (simp add: free_above_def)

lemma alloc_loop_Some:
  assumes "-1 \<le> k" and "n \<le> card (free_above db k)" and "length vec + n \<le> ROWS"
  shows "\<exists>ns. alloc_loop n k vec db = Inr (Some (vec @ map int ns)) \<and> length ns = n \<and> distinct ns \<and> set ns \<subseteq> free_above db k"
  using assms
proof (induction n arbitrary: k vec)
  case (Suc n)
  have "free_above db k \<noteq> {}" using Suc.prems(2) by auto
  then obtain j where j: "kvdb_get_unused_idx db (k + 1) = int j" "j \<in> free_above db k"
    "free_above db k = insert j (free_above db (int j))"
    using get_unused_Some Suc.prems(1) by blast
  have nin: "j \<notin> free_above db (int j)" by (simp add: free_above_def)
  then have "n \<le> card (free_above db (int j))" using Suc.prems(2) by (simp add: j(3))
  then obtain ns where ns: "alloc_loop n (int j) (vec @ [int j]) db = Inr (Some ((vec @ [int j]) @ map int ns))"
    "length ns = n" "distinct ns" "set ns \<subseteq> free_above db (int j)"
    using Suc.IH [of "int j" "vec @ [int j]"] Suc.prems(3) by auto
  have "set (j # ns) \<subseteq> free_above db k" using ns(4) j(2,3) by auto
  moreover have "distinct (j # ns)" using ns(3,4) nin by auto
  moreover have "alloc_loop (Suc n) k vec db = Inr (Some (vec @ map int (j # ns)))"
    using Suc.prems(3) ns(1) by (simp add: j(1) Let_def)
  ultimately show ?case using ns(2) by (intro exI [of _ "j # ns"]) simp
qed simp

lemma alloc_loop_None:
  assumes "-1 \<le> k" and "card (free_above db k) < n" and "length vec + n \<le> ROWS"
  shows "alloc_loop n k vec db = Inr None"
  using assms
proof (induction n arbitrary: k vec)
  case (Suc n)
  show ?case
  proof (cases "free_above db k = {}")
    case True
    then show ?thesis using get_unused_None Suc.prems(1) by simp
  next
    case False
    then obtain j where j: "kvdb_get_unused_idx db (k + 1) = int j" "free_above db k = insert j (free_above db (int j))"
      using get_unused_Some Suc.prems(1) by blast
    have "j \<notin> free_above db (int j)" by (simp add: free_above_def)
    then have "card (free_above db (int j)) < n" using Suc.prems(2) by (simp add: j(2))
    then show ?thesis using Suc.IH [of "int j" "vec @ [int j]"] Suc.prems(3) by (simp add: j(1) Let_def)
  qed
qed simp

lemma free_above_all: "free_above db (-1) = free_cells db"
  by (auto simp: free_above_def)

lemma link_loop_links:
  assumes "distinct ns" and "set ns \<subseteq> {..<DATAS_SIZE}"
  shows "\<exists>d. link_loop (map int ns @ [-1]) db = db\<lparr>kv_datas := d\<rparr> \<and> chain d ((map int ns @ [-1]) ! 0) ns \<and>
    (\<forall>i. i \<notin> set ns \<longrightarrow> d i = kv_datas db i)"
  using assms
proof (induction ns arbitrary: db)
  case Nil
  then show ?case by (intro exI [of _ "kv_datas db"]) simp
next
  case (Cons n ns)
  let ?y = "(map int ns @ [-1]) ! 0"
  let ?db = "upd_node n (\<lambda>c. c\<lparr>n_used := 1, n_next := ?y\<rparr>) db"
  have eq: "link_loop (map int (n # ns) @ [-1]) db = link_loop (map int ns @ [-1]) ?db"
    by (cases ns) simp_all
  obtain d where d: "link_loop (map int ns @ [-1]) ?db = ?db\<lparr>kv_datas := d\<rparr>" "chain d ?y ns"
    "\<forall>i. i \<notin> set ns \<longrightarrow> d i = kv_datas ?db i"
    using Cons.IH [of ?db] Cons.prems by auto
  have "d n = (kv_datas db n)\<lparr>n_used := 1, n_next := ?y\<rparr>" using d(3) Cons.prems(1) by simp
  then show ?case using d Cons.prems unfolding eq by (intro exI [of _ d]) (simp add: upd_node_def)
qed

section \<open>Freeing, writing and reading a chain\<close>

lemma free_loop_chain:
  assumes "chain (kv_datas db) x ns" and "distinct ns"
  shows "free_loop (length ns) x db =
    Inr (-1, db\<lparr>kv_datas := \<lambda>i. if i \<in> set ns then (kv_datas db i)\<lparr>n_used := 0\<rparr> else kv_datas db i\<rparr>)"
  using assms
proof (induction ns arbitrary: x db)
  case (Cons n ns)
  let ?db = "upd_node n (\<lambda>c. c\<lparr>n_used := 0\<rparr>) db"
  have "chain (kv_datas ?db) (n_next (kv_datas db n)) ns"
    using Cons.prems by simp
  note IH = Cons.IH [OF this]
  have "(\<lambda>i. if i \<in> set ns then (kv_datas ?db i)\<lparr>n_used := 0\<rparr> else kv_datas ?db i) =
    (\<lambda>i. if i \<in> set (n # ns) then (kv_datas db i)\<lparr>n_used := 0\<rparr> else kv_datas db i)"
    using Cons.prems(2) by auto
  then show ?case using IH Cons.prems by (simp add: upd_node_def)
qed simp

lemma strncpy_cong: "(\<And>j. j \<le> i \<Longrightarrow> a j = b j) \<Longrightarrow> strncpy_buf d a n i = strncpy_buf d b n i"
  by (auto simp: strncpy_buf_def)

text \<open>Copying a row of a buffer that holds a string without null characters gives the row of the padded string.\<close>

lemma strncpy_row:
  assumes v: "NUL \<notin> set v" and b: "\<And>i. i \<le> length v \<Longrightarrow> i < (r + 1) * DATA_LENGTH \<Longrightarrow> b i = pad v i"
    and r: "r * DATA_LENGTH \<le> length v" and i: "i < DATA_LENGTH"
  shows "strncpy_buf d (row b r) DATA_LENGTH i = pad v (r * DATA_LENGTH + i)"
proof -
  let ?o = "r * DATA_LENGTH"
  have nz: "j < length v \<Longrightarrow> v ! j \<noteq> NUL" for j using v by (metis nth_mem)
  have b': "row b r j = pad v (?o + j)" if "?o + j \<le> length v" "j < DATA_LENGTH" for j
    using b [of "?o + j"] that by (simp add: row_def)
  show ?thesis
  proof (cases "?o + i \<le> length v")
    case True
    have "row b r j \<noteq> NUL" if "j < i" for j using b' [of j] nz [of "?o + j"] True that i by (simp add: pad_def)
    then show ?thesis using b' [OF True i] i by (auto simp: strncpy_buf_def)
  next
    case False
    let ?j = "length v - ?o"
    have "row b r ?j = NUL" "?j < i" using b' [of ?j] False r i by (simp_all add: pad_def)
    then show ?thesis using False i by (auto simp: strncpy_buf_def pad_def)
  qed
qed

lemma write_rows_chain:
  assumes "chain (kv_datas db) x ns" and "distinct ns" and "cnt + length ns \<le> ROWS"
  shows "\<exists>d. write_rows (length ns) cnt x b db = Inr (-1, db\<lparr>kv_datas := d\<rparr>) \<and>
    (\<forall>i. n_used (d i) = n_used (kv_datas db i) \<and> n_next (d i) = n_next (kv_datas db i)) \<and>
    (\<forall>i. i \<notin> set ns \<longrightarrow> d i = kv_datas db i) \<and>
    (\<forall>j<length ns. n_data (d (ns ! j)) = strncpy_buf (n_data (kv_datas db (ns ! j))) (row b (cnt + j)) DATA_LENGTH)"
  using assms
proof (induction ns arbitrary: cnt x db)
  case Nil
  then show ?case by (intro exI [of _ "kv_datas db"]) simp
next
  case (Cons n ns)
  let ?db = "upd_node n (\<lambda>c. c\<lparr>n_data := strncpy_buf (n_data c) (row b cnt) DATA_LENGTH\<rparr>) db"
  have "chain (kv_datas ?db) (n_next (kv_datas db n)) ns"
    using Cons.prems(1,2) by simp
  moreover have "distinct ns" "cnt + 1 + length ns \<le> ROWS" using Cons.prems(2,3) by auto
  ultimately obtain d where d: "write_rows (length ns) (cnt + 1) (n_next (kv_datas db n)) b ?db = Inr (-1, ?db\<lparr>kv_datas := d\<rparr>)"
    "\<forall>i. n_used (d i) = n_used (kv_datas ?db i) \<and> n_next (d i) = n_next (kv_datas ?db i)"
    "\<forall>i. i \<notin> set ns \<longrightarrow> d i = kv_datas ?db i"
    "\<forall>j<length ns. n_data (d (ns ! j)) = strncpy_buf (n_data (kv_datas ?db (ns ! j))) (row b (cnt + 1 + j)) DATA_LENGTH"
    using Cons.IH [of ?db "n_next (kv_datas db n)" "cnt + 1"] by blast
  have nn: "n \<notin> set ns" using Cons.prems(2) by simp
  then have ne: "ns ! j \<noteq> n" if "j < length ns" for j using that nth_mem by metis
  have "n_data (d ((n # ns) ! j)) = strncpy_buf (n_data (kv_datas db ((n # ns) ! j))) (row b (cnt + j)) DATA_LENGTH"
    if "j < length (n # ns)" for j
  proof (cases j)
    case 0
    then show ?thesis using d(3) nn by simp
  next
    case (Suc m)
    then show ?thesis using d(4) ne [of m] that by simp
  qed
  moreover have "write_rows (length (n # ns)) cnt x b db = Inr (-1, db\<lparr>kv_datas := d\<rparr>)"
    using d(1) Cons.prems(1,3) by (simp add: upd_node_def)
  ultimately show ?case using d(2,3) by (intro exI [of _ d]) auto
qed

lemma write_rows_holds:
  assumes c: "chain (kv_datas db) x ns" and ds: "distinct ns" and len: "length ns = rows_of v" and r: "rows_of v \<le> ROWS"
    and v: "NUL \<notin> set v"
  shows "\<exists>d. write_rows (rows_of v) 0 x (strcpy_buf b v) db = Inr (-1, db\<lparr>kv_datas := d\<rparr>) \<and> chain d x ns \<and> holds d ns v \<and>
    (\<forall>i. n_used (d i) = n_used (kv_datas db i)) \<and> (\<forall>i. i \<notin> set ns \<longrightarrow> d i = kv_datas db i)"
proof -
  from write_rows_chain [OF c ds, of 0 "strcpy_buf b v"] len r obtain d where
    d: "write_rows (rows_of v) 0 x (strcpy_buf b v) db = Inr (-1, db\<lparr>kv_datas := d\<rparr>)"
    "\<forall>i. n_used (d i) = n_used (kv_datas db i) \<and> n_next (d i) = n_next (kv_datas db i)"
    "\<forall>i. i \<notin> set ns \<longrightarrow> d i = kv_datas db i"
    "\<forall>j<length ns. n_data (d (ns ! j)) = strncpy_buf (n_data (kv_datas db (ns ! j))) (row (strcpy_buf b v) j) DATA_LENGTH"
    by auto
  have "holds d ns v"
    unfolding holds_def
  proof (intro allI impI)
    fix j i assume j: "j < length ns" and i: "i < DATA_LENGTH"
    have "j * DATA_LENGTH \<le> length v" using rows_of_inner [of j v] j len by simp
    then show "n_data (d (ns ! j)) i = pad v (j * DATA_LENGTH + i)"
      using d(4) j strncpy_row [OF v, of j "strcpy_buf b v" i] i by (simp add: strcpy_buf_def pad_def)
  qed
  moreover have "chain d x ns" using c d(2) chain_cong [of ns d "kv_datas db"] by simp
  ultimately show ?thesis using d by blast
qed

lemma read_rows_holds:
  assumes "chain (kv_datas db) x ns" and "cnt + length ns = rows_of v" and "rows_of v \<le> ROWS" and "NUL \<notin> set v"
    and "\<And>j i. j < length ns \<Longrightarrow> i < DATA_LENGTH \<Longrightarrow> n_data (kv_datas db (ns ! j)) i = pad v ((cnt + j) * DATA_LENGTH + i)"
  shows "\<exists>b'. read_rows (length ns) cnt x db b = Inr (-1, b') \<and>
    (\<forall>i. b' i = (if cnt * DATA_LENGTH \<le> i \<and> i < rows_of v * DATA_LENGTH then pad v i else b i))"
  using assms
proof (induction ns arbitrary: cnt x b)
  case Nil
  then show ?case by (intro exI [of _ b]) auto
next
  case (Cons n ns)
  let ?c = "strncpy_buf (row b cnt) (n_data (kv_datas db n)) DATA_LENGTH"
  let ?b = "set_row b cnt ?c"
  have inner: "cnt * DATA_LENGTH < length v" using rows_of_inner [of cnt v] Cons.prems(2) by simp
  have cpy: "?c i = pad v (cnt * DATA_LENGTH + i)" if "i < DATA_LENGTH" for i
  proof -
    have "n_data (kv_datas db n) j = row (pad v) cnt j" if "j < DATA_LENGTH" for j
      using Cons.prems(5) [of 0 j] that by (simp add: row_def)
    then have eq: "?c i = strncpy_buf (row b cnt) (row (pad v) cnt) DATA_LENGTH i"
      using that by (intro strncpy_cong) simp
    show ?thesis unfolding eq using strncpy_row [OF Cons.prems(4), of cnt "pad v" i] inner that by simp
  qed
  have row: "?b i = (if cnt * DATA_LENGTH \<le> i \<and> i < (cnt + 1) * DATA_LENGTH then pad v i else b i)" for i
  proof (cases "i div DATA_LENGTH = cnt")
    case True
    then have "cnt * DATA_LENGTH + i mod DATA_LENGTH = i" using div_mult_mod_eq [of i DATA_LENGTH] by simp
    moreover have "i < (cnt + 1) * DATA_LENGTH" using True div_less_iff_less_mult [OF DATA_LENGTH_pos, of i "cnt + 1"] by simp
    moreover have "cnt * DATA_LENGTH \<le> i" using True by (metis div_times_less_eq_dividend)
    ultimately show ?thesis using True cpy [of "i mod DATA_LENGTH"] by (simp add: set_row_def)
  next
    case False
    then have "\<not> (cnt * DATA_LENGTH \<le> i \<and> i < (cnt + 1) * DATA_LENGTH)"
      using div_nat_eqI [of DATA_LENGTH cnt i] by (auto simp: mult.commute)
    then show ?thesis using False by (auto simp: set_row_def)
  qed
  have tl: "chain (kv_datas db) (n_next (kv_datas db n)) ns" using Cons.prems(1) by simp
  have "n_data (kv_datas db (ns ! j)) i = pad v ((cnt + 1 + j) * DATA_LENGTH + i)" if "j < length ns" "i < DATA_LENGTH" for j i
    using Cons.prems(5) [of "Suc j" i] that by simp
  then obtain b' where b': "read_rows (length ns) (cnt + 1) (n_next (kv_datas db n)) db ?b = Inr (-1, b')"
    "\<forall>i. b' i = (if (cnt + 1) * DATA_LENGTH \<le> i \<and> i < rows_of v * DATA_LENGTH then pad v i else ?b i)"
    using Cons.IH [OF tl, of "cnt + 1" ?b] Cons.prems(2,3,4) by auto
  have le: "(cnt + 1) * DATA_LENGTH \<le> rows_of v * DATA_LENGTH" using Cons.prems(2) by (intro mult_le_mono1) simp
  have "b' i = (if cnt * DATA_LENGTH \<le> i \<and> i < rows_of v * DATA_LENGTH then pad v i else b i)" for i
    unfolding b'(2) [rule_format, of i] row using le by auto
  then show ?case using b'(1) Cons.prems(1-3) by auto
qed

end
