(* ===== verification/Kvdb_Correct.thy ===== *)
theory Kvdb_Correct
  imports Kvdb_Chain "HOL-Library.Multiset"
begin

text \<open>
  The database as a map from keys to values: the representation invariant of the struct, and what
  \<^verbatim>\<open>kvdb_put\<close> and \<^verbatim>\<open>kvdb_get\<close> do to the map, on every path.
\<close>

section \<open>The representation of a map\<close>

text \<open>An entry is a key, its value, and the cells that hold the value.\<close>

type_synonym entry = "string \<times> string \<times> nat list"

definition entry_ok :: "(nat \<Rightarrow> node) \<Rightarrow> item_t \<Rightarrow> entry \<Rightarrow> bool" where
  "entry_ok d it x = (case x of (k, v, ns) \<Rightarrow>
     it_key it = k \<and> it_size it = int (length v) \<and> NUL \<notin> set v \<and> rows_of v < ROWS \<and>
     length ns = rows_of v \<and> chain d (it_head it) ns \<and> holds d ns v)"

definition entry_cells :: "entry list \<Rightarrow> nat list" where
  "entry_cells es = concat (map (snd \<circ> snd) es)"

definition contents :: "entry list \<Rightarrow> string \<Rightarrow> string option" where
  "contents es = map_of (map (\<lambda>(k, v, ns). (k, v)) es)"

definition rep :: "kvdb \<Rightarrow> entry list \<Rightarrow> bool" where
  "rep db es \<longleftrightarrow>
     kv_size db = int (length es) \<and> length es \<le> ITEMS_SIZE \<and>
     (\<forall>i<length es. entry_ok (kv_datas db) (kv_items db i) (es ! i)) \<and>
     distinct (map fst es) \<and> distinct (entry_cells es) \<and>
     (\<forall>i<DATAS_SIZE. n_used (kv_datas db i) \<noteq> 0 \<longleftrightarrow> i \<in> set (entry_cells es))"

text \<open>The struct stores the map \<open>m\<close>.\<close>

definition stores :: "kvdb \<Rightarrow> (string \<Rightarrow> string option) \<Rightarrow> bool" where
  "stores db m \<longleftrightarrow> (\<exists>es. rep db es \<and> m = contents es)"

lemma entry_cells_simps [simp]:
  "entry_cells [] = []" "entry_cells (x # es) = snd (snd x) @ entry_cells es" "entry_cells (es @ fs) = entry_cells es @ entry_cells fs"
  by (simp_all add: entry_cells_def)

lemma mset_cells: "mset (entry_cells es) = (\<Sum>x\<in>#mset es. mset (snd (snd x)))"
  by (induction es) simp_all

lemma cells_nth: "i < length es \<Longrightarrow> es ! i = (k, v, ns) \<Longrightarrow> set ns \<subseteq> set (entry_cells es)"
  using nth_mem [of i es] by (force simp: entry_cells_def)

lemma contents_iff:
  "distinct (map fst es) \<Longrightarrow> contents es k = Some v \<longleftrightarrow> (\<exists>ns. (k, v, ns) \<in> set es)"
proof -
  assume d: "distinct (map fst es)"
  have "map fst (map (\<lambda>(k, v, ns). (k, v)) es) = map fst es" by auto
  then have "distinct (map fst (map (\<lambda>(k, v, ns). (k, v)) es))" using d by (simp only:)
  then have "contents es k = Some v \<longleftrightarrow> (k, v) \<in> set (map (\<lambda>(k, v, ns). (k, v)) es)"
    unfolding contents_def by (rule map_of_eq_Some_iff)
  also have "\<dots> \<longleftrightarrow> (\<exists>ns. (k, v, ns) \<in> set es)" by force
  finally show ?thesis .
qed

lemma contents_None: "contents es k = None \<longleftrightarrow> k \<notin> fst ` set es"
  unfolding contents_def map_of_eq_None_iff by force

lemma dom_contents: "dom (contents es) = fst ` set es"
  using contents_None by (force simp: dom_def)

lemma repD:
  assumes "rep db es"
  shows "kv_size db = int (length es)" and "length es \<le> ITEMS_SIZE" and "distinct (map fst es)" and "distinct (entry_cells es)"
    and "\<And>i k v ns. i < length es \<Longrightarrow> es ! i = (k, v, ns) \<Longrightarrow> entry_ok (kv_datas db) (kv_items db i) (k, v, ns)"
    and "\<And>i. i < DATAS_SIZE \<Longrightarrow> n_used (kv_datas db i) \<noteq> 0 \<longleftrightarrow> i \<in> set (entry_cells es)"
  using assms unfolding rep_def by metis+

lemma rep_cells_bound: "rep db es \<Longrightarrow> i \<in> set (entry_cells es) \<Longrightarrow> i < DATAS_SIZE"
proof -
  assume r: "rep db es" and "i \<in> set (entry_cells es)"
  then obtain k v ns where m: "(k, v, ns) \<in> set es" "i \<in> set ns" by (auto simp: entry_cells_def)
  then obtain j where "j < length es" "es ! j = (k, v, ns)" by (metis in_set_conv_nth)
  then show ?thesis using repD(5) [OF r] m(2) chain_bound by (fastforce simp: entry_ok_def)
qed

lemma rep_free_cells: "rep db es \<Longrightarrow> free_cells db = {..<DATAS_SIZE} - set (entry_cells es)"
  using repD(6) by (fastforce simp: free_cells_def)

lemma rep_card_free: "rep db es \<Longrightarrow> card (free_cells db) = DATAS_SIZE - length (entry_cells es)"
proof -
  assume r: "rep db es"
  have "set (entry_cells es) \<subseteq> {..<DATAS_SIZE}" using rep_cells_bound [OF r] by auto
  then show ?thesis
    using rep_free_cells [OF r] distinct_card [OF repD(4) [OF r]] by (simp add: card_Diff_subset)
qed

lemma length_cells_le: "rep db es \<Longrightarrow> length (entry_cells es) \<le> DATAS_SIZE"
proof -
  assume r: "rep db es"
  have "card (set (entry_cells es)) \<le> card {..<DATAS_SIZE}" using rep_cells_bound [OF r] by (intro card_mono) auto
  then show ?thesis using distinct_card [OF repD(4) [OF r]] by simp
qed

text \<open>Entries stay in place when their cells do.\<close>

lemma entry_ok_cong:
  assumes "\<And>i. i \<in> set ns \<Longrightarrow> d' i = d i"
  shows "entry_ok d' it (k, v, ns) = entry_ok d it (k, v, ns)"
proof -
  have "chain d' x ns = chain d x ns" "holds d' ns v = holds d ns v" for x
    by (rule chain_cong holds_cong, simp add: assms)+
  then show ?thesis by (simp add: entry_ok_def)
qed

section \<open>Searching and removing\<close>

lemma search_key_found:
  assumes r: "rep db es" and i: "i < length es" "fst (es ! i) = key"
  shows "kvdb_search_key db key = int i"
proof -
  have keys: "it_key (kv_items db j) = fst (es ! j)" if "j < length es" for j
    using repD(5) [OF r that] by (cases "es ! j") (auto simp: entry_ok_def)
  have "first_idx (\<lambda>i. it_key (kv_items db i) = key) 0 (nat (kv_size db)) = Some i"
  proof (rule first_idx_eqI)
    show "i < nat (kv_size db)" using i repD(1) [OF r] by simp
    show "it_key (kv_items db i) = key" using keys i by simp
    show "it_key (kv_items db j) \<noteq> key" if "j < i" for j
    proof
      assume "it_key (kv_items db j) = key"
      then have "map fst es ! j = map fst es ! i" using keys that i by simp
      then show False using nth_eq_iff_index_eq [OF repD(3) [OF r], of j i] that i(1) by simp
    qed
  qed simp
  then show ?thesis by (simp add: kvdb_search_key_def)
qed

lemma search_key_missing:
  assumes r: "rep db es" and "contents es key = None"
  shows "kvdb_search_key db key = -1"
proof -
  have "it_key (kv_items db j) \<noteq> key" if "j < length es" for j
    using repD(5) [OF r that] assms(2) nth_mem [OF that] unfolding contents_None
    by (cases "es ! j") (force simp: entry_ok_def)
  then have "first_idx (\<lambda>i. it_key (kv_items db i) = key) 0 (nat (kv_size db)) = None"
    unfolding first_idx_None_iff using repD(1) [OF r] by simp
  then show ?thesis by (simp add: kvdb_search_key_def)
qed

text \<open>Entry \<open>i\<close> goes and the last entry takes its place.\<close>

definition remove_entry :: "nat \<Rightarrow> entry list \<Rightarrow> entry list" where
  "remove_entry i es = butlast (es[i := last es])"

lemma remove_entry_mid:
  "es = xs @ x # zs \<Longrightarrow> i = length xs \<Longrightarrow> remove_entry i es = xs @ (if zs = [] then [] else last zs # butlast zs)"
  by (cases zs rule: rev_cases) (auto simp: remove_entry_def butlast_append)

lemma remove_entry_split:
  assumes "i < length es"
  obtains xs zs where "es = xs @ es ! i # zs" and "remove_entry i es = xs @ (if zs = [] then [] else last zs # butlast zs)"
proof
  show "es = take i es @ es ! i # drop (Suc i) es" by (rule id_take_nth_drop [OF assms])
  then show "remove_entry i es = take i es @
      (if drop (Suc i) es = [] then [] else last (drop (Suc i) es) # butlast (drop (Suc i) es))"
    by (rule remove_entry_mid) (use assms in simp)
qed

lemma remove_entry_facts:
  assumes i: "i < length es" and d: "distinct (map fst es)" and c: "distinct (entry_cells es)"
  shows "length (remove_entry i es) = length es - 1" and "distinct (map fst (remove_entry i es))"
    and "distinct (entry_cells (remove_entry i es))" and "set (remove_entry i es) = set es - {es ! i}"
    and "set (entry_cells (remove_entry i es)) = set (entry_cells es) - set (snd (snd (es ! i)))"
    and "length (entry_cells es) = length (entry_cells (remove_entry i es)) + length (snd (snd (es ! i)))"
proof -
  obtain xs zs where s: "es = xs @ es ! i # zs" "remove_entry i es = xs @ (if zs = [] then [] else last zs # butlast zs)"
    by (rule remove_entry_split [OF i])
  define x where "x = es ! i"
  have e: "es = xs @ x # zs" unfolding x_def by (rule s(1))
  define zs' where "zs' = (if zs = [] then [] else last zs # butlast zs)"
  have r: "remove_entry i es = xs @ zs'" using s(2) by (simp add: zs'_def)
  have perm: "mset zs' = mset zs"
    by (cases zs rule: rev_cases) (simp_all add: zs'_def)
  have m: "mset (xs @ zs') = mset (xs @ zs)" by (simp add: perm)
  have mc: "mset (entry_cells (xs @ zs')) = mset (entry_cells (xs @ zs))"
    by (simp only: mset_cells m)
  have mf: "mset (map fst (xs @ zs')) = mset (map fst (xs @ zs))" using m by (metis mset_map)
  have "distinct (map fst (xs @ x # zs))" using d by (simp only: e [symmetric])
  then have d1: "distinct (map fst (xs @ zs))" "fst x \<notin> fst ` set (xs @ zs)" by auto
  have "distinct (entry_cells (xs @ x # zs))" using c by (simp only: e [symmetric])
  then have c1: "distinct (entry_cells (xs @ zs))" "set (snd (snd x)) \<inter> set (entry_cells (xs @ zs)) = {}" by auto
  have es: "set es = insert x (set (xs @ zs))" "set (entry_cells es) = set (snd (snd x)) \<union> set (entry_cells (xs @ zs))"
    "length (entry_cells es) = length (entry_cells (xs @ zs)) + length (snd (snd x))"
    unfolding e by auto
  show "length (remove_entry i es) = length es - 1" by (simp add: remove_entry_def)
  show "distinct (map fst (remove_entry i es))" using d1(1) mset_eq_imp_distinct_iff [OF mf] r by simp
  show "distinct (entry_cells (remove_entry i es))" using c1(1) mset_eq_imp_distinct_iff [OF mc] r by simp
  have "x \<notin> set (xs @ zs)" using d1(2) by force
  then show "set (remove_entry i es) = set es - {es ! i}" using es(1) mset_eq_setD [OF m] r by (auto simp: x_def)
  show "set (entry_cells (remove_entry i es)) = set (entry_cells es) - set (snd (snd (es ! i)))"
    using es(2) c1(2) mset_eq_setD [OF mc] r by (auto simp: x_def)
  show "length (entry_cells es) = length (entry_cells (remove_entry i es)) + length (snd (snd (es ! i)))"
    using es(3) mset_eq_length [OF mc] r by (simp add: x_def)
qed

lemma remove_entry_nth:
  "i < length es \<Longrightarrow> j < length es - 1 \<Longrightarrow> remove_entry i es ! j = (if j = i then last es else es ! j)"
  by (simp add: remove_entry_def nth_butlast nth_list_update)

lemma contents_remove:
  assumes i: "i < length es" and d: "distinct (map fst es)" and c: "distinct (entry_cells es)"
  shows "contents (remove_entry i es) = (contents es)(fst (es ! i) := None)"
proof
  fix k
  note f = remove_entry_facts [OF i d c]
  obtain v ns where x: "es ! i = (fst (es ! i), v, ns)" by (metis prod.collapse)
  have uniq: "y = es ! i" if "y \<in> set es" "fst y = fst (es ! i)" for y
    using eq_key_imp_eq_value d that nth_mem [OF i] by (metis distinct_map inj_onD)
  show "contents (remove_entry i es) k = ((contents es)(fst (es ! i) := None)) k"
  proof (cases "k = fst (es ! i)")
    case True
    have "k \<notin> fst ` set (remove_entry i es)" using f(4) uniq True by auto
    then show ?thesis using contents_None True by simp
  next
    case False
    have "contents (remove_entry i es) k = Some w \<longleftrightarrow> contents es k = Some w" for w
      unfolding contents_iff [OF f(2)] contents_iff [OF d] f(4) using False by (auto, metis fst_conv)
    then have "contents (remove_entry i es) k = contents es k" by (metis option.exhaust)
    then show ?thesis using False by simp
  qed
qed

text \<open>\<^verbatim>\<open>kvdb_free\<close> of an entry succeeds and removes the entry.\<close>

lemma kvdb_free_rep:
  assumes r: "rep db es" and i: "i < length es"
  shows "\<exists>d it. kvdb_free db i = Inr (0, db\<lparr>kv_items := it, kv_size := kv_size db - 1, kv_datas := d\<rparr>) \<and>
    rep (db\<lparr>kv_items := it, kv_size := kv_size db - 1, kv_datas := d\<rparr>) (remove_entry i es)"
proof -
  obtain k v ns where x: "es ! i = (k, v, ns)" by (metis prod.collapse)
  have ok: "entry_ok (kv_datas db) (kv_items db i) (k, v, ns)" by (rule repD(5) [OF r i x])
  note f = remove_entry_facts [OF i repD(3,4) [OF r]]
  have sub: "set ns \<subseteq> set (entry_cells es)" by (rule cells_nth [OF i x])
  have dn: "distinct ns" using repD(4) [OF r] id_take_nth_drop [OF i] x by (metis entry_cells_simps(2,3) distinct_append snd_conv)
  define d where "d = (\<lambda>i. if i \<in> set ns then (kv_datas db i)\<lparr>n_used := 0\<rparr> else kv_datas db i)"
  define it where "it = (kv_items db)(i := kv_items db (length es - 1))"
  let ?db = "db\<lparr>kv_items := it, kv_size := kv_size db - 1, kv_datas := d\<rparr>"
  have fl: "free_loop (blocks_of (it_size (kv_items db i))) (it_head (kv_items db i)) db = Inr (-1, db\<lparr>kv_datas := d\<rparr>)"
    using ok free_loop_chain [of db _ ns] dn by (auto simp: entry_ok_def d_def rows_of_def)
  have sz: "kv_size db = int (length es)" "length es \<le> ITEMS_SIZE" by (rule repD [OF r])+
  have "nat (int (length es) - 1) = length es - 1" by simp
  moreover have ne: "es \<noteq> []" using i by auto
  ultimately have free: "kvdb_free db i = Inr (0, ?db)"
    using sz i by (auto simp: kvdb_free_def fl Let_def upd_item_def it_def)
  have ent: "entry_ok d (it j) (remove_entry i es ! j)" if j: "j < length es - 1" for j
  proof -
    define l where "l = (if j = i then length es - 1 else j)"
    have l: "l < length es" "remove_entry i es ! j = es ! l" "it j = kv_items db l" "l \<noteq> i"
      using j i remove_entry_nth [OF i j] last_conv_nth [OF ne] by (auto simp: l_def it_def)
    obtain k' v' ns' where y: "es ! l = (k', v', ns')" by (metis prod.collapse)
    have "remove_entry i es ! j \<in> set (remove_entry i es)" using j f(1) by simp
    then have "set ns' \<subseteq> set (entry_cells (remove_entry i es))" using l(2) y by (force simp: entry_cells_def)
    then have "set ns' \<inter> set ns = {}" using f(5) x by auto
    then have "entry_ok d (it j) (k', v', ns') = entry_ok (kv_datas db) (it j) (k', v', ns')"
      by (intro entry_ok_cong) (auto simp: d_def)
    then show ?thesis using repD(5) [OF r l(1) y] l(2,3) y by simp
  qed
  have used: "n_used (d j) \<noteq> 0 \<longleftrightarrow> j \<in> set (entry_cells (remove_entry i es))" if "j < DATAS_SIZE" for j
    using repD(6) [OF r that] f(5) x by (auto simp: d_def)
  have "rep ?db (remove_entry i es)"
    using sz i f ent used unfolding rep_def by (auto simp: of_nat_diff)
  with free show ?thesis by blast
qed

lemmas rep_cases = search_key_found search_key_missing

lemma contents_Some_nth:
  assumes "rep db es" and "contents es key = Some v"
  obtains i ns where "i < length es" and "es ! i = (key, v, ns)"
  using assms contents_iff [OF repD(3) [OF assms(1)]] by (metis in_set_conv_nth)

text \<open>The free of the old value in \<^verbatim>\<open>kvdb_put\<close>: afterwards the key is not there, and its cells are free.\<close>

definition room :: "kvdb \<Rightarrow> (string \<Rightarrow> string option) \<Rightarrow> string \<Rightarrow> nat" where
  "room db m key = card (free_cells db) + (case m key of None \<Rightarrow> 0 | Some w \<Rightarrow> rows_of w)"

lemma drop_old_rep:
  assumes r: "rep db es"
  shows "\<exists>d it n es'. drop_old key db = Inr (db\<lparr>kv_items := it, kv_size := n, kv_datas := d\<rparr>) \<and>
    rep (db\<lparr>kv_items := it, kv_size := n, kv_datas := d\<rparr>) es' \<and> contents es' = (contents es)(key := None) \<and>
    card (free_cells (db\<lparr>kv_items := it, kv_size := n, kv_datas := d\<rparr>)) = room db (contents es) key \<and>
    (key \<in> dom (contents es) \<or> length es < ITEMS_SIZE \<longrightarrow> length es' < ITEMS_SIZE)"
proof (cases "contents es key")
  case None
  then have s: "drop_old key db = Inr (db\<lparr>kv_items := kv_items db, kv_size := kv_size db, kv_datas := kv_datas db\<rparr>)"
    using search_key_missing [OF r] by (simp add: drop_old_def)
  have "(contents es)(key := None) = contents es" using None by auto
  then show ?thesis
    using r None s by (intro exI [of _ "kv_datas db"] exI [of _ "kv_items db"] exI [of _ "kv_size db"] exI [of _ es])
      (auto simp: room_def)
next
  case (Some v)
  obtain i ns where i: "i < length es" "es ! i = (key, v, ns)" by (rule contents_Some_nth [OF r Some])
  obtain d it where f: "kvdb_free db i = Inr (0, db\<lparr>kv_items := it, kv_size := kv_size db - 1, kv_datas := d\<rparr>)"
    "rep (db\<lparr>kv_items := it, kv_size := kv_size db - 1, kv_datas := d\<rparr>) (remove_entry i es)"
    using kvdb_free_rep [OF r i(1)] by blast
  let ?db = "db\<lparr>kv_items := it, kv_size := kv_size db - 1, kv_datas := d\<rparr>"
  note g = remove_entry_facts [OF i(1) repD(3,4) [OF r]]
  have "length ns = rows_of v" using repD(5) [OF r i] by (simp add: entry_ok_def)
  then have "card (free_cells ?db) = room db (contents es) key"
    using rep_card_free [OF f(2)] rep_card_free [OF r] g(6) length_cells_le [OF r] i(2) Some by (simp add: room_def)
  moreover have "drop_old key db = Inr ?db" using search_key_found [OF r i(1)] i(2) f(1) by (simp add: drop_old_def)
  moreover have "contents (remove_entry i es) = (contents es)(key := None)"
    using contents_remove [OF i(1) repD(3,4) [OF r]] i(2) by simp
  moreover have "length (remove_entry i es) < ITEMS_SIZE" using g(1) i(1) repD(2) [OF r] by linarith
  ultimately show ?thesis using f(2) by blast
qed

section \<open>Storing a value\<close>

lemma rep_append:
  assumes r: "rep db es" and k: "contents es key = None" and len: "length es < ITEMS_SIZE" and rows: "rows_of v < ROWS"
    and v: "NUL \<notin> set v" and ns: "length ns = rows_of v" "distinct ns" "set ns \<subseteq> free_cells db"
    and it: "it (length es) = \<lparr>it_head = x, it_size = int (length v), it_key = key\<rparr>" "\<And>i. i < length es \<Longrightarrow> it i = kv_items db i"
    and d: "chain d x ns" "holds d ns v" "\<And>i. i \<notin> set ns \<Longrightarrow> d i = kv_datas db i"
  shows "rep (db\<lparr>kv_items := it, kv_size := kv_size db + 1, kv_datas := d\<rparr>) (es @ [(key, v, ns)])"
proof -
  have dis: "set ns \<inter> set (entry_cells es) = {}" using ns(3) rep_free_cells [OF r] by auto
  have "entry_ok d (it i) ((es @ [(key, v, ns)]) ! i)" if i: "i < length (es @ [(key, v, ns)])" for i
  proof (cases "i < length es")
    case True
    obtain k' v' ns' where y: "es ! i = (k', v', ns')" by (metis prod.collapse)
    have "entry_ok d (it i) (k', v', ns') = entry_ok (kv_datas db) (it i) (k', v', ns')"
      using dis cells_nth [OF True y] by (intro entry_ok_cong d(3)) auto
    then show ?thesis using repD(5) [OF r True y] it(2) [OF True] y True by (simp add: nth_append)
  next
    case False
    then have "i = length es" using i by simp
    then show ?thesis using it(1) v rows ns(1) d(1,2) by (simp add: entry_ok_def)
  qed
  moreover have "n_used (d i) \<noteq> 0 \<longleftrightarrow> i \<in> set (entry_cells (es @ [(key, v, ns)]))" if "i < DATAS_SIZE" for i
    using repD(6) [OF r that] d(3) [of i] chain_bound [OF d(1), of i] by (cases "i \<in> set ns") auto
  ultimately show ?thesis
    using repD(1,3,4) [OF r] k len ns(2) dis unfolding rep_def contents_None by auto
qed

lemma kvdb_alloc_rep:
  assumes r: "rep db es" and len: "length es < ITEMS_SIZE" and key: "length key < KEY_LENGTH"
    and rows: "rows_of v < ROWS" and room: "rows_of v \<le> card (free_cells db)"
  shows "\<exists>ns d x. kvdb_alloc db (int (length v)) key =
      Inr (0, db\<lparr>kv_datas := d, kv_items := (kv_items db)(length es := \<lparr>it_head = x, it_size = int (length v), it_key = key\<rparr>),
        kv_size := kv_size db + 1\<rparr>) \<and>
    length ns = rows_of v \<and> distinct ns \<and> set ns \<subseteq> free_cells db \<and> chain d x ns \<and> (\<forall>i. i \<notin> set ns \<longrightarrow> d i = kv_datas db i)"
proof -
  obtain ns where ns: "alloc_loop (rows_of v) (-1) [] db = Inr (Some (map int ns))" "length ns = rows_of v" "distinct ns"
    "set ns \<subseteq> free_cells db"
    using alloc_loop_Some [of "-1" "rows_of v" db "[]"] room rows by (auto simp: free_above_all)
  have "set ns \<subseteq> {..<DATAS_SIZE}" using ns(4) by (auto simp: free_cells_def)
  then obtain d where d: "link_loop (map int ns @ [-1]) db = db\<lparr>kv_datas := d\<rparr>" "chain d ((map int ns @ [-1]) ! 0) ns"
    "\<forall>i. i \<notin> set ns \<longrightarrow> d i = kv_datas db i"
    using link_loop_links [OF ns(3)] by blast
  have "kvdb_alloc db (int (length v)) key =
      Inr (0, db\<lparr>kv_datas := d, kv_items := (kv_items db)(length es := \<lparr>it_head = (map int ns @ [-1]) ! 0,
        it_size = int (length v), it_key = key\<rparr>), kv_size := kv_size db + 1\<rparr>)"
    using ns(1,2) rows key len repD(1) [OF r] unfolding kvdb_alloc_def rows_of_def [symmetric] by (simp add: d(1) Let_def upd_item_def)
  then show ?thesis using ns(2-4) d(2,3) by blast
qed

lemma kvdb_alloc_full:
  "rows_of v < ROWS \<Longrightarrow> card (free_cells db) < rows_of v \<Longrightarrow> kvdb_alloc db (int (length v)) key = Inr (1, db)"
  using alloc_loop_None [of "-1" db "rows_of v" "[]"] by (simp add: kvdb_alloc_def rows_of_def free_above_all)

lemma rows_MAX: "rows_of v < ROWS \<Longrightarrow> length v < MAX_LENGTH"
proof -
  assume "rows_of v < ROWS"
  then have "rows_of v * DATA_LENGTH \<le> (ROWS - 1) * DATA_LENGTH" by (intro mult_le_mono1) simp
  then show ?thesis using rows_of_le [of v] by (simp add: ROWS_def kvdb_consts)
qed

lemma alloc_write_rep:
  assumes r: "rep db es" and len: "length es < ITEMS_SIZE" and key: "length key < KEY_LENGTH" and k: "contents es key = None"
    and rows: "rows_of v < ROWS" and room: "rows_of v \<le> card (free_cells db)" and v: "NUL \<notin> set v"
  shows "\<exists>db1 d it ns. kvdb_alloc db (int (length v)) key = Inr (0, db1) \<and>
    (\<forall>e. writebuf e = strcpy_buf b v \<longrightarrow>
      kvdb_write db1 (nat (kv_size db1 - 1)) e = Inr (0, db\<lparr>kv_items := it, kv_size := kv_size db + 1, kv_datas := d\<rparr>)) \<and>
    rep (db\<lparr>kv_items := it, kv_size := kv_size db + 1, kv_datas := d\<rparr>) (es @ [(key, v, ns)])"
proof -
  obtain ns d x where a: "kvdb_alloc db (int (length v)) key =
      Inr (0, db\<lparr>kv_datas := d, kv_items := (kv_items db)(length es := \<lparr>it_head = x, it_size = int (length v), it_key = key\<rparr>),
        kv_size := kv_size db + 1\<rparr>)"
    "length ns = rows_of v" "distinct ns" "set ns \<subseteq> free_cells db" "chain d x ns" "\<forall>i. i \<notin> set ns \<longrightarrow> d i = kv_datas db i"
    using kvdb_alloc_rep [OF r len key rows room] by blast
  define it where "it = (kv_items db)(length es := \<lparr>it_head = x, it_size = int (length v), it_key = key\<rparr>)"
  define db1 where "db1 = db\<lparr>kv_datas := d, kv_items := it, kv_size := kv_size db + 1\<rparr>"
  have "chain (kv_datas db1) x ns" using a(5) by (simp add: db1_def)
  from write_rows_holds [OF this a(3,2) less_imp_le [OF rows] v, of b] obtain d' where
    w: "write_rows (rows_of v) 0 x (strcpy_buf b v) db1 = Inr (-1, db1\<lparr>kv_datas := d'\<rparr>)" "chain d' x ns" "holds d' ns v"
    "\<forall>i. i \<notin> set ns \<longrightarrow> d' i = kv_datas db1 i" by blast
  have itm: "kv_items db1 (nat (kv_size db1 - 1)) = \<lparr>it_head = x, it_size = int (length v), it_key = key\<rparr>"
    using repD(1) [OF r] by (simp add: db1_def it_def)
  have "kvdb_write db1 (nat (kv_size db1 - 1)) e = Inr (0, db\<lparr>kv_items := it, kv_size := kv_size db + 1, kv_datas := d'\<rparr>)"
    if "writebuf e = strcpy_buf b v" for e
    unfolding kvdb_write_def itm using w(1) that by (simp add: rows_of_def [symmetric]) (simp add: db1_def)
  moreover have "rep (db\<lparr>kv_items := it, kv_size := kv_size db + 1, kv_datas := d'\<rparr>) (es @ [(key, v, ns)])"
    using w(4) a(6) by (intro rep_append [OF r k len rows v a(2,3,4) _ _ w(2,3)]) (auto simp: it_def db1_def)
  moreover have "kvdb_alloc db (int (length v)) key = Inr (0, db1)" using a(1) by (simp add: db1_def it_def)
  ultimately show ?thesis by blast
qed

section \<open>The operations\<close>

lemma card_dom_contents: "rep db es \<Longrightarrow> card (dom (contents es)) = length es"
  using distinct_card [OF repD(3)] by (simp add: dom_contents)

lemma contents_append: "contents es k = None \<Longrightarrow> contents (es @ [(k, v, ns)]) = (contents es)(k \<mapsto> v)"
  unfolding contents_None by (rule ext) (force simp: contents_def map_add_def split: option.splits dest: map_of_SomeD)

lemma room_none: "contents es key = None \<Longrightarrow> room db (contents es) key = card (free_cells db)"
  by (simp add: room_def)

text \<open>
  The struct after \<^verbatim>\<open>kvdb_put\<close> and \<^verbatim>\<open>kvdb_put_redo\<close>, which run the same code on it.  The result depends on nothing
  but the struct, the key and the value.
\<close>

lemma put_core:
  assumes st: "stores db m" and key: "length key < KEY_LENGTH" and v: "NUL \<notin> set v" and rows: "rows_of v < ROWS"
    and items: "key \<in> dom m \<or> card (dom m) < ITEMS_SIZE"
  shows "\<exists>db0 d it n. drop_old key db = Inr db0 \<and> kv_logname db0 = kv_logname db \<and> stores db0 (m(key := None)) \<and>
    (if rows_of v \<le> room db m key then
       \<exists>db1. kvdb_alloc db0 (int (length v)) key = Inr (0, db1) \<and>
         (\<forall>e. writebuf e = strcpy_buf b v \<longrightarrow>
            kvdb_write db1 (nat (kv_size db1 - 1)) e = Inr (0, db\<lparr>kv_items := it, kv_size := n, kv_datas := d\<rparr>)) \<and>
         stores (db\<lparr>kv_items := it, kv_size := n, kv_datas := d\<rparr>) (m(key \<mapsto> v))
     else kvdb_alloc db0 (int (length v)) key = Inr (1, db0))"
proof -
  obtain es where r: "rep db es" and m: "m = contents es" using st by (auto simp: stores_def)
  obtain d it n es' where o: "drop_old key db = Inr (db\<lparr>kv_items := it, kv_size := n, kv_datas := d\<rparr>)"
    "rep (db\<lparr>kv_items := it, kv_size := n, kv_datas := d\<rparr>) es'" "contents es' = (contents es)(key := None)"
    "card (free_cells (db\<lparr>kv_items := it, kv_size := n, kv_datas := d\<rparr>)) = room db (contents es) key"
    "key \<in> dom (contents es) \<or> length es < ITEMS_SIZE \<longrightarrow> length es' < ITEMS_SIZE"
    using drop_old_rep [OF r, of key] by blast
  let ?db = "db\<lparr>kv_items := it, kv_size := n, kv_datas := d\<rparr>"
  have len: "length es' < ITEMS_SIZE" using o(5) items card_dom_contents [OF r] m by metis
  have none: "contents es' key = None" using o(3) by simp
  have s0: "stores ?db (m(key := None))" using o(2,3) m by (auto simp: stores_def)
  show ?thesis
  proof (cases "rows_of v \<le> room db m key")
    case True
    then have "rows_of v \<le> card (free_cells ?db)" using o(4) m by simp
    from alloc_write_rep [OF o(2) len key none rows this v, of b] obtain db1 d' it' ns where
      w: "kvdb_alloc ?db (int (length v)) key = Inr (0, db1)"
      "\<forall>e. writebuf e = strcpy_buf b v \<longrightarrow> kvdb_write db1 (nat (kv_size db1 - 1)) e =
        Inr (0, ?db\<lparr>kv_items := it', kv_size := kv_size ?db + 1, kv_datas := d'\<rparr>)"
      "rep (?db\<lparr>kv_items := it', kv_size := kv_size ?db + 1, kv_datas := d'\<rparr>) (es' @ [(key, v, ns)])" by blast
    have "contents (es' @ [(key, v, ns)]) = m(key \<mapsto> v)" using contents_append [OF none] o(3) m by auto
    then have "stores (db\<lparr>kv_items := it', kv_size := n + 1, kv_datas := d'\<rparr>) (m(key \<mapsto> v))"
      unfolding stores_def using w(3) by (intro exI [of _ "es' @ [(key, v, ns)]"]) simp
    then show ?thesis
      using o(1) s0 w(1,2) True by (intro exI [of _ ?db] exI [of _ d'] exI [of _ it'] exI [of _ "n + 1"]) auto
  next
    case False
    then have "kvdb_alloc ?db (int (length v)) key = Inr (1, ?db)" using kvdb_alloc_full [OF rows] o(4) m by simp
    then show ?thesis using o(1) s0 False by (intro exI [of _ ?db]) simp
  qed
qed

lemma kvdb_put_room:
  assumes st: "stores db m" and lk: "\<not> tlock e" and key: "length key < KEY_LENGTH" and v: "NUL \<notin> set v" and rows: "rows_of v < ROWS"
    and items: "key \<in> dom m \<or> card (dom m) < ITEMS_SIZE" and room: "rows_of v \<le> room db m key"
  shows "\<exists>db' e'. kvdb_put key v (db, e) = Inr (0, db', e') \<and> kv_logname db' = kv_logname db \<and> images e' = images e \<and> \<not> tlock e' \<and>
    stores db' (m(key \<mapsto> v)) \<and> logs e' = logs (log_append (kv_logname db) (put_line key v) e)"
proof -
  obtain db0 db1 d it n where p: "drop_old key db = Inr db0" "kvdb_alloc db0 (int (length v)) key = Inr (0, db1)"
    "\<forall>e'. writebuf e' = strcpy_buf (writebuf e) v \<longrightarrow>
       kvdb_write db1 (nat (kv_size db1 - 1)) e' = Inr (0, db\<lparr>kv_items := it, kv_size := n, kv_datas := d\<rparr>)"
    "stores (db\<lparr>kv_items := it, kv_size := n, kv_datas := d\<rparr>) (m(key \<mapsto> v))"
    using put_core [OF st key v rows items, of "writebuf e"] unfolding if_P [OF room] by blast
  then show ?thesis
    using lk rows_MAX [OF rows] by (simp add: kvdb_put_def lock_db_def unlock_db_def fill_writebuf_def log_append_def)
qed

text \<open>
  C10: \<^verbatim>\<open>kvdb_put\<close> on a well-formed database is an update of the map it stores: when enough cells are free,
  counting those of the old value of the key, it returns 0, the key has the new value, every other key keeps its
  own, and one line is appended to the log.  Otherwise it returns 1 and writes no line, but the old value of the key is
  gone from the struct.  The mutex is free again on both paths.
\<close>

theorem kvdb_put_refines:
  assumes st: "stores db m" and lk: "\<not> tlock e" and key: "length key < KEY_LENGTH" and v: "NUL \<notin> set v" and rows: "rows_of v < ROWS"
    and items: "key \<in> dom m \<or> card (dom m) < ITEMS_SIZE"
  shows "\<exists>r db' e'. kvdb_put key v (db, e) = Inr (r, db', e') \<and> kv_logname db' = kv_logname db \<and> images e' = images e \<and> \<not> tlock e' \<and>
    (if rows_of v \<le> room db m key
     then r = 0 \<and> stores db' (m(key \<mapsto> v)) \<and> logs e' = logs (log_append (kv_logname db) (put_line key v) e)
     else r = 1 \<and> stores db' (m(key := None)) \<and> logs e' = logs e)"
proof (cases "rows_of v \<le> room db m key")
  case True
  then show ?thesis using kvdb_put_room [OF st lk key v rows items True] by auto
next
  case False
  obtain db0 where "drop_old key db = Inr db0" "kv_logname db0 = kv_logname db" "stores db0 (m(key := None))"
    "kvdb_alloc db0 (int (length v)) key = Inr (1, db0)"
    using put_core [OF st key v rows items] False by auto
  then show ?thesis using lk False by (simp add: kvdb_put_def lock_db_def unlock_db_def)
qed

lemma get_missing: "stores db m \<Longrightarrow> m key = None \<Longrightarrow> kvdb_search_key db key = -1"
  using search_key_missing by (auto simp: stores_def)

lemma get_core:
  assumes st: "stores db m" and k: "m key = Some v"
  shows "\<exists>i d it n. kvdb_search_key db key = int i \<and> kvdb_free db i = Inr (0, db\<lparr>kv_items := it, kv_size := n, kv_datas := d\<rparr>) \<and>
    stores (db\<lparr>kv_items := it, kv_size := n, kv_datas := d\<rparr>) (m(key := None)) \<and>
    (\<forall>e. \<exists>b. kvdb_read db i e = Inr (0, e\<lparr>readbuf := b\<rparr>) \<and> (\<forall>i<length v. b i = v ! i) \<and>
      b (length v) = (if length v mod DATA_LENGTH = 0 then readbuf e (length v) else NUL))"
proof -
  obtain es where r: "rep db es" and m: "m = contents es" using st by (auto simp: stores_def)
  have Some: "contents es key = Some v" using k m by simp
  obtain i ns where i: "i < length es" "es ! i = (key, v, ns)" by (rule contents_Some_nth [OF r Some])
  have ok: "entry_ok (kv_datas db) (kv_items db i) (key, v, ns)" by (rule repD(5) [OF r i])
  obtain d it where f: "kvdb_free db i = Inr (0, db\<lparr>kv_items := it, kv_size := kv_size db - 1, kv_datas := d\<rparr>)"
    "rep (db\<lparr>kv_items := it, kv_size := kv_size db - 1, kv_datas := d\<rparr>) (remove_entry i es)"
    using kvdb_free_rep [OF r i(1)] by blast
  have "contents (remove_entry i es) = m(key := None)" using contents_remove [OF i(1) repD(3,4) [OF r]] i(2) m by simp
  then have "stores (db\<lparr>kv_items := it, kv_size := kv_size db - 1, kv_datas := d\<rparr>) (m(key := None))"
    using f(2) unfolding stores_def by metis
  moreover have "\<exists>b. kvdb_read db i e = Inr (0, e\<lparr>readbuf := b\<rparr>) \<and> (\<forall>i<length v. b i = v ! i) \<and>
      b (length v) = (if length v mod DATA_LENGTH = 0 then readbuf e (length v) else NUL)" for e
  proof -
    obtain b where b: "read_rows (length ns) 0 (it_head (kv_items db i)) db (readbuf e) = Inr (-1, b)"
      "\<forall>i. b i = (if i < rows_of v * DATA_LENGTH then pad v i else readbuf e i)"
      using read_rows_holds [of db "it_head (kv_items db i)" ns 0 v "readbuf e"] ok by (auto simp: entry_ok_def holds_def)
    have "kvdb_read db i e = Inr (0, e\<lparr>readbuf := b\<rparr>)" using b(1) ok by (simp add: kvdb_read_def entry_ok_def rows_of_def)
    moreover have "b i = v ! i" if "i < length v" for i using that b(2) rows_of_le [of v] by (simp add: pad_def)
    moreover have "b (length v) = (if length v mod DATA_LENGTH = 0 then readbuf e (length v) else NUL)"
      using b(2) by (simp add: pad_def rows_end)
    ultimately show ?thesis by blast
  qed
  ultimately show ?thesis using search_key_found [OF r i(1)] i(2) f(1) by auto
qed

text \<open>
  C11: \<^verbatim>\<open>kvdb_get\<close> on a well-formed database returns \<^verbatim>\<open>NULL\<close> and changes nothing when the key has no value.  Otherwise it takes the
  value out of the map and leaves it in \<^verbatim>\<open>readbuf\<close>, padded with null characters to a whole number of rows, with
  everything behind these rows as it was: the returned string is the value if its length is not a multiple of the
  row length, and runs on into the remains of earlier reads if it is.
\<close>

theorem kvdb_get_refines:
  assumes st: "stores db m" and lk: "\<not> tlock e"
  shows "case m key of
      None \<Rightarrow> kvdb_get key (db, e) = Inr (False, db, e)
    | Some v \<Rightarrow> \<exists>db' e'. kvdb_get key (db, e) = Inr (True, db', e') \<and> stores db' (m(key := None)) \<and> \<not> tlock e' \<and>
        kv_logname db' = kv_logname db \<and> images e' = images e \<and> logs e' = logs (log_append (kv_logname db) (get_line key) e) \<and>
        (\<forall>i<length v. readbuf e' i = v ! i) \<and>
        readbuf e' (length v) = (if length v mod DATA_LENGTH = 0 then readbuf e (length v) else NUL)"
proof (cases "m key")
  case None
  then show ?thesis using get_missing [OF st None] lk by (simp add: kvdb_get_def lock_db_def unlock_db_def)
next
  case (Some v)
  obtain i d it n where g: "kvdb_search_key db key = int i" "kvdb_free db i = Inr (0, db\<lparr>kv_items := it, kv_size := n, kv_datas := d\<rparr>)"
    "stores (db\<lparr>kv_items := it, kv_size := n, kv_datas := d\<rparr>) (m(key := None))"
    and rd: "\<And>e. \<exists>b. kvdb_read db i e = Inr (0, e\<lparr>readbuf := b\<rparr>) \<and> (\<forall>i<length v. b i = v ! i) \<and>
      b (length v) = (if length v mod DATA_LENGTH = 0 then readbuf e (length v) else NUL)"
    using get_core [OF st Some] by blast
  show ?thesis using rd [of "e\<lparr>tlock := True\<rparr>"] g lk Some by (auto simp: kvdb_get_def lock_db_def unlock_db_def log_append_def)
qed

section \<open>Examples\<close>

definition empty_db :: kvdb where
  "empty_db = \<lparr>kv_filename = ''a.db'', kv_copyname = ''a.dbc'', kv_logname = ''a.log'', kv_size = 0,
     kv_items = (\<lambda>_. \<lparr>it_head = 0, it_size = 0, it_key = []\<rparr>), kv_datas = (\<lambda>_. \<lparr>n_data = (\<lambda>_. NUL), n_used = 0, n_next = 0\<rparr>)\<rparr>"

definition demo_env :: kenv where
  "demo_env = \<lparr>tlock = False, readbuf = (\<lambda>_. NUL), writebuf = (\<lambda>_. NUL), kvalue = [], images = Map.empty, logs = Map.empty\<rparr>"

lemma rep_empty: "kv_size db = 0 \<Longrightarrow> (\<And>i. n_used (kv_datas db i) = 0) \<Longrightarrow> rep db []"
  by (simp add: rep_def)

lemma stores_empty: "stores empty_db Map.empty"
  unfolding stores_def by (rule exI [of _ "[]"]) (simp add: rep_empty empty_db_def contents_def)

lemma room_empty: "room empty_db Map.empty k = DATAS_SIZE"
  using rep_card_free [of empty_db "[]"] by (simp add: room_def rep_empty empty_db_def)

lemma rows_v: "rows_of ''v'' = 1"
  using blocks_of_nat [of 1] by (simp add: rows_of_def DATA_LENGTH_def)

lemma demo_sizes: "rows_of ''v'' < ROWS" "length ''k'' < KEY_LENGTH" "NUL \<notin> set ''v''" "\<not> tlock demo_env" "0 < ITEMS_SIZE" "0 < DATAS_SIZE"
  by (simp_all add: rows_v ROWS_def kvdb_consts demo_env_def)

theorem kvdb_put_refines_witness:
  "\<exists>db' e'. kvdb_put ''k'' ''v'' (empty_db, demo_env) = Inr (0, db', e') \<and> stores db' [''k'' \<mapsto> ''v''] \<and>
     logs e' ''a.log'' = Some ''put k v\<newline>''"
  using kvdb_put_refines [OF stores_empty, of demo_env "''k''" "''v''"] demo_sizes room_empty [of "''k''"] rows_v
  by (auto simp: log_append_def put_line_def demo_env_def empty_db_def)

lemma stores_demo: "\<exists>db. stores db [''k'' \<mapsto> ''v'']"
  using put_core [OF stores_empty, of "''k''" "''v''"] demo_sizes room_empty [of "''k''"] rows_v by auto

theorem kvdb_get_refines_witness:
  "\<exists>db db' e'. stores db [''k'' \<mapsto> ''v''] \<and> kvdb_get ''k'' (db, demo_env) = Inr (True, db', e') \<and> stores db' Map.empty \<and>
     readbuf e' 0 = CHR ''v'' \<and> readbuf e' 1 = NUL"
proof -
  obtain db where db: "stores db [''k'' \<mapsto> ''v'']" using stores_demo by blast
  show ?thesis using kvdb_get_refines [OF db demo_sizes(4), of "''k''"] db by (auto simp: DATA_LENGTH_def)
qed

end
