(* ===== verification/Journal.thy ===== *)
theory Journal
  imports Prelude
begin

text \<open>
  The contract of a journal: an operation that succeeds appends text to the journal, and replaying
  this text on the state before it leads to the state after it, whatever the surroundings.  From
  the law for one operation follows the law for every sequence of operations.
\<close>

primrec run_ops :: "('op \<Rightarrow> 's \<times> 'e \<Rightarrow> (int \<times> 's \<times> 'e) res) \<Rightarrow> 'op list \<Rightarrow> 's \<times> 'e \<Rightarrow> (int list \<times> 's \<times> 'e) res" where
  "run_ops run [] s = Inr ([], s)"
| "run_ops run (x # xs) s =
     bindE (run x s) (\<lambda>(r, s). bindE (run_ops run xs s) (\<lambda>(rs, s). Inr (r # rs, s)))"

locale journal =
  fixes run :: "'op \<Rightarrow> 's \<times> 'e \<Rightarrow> (int \<times> 's \<times> 'e) res"
    and spec :: "'op \<Rightarrow> 'm \<Rightarrow> 'm"
    and good :: "'op \<Rightarrow> bool"
    and rel :: "'s \<Rightarrow> 'm \<Rightarrow> bool"
    and keeps :: "'s \<times> 'e \<Rightarrow> 's \<times> 'e \<Rightarrow> bool"
    and written :: "'s \<times> 'e \<Rightarrow> string"
    and replay :: "string \<Rightarrow> 's \<times> 'f \<Rightarrow> ('s \<times> 'f) res"
  assumes replay_nil: "replay [] t = Inr t"
    and keeps_refl: "keeps p p"
    and keeps_trans: "keeps p q \<Longrightarrow> keeps q r \<Longrightarrow> keeps p r"
    and run_replay: "good x \<Longrightarrow> rel s m \<Longrightarrow> run x (s, e) = Inr (0, s', e') \<Longrightarrow>
      rel s' (spec x m) \<and> keeps (s, e) (s', e') \<and>
      (\<exists>line. written (s', e') = written (s, e) @ line \<and> (\<forall>rest f. \<exists>f'. replay (line @ rest) (s, f) = replay rest (s', f')))"
begin

lemma run_ops_replay:
  assumes "list_all good xs" and "rel s m" and "run_ops run xs (s, e) = Inr (rs, s', e')" and "\<forall>r\<in>set rs. r = 0"
  shows "rel s' (fold spec xs m) \<and> keeps (s, e) (s', e') \<and>
    (\<exists>lines. written (s', e') = written (s, e) @ lines \<and> (\<forall>f. \<exists>f'. replay lines (s, f) = Inr (s', f')))"
  using assms
proof (induction xs arbitrary: s m e rs)
  case Nil
  then show ?case by (auto simp: replay_nil keeps_refl)
next
  case (Cons x xs)
  from Cons.prems(3,4) obtain s1 e1 rs1 where one: "run x (s, e) = Inr (0, s1, e1)"
    and rest: "run_ops run xs (s1, e1) = Inr (rs1, s', e')" "\<forall>r\<in>set rs1. r = 0"
    by (fastforce simp: bindE_Inr_iff)
  obtain line where l: "rel s1 (spec x m)" "keeps (s, e) (s1, e1)" "written (s1, e1) = written (s, e) @ line"
    "\<forall>rest f. \<exists>f'. replay (line @ rest) (s, f) = replay rest (s1, f')"
    using run_replay [OF _ Cons.prems(2) one] Cons.prems(1) by auto
  obtain lines where t: "rel s' (fold spec xs (spec x m))" "keeps (s1, e1) (s', e')" "written (s', e') = written (s1, e1) @ lines"
    "\<forall>f. \<exists>f'. replay lines (s1, f) = Inr (s', f')"
    using Cons.IH [OF _ l(1) rest] Cons.prems(1) by auto
  have "\<exists>f'. replay (line @ lines) (s, f) = Inr (s', f')" for f using l(4) t(4) by metis
  then show ?case using t(1,3) l(3) keeps_trans [OF l(2) t(2)] by (auto intro!: exI [of _ "line @ lines"])
qed

end

end
