(* ===== verification/Kvdb_Recovery.thy ===== *)
theory Kvdb_Recovery
  imports Kvdb_Correct Journal
begin

text \<open>
  The log of the database: every finished operation can be redone from the line it left, so that opening the database
  after a crash restores the state of the last finished operation.  The copy that the redo starts from is not
  renewed by a recovery, so that a second crash loses what the first recovery restored.
\<close>

section \<open>Reading the log\<close>

definition key_ok :: "string \<Rightarrow> bool" where
  "key_ok k \<longleftrightarrow> k \<noteq> [] \<and> length k < KEY_LENGTH \<and> list_all (Not \<circ> is_space) k"

definition value_ok :: "string \<Rightarrow> bool" where
  "value_ok v \<longleftrightarrow> v \<noteq> [] \<and> \<not> is_space (hd v) \<and> CHR 0x0A \<notin> set v \<and> NUL \<notin> set v \<and> length v < MAX_LENGTH - 1"

lemma scan_record_skip: "scan_record (dropWhile is_space lp) = scan_record lp"
  by (simp add: scan_record_def)

lemma redo_operation_skip: "redo_operation (dropWhile is_space lp) = redo_operation lp"
  by (rule ext) (auto simp add: redo_operation.simps [of "dropWhile is_space lp"] redo_operation.simps [of lp] scan_record_skip)

lemma is_space_simps [simp]:
  "is_space (CHR 0x20)" "is_space (CHR 0x0A)" "\<not> is_space (CHR ''p'')" "\<not> is_space (CHR ''u'')" "\<not> is_space (CHR ''t'')"
  "\<not> is_space (CHR ''g'')" "\<not> is_space (CHR ''e'')"
  by (simp_all add: is_space_def)

lemma key_takeWhile:
  assumes "key_ok k"
  shows "takeWhile (Not \<circ> is_space) (k @ CHR 0x20 # rest) = k" and "dropWhile is_space (k @ rest) = k @ rest"
proof -
  show "takeWhile (Not \<circ> is_space) (k @ CHR 0x20 # rest) = k"
    using assms by (simp add: key_ok_def list_all_iff takeWhile_append)
  show "dropWhile is_space (k @ rest) = k @ rest" using assms by (cases k) (simp_all add: key_ok_def)
qed

lemma scan_put_line:
  assumes k: "key_ok k" and v: "value_ok v"
  shows "scan_record (put_line k v @ rest) = Some (''put'', k, v @ CHR 0x0A # rest)"
proof -
  have "dropWhile is_space (CHR 0x20 # v @ CHR 0x0A # rest) = v @ CHR 0x0A # rest"
    using v by (cases v) (simp_all add: value_ok_def)
  then show ?thesis
    using k key_takeWhile [OF k] by (simp add: scan_record_def put_line_def key_ok_def Let_def)
qed

lemma scan_get_line:
  assumes k: "key_ok k"
  shows "scan_record (get_line k @ rest) = Some (''get'', k, dropWhile is_space rest)"
  using k key_takeWhile [OF k] by (simp add: scan_record_def get_line_def key_ok_def Let_def)

lemma fgets_line_whole:
  "CHR 0x0A \<notin> set v \<Longrightarrow> length v < n \<Longrightarrow> fgets_line n (v @ CHR 0x0A # rest) = (v @ [CHR 0x0A], rest)"
  by (induction v arbitrary: n) auto

lemma redo_put_line:
  assumes "key_ok k" and "value_ok v"
  shows "redo_operation (put_line k v @ rest) (db, e) =
    bindE (kvdb_put_redo k v (db, e\<lparr>kvalue := v\<rparr>)) (redo_operation rest)"
proof -
  have "fgets_line (MAX_LENGTH - 1) (v @ CHR 0x0A # rest) = (v @ [CHR 0x0A], rest)"
    using assms(2) by (intro fgets_line_whole) (auto simp: value_ok_def)
  then show ?thesis
    using assms(1) by (simp add: redo_operation.simps [of "put_line k v @ rest"] scan_put_line [OF assms] key_ok_def)
qed

lemma redo_get_line:
  assumes "key_ok k"
  shows "redo_operation (get_line k @ rest) (db, e) = bindE (kvdb_get_redo k (db, e)) (redo_operation rest)"
  using assms
  by (simp add: redo_operation.simps [of "get_line k @ rest"] scan_get_line [OF assms] key_ok_def redo_operation_skip)

section \<open>The operations as entries of a journal\<close>

datatype kv_op = PutOp string string | GetOp string

definition kv_step :: "kv_op \<Rightarrow> kvdb \<times> kenv \<Rightarrow> (int \<times> kvdb \<times> kenv) res" where
  "kv_step x s = (case x of
     PutOp k v \<Rightarrow> kvdb_put k v s
   | GetOp k \<Rightarrow> bindE (kvdb_get k s) (\<lambda>(found, s). Inr (0, s)))"

definition kv_spec :: "kv_op \<Rightarrow> (string \<Rightarrow> string option) \<Rightarrow> string \<Rightarrow> string option" where
  "kv_spec x m = (case x of PutOp k v \<Rightarrow> m(k \<mapsto> v) | GetOp k \<Rightarrow> m(k := None))"

definition kv_good :: "kv_op \<Rightarrow> bool" where
  "kv_good x = (case x of PutOp k v \<Rightarrow> key_ok k \<and> value_ok v | GetOp k \<Rightarrow> key_ok k)"

definition log_text :: "kvdb \<times> kenv \<Rightarrow> string" where
  "log_text = (\<lambda>(db, e). case logs e (kv_logname db) of Some t \<Rightarrow> t | None \<Rightarrow> [])"

definition same_names :: "kvdb \<Rightarrow> kvdb \<Rightarrow> bool" where
  "same_names db db' \<longleftrightarrow> kv_filename db' = kv_filename db \<and> kv_copyname db' = kv_copyname db \<and> kv_logname db' = kv_logname db"

definition kv_keeps :: "kvdb \<times> kenv \<Rightarrow> kvdb \<times> kenv \<Rightarrow> bool" where
  "kv_keeps = (\<lambda>(db, e) (db', e'). same_names db db' \<and> images e' = images e \<and> (tlock e' \<longrightarrow> tlock e) \<and>
     (logs e (kv_logname db) \<noteq> None \<longrightarrow> logs e' (kv_logname db) \<noteq> None))"

lemma log_text_append:
  "log_text (db, log_append (kv_logname db) l e) = log_text (db, e) @ l"
  by (simp add: log_text_def log_append_def)

section \<open>A finished operation can be redone\<close>

lemma link_loop_size [simp]: "kv_size (link_loop vec db) = kv_size db"
  by (induction vec db rule: link_loop.induct) simp_all

lemma kvdb_alloc_0D:
  assumes "kvdb_alloc db sz key = Inr (0, db')"
  shows "blocks_of sz < ROWS" and "kv_size db < int ITEMS_SIZE" and "length key < KEY_LENGTH"
    and "it_size (kv_items db' (nat (kv_size db' - 1))) = sz"
  using assms by (auto simp: kvdb_alloc_def Let_def bindE_Inr_iff guardE_Inr_iff upd_item_def split: option.splits if_splits)

text \<open>What is behind the terminator of the string in \<^verbatim>\<open>writebuf\<close> has no effect.\<close>

lemma strncpy_strcpy_indep:
  assumes v: "NUL \<notin> set v" and r: "r < rows_of v"
  shows "strncpy_buf d (row (strcpy_buf b v) r) DATA_LENGTH = strncpy_buf d (row (strcpy_buf b' v) r) DATA_LENGTH"
proof
  fix i
  have "r * DATA_LENGTH \<le> length v" using rows_of_inner [OF r] by simp
  then have "strncpy_buf d (row (strcpy_buf c v) r) DATA_LENGTH i = pad v (r * DATA_LENGTH + i)" if "i < DATA_LENGTH" for c
    using that by (intro strncpy_row [OF v]) (simp_all add: strcpy_buf_def pad_def)
  then show "strncpy_buf d (row (strcpy_buf b v) r) DATA_LENGTH i = strncpy_buf d (row (strcpy_buf b' v) r) DATA_LENGTH i"
    by (cases "i < DATA_LENGTH") (simp_all add: strncpy_buf_def)
qed

lemma write_rows_indep:
  "NUL \<notin> set v \<Longrightarrow> cnt + n \<le> rows_of v \<Longrightarrow>
    write_rows n cnt x (strcpy_buf b v) db = write_rows n cnt x (strcpy_buf b' v) db"
proof (induction n arbitrary: cnt x db)
  case (Suc n)
  have "upd_node i (\<lambda>c. c\<lparr>n_data := strncpy_buf (n_data c) (row (strcpy_buf b v) cnt) DATA_LENGTH\<rparr>) db =
    upd_node i (\<lambda>c. c\<lparr>n_data := strncpy_buf (n_data c) (row (strcpy_buf b' v) cnt) DATA_LENGTH\<rparr>) db" for i
    using strncpy_strcpy_indep [OF Suc.prems(1), where r = cnt and b = b and b' = b'] Suc.prems(2) by simp
  then show ?case using Suc.IH [of "cnt + 1"] Suc.prems by (simp only: write_rows.simps Let_def) simp
qed simp

lemma kvdb_write_indep:
  assumes "NUL \<notin> set v" and "it_size (kv_items db i) = int (length v)" and "writebuf e = strcpy_buf b v" and "writebuf f = strcpy_buf b' v"
  shows "kvdb_write db i e = kvdb_write db i f"
  using assms write_rows_indep [OF assms(1), of 0 "rows_of v" _ b db b'] by (simp add: kvdb_write_def rows_of_def)

lemma put_0D:
  assumes "kvdb_put k v (db, e) = Inr (0, db', e')"
  obtains db0 db1 where "\<not> tlock e" and "drop_old k db = Inr db0" and "kvdb_alloc db0 (int (length v)) k = Inr (0, db1)"
    and "length v < MAX_LENGTH"
    and "kvdb_write db1 (nat (kv_size db1 - 1)) (e\<lparr>tlock := True, writebuf := strcpy_buf (writebuf e) v\<rparr>) = Inr (0, db')"
    and "e' = unlock_db (log_append (kv_logname db') (put_line k v) (e\<lparr>tlock := True, writebuf := strcpy_buf (writebuf e) v\<rparr>))"
  using assms by (auto simp: kvdb_put_def lock_db_def fill_writebuf_def Let_def bindE_Inr_iff guardE_Inr_iff split: if_splits)

lemma put_redo:
  assumes p: "kvdb_put k v (db, e) = Inr (0, db', e')" and v: "NUL \<notin> set v"
  shows "\<exists>f'. kvdb_put_redo k v (db, f) = Inr (db', f')"
proof -
  obtain db0 db1 where q: "drop_old k db = Inr db0" "kvdb_alloc db0 (int (length v)) k = Inr (0, db1)" "length v < MAX_LENGTH"
    "kvdb_write db1 (nat (kv_size db1 - 1)) (e\<lparr>tlock := True, writebuf := strcpy_buf (writebuf e) v\<rparr>) = Inr (0, db')"
    using put_0D [OF p] by metis
  have "kvdb_write db1 (nat (kv_size db1 - 1)) (f\<lparr>writebuf := strcpy_buf (writebuf f) v\<rparr>) = Inr (0, db')"
    using q(4) kvdb_write_indep [OF v kvdb_alloc_0D(4) [OF q(2)]] by (metis kenv.select_convs(3) kenv.surjective kenv.update_convs(1,3))
  then show ?thesis using q(1-3) by (simp add: kvdb_put_redo_def fill_writebuf_def)
qed

lemma put_stores:
  assumes p: "kvdb_put k v (db, e) = Inr (0, db', e')" and st: "stores db m" and v: "NUL \<notin> set v"
  shows "stores db' (m(k \<mapsto> v)) \<and> same_names db db' \<and>
    e' = (log_append (kv_logname db) (put_line k v) e)\<lparr>tlock := False, writebuf := strcpy_buf (writebuf e) v\<rparr>"
proof -
  obtain db0 db1 where q: "\<not> tlock e" "drop_old k db = Inr db0" "kvdb_alloc db0 (int (length v)) k = Inr (0, db1)"
    "kvdb_write db1 (nat (kv_size db1 - 1)) (e\<lparr>tlock := True, writebuf := strcpy_buf (writebuf e) v\<rparr>) = Inr (0, db')"
    "e' = unlock_db (log_append (kv_logname db') (put_line k v) (e\<lparr>tlock := True, writebuf := strcpy_buf (writebuf e) v\<rparr>))"
    using put_0D [OF p] by metis
  note al = kvdb_alloc_0D [OF q(3)]
  have items: "k \<in> dom m \<or> card (dom m) < ITEMS_SIZE"
  proof (rule disjCI)
    assume "\<not> card (dom m) < ITEMS_SIZE"
    show "k \<in> dom m"
    proof (rule ccontr)
      assume "k \<notin> dom m"
      then have "kvdb_search_key db k = -1" by (intro get_missing [OF st]) auto
      then have "db0 = db" using q(2) by (simp add: drop_old_def)
      moreover have "kv_size db = int (card (dom m))" using st card_dom_contents repD(1) by (auto simp: stores_def)
      ultimately show False using al(2) \<open>\<not> card (dom m) < ITEMS_SIZE\<close> by simp
    qed
  qed
  have rows: "rows_of v < ROWS" using al(1) by (simp add: rows_of_def)
  from put_core [OF st al(3) v rows items, of "writebuf e"] q(2,3) obtain d it n where
    c: "\<forall>f. writebuf f = strcpy_buf (writebuf e) v \<longrightarrow>
          kvdb_write db1 (nat (kv_size db1 - 1)) f = Inr (0, db\<lparr>kv_items := it, kv_size := n, kv_datas := d\<rparr>)"
       "stores (db\<lparr>kv_items := it, kv_size := n, kv_datas := d\<rparr>) (m(k \<mapsto> v))"
    by (auto split: if_splits)
  have db': "db' = db\<lparr>kv_items := it, kv_size := n, kv_datas := d\<rparr>" using c(1) q(4) by simp
  then show ?thesis using c(2) q(5) by (simp add: same_names_def log_append_def unlock_db_def)
qed

lemma get_redo:
  assumes g: "kvdb_get k (db, e) = Inr (b, db', e')" and st: "stores db m"
  shows "stores db' (m(k := None)) \<and> same_names db db' \<and> kvdb_get_redo k (db, f) = Inr (db', f) \<and> images e' = images e \<and> \<not> tlock e' \<and>
    (if m k = None then db' = db \<and> logs e' = logs e else logs e' = logs (log_append (kv_logname db) (get_line k) e))"
proof (cases "m k")
  case None
  then have "m(k := None) = m" by auto
  then show ?thesis
    using g get_missing [OF st None] st None
    by (auto simp: kvdb_get_def kvdb_get_redo_def lock_db_def unlock_db_def same_names_def split: if_splits)
next
  case (Some v)
  obtain i d it n where c: "kvdb_search_key db k = int i" "kvdb_free db i = Inr (0, db\<lparr>kv_items := it, kv_size := n, kv_datas := d\<rparr>)"
    "stores (db\<lparr>kv_items := it, kv_size := n, kv_datas := d\<rparr>) (m(k := None))"
    and rd: "\<And>e. \<exists>b. kvdb_read db i e = Inr (0, e\<lparr>readbuf := b\<rparr>)"
    using get_core [OF st Some] by blast
  obtain b where "kvdb_read db i (e\<lparr>tlock := True\<rparr>) = Inr (0, e\<lparr>tlock := True, readbuf := b\<rparr>)" using rd by blast
  then show ?thesis
    using g c Some
    by (auto simp: kvdb_get_def kvdb_get_redo_def lock_db_def unlock_db_def same_names_def log_append_def split: if_splits)
qed

lemma kv_step_replay:
  assumes good: "kv_good x" and st: "stores db m" and run: "kv_step x (db, e) = Inr (0, db', e')"
  shows "stores db' (kv_spec x m) \<and> kv_keeps (db, e) (db', e') \<and>
    (\<exists>line. log_text (db', e') = log_text (db, e) @ line \<and>
      (\<forall>rest f. \<exists>f'. redo_operation (line @ rest) (db, f) = redo_operation rest (db', f')))"
proof (cases x)
  case (PutOp k v)
  have ok: "key_ok k" "value_ok v" "NUL \<notin> set v" using good PutOp by (auto simp: kv_good_def value_ok_def)
  have p: "kvdb_put k v (db, e) = Inr (0, db', e')" using run PutOp by (simp add: kv_step_def)
  note s = put_stores [OF p st ok(3)]
  have "\<exists>f'. redo_operation (put_line k v @ rest) (db, f) = redo_operation rest (db', f')" for rest f
    using put_redo [OF p ok(3), of "f\<lparr>kvalue := v\<rparr>"] redo_put_line [OF ok(1,2), of rest db f] by auto
  moreover have "log_text (db', e') = log_text (db, e) @ put_line k v"
    using s by (auto simp: log_text_def log_append_def same_names_def)
  ultimately show ?thesis using s PutOp by (auto simp: kv_spec_def kv_keeps_def log_append_def)
next
  case (GetOp k)
  have ok: "key_ok k" using good GetOp by (simp add: kv_good_def)
  obtain b where g: "kvdb_get k (db, e) = Inr (b, db', e')" using run GetOp by (auto simp: kv_step_def bindE_Inr_iff)
  note s = get_redo [OF g st, of e]
  have redo: "kvdb_get_redo k (db, f) = Inr (db', f)" for f using get_redo [OF g st] by blast
  have keep: "kv_keeps (db, e) (db', e')" using s by (auto simp: kv_keeps_def log_append_def split: if_splits)
  show ?thesis
  proof (cases "m k = None")
    case True
    then show ?thesis using s keep GetOp by (auto simp: kv_spec_def log_text_def)
  next
    case False
    have "\<exists>f'. redo_operation (get_line k @ rest) (db, f) = redo_operation rest (db', f')" for rest f
      using redo redo_get_line [OF ok, of rest db f] by auto
    moreover have "log_text (db', e') = log_text (db, e) @ get_line k"
      using s False by (auto simp: log_text_def log_append_def same_names_def)
    ultimately show ?thesis using s keep GetOp by (auto simp: kv_spec_def)
  qed
qed

interpretation kvlog: journal kv_step kv_spec kv_good stores kv_keeps log_text redo_operation
proof unfold_locales
  show "redo_operation [] t = Inr t" for t by (cases t) (simp add: redo_operation.simps scan_record_def)
  show "kv_keeps p p" for p by (cases p) (simp add: kv_keeps_def same_names_def)
  show "kv_keeps p r" if "kv_keeps p q" "kv_keeps q r" for p q r
    using that by (auto simp: kv_keeps_def same_names_def)
qed (rule kv_step_replay)

section \<open>Opening, crashing and opening again\<close>

text \<open>A struct that was never opened, and one that carries the names that belong to a file.\<close>

definition blank :: "kvdb \<Rightarrow> bool" where
  "blank db \<longleftrightarrow> kv_filename db = [] \<and> kv_copyname db = [] \<and> kv_logname db = []"

definition copy_of :: "string \<Rightarrow> string" where
  "copy_of fname = take (length fname - 3) fname @ ''.dbc''"

definition log_of :: "string \<Rightarrow> string" where
  "log_of fname = take (length fname - 3) fname @ ''.log''"

definition named :: "string \<Rightarrow> kvdb \<Rightarrow> bool" where
  "named fname db \<longleftrightarrow> kv_filename db = fname \<and> kv_copyname db = copy_of fname \<and> kv_logname db = log_of fname"

definition name_ok :: "string \<Rightarrow> bool" where
  "name_ok fname \<longleftrightarrow> 3 \<le> length fname \<and> length fname < FILENAME_LENGTH - 1"

lemma names_differ: "name_ok fname \<Longrightarrow> fname \<noteq> copy_of fname"
proof
  assume n: "name_ok fname" and c: "fname = copy_of fname"
  from arg_cong [OF c, of length] have "length fname = length (copy_of fname)" .
  then show False using n by (simp add: copy_of_def name_ok_def)
qed

lemma set_names_blank:
  assumes "blank db" and "name_ok fname"
  shows "\<exists>db'. set_names fname db = Inr db' \<and> named fname db' \<and> kv_size db' = kv_size db \<and> kv_items db' = kv_items db \<and>
    kv_datas db' = kv_datas db"
proof -
  have "length fname - 3 < 252" using assms(2) unfolding name_ok_def FILENAME_LENGTH_def by linarith
  then show ?thesis
    using assms by (auto simp: set_names_def blank_def name_ok_def named_def copy_name_def copy_of_def log_of_def Let_def FILENAME_LENGTH_def)
qed

text \<open>The state after \<^verbatim>\<open>kvdb_open\<close> has opened or created the database, without recovery.\<close>

definition opened :: "string \<Rightarrow> kvdb \<times> kenv \<Rightarrow> bool" where
  "opened fname = (\<lambda>(db, e). named fname db \<and> images e (copy_of fname) = Some (Some db) \<and> logs e (log_of fname) = Some [] \<and> \<not> tlock e)"

lemma kvdb_open_opened:
  assumes b: "blank db0" and n: "name_ok fname" and nolog: "images e0 (copy_of fname) = None \<or> logs e0 (log_of fname) = None"
    and im: "\<forall>d. images e0 fname = Some (Some d) \<longrightarrow> named fname d" and o: "kvdb_open fname (db0, e0) = Inr (r, db1, e1)"
  shows "opened fname (db1, e1)"
proof -
  obtain db where db: "set_names fname db0 = Inr db" "named fname db" using set_names_blank [OF b n] by blast
  note names = db(2) [unfolded named_def]
  show ?thesis
    using o nolog db names im names_differ [OF n]
    by (auto simp: kvdb_open_def opened_def fread_db_def Let_def split: if_splits option.splits)
qed

text \<open>Closing writes the struct, and opening the file again reads it back.\<close>

lemma kvdb_close_open:
  assumes n: "name_ok fname" and nm: "named fname db" and c: "kvdb_close (db, e) = (r, e')" and b: "blank db0"
  shows "\<exists>e''. kvdb_open fname (db0, e') = Inr (0, db, e'') \<and> opened fname (db, e'')"
proof -
  obtain db1 where db1: "set_names fname db0 = Inr db1" "named fname db1" using set_names_blank [OF b n] by blast
  show ?thesis
    using c db1(1) nm [unfolded named_def] db1(2) [unfolded named_def] names_differ [OF n] nm
    by (auto simp: kvdb_close_def kvdb_open_def opened_def fread_db_def Let_def)
qed

text \<open>
  Opening with a struct that was opened before, and not cleared, looks for a copy and a log of another name: the
  names are copied without their terminators, and the suffixes are appended to what the first opening left.
\<close>

lemma reopen_renames:
  assumes "named fname db" and "set_names fname db = Inr db'"
  shows "kv_copyname db' = copy_of fname @ ''.dbc'' \<and> kv_logname db' = log_of fname @ ''.log''"
  using assms by (auto simp: set_names_def copy_name_def named_def copy_of_def log_of_def Let_def bindE_Inr_iff guardE_Inr_iff)

text \<open>Redoing the log does not touch the disk.\<close>

lemma put_redo_disk: "kvdb_put_redo k v (db, e) = Inr (db', e') \<Longrightarrow> images e' = images e \<and> logs e' = logs e"
  by (auto simp: kvdb_put_redo_def fill_writebuf_def bindE_Inr_iff guardE_Inr_iff split: if_splits)

lemma get_redo_disk: "kvdb_get_redo k (db, e) = Inr (db', e') \<Longrightarrow> images e' = images e \<and> logs e' = logs e"
  by (auto simp: kvdb_get_redo_def bindE_Inr_iff Let_def split: if_splits)

lemma redo_operation_disk:
  "redo_operation lp s = Inr s' \<Longrightarrow> images (snd s') = images (snd s) \<and> logs (snd s') = logs (snd s)"
proof (induction lp s arbitrary: s' rule: redo_operation.induct)
  case (1 lp db e)
  show ?case
  proof (cases "scan_record lp")
    case None
    then show ?thesis using "1.prems" by (simp add: redo_operation.simps)
  next
    case (Some x)
    obtain operation key lp' where x: "x = (operation, key, lp')" by (cases x)
    obtain line lp'' where l: "fgets_line (MAX_LENGTH - 1) lp' = (line, lp'')" by fastforce
    let ?v = "if line = [] then kvalue e else line"
    have key: "length key < KEY_LENGTH" using "1.prems" by (simp add: redo_operation.simps Some x bindE_Inr_iff guardE_Inr_iff)
    have gk: "guardE OutOfBounds (length key < KEY_LENGTH) = Inr ()" using key by simp
    consider (put) "operation = ''put''" | (get) "operation = ''get''"
      using "1.prems" by (auto simp: redo_operation.simps [of lp] Some x bindE_Inr_iff split: if_splits)
    then show ?thesis
    proof cases
      case put
      obtain t where t: "?v \<noteq> []" "kvdb_put_redo key (butlast ?v) (db, e\<lparr>kvalue := butlast ?v\<rparr>) = Inr t" "redo_operation lp'' t = Inr s'"
        using "1.prems" put key unfolding redo_operation.simps [of lp] Some x option.case prod.case l Let_def
        by (auto simp del: if_split simp: bindE_Inr_iff guardE_Inr_iff)
      have gv: "guardE OutOfBounds (?v \<noteq> []) = Inr ()" using t(1) by simp
      have "images (snd t) = images e \<and> logs (snd t) = logs e"
        using put_redo_disk [of key "butlast ?v" db "e\<lparr>kvalue := butlast ?v\<rparr>" "fst t" "snd t"] t(2) by simp
      moreover have "images (snd s') = images (snd t) \<and> logs (snd s') = logs (snd t)"
        using "1.IH"(1) [OF Some x [symmetric] refl gk put refl l [symmetric] refl gv t(2,3)] by simp
      ultimately show ?thesis by simp
    next
      case get
      obtain t where t: "kvdb_get_redo key (db, e) = Inr t" "redo_operation lp' t = Inr s'"
        using "1.prems" get key by (auto simp: redo_operation.simps [of lp] Some x bindE_Inr_iff guardE_Inr_iff)
      have "images (snd t) = images e \<and> logs (snd t) = logs e"
        using get_redo_disk [of key db e "fst t" "snd t"] t(1) by simp
      moreover have "images (snd s') = images (snd t) \<and> logs (snd s') = logs (snd t)"
        using "1.IH"(2) [OF Some x [symmetric] refl gk _ get t] get by simp
      ultimately show ?thesis by simp
    qed
  qed
qed

text \<open>Recovery from the copy and the log: the copy stays, and the log becomes empty.\<close>

lemma kvdb_open_recovers:
  assumes b: "blank db" and n: "name_ok fname" and c: "images e (copy_of fname) = Some (Some db1)" and l: "logs e (log_of fname) = Some ls"
    and redo: "\<And>f. \<exists>f'. redo_operation ls (db1, f) = Inr (db2, f')" and nm: "named fname db2"
  shows "\<exists>e'. kvdb_open fname (db, e) = Inr (0, db2, e') \<and> images e' fname = Some (Some db2) \<and>
    images e' (copy_of fname) = Some (Some db1) \<and> logs e' (log_of fname) = Some []"
proof -
  obtain db' where db': "set_names fname db = Inr db'" "named fname db'" using set_names_blank [OF b n] by blast
  note names = db'(2) [unfolded named_def]
  obtain f' where f: "redo_operation ls (db1, set_image fname None e) = Inr (db2, f')" using redo by blast
  note disk = redo_operation_disk [OF f]
  have "logs e (kv_logname db') = Some ls" "images e (kv_copyname db') = Some (Some db1)" "fname \<noteq> copy_of fname"
    using names c l names_differ [OF n] by simp_all
  then show ?thesis using db'(1) names f disk nm c by (auto simp: kvdb_open_def fread_db_def named_def Let_def)
qed

lemma crash_state:
  assumes o: "opened fname (db1, e1)" and st: "stores db1 m" and good: "list_all kv_good ops"
    and run: "run_ops kv_step ops (db1, e1) = Inr (rs, db2, e2)" and ok: "\<forall>r\<in>set rs. r = 0"
  shows "named fname db2 \<and> stores db2 (fold kv_spec ops m) \<and> images e2 (copy_of fname) = Some (Some db1) \<and>
    (\<exists>ls. logs e2 (log_of fname) = Some ls \<and> (\<forall>f. \<exists>f'. redo_operation ls (db1, f) = Inr (db2, f')))"
proof -
  obtain ls where r: "stores db2 (fold kv_spec ops m)" "kv_keeps (db1, e1) (db2, e2)" "log_text (db2, e2) = log_text (db1, e1) @ ls"
    "\<forall>f. \<exists>f'. redo_operation ls (db1, f) = Inr (db2, f')"
    using kvlog.run_ops_replay [OF good st run ok] by auto
  have nm: "named fname db2" using o r(2) by (auto simp: opened_def kv_keeps_def same_names_def named_def)
  have "logs e2 (log_of fname) = Some ls"
    using o r(2,3) nm by (auto simp: opened_def kv_keeps_def named_def log_text_def)
  then show ?thesis using o nm r by (auto simp: opened_def kv_keeps_def)
qed

text \<open>
  C5: No finished operation is lost in a crash.  A database is opened, any sequence of puts and gets whose keys and
  values the log can represent is run, each of them returning success, and the process dies: what remains are the files, while the
  struct, the buffers and the mutex hold anything.  Opening the database again succeeds and restores exactly the struct of the moment of the crash, which
  stores the map that the operations define, and writes it to the database file.
\<close>

theorem kvdb_crash_recovery:
  assumes "blank db0" and n: "name_ok fname" and "images e0 (copy_of fname) = None \<or> logs e0 (log_of fname) = None"
    and "\<forall>d. images e0 fname = Some (Some d) \<longrightarrow> named fname d" and "kvdb_open fname (db0, e0) = Inr (0, db1, e1)"
    and st: "stores db1 m" and good: "list_all kv_good ops"
    and run: "run_ops kv_step ops (db1, e1) = Inr (rs, db2, e2)" and ok: "\<forall>r\<in>set rs. r = 0"
    and crash: "images e3 = images e2" "logs e3 = logs e2" and b: "blank db3"
  shows "\<exists>e4. kvdb_open fname (db3, e3) = Inr (0, db2, e4) \<and> images e4 fname = Some (Some db2) \<and> stores db2 (fold kv_spec ops m)"
proof -
  have o: "opened fname (db1, e1)" using assms(1-5) by (rule kvdb_open_opened)
  note c = crash_state [OF o st good run ok]
  then obtain ls where "logs e3 (log_of fname) = Some ls" "\<And>f. \<exists>f'. redo_operation ls (db1, f) = Inr (db2, f')"
    using crash(2) by auto
  then show ?thesis using kvdb_open_recovers [OF b n, of e3 db1 ls db2] c crash(1) by auto
qed

text \<open>
  C37: A recovery does not survive a second crash.  It empties the log but leaves the copy as the first opening made it, and an
  opening that finds both trusts them: after a crash, a recovery and another crash the database is back in the
  state before the first of the operations, all of which had returned success.
\<close>

theorem kvdb_second_crash_loses:
  assumes "blank db0" and n: "name_ok fname" and "images e0 (copy_of fname) = None \<or> logs e0 (log_of fname) = None"
    and "\<forall>d. images e0 fname = Some (Some d) \<longrightarrow> named fname d" and "kvdb_open fname (db0, e0) = Inr (0, db1, e1)"
    and st: "stores db1 m" and good: "list_all kv_good ops"
    and run: "run_ops kv_step ops (db1, e1) = Inr (rs, db2, e2)" and ok: "\<forall>r\<in>set rs. r = 0"
    and crash: "images e3 = images e2" "logs e3 = logs e2" and b: "blank db3"
    and again: "kvdb_open fname (db3, e3) = Inr (r, db4, e4)"
    and crash2: "images e5 = images e4" "logs e5 = logs e4" and b2: "blank db5"
  shows "\<exists>e6. kvdb_open fname (db5, e5) = Inr (0, db1, e6)"
proof -
  have o: "opened fname (db1, e1)" using assms(1-5) by (rule kvdb_open_opened)
  note c = crash_state [OF o st good run ok]
  then obtain ls where "logs e3 (log_of fname) = Some ls" "\<And>f. \<exists>f'. redo_operation ls (db1, f) = Inr (db2, f')"
    using crash(2) by auto
  then have "images e4 (copy_of fname) = Some (Some db1)" "logs e4 (log_of fname) = Some []"
    using kvdb_open_recovers [OF b n, of e3 db1 ls db2] c crash(1) again by auto
  moreover have "\<exists>f'. redo_operation [] (db1, f) = Inr (db1, f')" for f using kvlog.replay_nil [of "(db1, f)"] by simp
  moreover have "named fname db1" using o by (simp add: opened_def)
  ultimately show ?thesis using kvdb_open_recovers [OF b2 n, of e5 db1 "[]" db1] crash2 by auto
qed

section \<open>Examples\<close>

definition blank_db :: kvdb where
  "blank_db = empty_db\<lparr>kv_filename := [], kv_copyname := [], kv_logname := []\<rparr>"

definition created :: kenv where
  "created = demo_env\<lparr>images := [''a.db'' \<mapsto> Some empty_db, ''a.dbc'' \<mapsto> Some empty_db], logs := [''a.log'' \<mapsto> []]\<rparr>"

lemma blank_blank: "blank blank_db"
  by (simp add: blank_def blank_db_def)

lemma demo_open: "kvdb_open ''a.db'' (blank_db, demo_env) = Inr (0, empty_db, created)"
  by (simp add: kvdb_open_def set_names_def copy_name_def blank_db_def empty_db_def demo_env_def created_def FILENAME_LENGTH_def Let_def fun_eq_iff)

lemma demo_files:
  "name_ok ''a.db''" "images demo_env (copy_of ''a.db'') = None \<or> logs demo_env (log_of ''a.db'') = None"
  "\<forall>d. images demo_env ''a.db'' = Some (Some d) \<longrightarrow> named ''a.db'' d" "list_all kv_good [PutOp ''k'' ''v'']"
  by (simp_all add: name_ok_def FILENAME_LENGTH_def demo_env_def kv_good_def key_ok_def value_ok_def KEY_LENGTH_def MAX_LENGTH_def is_space_def)

lemma demo_run: "\<exists>db2 e2. run_ops kv_step [PutOp ''k'' ''v''] (empty_db, created) = Inr ([0], db2, e2)"
  using kvdb_put_room [OF stores_empty, of created "''k''" "''v''"] demo_sizes room_empty [of "''k''"] rows_v
  by (auto simp: kv_step_def created_def demo_env_def)

theorem kvdb_crash_recovery_witness:
  "\<exists>db2 e2 e4. run_ops kv_step [PutOp ''k'' ''v''] (empty_db, created) = Inr ([0], db2, e2) \<and>
     kvdb_open ''a.db'' (blank_db, e2) = Inr (0, db2, e4) \<and> stores db2 [''k'' \<mapsto> ''v'']"
proof -
  obtain db2 e2 where r: "run_ops kv_step [PutOp ''k'' ''v''] (empty_db, created) = Inr ([0], db2, e2)" using demo_run by blast
  show ?thesis
    using kvdb_crash_recovery [OF blank_blank demo_files(1-3) demo_open stores_empty demo_files(4) r _ refl refl blank_blank] r
    by (auto simp: kv_spec_def)
qed

theorem kvdb_second_crash_loses_witness:
  "\<exists>db2 e2 e4 e6. run_ops kv_step [PutOp ''k'' ''v''] (empty_db, created) = Inr ([0], db2, e2) \<and>
     kvdb_open ''a.db'' (blank_db, e2) = Inr (0, db2, e4) \<and> kvdb_open ''a.db'' (blank_db, e4) = Inr (0, empty_db, e6)"
proof -
  obtain db2 e2 where r: "run_ops kv_step [PutOp ''k'' ''v''] (empty_db, created) = Inr ([0], db2, e2)" using demo_run by blast
  have o: "opened ''a.db'' (empty_db, created)" by (rule kvdb_open_opened [OF blank_blank demo_files(1-3) demo_open])
  have "\<exists>e4. kvdb_open ''a.db'' (blank_db, e2) = Inr (0, db2, e4)"
    using crash_state [OF o stores_empty demo_files(4) r] kvdb_open_recovers [OF blank_blank demo_files(1)] by (metis empty_set list.simps(15) singletonD)
  then obtain e4 where a: "kvdb_open ''a.db'' (blank_db, e2) = Inr (0, db2, e4)" by blast
  show ?thesis
    using kvdb_second_crash_loses [OF blank_blank demo_files(1-3) demo_open stores_empty demo_files(4) r _ refl refl blank_blank a refl refl blank_blank] r a
    by auto
qed

end
