(* ===== verification/Snake.thy ===== *)
theory Snake
  imports Prelude
begin

text \<open>
  The game of \<^verbatim>\<open>amgame/src/game.c\<close>: a board of cells in which the cells of the body point to the next cell
  towards the head, the counter of empty cells, and the incremental drawing that redraws only what changed.
  The value that \<^verbatim>\<open>rand\<close> returns and the keyboard event that \<^verbatim>\<open>_io_read\<close> delivers are arguments of a step.  The
  score, which is printed beside the board, is counted; its letters are not drawn.
\<close>

section \<open>The board\<close>

definition MAX_WIDTH :: int where "MAX_WIDTH = 40"
definition MAX_HEIGHT :: int where "MAX_HEIGHT = 40"

datatype map_ele = vacant | apple | wall | bodyu | bodyr | bodyd | bodyl

text \<open>A point has its coordinate \<^verbatim>\<open>x\<close> first; the arrays are indexed by \<^verbatim>\<open>y\<close> and \<^verbatim>\<open>x\<close>.\<close>

type_synonym pnt = "int \<times> int"

record game =
  snake_map :: "pnt \<Rightarrow> map_ele"
  unchange :: "pnt \<Rightarrow> bool"
  empty_cnt :: nat
  g_head :: pnt
  g_tail :: pnt
  score :: int

definition on_board :: "pnt \<Rightarrow> bool" where
  "on_board p \<longleftrightarrow> 0 \<le> fst p \<and> fst p < MAX_WIDTH \<and> 0 \<le> snd p \<and> snd p < MAX_HEIGHT"

definition border :: "pnt \<Rightarrow> bool" where
  "border p \<longleftrightarrow> snd p = 0 \<or> snd p = MAX_HEIGHT - 1 \<or> fst p = 0 \<or> fst p = MAX_WIDTH - 1"

text \<open>The cells in the order of the nested loops over \<^verbatim>\<open>i\<close> (rows) and \<^verbatim>\<open>j\<close> (columns), and over \<^verbatim>\<open>x\<close> and \<^verbatim>\<open>y\<close>.\<close>

definition row_order :: "pnt list" where
  "row_order = map (\<lambda>(i, j). (j, i)) (List.product [0..MAX_HEIGHT - 1] [0..MAX_WIDTH - 1])"

definition column_order :: "pnt list" where
  "column_order = List.product [0..MAX_WIDTH - 1] [0..MAX_HEIGHT - 1]"

definition set_cell :: "pnt \<Rightarrow> map_ele \<Rightarrow> game \<Rightarrow> game" where
  "set_cell p c g = g\<lparr>snake_map := (snake_map g)(p := c)\<rparr>"

definition redraw :: "pnt \<Rightarrow> game \<Rightarrow> game" where
  "redraw p g = g\<lparr>unchange := (unchange g)(p := False)\<rparr>"

section \<open>Apples\<close>

fun apple_loop :: "pnt list \<Rightarrow> nat \<Rightarrow> game \<Rightarrow> game" where
  "apple_loop [] index g = g"
| "apple_loop (p # ps) index g =
     (let index = (if snake_map g p = vacant then index - 1 else index) in
      if index = 0 then (redraw p (set_cell p apple g))\<lparr>empty_cnt := empty_cnt g - 1\<rparr>
      else apple_loop ps index g)"

definition gen_apple :: "nat \<Rightarrow> game \<Rightarrow> game res" where
  "gen_apple rnd g =
     (if empty_cnt g = 0 then Inl DivZero
      else Inr (apple_loop row_order (rnd mod empty_cnt g + 1) g))"

text \<open>The static array \<^verbatim>\<open>unchange\<close> is zero when the program starts.\<close>

definition init_game :: "nat \<Rightarrow> game res" where
  "init_game rnd =
     (let hd = ((MAX_WIDTH + 1) div 2, MAX_HEIGHT div 2);
          tl = ((MAX_WIDTH - 1) div 2, MAX_HEIGHT div 2);
          m = (\<lambda>p. if border p then wall else vacant);
          m = m(hd := bodyr);
          m = m(tl := bodyr);
          cnt = length (filter (\<lambda>p. m p = vacant) row_order)
      in gen_apple rnd \<lparr>snake_map = m, unchange = (\<lambda>_. False), empty_cnt = cnt, g_head = hd, g_tail = tl, score = 0\<rparr>)"

section \<open>A step of the game\<close>

text \<open>The arrays \<^verbatim>\<open>x\<close> and \<^verbatim>\<open>y\<close> of \<^verbatim>\<open>step_game_do\<close>, indexed by the direction of a body cell.\<close>

fun heading :: "map_ele \<Rightarrow> pnt option" where
  "heading bodyu = Some (0, -1)"
| "heading bodyr = Some (1, 0)"
| "heading bodyd = Some (0, 1)"
| "heading bodyl = Some (-1, 0)"
| "heading _ = None"

definition towards :: "pnt \<Rightarrow> pnt \<Rightarrow> pnt" where
  "towards p d = (fst p + fst d, snd p + snd d)"

definition step_game_do :: "nat \<Rightarrow> game \<Rightarrow> (nat \<times> game) res" where
  "step_game_do rnd g =
     (case (heading (snake_map g (g_head g)), heading (snake_map g (g_tail g))) of
        (Some d, Some t) \<Rightarrow>
          let nxt = towards (g_head g) d in
          bindE (guardE OutOfBounds (on_board nxt)) (\<lambda>_.
          if snake_map g nxt \<noteq> vacant \<and> snake_map g nxt \<noteq> apple then Inr (0, g)
          else if snake_map g nxt = apple then
            bindE (gen_apple rnd g) (\<lambda>g.
            let g = set_cell nxt (snake_map g (g_head g)) g;
                g = redraw (g_head g) g;
                g = g\<lparr>g_head := nxt\<rparr>;
                g = redraw (g_head g) g
            in Inr (1, g\<lparr>score := score g + 1\<rparr>))
          else
            let g = set_cell nxt (snake_map g (g_head g)) g;
                g = redraw (g_head g) g;
                g = g\<lparr>g_head := nxt\<rparr>;
                g = redraw (g_head g) g;
                g = set_cell (g_tail g) vacant g;
                g = redraw (g_tail g) g;
                g = g\<lparr>g_tail := towards (g_tail g) t\<rparr>;
                g = redraw (g_tail g) g
            in Inr (1, g))
      | _ \<Rightarrow> Inl OutOfBounds)"

section \<open>Drawing\<close>

text \<open>The screen is a map of pixels; \<^verbatim>\<open>draw_rect\<close> copies a rectangle of pixels to it.\<close>

type_synonym screen = "int \<times> int \<Rightarrow> u32"

definition draw_rect :: "(nat \<Rightarrow> u32) \<Rightarrow> int \<Rightarrow> int \<Rightarrow> int \<Rightarrow> int \<Rightarrow> screen \<Rightarrow> screen" where
  "draw_rect pixels x y w h scr = (\<lambda>(px, py).
     if x \<le> px \<and> px < x + w \<and> y \<le> py \<and> py < y + h then pixels (nat ((py - y) * w + (px - x))) else scr (px, py))"

fun col :: "map_ele \<Rightarrow> u32" where
  "col vacant = 0xffffff"
| "col apple = 0xff0000"
| "col wall = 0x000000"
| "col _ = 0x3f9fff"

definition head_col :: u32 where "head_col = 0x1f6fff"

definition SIDE_of :: "nat \<Rightarrow> nat \<Rightarrow> int" where
  "SIDE_of w h = (if w div nat MAX_WIDTH < h div nat MAX_HEIGHT then int (w div nat MAX_WIDTH) else int (h div nat MAX_HEIGHT))"

text \<open>The buffer \<^verbatim>\<open>pixels\<close> filled with one colour, and drawn at a cell.\<close>

definition draw_cell :: "int \<Rightarrow> pnt \<Rightarrow> u32 \<Rightarrow> screen \<Rightarrow> screen" where
  "draw_cell side p c = draw_rect (\<lambda>i. c) (fst p * side) (snd p * side) side side"

fun show_loop :: "int \<Rightarrow> pnt list \<Rightarrow> game \<times> screen \<Rightarrow> game \<times> screen" where
  "show_loop side [] (g, scr) = (g, scr)"
| "show_loop side (p # ps) (g, scr) =
     (if unchange g p then show_loop side ps (g, scr)
      else show_loop side ps (g\<lparr>unchange := (unchange g)(p := True)\<rparr>, draw_cell side p (col (snake_map g p)) scr))"

definition show_board :: "nat \<Rightarrow> nat \<Rightarrow> game \<times> screen \<Rightarrow> (game \<times> screen) res" where
  "show_board w h = (\<lambda>(g, scr).
     let side = SIDE_of w h in
     bindE (guardE OutOfBounds (side * side \<le> 2048)) (\<lambda>_.
     let (g, scr) = show_loop side column_order (g, scr)
     in Inr (g, draw_cell side (g_head g) head_col scr)))"

text \<open>The version of \<^verbatim>\<open>snake.h\<close>, which redraws every cell.\<close>

fun show_all_loop :: "int \<Rightarrow> pnt list \<Rightarrow> game \<Rightarrow> screen \<Rightarrow> screen" where
  "show_all_loop side [] g scr = scr"
| "show_all_loop side (p # ps) g scr = show_all_loop side ps g (draw_cell side p (col (snake_map g p)) scr)"

definition show_all :: "nat \<Rightarrow> nat \<Rightarrow> game \<Rightarrow> screen \<Rightarrow> screen res" where
  "show_all w h g scr =
     (let side = SIDE_of w h in
      bindE (guardE OutOfBounds (side * side \<le> 2048)) (\<lambda>_.
      Inr (draw_cell side (g_head g) head_col (show_all_loop side column_order g scr))))"

section \<open>Keys\<close>

datatype keycode = KEY_NONE | KEY_W | KEY_A | KEY_S | KEY_D | KEY_Q | KEY_OTHER

definition turn :: "keycode \<Rightarrow> game \<Rightarrow> game" where
  "turn key g =
     (let here = snake_map g (g_head g) in
      if key = KEY_W then (if here \<noteq> bodyd then set_cell (g_head g) bodyu g else g)
      else if key = KEY_D then (if here \<noteq> bodyl then set_cell (g_head g) bodyr g else g)
      else if key = KEY_S then (if here \<noteq> bodyu then set_cell (g_head g) bodyd g else g)
      else if key = KEY_A then (if here \<noteq> bodyr then set_cell (g_head g) bodyl g else g)
      else g)"

definition step_game :: "nat \<Rightarrow> nat \<Rightarrow> keycode \<Rightarrow> bool \<Rightarrow> nat \<Rightarrow> game \<times> screen \<Rightarrow> (nat \<times> game \<times> screen) res" where
  "step_game w h key keydown rnd = (\<lambda>(g, scr).
     if key \<noteq> KEY_NONE \<and> keydown \<and> key = KEY_Q then Inr (0, g, scr)
     else
       let g = (if key \<noteq> KEY_NONE \<and> keydown then turn key g else g) in
       bindE (step_game_do rnd g) (\<lambda>(ret, g).
       bindE (show_board w h (g, scr)) (\<lambda>(g, scr).
       Inr (ret, g, scr))))"

text \<open>\<^verbatim>\<open>CLEAR_SCREEN\<close> fills the screen with black cells; the main loop runs steps until one returns 0.\<close>

fun play :: "nat \<Rightarrow> nat \<Rightarrow> (keycode \<times> bool \<times> nat) list \<Rightarrow> game \<times> screen \<Rightarrow> (game \<times> screen) res" where
  "play w h [] s = Inr s"
| "play w h ((key, keydown, rnd) # evs) s =
     bindE (step_game w h key keydown rnd s) (\<lambda>(ret, s). if ret = 0 then Inr s else play w h evs s)"

section \<open>The body of the snake\<close>

definition is_body :: "map_ele \<Rightarrow> bool" where
  "is_body c \<longleftrightarrow> heading c \<noteq> None"

text \<open>Each cell of the list points to the next one; the last cell points anywhere.\<close>

fun body_path :: "(pnt \<Rightarrow> map_ele) \<Rightarrow> pnt list \<Rightarrow> bool" where
  "body_path m (p # q # ps) \<longleftrightarrow> (\<exists>d. heading (m p) = Some d \<and> q = towards p d) \<and> body_path m (q # ps)"
| "body_path m [p] \<longleftrightarrow> is_body (m p)"
| "body_path m [] \<longleftrightarrow> False"

definition the_cells :: "(pnt \<Rightarrow> map_ele) \<Rightarrow> map_ele \<Rightarrow> pnt set" where
  "the_cells m c = {p. on_board p \<and> m p = c}"

text \<open>
  The state of the game is consistent: the body is a path without repetition from the tail to the head, the other cells of
  the board are walls at the border, exactly one apple, and as many vacant cells as the counter says.  The snake has
  grown by one cell for each point of the score.
\<close>

definition snake_rep :: "game \<Rightarrow> pnt list \<Rightarrow> bool" where
  "snake_rep g ps \<longleftrightarrow>
     2 \<le> length ps \<and> int (length ps) = score g + 2 \<and> hd ps = g_tail g \<and> last ps = g_head g \<and> distinct ps \<and> body_path (snake_map g) ps \<and>
     (\<forall>p. on_board p \<longrightarrow> (p \<in> set ps \<longleftrightarrow> is_body (snake_map g p))) \<and> (\<forall>p\<in>set ps. on_board p) \<and>
     (\<forall>p. on_board p \<longrightarrow> (snake_map g p = wall \<longleftrightarrow> border p)) \<and>
     (\<exists>a. the_cells (snake_map g) apple = {a}) \<and> empty_cnt g = card (the_cells (snake_map g) vacant)"

definition snake_ok :: "game \<Rightarrow> bool" where
  "snake_ok g \<longleftrightarrow> (\<exists>ps. snake_rep g ps)"

end
