(* ===== verification/Snake_Correct.thy ===== *)
theory Snake_Correct
  imports Snake
begin

text \<open>
  The game keeps its board consistent in every run, and the incremental drawing shows the same picture as drawing
  every cell.
\<close>

section \<open>The board\<close>

lemmas board_consts = MAX_WIDTH_def MAX_HEIGHT_def

lemma set_row_order: "set row_order = {p. on_board p}"
  by (force simp: row_order_def on_board_def board_consts)

lemma set_column_order: "set column_order = {p. on_board p}"
  by (force simp: column_order_def on_board_def board_consts)

lemma distinct_row_order: "distinct row_order"
  unfolding row_order_def by (simp add: distinct_map distinct_product inj_on_def split: prod.splits)

lemma distinct_column_order: "distinct column_order"
  unfolding column_order_def by (simp add: distinct_product)

lemma finite_board: "finite {p. on_board p}"
  unfolding set_row_order [symmetric] by simp

lemma finite_the_cells [simp]: "finite (the_cells m c)"
  by (rule finite_subset [OF _ finite_board]) (auto simp: the_cells_def)

lemma length_filter_row_order: "length (filter (\<lambda>p. m p = c) row_order) = card (the_cells m c)"
proof -
  have "set (filter (\<lambda>p. m p = c) row_order) = the_cells m c" by (auto simp: the_cells_def set_row_order)
  then show ?thesis using distinct_card [of "filter (\<lambda>p. m p = c) row_order"] distinct_row_order by simp
qed

lemma border_on_board: "on_board p \<Longrightarrow> \<not> border p \<Longrightarrow> heading c = Some d \<Longrightarrow> on_board (towards p d)"
  by (cases c) (auto simp: on_board_def border_def towards_def board_consts)

lemma game_simps [simp]:
  "snake_map (set_cell p c g) = (snake_map g)(p := c)" "snake_map (redraw p g) = snake_map g"
  "unchange (set_cell p c g) = unchange g" "unchange (redraw p g) = (unchange g)(p := False)"
  "empty_cnt (set_cell p c g) = empty_cnt g" "empty_cnt (redraw p g) = empty_cnt g"
  "g_head (set_cell p c g) = g_head g" "g_head (redraw p g) = g_head g"
  "g_tail (set_cell p c g) = g_tail g" "g_tail (redraw p g) = g_tail g"
  "score (set_cell p c g) = score g" "score (redraw p g) = score g"
  by (simp_all add: set_cell_def redraw_def)

lemma is_body_simps [simp]:
  "\<not> is_body vacant" "\<not> is_body apple" "\<not> is_body wall" "is_body bodyu" "is_body bodyr" "is_body bodyd" "is_body bodyl"
  by (simp_all add: is_body_def)

text \<open>Changing one cell of the board.\<close>

lemma the_cells_upd:
  "on_board p \<Longrightarrow> the_cells (m(p := c)) k = (if c = k then insert p (the_cells m k) else the_cells m k - {p})"
  by (auto simp: the_cells_def)

section \<open>Apples\<close>

text \<open>The loop turns one vacant cell into the apple when it counts to at most the number of vacant cells.\<close>

lemma apple_loop_places:
  assumes "1 \<le> index" and "index \<le> length (filter (\<lambda>p. snake_map g p = vacant) ps)"
  shows "\<exists>p\<in>set ps. snake_map g p = vacant \<and>
    apple_loop ps index g = (redraw p (set_cell p apple g))\<lparr>empty_cnt := empty_cnt g - 1\<rparr>"
  using assms
proof (induction ps arbitrary: index)
  case (Cons p ps)
  show ?case
  proof (cases "snake_map g p = vacant \<and> index = 1")
    case True
    then show ?thesis by simp
  next
    case False
    let ?i = "if snake_map g p = vacant then index - 1 else index"
    have "1 \<le> ?i" "?i \<le> length (filter (\<lambda>p. snake_map g p = vacant) ps)" using False Cons.prems by auto
    with Cons.IH [of ?i] have "\<exists>q\<in>set ps. snake_map g q = vacant \<and>
      apple_loop ps ?i g = (redraw q (set_cell q apple g))\<lparr>empty_cnt := empty_cnt g - 1\<rparr>" by blast
    then show ?thesis using \<open>1 \<le> ?i\<close> by (auto simp: Let_def)
  qed
qed simp

lemma gen_apple_places:
  assumes c: "empty_cnt g = card (the_cells (snake_map g) vacant)" and pos: "empty_cnt g \<noteq> 0"
  shows "\<exists>p. on_board p \<and> snake_map g p = vacant \<and>
    gen_apple rnd g = Inr ((redraw p (set_cell p apple g))\<lparr>empty_cnt := empty_cnt g - 1\<rparr>)"
proof -
  have "rnd mod empty_cnt g < empty_cnt g" using pos by simp
  then have "rnd mod empty_cnt g + 1 \<le> length (filter (\<lambda>p. snake_map g p = vacant) row_order)"
    unfolding length_filter_row_order c [symmetric] by simp
  with apple_loop_places [of "rnd mod empty_cnt g + 1" g row_order] pos show ?thesis
    by (auto simp: gen_apple_def set_row_order)
qed

section \<open>The body\<close>

lemma body_path_cong: "(\<And>p. p \<in> set ps \<Longrightarrow> m' p = m p) \<Longrightarrow> body_path m' ps = body_path m ps"
  by (induction m ps rule: body_path.induct) auto

lemma body_path_ne: "body_path m ps \<Longrightarrow> ps \<noteq> []"
  by auto

lemma body_path_append:
  "ps \<noteq> [] \<Longrightarrow> body_path m (ps @ [q]) \<longleftrightarrow>
     body_path m ps \<and> (\<exists>d. heading (m (last ps)) = Some d \<and> q = towards (last ps) d) \<and> is_body (m q)"
  by (induction m ps rule: body_path.induct) (auto simp: is_body_def)

text \<open>The cell of the head may turn.\<close>

lemma body_path_turn:
  assumes "body_path m ps" and "distinct ps" and "is_body c"
  shows "body_path (m(last ps := c)) ps"
  using assms
proof (induction m ps rule: body_path.induct)
  case (1 m p q ps)
  have "last (q # ps) \<in> set (q # ps)" by (rule last_in_set) simp
  then have "last (q # ps) \<noteq> p" using "1.prems"(2) by auto
  then show ?case using 1 by auto
qed simp_all

lemma body_path_tl:
  assumes "body_path m ps" and "2 \<le> length ps"
  shows "body_path m (tl ps)" and "\<exists>d. heading (m (hd ps)) = Some d \<and> hd (tl ps) = towards (hd ps) d"
proof -
  obtain p q qs where "ps = p # q # qs" using assms(2) by (cases ps; cases "tl ps"; auto)
  then show "body_path m (tl ps)" "\<exists>d. heading (m (hd ps)) = Some d \<and> hd (tl ps) = towards (hd ps) d" using assms(1) by auto
qed

section \<open>Steps keep the game consistent\<close>

lemma snake_repD:
  assumes "snake_rep g ps"
  shows "2 \<le> length ps" and "int (length ps) = score g + 2" and "hd ps = g_tail g" and "last ps = g_head g" and "distinct ps"
    and "body_path (snake_map g) ps" and "\<And>p. on_board p \<Longrightarrow> p \<in> set ps \<longleftrightarrow> is_body (snake_map g p)" and "\<And>p. p \<in> set ps \<Longrightarrow> on_board p"
    and "\<And>p. on_board p \<Longrightarrow> snake_map g p = wall \<longleftrightarrow> border p" and "\<exists>a. the_cells (snake_map g) apple = {a}"
    and "empty_cnt g = card (the_cells (snake_map g) vacant)"
  using assms by (auto simp: snake_rep_def)

lemma head_facts:
  assumes r: "snake_rep g ps"
  shows "g_head g \<in> set ps" and "on_board (g_head g)" and "is_body (snake_map g (g_head g))" and "\<not> border (g_head g)"
proof -
  note D = snake_repD [OF r]
  have "ps \<noteq> []" using D(1) by (cases ps) simp_all
  then show h: "g_head g \<in> set ps" using last_in_set [of ps] D(4) by simp
  then show b: "on_board (g_head g)" by (rule D(8))
  show c: "is_body (snake_map g (g_head g))" using D(7) [OF b] h by simp
  then have "snake_map g (g_head g) \<noteq> wall" by (metis is_body_simps(3))
  then show "\<not> border (g_head g)" using D(9) [OF b] by simp
qed

lemma turn_rep: "snake_rep g ps \<Longrightarrow> snake_rep (turn key g) ps"
proof -
  assume r: "snake_rep g ps"
  note D = snake_repD [OF r]
  have ne: "ps \<noteq> []" using D(1) by auto
  note h = head_facts [OF r]
  have "snake_rep (set_cell (g_head g) c g) ps" if c: "is_body c" for c
  proof -
    have nc: "c \<noteq> wall" using c by auto
    have "g_head g \<notin> the_cells (snake_map g) k" if "\<not> is_body k" for k using h(3) that by (auto simp: the_cells_def)
    then have keep: "the_cells ((snake_map g)(g_head g := c)) k = the_cells (snake_map g) k" if "\<not> is_body k" for k
      using that c by (auto simp: the_cells_upd [OF h(2)])
    have "body_path ((snake_map g)(g_head g := c)) ps" using body_path_turn [OF D(6,5) c] D(4) by simp
    then show ?thesis using D h c nc keep [of apple] keep [of vacant] by (simp add: snake_rep_def)
  qed
  then show ?thesis using r by (auto simp: turn_def Let_def)
qed

text \<open>The snake grows into the apple: the new apple has been placed before.\<close>

lemma eat_rep:
  assumes r: "snake_rep g ps" and d: "heading (snake_map g (g_head g)) = Some d" and n: "snake_map g (towards (g_head g) d) = apple"
    and b: "on_board (towards (g_head g) d)" and q: "on_board q" "snake_map g q = vacant"
    and m: "snake_map g' = (snake_map g)(q := apple, towards (g_head g) d := snake_map g (g_head g))"
    and f: "g_head g' = towards (g_head g) d" "g_tail g' = g_tail g" "empty_cnt g' = empty_cnt g - 1" "score g' = score g + 1"
  shows "snake_rep g' (ps @ [towards (g_head g) d])"
proof -
  note D = snake_repD [OF r] and h = head_facts [OF r]
  let ?n = "towards (g_head g) d"
  have ne: "ps \<noteq> []" using h(1) by (cases ps) simp_all
  have qn: "q \<noteq> ?n" using q(2) n by (metis map_ele.distinct(1))
  have out: "q \<notin> set ps" "?n \<notin> set ps" using D(7) [OF q(1)] D(7) [OF b] q(2) n by simp_all
  have hb: "snake_map g (g_head g) \<noteq> apple" "snake_map g (g_head g) \<noteq> vacant" "snake_map g (g_head g) \<noteq> wall"
    using h(3) by (metis is_body_simps)+
  have ap: "the_cells (snake_map g) apple = {?n}"
  proof -
    obtain a where a: "the_cells (snake_map g) apple = {a}" using D(10) by blast
    have "?n \<in> the_cells (snake_map g) apple" using n b by (simp add: the_cells_def)
    then show ?thesis using a by simp
  qed
  have "the_cells (snake_map g') apple = {q}"
    unfolding m the_cells_upd [OF b] the_cells_upd [OF q(1)] ap using qn hb(1) by auto
  moreover have "the_cells (snake_map g') vacant = the_cells (snake_map g) vacant - {q}"
    unfolding m the_cells_upd [OF b] the_cells_upd [OF q(1)] using hb(2) n by (simp add: the_cells_def)
  then have "empty_cnt g' = card (the_cells (snake_map g') vacant)" using D(11) f(3) q by (simp add: the_cells_def)
  moreover have "body_path (snake_map g') (ps @ [?n])"
  proof -
    have "snake_map g' p = snake_map g p" if "p \<in> set ps" for p using that out unfolding m by (metis fun_upd_other)
    then have "body_path (snake_map g') ps" "snake_map g' (last ps) = snake_map g (last ps)"
      using D(4,6) h(1) body_path_cong [of ps "snake_map g'" "snake_map g"] by simp_all
    then show ?thesis using h(3) d D(4) unfolding body_path_append [OF ne] by (simp add: m)
  qed
  moreover have "p \<in> set (ps @ [?n]) \<longleftrightarrow> is_body (snake_map g' p)" if "on_board p" for p
    using D(7) [OF that] h(3) out(1) q(2) by (simp add: m)
  moreover have "snake_map g' p = wall \<longleftrightarrow> border p" if "on_board p" for p
    using D(9) [OF that] D(9) [OF q(1)] D(9) [OF b] hb(3) q(2) n by (simp add: m)
  ultimately show ?thesis using D f b out ne by (simp add: snake_rep_def hd_append)
qed

text \<open>The snake moves into a vacant cell and leaves the cell of its tail.\<close>

lemma move_rep:
  assumes r: "snake_rep g ps" and d: "heading (snake_map g (g_head g)) = Some d" and n: "snake_map g (towards (g_head g) d) = vacant"
    and b: "on_board (towards (g_head g) d)" and t: "heading (snake_map g (g_tail g)) = Some t"
    and m: "snake_map g' = (snake_map g)(towards (g_head g) d := snake_map g (g_head g), g_tail g := vacant)"
    and f: "g_head g' = towards (g_head g) d" "g_tail g' = towards (g_tail g) t" "empty_cnt g' = empty_cnt g" "score g' = score g"
  shows "snake_rep g' (tl ps @ [towards (g_head g) d])"
proof -
  note D = snake_repD [OF r] and h = head_facts [OF r]
  let ?n = "towards (g_head g) d" and ?t = "g_tail g"
  obtain qs where qs: "ps = ?t # qs" "qs \<noteq> []" using D(1,3) by (cases ps; cases "tl ps"; auto)
  have tb: "on_board ?t" "is_body (snake_map g ?t)" using D(7,8) [of ?t] qs(1) by simp_all
  have out: "?n \<notin> set ps" "?t \<notin> set qs" "?n \<noteq> ?t" using D(7) [OF b] n D(5) qs(1) tb(2) by auto
  have hb: "snake_map g (g_head g) \<noteq> apple" "snake_map g (g_head g) \<noteq> vacant" "snake_map g (g_head g) \<noteq> wall"
    using h(3) by (metis is_body_simps)+
  have tbn: "snake_map g ?t \<noteq> apple" "snake_map g ?t \<noteq> vacant" "snake_map g ?t \<noteq> wall" using tb(2) by (metis is_body_simps)+
  have lq: "last qs = g_head g" using D(4) qs by simp
  have "the_cells (snake_map g') apple = the_cells (snake_map g) apple"
    unfolding m the_cells_upd [OF tb(1)] the_cells_upd [OF b] using hb(1) tbn(1) n by (simp add: the_cells_def)
  moreover have "card (the_cells (snake_map g') vacant) = card (the_cells (snake_map g) vacant)"
  proof -
    have e: "the_cells (snake_map g') vacant = insert ?t (the_cells (snake_map g) vacant - {?n})"
      unfolding m the_cells_upd [OF tb(1)] the_cells_upd [OF b] using hb(2) by simp
    have "?n \<in> the_cells (snake_map g) vacant" "?t \<notin> the_cells (snake_map g) vacant" using n b tbn(2) by (simp_all add: the_cells_def)
    then show ?thesis unfolding e using card_Suc_Diff1 [of "the_cells (snake_map g) vacant" ?n] by simp
  qed
  moreover have "body_path (snake_map g') (qs @ [?n])"
  proof -
    have same: "snake_map g' p = snake_map g p" if "p \<in> set qs" for p using that out qs(1) unfolding m by auto
    have "body_path (snake_map g) qs" using body_path_tl(1) [OF D(6,1)] qs(1) by simp
    then have "body_path (snake_map g') qs" using body_path_cong [of qs "snake_map g'" "snake_map g"] same by simp
    moreover have "snake_map g' (last qs) = snake_map g (g_head g)" using same [of "last qs"] last_in_set [OF qs(2)] lq by simp
    ultimately show ?thesis using h(3) d lq out(3) unfolding body_path_append [OF qs(2)] by (simp add: m)
  qed
  moreover have "p \<in> set (qs @ [?n]) \<longleftrightarrow> is_body (snake_map g' p)" if "on_board p" for p
    using D(7) [OF that] h(3) out qs(1) by (auto simp: m)
  moreover have "snake_map g' p = wall \<longleftrightarrow> border p" if "on_board p" for p
    using D(9) [OF that] D(9) [OF b] D(9) [OF tb(1)] hb(3) tbn(3) n by (simp add: m)
  moreover have "hd qs = towards ?t t" using body_path_tl(2) [OF D(6,1)] t qs(1) by simp
  moreover have "on_board p" if "p \<in> set (qs @ [?n])" for p using that D(8) [of p] b qs(1) by auto
  moreover have "distinct (qs @ [?n])" "2 \<le> length (qs @ [?n])" "int (length (qs @ [?n])) = score g + 2"
    using D(1,2,5) out(1) qs(1) by (auto simp: distinct_append)
  ultimately show ?thesis using D(10,11) f qs(2) unfolding snake_rep_def qs(1) list.sel by (simp add: hd_append)
qed

lemma step_game_do_rep:
  assumes r: "snake_rep g ps"
  obtains (full) "step_game_do rnd g = Inl DivZero" and "empty_cnt g = 0"
  | (hit) "step_game_do rnd g = Inr (0, g)"
  | (alive) g' ps' where "step_game_do rnd g = Inr (1, g')" and "snake_rep g' ps'"
proof -
  note D = snake_repD [OF r] and h = head_facts [OF r]
  obtain d where d: "heading (snake_map g (g_head g)) = Some d" using h(3) by (auto simp: is_body_def)
  obtain t where t: "heading (snake_map g (g_tail g)) = Some t" using body_path_tl(2) [OF D(6,1)] D(3) by auto
  let ?n = "towards (g_head g) d"
  have b: "on_board ?n" by (rule border_on_board [OF h(2,4) d])
  consider "snake_map g ?n \<noteq> vacant \<and> snake_map g ?n \<noteq> apple" | "snake_map g ?n = apple" | "snake_map g ?n = vacant" by blast
  then show thesis
  proof cases
    case 1
    then show thesis using hit d t b by (simp add: step_game_do_def)
  next
    case 2
    show thesis
    proof (cases "empty_cnt g = 0")
      case True
      then show thesis using full 2 d t b by (simp add: step_game_do_def gen_apple_def)
    next
      case False
      obtain q where q: "on_board q" "snake_map g q = vacant"
        "gen_apple rnd g = Inr ((redraw q (set_cell q apple g))\<lparr>empty_cnt := empty_cnt g - 1\<rparr>)"
        using gen_apple_places [OF D(11) False] by blast
      have qh: "q \<noteq> g_head g" using q(2) h(3) by auto
      obtain g' where g': "step_game_do rnd g = Inr (1, g')"
        "snake_map g' = (snake_map g)(q := apple, ?n := snake_map g (g_head g))" "g_head g' = ?n" "g_tail g' = g_tail g"
        "empty_cnt g' = empty_cnt g - 1" "score g' = score g + 1"
        using 2 d t b q(3) qh by (simp add: step_game_do_def Let_def)
      then show thesis using alive eat_rep [OF r d 2 b q(1,2)] by blast
    qed
  next
    case 3
    obtain g' where g': "step_game_do rnd g = Inr (1, g')"
      "snake_map g' = (snake_map g)(?n := snake_map g (g_head g), g_tail g := vacant)" "g_head g' = ?n" "g_tail g' = towards (g_tail g) t"
      "empty_cnt g' = empty_cnt g" "score g' = score g"
      using 3 d t b by (simp add: step_game_do_def Let_def)
    then show thesis using alive move_rep [OF r d 3 b t] by blast
  qed
qed

text \<open>Drawing changes nothing but the marks.\<close>

lemma show_loop_fields:
  "snake_map (fst (show_loop side ps s)) = snake_map (fst s) \<and> g_head (fst (show_loop side ps s)) = g_head (fst s) \<and>
   g_tail (fst (show_loop side ps s)) = g_tail (fst s) \<and> empty_cnt (fst (show_loop side ps s)) = empty_cnt (fst s) \<and>
   score (fst (show_loop side ps s)) = score (fst s) \<and> (\<forall>p. unchange (fst (show_loop side ps s)) p \<longleftrightarrow> unchange (fst s) p \<or> p \<in> set ps)"
  by (induction side ps s rule: show_loop.induct) auto

lemma snake_rep_cong:
  "snake_rep g ps \<Longrightarrow> snake_map g' = snake_map g \<Longrightarrow> g_head g' = g_head g \<Longrightarrow> g_tail g' = g_tail g \<Longrightarrow> empty_cnt g' = empty_cnt g \<Longrightarrow>
    score g' = score g \<Longrightarrow> snake_rep g' ps"
  by (simp add: snake_rep_def)

lemma show_board_rep:
  assumes "snake_rep g ps" and "SIDE_of w h * SIDE_of w h \<le> 2048"
  shows "\<exists>g' scr'. show_board w h (g, scr) = Inr (g', scr') \<and> snake_rep g' ps"
proof -
  obtain g' scr' where l: "show_loop (SIDE_of w h) column_order (g, scr) = (g', scr')" by fastforce
  have "snake_rep g' ps"
    using show_loop_fields [of "SIDE_of w h" column_order "(g, scr)"] by (intro snake_rep_cong [OF assms(1)]) (simp_all add: l)
  then show ?thesis using assms(2) by (simp add: show_board_def l)
qed

lemma step_game_ok:
  assumes ok: "snake_ok g" and side: "SIDE_of w h * SIDE_of w h \<le> 2048"
  shows "step_game w h key keydown rnd (g, scr) = Inl DivZero \<and> empty_cnt g = 0 \<or>
    (\<exists>ret g' scr'. step_game w h key keydown rnd (g, scr) = Inr (ret, g', scr') \<and> snake_ok g')"
proof (cases "key \<noteq> KEY_NONE \<and> keydown \<and> key = KEY_Q")
  case True
  then show ?thesis using ok by (simp add: step_game_def)
next
  case False
  obtain ps where r: "snake_rep g ps" using ok by (auto simp: snake_ok_def)
  define g0 where "g0 = (if key \<noteq> KEY_NONE \<and> keydown then turn key g else g)"
  have r0: "snake_rep g0 ps" using r turn_rep [OF r] by (simp add: g0_def)
  have e0: "empty_cnt g0 = empty_cnt g" by (simp add: g0_def turn_def Let_def)
  have st: "step_game w h key keydown rnd (g, scr) =
    bindE (step_game_do rnd g0) (\<lambda>(ret, g). bindE (show_board w h (g, scr)) (\<lambda>(g, scr). Inr (ret, g, scr)))"
    using False unfolding step_game_def g0_def by auto
  show ?thesis
  proof (rule step_game_do_rep [OF r0, of rnd])
    assume "step_game_do rnd g0 = Inl DivZero" "empty_cnt g0 = 0"
    then show ?thesis using e0 by (simp add: st)
  next
    assume "step_game_do rnd g0 = Inr (0, g0)"
    then show ?thesis using show_board_rep [OF r0 side, of scr] by (auto simp: st snake_ok_def)
  next
    fix g' ps' assume "step_game_do rnd g0 = Inr (1, g')" "snake_rep g' ps'"
    then show ?thesis using show_board_rep [OF _ side, of g' ps' scr] by (auto simp: st snake_ok_def)
  qed
qed

text \<open>The position before the first apple is placed.\<close>

definition start_map :: "pnt \<Rightarrow> map_ele" where
  "start_map = (\<lambda>p. if border p then wall else vacant)((20, 20) := bodyr, (19, 20) := bodyr)"

definition start_game :: game where
  "start_game = \<lparr>snake_map = start_map, unchange = (\<lambda>_. False), empty_cnt = card (the_cells start_map vacant),
     g_head = (20, 20), g_tail = (19, 20), score = 0\<rparr>"

lemma init_game_eq: "init_game rnd = gen_apple rnd start_game"
  unfolding init_game_def start_game_def start_map_def length_filter_row_order [symmetric] by (simp add: board_consts Let_def)

lemma start_room: "2 \<le> empty_cnt start_game"
proof -
  have "{(1, 1), (1, 2)} \<subseteq> the_cells start_map vacant" by (simp add: start_map_def the_cells_def border_def on_board_def board_consts)
  then have "card {(1 :: int, 1 :: int), (1, 2)} \<le> card (the_cells start_map vacant)" by (rule card_mono [OF finite_the_cells])
  then show ?thesis by (simp add: start_game_def)
qed

lemma init_game_ok: "\<exists>g. init_game rnd = Inr g \<and> snake_ok g \<and> empty_cnt g \<noteq> 0"
proof -
  let ?h = "(20, 20) :: pnt" and ?t = "(19, 20) :: pnt"
  define m where m: "m = start_map"
  define g where g: "g = start_game"
  note m_def = m [unfolded start_map_def] and g_def = g [unfolded start_game_def m [symmetric]]
  have two: "2 \<le> empty_cnt g" using start_room by (simp add: g)
  then have "empty_cnt g \<noteq> 0" by simp
  then obtain p where p: "on_board p" "m p = vacant" "gen_apple rnd g = Inr ((redraw p (set_cell p apple g))\<lparr>empty_cnt := empty_cnt g - 1\<rparr>)"
    using gen_apple_places [of g rnd] by (auto simp: g_def)
  let ?g = "(redraw p (set_cell p apple g))\<lparr>empty_cnt := empty_cnt g - 1\<rparr>"
  have pn: "p \<noteq> ?h" "p \<noteq> ?t" "\<not> border p" using p(2) by (auto simp: m_def split: if_splits)
  have "the_cells m apple = {}" by (auto simp: the_cells_def m_def split: if_splits)
  then have "the_cells (m(p := apple)) apple = {p}" by (simp add: the_cells_upd [OF p(1)])
  moreover have "card (the_cells (m(p := apple)) vacant) = card (the_cells m vacant) - 1"
  proof -
    have "p \<in> the_cells m vacant" using p(1,2) by (simp add: the_cells_def)
    then show ?thesis by (simp add: the_cells_upd [OF p(1)])
  qed
  moreover have "body_path (m(p := apple)) [?t, ?h]" using pn by (simp add: m_def towards_def)
  moreover have "q \<in> {?t, ?h} \<longleftrightarrow> is_body ((m(p := apple)) q)" for q using pn by (auto simp: m_def)
  moreover have "(m(p := apple)) q = wall \<longleftrightarrow> border q" for q using pn by (auto simp: m_def border_def board_consts)
  ultimately have "snake_rep ?g [?t, ?h]"
    by (simp add: snake_rep_def g_def) (simp add: on_board_def board_consts)
  then show ?thesis using init_game_eq [of rnd] p(3) two by (auto simp: snake_ok_def g)
qed

text \<open>The cell in front of the head once the key has turned it, and a board on which the apple cannot be replaced.\<close>

definition ahead :: "keycode \<Rightarrow> bool \<Rightarrow> game \<Rightarrow> pnt option" where
  "ahead key keydown g =
     (let g1 = if key \<noteq> KEY_NONE \<and> keydown then turn key g else g
      in map_option (towards (g_head g1)) (heading (snake_map g1 (g_head g1))))"

definition last_apple :: "keycode \<Rightarrow> bool \<Rightarrow> game \<Rightarrow> bool" where
  "last_apple key keydown g \<longleftrightarrow> the_cells (snake_map g) vacant = {} \<and> (\<exists>p. ahead key keydown g = Some p \<and> snake_map g p = apple)"

lemma step_game_do_DivZero:
  "step_game_do rnd g = Inl DivZero \<Longrightarrow> \<exists>d. heading (snake_map g (g_head g)) = Some d \<and> snake_map g (towards (g_head g) d) = apple"
  by (auto simp: step_game_do_def Let_def guardE_def split: option.splits if_splits)

lemma step_DivZero:
  assumes ok: "snake_ok g" and side: "SIDE_of w h * SIDE_of w h \<le> 2048" and st: "step_game w h key keydown rnd (g, scr) = Inl DivZero"
  shows "last_apple key keydown g"
proof -
  obtain ps where r: "snake_rep g ps" using ok by (auto simp: snake_ok_def)
  have "empty_cnt g = 0" using step_game_ok [OF ok side, of key keydown rnd scr] st by auto
  then have "the_cells (snake_map g) vacant = {}" using snake_repD(11) [OF r] finite_the_cells [of "snake_map g" vacant] by simp
  moreover define g0 where "g0 = (if key \<noteq> KEY_NONE \<and> keydown then turn key g else g)"
  have r0: "snake_rep g0 ps" using r turn_rep [OF r] by (simp add: g0_def)
  have "step_game_do rnd g0 = Inl DivZero"
  proof (rule step_game_do_rep [OF r0, of rnd])
    fix g' ps' assume "step_game_do rnd g0 = Inr (1, g')" "snake_rep g' ps'"
    then show ?thesis using st show_board_rep [OF _ side, of g' ps' scr] by (auto simp: step_game_def g0_def split: if_splits)
  next
    assume "step_game_do rnd g0 = Inr (0, g0)"
    then show ?thesis using st show_board_rep [OF r0 side, of scr] by (auto simp: step_game_def g0_def split: if_splits)
  qed
  then obtain d where d: "heading (snake_map g0 (g_head g0)) = Some d" "snake_map g0 (towards (g_head g0) d) = apple"
    using step_game_do_DivZero by blast
  have "snake_map g (towards (g_head g0) d) = apple"
    using d by (auto simp: g0_def turn_def Let_def set_cell_def split: if_splits)
  then have "\<exists>p. ahead key keydown g = Some p \<and> snake_map g p = apple" using d(1) by (simp add: ahead_def Let_def g0_def [symmetric])
  ultimately show ?thesis by (simp add: last_apple_def)
qed

lemma play_ok:
  assumes side: "SIDE_of w h * SIDE_of w h \<le> 2048"
  shows "snake_ok g \<Longrightarrow>
    play w h evs (g, scr) = Inl DivZero \<and>
      (\<exists>evs1 key keydown rnd evs2 g1 scr1. evs = evs1 @ (key, keydown, rnd) # evs2 \<and> play w h evs1 (g, scr) = Inr (g1, scr1) \<and>
         snake_ok g1 \<and> last_apple key keydown g1) \<or>
    (\<exists>g' scr'. play w h evs (g, scr) = Inr (g', scr') \<and> snake_ok g')"
proof (induction evs arbitrary: g scr)
  case (Cons ev evs)
  obtain key keydown rnd where ev: "ev = (key, keydown, rnd)" by (cases ev)
  from step_game_ok [OF Cons.prems side, of key keydown rnd scr] show ?case
  proof
    assume "step_game w h key keydown rnd (g, scr) = Inl DivZero \<and> empty_cnt g = 0"
    then show ?thesis using step_DivZero [OF Cons.prems side] Cons.prems by (intro disjI1 conjI exI [of _ "[]"]) (auto simp: ev)
  next
    assume "\<exists>ret g' scr'. step_game w h key keydown rnd (g, scr) = Inr (ret, g', scr') \<and> snake_ok g'"
    then obtain ret g' scr' where s: "step_game w h key keydown rnd (g, scr) = Inr (ret, g', scr')" "snake_ok g'" by blast
    show ?thesis
    proof (cases "ret = 0 \<or> (\<exists>g1 scr1. play w h evs (g', scr') = Inr (g1, scr1) \<and> snake_ok g1)")
      case True
      then show ?thesis using s by (auto simp: ev)
    next
      case False
      with Cons.IH [OF s(2), of scr'] obtain evs1 k d r evs2 g1 scr1 where
        "play w h evs (g', scr') = Inl DivZero" "evs = evs1 @ (k, d, r) # evs2"
        "play w h evs1 (g', scr') = Inr (g1, scr1)" "snake_ok g1" "last_apple k d g1" by blast
      then show ?thesis using s(1) False by (intro disjI1 conjI exI [of _ "ev # evs1"]) (auto simp: ev)
    qed
  qed
qed simp

text \<open>
  C31: The game keeps its board consistent.  From the initial position, under every sequence of keys and random numbers, no access leaves
  the board, and after every step the body is a path without repetition from the tail to the head that has grown by the score, the border is
  wall, there is exactly one apple, and the counter is the number of vacant cells.  The one way to
  stop is a division by zero, and then the steps before it led to a consistent position without any vacant cell in which the head is about to eat the apple.
\<close>

theorem snake_game_consistent:
  assumes "SIDE_of w h * SIDE_of w h \<le> 2048"
  shows "\<exists>g. init_game rnd = Inr g \<and> snake_ok g \<and>
    (play w h evs (g, scr) = Inl DivZero \<and>
       (\<exists>evs1 key keydown r evs2 g1 scr1. evs = evs1 @ (key, keydown, r) # evs2 \<and> play w h evs1 (g, scr) = Inr (g1, scr1) \<and>
          snake_ok g1 \<and> the_cells (snake_map g1) vacant = {} \<and> (\<exists>p. ahead key keydown g1 = Some p \<and> snake_map g1 p = apple)) \<or>
     (\<exists>g' scr'. play w h evs (g, scr) = Inr (g', scr') \<and> snake_ok g'))"
proof -
  obtain g where "init_game rnd = Inr g" "snake_ok g" using init_game_ok by blast
  with play_ok [OF assms this(2), of evs scr, unfolded last_apple_def] show ?thesis by (intro exI [of _ g] conjI)
qed

theorem snake_game_consistent_witness:
  "\<exists>g g' scr'. init_game 5 = Inr g \<and> snake_ok g \<and> play 640 480 [(KEY_W, True, 3)] (g, \<lambda>_. 0) = Inr (g', scr') \<and> snake_ok g'"
proof -
  obtain g where g: "init_game 5 = Inr g" "snake_ok g" "empty_cnt g \<noteq> 0" using init_game_ok by blast
  have "the_cells (snake_map g) vacant \<noteq> {}" using g(2,3) by (auto simp: snake_ok_def snake_rep_def)
  then have room: "evs1 \<noteq> []" if "play 640 480 evs1 (g, \<lambda>_. 0) = Inr (g1, scr1)" "the_cells (snake_map g1) vacant = {}" for evs1 g1 scr1
    using that by auto
  have side: "SIDE_of 640 480 * SIDE_of 640 480 \<le> 2048" by (simp add: SIDE_of_def board_consts)
  from snake_game_consistent [OF side, of 5 "[(KEY_W, True, 3)]" "\<lambda>_. 0"] g(1)
  consider evs1 key keydown r evs2 g1 scr1 where "[(KEY_W, True, 3)] = evs1 @ (key, keydown, r) # evs2"
      "play 640 480 evs1 (g, \<lambda>_. 0) = Inr (g1, scr1)" "the_cells (snake_map g1) vacant = {}" |
    g' scr' where "play 640 480 [(KEY_W, True, 3)] (g, \<lambda>_. 0) = Inr (g', scr')" "snake_ok g'" by force
  then show ?thesis
  proof cases
    case 1
    then show ?thesis using room [OF 1(2,3)] by (cases evs1) auto
  next
    case 2
    then show ?thesis using g(1,2) by blast
  qed
qed

section \<open>Incremental drawing\<close>

definition in_tile :: "int \<Rightarrow> pnt \<Rightarrow> int \<times> int \<Rightarrow> bool" where
  "in_tile side p q \<longleftrightarrow> fst p * side \<le> fst q \<and> fst q < fst p * side + side \<and> snd p * side \<le> snd q \<and> snd q < snd p * side + side"

lemma tile_coord: "x * s \<le> q \<Longrightarrow> q < x * s + s \<Longrightarrow> q div s = (x :: int)"
  by (rule int_div_pos_eq [where r = "q - x * s"]) (simp_all add: mult.commute)

lemma in_tile_unique: "in_tile side p q \<Longrightarrow> in_tile side p' q \<Longrightarrow> p = p'"
  using tile_coord [of "fst p" side "fst q"] tile_coord [of "fst p'" side "fst q"] tile_coord [of "snd p" side "snd q"]
    tile_coord [of "snd p'" side "snd q"]
  by (auto simp: in_tile_def prod_eq_iff)

lemma draw_cell_pixel: "draw_cell side p c scr q = (if in_tile side p q then c else scr q)"
  by (cases q) (auto simp: draw_cell_def draw_rect_def in_tile_def)

text \<open>Pixels outside all listed cells stay, pixels of a listed cell get its colour, unless the cell is marked.\<close>

lemma show_all_loop_out: "\<forall>p\<in>set ps. \<not> in_tile side p q \<Longrightarrow> show_all_loop side ps g scr q = scr q"
  by (induction ps arbitrary: scr) (auto simp: draw_cell_pixel)

lemma show_all_loop_in: "p \<in> set ps \<Longrightarrow> in_tile side p q \<Longrightarrow> show_all_loop side ps g scr q = col (snake_map g p)"
proof (induction ps arbitrary: scr)
  case (Cons r ps)
  show ?case
  proof (cases "p \<in> set ps")
    case True
    then show ?thesis using Cons by simp
  next
    case False
    then have "\<not> in_tile side r' q" if "r' \<in> set ps" for r' using in_tile_unique [OF Cons.prems(2)] that by metis
    then show ?thesis using Cons.prems False by (simp add: show_all_loop_out draw_cell_pixel)
  qed
qed simp

lemma show_loop_out: "\<forall>p\<in>set ps. \<not> in_tile side p q \<Longrightarrow> snd (show_loop side ps (g, scr)) q = scr q"
  by (induction ps arbitrary: g scr) (auto simp: draw_cell_pixel)

lemma show_loop_in:
  "distinct ps \<Longrightarrow> p \<in> set ps \<Longrightarrow> in_tile side p q \<Longrightarrow>
    snd (show_loop side ps (g, scr)) q = (if unchange g p then scr q else col (snake_map g p))"
proof (induction ps arbitrary: g scr)
  case (Cons r ps)
  show ?case
  proof (cases "p = r")
    case True
    then have "\<forall>r'\<in>set ps. \<not> in_tile side r' q" using in_tile_unique [OF Cons.prems(3)] Cons.prems(1) by auto
    then show ?thesis using True Cons.prems(3) by (simp add: show_loop_out draw_cell_pixel)
  next
    case False
    then have "\<not> in_tile side r q" using in_tile_unique [OF Cons.prems(3)] by metis
    then show ?thesis using False Cons by (simp add: draw_cell_pixel)
  qed
qed simp

text \<open>Every marked cell but the head shows its colour.\<close>

definition drawn :: "int \<Rightarrow> game \<times> screen \<Rightarrow> bool" where
  "drawn side = (\<lambda>(g, scr). \<forall>p q. on_board p \<and> unchange g p \<and> p \<noteq> g_head g \<and> in_tile side p q \<longrightarrow> scr q = col (snake_map g p))"

lemma drawnI:
  "(\<And>p q. on_board p \<Longrightarrow> unchange g p \<Longrightarrow> p \<noteq> g_head g \<Longrightarrow> in_tile side p q \<Longrightarrow> scr q = col (snake_map g p)) \<Longrightarrow> drawn side (g, scr)"
  unfolding drawn_def by (simp del: split_paired_All)

lemma drawnD:
  "drawn side (g, scr) \<Longrightarrow> on_board p \<Longrightarrow> unchange g p \<Longrightarrow> p \<noteq> g_head g \<Longrightarrow> in_tile side p q \<Longrightarrow> scr q = col (snake_map g p)"
  unfolding drawn_def by (simp del: split_paired_All)

lemma show_board_drawn:
  assumes d: "drawn (SIDE_of w h) (g, scr)" and side: "SIDE_of w h * SIDE_of w h \<le> 2048"
  shows "\<exists>g' scr'. show_board w h (g, scr) = Inr (g', scr') \<and> show_all w h g scr = Inr scr' \<and> drawn (SIDE_of w h) (g', scr') \<and>
    snake_map g' = snake_map g \<and> g_head g' = g_head g \<and> (\<forall>p. on_board p \<longrightarrow> unchange g' p)"
proof -
  let ?s = "SIDE_of w h"
  obtain g' scr0 where l: "show_loop ?s column_order (g, scr) = (g', scr0)" by fastforce
  have f: "snake_map g' = snake_map g" "g_head g' = g_head g" "\<And>p. unchange g' p \<longleftrightarrow> unchange g p \<or> on_board p"
    using show_loop_fields [of ?s column_order "(g, scr)"] by (simp_all add: l set_column_order del: split_paired_All)
  let ?all = "show_all_loop ?s column_order g scr"
  have eq: "draw_cell ?s (g_head g) head_col scr0 q = draw_cell ?s (g_head g) head_col ?all q" for q
  proof (cases "\<exists>p. on_board p \<and> in_tile ?s p q")
    case True
    then obtain p where p: "on_board p" "in_tile ?s p q" by blast
    have "scr0 q = (if unchange g p then scr q else col (snake_map g p))"
      using show_loop_in [OF distinct_column_order _ p(2), of g scr] p(1) by (simp add: l set_column_order)
    moreover have "?all q = col (snake_map g p)" using show_all_loop_in [OF _ p(2)] p(1) by (simp add: set_column_order)
    moreover have "scr q = col (snake_map g p)" if "unchange g p" "p \<noteq> g_head g" using drawnD [OF d p(1) that p(2)] .
    ultimately show ?thesis using p(2) by (auto simp: draw_cell_pixel)
  next
    case False
    then show ?thesis
      using show_loop_out [of column_order ?s q g scr] show_all_loop_out [of column_order ?s q g scr]
      by (simp add: l set_column_order draw_cell_pixel)
  qed
  let ?scr = "draw_cell ?s (g_head g) head_col ?all"
  have "drawn ?s (g', ?scr)"
  proof (rule drawnI)
    fix p q assume p: "on_board p" "p \<noteq> g_head g'" "in_tile ?s p q"
    then have "\<not> in_tile ?s (g_head g) q" using in_tile_unique f(2) by metis
    then show "?scr q = col (snake_map g' p)" using p f(1) show_all_loop_in [of p column_order ?s q g scr] by (simp add: draw_cell_pixel set_column_order)
  qed
  moreover have "draw_cell ?s (g_head g) head_col scr0 = ?scr" using eq by blast
  ultimately show ?thesis using side f by (simp add: show_board_def show_all_def l Let_def)
qed

text \<open>A step that marks the cells it changes for redrawing keeps the rest.\<close>

lemma drawn_step:
  assumes d: "drawn side (g, scr)" and u: "\<And>p. unchange g' p \<Longrightarrow> unchange g p \<and> p \<noteq> g_head g \<and> snake_map g' p = snake_map g p"
  shows "drawn side (g', scr)"
proof (rule drawnI)
  fix p q assume "on_board p" "unchange g' p" "in_tile side p q"
  then show "scr q = col (snake_map g' p)" using drawnD [OF d] u [of p] by simp
qed

lemma turn_drawn: "drawn side (g, scr) \<Longrightarrow> drawn side (turn key g, scr)"
proof (rule drawnI)
  fix p q assume "drawn side (g, scr)" "on_board p" "unchange (turn key g) p" "p \<noteq> g_head (turn key g)" "in_tile side p q"
  moreover have "unchange (turn key g) = unchange g" "g_head (turn key g) = g_head g"
    "p \<noteq> g_head g \<Longrightarrow> snake_map (turn key g) p = snake_map g p" by (simp_all add: turn_def Let_def)
  ultimately show "scr q = col (snake_map (turn key g) p)" using drawnD by metis
qed

lemma step_game_do_drawn:
  assumes r: "snake_rep g ps" and d: "drawn side (g, scr)" and st: "step_game_do rnd g = Inr (ret, g')"
  shows "drawn side (g', scr)"
proof -
  note D = snake_repD [OF r]
  obtain dh dt where dd: "heading (snake_map g (g_head g)) = Some dh" "heading (snake_map g (g_tail g)) = Some dt"
    using st by (auto simp: step_game_do_def split: option.splits)
  let ?n = "towards (g_head g) dh"
  have b: "on_board ?n" using st dd by (auto simp: step_game_do_def Let_def bindE_Inr_iff guardE_Inr_iff)
  consider "snake_map g ?n \<noteq> vacant \<and> snake_map g ?n \<noteq> apple" | "snake_map g ?n = apple" | "snake_map g ?n = vacant" by blast
  then show ?thesis
  proof cases
    case 1
    then show ?thesis using st d dd b by (simp add: step_game_do_def)
  next
    case 2
    then have "empty_cnt g \<noteq> 0" using st dd b by (cases "empty_cnt g = 0") (auto simp: step_game_do_def gen_apple_def Let_def)
    then obtain p where "on_board p" "snake_map g p = vacant"
      "gen_apple rnd g = Inr ((redraw p (set_cell p apple g))\<lparr>empty_cnt := empty_cnt g - 1\<rparr>)"
      using gen_apple_places [OF D(11)] by blast
    then show ?thesis using st dd b 2 by (intro drawn_step [OF d]) (auto simp: step_game_do_def Let_def split: if_splits)
  next
    case 3
    then show ?thesis using st dd b by (intro drawn_step [OF d]) (auto simp: step_game_do_def Let_def split: if_splits)
  qed
qed

lemma init_game_drawn: "init_game rnd = Inr g \<Longrightarrow> drawn side (g, scr)"
proof (rule drawnI)
  fix p q assume i: "init_game rnd = Inr g" and u: "unchange g p"
  have "\<not> unchange (apple_loop ps index g0) p" if "\<not> unchange g0 p" for ps index and g0 :: game
    using that by (induction ps index g0 rule: apple_loop.induct) (auto simp: Let_def)
  from this [of start_game] show "scr q = col (snake_map g p)"
    using i u unfolding init_game_eq gen_apple_def by (auto simp: start_game_def split: if_splits)
qed

text \<open>
  Drawing only what changed is as good as drawing everything.  A game starts with every cell to be drawn; if the marked cells show
  their colours before a step, the step leaves on the screen what the older version of the drawing code, which paints
  every cell of the board and then the head, would have painted over the same screen, and the marked cells show their colours again.
\<close>

theorem snake_draws_incrementally:
  assumes ok: "snake_ok g" and d: "drawn (SIDE_of w h) (g, scr)" and side: "SIDE_of w h * SIDE_of w h \<le> 2048"
    and nq: "\<not> (keydown \<and> key = KEY_Q)" and st: "step_game w h key keydown rnd (g, scr) = Inr (ret, g', scr')"
  shows "show_all w h g' scr = Inr scr' \<and> drawn (SIDE_of w h) (g', scr')"
proof -
  obtain ps where r: "snake_rep g ps" using ok by (auto simp: snake_ok_def)
  define g0 where "g0 = (if key \<noteq> KEY_NONE \<and> keydown then turn key g else g)"
  have r0: "snake_rep g0 ps" "drawn (SIDE_of w h) (g0, scr)" using r turn_rep [OF r] d turn_drawn [OF d] by (simp_all add: g0_def)
  obtain g1 where s1: "step_game_do rnd g0 = Inr (ret, g1)" and s2: "show_board w h (g1, scr) = Inr (g', scr')"
    using st nq by (auto simp: step_game_def g0_def Let_def bindE_Inr_iff split: if_splits)
  note d1 = step_game_do_drawn [OF r0 s1]
  have "show_all w h g' scr = show_all w h g1 scr" if "snake_map g' = snake_map g1" "g_head g' = g_head g1"
  proof -
    have "show_all_loop s ps g' x = show_all_loop s ps g1 x" for s ps x using that(1) by (induction ps arbitrary: x) simp_all
    then show ?thesis using that(2) by (simp add: show_all_def)
  qed
  then show ?thesis using show_board_drawn [OF d1 side] s2 by auto
qed

theorem snake_draws_incrementally_witness:
  "\<exists>g ret g' scr'. init_game 5 = Inr g \<and> step_game 640 480 KEY_W True 3 (g, \<lambda>_. 0) = Inr (ret, g', scr') \<and>
     show_all 640 480 g' (\<lambda>_. 0) = Inr scr'"
proof -
  have side: "SIDE_of 640 480 * SIDE_of 640 480 \<le> 2048" by (simp add: SIDE_of_def board_consts)
  obtain g where g: "init_game 5 = Inr g" "snake_ok g" "empty_cnt g \<noteq> 0" using init_game_ok by blast
  obtain ret g' scr' where s: "step_game 640 480 KEY_W True 3 (g, \<lambda>_. 0) = Inr (ret, g', scr')"
    using step_game_ok [OF g(2) side, of KEY_W True 3 "\<lambda>_. 0"] g(3) by auto
  show ?thesis using snake_draws_incrementally [OF g(2) init_game_drawn [OF g(1)] side _ s] g(1) s by auto
qed

end
