(* ===== verification/Sperf.thy ===== *)
theory Sperf
  imports Prelude Linked
begin

text \<open>
  The system call profiler of \<^verbatim>\<open>sperf/sperf.c\<close>: the list of system calls that is kept in descending order of the time
  they took, in a pool of nodes linked in both directions between two sentinels, and the reading of a line of \<^verbatim>\<open>strace\<close>.
  Times are of any linearly ordered type with an addition and a subtraction, about which nothing is assumed: the
  results hold for rounded floating point numbers.  \<^verbatim>\<open>syscall_init\<close> is the only code that assigns
  \<^verbatim>\<open>syscall.head\<close> and \<^verbatim>\<open>syscall.tail\<close>; they are the two sentinels.
\<close>

definition POOL_NODES :: nat where "POOL_NODES = 1024"
definition NAME_SIZE :: nat where "NAME_SIZE = 1024"

datatype sptr = SNull | SHead | STail | SPool nat

record 't snode =
  s_id :: nat
  s_name :: string
  s_time :: 't
  s_prev :: sptr
  s_next :: sptr

record 't slist =
  s_node :: "sptr \<Rightarrow> 't snode"
  list_size :: nat
  total_time :: 't

definition s_deref :: "sptr \<Rightarrow> 't slist \<Rightarrow> 't snode res" where
  "s_deref p s = (case p of
     SNull \<Rightarrow> Inl NullDeref
   | SPool i \<Rightarrow> if i < POOL_NODES then Inr (s_node s p) else Inl OutOfBounds
   | _ \<Rightarrow> Inr (s_node s p))"

definition s_update :: "sptr \<Rightarrow> ('t snode \<Rightarrow> 't snode) \<Rightarrow> 't slist \<Rightarrow> 't slist res" where
  "s_update p f s = bindE (s_deref p s) (\<lambda>n. Inr (s\<lparr>s_node := (s_node s)(p := f n)\<rparr>))"

definition syscall_init :: "(sptr \<Rightarrow> 't snode) \<Rightarrow> ('t :: zero) slist" where
  "syscall_init pool =
     (let n = pool;
          n = n(SHead := (n SHead)\<lparr>s_prev := SNull\<rparr>);
          n = n(SHead := (n SHead)\<lparr>s_next := STail\<rparr>);
          n = n(STail := (n STail)\<lparr>s_prev := SHead\<rparr>);
          n = n(STail := (n STail)\<lparr>s_next := SNull\<rparr>)
      in \<lparr>s_node = n, list_size = 0, total_time = 0\<rparr>)"

section \<open>The check\<close>

text \<open>The loops walk a list of at most \<^verbatim>\<open>POOL_SIZE\<close> nodes; one step more than that shows a cycle.\<close>

definition WALK_NODES :: nat where "WALK_NODES = POOL_NODES + 2"

fun check_loop :: "nat \<Rightarrow> sptr \<Rightarrow> nat \<Rightarrow> 't slist \<Rightarrow> nat res" where
  "check_loop 0 node cnt s = Inl Diverge"
| "check_loop (Suc fuel) node cnt s =
     (if node = STail then Inr cnt
      else
        bindE (s_deref node s) (\<lambda>n.
        bindE (s_deref (s_next n) s) (\<lambda>nx.
        bindE (assertE (s_prev nx = node)) (\<lambda>_.
        bindE (s_deref (s_prev n) s) (\<lambda>pv.
        bindE (assertE (s_next pv = node)) (\<lambda>_.
        check_loop fuel (s_next n) (cnt + 1) s))))))"

definition syscall_check :: "'t slist \<Rightarrow> unit res" where
  "syscall_check s =
     bindE (check_loop WALK_NODES (s_next (s_node s SHead)) 0 s) (\<lambda>cnt. assertE (cnt = list_size s))"

section \<open>Linking and unlinking\<close>

definition syscall_cmp :: "sptr \<Rightarrow> sptr \<Rightarrow> ('t :: linorder) slist \<Rightarrow> bool res" where
  "syscall_cmp A B s =
     (if A = SHead \<or> B = STail then Inr True
      else
        bindE (assertE (A \<noteq> STail)) (\<lambda>_.
        bindE (assertE (B \<noteq> SHead)) (\<lambda>_.
        bindE (s_deref A s) (\<lambda>a.
        bindE (s_deref B s) (\<lambda>b. Inr (s_time b \<le> s_time a))))))"

fun place_loop :: "nat \<Rightarrow> sptr \<Rightarrow> sptr \<Rightarrow> ('t :: linorder) slist \<Rightarrow> sptr res" where
  "place_loop 0 temp node s = Inl Diverge"
| "place_loop (Suc fuel) temp node s =
     bindE (syscall_cmp temp node s) (\<lambda>before.
     bindE (s_deref temp s) (\<lambda>t.
     bindE (if before then syscall_cmp node (s_next t) s else Inr False) (\<lambda>here.
     if here then Inr temp else place_loop fuel (s_next t) node s)))"

definition syscall_insert_do :: "sptr \<Rightarrow> ('t :: {linorder, plus}) slist \<Rightarrow> 't slist res" where
  "syscall_insert_do node s =
     bindE (assertE (node \<noteq> STail)) (\<lambda>_.
     bindE (place_loop WALK_NODES SHead node s) (\<lambda>temp.
     bindE (assertE (temp \<noteq> STail)) (\<lambda>_.
     bindE (s_deref temp s) (\<lambda>t.
     bindE (s_update node (\<lambda>n. n\<lparr>s_prev := temp\<rparr>) s) (\<lambda>s.
     bindE (s_update node (\<lambda>n. n\<lparr>s_next := s_next t\<rparr>) s) (\<lambda>s.
     bindE (s_update (s_next t) (\<lambda>n. n\<lparr>s_prev := node\<rparr>) s) (\<lambda>s.
     bindE (s_update temp (\<lambda>n. n\<lparr>s_next := node\<rparr>) s) (\<lambda>s.
     let s = s\<lparr>list_size := list_size s + 1, total_time := total_time s + s_time (s_node s node)\<rparr> in
     bindE (syscall_check s) (\<lambda>_. Inr s)))))))))"

definition syscall_delete_do :: "sptr \<Rightarrow> ('t :: minus) slist \<Rightarrow> 't slist res" where
  "syscall_delete_do node s =
     bindE (s_deref node s) (\<lambda>n.
     bindE (s_update (s_prev n) (\<lambda>p. p\<lparr>s_next := s_next n\<rparr>) s) (\<lambda>s.
     bindE (s_deref node s) (\<lambda>n.
     bindE (s_update (s_next n) (\<lambda>q. q\<lparr>s_prev := s_prev n\<rparr>) s) (\<lambda>s.
     bindE (s_update node (\<lambda>n. n\<lparr>s_prev := SNull\<rparr>) s) (\<lambda>s.
     bindE (s_update node (\<lambda>n. n\<lparr>s_next := SNull\<rparr>) s) (\<lambda>s.
     let s = s\<lparr>list_size := list_size s - 1, total_time := total_time s - s_time (s_node s node)\<rparr> in
     bindE (syscall_check s) (\<lambda>_. Inr s)))))))"

fun name_loop :: "nat \<Rightarrow> sptr \<Rightarrow> string \<Rightarrow> 't slist \<Rightarrow> sptr res" where
  "name_loop 0 node name s = Inl Diverge"
| "name_loop (Suc fuel) node name s =
     (if node = STail then Inr node
      else
        bindE (s_deref node s) (\<lambda>n.
        if name \<noteq> s_name n then name_loop fuel (s_next n) name s else Inr node))"

definition syscall_insert :: "string \<Rightarrow> 't \<Rightarrow> ('t :: {linorder, plus, minus}) slist \<Rightarrow> 't slist res" where
  "syscall_insert name time s =
     bindE (name_loop WALK_NODES (s_next (s_node s SHead)) name s) (\<lambda>node.
     bindE
       (if node \<noteq> STail then
          bindE (s_deref node s) (\<lambda>n.
          bindE (assertE (name = s_name n)) (\<lambda>_.
          bindE (syscall_delete_do node s) (\<lambda>s.
          bindE (s_update node (\<lambda>n. n\<lparr>s_time := s_time n + time\<rparr>) s) (\<lambda>s.
          syscall_insert_do node s))))
        else
          let index = list_size s; current = SPool index in
          bindE (guardE OutOfBounds (length name < NAME_SIZE)) (\<lambda>_.
          bindE (s_update current (\<lambda>n. n\<lparr>s_id := index\<rparr>) s) (\<lambda>s.
          bindE (s_update current (\<lambda>n. n\<lparr>s_name := name\<rparr>) s) (\<lambda>s.
          bindE (s_update current (\<lambda>n. n\<lparr>s_time := time\<rparr>) s) (\<lambda>s.
          syscall_insert_do current s))))) (\<lambda>s.
     bindE (syscall_check s) (\<lambda>_. Inr s)))"

section \<open>Reading a line\<close>

text \<open>
  A line that ends with \<^verbatim>\<open>>\<close> and a newline: the name runs from the first character to the one before the
  parenthesis, which is looked for from the second character on; the time stands between the last \<^verbatim>\<open><\<close> and the \<^verbatim>\<open>>\<close>.  The
  searches leave the buffer when the character is missing.
\<close>

definition scan_line :: "string \<Rightarrow> (string \<times> string) option res" where
  "scan_line buf =
     (let len = length buf in
      if 2 < len \<and> buf ! (len - 2) = CHR 0x3E then
        bindE (guardE OutOfBounds (CHR 0x28 \<in> set (tl buf))) (\<lambda>_.
        bindE (guardE OutOfBounds (CHR 0x3C \<in> set (take (len - 3) buf))) (\<lambda>_.
        let name = hd buf # takeWhile (\<lambda>c. c \<noteq> CHR 0x28) (tl buf);
            front = take (len - 3) buf;
            time = rev (takeWhile (\<lambda>c. c \<noteq> CHR 0x3C) (rev front)) @ [buf ! (len - 3)]
        in Inr (Some (name, time))))
      else Inr None)"

text \<open>The loop of the parent process over the lines; \<open>to_time\<close> is \<^verbatim>\<open>sscanf\<close> with \<^verbatim>\<open>%lf\<close>.\<close>

fun collect :: "(string \<Rightarrow> 't) \<Rightarrow> string list \<Rightarrow> ('t :: {linorder, plus, minus}) slist \<Rightarrow> 't slist res" where
  "collect to_time [] s = Inr s"
| "collect to_time (buf # bufs) s =
     bindE (scan_line buf) (\<lambda>r.
     bindE (case r of None \<Rightarrow> Inr s | Some (name, time) \<Rightarrow> syscall_insert name (to_time time) s) (\<lambda>s.
     collect to_time bufs s))"

end
