(* ===== verification/Sperf_Correct.thy ===== *)
theory Sperf_Correct
  imports Sperf
begin

text \<open>
  The list of system calls is a sorted association list: what the linked nodes hold after any sequence of insertions is what
  a functional insertion computes, no assertion of the code fails, and every walk ends.
\<close>

section \<open>The nodes as a list\<close>

abbreviation nxt :: "'t slist \<Rightarrow> sptr \<Rightarrow> sptr" where "nxt s \<equiv> (\<lambda>p. s_next (s_node s p))"
abbreviation prv :: "'t slist \<Rightarrow> sptr \<Rightarrow> sptr" where "prv s \<equiv> (\<lambda>p. s_prev (s_node s p))"

definition pooled :: "sptr \<Rightarrow> bool" where
  "pooled p \<longleftrightarrow> (\<exists>i<POOL_NODES. p = SPool i)"

definition chained :: "'t slist \<Rightarrow> sptr list \<Rightarrow> bool" where
  "chained s ps \<longleftrightarrow> linked (nxt s) (prv s) (SHead # ps @ [STail]) \<and> distinct ps \<and> (\<forall>p\<in>set ps. pooled p) \<and>
     length ps = list_size s \<and> length ps \<le> POOL_NODES"

lemma pooled_simps [simp]: "pooled (SPool i) \<longleftrightarrow> i < POOL_NODES" "\<not> pooled SHead" "\<not> pooled STail" "\<not> pooled SNull"
  by (auto simp: pooled_def)

lemma s_deref_ok [simp]: "pooled p \<Longrightarrow> s_deref p s = Inr (s_node s p)" "s_deref SHead s = Inr (s_node s SHead)" "s_deref STail s = Inr (s_node s STail)"
  by (auto simp: s_deref_def pooled_def)

lemma s_update_ok [simp]:
  "s_deref p s = Inr n \<Longrightarrow> s_update p f s = Inr (s\<lparr>s_node := (s_node s)(p := f n)\<rparr>)"
  by (simp add: s_update_def)

lemma chainedD:
  assumes "chained s ps"
  shows "linked (nxt s) (prv s) (SHead # ps @ [STail])" and "distinct ps" and "\<And>p. p \<in> set ps \<Longrightarrow> pooled p"
    and "length ps = list_size s" and "length ps \<le> POOL_NODES" and "distinct (SHead # ps @ [STail])"
  using assms by (auto simp: chained_def)

section \<open>The loops\<close>

lemma check_loop_linked:
  assumes "linked (nxt s) (prv s) (p # qs @ [STail])" and "s_deref p s = Inr (s_node s p)" and "\<forall>q\<in>set qs. pooled q" and "length qs < fuel"
  shows "check_loop fuel (hd (qs @ [STail])) cnt s = Inr (cnt + length qs)"
  using assms
proof (induction qs arbitrary: p fuel cnt)
  case Nil
  then show ?case by (cases fuel) simp_all
next
  case (Cons q qs)
  obtain f where f: "fuel = Suc f" using Cons.prems(4) by (cases fuel) simp_all
  have l: "linked (nxt s) (prv s) (q # qs @ [STail])" "nxt s p = q" "prv s q = p" using Cons.prems(1) by simp_all
  let ?r = "hd (qs @ [STail])"
  have r: "nxt s q = ?r" "prv s ?r = q" "s_deref ?r s = Inr (s_node s ?r)"
    using l(1) Cons.prems(3) by (cases qs; simp)+
  have "q \<noteq> STail" "s_deref q s = Inr (s_node s q)" using Cons.prems(3) by auto
  then show ?case using Cons.IH [OF l(1), of f "cnt + 1"] Cons.prems f l r by simp
qed

lemma syscall_check_ok: "chained s ps \<Longrightarrow> syscall_check s = Inr ()"
proof -
  assume c: "chained s ps"
  note D = chainedD [OF c]
  have "s_next (s_node s SHead) = hd (ps @ [STail])" using D(1) by (cases ps) simp_all
  then show ?thesis
    using check_loop_linked [OF D(1), of WALK_NODES 0] D(3-5) by (simp add: syscall_check_def WALK_NODES_def)
qed

text \<open>The node goes behind the nodes with more time.\<close>

lemma cmp_before:
  assumes "temp = SHead \<or> pooled temp \<and> s_time (s_node s node) \<le> s_time (s_node s temp)" and "pooled node"
  shows "syscall_cmp temp node s = Inr True" and "s_deref temp s = Inr (s_node s temp)"
proof -
  have "node \<noteq> SHead" "node \<noteq> STail" "pooled temp \<Longrightarrow> temp \<noteq> STail" using assms(2) by auto
  then show "syscall_cmp temp node s = Inr True" "s_deref temp s = Inr (s_node s temp)" using assms by (auto simp: syscall_cmp_def)
qed

lemma place_loop_linked:
  assumes "linked (nxt s) (prv s) (temp # qs @ [STail])" and "temp = SHead \<or> pooled temp \<and> s_time (s_node s node) \<le> s_time (s_node s temp)"
    and "\<forall>q\<in>set qs. pooled q" and "pooled node" and "length qs < fuel"
  shows "place_loop fuel temp node s = Inr (last (temp # takeWhile (\<lambda>q. s_time (s_node s node) < s_time (s_node s q)) qs))"
  using assms
proof (induction qs arbitrary: temp fuel)
  case Nil
  then obtain f where "fuel = Suc f" by (cases fuel) simp_all
  moreover have "syscall_cmp node STail s = Inr True" by (simp add: syscall_cmp_def)
  ultimately show ?case using Nil.prems cmp_before [OF Nil.prems(2,4)] by simp
next
  case (Cons q qs)
  obtain f where f: "fuel = Suc f" using Cons.prems(5) by (cases fuel) simp_all
  have l: "linked (nxt s) (prv s) (q # qs @ [STail])" "nxt s temp = q" using Cons.prems(1) by simp_all
  have q: "pooled q" "q \<noteq> STail" "q \<noteq> SHead" using Cons.prems(3) by auto
  have nd: "node \<noteq> SHead" "node \<noteq> STail" using Cons.prems(4) by auto
  note before = cmp_before [OF Cons.prems(2,4)]
  have here: "syscall_cmp node q s = Inr (s_time (s_node s q) \<le> s_time (s_node s node))"
    using Cons.prems(4) nd q by (simp add: syscall_cmp_def)
  show ?case
  proof (cases "s_time (s_node s q) \<le> s_time (s_node s node)")
    case True
    then have "\<not> s_time (s_node s node) < s_time (s_node s q)" by simp
    then show ?thesis using True f before here l(2) by simp
  next
    case False
    then have "s_time (s_node s node) < s_time (s_node s q)" "s_time (s_node s node) \<le> s_time (s_node s q)" by simp_all
    then show ?thesis using False Cons.IH [OF l(1), of f] Cons.prems f before here l(2) q by simp
  qed
qed

lemma name_loop_linked:
  assumes "linked (nxt s) (prv s) (p # qs @ [STail])" and "\<forall>q\<in>set qs. pooled q" and "length qs < fuel"
  shows "name_loop fuel (hd (qs @ [STail])) name s =
    Inr (hd (dropWhile (\<lambda>q. s_name (s_node s q) \<noteq> name) qs @ [STail]))"
  using assms
proof (induction qs arbitrary: p fuel)
  case Nil
  then show ?case by (cases fuel) simp_all
next
  case (Cons q qs)
  obtain f where f: "fuel = Suc f" using Cons.prems(3) by (cases fuel) simp_all
  have l: "linked (nxt s) (prv s) (q # qs @ [STail])" using Cons.prems(1) by simp
  have "nxt s q = hd (qs @ [STail])" using l by (cases qs) simp_all
  moreover have "pooled q" "q \<noteq> STail" using Cons.prems(2) by auto
  ultimately show ?case using Cons.IH [OF l, of f] Cons.prems f by auto
qed

section \<open>Linking and unlinking\<close>

lemma split_ends:
  obtains as p q bs where "SHead # xs = as @ [p]" and "ys @ [STail] = q # bs" and "p = last (SHead # xs)" and "q = hd (ys @ [STail])"
  by (metis append_butlast_last_id hd_Cons_tl list.distinct(1) snoc_eq_iff_butlast)

text \<open>What an operation leaves as it was in every node.\<close>

definition same_data :: "'t slist \<Rightarrow> 't slist \<Rightarrow> bool" where
  "same_data s s' \<longleftrightarrow> (\<forall>p. s_name (s_node s' p) = s_name (s_node s p) \<and> s_time (s_node s' p) = s_time (s_node s p))"

lemma insert_do_chained:
  assumes c: "chained s ps" and n: "pooled node" "node \<notin> set ps" and room: "length ps < POOL_NODES"
  shows "\<exists>s'. syscall_insert_do node s = Inr s' \<and> same_data s s' \<and> total_time s' = total_time s + s_time (s_node s node) \<and>
    chained s' (takeWhile (\<lambda>q. s_time (s_node s node) < s_time (s_node s q)) ps @
      node # dropWhile (\<lambda>q. s_time (s_node s node) < s_time (s_node s q)) ps)"
proof -
  note D = chainedD [OF c]
  let ?P = "\<lambda>q. s_time (s_node s node) < s_time (s_node s q)"
  define xs ys where "xs = takeWhile ?P ps" and "ys = dropWhile ?P ps"
  have ps: "ps = xs @ ys" by (simp add: xs_def ys_def)
  obtain as p q bs where e: "SHead # xs = as @ [p]" "ys @ [STail] = q # bs" "p = last (SHead # xs)" "q = hd (ys @ [STail])"
    by (rule split_ends)
  have full: "SHead # ps @ [STail] = as @ p # q # bs" using e(1,2) unfolding ps by simp
  have place: "place_loop WALK_NODES SHead node s = Inr p"
    using place_loop_linked [OF D(1), of node WALK_NODES] D(3,5) n(1) e(3) by (simp add: WALK_NODES_def xs_def)
  have l: "linked (nxt s) (prv s) (as @ p # q # bs)" using D(1) full by simp
  have nq: "nxt s p = q" using l by (simp add: linked_append)
  have mem: "set (as @ p # q # bs) = insert SHead (insert STail (set ps))" using arg_cong [OF full, of set] by auto
  have "node \<notin> set (as @ p # q # bs)" unfolding mem using n by auto
  moreover have "distinct (as @ p # q # bs)" using D(6) full by simp
  ultimately have ds: "distinct (as @ p # node # q # bs)" by auto
  have pd: "s_deref p s = Inr (s_node s p)" "s_deref q s = Inr (s_node s q)" "p \<noteq> STail"
  proof -
    have "p \<in> insert SHead (set ps)" using e(3) ps last_in_set [of "SHead # xs"] by auto
    then show "s_deref p s = Inr (s_node s p)" "p \<noteq> STail" by (auto dest: D(3))
    have "q \<in> insert STail (set ps)" using e(4) ps by (cases ys) auto
    then show "s_deref q s = Inr (s_node s q)" using D(3) by auto
  qed
  have ne: "node \<noteq> p" "node \<noteq> q" "p \<noteq> q" "node \<noteq> STail" using ds n(1) by auto
  define s1 where "s1 = s\<lparr>s_node := (s_node s)(node := (s_node s node)\<lparr>s_prev := p, s_next := q\<rparr>, q := (s_node s q)\<lparr>s_prev := node\<rparr>,
    p := (s_node s p)\<lparr>s_next := node\<rparr>), list_size := list_size s + 1, total_time := total_time s + s_time (s_node s node)\<rparr>"
  have l1: "linked (nxt s1) (prv s1) (as @ p # node # q # bs)"
    by (rule linked_insert [OF l ds]) (use ne in \<open>auto simp: s1_def\<close>)
  have "SHead # (xs @ node # ys) @ [STail] = as @ p # node # q # bs" using e(1,2) by simp
  then have c1: "chained s1 (xs @ node # ys)"
    using l1 D n room ps by (auto simp: chained_def s1_def)
  have "s_deref p s' = Inr (s_node s' p)" "s_deref q s' = Inr (s_node s' q)" for s' :: "'a slist"
    using pd(1,2) by (auto simp: s_deref_def split: sptr.splits if_splits)
  then have "syscall_insert_do node s = bindE (syscall_check s1) (\<lambda>_. Inr s1)"
    using n(1) ne pd place nq by (simp add: syscall_insert_do_def s1_def Let_def)
  moreover have "same_data s s1" using ne by (auto simp: same_data_def s1_def)
  ultimately show ?thesis using syscall_check_ok [OF c1] c1 unfolding xs_def ys_def by (auto simp: s1_def)
qed

lemma delete_do_chained:
  assumes c: "chained s (xs @ node # ys)"
  shows "\<exists>s'. syscall_delete_do node s = Inr s' \<and> same_data s s' \<and> total_time s' = total_time s - s_time (s_node s node) \<and> chained s' (xs @ ys)"
proof -
  note D = chainedD [OF c]
  obtain as p q bs where e: "SHead # xs = as @ [p]" "ys @ [STail] = q # bs" "p = last (SHead # xs)" "q = hd (ys @ [STail])"
    by (rule split_ends)
  have full: "SHead # (xs @ node # ys) @ [STail] = as @ p # node # q # bs" using e(1,2) by simp
  have l: "linked (nxt s) (prv s) (as @ p # node # q # bs)" and ds: "distinct (as @ p # node # q # bs)" using D(1,6) unfolding full by blast+
  have links: "nxt s p = node" "prv s node = p" "nxt s node = q" "prv s q = node"
    using l by (simp_all add: linked_append [of _ _ as p node])
  have n: "pooled node" using D(3) by simp
  have "p \<in> insert SHead (set xs)" using e(3) last_in_set [of "SHead # xs"] by auto
  then have pd: "s_deref p s' = Inr (s_node s' p)" for s' :: "'a slist" using D(3) by auto
  have "q \<in> insert STail (set ys)" using e(4) by (cases ys) auto
  then have qd: "s_deref q s' = Inr (s_node s' q)" for s' :: "'a slist" using D(3) by auto
  have ne: "node \<noteq> p" "node \<noteq> q" "p \<noteq> q" using ds by auto
  define s1 where "s1 = s\<lparr>s_node := (s_node s)(p := (s_node s p)\<lparr>s_next := q\<rparr>, q := (s_node s q)\<lparr>s_prev := p\<rparr>,
    node := (s_node s node)\<lparr>s_prev := SNull, s_next := SNull\<rparr>), list_size := list_size s - 1, total_time := total_time s - s_time (s_node s node)\<rparr>"
  have l1: "linked (nxt s1) (prv s1) (as @ p # q # bs)"
    by (rule linked_remove [OF l ds]) (use ne in \<open>auto simp: s1_def\<close>)
  have "SHead # (xs @ ys) @ [STail] = as @ p # q # bs" using e(1,2) by simp
  then have c1: "chained s1 (xs @ ys)" using l1 D by (auto simp: chained_def s1_def)
  have "syscall_delete_do node s = bindE (syscall_check s1) (\<lambda>_. Inr s1)"
    using n ne pd qd links by (simp add: syscall_delete_do_def s1_def Let_def)
  moreover have "same_data s s1" using ne by (auto simp: same_data_def s1_def)
  ultimately show ?thesis using syscall_check_ok [OF c1] c1 by (auto simp: s1_def)
qed

section \<open>The sorted association list\<close>

definition items :: "'t slist \<Rightarrow> sptr list \<Rightarrow> (string \<times> 't) list" where
  "items s ps = map (\<lambda>p. (s_name (s_node s p), s_time (s_node s p))) ps"

definition place :: "string \<times> 't \<Rightarrow> (string \<times> 't :: linorder) list \<Rightarrow> (string \<times> 't) list" where
  "place x xs = takeWhile (\<lambda>y. snd x < snd y) xs @ x # dropWhile (\<lambda>y. snd x < snd y) xs"

text \<open>The specification of an insertion: the time is added to the entry of the name, and the entry goes to its place.\<close>

definition spec_insert :: "string \<times> 't \<Rightarrow> (string \<times> 't :: {linorder, plus}) list \<Rightarrow> (string \<times> 't) list" where
  "spec_insert x xs = (case map_of xs (fst x) of
     None \<Rightarrow> place x xs
   | Some u \<Rightarrow> place (fst x, u + snd x) (filter (\<lambda>y. fst y \<noteq> fst x) xs))"

definition descending :: "(string \<times> 't :: linorder) list \<Rightarrow> bool" where
  "descending xs \<longleftrightarrow> sorted_wrt (\<lambda>x y. snd y \<le> snd x) xs \<and> distinct (map fst xs)"

lemma set_place [simp]: "set (place x xs) = insert x (set xs)"
  using set_append [of "takeWhile (\<lambda>y. snd x < snd y) xs" "dropWhile (\<lambda>y. snd x < snd y) xs"] by (simp add: place_def)

lemma place_sorted: "sorted_wrt (\<lambda>x y. snd y \<le> snd x) xs \<Longrightarrow> sorted_wrt (\<lambda>x y. snd y \<le> snd x) (place x xs)"
proof (induction xs)
  case (Cons y xs)
  show ?case
  proof (cases "snd x < snd y")
    case True
    then have "place x (y # xs) = y # place x xs" by (simp add: place_def)
    then show ?thesis using Cons True by auto
  next
    case False
    then have "place x (y # xs) = x # y # xs" by (simp add: place_def)
    then show ?thesis using Cons.prems False by auto
  qed
qed (simp add: place_def)

lemma place_distinct: "distinct (map fst xs) \<Longrightarrow> fst x \<notin> fst ` set xs \<Longrightarrow> distinct (map fst (place x xs))"
proof -
  assume d: "distinct (map fst xs)" and n: "fst x \<notin> fst ` set xs"
  let ?t = "takeWhile (\<lambda>y. snd x < snd y) xs" and ?d = "dropWhile (\<lambda>y. snd x < snd y) xs"
  have "distinct (map fst (?t @ ?d))" "fst x \<notin> fst ` set (?t @ ?d)" using d n by simp_all
  then show ?thesis unfolding place_def map_append distinct_append set_append by (auto simp del: takeWhile_dropWhile_id)
qed

lemma spec_insert_descending: "descending xs \<Longrightarrow> descending (spec_insert x xs)"
proof -
  assume d: "descending xs"
  let ?f = "filter (\<lambda>y. fst y \<noteq> fst x) xs"
  have f: "descending ?f" using d by (auto simp: descending_def sorted_wrt_filter distinct_map_filter)
  show ?thesis
  proof (cases "map_of xs (fst x)")
    case None
    then have "fst x \<notin> fst ` set xs" by (simp add: map_of_eq_None_iff)
    then show ?thesis using d None place_sorted [of xs x] place_distinct [of xs x] by (simp add: spec_insert_def descending_def)
  next
    case (Some u)
    have "fst x \<notin> fst ` set ?f" by auto
    then show ?thesis
      using Some f place_sorted [of ?f "(fst x, u + snd x)"] place_distinct [of ?f "(fst x, u + snd x)"]
      by (auto simp: spec_insert_def descending_def)
  qed
qed

lemma map_of_spec_insert:
  assumes d: "descending xs"
  shows "map_of (spec_insert x xs) = (map_of xs)(fst x \<mapsto> (case map_of xs (fst x) of None \<Rightarrow> snd x | Some u \<Rightarrow> u + snd x))"
proof -
  have dx: "distinct (map fst xs)" using d by (simp add: descending_def)
  have "distinct (map fst (spec_insert x xs))" using spec_insert_descending [OF d, of x] by (simp add: descending_def)
  moreover define e where "e = (case map_of xs (fst x) of None \<Rightarrow> snd x | Some u \<Rightarrow> u + snd x)"
  moreover have "set (spec_insert x xs) = insert (fst x, e) {y \<in> set xs. fst y \<noteq> fst x}"
  proof (cases "map_of xs (fst x)")
    case None
    then have "fst x \<notin> fst ` set xs" by (simp add: map_of_eq_None_iff)
    then have "fst y \<noteq> fst x" if "y \<in> set xs" for y using that by (metis imageI)
    then have "{y \<in> set xs. fst y \<noteq> fst x} = set xs" by blast
    then show ?thesis using None by (simp add: spec_insert_def e_def)
  qed (simp add: spec_insert_def e_def)
  ultimately have "map_of (spec_insert x xs) k = Some v \<longleftrightarrow> ((map_of xs)(fst x \<mapsto> e)) k = Some v" for k v
    by (auto simp: map_of_eq_Some_iff [OF dx] map_of_eq_Some_iff)
  then show ?thesis unfolding e_def by (intro ext) (metis not_None_eq)
qed

section \<open>Insertion refines the specification\<close>

definition sperf_rep :: "('t :: linorder) slist \<Rightarrow> sptr list \<Rightarrow> bool" where
  "sperf_rep s ps \<longleftrightarrow> chained s ps \<and> set ps = SPool ` {..<length ps} \<and> descending (items s ps)"

lemma chained_data:
  assumes "chained s ps" and "s_next n = nxt s p" and "s_prev n = prv s p"
  shows "chained (s\<lparr>s_node := (s_node s)(p := n)\<rparr>) ps"
proof -
  have "nxt (s\<lparr>s_node := (s_node s)(p := n)\<rparr>) = nxt s" "prv (s\<lparr>s_node := (s_node s)(p := n)\<rparr>) = prv s" using assms(2,3) by auto
  then show ?thesis using assms(1) by (simp add: chained_def)
qed

lemma items_place:
  assumes "same_data s s'"
  shows "items s' (takeWhile (\<lambda>q. s_time (s_node s node) < s_time (s_node s q)) ps @ node #
      dropWhile (\<lambda>q. s_time (s_node s node) < s_time (s_node s q)) ps) =
    place (s_name (s_node s node), s_time (s_node s node)) (items s ps)"
  using assms by (simp add: items_def place_def same_data_def takeWhile_map dropWhile_map comp_def)

lemma items_cong: "(\<And>p. p \<in> set ps \<Longrightarrow> s_name (s_node s' p) = s_name (s_node s p) \<and> s_time (s_node s' p) = s_time (s_node s p)) \<Longrightarrow> items s' ps = items s ps"
  by (simp add: items_def)

text \<open>Linking a node that holds an entry.\<close>

lemma insert_do_rep:
  assumes c: "chained s ps" and n: "pooled node" "node \<notin> set ps" and room: "length ps < POOL_NODES"
  shows "\<exists>s' ps'. syscall_insert_do node s = Inr s' \<and> chained s' ps' \<and> set ps' = insert node (set ps) \<and> length ps' = Suc (length ps) \<and>
    items s' ps' = place (s_name (s_node s node), s_time (s_node s node)) (items s ps)"
proof -
  let ?P = "\<lambda>q. s_time (s_node s node) < s_time (s_node s q)"
  let ?ps = "takeWhile ?P ps @ node # dropWhile ?P ps"
  obtain s' where s': "syscall_insert_do node s = Inr s'" "same_data s s'" "chained s' ?ps"
    using insert_do_chained [OF c n room] by blast
  have "set (takeWhile ?P ps @ dropWhile ?P ps) = set ps" "length (takeWhile ?P ps @ dropWhile ?P ps) = length ps" by simp_all
  then have "set ?ps = insert node (set ps)" "length ?ps = Suc (length ps)" unfolding set_append length_append by simp_all
  then show ?thesis using s' items_place [OF s'(2), of node ps] by blast
qed

lemma find_name:
  assumes "chained s ps"
  shows "name_loop WALK_NODES (s_next (s_node s SHead)) name s = Inr (hd (dropWhile (\<lambda>q. s_name (s_node s q) \<noteq> name) ps @ [STail]))"
proof -
  note D = chainedD [OF assms]
  have "s_next (s_node s SHead) = hd (ps @ [STail])" using D(1) by (cases ps) simp_all
  moreover have "length ps < WALK_NODES" using D(5) by (simp add: WALK_NODES_def)
  ultimately show ?thesis using name_loop_linked [OF D(1), of WALK_NODES name] D(3) by (simp only:) blast
qed

lemma syscall_insert_new:
  assumes r: "sperf_rep s ps" and new: "map_of (items s ps) name = None" and room: "length ps < POOL_NODES" and len: "length name < NAME_SIZE"
  shows "\<exists>s' ps'. syscall_insert name t s = Inr s' \<and> sperf_rep s' ps' \<and> items s' ps' = spec_insert (name, t) (items s ps)"
proof -
  have c: "chained s ps" and sp: "set ps = SPool ` {..<length ps}" and ds: "descending (items s ps)" using r by (simp_all add: sperf_rep_def)
  note D = chainedD [OF c]
  let ?c = "SPool (length ps)"
  have fr: "?c \<notin> set ps" "pooled ?c" using sp room by auto
  define s1 where "s1 = s\<lparr>s_node := (s_node s)(?c := (s_node s ?c)\<lparr>s_id := length ps, s_name := name, s_time := t\<rparr>)\<rparr>"
  have c1: "chained s1 ps" unfolding s1_def by (rule chained_data [OF c]) simp_all
  have i1: "items s1 ps = items s ps" using fr(1) by (intro items_cong) (auto simp: s1_def)
  have "s_name (s_node s q) \<noteq> name" if "q \<in> set ps" for q using new that unfolding map_of_eq_None_iff items_def by (auto simp: image_image)
  then have dw: "dropWhile (\<lambda>q. s_name (s_node s q) \<noteq> name) ps = []" by simp
  have find: "name_loop WALK_NODES (s_next (s_node s SHead)) name s = Inr STail"
    using find_name [OF c, of name] unfolding dw by simp
  obtain s' ps' where s': "syscall_insert_do ?c s1 = Inr s'" "chained s' ps'" "set ps' = insert ?c (set ps)" "length ps' = Suc (length ps)"
    "items s' ps' = place (name, t) (items s ps)"
    using insert_do_rep [OF c1 fr(2,1) room] i1 by (auto simp: s1_def)
  have sz: "list_size s = length ps" using D(4) by simp
  have "syscall_insert name t s = bindE (syscall_insert_do ?c s1) (\<lambda>s. bindE (syscall_check s) (\<lambda>_. Inr s))"
    using fr(2) len by (simp add: syscall_insert_def find Let_def sz s1_def)
  then have "syscall_insert name t s = Inr s'" using s'(1) syscall_check_ok [OF s'(2)] by simp
  moreover have sp': "items s' ps' = spec_insert (name, t) (items s ps)" using s'(5) new by (simp add: spec_insert_def)
  moreover have "sperf_rep s' ps'"
    using s'(2-4) sp spec_insert_descending [OF ds, of "(name, t)"] sp' by (auto simp: sperf_rep_def lessThan_Suc)
  ultimately show ?thesis by blast
qed

lemma syscall_insert_known:
  assumes r: "sperf_rep s ps" and known: "map_of (items s ps) name = Some u"
  shows "\<exists>s' ps'. syscall_insert name t s = Inr s' \<and> sperf_rep s' ps' \<and> items s' ps' = spec_insert (name, t) (items s ps)"
proof -
  have c: "chained s ps" and sp: "set ps = SPool ` {..<length ps}" and ds: "descending (items s ps)" using r by (simp_all add: sperf_rep_def)
  note D = chainedD [OF c]
  let ?P = "\<lambda>q. s_name (s_node s q) \<noteq> name"
  obtain p where p: "p \<in> set ps" "s_name (s_node s p) = name" using map_of_SomeD [OF known] by (auto simp: items_def)
  then have "dropWhile ?P ps \<noteq> []" unfolding dropWhile_eq_Nil_conv by blast
  then obtain node ys where dn: "dropWhile ?P ps = node # ys" by (cases "dropWhile ?P ps") auto
  define xs where "xs = takeWhile ?P ps"
  have ps: "ps = xs @ node # ys" using takeWhile_dropWhile_id [of ?P ps] dn by (simp add: xs_def)
  have nm: "s_name (s_node s node) = name" using hd_dropWhile [of ?P ps] dn by simp
  have "pooled node" using D(3) [of node] ps by simp
  moreover from this have "node \<noteq> STail" by auto
  ultimately have n: "pooled node" "node \<noteq> STail" "node \<notin> set (xs @ ys)" using D(2) ps by simp_all
  have find: "name_loop WALK_NODES (s_next (s_node s SHead)) name s = Inr node"
    using find_name [OF c, of name] unfolding dn by simp
  obtain s1 where s1: "syscall_delete_do node s = Inr s1" "same_data s s1" "chained s1 (xs @ ys)"
    using delete_do_chained [of s xs node ys] c ps by auto
  define s2 where "s2 = s1\<lparr>s_node := (s_node s1)(node := (s_node s1 node)\<lparr>s_time := s_time (s_node s1 node) + t\<rparr>)\<rparr>"
  have c2: "chained s2 (xs @ ys)" unfolding s2_def by (rule chained_data [OF s1(3)]) simp_all
  have u: "s_time (s_node s node) = u"
  proof -
    have "(name, s_time (s_node s node)) \<in> set (items s ps)" using nm ps by (auto simp: items_def)
    then show ?thesis using known ds by (simp add: descending_def map_of_eq_Some_iff)
  qed
  have i2: "items s2 (xs @ ys) = filter (\<lambda>y. fst y \<noteq> name) (items s ps)"
  proof -
    have "items s2 (xs @ ys) = items s (xs @ ys)" using n(3) s1(2) by (intro items_cong) (auto simp: s2_def same_data_def)
    moreover have "name \<notin> fst ` set (items s (xs @ ys))" using ds nm ps by (auto simp: descending_def items_def)
    then have "filter (\<lambda>y. fst y \<noteq> name) (items s (xs @ ys)) = items s (xs @ ys)" by (intro filter_True) auto
    ultimately show ?thesis using nm unfolding ps items_def by simp
  qed
  have room: "length (xs @ ys) < POOL_NODES" using D(5) ps by simp
  obtain s' ps' where s': "syscall_insert_do node s2 = Inr s'" "chained s' ps'" "set ps' = insert node (set (xs @ ys))"
    "length ps' = Suc (length (xs @ ys))" "items s' ps' = place (name, u + t) (items s2 (xs @ ys))"
    using insert_do_rep [OF c2 n(1,3) room] s1(2) nm u by (auto simp: s2_def same_data_def)
  have "syscall_insert name t s = bindE (syscall_insert_do node s2) (\<lambda>s. bindE (syscall_check s) (\<lambda>_. Inr s))"
    using n(1,2) nm s1(1) by (simp add: syscall_insert_def find s2_def)
  then have "syscall_insert name t s = Inr s'" using s'(1) syscall_check_ok [OF s'(2)] by simp
  moreover have sp': "items s' ps' = spec_insert (name, t) (items s ps)" using s'(5) known i2 by (simp add: spec_insert_def)
  moreover have "set ps' = set ps" "length ps' = length ps" using s'(3,4) ps by auto
  then have "sperf_rep s' ps'" using s'(2) sp spec_insert_descending [OF ds, of "(name, t)"] sp' by (simp add: sperf_rep_def)
  ultimately show ?thesis by blast
qed

lemma syscall_insert_refines:
  assumes r: "sperf_rep s ps" and len: "length name < NAME_SIZE" and room: "name \<in> fst ` set (items s ps) \<or> length ps < POOL_NODES"
  shows "\<exists>s' ps'. syscall_insert name t s = Inr s' \<and> sperf_rep s' ps' \<and> items s' ps' = spec_insert (name, t) (items s ps)"
proof (cases "map_of (items s ps) name")
  case None
  then have "name \<notin> fst ` set (items s ps)" by (simp add: map_of_eq_None_iff)
  then show ?thesis using syscall_insert_new [OF r None _ len] room by simp
next
  case (Some u)
  then show ?thesis by (rule syscall_insert_known [OF r])
qed

section \<open>Profiles\<close>

text \<open>The entries that the lines of a trace contain, and the time of a name, added up in the order of the lines.\<close>

fun entries_of :: "(string \<Rightarrow> 't) \<Rightarrow> string list \<Rightarrow> (string \<times> 't) list" where
  "entries_of to_time [] = []"
| "entries_of to_time (buf # bufs) =
     (case scan_line buf of Inr (Some (name, time)) \<Rightarrow> (name, to_time time) # entries_of to_time bufs | _ \<Rightarrow> entries_of to_time bufs)"

fun time_of :: "string \<Rightarrow> (string \<times> 't :: plus) list \<Rightarrow> 't option \<Rightarrow> 't option" where
  "time_of name [] acc = acc"
| "time_of name (x # xs) acc =
     time_of name xs (if fst x = name then Some (case acc of None \<Rightarrow> snd x | Some u \<Rightarrow> u + snd x) else acc)"

lemma scan_line_name:
  assumes "scan_line buf = Inr (Some (name, time))"
  shows "length name \<le> length buf"
proof -
  have n: "name = hd buf # takeWhile (\<lambda>c. c \<noteq> CHR 0x28) (tl buf)" and "buf \<noteq> []"
    using assms by (auto simp: scan_line_def Let_def bindE_Inr_iff split: if_splits)
  then show ?thesis using length_takeWhile_le [of "\<lambda>c. c \<noteq> CHR 0x28" "tl buf"] by (cases buf) auto
qed

lemma collect_refines:
  assumes "sperf_rep s ps" and "\<forall>buf\<in>set bufs. length buf < NAME_SIZE \<and> (\<exists>r. scan_line buf = Inr r)"
    and "card (fst ` (set (items s ps) \<union> set (entries_of to_time bufs))) \<le> POOL_NODES"
  shows "\<exists>s' ps'. collect to_time bufs s = Inr s' \<and> sperf_rep s' ps' \<and> items s' ps' = fold spec_insert (entries_of to_time bufs) (items s ps)"
  using assms
proof (induction bufs arbitrary: s ps)
  case Nil
  then show ?case by auto
next
  case (Cons buf bufs)
  obtain r where r: "scan_line buf = Inr r" using Cons.prems(2) by auto
  show ?case
  proof (cases r)
    case None
    then show ?thesis using Cons r by simp
  next
    case (Some x)
    obtain name time where x: "x = (name, time)" by (cases x)
    have sl: "scan_line buf = Inr (Some (name, time))" using r Some x by simp
    have len: "length name < NAME_SIZE" using scan_line_name [OF sl] Cons.prems(2) by (metis le_less_trans list.set_intros(1))
    have ds: "descending (items s ps)" using Cons.prems(1) by (simp add: sperf_rep_def)
    then have cnt: "length ps = card (fst ` set (items s ps))"
      using distinct_card [of "map fst (items s ps)"] by (simp add: descending_def items_def image_image comp_def)
    let ?all = "fst ` (set (items s ps) \<union> set (entries_of to_time (buf # bufs)))"
    have fin: "finite ?all" by simp
    have "name \<in> fst ` set (items s ps) \<or> length ps < POOL_NODES"
    proof (rule disjCI)
      assume full: "\<not> length ps < POOL_NODES"
      have "fst ` set (items s ps) \<subseteq> ?all" by auto
      moreover have "card ?all \<le> card (fst ` set (items s ps))" using full cnt Cons.prems(3) by simp
      ultimately have "?all = fst ` set (items s ps)" using card_seteq [OF fin] by blast
      then show "name \<in> fst ` set (items s ps)" using sl by auto
    qed
    then obtain s1 ps1 where s1: "syscall_insert name (to_time time) s = Inr s1" "sperf_rep s1 ps1"
      "items s1 ps1 = spec_insert (name, to_time time) (items s ps)"
      using syscall_insert_refines [OF Cons.prems(1) len] by blast
    have "fst ` set (items s1 ps1) = insert name (fst ` set (items s ps))"
      using arg_cong [OF map_of_spec_insert [OF ds, of "(name, to_time time)"], of dom] s1(3) by (simp add: dom_map_of_conv_image_fst)
    then have "fst ` (set (items s1 ps1) \<union> set (entries_of to_time bufs)) = ?all" using sl by (auto simp: image_Un)
    then show ?thesis using Cons.IH [OF s1(2)] Cons.prems(2,3) s1(1,3) sl by simp
  qed
qed

lemma map_of_fold_insert: "descending xs \<Longrightarrow> map_of (fold spec_insert es xs) name = time_of name es (map_of xs name)"
proof (induction es arbitrary: xs)
  case (Cons x es)
  then show ?case using Cons.IH [OF spec_insert_descending [OF Cons.prems, of x]] by (auto simp: map_of_spec_insert [OF Cons.prems])
qed simp

lemma init_rep: "sperf_rep (syscall_init pool) []" "items (syscall_init pool) [] = []"
  by (simp_all add: sperf_rep_def chained_def syscall_init_def Let_def descending_def items_def)

text \<open>
  C32: The profiler's list is a profile.  For a trace of well-formed lines that names at most as many system calls as the pool has nodes, the
  program reads the whole trace, with every assertion of its consistency check satisfied; the linked list is then in descending order of time
  and holds each system call of the trace once, with the sum of its times, added up in the order of the trace.
\<close>

theorem sperf_profile:
  fixes to_time :: "string \<Rightarrow> 't :: {linorder, plus, minus, zero}"
  assumes lines: "\<forall>buf\<in>set bufs. length buf < NAME_SIZE \<and> (\<exists>r. scan_line buf = Inr r)"
    and names: "card (fst ` set (entries_of to_time bufs)) \<le> POOL_NODES"
  shows "\<exists>s ps. collect to_time bufs (syscall_init pool) = Inr s \<and> chained s ps \<and>
    sorted_wrt (\<lambda>x y. snd y \<le> snd x) (items s ps) \<and> distinct (map fst (items s ps)) \<and>
    (\<forall>name. map_of (items s ps) name = time_of name (entries_of to_time bufs) None)"
proof -
  obtain s ps where s: "collect to_time bufs (syscall_init pool) = Inr s" "sperf_rep s ps" "items s ps = fold spec_insert (entries_of to_time bufs) []"
    using collect_refines [OF init_rep(1) lines, of pool to_time] names by (auto simp: init_rep(2))
  have "map_of (items s ps) name = time_of name (entries_of to_time bufs) None" for name
    unfolding s(3) using map_of_fold_insert [of "[]" "entries_of to_time bufs" name] by (simp add: descending_def)
  then show ?thesis using s(1,2) by (auto simp: sperf_rep_def descending_def)
qed

definition demo_trace :: "string list" where
  "demo_trace = [''read(3) <5>'' @ [CHR 0x0A], ''write(1) <7>'' @ [CHR 0x0A], ''+++'', ''read(3) <4>'' @ [CHR 0x0A]]"

lemma demo_entries:
  "entries_of length demo_trace = [(''read'', 1), (''write'', 1), (''read'', 1)]"
  by (simp add: demo_trace_def scan_line_def)

theorem sperf_profile_witness:
  "\<exists>s ps. collect length demo_trace (syscall_init (\<lambda>_. \<lparr>s_id = 0, s_name = [], s_time = 0, s_prev = SNull, s_next = SNull\<rparr>)) = Inr s \<and>
     chained s ps \<and> map_of (items s ps) ''read'' = Some (2 :: nat)"
proof -
  have l: "\<forall>buf\<in>set demo_trace. length buf < NAME_SIZE \<and> (\<exists>r. scan_line buf = Inr r)"
    by (simp add: demo_trace_def scan_line_def NAME_SIZE_def)
  have n: "card (fst ` set (entries_of length demo_trace)) \<le> POOL_NODES"
    unfolding demo_entries by (simp add: POOL_NODES_def card_insert_if)
  let ?pool = "\<lambda>_. \<lparr>s_id = 0, s_name = [], s_time = 0, s_prev = SNull, s_next = SNull\<rparr>"
  obtain s ps where s: "collect length demo_trace (syscall_init ?pool) = Inr s" "chained s ps"
    "\<forall>name. map_of (items s ps) name = time_of name (entries_of length demo_trace) None"
    using sperf_profile [OF l n, of ?pool] by blast
  have "map_of (items s ps) ''read'' = Some 2" using s(3) [rule_format, of "''read''"] unfolding demo_entries by simp
  then show ?thesis using s(1,2) by blast
qed

end
