(* ===== verification/Pstree.thy ===== *)
theory Pstree
  imports Prelude
begin

text \<open>
  The process tree of \<^verbatim>\<open>pstree/pstree.c\<close>: the children of every process in a list that is linked in one direction
  between two sentinels and kept in order, the reading of the status files, the drawing of the tree and the options of
  the command line.  Memory from \<^verbatim>\<open>malloc\<close> and the locals of a function hold what was there before, which is an
  argument (\<open>garbage\<close>, \<open>pframe\<close>); \<^verbatim>\<open>malloc\<close> always succeeds.  The directories and files under \<^verbatim>\<open>/proc\<close> are an argument.
\<close>

section \<open>Nodes and lists\<close>

definition MAX_PID :: int where "MAX_PID = 32768"
definition MAX_DEPTH :: nat where "MAX_DEPTH = 64"
definition CHILD_NAME_SIZE :: nat where "CHILD_NAME_SIZE = 64"

record list_node =
  child_pid :: int
  child_name :: string
  node_next :: "nat option"

record node_list =
  l_head :: "nat option"
  l_tail :: "nat option"

record pstate =
  nodes :: "list_node list"
  garbage :: "nat \<Rightarrow> list_node"
  Tree :: "int \<Rightarrow> node_list"
  dfs_mem :: "nat \<Rightarrow> nat"
  len_mem :: "nat \<Rightarrow> nat"
  stdout :: string

definition pstate0 :: "(nat \<Rightarrow> list_node) \<Rightarrow> pstate" where
  "pstate0 g = \<lparr>nodes = [], garbage = g, Tree = (\<lambda>_. \<lparr>l_head = None, l_tail = None\<rparr>), dfs_mem = (\<lambda>_. 0), len_mem = (\<lambda>_. 0), stdout = []\<rparr>"

definition n_malloc :: "pstate \<Rightarrow> nat \<times> pstate" where
  "n_malloc s = (length (nodes s), s\<lparr>nodes := nodes s @ [garbage s (length (nodes s))]\<rparr>)"

definition n_deref :: "nat option \<Rightarrow> pstate \<Rightarrow> list_node res" where
  "n_deref p s = (case p of None \<Rightarrow> Inl NullDeref | Some a \<Rightarrow> if a < length (nodes s) then Inr (nodes s ! a) else Inl OutOfBounds)"

definition n_update :: "nat option \<Rightarrow> (list_node \<Rightarrow> list_node) \<Rightarrow> pstate \<Rightarrow> pstate res" where
  "n_update p f s = bindE (n_deref p s) (\<lambda>n. Inr (s\<lparr>nodes := (nodes s)[the p := f n]\<rparr>))"

definition tree_at :: "int \<Rightarrow> pstate \<Rightarrow> node_list res" where
  "tree_at i s = bindE (guardE OutOfBounds (0 \<le> i \<and> i < MAX_PID)) (\<lambda>_. Inr (Tree s i))"

text \<open>\<^verbatim>\<open>strcmp\<close> of the host compares the characters as unsigned numbers.\<close>

fun host_strcmp :: "string \<Rightarrow> string \<Rightarrow> int" where
  "host_strcmp [] [] = 0"
| "host_strcmp [] (y # ys) = - 1"
| "host_strcmp (x # xs) [] = 1"
| "host_strcmp (x # xs) (y # ys) =
     (if x = y then host_strcmp xs ys else if (of_char x :: nat) < of_char y then - 1 else 1)"

type_synonym child_cmp = "nat option \<Rightarrow> nat option \<Rightarrow> nat option \<Rightarrow> nat option \<Rightarrow> pstate \<Rightarrow> bool res"

definition guard_cmp1 :: child_cmp where
  "guard_cmp1 p q hd_p tl_p s =
     (if p = hd_p \<or> q = tl_p then Inr False
      else bindE (n_deref p s) (\<lambda>a. bindE (n_deref q s) (\<lambda>b. Inr (child_pid b < child_pid a))))"

definition guard_cmp2 :: child_cmp where
  "guard_cmp2 p q hd_p tl_p s =
     (if p = hd_p \<or> q = tl_p then Inr False
      else bindE (n_deref p s) (\<lambda>a. bindE (n_deref q s) (\<lambda>b. Inr (0 < host_strcmp (child_name a) (child_name b)))))"

definition init_node :: "nat option \<Rightarrow> int \<Rightarrow> string \<Rightarrow> pstate \<Rightarrow> pstate res" where
  "init_node p pid name s =
     bindE (n_update p (\<lambda>n. n\<lparr>child_pid := pid\<rparr>) s) (\<lambda>s.
     bindE (guardE OutOfBounds (length name < CHILD_NAME_SIZE)) (\<lambda>_.
     n_update p (\<lambda>n. n\<lparr>child_name := name\<rparr>) s))"

definition insert_node_do :: "nat option \<Rightarrow> nat option \<Rightarrow> nat option \<Rightarrow> pstate \<Rightarrow> pstate res" where
  "insert_node_do prev mid succ s =
     bindE (n_update prev (\<lambda>n. n\<lparr>node_next := mid\<rparr>) s) (\<lambda>s.
     n_update mid (\<lambda>n. n\<lparr>node_next := succ\<rparr>) s)"

text \<open>A walk visits every node of the heap at most once; more steps than nodes show a cycle.\<close>

fun insert_walk :: "nat \<Rightarrow> child_cmp \<Rightarrow> nat option \<Rightarrow> node_list \<Rightarrow> nat option \<Rightarrow> nat option \<Rightarrow> pstate \<Rightarrow> (nat option \<times> nat option) res" where
  "insert_walk 0 cmp new l p p2 s = Inl Diverge"
| "insert_walk (Suc fuel) cmp new l p p2 s =
     bindE (if p2 \<noteq> l_tail l then cmp new p2 (l_head l) (l_tail l) s else Inr False) (\<lambda>go.
     if go then
       bindE (n_deref p s) (\<lambda>n.
       bindE (n_deref p2 s) (\<lambda>n2. insert_walk fuel cmp new l (node_next n) (node_next n2) s))
     else Inr (p, p2))"

definition make_list :: "int \<Rightarrow> pstate \<Rightarrow> pstate res" where
  "make_list ppid s =
     (let (h, s) = n_malloc s;
          s = s\<lparr>Tree := (Tree s)(ppid := (Tree s ppid)\<lparr>l_head := Some h\<rparr>)\<rparr>;
          (t, s) = n_malloc s;
          s = s\<lparr>Tree := (Tree s)(ppid := (Tree s ppid)\<lparr>l_tail := Some t\<rparr>)\<rparr>
      in n_update (Some h) (\<lambda>n. n\<lparr>node_next := Some t\<rparr>) s)"

definition insert_node :: "int \<Rightarrow> int \<Rightarrow> string \<Rightarrow> child_cmp \<Rightarrow> pstate \<Rightarrow> pstate res" where
  "insert_node ppid pid name cmp s =
     bindE (tree_at ppid s) (\<lambda>l.
     bindE (if l_head l = None \<and> l_tail l = None then make_list ppid s else Inr s) (\<lambda>s.
     let (new, s) = n_malloc s in
     bindE (init_node (Some new) pid name s) (\<lambda>s.
     let l = Tree s ppid; p = l_head l in
     bindE (n_deref p s) (\<lambda>n.
     bindE (insert_walk (length (nodes s)) cmp (Some new) l p (node_next n) s) (\<lambda>(p, p2).
     insert_node_do p (Some new) p2 s)))))"

section \<open>Drawing\<close>

fun dec_nat :: "nat \<Rightarrow> string" where
  "dec_nat n = (if n < 10 then [''0123456789'' ! n] else dec_nat (n div 10) @ [''0123456789'' ! (n mod 10)])"

declare dec_nat.simps [simp del]

text \<open>\<^verbatim>\<open>printf\<close> with \<^verbatim>\<open>%d\<close>.\<close>

definition dec_int :: "int \<Rightarrow> string" where
  "dec_int i = (if i < 0 then CHR ''-'' # dec_nat (nat (- i)) else dec_nat (nat i))"

definition p_label :: "bool \<Rightarrow> int \<Rightarrow> string \<Rightarrow> string" where
  "p_label show_pids root name =
     (if show_pids then ''-'' @ name @ ''('' @ dec_int root @ '')'' else ''-'' @ name)"

definition p_print :: "string \<Rightarrow> pstate \<Rightarrow> pstate" where
  "p_print t s = s\<lparr>stdout := stdout s @ t\<rparr>"

definition p_column :: "bool \<Rightarrow> nat \<Rightarrow> pstate \<Rightarrow> nat \<Rightarrow> string" where
  "p_column last_next max_valid s i =
     map (\<lambda>j. if dfs_mem s i \<noteq> 0 \<and> int j = int (len_mem s i) - 1
              then (if last_next \<and> i = max_valid then CHR 0x60 else CHR ''|'')
              else CHR '' '') [0..<len_mem s i]"

definition p_margin :: "bool \<Rightarrow> nat \<Rightarrow> pstate \<Rightarrow> string" where
  "p_margin last_next max_valid s = concat (map (p_column last_next max_valid s) [0..<Suc max_valid])"

text \<open>The loop that looks for the last marked level reads \<^verbatim>\<open>dfs_mem[depth]\<close>, not \<^verbatim>\<open>dfs_mem[i]\<close>.\<close>

definition p_undo :: "nat \<Rightarrow> pstate \<Rightarrow> nat" where
  "p_undo depth s = fold (\<lambda>i mv. if dfs_mem s depth \<noteq> 0 then i else mv) [0..<depth] 0"

text \<open>
  The recursion ends because the two tables have \<^verbatim>\<open>64\<close> entries: a deeper level writes outside of them.  The
  loop over the children walks a list and has the fuel of a walk.
\<close>

function (sequential) dfs_print_tree :: "int \<Rightarrow> string \<Rightarrow> nat \<Rightarrow> nat \<Rightarrow> bool \<Rightarrow> pstate \<Rightarrow> pstate res"
  and dfs_children :: "nat \<Rightarrow> nat option \<Rightarrow> int \<Rightarrow> nat \<Rightarrow> nat \<Rightarrow> bool \<Rightarrow> pstate \<Rightarrow> pstate res" where
  "dfs_print_tree root name depth max_valid show_pids s =
     bindE (guardE OutOfBounds (depth < MAX_DEPTH)) (\<lambda>_.
     let t = p_label show_pids root name;
         s = p_print t s;
         s = s\<lparr>len_mem := (len_mem s)(depth := length t)\<rparr> in
     bindE (tree_at root s) (\<lambda>l.
     if l_head l \<noteq> None then
       bindE (n_deref (l_head l) s) (\<lambda>h. dfs_children (length (nodes s)) (node_next h) root depth max_valid show_pids s)
     else Inr s))"
| "dfs_children 0 x root depth max_valid show_pids s = Inl Diverge"
| "dfs_children (Suc fuel) x root depth max_valid show_pids s =
     (let tl_p = l_tail (Tree s root) in
      if x = tl_p then Inr s
      else
        bindE (n_deref x s) (\<lambda>n.
        bindE (guardE OutOfBounds (depth < MAX_DEPTH)) (\<lambda>_.
        let more = (node_next n \<noteq> tl_p);
            s = s\<lparr>dfs_mem := (dfs_mem s)(depth := if more then 1 else 0)\<rparr>;
            max_valid = (if more then depth else p_undo depth s) in
        bindE (dfs_print_tree (child_pid n) (child_name n) (depth + 1) max_valid show_pids s) (\<lambda>s.
        bindE
          (if more then
             bindE (n_deref (node_next n) s) (\<lambda>n2.
             let s = p_print [CHR 0x0A] s in
             Inr (p_print (p_margin (node_next n2 = tl_p) max_valid s) s))
           else Inr s) (\<lambda>s.
        dfs_children fuel (node_next n) root depth max_valid show_pids s)))))"
  by pat_completeness auto
termination
  by (relation "measures [\<lambda>x. case x of Inl (r, n, d, m, p, s) \<Rightarrow> MAX_DEPTH - d | Inr (f, x, r, d, m, p, s) \<Rightarrow> MAX_DEPTH - d,
        \<lambda>x. case x of Inl _ \<Rightarrow> 1 | Inr _ \<Rightarrow> 0, \<lambda>x. case x of Inl _ \<Rightarrow> 0 | Inr (f, x, r, d, m, p, s) \<Rightarrow> f]")
     (auto simp: guardE_Inr_iff)

declare dfs_print_tree.simps [simp del] dfs_children.simps [simp del]

fun find_init :: "nat \<Rightarrow> nat option \<Rightarrow> nat option \<Rightarrow> pstate \<Rightarrow> nat option res" where
  "find_init 0 x tl_p s = Inl Diverge"
| "find_init (Suc fuel) x tl_p s =
     (if x = tl_p then Inr x
      else bindE (n_deref x s) (\<lambda>n. if child_pid n = 1 then Inr x else find_init fuel (node_next n) tl_p s))"

definition print_tree :: "bool \<Rightarrow> pstate \<Rightarrow> pstate res" where
  "print_tree show_pids s =
     (let s = p_print (''Process Tree: '' @ [CHR 0x0A]) s; l = Tree s 0 in
      bindE (n_deref (l_head l) s) (\<lambda>h.
      bindE (find_init (length (nodes s)) (node_next h) (l_tail l) s) (\<lambda>x.
      bindE (n_deref x s) (\<lambda>n.
      bindE (assertE (child_pid n = 1)) (\<lambda>_.
      bindE (dfs_print_tree 1 (child_name n) 0 0 show_pids s) (\<lambda>s.
      Inr (p_print [CHR 0x0A] s)))))))"

section \<open>Reading the status files\<close>

text \<open>A stream is the rest of the file.  \<^verbatim>\<open>fgets\<close> at the end of the file leaves the buffer as it was.\<close>

definition p_fgets :: "nat \<Rightarrow> string \<Rightarrow> string \<Rightarrow> string \<times> string" where
  "p_fgets n buf st =
     (if st = [] then (buf, st)
      else
        let body = takeWhile (\<lambda>c. c \<noteq> CHR 0x0A) st;
            got = take (n - 1) (take (Suc (length body)) st)
        in (got, drop (length got) st))"

lemma p_fgets_newline:
  assumes "CHR 0x0A \<notin> set l" and "Suc (length l) < n"
  shows "p_fgets n buf (l @ [CHR 0x0A] @ r) = (l @ [CHR 0x0A], r)"
proof -
  have "takeWhile (\<lambda>c. c \<noteq> CHR 0x0A) (l @ [CHR 0x0A] @ r) = l" using assms(1) by (subst takeWhile_append2) auto
  moreover have "take (n - 1) (l @ [CHR 0x0A]) = l @ [CHR 0x0A]" using assms(2) by (intro take_all) simp
  moreover have "take (Suc (length l)) (l @ [CHR 0x0A] @ r) = l @ [CHR 0x0A]" "drop (length (l @ [CHR 0x0A])) (l @ [CHR 0x0A] @ r) = r" by simp_all
  ultimately show ?thesis unfolding p_fgets_def Let_def by (simp del: append_assoc take_append drop_append)
qed

definition p_isspace :: "char \<Rightarrow> bool" where
  "p_isspace c \<longleftrightarrow> c \<in> {CHR '' '', CHR 0x09, CHR 0x0A, CHR 0x0B, CHR 0x0C, CHR 0x0D}"

fun scan_text :: "string \<Rightarrow> string \<Rightarrow> bool \<times> string" where
  "scan_text [] st = (True, st)"
| "scan_text (f # fs) st =
     (if p_isspace f then scan_text fs (dropWhile p_isspace st)
      else case st of [] \<Rightarrow> (False, []) | c # cs \<Rightarrow> if c = f then scan_text fs cs else (False, st))"

definition is_dec :: "char \<Rightarrow> bool" where
  "is_dec c \<longleftrightarrow> c \<in> set ''0123456789''"

definition dec_value :: "string \<Rightarrow> int" where
  "dec_value ds = foldl (\<lambda>v c. 10 * v + (of_char c - 48)) 0 ds"

text \<open>\<^verbatim>\<open>%d\<close>: the value and the rest, or nothing when no number is there; the numbers are those of processes, far below the limits of \<^verbatim>\<open>int\<close>.\<close>

definition scan_dec :: "string \<Rightarrow> int option \<times> string" where
  "scan_dec st =
     (let st = dropWhile p_isspace st;
          neg = (st \<noteq> [] \<and> hd st = CHR ''-'');
          st' = (if st \<noteq> [] \<and> hd st \<in> {CHR ''-'', CHR ''+''} then tl st else st);
          ds = takeWhile is_dec st'
      in if ds = [] then (None, st') else (Some (if neg then - dec_value ds else dec_value ds), drop (length ds) st'))"

text \<open>\<^verbatim>\<open>fscanf(fp, "<text>%d\n", &v)\<close>.\<close>

definition p_fscanf :: "string \<Rightarrow> int \<Rightarrow> string \<Rightarrow> int \<times> string" where
  "p_fscanf lit v st =
     (case scan_text lit st of
        (False, st) \<Rightarrow> (v, st)
      | (True, st) \<Rightarrow> (case scan_dec st of (None, st) \<Rightarrow> (v, st) | (Some i, st) \<Rightarrow> (i, dropWhile p_isspace st)))"

record pframe =
  v_temp :: string
  v_name :: string
  v_tgid :: int
  v_pid :: int
  v_ppid :: int

record proc_env =
  e_dir :: "string \<Rightarrow> (string \<times> bool) list option"
  e_file :: "string \<Rightarrow> string option"
  e_frame :: pframe

definition LINE_SIZE :: nat where "LINE_SIZE = 128"

definition read_status :: "pframe \<Rightarrow> string \<Rightarrow> pframe" where
  "read_status u fp =
     (let (temp, fp) = p_fgets LINE_SIZE (v_temp u) fp;
          (name, fp) = p_fgets LINE_SIZE (v_name u) fp;
          (name, fp) = p_fgets LINE_SIZE name fp;
          (tgid, fp) = p_fscanf ''Tgid: '' (v_tgid u) fp;
          (name, fp) = p_fgets LINE_SIZE name fp;
          (pid, fp) = p_fscanf ''Pid: '' (v_pid u) fp;
          (ppid, fp) = p_fscanf ''PPid: '' (v_ppid u) fp
      in \<lparr>v_temp = temp, v_name = name, v_tgid = tgid, v_pid = pid, v_ppid = ppid\<rparr>)"

definition read_proc_status_do :: "proc_env \<Rightarrow> string \<Rightarrow> child_cmp \<Rightarrow> pstate \<Rightarrow> pstate res" where
  "read_proc_status_do env filepath cmp s =
     (case e_file env filepath of
        None \<Rightarrow> Inr s
      | Some fp \<Rightarrow>
          let v = read_status (e_frame env) fp in
          bindE (guardE OutOfBounds (6 \<le> length (v_temp v))) (\<lambda>_.
          let name = takeWhile (\<lambda>c. c \<noteq> CHR 0x00) (drop 6 (v_temp v)) in
          bindE (guardE OutOfBounds (name \<noteq> [])) (\<lambda>_.
          insert_node (if v_tgid v = v_pid v then v_ppid v else v_tgid v) (v_pid v) (butlast name) cmp s)))"

definition skip_entry :: "string \<times> bool \<Rightarrow> bool" where
  "skip_entry e \<longleftrightarrow> fst e = ''.'' \<or> fst e = ''..'' \<or> \<not> snd e"

fun read_tasks :: "proc_env \<Rightarrow> string \<Rightarrow> (string \<times> bool) list \<Rightarrow> child_cmp \<Rightarrow> pstate \<Rightarrow> pstate res" where
  "read_tasks env filepath [] cmp s = Inr s"
| "read_tasks env filepath (e # es) cmp s =
     (if skip_entry e then read_tasks env filepath es cmp s
      else
        let filepath2 = filepath @ ''/'' @ fst e @ ''/status'' in
        bindE (guardE OutOfBounds (length filepath2 < 512)) (\<lambda>_.
        bindE (read_proc_status_do env filepath2 cmp s) (\<lambda>s. read_tasks env filepath es cmp s)))"

definition read_proc_status :: "proc_env \<Rightarrow> string \<Rightarrow> child_cmp \<Rightarrow> pstate \<Rightarrow> pstate res" where
  "read_proc_status env pid cmp s =
     (let filepath = ''/proc/'' @ pid @ ''/task'' in
      bindE (guardE OutOfBounds (length filepath < 128)) (\<lambda>_.
      case e_dir env filepath of None \<Rightarrow> Inr s | Some es \<Rightarrow> read_tasks env filepath es cmp s))"

section \<open>The program\<close>

definition VERSION :: u32 where "VERSION = 1"
definition NUMERIC_SORT :: u32 where "NUMERIC_SORT = 2"
definition SHOW_PIDS :: u32 where "SHOW_PIDS = 4"

definition warning_text :: string where "warning_text = ''Unsupported operation! '' @ [CHR 0x0A]"

definition version_text :: string where
  "version_text = ''pstree version 1.0.0'' @ [CHR 0x0A] @ ''author: Lanceloia'' @ [CHR 0x0A] @ ''email: 3509175458@qq.com'' @ [CHR 0x0A] @
     ''testing at: Ubuntu 4.18.0'' @ [CHR 0x0A] @ ''last update: 2019/2/28'' @ [CHR 0x0A]"

fun read_all :: "proc_env \<Rightarrow> (string \<times> bool) list \<Rightarrow> u32 \<Rightarrow> pstate \<Rightarrow> pstate res" where
  "read_all env [] flag s = Inr s"
| "read_all env (e # es) flag s =
     (if skip_entry e then read_all env es flag s
      else
        bindE (if flag AND NUMERIC_SORT \<noteq> 0 then read_proc_status env (fst e) guard_cmp1 s
               else read_proc_status env (fst e) guard_cmp2 s) (\<lambda>s.
        read_all env es flag s))"

definition execute :: "proc_env \<Rightarrow> u32 \<Rightarrow> pstate \<Rightarrow> (int \<times> pstate) res" where
  "execute env flag s =
     (if flag AND VERSION \<noteq> 0 then Inr (0, p_print version_text s)
      else
        case e_dir env ''/proc'' of
          None \<Rightarrow> Inr (- 1, p_print (''Error'' @ [CHR 0x0A]) s)
        | Some es \<Rightarrow>
            bindE (read_all env es flag s) (\<lambda>s.
            bindE (print_tree (flag AND SHOW_PIDS \<noteq> 0) s) (\<lambda>s. Inr (0, s))))"

text \<open>\<open>None\<close> is the unsupported option, which ends the program with the warning.\<close>

fun short_options :: "string \<Rightarrow> u32 \<Rightarrow> u32 option" where
  "short_options [] flag = Some flag"
| "short_options (c # cs) flag =
     (if c = CHR ''p'' then short_options cs (flag OR SHOW_PIDS)
      else if c = CHR ''n'' then short_options cs (flag OR NUMERIC_SORT)
      else if c = CHR ''V'' then short_options cs (flag OR VERSION)
      else None)"

fun parse_options :: "string list \<Rightarrow> u32 \<Rightarrow> u32 option" where
  "parse_options [] flag = Some flag"
| "parse_options (a # as) flag =
     (if take 2 a = ''--'' then
        if a = ''--show-pids'' then parse_options as (flag OR SHOW_PIDS)
        else if a = ''--numeric-sort'' then parse_options as (flag OR NUMERIC_SORT)
        else if a = ''--version'' then parse_options as (flag OR VERSION)
        else None
      else if take 1 a = ''-'' then
        (case short_options (tl a) flag of None \<Rightarrow> None | Some flag \<Rightarrow> parse_options as flag)
      else None)"

definition pstree_main :: "proc_env \<Rightarrow> string list \<Rightarrow> pstate \<Rightarrow> (int \<times> pstate) res" where
  "pstree_main env argv s =
     (case parse_options (tl argv) 0 of
        None \<Rightarrow> Inr (- 1, p_print warning_text s)
      | Some flag \<Rightarrow> execute env flag s)"

end
