(* ===== verification/Pstree_Correct.thy ===== *)
theory Pstree_Correct
  imports Pstree "HOL-Library.List_Lexorder" "HOL-Library.Char_ord"
begin

text \<open>
  Correctness of the process tree: the linked lists hold the children of every process in order, the drawing with the two
  tables of levels is the layout of the tree by recursion, and a status file is read back.
\<close>

section \<open>Lists in the heap\<close>

fun nlinked :: "list_node list \<Rightarrow> nat list \<Rightarrow> bool" where
  "nlinked ns (a # b # r) \<longleftrightarrow> node_next (ns ! a) = Some b \<and> nlinked ns (b # r)"
| "nlinked ns _ \<longleftrightarrow> True"

type_synonym nchain = "(nat \<times> nat list \<times> nat) option"

definition nchain_cells :: "nchain \<Rightarrow> nat list" where
  "nchain_cells c = (case c of None \<Rightarrow> [] | Some (h, ps, t) \<Rightarrow> h # ps @ [t])"

definition ends :: "nchain \<Rightarrow> node_list" where
  "ends c = (case c of None \<Rightarrow> \<lparr>l_head = None, l_tail = None\<rparr> | Some (h, ps, t) \<Rightarrow> \<lparr>l_head = Some h, l_tail = Some t\<rparr>)"

definition chain_ok :: "list_node list \<Rightarrow> nchain \<Rightarrow> bool" where
  "chain_ok ns c \<longleftrightarrow> nlinked ns (nchain_cells c) \<and> distinct (nchain_cells c) \<and> (\<forall>a\<in>set (nchain_cells c). a < length ns)"

definition data :: "list_node \<Rightarrow> int \<times> string" where
  "data n = (child_pid n, child_name n)"

definition kids :: "list_node list \<Rightarrow> nchain \<Rightarrow> (int \<times> string) list" where
  "kids ns c = (case c of None \<Rightarrow> [] | Some (h, ps, t) \<Rightarrow> map (\<lambda>a. data (ns ! a)) ps)"

definition forest :: "list_node list \<Rightarrow> (int \<Rightarrow> node_list) \<Rightarrow> (int \<Rightarrow> nchain) \<Rightarrow> bool" where
  "forest ns T L \<longleftrightarrow> (\<forall>i. chain_ok ns (L i) \<and> T i = ends (L i)) \<and> (\<forall>i j. i \<noteq> j \<longrightarrow> set (nchain_cells (L i)) \<inter> set (nchain_cells (L j)) = {})"

text \<open>The abstraction: the children of every process.\<close>

definition p_holds :: "pstate \<Rightarrow> (int \<Rightarrow> (int \<times> string) list) \<Rightarrow> bool" where
  "p_holds s f \<longleftrightarrow> (\<exists>L. forest (nodes s) (Tree s) L \<and> (\<forall>i. f i = kids (nodes s) (L i)))"

lemma nchain_cells_simps [simp]: "nchain_cells None = []" "nchain_cells (Some (h, ps, t)) = h # ps @ [t]"
  by (simp_all add: nchain_cells_def)

lemma ends_simps [simp]: "ends None = \<lparr>l_head = None, l_tail = None\<rparr>" "ends (Some (h, ps, t)) = \<lparr>l_head = Some h, l_tail = Some t\<rparr>"
  by (simp_all add: ends_def)

lemma kids_simps [simp]: "kids ns None = []" "kids ns (Some (h, ps, t)) = map (\<lambda>a. data (ns ! a)) ps"
  by (simp_all add: kids_def)

lemma nlinked_append:
  "nlinked ns (xs @ p # q # ys) \<longleftrightarrow> nlinked ns (xs @ [p]) \<and> node_next (ns ! p) = Some q \<and> nlinked ns (q # ys)"
proof (induction xs)
  case (Cons x xs)
  then show ?case by (cases xs) auto
qed simp

lemma nlinked_cong: "(\<And>a. a \<in> set (butlast xs) \<Longrightarrow> node_next (ns' ! a) = node_next (ns ! a)) \<Longrightarrow> nlinked ns' xs = nlinked ns xs"
  by (induction ns xs rule: nlinked.induct) auto

lemma chain_frame:
  assumes "chain_ok ns c" and "length ns \<le> length ns'" and "\<And>a. a \<in> set (nchain_cells c) \<Longrightarrow> ns' ! a = ns ! a"
  shows "chain_ok ns' c" and "kids ns' c = kids ns c"
proof -
  have "nlinked ns' (nchain_cells c) = nlinked ns (nchain_cells c)"
    by (rule nlinked_cong) (metis assms(3) in_set_butlastD)
  then show "chain_ok ns' c" using assms(1,2) by (auto simp: chain_ok_def)
  show "kids ns' c = kids ns c" using assms(3) by (auto simp: kids_def split: option.splits)
qed

lemma nchain_bound: "chain_ok ns (Some (h, ps, t)) \<Longrightarrow> length ps < length ns"
proof -
  assume "chain_ok ns (Some (h, ps, t))"
  then have "distinct (h # ps)" "set (h # ps) \<subseteq> {..<length ns}" by (auto simp: chain_ok_def)
  then show ?thesis using distinct_card [of "h # ps"] card_mono [of "{..<length ns}" "set (h # ps)"] by simp
qed

text \<open>The heap changes within one chain, which may take new nodes.\<close>

lemma forest_change:
  assumes f: "forest ns T L" and len: "length ns \<le> length ns'" and c: "chain_ok ns' c"
    and keep: "\<And>a. a < length ns \<Longrightarrow> a \<notin> set (nchain_cells (L i)) \<Longrightarrow> ns' ! a = ns ! a"
    and new: "\<And>a. a \<in> set (nchain_cells c) \<Longrightarrow> a \<in> set (nchain_cells (L i)) \<or> length ns \<le> a"
  shows "forest ns' (T(i := ends c)) (L(i := c))" and "j \<noteq> i \<Longrightarrow> kids ns' (L j) = kids ns (L j)"
proof -
  have ok: "chain_ok ns (L j)" "T j = ends (L j)" for j using f by (simp_all add: forest_def)
  have disj: "j \<noteq> k \<Longrightarrow> set (nchain_cells (L j)) \<inter> set (nchain_cells (L k)) = {}" for j k using f by (simp add: forest_def)
  have same: "ns' ! a = ns ! a" if "j \<noteq> i" "a \<in> set (nchain_cells (L j))" for a j
    using keep [of a] that disj [of j i] ok(1) [of j] by (auto simp: chain_ok_def)
  have away: "a \<notin> set (nchain_cells c)" if "j \<noteq> i" "a \<in> set (nchain_cells (L j))" for a j
  proof
    assume "a \<in> set (nchain_cells c)"
    then show False using new [of a] that disj [of j i] ok(1) [of j] by (auto simp: chain_ok_def)
  qed
  show "j \<noteq> i \<Longrightarrow> kids ns' (L j) = kids ns (L j)" by (rule chain_frame(2) [OF ok(1) len]) (rule same)
  have "chain_ok ns' (L j)" if "j \<noteq> i" for j using chain_frame(1) [OF ok(1) len] same that by blast
  moreover have "set (nchain_cells (L j)) \<inter> set (nchain_cells c) = {}" if "j \<noteq> i" for j using away that by blast
  ultimately show "forest ns' (T(i := ends c)) (L(i := c))" unfolding forest_def
    using c ok(2) disj by (auto simp: Int_commute)
qed

lemma n_deref_Some [simp]: "a < length (nodes s) \<Longrightarrow> n_deref (Some a) s = Inr (nodes s ! a)"
  by (simp add: n_deref_def)

lemma n_update_Some [simp]:
  "a < length (nodes s) \<Longrightarrow> n_update (Some a) g s = Inr (s\<lparr>nodes := (nodes s)[a := g (nodes s ! a)]\<rparr>)"
  by (simp add: n_update_def)

lemma tree_at_ok [simp]: "0 \<le> i \<Longrightarrow> i < MAX_PID \<Longrightarrow> tree_at i s = Inr (Tree s i)"
  by (simp add: tree_at_def)

section \<open>Insertion\<close>

text \<open>The first child of a process makes the two sentinels.\<close>

lemma make_list_ok:
  assumes "p_holds s g" and "Tree s i = \<lparr>l_head = None, l_tail = None\<rparr>"
  shows "\<exists>s'. make_list i s = Inr s' \<and> p_holds s' g \<and> Tree s' i \<noteq> \<lparr>l_head = None, l_tail = None\<rparr> \<and> stdout s' = stdout s"
proof -
  obtain L where fo: "forest (nodes s) (Tree s) L" and g: "\<And>j. g j = kids (nodes s) (L j)" using assms(1) by (auto simp: p_holds_def)
  have T: "Tree s i = ends (L i)" using fo by (simp add: forest_def)
  have c: "L i = None" using T assms(2) by (cases "L i") auto
  let ?n = "length (nodes s)" and ?c = "Some (length (nodes s), [], Suc (length (nodes s)))"
  define ns' where "ns' = nodes s @ [(garbage s ?n)\<lparr>node_next := Some (Suc ?n)\<rparr>, garbage s (Suc ?n)]"
  let ?s = "s\<lparr>nodes := ns', Tree := (Tree s)(i := ends ?c)\<rparr>"
  have run: "make_list i s = Inr ?s"
    using assms(2) by (simp add: make_list_def n_malloc_def Let_def ns'_def nth_append list_update_append)
  have ok: "chain_ok ns' ?c" by (simp add: chain_ok_def ns'_def nth_append)
  have len: "?n \<le> length ns'" by (simp add: ns'_def)
  have k: "ns' ! a = nodes s ! a" if "a < ?n" "a \<notin> set (nchain_cells (L i))" for a using that by (simp add: ns'_def nth_append)
  have nw: "a \<in> set (nchain_cells (L i)) \<or> ?n \<le> a" if "a \<in> set (nchain_cells ?c)" for a using that by auto
  have "forest ns' ((Tree s)(i := ends ?c)) (L(i := ?c))" by (rule forest_change(1) [OF fo len ok k nw])
  moreover have "g j = kids ns' ((L(i := ?c)) j)" for j
    using forest_change(2) [OF fo len ok k nw, of j] g [of j] c by auto
  ultimately have "p_holds ?s g" unfolding p_holds_def by (intro exI [of _ "L(i := ?c)"]) simp
  then show ?thesis using run by simp
qed

lemma insort_key_split:
  "insort_key f x xs = takeWhile (\<lambda>y. f y < f x) xs @ x # dropWhile (\<lambda>y. f y < f x) xs"
  by (induction xs) (auto simp: not_le)

text \<open>Linking a new node into a chain behind the nodes \<open>xs\<close>: what the heap looks like, and that the chain has the node.\<close>

definition link_in :: "nat \<Rightarrow> nat \<Rightarrow> list_node \<Rightarrow> list_node list \<Rightarrow> list_node list" where
  "link_in p q N ns = (ns @ [N])[p := (ns ! p)\<lparr>node_next := Some (length ns)\<rparr>, length ns := N\<lparr>node_next := Some q\<rparr>]"

lemma link_in_nth:
  assumes "p < length ns"
  shows "length (link_in p q N ns) = Suc (length ns)" and "link_in p q N ns ! p = (ns ! p)\<lparr>node_next := Some (length ns)\<rparr>"
    and "link_in p q N ns ! length ns = N\<lparr>node_next := Some q\<rparr>" and "\<And>a. a < length ns \<Longrightarrow> a \<noteq> p \<Longrightarrow> link_in p q N ns ! a = ns ! a"
    and "\<And>a. a < length ns \<Longrightarrow> data (link_in p q N ns ! a) = data (ns ! a)"
proof -
  show "length (link_in p q N ns) = Suc (length ns)" by (simp add: link_in_def)
  show p: "link_in p q N ns ! p = (ns ! p)\<lparr>node_next := Some (length ns)\<rparr>" and "link_in p q N ns ! length ns = N\<lparr>node_next := Some q\<rparr>"
    using assms by (simp_all add: link_in_def nth_append list_update_append)
  show o: "link_in p q N ns ! a = ns ! a" if "a < length ns" "a \<noteq> p" for a using that by (simp add: link_in_def nth_append)
  show "data (link_in p q N ns ! a) = data (ns ! a)" if "a < length ns" for a
    using that o [of a] p by (cases "a = p") (simp_all add: data_def)
qed

lemma link_in_chain:
  assumes ok: "chain_ok ns (Some (h, xs @ ys, t))"
  defines "p \<equiv> last (h # xs)" and "q \<equiv> hd (ys @ [t])"
  shows "p < length ns" and "chain_ok (link_in p q N ns) (Some (h, xs @ length ns # ys, t))"
    and "kids (link_in p q N ns) (Some (h, xs @ length ns # ys, t)) = map (\<lambda>a. data (ns ! a)) xs @ data N # map (\<lambda>a. data (ns ! a)) ys"
proof -
  let ?n = "length ns" and ?ns = "link_in p q N ns"
  obtain as where as: "h # xs = as @ [p]" using p_def by (metis append_butlast_last_id list.distinct(1))
  obtain bs where bs: "ys @ [t] = q # bs" using q_def by (metis list.collapse snoc_eq_iff_butlast)
  have full: "h # (xs @ ys) @ [t] = as @ p # q # bs" using as bs by simp
  have ok': "nlinked ns (as @ p # q # bs)" "distinct (as @ p # q # bs)" "\<forall>a\<in>set (as @ p # q # bs). a < ?n"
    using ok unfolding chain_ok_def nchain_cells_simps full by blast+
  show p: "p < ?n" using ok'(3) by simp
  note at = link_in_nth [OF p, where q = q and N = N]
  have kp: "?ns ! a = ns ! a" if "a \<in> set (as @ q # bs)" for a using that ok'(2,3) by (intro at(4)) auto
  have "nlinked ?ns (as @ [p]) = nlinked ns (as @ [p])" by (rule nlinked_cong) (simp add: kp)
  moreover have "nlinked ?ns (q # bs) = nlinked ns (q # bs)"
    by (rule nlinked_cong) (metis kp in_set_butlastD in_set_conv_decomp append_assoc set_append UnCI)
  moreover have "nlinked ns (as @ [p])" "nlinked ns (q # bs)" using ok'(1) by (simp_all add: nlinked_append)
  moreover have "nchain_cells (Some (h, xs @ ?n # ys, t)) = as @ p # ?n # q # bs" using as bs by simp
  ultimately show "chain_ok ?ns (Some (h, xs @ ?n # ys, t))" unfolding chain_ok_def
    using ok' at by (auto simp: nlinked_append less_SucI)
  have "\<forall>a\<in>set xs \<union> set ys. a < ?n" using ok by (simp add: chain_ok_def ball_Un)
  then show "kids ?ns (Some (h, xs @ ?n # ys, t)) = map (\<lambda>a. data (ns ! a)) xs @ data N # map (\<lambda>a. data (ns ! a)) ys"
    using at(3,5) by (simp add: data_def)
qed

text \<open>A comparison of two children by a key; the sentinels are never compared.\<close>

locale child_order =
  fixes cmp :: child_cmp and key :: "int \<times> string \<Rightarrow> 'k :: linorder"
  assumes cmp_key: "p \<noteq> h \<Longrightarrow> q \<noteq> t \<Longrightarrow> n_deref p s = Inr a \<Longrightarrow> n_deref q s = Inr b \<Longrightarrow>
    cmp p q h t s = Inr (key (data b) < key (data a))"
begin

lemma insert_walk_ok:
  assumes "nlinked (nodes s) (p # qs @ [t])" and "\<forall>a\<in>set (p # qs). a < length (nodes s)" and "t \<notin> set qs"
    and "new < length (nodes s)" and "new \<noteq> h" and "length qs < fuel"
  defines "P \<equiv> (\<lambda>a. key (data (nodes s ! a)) < key (data (nodes s ! new)))"
  shows "insert_walk fuel cmp (Some new) \<lparr>l_head = Some h, l_tail = Some t\<rparr> (Some p) (Some (hd (qs @ [t]))) s =
    Inr (Some (last (p # takeWhile P qs)), Some (hd (dropWhile P qs @ [t])))"
  using assms(1-6)
proof (induction qs arbitrary: p fuel)
  case Nil
  then show ?case by (cases fuel) simp_all
next
  case (Cons q qs)
  obtain f where f: "fuel = Suc f" using Cons.prems(6) by (cases fuel) simp_all
  have l: "nlinked (nodes s) (q # qs @ [t])" "node_next (nodes s ! p) = Some q" using Cons.prems(1) by simp_all
  have n: "node_next (nodes s ! q) = Some (hd (qs @ [t]))" using l(1) by (cases qs) simp_all
  have c: "cmp (Some new) (Some q) (Some h) (Some t) s = Inr (P q)"
    unfolding P_def by (rule cmp_key) (use Cons.prems in auto)
  show ?case using Cons.IH [OF l(1), of f] Cons.prems f l(2) n c by auto
qed

text \<open>The walk with a new node that stands at the end of the heap.\<close>

lemma walk_place:
  fixes N :: list_node
  assumes ok: "chain_ok (nodes s) (Some (h, ps, t))"
  defines "P \<equiv> (\<lambda>a. key (data (nodes s ! a)) < key (data N))"
  shows "insert_walk (Suc (length (nodes s))) cmp (Some (length (nodes s))) \<lparr>l_head = Some h, l_tail = Some t\<rparr> (Some h) (Some (hd (ps @ [t])))
    (s\<lparr>nodes := nodes s @ [N]\<rparr>) = Inr (Some (last (h # takeWhile P ps)), Some (hd (dropWhile P ps @ [t])))"
proof -
  let ?n = "length (nodes s)" and ?s = "s\<lparr>nodes := nodes s @ [N]\<rparr>"
  have pn: "h < ?n" "\<And>a. a \<in> set ps \<Longrightarrow> a < ?n" "t \<notin> set ps" using ok by (auto simp: chain_ok_def)
  have wl: "nlinked (nodes ?s) (h # ps @ [t])"
    using ok pn by (subst nlinked_cong [where ns = "nodes s"]) (auto simp: nth_append chain_ok_def)
  let ?Q = "\<lambda>a. key (data (nodes ?s ! a)) < key (data (nodes ?s ! ?n))"
  have "?Q a = P a" if "a \<in> set ps" for a using pn(2) [OF that] by (simp add: nth_append P_def)
  then have Q: "takeWhile ?Q ps = takeWhile P ps" "dropWhile ?Q ps = dropWhile P ps" by (auto intro: takeWhile_cong dropWhile_cong)
  have "length ps < Suc ?n" using nchain_bound [OF ok] by (simp add: less_SucI)
  moreover have "\<forall>a\<in>set (h # ps). a < length (nodes ?s)" "?n < length (nodes ?s)" "?n \<noteq> h" using pn by (auto simp: less_SucI)
  ultimately show ?thesis using insert_walk_ok [OF wl _ pn(3), of ?n h "Suc ?n"] unfolding Q by blast
qed

text \<open>Linking a node into a chain at its place.\<close>

lemma insert_chain:
  assumes f: "p_holds s g" and L: "Tree s i \<noteq> \<lparr>l_head = None, l_tail = None\<rparr>" and i: "0 \<le> i" "i < MAX_PID" and nm: "length name < CHILD_NAME_SIZE"
  shows "\<exists>s'. insert_node i pid name cmp s = Inr s' \<and> p_holds s' (g(i := insort_key key (pid, name) (g i))) \<and>
    stdout s' = stdout s"
proof -
  obtain L where fo: "forest (nodes s) (Tree s) L" and g: "\<And>j. g j = kids (nodes s) (L j)" using f by (auto simp: p_holds_def)
  have T: "Tree s i = ends (L i)" and ok: "chain_ok (nodes s) (L i)" using fo by (simp_all add: forest_def)
  obtain h ps t where c: "L i = Some (h, ps, t)" using T L by (cases "L i") auto
  let ?n = "length (nodes s)"
  define N where "N = (garbage s ?n)\<lparr>child_pid := pid, child_name := name\<rparr>"
  have dN: "data N = (pid, name)" by (simp add: N_def data_def)
  let ?P = "\<lambda>a. key (data (nodes s ! a)) < key (pid, name)"
  define xs ys where "xs = takeWhile ?P ps" and "ys = dropWhile ?P ps"
  define p q where "p = last (h # xs)" and "q = hd (ys @ [t])"
  have ps: "ps = xs @ ys" by (simp add: xs_def ys_def)
  note new = link_in_chain(1) [OF ok [unfolded c ps], folded p_def] link_in_chain(2,3) [OF ok [unfolded c ps], where N = N, folded p_def q_def]
  define s1 where "s1 = s\<lparr>nodes := nodes s @ [N]\<rparr>"
  have walk: "insert_walk (Suc ?n) cmp (Some ?n) \<lparr>l_head = Some h, l_tail = Some t\<rparr> (Some h) (Some (hd (ps @ [t]))) s1 = Inr (Some p, Some q)"
    using walk_place [OF ok [unfolded c], of N] unfolding dN p_def q_def xs_def ys_def s1_def by simp
  have hn: "h < ?n" "node_next (nodes s ! h) = Some (hd (ps @ [t]))" using ok by (cases ps; simp add: chain_ok_def c)+
  have "init_node (Some ?n) pid name (s\<lparr>nodes := nodes s @ [garbage s ?n]\<rparr>) = Inr s1"
    using nm by (simp add: init_node_def s1_def N_def)
  moreover have "insert_node_do (Some p) (Some ?n) (Some q) s1 = Inr (s\<lparr>nodes := link_in p q N (nodes s)\<rparr>)"
    using new(1) by (simp add: insert_node_do_def s1_def link_in_def nth_append list_update_append)
  ultimately have run: "insert_node i pid name cmp s = Inr (s\<lparr>nodes := link_in p q N (nodes s)\<rparr>)"
    using i T c walk hn by (simp add: insert_node_def n_malloc_def Let_def s1_def nth_append del: insert_walk.simps)
  let ?c = "Some (h, xs @ ?n # ys, t)" and ?ns = "link_in p q N (nodes s)"
  have "p \<in> set (nchain_cells (L i))" using last_in_set [of "h # xs"] by (auto simp: c ps p_def)
  then have k: "?ns ! a = nodes s ! a" if "a < ?n" "a \<notin> set (nchain_cells (L i))" for a
    using that link_in_nth(4) [OF new(1)] by metis
  have nw: "a \<in> set (nchain_cells (L i)) \<or> ?n \<le> a" if "a \<in> set (nchain_cells ?c)" for a using that by (auto simp: c ps)
  have len: "?n \<le> length ?ns" using link_in_nth(1) [OF new(1)] by simp
  have "forest ?ns ((Tree s)(i := ends ?c)) (L(i := ?c))" by (rule forest_change(1) [OF fo len new(2) k nw])
  moreover have "kids ?ns (L j) = kids (nodes s) (L j)" if "j \<noteq> i" for j by (rule forest_change(2) [OF fo len new(2) k nw that])
  moreover have "kids ?ns ?c = insort_key key (pid, name) (kids (nodes s) (L i))"
    unfolding new(3) by (simp add: insort_key_split c takeWhile_map dropWhile_map comp_def xs_def ys_def dN)
  moreover have "(Tree s)(i := ends ?c) = Tree s" using T c by auto
  ultimately have "p_holds (s\<lparr>nodes := ?ns\<rparr>) (g(i := insort_key key (pid, name) (g i)))"
    unfolding p_holds_def using g by (intro exI [of _ "L(i := ?c)"]) auto
  then show ?thesis using run by simp
qed

lemma insert_node_ok:
  assumes "p_holds s g" and i: "0 \<le> i" "i < MAX_PID" and nm: "length name < CHILD_NAME_SIZE"
  shows "\<exists>s'. insert_node i pid name cmp s = Inr s' \<and> p_holds s' (g(i := insort_key key (pid, name) (g i))) \<and> stdout s' = stdout s"
proof (cases "Tree s i = \<lparr>l_head = None, l_tail = None\<rparr>")
  case True
  obtain s1 where s1: "make_list i s = Inr s1" "p_holds s1 g" "Tree s1 i \<noteq> \<lparr>l_head = None, l_tail = None\<rparr>" "stdout s1 = stdout s"
    using make_list_ok [OF assms(1) True] by blast
  have "insert_node i pid name cmp s = insert_node i pid name cmp s1"
    using s1(1,3) True i by (cases "Tree s1 i") (auto simp: insert_node_def)
  then show ?thesis using insert_chain [OF s1(2,3) i nm] s1(4) by simp
next
  case False
  then show ?thesis using insert_chain assms by blast
qed

end

text \<open>The two comparisons of the program.\<close>

lemma host_strcmp_less: "0 < host_strcmp a b \<longleftrightarrow> b < a"
  by (induction a b rule: host_strcmp.induct) (auto simp: less_char_def not_less less_le)

interpretation by_pid: child_order guard_cmp1 fst
  by unfold_locales (simp add: guard_cmp1_def data_def)

interpretation by_name: child_order guard_cmp2 snd
  by unfold_locales (simp add: guard_cmp2_def data_def host_strcmp_less)

section \<open>Records in sequence\<close>

type_synonym proc_rec = "int \<times> int \<times> string"

definition rec_ok :: "proc_rec \<Rightarrow> bool" where
  "rec_ok r \<longleftrightarrow> 0 \<le> fst r \<and> fst r < MAX_PID \<and> length (snd (snd r)) < CHILD_NAME_SIZE"

primrec insert_all :: "child_cmp \<Rightarrow> proc_rec list \<Rightarrow> pstate \<Rightarrow> pstate res" where
  "insert_all cmp [] s = Inr s"
| "insert_all cmp (r # rs) s = bindE (insert_node (fst r) (fst (snd r)) (snd (snd r)) cmp s) (insert_all cmp rs)"

text \<open>The children of a process: its records in order of the key, the later one first among equals.\<close>

definition children_by :: "(int \<times> string \<Rightarrow> 'k :: linorder) \<Rightarrow> proc_rec list \<Rightarrow> int \<Rightarrow> (int \<times> string) list" where
  "children_by key rs i = sort_key key (rev (map snd (filter (\<lambda>r. fst r = i) rs)))"

lemma children_by_snoc:
  "children_by key (rs @ [r]) i = (if fst r = i then insort_key key (snd r) (children_by key rs i) else children_by key rs i)"
  by (simp add: children_by_def)

lemma children_by_Nil [simp]: "children_by key [] = (\<lambda>i. [])"
  by (simp add: children_by_def fun_eq_iff)

context child_order
begin

lemma insert_step:
  assumes "p_holds s (children_by key rs)" and "rec_ok r"
  shows "\<exists>s'. insert_node (fst r) (fst (snd r)) (snd (snd r)) cmp s = Inr s' \<and> p_holds s' (children_by key (rs @ [r])) \<and> stdout s' = stdout s"
proof -
  have "(children_by key rs)(fst r := insort_key key (fst (snd r), snd (snd r)) (children_by key rs (fst r))) = children_by key (rs @ [r])"
    by (auto simp: children_by_snoc)
  then show ?thesis using insert_node_ok [OF assms(1), of "fst r" "snd (snd r)" "fst (snd r)"] assms(2) by (simp add: rec_ok_def)
qed

lemma insert_all_ok:
  assumes "p_holds s (children_by key rs)" and "\<forall>r\<in>set rs'. rec_ok r"
  shows "\<exists>s'. insert_all cmp rs' s = Inr s' \<and> p_holds s' (children_by key (rs @ rs')) \<and> stdout s' = stdout s"
  using assms
proof (induction rs' arbitrary: rs s)
  case (Cons r rs')
  obtain s1 where s1: "insert_node (fst r) (fst (snd r)) (snd (snd r)) cmp s = Inr s1" "p_holds s1 (children_by key (rs @ [r]))" "stdout s1 = stdout s"
    using insert_step [OF Cons.prems(1), of r] Cons.prems(2) by (metis list.set_intros(1))
  then show ?case using Cons.IH [OF s1(2)] Cons.prems(2) by simp
qed simp

end

lemma holds_empty: "p_holds (pstate0 g) (\<lambda>i. [])"
  unfolding p_holds_def by (intro exI [of _ "\<lambda>i. None"]) (simp add: forest_def chain_ok_def pstate0_def)

text \<open>Reading a list back by following its links.\<close>

fun list_from :: "nat \<Rightarrow> nat option \<Rightarrow> nat option \<Rightarrow> list_node list \<Rightarrow> (int \<times> string) list" where
  "list_from 0 x t ns = []"
| "list_from (Suc fuel) x t ns = (if x = t then [] else data (ns ! the x) # list_from fuel (node_next (ns ! the x)) t ns)"

definition kid_list :: "pstate \<Rightarrow> int \<Rightarrow> (int \<times> string) list" where
  "kid_list s i = (case l_head (Tree s i) of None \<Rightarrow> []
     | Some h \<Rightarrow> list_from (length (nodes s)) (node_next (nodes s ! h)) (l_tail (Tree s i)) (nodes s))"

lemma list_from_linked:
  "nlinked ns (p # qs @ [t]) \<Longrightarrow> t \<notin> set qs \<Longrightarrow> length qs \<le> fuel \<Longrightarrow>
   list_from fuel (Some (hd (qs @ [t]))) (Some t) ns = map (\<lambda>a. data (ns ! a)) qs"
proof (induction qs arbitrary: p fuel)
  case Nil
  then show ?case by (cases fuel) simp_all
next
  case (Cons q qs)
  obtain f where f: "fuel = Suc f" using Cons.prems(3) by (cases fuel) simp_all
  have l: "nlinked ns (q # qs @ [t])" using Cons.prems(1) by simp
  have "node_next (ns ! q) = Some (hd (qs @ [t]))" using l by (cases qs) simp_all
  then show ?case using Cons.IH [OF l, of f] Cons.prems f by auto
qed

lemma p_holds_kid_list: "p_holds s f \<Longrightarrow> kid_list s i = f i"
proof -
  assume "p_holds s f"
  then obtain L where fo: "forest (nodes s) (Tree s) L" and g: "f i = kids (nodes s) (L i)" by (auto simp: p_holds_def)
  have T: "Tree s i = ends (L i)" and ok: "chain_ok (nodes s) (L i)" using fo by (simp_all add: forest_def)
  show ?thesis
  proof (cases "L i")
    case None
    then show ?thesis using T g by (simp add: kid_list_def)
  next
    case (Some c)
    obtain h ps t where c: "L i = Some (h, ps, t)" using Some by (cases c) auto
    have n: "nlinked (nodes s) (h # ps @ [t])" "t \<notin> set ps" using ok by (auto simp: chain_ok_def c)
    have "node_next (nodes s ! h) = Some (hd (ps @ [t]))" using n(1) by (cases ps) simp_all
    then show ?thesis using list_from_linked [OF n, of "length (nodes s)"] nchain_bound [of "nodes s" h ps t] ok T g
      by (simp add: c kid_list_def)
  qed
qed

text \<open>
  C30: Whatever the records that are inserted, as long as the parents are process numbers below the size of the table and
  the names fit, every insertion ends, and the list of every process then holds its records in order: by process number with the first
  comparison, by name with the second, the later record first among equal names.
\<close>

theorem pstree_children_sorted:
  assumes "\<forall>r\<in>set rs. rec_ok r"
  shows "\<exists>s s'. insert_all guard_cmp1 rs (pstate0 g) = Inr s \<and> (\<forall>i. kid_list s i = children_by fst rs i) \<and>
    insert_all guard_cmp2 rs (pstate0 g) = Inr s' \<and> (\<forall>i. kid_list s' i = children_by snd rs i)"
proof -
  have h: "p_holds (pstate0 g) (children_by fst [])" "p_holds (pstate0 g) (children_by snd [])" using holds_empty by simp_all
  obtain s where "insert_all guard_cmp1 rs (pstate0 g) = Inr s" "p_holds s (children_by fst rs)"
    using by_pid.insert_all_ok [OF h(1) assms] by auto
  moreover obtain s' where "insert_all guard_cmp2 rs (pstate0 g) = Inr s'" "p_holds s' (children_by snd rs)"
    using by_name.insert_all_ok [OF h(2) assms] by auto
  ultimately show ?thesis using p_holds_kid_list by blast
qed

theorem pstree_children_sorted_witness:
  "\<exists>s s'. insert_all guard_cmp1 [(0, 1, ''init''), (1, 7, ''b''), (1, 3, ''c''), (1, 5, ''a'')] (pstate0 (\<lambda>a. \<lparr>child_pid = 9, child_name = [], node_next = None\<rparr>)) = Inr s \<and>
     kid_list s 1 = [(3, ''c''), (5, ''a''), (7, ''b'')] \<and>
     insert_all guard_cmp2 [(0, 1, ''init''), (1, 7, ''b''), (1, 3, ''c''), (1, 5, ''a'')] (pstate0 (\<lambda>a. \<lparr>child_pid = 9, child_name = [], node_next = None\<rparr>)) = Inr s' \<and>
     kid_list s' 1 = [(5, ''a''), (7, ''b''), (3, ''c'')]"
proof -
  let ?rs = "[(0, 1, ''init''), (1, 7, ''b''), (1, 3, ''c''), (1, 5, ''a'')] :: proc_rec list"
  have "children_by fst ?rs 1 = [(3, ''c''), (5, ''a''), (7, ''b'')]" "children_by snd ?rs 1 = [(5, ''a''), (7, ''b''), (3, ''c'')]"
    by code_simp+
  moreover have "\<forall>r\<in>set ?rs. rec_ok r" by (simp add: rec_ok_def MAX_PID_def CHILD_NAME_SIZE_def)
  ultimately show ?thesis
    using pstree_children_sorted [of ?rs "\<lambda>a. \<lparr>child_pid = 9, child_name = [], node_next = None\<rparr>"] by auto
qed

end
