(* ===== verification/Pstree_Layout.thy ===== *)
theory Pstree_Layout
  imports Pstree_Correct
begin

text \<open>
  The drawing of the process tree.  The code keeps for every level whether a bar runs down and how wide its label was; the
  specification draws a tree by recursion with the margin as an argument.
\<close>

section \<open>The layout by recursion\<close>

datatype ptree = PNode (t_pid: int) (t_name: string) (t_sub: "ptree list")

fun p_layout :: "bool \<Rightarrow> string \<Rightarrow> ptree \<Rightarrow> string"
  and p_layouts :: "bool \<Rightarrow> string \<Rightarrow> nat \<Rightarrow> ptree list \<Rightarrow> string" where
  "p_layout sp margin (PNode pid name ts) = p_label sp pid name @ p_layouts sp margin (length (p_label sp pid name)) ts"
| "p_layouts sp margin w [] = []"
| "p_layouts sp margin w [t] = p_layout sp (margin @ replicate (w - 1) CHR '' '' @ '' '') t"
| "p_layouts sp margin w (t # u # ts) =
     p_layout sp (margin @ replicate (w - 1) CHR '' '' @ ''|'') t @
     [CHR 0x0A] @ margin @ replicate (w - 1) CHR '' '' @ [if ts = [] then CHR 0x60 else CHR ''|''] @
     p_layouts sp margin w (u # ts)"

fun height :: "ptree \<Rightarrow> nat" where
  "height (PNode pid name ts) = Suc (Max (insert 0 (set (map height ts))))"

text \<open>The tree has the children that the lists hold.\<close>

fun of_procs :: "(int \<Rightarrow> (int \<times> string) list) \<Rightarrow> ptree \<Rightarrow> bool" where
  "of_procs f (PNode pid name ts) \<longleftrightarrow>
     0 \<le> pid \<and> pid < MAX_PID \<and> f pid = map (\<lambda>t. (t_pid t, t_name t)) ts \<and> (\<forall>t\<in>set ts. of_procs f t)"

section \<open>The margin\<close>

definition bar :: "pstate \<Rightarrow> nat \<Rightarrow> string" where
  "bar s i = replicate (len_mem s i - 1) CHR '' '' @ [if dfs_mem s i \<noteq> 0 then CHR ''|'' else CHR '' '']"

definition bars :: "pstate \<Rightarrow> nat \<Rightarrow> string" where
  "bars s depth = concat (map (bar s) [0..<depth])"

definition wide :: "pstate \<Rightarrow> nat \<Rightarrow> bool" where
  "wide s depth \<longleftrightarrow> (\<forall>i<depth. 0 < len_mem s i)"

lemma bars_Suc: "bars s (Suc depth) = bars s depth @ bar s depth"
  by (simp add: bars_def)

lemma bars_cong: "(\<And>i. i < depth \<Longrightarrow> dfs_mem s' i = dfs_mem s i \<and> len_mem s' i = len_mem s i) \<Longrightarrow> bars s' depth = bars s depth"
  unfolding bars_def bar_def by (rule arg_cong [where f = concat]) auto

lemma p_column_eq:
  assumes "0 < len_mem s i"
  shows "p_column b mv s i = replicate (len_mem s i - 1) CHR '' '' @
    [if dfs_mem s i \<noteq> 0 then (if b \<and> i = mv then CHR 0x60 else CHR ''|'') else CHR '' '']"
proof -
  obtain w where w: "len_mem s i = Suc w" using assms by (cases "len_mem s i") auto
  have "map (\<lambda>j. if dfs_mem s i \<noteq> 0 \<and> int j = int (Suc w) - 1 then c else CHR '' '') [0..<w] = replicate w CHR '' ''" for c
    by (rule nth_equalityI) auto
  then show ?thesis by (simp add: p_column_def w)
qed

lemma p_margin_eq:
  assumes "wide s (Suc depth)" and "dfs_mem s depth \<noteq> 0"
  shows "p_margin b depth s = bars s depth @ replicate (len_mem s depth - 1) CHR '' '' @ [if b then CHR 0x60 else CHR ''|'']"
proof -
  have "concat (map (p_column b depth s) [0..<depth]) = bars s depth"
    unfolding bars_def using assms(1) by (intro arg_cong [where f = concat] map_cong) (auto simp: wide_def p_column_eq bar_def)
  then show ?thesis using assms by (simp add: p_margin_def p_column_eq wide_def)
qed

section \<open>The recursion of the code\<close>

text \<open>What a drawing leaves as it was, at the levels above \<open>depth\<close>.\<close>

definition p_drawn :: "nat \<Rightarrow> pstate \<Rightarrow> string \<Rightarrow> pstate \<Rightarrow> bool" where
  "p_drawn depth s t s' \<longleftrightarrow> stdout s' = stdout s @ t \<and> nodes s' = nodes s \<and> Tree s' = Tree s \<and>
     (\<forall>i<depth. dfs_mem s' i = dfs_mem s i \<and> len_mem s' i = len_mem s i)"

lemma drawn_refl [simp]: "p_drawn depth s [] s"
  by (simp add: p_drawn_def)

lemma drawn_trans: "p_drawn depth s t s1 \<Longrightarrow> p_drawn depth s1 t' s2 \<Longrightarrow> p_drawn depth s (t @ t') s2"
  by (simp add: p_drawn_def)

lemma drawn_less: "p_drawn depth s t s' \<Longrightarrow> d \<le> depth \<Longrightarrow> p_drawn d s t s'"
  by (auto simp: p_drawn_def)

lemma height_sub: "t \<in> set ts \<Longrightarrow> height t < height (PNode pid name ts)"
  by (auto simp: less_Suc_eq_le intro: Max_ge)

lemma p_label_ne [simp]: "p_label sp pid name \<noteq> []"
  by (simp add: p_label_def)

text \<open>Marking a level, as the loop over the children does before each of them.\<close>

lemma mark_level:
  fixes v :: nat
  assumes "p_holds s f" and "wide s (Suc depth)"
  defines "s1 \<equiv> s\<lparr>dfs_mem := (dfs_mem s)(depth := v)\<rparr>"
  shows "p_holds s1 f" and "wide s1 (Suc depth)" and "p_drawn depth s [] s1"
    and "bars s depth @ replicate (len_mem s depth - 1) CHR '' '' @ [if v \<noteq> 0 then CHR ''|'' else CHR '' ''] = bars s1 (Suc depth)"
proof -
  have "bars s1 depth = bars s depth" by (rule bars_cong) (simp add: s1_def)
  then show "bars s depth @ replicate (len_mem s depth - 1) CHR '' '' @ [if v \<noteq> 0 then CHR ''|'' else CHR '' ''] = bars s1 (Suc depth)"
    by (simp add: bars_Suc bar_def s1_def)
qed (use assms in \<open>simp_all add: s1_def p_holds_def wide_def p_drawn_def\<close>)

text \<open>The rest \<open>qs\<close> of a list of children, up to its tail \<open>e\<close>, and the trees that belong to it.\<close>

definition walk_ok :: "pstate \<Rightarrow> int \<Rightarrow> nat \<Rightarrow> nat list \<Rightarrow> nat \<Rightarrow> ptree list \<Rightarrow> nat \<Rightarrow> bool" where
  "walk_ok s root p qs e ts fuel \<longleftrightarrow> nlinked (nodes s) (p # qs @ [e]) \<and> e \<notin> set qs \<and> (\<forall>a\<in>set qs. a < length (nodes s)) \<and> length qs < fuel \<and>
     l_tail (Tree s root) = Some e \<and> map (\<lambda>a. data (nodes s ! a)) qs = map (\<lambda>t. (t_pid t, t_name t)) ts"

text \<open>The label of a process, and the list of its children.\<close>

lemma label_drawn:
  fixes sp :: bool and pid :: int and name :: string
  assumes "p_holds s f" and "wide s depth"
  defines "s1 \<equiv> (p_print (p_label sp pid name) s)\<lparr>len_mem := (len_mem s)(depth := length (p_label sp pid name))\<rparr>"
  shows "nodes s1 = nodes s" "Tree s1 = Tree s" "p_holds s1 f" "wide s1 (Suc depth)" "bars s1 depth = bars s depth"
    "p_drawn depth s (p_label sp pid name) s1" "len_mem s1 depth = length (p_label sp pid name)"
  using assms(1,2) by (auto simp: s1_def p_holds_def p_print_def wide_def p_drawn_def less_Suc_eq intro!: bars_cong)

lemma children_walk:
  assumes "p_holds s f" and "f pid = map (\<lambda>t. (t_pid t, t_name t)) ts"
  shows "ts = [] \<and> l_head (Tree s pid) = None \<or>
    (\<exists>h ps e. l_head (Tree s pid) = Some h \<and> h < length (nodes s) \<and> node_next (nodes s ! h) = Some (hd (ps @ [e])) \<and>
      walk_ok s pid h ps e ts (length (nodes s)))"
proof -
  obtain L where fo: "forest (nodes s) (Tree s) L" and g: "f pid = kids (nodes s) (L pid)" using assms(1) by (auto simp: p_holds_def)
  have T: "Tree s pid = ends (L pid)" and ok: "chain_ok (nodes s) (L pid)" using fo by (simp_all add: forest_def)
  show ?thesis
  proof (cases "L pid")
    case None
    then show ?thesis using T g assms(2) by simp
  next
    case (Some c)
    obtain h ps e where c: "L pid = Some (h, ps, e)" using Some by (cases c) auto
    have "nlinked (nodes s) (h # ps @ [e])" "e \<notin> set ps" "\<forall>a\<in>set ps. a < length (nodes s)" "h < length (nodes s)" "length ps < length (nodes s)"
      using ok nchain_bound by (auto simp: chain_ok_def c)
    moreover from this have "node_next (nodes s ! h) = Some (hd (ps @ [e]))" by (cases ps) simp_all
    ultimately show ?thesis using T g assms(2) c by (auto simp: walk_ok_def)
  qed
qed

text \<open>One round of the loop over the children: at the last child, and at another one.\<close>

lemma last_child_step:
  assumes w: "walk_ok s root p qs e [t] fuel" and d: "depth < MAX_DEPTH"
  defines "s1 \<equiv> s\<lparr>dfs_mem := (dfs_mem s)(depth := 0)\<rparr>"
  assumes run: "dfs_print_tree (t_pid t) (t_name t) (Suc depth) (p_undo depth s1) sp s1 = Inr s'" and "Tree s' = Tree s"
  shows "dfs_children fuel (Some (hd (qs @ [e]))) root depth mv sp s = Inr s'"
proof -
  obtain q where q: "qs = [q]" "data (nodes s ! q) = (t_pid t, t_name t)" using w by (auto simp: walk_ok_def)
  obtain fl where fl: "fuel = Suc (Suc fl)" using w q by (cases fuel; cases "fuel - 1") (auto simp: walk_ok_def)
  have "node_next (nodes s ! q) = Some e" "q < length (nodes s)" "q \<noteq> e" "l_tail (Tree s root) = Some e" using w q by (auto simp: walk_ok_def)
  then show ?thesis using run assms(5) q fl d by (simp add: dfs_children.simps data_def Let_def s1_def)
qed

lemma next_child_step:
  assumes w: "walk_ok s root p qs e (t # u # ts) fuel" and d: "depth < MAX_DEPTH" and wd: "wide s (Suc depth)" and h: "p_holds s f"
  defines "s1 \<equiv> s\<lparr>dfs_mem := (dfs_mem s)(depth := 1)\<rparr>"
  assumes run: "dfs_print_tree (t_pid t) (t_name t) (Suc depth) depth sp s1 = Inr s2" and dr: "p_drawn (Suc depth) s1 txt1 s2"
  shows "\<exists>q qs' fl s3. dfs_children fuel (Some (hd (qs @ [e]))) root depth mv sp s = dfs_children fl (Some (hd (qs' @ [e]))) root depth depth sp s3 \<and>
    walk_ok s3 root q qs' e (u # ts) fl \<and> p_holds s3 f \<and> wide s3 (Suc depth) \<and> bars s3 depth = bars s depth \<and> len_mem s3 depth = len_mem s depth \<and>
    p_drawn depth s2 ([CHR 0x0A] @ bars s depth @ replicate (len_mem s depth - 1) CHR '' '' @ [if ts = [] then CHR 0x60 else CHR ''|'']) s3"
proof -
  let ?m = "bars s depth @ replicate (len_mem s depth - 1) CHR '' '' @ [if ts = [] then CHR 0x60 else CHR ''|'']"
  obtain q r rs where q: "qs = q # r # rs" "data (nodes s ! q) = (t_pid t, t_name t)" and rs: "map (\<lambda>a. data (nodes s ! a)) (r # rs) = map (\<lambda>t. (t_pid t, t_name t)) (u # ts)"
    using w by (cases qs; cases "tl qs") (auto simp: walk_ok_def)
  obtain fl where fl: "fuel = Suc fl" using w by (cases fuel) (auto simp: walk_ok_def)
  have nx: "node_next (nodes s ! q) = Some r" "node_next (nodes s ! r) = Some (hd (rs @ [e]))" "q < length (nodes s)" "r < length (nodes s)" "q \<noteq> e" "r \<noteq> e"
    "l_tail (Tree s root) = Some e"
    using w q by (cases rs; auto simp: walk_ok_def)+
  have lst: "Some (hd (rs @ [e])) = Some e \<longleftrightarrow> ts = []" using w q rs by (cases rs) (auto simp: walk_ok_def)
  have keep: "nodes s2 = nodes s" "Tree s2 = Tree s" "\<And>i. i < Suc depth \<Longrightarrow> dfs_mem s2 i = dfs_mem s1 i \<and> len_mem s2 i = len_mem s i"
    "bars s2 depth = bars s depth" "wide s2 (Suc depth)"
    using dr wd by (auto simp: p_drawn_def s1_def wide_def intro!: bars_cong)
  have mar: "p_margin (Some (hd (rs @ [e])) = Some e) depth (p_print [CHR 0x0A] s2) = ?m"
    using p_margin_eq [of "p_print [CHR 0x0A] s2" depth "ts = []"] keep(3) [of depth] keep(4,5) lst
    by (simp add: p_print_def wide_def bars_def bar_def s1_def cong: map_cong)
  define s3 where "s3 = p_print ?m (p_print [CHR 0x0A] s2)"
  have s3: "nodes s3 = nodes s" "Tree s3 = Tree s" "p_holds s3 f" "wide s3 (Suc depth)" "bars s3 depth = bars s depth" "len_mem s3 depth = len_mem s depth"
    using keep h by (auto simp: s3_def p_print_def p_holds_def wide_def bars_def bar_def cong: map_cong)
  have "walk_ok s3 root q (r # rs) e (u # ts) fl" using w q rs fl s3(1,2) by (simp add: walk_ok_def)
  moreover have "dfs_children fuel (Some (hd (qs @ [e]))) root depth mv sp s = dfs_children fl (Some (hd ((r # rs) @ [e]))) root depth depth sp s3"
    using run keep(1,2) nx q fl d mar by (simp add: dfs_children.simps(2) data_def Let_def s1_def s3_def)
  moreover have "p_drawn depth s2 ([CHR 0x0A] @ ?m) s3" by (simp add: s3_def p_print_def p_drawn_def)
  ultimately show ?thesis using s3(3-6) by blast
qed

lemma layout_drawn:
  "of_procs f t \<Longrightarrow> depth + height t \<le> MAX_DEPTH \<Longrightarrow> p_holds s f \<Longrightarrow> wide s depth \<Longrightarrow> margin = bars s depth \<Longrightarrow>
     \<exists>s'. dfs_print_tree (t_pid t) (t_name t) depth mv sp s = Inr s' \<and> p_drawn depth s (p_layout sp margin t) s'"
  "walk_ok s root p qs e ts fuel \<Longrightarrow> (\<forall>t\<in>set ts. of_procs f t \<and> Suc depth + height t \<le> MAX_DEPTH) \<Longrightarrow> p_holds s f \<Longrightarrow> wide s (Suc depth) \<Longrightarrow>
   margin = bars s depth \<Longrightarrow> w = len_mem s depth \<Longrightarrow> depth < MAX_DEPTH \<Longrightarrow>
     \<exists>s'. dfs_children fuel (Some (hd (qs @ [e]))) root depth mv sp s = Inr s' \<and> p_drawn depth s (p_layouts sp margin w ts) s'"
proof (induction sp margin t and sp margin w ts arbitrary: s depth mv and s depth mv p qs fuel e root rule: p_layout_p_layouts.induct)
  case (1 sp margin pid name ts)
  let ?t = "p_label sp pid name"
  let ?s = "(p_print ?t s)\<lparr>len_mem := (len_mem s)(depth := length ?t)\<rparr>"
  have d: "depth < MAX_DEPTH" using "1.prems"(2) by simp
  note s1 = label_drawn [OF "1.prems"(3,4), of sp pid name]
  have pid: "0 \<le> pid" "pid < MAX_PID" and f: "f pid = map (\<lambda>t. (t_pid t, t_name t)) ts" using "1.prems"(1) by simp_all
  have sub: "\<forall>t\<in>set ts. of_procs f t \<and> Suc depth + height t \<le> MAX_DEPTH" using height_sub [of _ ts pid name] "1.prems"(1,2) by fastforce
  have run: "dfs_print_tree pid name depth mv sp s = (if l_head (Tree s pid) \<noteq> None then
      bindE (n_deref (l_head (Tree s pid)) ?s) (\<lambda>h. dfs_children (length (nodes s)) (node_next h) pid depth mv sp ?s) else Inr ?s)"
    using d pid by (simp add: dfs_print_tree.simps [of pid] Let_def p_print_def)
  from children_walk [OF s1(3) f] show ?case unfolding s1(1,2)
  proof (elim disjE exE conjE)
    fix h ps e assume w: "walk_ok ?s pid h ps e ts (length (nodes s))" and h: "l_head (Tree s pid) = Some h" "h < length (nodes s)"
      "node_next (nodes s ! h) = Some (hd (ps @ [e]))"
    obtain s' where s': "dfs_children (length (nodes s)) (Some (hd (ps @ [e]))) pid depth mv sp ?s = Inr s'" "p_drawn depth ?s (p_layouts sp margin (length ?t) ts) s'"
      using "1.IH" [OF w sub s1(3,4) _ _ d] s1(5,7) "1.prems"(5) by metis
    then show ?thesis using run h drawn_trans [OF s1(6) s'(2)] by (simp add: s1(1))
  qed (use run s1(6) in auto)
next
  case (2 sp margin w)
  then show ?case by (cases fuel) (auto simp: dfs_children.simps walk_ok_def)
next
  case (3 sp margin w t)
  let ?s = "s\<lparr>dfs_mem := (dfs_mem s)(depth := 0)\<rparr>"
  note s1 = mark_level [OF "3.prems"(3,4), where v = 0]
  obtain s' where s': "dfs_print_tree (t_pid t) (t_name t) (Suc depth) (p_undo depth ?s) sp ?s = Inr s'"
    "p_drawn (Suc depth) ?s (p_layout sp (margin @ replicate (w - 1) CHR '' '' @ '' '') t) s'"
    using "3.IH" [OF _ _ s1(1,2)] s1(4) "3.prems"(2,5,6) by fastforce
  then have "Tree s' = Tree s" by (simp add: p_drawn_def)
  then show ?case using last_child_step [OF "3.prems"(1,7) s'(1)] drawn_trans [OF s1(3) drawn_less [OF s'(2)]] by auto
next
  case (4 sp margin w t u ts)
  let ?s = "s\<lparr>dfs_mem := (dfs_mem s)(depth := 1)\<rparr>" and ?gap = "replicate (w - 1) CHR '' ''"
  note s1 = mark_level [OF "4.prems"(3,4), where v = 1]
  obtain s2 where s2: "dfs_print_tree (t_pid t) (t_name t) (Suc depth) depth sp ?s = Inr s2" "p_drawn (Suc depth) ?s (p_layout sp (margin @ ?gap @ ''|'') t) s2"
    using "4.IH"(1) [OF _ _ s1(1,2)] s1(4) "4.prems"(2,5,6) by fastforce
  obtain q qs' fl s3 where r: "dfs_children fuel (Some (hd (qs @ [e]))) root depth mv sp s = dfs_children fl (Some (hd (qs' @ [e]))) root depth depth sp s3"
    and s3: "walk_ok s3 root q qs' e (u # ts) fl" "p_holds s3 f" "wide s3 (Suc depth)" "margin = bars s3 depth" "w = len_mem s3 depth"
    and m: "p_drawn depth s2 ([CHR 0x0A] @ margin @ ?gap @ [if ts = [] then CHR 0x60 else CHR ''|'']) s3"
    using next_child_step [OF "4.prems"(1,7,4,3) s2] "4.prems"(5,6) by metis
  obtain s' where s': "dfs_children fl (Some (hd (qs' @ [e]))) root depth depth sp s3 = Inr s'" "p_drawn depth s3 (p_layouts sp margin w (u # ts)) s'"
    using "4.IH"(2) [OF s3(1) _ s3(2-5) "4.prems"(7)] "4.prems"(2) by auto
  have "p_drawn depth s ([] @ p_layout sp (margin @ ?gap @ ''|'') t @ ([CHR 0x0A] @ margin @ ?gap @ [if ts = [] then CHR 0x60 else CHR ''|'']) @ p_layouts sp margin w (u # ts)) s'"
    by (intro drawn_trans [OF s1(3)] drawn_trans [OF drawn_less [OF s2(2)]] drawn_trans [OF m s'(2)]) simp
  then have "p_drawn depth s (p_layouts sp margin w (t # u # ts)) s'" by (simp only: p_layouts.simps append.simps append_assoc)
  then show ?case using r s'(1) by auto
qed

end
