(* ===== verification/Pstree_Main.thy ===== *)
theory Pstree_Main
  imports Pstree_Layout
begin

text \<open>
  The whole program: status files as the kernel writes them are read back, and what is printed is the layout of the tree of
  the processes that \<^verbatim>\<open>/proc\<close> lists.
\<close>

section \<open>Status files\<close>

text \<open>The first lines of a status file; the lines that the program skips and what follows the parent are arbitrary.\<close>

record status =
  st_name :: string
  st_umask :: string
  st_state :: string
  st_tgid :: nat
  st_ngid :: string
  st_pid :: nat
  st_ppid :: nat
  st_rest :: string

abbreviation NL :: string where "NL \<equiv> [CHR 0x0A]"
abbreviation TAB :: string where "TAB \<equiv> [CHR 0x09]"

definition status_text :: "status \<Rightarrow> string" where
  "status_text st = (''Name:'' @ TAB @ st_name st) @ NL @ st_umask st @ NL @ st_state st @ NL @
     ''Tgid:'' @ TAB @ dec_nat (st_tgid st) @ NL @ st_ngid st @ NL @ ''Pid:'' @ TAB @ dec_nat (st_pid st) @ NL @
     ''PPid:'' @ TAB @ dec_nat (st_ppid st) @ NL @ st_rest st"

definition plain_line :: "string \<Rightarrow> bool" where
  "plain_line l \<longleftrightarrow> CHR 0x0A \<notin> set l \<and> Suc (length l) < LINE_SIZE"

definition rec_of :: "status \<Rightarrow> proc_rec" where
  "rec_of st = (if st_tgid st = st_pid st then int (st_ppid st) else int (st_tgid st), int (st_pid st), st_name st)"

definition status_ok :: "status \<Rightarrow> bool" where
  "status_ok st \<longleftrightarrow> CHR 0x00 \<notin> set (st_name st) \<and> CHR 0x0A \<notin> set (st_name st) \<and>
     plain_line (st_umask st) \<and> plain_line (st_state st) \<and> plain_line (st_ngid st) \<and>
     st_ngid st \<noteq> [] \<and> \<not> p_isspace (hd (st_ngid st)) \<and> rec_ok (rec_of st)"

lemma p_fgets_line: "plain_line l \<Longrightarrow> p_fgets LINE_SIZE buf (l @ NL @ r) = (l @ NL, r)"
  by (rule p_fgets_newline) (simp_all add: plain_line_def)

lemma digit_chars: "k < 10 \<Longrightarrow> is_dec (''0123456789'' ! k) \<and> (of_char (''0123456789'' ! k) :: int) = 48 + int k"
proof -
  have "list_all (\<lambda>k. is_dec (''0123456789'' ! k) \<and> (of_char (''0123456789'' ! k) :: int) = 48 + int k) [0..<10]"
    by code_simp
  then show "k < 10 \<Longrightarrow> ?thesis" by (simp add: list_all_iff)
qed

lemma dec_nat_chars: "dec_nat n \<noteq> [] \<and> (\<forall>c\<in>set (dec_nat n). is_dec c)"
proof (induction n rule: dec_nat.induct)
  case (1 n)
  then show ?case by (cases "n < 10") (auto simp: dec_nat.simps [of n] digit_chars)
qed

lemma dec_nat_value: "dec_value (dec_nat n) = int n"
proof (induction n rule: dec_nat.induct)
  case (1 n)
  show ?case
  proof (cases "n < 10")
    case True
    then show ?thesis by (simp add: dec_nat.simps [of n] dec_value_def digit_chars)
  next
    case False
    have "dec_value (dec_nat n) = 10 * dec_value (dec_nat (n div 10)) + int (n mod 10)"
      using False by (simp add: dec_nat.simps [of n] dec_value_def digit_chars)
    then show ?thesis using "1.IH" False by (simp add: zdiv_int zmod_int)
  qed
qed

lemma is_dec_not: "is_dec c \<Longrightarrow> \<not> p_isspace c \<and> c \<noteq> CHR ''-'' \<and> c \<noteq> CHR ''+''"
  by (auto simp: is_dec_def p_isspace_def)

lemma scan_dec_nat: "scan_dec (TAB @ dec_nat n @ NL @ r) = (Some (int n), NL @ r)"
proof -
  obtain c cs where c: "dec_nat n = c # cs" "is_dec c" using dec_nat_chars [of n] by (cases "dec_nat n") auto
  have "takeWhile is_dec (dec_nat n @ NL @ r) = dec_nat n" using dec_nat_chars [of n] by (simp add: takeWhile_append2 is_dec_def)
  then show ?thesis using c is_dec_not [of c] dec_nat_value [of n] by (simp add: scan_dec_def p_isspace_def Let_def)
qed

lemma scan_text_app:
  "\<forall>c\<in>set lit. \<not> p_isspace c \<Longrightarrow> scan_text (lit @ '' '') (lit @ TAB @ dec_nat n @ r) = (True, dec_nat n @ r)"
proof (induction lit)
  case Nil
  obtain c cs where "dec_nat n = c # cs" "is_dec c" using dec_nat_chars [of n] by (cases "dec_nat n") auto
  then show ?case using is_dec_not [of c] by (simp add: p_isspace_def)
qed (simp add: p_isspace_def)

lemma scan_dec_no_tab: "scan_dec (dec_nat n @ r) = scan_dec (TAB @ dec_nat n @ r)"
  by (simp add: scan_dec_def p_isspace_def)

lemma p_fscanf_field:
  "\<forall>c\<in>set lit. \<not> p_isspace c \<Longrightarrow> p_fscanf (lit @ '' '') v (lit @ TAB @ dec_nat n @ NL @ r) = (int n, dropWhile p_isspace r)"
  using scan_text_app [of lit n "NL @ r"] scan_dec_nat [of n r] scan_dec_no_tab [of n "NL @ r"]
  by (simp add: p_fscanf_def p_isspace_def)

lemma read_status_text:
  assumes "status_ok st"
  shows "read_status u (status_text st) =
    \<lparr>v_temp = (''Name:'' @ TAB @ st_name st) @ NL, v_name = st_ngid st @ NL, v_tgid = int (st_tgid st), v_pid = int (st_pid st), v_ppid = int (st_ppid st)\<rparr>"
proof -
  have l: "plain_line (''Name:'' @ TAB @ st_name st)" "plain_line (st_umask st)" "plain_line (st_state st)" "plain_line (st_ngid st)"
    using assms by (auto simp: status_ok_def plain_line_def LINE_SIZE_def rec_ok_def rec_of_def CHILD_NAME_SIZE_def)
  have sp: "dropWhile p_isspace (st_ngid st @ r) = st_ngid st @ r" for r using assms by (cases "st_ngid st") (auto simp: status_ok_def)
  have lits: "\<forall>c\<in>set ''Tgid:''. \<not> p_isspace c" "\<forall>c\<in>set ''Pid:''. \<not> p_isspace c" "\<forall>c\<in>set ''PPid:''. \<not> p_isspace c" by (simp_all add: p_isspace_def)
  have f: "p_fscanf ''Tgid: '' v (''Tgid:'' @ TAB @ dec_nat n @ NL @ r) = (int n, dropWhile p_isspace r)"
    "p_fscanf ''Pid: '' v (''Pid:'' @ TAB @ dec_nat n @ NL @ r) = (int n, dropWhile p_isspace r)"
    "p_fscanf ''PPid: '' v (''PPid:'' @ TAB @ dec_nat n @ NL @ r) = (int n, dropWhile p_isspace r)" for v n r
    using lits [THEN p_fscanf_field] by (simp_all only: append.simps)
  have ns: "dropWhile p_isspace (''PPid:'' @ r) = ''PPid:'' @ r" for r by (simp add: p_isspace_def)
  show ?thesis
    unfolding read_status_def status_text_def p_fgets_line [OF l(1)] p_fgets_line [OF l(2)] p_fgets_line [OF l(3)] Let_def prod.case f sp
      p_fgets_line [OF l(4)] ns by (simp only:)
qed

section \<open>Reading all of \<^verbatim>\<open>/proc\<close>\<close>

type_synonym listing = "(string \<times> (string \<times> status) list) list"

definition task_dir :: "string \<Rightarrow> string" where "task_dir p = ''/proc/'' @ p @ ''/task''"

definition dir_shows :: "(string \<times> bool) list option \<Rightarrow> (string \<times> 'a) list \<Rightarrow> bool" where
  "dir_shows d xs \<longleftrightarrow> (case d of None \<Rightarrow> False | Some es \<Rightarrow> filter (\<lambda>e. \<not> skip_entry e) es = map (\<lambda>x. (fst x, True)) xs)"

text \<open>The directories and files hold these processes and tasks, between other entries that the program skips.\<close>

definition task_ok :: "proc_env \<Rightarrow> string \<Rightarrow> string \<times> status \<Rightarrow> bool" where
  "task_ok env p t \<longleftrightarrow> length (fst t) \<le> 255 \<and> status_ok (snd t) \<and> e_file env (task_dir p @ ''/'' @ fst t @ ''/status'') = Some (status_text (snd t))"

definition proc_lists :: "proc_env \<Rightarrow> listing \<Rightarrow> bool" where
  "proc_lists env ls \<longleftrightarrow> dir_shows (e_dir env ''/proc'') ls \<and>
     (\<forall>l\<in>set ls. length (fst l) < 117 \<and> dir_shows (e_dir env (task_dir (fst l))) (snd l) \<and> (\<forall>t\<in>set (snd l). task_ok env (fst l) t))"

definition recs :: "listing \<Rightarrow> proc_rec list" where
  "recs ls = concat (map (\<lambda>l. map (\<lambda>t. rec_of (snd t)) (snd l)) ls)"

lemma read_status_do_ok:
  assumes "status_ok st" and "e_file env path = Some (status_text st)"
  shows "read_proc_status_do env path cmp s = insert_node (fst (rec_of st)) (fst (snd (rec_of st))) (snd (snd (rec_of st))) cmp s"
proof -
  have "takeWhile (\<lambda>c. c \<noteq> CHR 0x00) (st_name st @ NL) = st_name st @ NL" using assms(1) by (subst takeWhile_append2) (auto simp: status_ok_def)
  then show ?thesis using read_status_text [OF assms(1)] assms(2) by (auto simp: read_proc_status_do_def rec_of_def Let_def)
qed

lemma read_tasks_all:
  assumes "filter (\<lambda>e. \<not> skip_entry e) es = map (\<lambda>x. (fst x, True)) ts" and "\<forall>t\<in>set ts. task_ok env p t" and "length p < 117"
  shows "read_tasks env (task_dir p) es cmp s = insert_all cmp (map (\<lambda>t. rec_of (snd t)) ts) s"
  using assms(1,2)
proof (induction es arbitrary: ts s)
  case (Cons e es)
  show ?case
  proof (cases "skip_entry e")
    case False
    then obtain t ts' where ts: "ts = t # ts'" "fst e = fst t" using Cons.prems(1) by (cases ts) auto
    have ok: "task_ok env p t" using Cons.prems(2) ts by simp
    have "length (task_dir p @ ''/'' @ fst t @ ''/status'') < 512" using ok assms(3) by (simp add: task_ok_def task_dir_def)
    then show ?thesis using Cons.IH [of ts'] Cons.prems ts False ok
      by (auto simp: task_ok_def read_status_do_ok Let_def intro: bindE_cong)
  qed (use Cons in auto)
qed simp

lemma read_proc_status_all:
  assumes "dir_shows (e_dir env (task_dir p)) ts" and "\<forall>t\<in>set ts. task_ok env p t" and "length p < 117"
  shows "read_proc_status env p cmp s = insert_all cmp (map (\<lambda>t. rec_of (snd t)) ts) s"
proof -
  obtain es where es: "e_dir env (task_dir p) = Some es" "filter (\<lambda>e. \<not> skip_entry e) es = map (\<lambda>x. (fst x, True)) ts"
    using assms(1) by (auto simp: dir_shows_def split: option.splits)
  then show ?thesis using read_tasks_all [OF es(2) assms(2,3)] assms(3) by (simp add: read_proc_status_def Let_def task_dir_def)
qed

lemma insert_all_append: "insert_all cmp (xs @ ys) s = bindE (insert_all cmp xs s) (insert_all cmp ys)"
  by (induction xs arbitrary: s) (auto simp: bindE_assoc intro: bindE_cong)

definition cmp_of :: "u32 \<Rightarrow> child_cmp" where
  "cmp_of flag = (if flag AND NUMERIC_SORT \<noteq> 0 then guard_cmp1 else guard_cmp2)"

lemma read_all_recs:
  assumes "filter (\<lambda>e. \<not> skip_entry e) es = map (\<lambda>x. (fst x, True)) ls"
    and "\<forall>l\<in>set ls. length (fst l) < 117 \<and> dir_shows (e_dir env (task_dir (fst l))) (snd l) \<and> (\<forall>t\<in>set (snd l). task_ok env (fst l) t)"
  shows "read_all env es flag s = insert_all (cmp_of flag) (recs ls) s"
  using assms
proof (induction es arbitrary: ls s)
  case (Cons e es)
  show ?case
  proof (cases "skip_entry e")
    case False
    then obtain l ls' where ls: "ls = l # ls'" "fst e = fst l" using Cons.prems(1) by (cases ls) auto
    have "read_proc_status env (fst l) cmp s = insert_all cmp (map (\<lambda>t. rec_of (snd t)) (snd l)) s" for cmp
      using Cons.prems(2) ls by (intro read_proc_status_all) simp_all
    then show ?thesis using Cons.IH [of ls'] Cons.prems ls False
      by (auto simp: recs_def insert_all_append cmp_of_def intro: bindE_cong)
  qed (use Cons in auto)
qed (simp add: recs_def)

section \<open>The printed tree\<close>

lemma find_init_linked:
  assumes "nlinked (nodes s) (p # qs @ [e])" and "e \<notin> set qs" and "\<forall>a\<in>set qs. a < length (nodes s)" and "length qs < fuel"
    and "find (\<lambda>c. fst c = 1) (map (\<lambda>a. data (nodes s ! a)) qs) = Some d"
  shows "\<exists>a. find_init fuel (Some (hd (qs @ [e]))) (Some e) s = Inr (Some a) \<and> a < length (nodes s) \<and> data (nodes s ! a) = d \<and> fst d = 1"
  using assms
proof (induction qs arbitrary: p fuel)
  case (Cons q qs)
  obtain f where f: "fuel = Suc f" using Cons.prems(4) by (cases fuel) simp_all
  have l: "nlinked (nodes s) (q # qs @ [e])" using Cons.prems(1) by simp
  have "node_next (nodes s ! q) = Some (hd (qs @ [e]))" using l by (cases qs) simp_all
  then show ?case using Cons.IH [OF l, of f] Cons.prems f by (auto simp: data_def split: if_splits)
qed simp

lemma print_tree_layout:
  assumes h: "p_holds s f" and d: "find (\<lambda>c. fst c = 1) (f 0) = Some (t_pid t, t_name t)" and t: "of_procs f t" "height t \<le> MAX_DEPTH"
  shows "\<exists>s'. print_tree sp s = Inr s' \<and> stdout s' = stdout s @ ''Process Tree: '' @ NL @ p_layout sp [] t @ NL"
proof -
  let ?s = "p_print (''Process Tree: '' @ NL) s"
  obtain L where fo: "forest (nodes s) (Tree s) L" and g: "\<And>i. f i = kids (nodes s) (L i)" using h by (auto simp: p_holds_def)
  have T: "Tree s 0 = ends (L 0)" and ok: "chain_ok (nodes s) (L 0)" using fo by (simp_all add: forest_def)
  obtain hd_a ps e where c: "L 0 = Some (hd_a, ps, e)" using d g [of 0] by (cases "L 0") auto
  have n: "nlinked (nodes ?s) (hd_a # ps @ [e])" "e \<notin> set ps" "\<forall>a\<in>set ps. a < length (nodes ?s)" "length ps < length (nodes ?s)" "hd_a < length (nodes s)"
    using ok nchain_bound [of "nodes s" hd_a ps e] by (auto simp: chain_ok_def c p_print_def)
  have "node_next (nodes s ! hd_a) = Some (hd (ps @ [e]))" using n(1) by (cases ps) (simp_all add: p_print_def)
  moreover obtain a where a: "find_init (length (nodes ?s)) (Some (hd (ps @ [e]))) (Some e) ?s = Inr (Some a)" "a < length (nodes ?s)"
    "data (nodes ?s ! a) = (t_pid t, t_name t)" "t_pid t = 1"
    using find_init_linked [OF n(1-4)] d g [of 0] c by (fastforce simp: p_print_def)
  moreover have "p_holds ?s f" "wide ?s 0" "[] = bars ?s 0" using h by (simp_all add: p_holds_def p_print_def wide_def bars_def)
  then obtain s' where "dfs_print_tree (t_pid t) (t_name t) 0 0 sp ?s = Inr s'" "p_drawn 0 ?s (p_layout sp [] t) s'"
    using layout_drawn(1) [OF t(1), of 0] t(2) by fastforce
  ultimately show ?thesis using T c n(5)
    by (auto simp: print_tree_def Let_def p_print_def data_def p_drawn_def)
qed

definition key_children :: "u32 \<Rightarrow> proc_rec list \<Rightarrow> int \<Rightarrow> (int \<times> string) list" where
  "key_children flag rs = (if flag AND NUMERIC_SORT \<noteq> 0 then children_by fst rs else children_by snd rs)"

lemma read_all_holds:
  assumes "\<forall>r\<in>set rs. rec_ok r"
  shows "\<exists>s. insert_all (cmp_of flag) rs (pstate0 g) = Inr s \<and> p_holds s (key_children flag rs) \<and> stdout s = []"
  using by_pid.insert_all_ok [of "pstate0 g" "[]" rs] by_name.insert_all_ok [of "pstate0 g" "[]" rs] holds_empty [of g] assms
  by (simp add: cmp_of_def key_children_def pstate0_def)

text \<open>
  C27: When \<^verbatim>\<open>/proc\<close> lists tasks whose status files have the form the kernel gives them, and the
  tree below process 1 is not deeper than the two tables of levels, the program reads every record, ends with 0 and prints the layout of the tree in which the
  children of a process are its records in the order that the options ask for.
\<close>

theorem pstree_prints_tree:
  assumes "parse_options opts 0 = Some flag" and "flag AND VERSION = 0" and "proc_lists env ls"
    and "find (\<lambda>c. fst c = 1) (key_children flag (recs ls) 0) = Some (t_pid t, t_name t)"
    and "of_procs (key_children flag (recs ls)) t" and "height t \<le> MAX_DEPTH"
  shows "\<exists>s. pstree_main env (prog # opts) (pstate0 g) = Inr (0, s) \<and>
    stdout s = ''Process Tree: '' @ NL @ p_layout (flag AND SHOW_PIDS \<noteq> 0) [] t @ NL"
proof -
  obtain es where es: "e_dir env ''/proc'' = Some es" "filter (\<lambda>e. \<not> skip_entry e) es = map (\<lambda>x. (fst x, True)) ls"
    using assms(3) by (auto simp: proc_lists_def dir_shows_def split: option.splits)
  have "\<forall>r\<in>set (recs ls). rec_ok r" using assms(3) by (auto simp: recs_def proc_lists_def task_ok_def status_ok_def)
  then obtain s where "insert_all (cmp_of flag) (recs ls) (pstate0 g) = Inr s" and s: "p_holds s (key_children flag (recs ls))" "stdout s = []"
    using read_all_holds by blast
  then have "read_all env es flag (pstate0 g) = Inr s"
    using read_all_recs [OF es(2)] assms(3) by (simp add: proc_lists_def)
  then show ?thesis using print_tree_layout [OF s(1) assms(4-6), of "flag AND SHOW_PIDS \<noteq> 0"] es(1) assms(1,2) s(2)
    by (auto simp: pstree_main_def execute_def)
qed

text \<open>A machine with four tasks.\<close>

definition demo_status :: "string \<Rightarrow> nat \<Rightarrow> nat \<Rightarrow> nat \<Rightarrow> status" where
  "demo_status name tgid pid ppid = \<lparr>st_name = name, st_umask = ''Umask: 0022'', st_state = ''State: S'', st_tgid = tgid, st_ngid = ''Ngid: 0'',
     st_pid = pid, st_ppid = ppid, st_rest = []\<rparr>"

definition demo_list :: listing where
  "demo_list = [(''1'', [(''1'', demo_status ''init'' 1 1 0)]), (''4'', [(''4'', demo_status ''sh'' 4 4 1)]),
     (''7'', [(''7'', demo_status ''db'' 7 7 1), (''8'', demo_status ''log'' 7 8 1)])]"

definition demo_machine :: proc_env where
  "demo_machine = \<lparr>e_dir = (\<lambda>p. if p = ''/proc'' then Some [(''.'', True), (''1'', True), (''4'', True), (''version'', False), (''7'', True)]
       else if p = ''/proc/1/task'' then Some [(''1'', True)] else if p = ''/proc/4/task'' then Some [(''4'', True)]
       else if p = ''/proc/7/task'' then Some [(''7'', True), (''..'', True), (''8'', True)] else None),
     e_file = (\<lambda>p. if p = ''/proc/1/task/1/status'' then Some (status_text (demo_status ''init'' 1 1 0))
       else if p = ''/proc/4/task/4/status'' then Some (status_text (demo_status ''sh'' 4 4 1))
       else if p = ''/proc/7/task/7/status'' then Some (status_text (demo_status ''db'' 7 7 1))
       else if p = ''/proc/7/task/8/status'' then Some (status_text (demo_status ''log'' 7 8 1)) else None),
     e_frame = \<lparr>v_temp = [], v_name = [], v_tgid = 0, v_pid = 0, v_ppid = 0\<rparr>\<rparr>"

definition demo_tree :: ptree where
  "demo_tree = PNode 1 ''init'' [PNode 7 ''db'' [PNode 8 ''log'' []], PNode 4 ''sh'' []]"

lemma demo_proc: "proc_lists demo_machine demo_list"
  by (simp add: proc_lists_def demo_list_def demo_machine_def dir_shows_def skip_entry_def task_dir_def task_ok_def status_ok_def
      demo_status_def plain_line_def LINE_SIZE_def p_isspace_def rec_ok_def rec_of_def MAX_PID_def CHILD_NAME_SIZE_def)

theorem pstree_prints_tree_witness:
  "\<exists>s. pstree_main demo_machine [''pstree'', ''-p''] (pstate0 (\<lambda>a. \<lparr>child_pid = 9, child_name = [], node_next = None\<rparr>)) = Inr (0, s) \<and>
     stdout s = ''Process Tree: '' @ NL @ ''-init(1)-db(7)-log(8)'' @ NL @ ''       `-sh(4)'' @ NL"
proof -
  have f: "parse_options [''-p''] 0 = Some SHOW_PIDS" "SHOW_PIDS AND VERSION = 0" "SHOW_PIDS AND SHOW_PIDS \<noteq> 0"
    by (simp_all add: SHOW_PIDS_def VERSION_def)
  have k: "key_children SHOW_PIDS (recs demo_list) 0 = [(1, ''init'')]" "key_children SHOW_PIDS (recs demo_list) 1 = [(7, ''db''), (4, ''sh'')]"
    "key_children SHOW_PIDS (recs demo_list) 7 = [(8, ''log'')]" "key_children SHOW_PIDS (recs demo_list) 4 = []" "key_children SHOW_PIDS (recs demo_list) 8 = []"
    by code_simp+
  have "p_layout True [] demo_tree = ''-init(1)-db(7)-log(8)'' @ NL @ ''       `-sh(4)''" by code_simp
  moreover have "find (\<lambda>c. fst c = 1) (key_children SHOW_PIDS (recs demo_list) 0) = Some (t_pid demo_tree, t_name demo_tree)"
    "of_procs (key_children SHOW_PIDS (recs demo_list)) demo_tree" "height demo_tree \<le> MAX_DEPTH"
    using k by (simp_all add: demo_tree_def MAX_PID_def MAX_DEPTH_def)
  ultimately show ?thesis using pstree_prints_tree [OF f(1,2) demo_proc, of demo_tree "''pstree''"] f(3) by simp
qed

end
