(* ===== verification/Frecov.thy ===== *)
theory Frecov
  imports Prelude "HOL-Library.Signed_Division"
begin

text \<open>
  The recovery of files from an image in \<^verbatim>\<open>frecov/frecov.c\<close>: directory records are collected from the sectors of the image,
  following the sector behind the last file found, and the contents are cut out of the image.  The image is a function of the offset,
  of which the first 64 megabytes are mapped.  \<^verbatim>\<open>int\<close> has 32 bits, and \<open>wrap32\<close> stands where a result can leave
  them.  The fork of \<^verbatim>\<open>sha1sum\<close> is not modelled: the result is the list of files that are written for it.
\<close>

definition wrap32 :: "int \<Rightarrow> int" where
  "wrap32 i = (i + 2 ^ 31) mod 2 ^ 32 - 2 ^ 31"

definition IMG_SIZE :: int where "IMG_SIZE = 64 * 1024 * 1024"
definition FILE_MAX :: int where "FILE_MAX = 1024"
definition FILENAME_SIZE :: nat where "FILENAME_SIZE = 256"
definition BUF_ROWS :: nat where "BUF_ROWS = 64"
definition VISIT_SIZE :: int where "VISIT_SIZE = 2 ^ 16 - 1"

type_synonym image = "int \<Rightarrow> u8"

definition img_rd :: "image \<Rightarrow> int \<Rightarrow> u8 res" where
  "img_rd img p = (if 0 \<le> p \<and> p < IMG_SIZE then Inr (img p) else Inl OutOfBounds)"

section \<open>The parameters of the file system\<close>

record FAT32 =
  sector_size :: int
  cluster_size :: int
  DOS_sec_amount :: int
  fat_amount :: int
  sector_amount :: int
  hiden_amount :: int
  fat_size :: int
  DBR_sec_index :: int
  volume_label :: "u8 list"
  fat_type :: "u8 list"

fun read_num_loop :: "image \<Rightarrow> int \<Rightarrow> nat \<Rightarrow> int \<Rightarrow> int res" where
  "read_num_loop img p 0 ret = Inr ret"
| "read_num_loop img p (Suc n) ret =
     bindE (img_rd img (p + int n)) (\<lambda>b. read_num_loop img p n (wrap32 (wrap32 (ret * 256) + uint b)))"

definition read_num :: "image \<Rightarrow> int \<Rightarrow> nat \<Rightarrow> int res" where
  "read_num img p len = read_num_loop img p len 0"

fun img_strncpy :: "image \<Rightarrow> int \<Rightarrow> nat \<Rightarrow> u8 list res" where
  "img_strncpy img p 0 = Inr []"
| "img_strncpy img p (Suc n) =
     bindE (img_rd img p) (\<lambda>b. if b = 0 then Inr [] else bindE (img_strncpy img (p + 1) n) (\<lambda>bs. Inr (b # bs)))"

definition read_fat32_info :: "image \<Rightarrow> FAT32 res" where
  "read_fat32_info img =
     bindE (read_num img 0x0b 2) (\<lambda>ss.
     bindE (read_num img 0x0d 1) (\<lambda>cs.
     bindE (read_num img 0x0e 2) (\<lambda>dos.
     bindE (read_num img 0x10 1) (\<lambda>fa.
     bindE (read_num img 0x13 2) (\<lambda>sa.
     bindE (if sa = 0 then read_num img 0x20 4 else Inr sa) (\<lambda>sa.
     bindE (read_num img 0x1c 4) (\<lambda>hid.
     bindE (read_num img 0x24 4) (\<lambda>fs.
     bindE (read_num img 0x32 2) (\<lambda>dbr.
     bindE (img_strncpy img 0x47 11) (\<lambda>lab.
     bindE (img_strncpy img 0x52 8) (\<lambda>ty.
     Inr \<lparr>sector_size = ss, cluster_size = cs, DOS_sec_amount = dos, fat_amount = fa, sector_amount = sa, hiden_amount = hid,
          fat_size = fs, DBR_sec_index = dbr, volume_label = lab, fat_type = ty\<rparr>)))))))))))"

section \<open>Directory records\<close>

record myFILE =
  filename :: "u8 list"
  position :: int
  filesize :: int
  next_sector :: int
  visited :: bool

text \<open>
  A row of \<^verbatim>\<open>buf\<close> is its first 13 bytes; the bytes behind them are never written and stay zero, so that a row without a zero
  is terminated.
\<close>

record recovery =
  fat32 :: FAT32
  files :: "int \<Rightarrow> myFILE"
  tot_file :: int
  buf :: "nat \<Rightarrow> u8 list"
  top :: nat
  sector_visit :: "int \<Rightarrow> bool"

definition no_file :: myFILE where
  "no_file = \<lparr>filename = [], position = 0, filesize = 0, next_sector = 0, visited = False\<rparr>"

definition recovery0 :: "FAT32 \<Rightarrow> recovery" where
  "recovery0 f = \<lparr>fat32 = f, files = (\<lambda>_. no_file), tot_file = 0, buf = (\<lambda>_. replicate 13 0), top = 0, sector_visit = (\<lambda>_. False)\<rparr>"

fun read_unicode :: "image \<Rightarrow> int \<Rightarrow> nat \<Rightarrow> u8 list res" where
  "read_unicode img src 0 = Inr []"
| "read_unicode img src (Suc len) =
     bindE (img_rd img src) (\<lambda>b. bindE (read_unicode img (src + 2) len) (\<lambda>bs. Inr (b # bs)))"

definition is_valid :: "int \<Rightarrow> bool" where
  "is_valid key \<longleftrightarrow> 0x01 \<le> key \<and> key \<le> 0x1f \<or> 0x41 \<le> key \<and> key \<le> 0x5f"

definition file_at :: "int \<Rightarrow> recovery \<Rightarrow> myFILE res" where
  "file_at k s = bindE (guardE OutOfBounds (0 \<le> k \<and> k < FILE_MAX)) (\<lambda>_. Inr (files s k))"

definition set_file :: "int \<Rightarrow> (myFILE \<Rightarrow> myFILE) \<Rightarrow> recovery \<Rightarrow> recovery res" where
  "set_file k g s = bindE (file_at k s) (\<lambda>f. Inr (s\<lparr>files := (files s)(k := g f)\<rparr>))"

text \<open>The loop \<^verbatim>\<open>while(top) strcat(file->filename, buf[--top])\<close>.\<close>

fun pop_names :: "nat \<Rightarrow> (nat \<Rightarrow> u8 list) \<Rightarrow> u8 list \<Rightarrow> u8 list res" where
  "pop_names 0 rows name = Inr name"
| "pop_names (Suc t) rows name =
     (let name = name @ takeWhile (\<lambda>b. b \<noteq> 0) (rows t) in
      bindE (guardE OutOfBounds (length name < FILENAME_SIZE)) (\<lambda>_. pop_names t rows name))"

definition long_record :: "image \<Rightarrow> int \<Rightarrow> bool res" where
  "long_record img offset =
     bindE (img_rd img (offset + 0x0b)) (\<lambda>a.
     if a \<noteq> 0x0f then Inr False
     else
       bindE (img_rd img (offset + 0x0c)) (\<lambda>b.
       if b \<noteq> 0 then Inr False
       else bindE (read_num img offset 1) (\<lambda>key. Inr (is_valid key))))"

definition push_name :: "image \<Rightarrow> int \<Rightarrow> recovery \<Rightarrow> recovery res" where
  "push_name img offset s =
     bindE (guardE OutOfBounds (top s < BUF_ROWS)) (\<lambda>_.
     bindE (read_unicode img (offset + 0x01) 5) (\<lambda>a.
     bindE (read_unicode img (offset + 0x0e) 6) (\<lambda>b.
     bindE (read_unicode img (offset + 0x1c) 2) (\<lambda>c.
     Inr (s\<lparr>buf := (buf s)(top s := a @ b @ c), top := Suc (top s)\<rparr>)))))"

definition finish_file :: "image \<Rightarrow> int \<Rightarrow> int \<Rightarrow> recovery \<Rightarrow> recovery res" where
  "finish_file img offset k s =
     bindE (file_at k s) (\<lambda>f.
     bindE (pop_names (top s) (buf s) (filename f)) (\<lambda>name.
     bindE (read_num img (offset + 0x14) 2) (\<lambda>hi.
     bindE (read_num img (offset + 0x1a) 2) (\<lambda>lo.
     let pos = wrap32 (wrap32 (hi * 2 ^ 16) + lo) in
     bindE (read_num img (offset + 0x1c) 4) (\<lambda>sz.
     bindE (guardE DivZero (sector_size (fat32 s) \<noteq> 0)) (\<lambda>_.
     let nx = wrap32 (wrap32 (pos + sz sdiv sector_size (fat32 s)) + 1);
         s = s\<lparr>top := 0\<rparr> in
     bindE (set_file k (\<lambda>f. f\<lparr>filename := name, position := pos, filesize := sz, next_sector := nx\<rparr>) s) (\<lambda>s.
     if 0xffff < nx mod 2 ^ 32 then
       bindE (set_file k (\<lambda>f. f\<lparr>filename := []\<rparr>) s) (\<lambda>s. Inr (s\<lparr>tot_file := tot_file s - 1\<rparr>))
     else Inr s)))))))"

definition read_name_position_do :: "image \<Rightarrow> int \<Rightarrow> int \<Rightarrow> recovery \<Rightarrow> recovery res" where
  "read_name_position_do img offset k s =
     bindE (long_record img offset) (\<lambda>is_long.
     if is_long then push_name img offset s
     else if top s \<noteq> 0 then finish_file img offset k s
     else Inr (s\<lparr>tot_file := tot_file s - 1\<rparr>))"

definition read_name_position :: "image \<Rightarrow> int \<Rightarrow> recovery \<Rightarrow> recovery res" where
  "read_name_position img offset s =
     (if top s = 0 then
        let s = s\<lparr>tot_file := tot_file s + 1\<rparr> in read_name_position_do img offset (tot_file s - 1) s
      else read_name_position_do img offset (tot_file s - 1) s)"

section \<open>Sectors\<close>

function scan_sector :: "image \<Rightarrow> int \<Rightarrow> int \<Rightarrow> int \<Rightarrow> recovery \<Rightarrow> recovery res" where
  "scan_sector img offset i n s =
     (if i < n then bindE (read_name_position img (offset + i) s) (\<lambda>s. scan_sector img offset (i + 0x20) n s)
      else Inr s)"
  by pat_completeness auto
termination
  by (relation "measure (\<lambda>(img, offset, i, n, s). nat (n - i))") auto

declare scan_sector.simps [simp del]

definition search_bmp_name_position :: "image \<Rightarrow> int \<Rightarrow> int \<Rightarrow> recovery \<Rightarrow> (int \<times> recovery) res" where
  "search_bmp_name_position img offset sector_idx s =
     (if 512 \<le> tot_file s then Inr (0, s)
      else
        let k = sector_idx mod 2 ^ 16 in
        bindE (guardE OutOfBounds (k < VISIT_SIZE)) (\<lambda>_.
        if sector_visit s k then Inr (0, s)
        else
          let s = s\<lparr>sector_visit := (sector_visit s)(k := True)\<rparr>;
              old_tot_file = tot_file s in
          bindE (scan_sector img offset 0 (sector_size (fat32 s)) s) (\<lambda>s.
          Inr (tot_file s - old_tot_file, s))))"

definition actual_tot_file :: "recovery \<Rightarrow> int" where
  "actual_tot_file s = (if top s = 0 then tot_file s - 1 else tot_file s - 2)"

definition deep_search_bmp_name_position :: "image \<Rightarrow> int \<Rightarrow> recovery \<Rightarrow> (int \<times> recovery) res" where
  "deep_search_bmp_name_position img offset s =
     (let k = actual_tot_file s in
      bindE (file_at k s) (\<lambda>f.
      if \<not> visited f then
        bindE (set_file k (\<lambda>f. f\<lparr>visited := True\<rparr>) s) (\<lambda>s.
        if next_sector f mod 2 ^ 32 \<le> 0xffff then
          search_bmp_name_position img (wrap32 (offset + wrap32 ((next_sector f - 2) * sector_size (fat32 s)))) (next_sector f) s
        else Inr (0, s))
      else Inr (0, s)))"

fun deep_loop :: "nat \<Rightarrow> image \<Rightarrow> int \<Rightarrow> recovery \<Rightarrow> recovery res" where
  "deep_loop 0 img offset s = Inl Diverge"
| "deep_loop (Suc fuel) img offset s =
     bindE (deep_search_bmp_name_position img offset s) (\<lambda>(cnt, s).
     if cnt \<noteq> 0 then deep_loop fuel img offset s else Inr s)"

text \<open>The last loop of the search; \<open>amount\<close> is \<^verbatim>\<open>fat32.sector_amount\<close>, which nothing changes after it has been read.\<close>

function sweep :: "image \<Rightarrow> int \<Rightarrow> int \<Rightarrow> int \<Rightarrow> recovery \<Rightarrow> recovery res" where
  "sweep img start i amount s =
     (if start + (i - 2) < amount then
        bindE (search_bmp_name_position img (wrap32 ((start + (i - 2)) * sector_size (fat32 s))) i s) (\<lambda>(cnt, s).
        sweep img start (i + 1) amount s)
      else Inr s)"
  by pat_completeness auto
termination
  by (relation "measure (\<lambda>(img, start, i, n, s). nat (n - (start + (i - 2))))") auto

declare sweep.simps [simp del]

section \<open>The program\<close>

fun img_match :: "image \<Rightarrow> int \<Rightarrow> u8 list \<Rightarrow> bool res" where
  "img_match img p [] = Inr True"
| "img_match img p (c # cs) = bindE (img_rd img p) (\<lambda>b. if b = c then img_match img (p + 1) cs else Inr False)"

text \<open>The search for the allocation table does not end when the size of a sector is zero.\<close>

function find_fat :: "image \<Rightarrow> int \<Rightarrow> int \<Rightarrow> int res" where
  "find_fat img step fat_begin =
     (if fat_begin < IMG_SIZE then
        bindE (img_match img fat_begin [0xf8, 0xff, 0xff, 0x0f]) (\<lambda>found.
        if found then Inr fat_begin
        else if step \<le> 0 then Inl Diverge
        else find_fat img step (fat_begin + step))
      else Inl OutOfBounds)"
  by pat_completeness auto
termination
  by (relation "measure (\<lambda>(img, step, p). nat (IMG_SIZE - p))") auto

declare find_fat.simps [simp del]

fun img_bytes :: "image \<Rightarrow> int \<Rightarrow> nat \<Rightarrow> u8 list res" where
  "img_bytes img p 0 = Inr []"
| "img_bytes img p (Suc n) = bindE (img_rd img p) (\<lambda>b. bindE (img_bytes img (p + 1) n) (\<lambda>bs. Inr (b # bs)))"

text \<open>\<^verbatim>\<open>fwrite\<close> takes the size as an unsigned number: a negative one runs off the image.\<close>

definition output_bmp :: "(u8 list \<Rightarrow> bool) \<Rightarrow> image \<Rightarrow> int \<Rightarrow> int \<Rightarrow> myFILE \<Rightarrow> (u8 list \<times> u8 list) list res" where
  "output_bmp can_open img data ssize f =
     (if \<not> can_open (filename f) then Inr []
      else if filesize f < 0 then Inl OutOfBounds
      else
        bindE (img_bytes img (data + wrap32 ((position f - 2) * ssize)) (nat (filesize f))) (\<lambda>bs.
        Inr [(filename f, bs)]))"

function output_all :: "(u8 list \<Rightarrow> bool) \<Rightarrow> image \<Rightarrow> int \<Rightarrow> int \<Rightarrow> recovery \<Rightarrow> (u8 list \<times> u8 list) list res" where
  "output_all can_open img data i s =
     (if i \<le> actual_tot_file s then
        bindE (file_at i s) (\<lambda>f.
        bindE (output_bmp can_open img data (sector_size (fat32 s)) f) (\<lambda>o1.
        bindE (output_all can_open img data (i + 1) s) (\<lambda>os. Inr (o1 @ os))))
      else Inr [])"
  by pat_completeness auto
termination
  by (relation "measure (\<lambda>(c, img, d, i, s). nat (actual_tot_file s + 1 - i))") auto

declare output_all.simps [simp del]

definition DEEP_FUEL :: nat where "DEEP_FUEL = 2 ^ 16"

definition frecov_main :: "(u8 list \<Rightarrow> bool) \<Rightarrow> image \<Rightarrow> (u8 list \<times> u8 list) list res" where
  "frecov_main can_open img =
     bindE (read_fat32_info img) (\<lambda>f.
     bindE (find_fat img (sector_size f) 0) (\<lambda>fat_begin.
     let fat_tot_size = wrap32 (wrap32 (fat_amount f * fat_size f) * sector_size f) in
     bindE (guardE DivZero (sector_size f \<noteq> 0)) (\<lambda>_.
     let data_start_sector = wrap32 (fat_begin + fat_tot_size) sdiv sector_size f in
     bindE (search_bmp_name_position img (wrap32 ((data_start_sector + (3 - 2)) * sector_size f)) 3 (recovery0 f)) (\<lambda>(cnt, s).
     bindE (deep_loop DEEP_FUEL img (wrap32 (fat_begin + fat_tot_size)) s) (\<lambda>s.
     bindE (sweep img data_start_sector 4 (sector_amount f) s) (\<lambda>s.
     output_all can_open img (fat_begin + fat_tot_size) 0 s))))))"

end
