(* ===== verification/Frecov_Correct.thy ===== *)
theory Frecov_Correct
  imports Frecov
begin

text \<open>
  The recovery ends: every round of the search that finds something visits a sector for the first time.  And it recovers: a sector with
  long directory records is read back into the files they describe.
\<close>

section \<open>Termination\<close>

text \<open>Code that stops for another reason than an endless loop.\<close>

definition ends_ok :: "'a res \<Rightarrow> bool" where
  "ends_ok r \<longleftrightarrow> r \<noteq> Inl Diverge"

named_theorems ends

lemma ends_ok_simps [simp]: "ends_ok (Inr x)" "ends_ok (Inl e) \<longleftrightarrow> e \<noteq> Diverge"
  by (simp_all add: ends_ok_def)

lemma ends_ok_bind [ends]: "ends_ok m \<Longrightarrow> (\<And>x. m = Inr x \<Longrightarrow> ends_ok (f x)) \<Longrightarrow> ends_ok (bindE m f)"
  by (cases m) auto

lemma ends_ok_guard [ends]: "e \<noteq> Diverge \<Longrightarrow> ends_ok (guardE e b)"
  by (simp add: guardE_def)

lemma ends_ok_if [ends]: "(b \<Longrightarrow> ends_ok x) \<Longrightarrow> (\<not> b \<Longrightarrow> ends_ok y) \<Longrightarrow> ends_ok (if b then x else y)"
  by simp

lemma ends_ok_pair [ends]: "(\<And>a b. p = (a, b) \<Longrightarrow> ends_ok (f a b)) \<Longrightarrow> ends_ok (case p of (a, b) \<Rightarrow> f a b)"
  by (cases p) simp

lemma img_rd_ends [ends]: "ends_ok (img_rd img p)"
  by (simp add: img_rd_def)

lemma read_num_ends [ends]: "ends_ok (read_num img p n)"
proof -
  have "ends_ok (read_num_loop img p n ret)" for ret by (induction n arbitrary: ret) (auto intro!: ends)
  then show ?thesis by (simp add: read_num_def)
qed

lemma img_strncpy_ends [ends]: "ends_ok (img_strncpy img p n)"
  by (induction n arbitrary: p) (auto intro!: ends)

lemma read_unicode_ends [ends]: "ends_ok (read_unicode img p n)"
  by (induction n arbitrary: p) (auto intro!: ends)

lemma img_bytes_ends [ends]: "ends_ok (img_bytes img p n)"
  by (induction n arbitrary: p) (auto intro!: ends)

lemma img_match_ends [ends]: "ends_ok (img_match img p cs)"
  by (induction cs arbitrary: p) (auto intro!: ends)

lemma pop_names_ends [ends]: "ends_ok (pop_names t rows name)"
  by (induction t arbitrary: name) (auto intro!: ends simp: Let_def)

lemma read_fat32_info_ends [ends]: "ends_ok (read_fat32_info img)"
  unfolding read_fat32_info_def by (intro ends) simp_all

lemma file_at_ends [ends]: "ends_ok (file_at k s)" and set_file_ends [ends]: "ends_ok (set_file k g s)"
  by (auto simp: file_at_def set_file_def intro!: ends)

lemma read_name_position_ends [ends]: "ends_ok (read_name_position img offset s)"
  unfolding read_name_position_def read_name_position_do_def long_record_def push_name_def finish_file_def Let_def
  by (intro ends) simp_all

lemma scan_sector_ends [ends]: "ends_ok (scan_sector img offset i n s)"
proof (induction img offset i n s rule: scan_sector.induct)
  case (1 img offset i n s)
  show ?case by (subst scan_sector.simps) (auto intro!: ends 1)
qed

lemma search_ends [ends]: "ends_ok (search_bmp_name_position img offset k s)"
  unfolding search_bmp_name_position_def Let_def by (intro ends) simp_all

lemma deep_search_ends [ends]: "ends_ok (deep_search_bmp_name_position img offset s)"
  unfolding deep_search_bmp_name_position_def Let_def by (intro ends) simp_all

lemma sweep_ends [ends]: "ends_ok (sweep img start i n s)"
proof (induction img start i n s rule: sweep.induct)
  case (1 img start i n s)
  show ?case by (subst sweep.simps) (auto intro!: ends 1)
qed

lemma output_all_ends [ends]: "ends_ok (output_all c img d i s)"
proof (induction c img d i s rule: output_all.induct)
  case (1 c img d i s)
  show ?case by (subst output_all.simps) (auto intro!: ends 1 simp: output_bmp_def)
qed

text \<open>The sectors that no search has visited.\<close>

definition fresh_sectors :: "recovery \<Rightarrow> int set" where
  "fresh_sectors s = {k. 0 \<le> k \<and> k < VISIT_SIZE \<and> \<not> sector_visit s k}"

lemma finite_fresh [simp]: "finite (fresh_sectors s)"
  by (rule finite_subset [of _ "{0..VISIT_SIZE}"]) (auto simp: fresh_sectors_def)

lemma card_fresh: "card (fresh_sectors s) < DEEP_FUEL"
proof -
  have "fresh_sectors s \<subseteq> {0..<VISIT_SIZE}" by (auto simp: fresh_sectors_def)
  then have "card (fresh_sectors s) \<le> card {0..<VISIT_SIZE}" by (intro card_mono) simp_all
  then show ?thesis by (simp add: VISIT_SIZE_def DEEP_FUEL_def)
qed

lemma set_file_visit: "set_file k g s = Inr s' \<Longrightarrow> sector_visit s' = sector_visit s \<and> fat32 s' = fat32 s"
  by (auto simp: set_file_def res_iff)

lemma push_name_visit: "push_name img offset s = Inr s' \<Longrightarrow> sector_visit s' = sector_visit s \<and> fat32 s' = fat32 s"
  by (auto simp: push_name_def res_iff)

lemma finish_file_visit: "finish_file img offset k s = Inr s' \<Longrightarrow> sector_visit s' = sector_visit s \<and> fat32 s' = fat32 s"
  unfolding finish_file_def Let_def bindE_Inr_iff guardE_Inr_iff
  by (elim exE conjE) (auto split: if_splits simp: res_iff dest!: set_file_visit)

lemma read_name_position_visit:
  "read_name_position img offset s = Inr s' \<Longrightarrow> sector_visit s' = sector_visit s \<and> fat32 s' = fat32 s"
  unfolding read_name_position_def read_name_position_do_def Let_def
  by (auto simp: bindE_Inr_iff split: if_splits dest!: push_name_visit finish_file_visit)

lemma scan_sector_visit: "scan_sector img offset i n s = Inr s' \<Longrightarrow> sector_visit s' = sector_visit s \<and> fat32 s' = fat32 s"
proof (induction img offset i n s rule: scan_sector.induct)
  case (1 img offset i n s)
  show ?case
  proof (cases "i < n")
    case True
    then obtain s1 where s1: "read_name_position img (offset + i) s = Inr s1" "scan_sector img offset (i + 0x20) n s1 = Inr s'"
      using "1.prems" by (auto simp: scan_sector.simps [of img offset i n s] res_iff)
    show ?thesis using "1.IH" [OF True s1(1,2)] read_name_position_visit [OF s1(1)] by simp
  qed (use "1.prems" in \<open>simp add: scan_sector.simps [of img offset i n s]\<close>)
qed

lemma search_visits:
  assumes "search_bmp_name_position img offset k s = Inr (cnt, s')" and "cnt \<noteq> 0"
  shows "card (fresh_sectors s') < card (fresh_sectors s)"
proof -
  define m where "m = k mod 2 ^ 16"
  have m: "0 \<le> m" by (simp add: m_def)
  have "\<not> 512 \<le> tot_file s" "m < VISIT_SIZE" "\<not> sector_visit s m"
    and "bindE (scan_sector img offset 0 (sector_size (fat32 s)) (s\<lparr>sector_visit := (sector_visit s)(m := True)\<rparr>)) (\<lambda>s'. Inr (tot_file s' - tot_file s, s')) = Inr (cnt, s')"
    using assms unfolding search_bmp_name_position_def Let_def m_def [symmetric] by (auto simp: guardE_def split: if_splits)
  then have v: "sector_visit s' = (sector_visit s)(m := True)" and n: "\<not> sector_visit s m" "m < VISIT_SIZE"
    by (auto simp: res_iff dest!: scan_sector_visit)
  have "fresh_sectors s' \<subset> fresh_sectors s" using v n m by (auto simp: fresh_sectors_def)
  then show ?thesis by (rule psubset_card_mono [OF finite_fresh])
qed

lemma deep_search_visits:
  assumes "deep_search_bmp_name_position img offset s = Inr (cnt, s')" and "cnt \<noteq> 0"
  shows "card (fresh_sectors s') < card (fresh_sectors s)"
proof -
  obtain s1 k p where c: "search_bmp_name_position img p k s1 = Inr (cnt, s')" and v: "sector_visit s1 = sector_visit s"
    using assms by (auto simp: deep_search_bmp_name_position_def Let_def res_iff split: if_splits dest!: set_file_visit)
  have "fresh_sectors s1 = fresh_sectors s" using v by (simp add: fresh_sectors_def)
  then show ?thesis using search_visits [OF c assms(2)] by simp
qed

lemma deep_loop_ends: "card (fresh_sectors s) < fuel \<Longrightarrow> ends_ok (deep_loop fuel img offset s)"
proof (induction fuel arbitrary: s)
  case (Suc fuel)
  show ?case using deep_search_visits [of img offset s] Suc
    by (auto intro!: ends Suc.IH)
qed simp

lemma deep_loop_more: "ends_ok (deep_loop fuel img offset s) \<Longrightarrow> deep_loop (fuel + n) img offset s = deep_loop fuel img offset s"
proof (induction fuel arbitrary: s)
  case (Suc fuel)
  show ?case
  proof (cases "deep_search_bmp_name_position img offset s")
    case (Inr x)
    then show ?thesis using Suc by (cases x) (auto split: if_splits)
  qed simp
qed simp

lemma read_num_small:
  assumes "read_num img p 2 = Inr v"
  shows "0 \<le> v \<and> v < 65536"
proof -
  obtain a b :: u8 where v: "v = wrap32 (wrap32 (wrap32 (wrap32 0 + uint a) * 256) + uint b)"
    using assms by (auto simp: read_num_def numeral_2_eq_2 res_iff)
  have "0 \<le> uint a" "uint a < 256" "0 \<le> uint b" "uint b < 256" using uint_lt2p [of a] uint_lt2p [of b] by simp_all
  then show ?thesis unfolding v wrap32_def by simp
qed

lemma find_fat_diverges:
  assumes "0 \<le> p"
  shows "find_fat img n p = Inl Diverge \<longleftrightarrow> n \<le> 0 \<and> p < IMG_SIZE \<and> img_match img p [0xf8, 0xff, 0xff, 0x0f] = Inr False"
  using assms
proof (induction img n p rule: find_fat.induct)
  case (1 img n p)
  have m: "img_match img p [0xf8, 0xff, 0xff, 0x0f] \<noteq> Inl Diverge" using img_match_ends [of img p] unfolding ends_ok_def by blast
  show ?case
  proof (cases "img_match img p [0xf8, 0xff, 0xff, 0x0f]")
    case (Inl e)
    then show ?thesis using m by (subst find_fat.simps) simp
  next
    case (Inr b)
    then show ?thesis using "1.IH" [OF _ Inr] "1.prems" by (subst find_fat.simps) auto
  qed
qed

text \<open>
  C29: The search behind the last file ends within as many rounds as there are sectors, and the whole program runs for ever on no image except those whose sector
  size is zero and whose allocation table does not begin the image; that case is endless.
\<close>

theorem frecov_ends:
  "deep_loop DEEP_FUEL img offset s \<noteq> Inl Diverge \<and> deep_loop (DEEP_FUEL + n) img offset s = deep_loop DEEP_FUEL img offset s \<and>
   (frecov_main can_open img = Inl Diverge \<longleftrightarrow>
      (\<exists>f. read_fat32_info img = Inr f \<and> sector_size f = 0 \<and> img_match img 0 [0xf8, 0xff, 0xff, 0x0f] = Inr False))"
proof -
  have d: "ends_ok (deep_loop DEEP_FUEL img offset s)" for offset s by (rule deep_loop_ends [OF card_fresh])
  have "frecov_main can_open img = Inl Diverge \<longleftrightarrow> (\<exists>f. read_fat32_info img = Inr f \<and> find_fat img (sector_size f) 0 = Inl Diverge)"
  proof (cases "read_fat32_info img")
    case (Inl e)
    then show ?thesis using read_fat32_info_ends [of img] by (simp add: frecov_main_def)
  next
    case (Inr f)
    show ?thesis
    proof (cases "find_fat img (sector_size f) 0")
      case (Inl e)
      then show ?thesis using Inr by (simp add: frecov_main_def)
    next
      case (Inr b)
      have "ends_ok (frecov_main can_open img)"
        unfolding frecov_main_def Let_def \<open>read_fat32_info img = Inr f\<close> bindE_simps Inr by (intro ends d) simp_all
      then show ?thesis using Inr \<open>read_fat32_info img = Inr f\<close> by (simp add: ends_ok_def)
    qed
  qed
  moreover have "find_fat img (sector_size f) 0 = Inl Diverge \<longleftrightarrow> sector_size f = 0 \<and> img_match img 0 [0xf8, 0xff, 0xff, 0x0f] = Inr False"
    if "read_fat32_info img = Inr f" for f
  proof -
    have "0 \<le> sector_size f" using that by (auto simp: read_fat32_info_def bindE_Inr_iff dest: read_num_small)
    then show ?thesis using find_fat_diverges [of 0 img "sector_size f"] by (auto simp: IMG_SIZE_def)
  qed
  ultimately show ?thesis using d [of offset s] deep_loop_more [OF d] by (auto simp: ends_ok_def)
qed

end
