(* ===== verification/Frecov_Records.thy ===== *)
theory Frecov_Records
  imports Frecov_Correct
begin

text \<open>
  Long directory records as the file system writes them, and their reading: a sector of records is read back into the files
  that were encoded, in order, whatever records of other kinds stand between them.
\<close>

section \<open>Bytes in the image\<close>

definition img_at :: "image \<Rightarrow> int \<Rightarrow> u8 list \<Rightarrow> bool" where
  "img_at img off bs \<longleftrightarrow> 0 \<le> off \<and> off + int (length bs) \<le> IMG_SIZE \<and> (\<forall>j<length bs. img (off + int j) = bs ! j)"

lemma img_at_append: "img_at img off (xs @ ys) \<longleftrightarrow> img_at img off xs \<and> img_at img (off + int (length xs)) ys"
proof
  assume a: "img_at img off (xs @ ys)"
  have "img (off + int j) = xs ! j" if "j < length xs" for j
    using a that spec [of _ j] by (auto simp: img_at_def nth_append)
  moreover have "img (off + int (length xs) + int j) = ys ! j" if "j < length ys" for j
  proof -
    have "img (off + int (length xs + j)) = (xs @ ys) ! (length xs + j)" using a that by (simp only: img_at_def length_append)
    then show ?thesis by (simp add: add.assoc)
  qed
  ultimately show "img_at img off xs \<and> img_at img (off + int (length xs)) ys" using a by (simp add: img_at_def)
next
  assume a: "img_at img off xs \<and> img_at img (off + int (length xs)) ys"
  have "img (off + int j) = (xs @ ys) ! j" if jl: "j < length (xs @ ys)" for j
  proof (cases "j < length xs")
    case False
    then obtain k where k: "j = length xs + k" "k < length ys" using jl le_Suc_ex [of "length xs" j] by auto
    then have "img (off + int (length xs) + int k) = ys ! k" using a by (simp add: img_at_def)
    then show ?thesis using k by (simp add: nth_append add.assoc)
  qed (use a in \<open>simp add: img_at_def nth_append\<close>)
  then show "img_at img off (xs @ ys)" using a by (simp add: img_at_def)
qed

lemma img_at_Cons: "img_at img off (b # bs) \<longleftrightarrow> img_rd img off = Inr b \<and> img_at img (off + 1) bs"
proof -
  have "img_at img off [b] \<longleftrightarrow> img_rd img off = Inr b" by (auto simp: img_at_def img_rd_def)
  then show ?thesis using img_at_append [of img off "[b]" bs] by simp
qed

lemma img_at_rd: "img_at img off bs \<Longrightarrow> j < length bs \<Longrightarrow> img_rd img (off + int j) = Inr (bs ! j)"
  by (simp add: img_at_def img_rd_def)

section \<open>Numbers\<close>

definition le_bytes :: "nat \<Rightarrow> int \<Rightarrow> u8 list" where
  "le_bytes n v = map (\<lambda>i. word_of_int (v div 256 ^ i)) [0..<n]"

lemma le_bytes_length [simp]: "length (le_bytes n v) = n"
  by (simp add: le_bytes_def)

lemma wrap32_id: "0 \<le> i \<Longrightarrow> i < 2 ^ 31 \<Longrightarrow> wrap32 i = i"
  by (simp add: wrap32_def)

lemma read_num_loop_le:
  "img_at img p (le_bytes n v) \<Longrightarrow> 0 \<le> ret \<Longrightarrow> 0 \<le> v \<Longrightarrow> ret * 256 ^ n + v mod 256 ^ n < 2 ^ 31 \<Longrightarrow>
   read_num_loop img p n ret = Inr (ret * 256 ^ n + v mod 256 ^ n)"
proof (induction n arbitrary: ret)
  case (Suc n)
  let ?b = "v div 256 ^ n mod 256"
  have e: "ret * 256 ^ Suc n + v mod 256 ^ Suc n = (ret * 256 + ?b) * 256 ^ n + v mod 256 ^ n"
    using zmod_zmult2_eq [of 256 v "256 ^ n"] by (simp add: algebra_simps)
  have b: "0 \<le> ?b" "?b < 256" "0 \<le> v mod 256 ^ n" by simp_all
  have pos: "(1 :: int) \<le> 256 ^ n" by simp
  have "(ret * 256 + ?b) * 1 \<le> (ret * 256 + ?b) * 256 ^ n" by (rule mult_left_mono [OF pos]) (use Suc.prems b in simp)
  moreover have "(ret * 256 + ?b) * 256 ^ n < 2 ^ 31" using Suc.prems(4) b(3) unfolding e by (meson le_add_same_cancel1 order_le_less_trans)
  ultimately have lt: "ret * 256 + ?b < 2 ^ 31" unfolding mult_1_right by (rule order_le_less_trans)
  have "wrap32 (ret * 256) = ret * 256" by (rule wrap32_id) (use Suc.prems(2) b lt in auto)
  moreover have "wrap32 (ret * 256 + ?b) = ret * 256 + ?b" by (rule wrap32_id) (use Suc.prems(2) b lt in auto)
  moreover have "le_bytes (Suc n) v = le_bytes n v @ [word_of_int (v div 256 ^ n)]" by (simp add: le_bytes_def)
  then have "img_at img p (le_bytes n v)" "img_rd img (p + int n) = Inr (word_of_int (v div 256 ^ n))"
    using Suc.prems(1) by (simp_all add: img_at_append img_at_Cons)
  moreover have "uint (word_of_int (v div 256 ^ n) :: u8) = ?b" by (simp add: uint_word_of_int)
  ultimately show ?case using Suc.IH [of "ret * 256 + ?b"] Suc.prems e b by simp
qed simp

lemma read_num_le:
  assumes "img_at img p (le_bytes n v)" and "0 \<le> v" and "v < 256 ^ n" and "v < 2 ^ 31"
  shows "read_num img p n = Inr v"
  using read_num_loop_le [OF assms(1), of 0] assms by (simp add: read_num_def)

section \<open>Records\<close>

definition unicode :: "u8 list \<Rightarrow> u8 list" where
  "unicode bs = concat (map (\<lambda>b. [b, if b = 0xff then 0xff else 0]) bs)"

definition long_bytes :: "u8 \<Rightarrow> u8 \<Rightarrow> u8 list \<Rightarrow> u8 list" where
  "long_bytes seq chk row =
     [seq] @ unicode (take 5 row) @ [0x0f, 0, chk] @ unicode (take 6 (drop 5 row)) @ [0, 0] @ unicode (drop 11 row)"

text \<open>The pieces of a name, and a piece with its terminator and filler.\<close>

function name_chunks :: "u8 list \<Rightarrow> u8 list list" where
  "name_chunks name = (if length name \<le> 13 then [name] else take 13 name # name_chunks (drop 13 name))"
  by pat_completeness auto
termination
  by (relation "measure length") auto

declare name_chunks.simps [simp del]

definition name_row :: "u8 list \<Rightarrow> u8 list" where
  "name_row c = take 13 (c @ [0] @ replicate 12 0xff)"

definition seq_byte :: "nat \<Rightarrow> nat \<Rightarrow> u8" where
  "seq_byte n i = (if Suc i = n then 0x40 + word_of_nat (Suc i) else word_of_nat (Suc i))"

text \<open>The record of the last piece comes first.\<close>

definition long_records :: "u8 \<Rightarrow> u8 list \<Rightarrow> u8 list list" where
  "long_records chk name =
     (let cs = name_chunks name; n = length cs in rev (map (\<lambda>i. long_bytes (seq_byte n i) chk (name_row (cs ! i))) [0..<n]))"

record dirfile =
  d_name :: "u8 list"
  d_pos :: int
  d_size :: int
  d_chk :: u8
  d_short :: "u8 list"
  d_attr :: u8
  d_times :: "u8 list"
  d_more :: "u8 list"

definition short_bytes :: "dirfile \<Rightarrow> u8 list" where
  "short_bytes d = d_short d @ [d_attr d] @ d_times d @ le_bytes 2 (d_pos d div 2 ^ 16) @ d_more d @
     le_bytes 2 (d_pos d mod 2 ^ 16) @ le_bytes 4 (d_size d)"

datatype ditem = File dirfile | Other "u8 list"

fun records :: "ditem \<Rightarrow> u8 list list" where
  "records (File d) = long_records (d_chk d) (d_name d) @ [short_bytes d]"
| "records (Other bs) = [bs]"

definition sector_bytes :: "ditem list \<Rightarrow> u8 list" where
  "sector_bytes items = concat (concat (map records items))"

fun item_ok :: "ditem \<Rightarrow> bool" where
  "item_ok (File d) \<longleftrightarrow>
     0 \<notin> set (d_name d) \<and> length (d_name d) < FILENAME_SIZE \<and> 0 \<le> d_pos d \<and> d_pos d < 2 ^ 28 \<and> 0 \<le> d_size d \<and> d_size d < 2 ^ 31 \<and>
     length (d_short d) = 11 \<and> d_attr d \<noteq> 0x0f \<and> length (d_times d) = 8 \<and> length (d_more d) = 4"
| "item_ok (Other bs) \<longleftrightarrow> length bs = 32 \<and> (bs ! 0x0b \<noteq> 0x0f \<or> bs ! 0x0c \<noteq> 0 \<or> \<not> is_valid (uint (bs ! 0)))"

text \<open>What a record of a file becomes.\<close>

definition as_file :: "int \<Rightarrow> dirfile \<Rightarrow> myFILE \<Rightarrow> myFILE" where
  "as_file ssize d f = f\<lparr>filename := d_name d, position := d_pos d, filesize := d_size d, next_sector := d_pos d + d_size d div ssize + 1\<rparr>"

fun files_in :: "ditem list \<Rightarrow> dirfile list" where
  "files_in [] = []"
| "files_in (File d # items) = d # files_in items"
| "files_in (Other bs # items) = files_in items"

text \<open>The search keeps the files that end in the first \<^verbatim>\<open>0xffff\<close> sectors.\<close>

definition in_reach :: "int \<Rightarrow> dirfile \<Rightarrow> bool" where
  "in_reach ssize d \<longleftrightarrow> d_pos d + d_size d div ssize + 1 \<le> 0xffff"

section \<open>One record\<close>

lemma read_unicode_at: "img_at img p (unicode bs) \<Longrightarrow> read_unicode img p (length bs) = Inr bs"
  by (induction bs arbitrary: p) (simp_all add: unicode_def img_at_Cons add.assoc)

lemma unicode_length [simp]: "length (unicode bs) = 2 * length bs"
  by (induction bs) (simp_all add: unicode_def)

lemma long_bytes_length [simp]: "length row = 13 \<Longrightarrow> length (long_bytes seq chk row) = 32"
  by (simp add: long_bytes_def)

lemma long_record_at:
  assumes "img_at img p (long_bytes seq chk row)" and "length row = 13" and "is_valid (uint seq)"
  shows "long_record img p = Inr True" and "top s < BUF_ROWS \<Longrightarrow> push_name img p s = Inr (s\<lparr>buf := (buf s)(top s := row), top := Suc (top s)\<rparr>)"
proof -
  note at = assms(1) [unfolded long_bytes_def img_at_append]
  have "img_at img (p + 1) (unicode (take 5 row))" "img_rd img (p + 0x0b) = Inr 0x0f" "img_rd img (p + 0x0c) = Inr 0"
    "img_at img (p + 0x0e) (unicode (take 6 (drop 5 row)))" "img_at img (p + 0x1c) (unicode (drop 11 row))" "img_rd img p = Inr seq"
    using at assms(2) by (simp_all add: img_at_Cons add.assoc)
  note facts = this
  have n: "read_num img p 1 = Inr (uint seq)"
  proof -
    have "0 \<le> uint seq" "uint seq < 256" using uint_lt2p [of seq] by simp_all
    then show ?thesis using facts(6) by (simp add: read_num_def wrap32_def)
  qed
  show "long_record img p = Inr True" using facts n assms(3) by (simp add: long_record_def)
  have "read_unicode img (p + 1) 5 = Inr (take 5 row)" "read_unicode img (p + 0x0e) 6 = Inr (take 6 (drop 5 row))"
    "read_unicode img (p + 0x1c) 2 = Inr (drop 11 row)"
    using read_unicode_at [OF facts(1)] read_unicode_at [OF facts(4)] read_unicode_at [OF facts(5)] assms(2) by simp_all
  moreover have "take 5 row @ take 6 (drop 5 row) @ drop 11 row = row"
    using append_take_drop_id [of 6 "drop 5 row"] by (simp add: drop_drop)
  ultimately show "push_name img p s = Inr (s\<lparr>buf := (buf s)(top s := row), top := Suc (top s)\<rparr>)" if "top s < BUF_ROWS"
    using that by (simp add: push_name_def)
qed

lemma other_record_at:
  assumes "img_at img p bs" and "item_ok (Other bs)"
  shows "long_record img p = Inr False"
proof -
  have r: "img_rd img p = Inr (bs ! 0)" "img_rd img (p + 0x0b) = Inr (bs ! 0x0b)" "img_rd img (p + 0x0c) = Inr (bs ! 0x0c)"
    using img_at_rd [OF assms(1), of 0] img_at_rd [OF assms(1), of 11] img_at_rd [OF assms(1), of 12] assms(2) by (cases bs; simp)+
  have "0 \<le> uint (bs ! 0)" "uint (bs ! 0) < 256" using uint_lt2p [of "bs ! 0"] by simp_all
  then have "read_num img p 1 = Inr (uint (bs ! 0))" using r(1) by (simp add: read_num_def wrap32_def)
  then show ?thesis using r assms(2) by (auto simp: long_record_def)
qed

section \<open>Records in sequence\<close>

fun scan_recs :: "image \<Rightarrow> int \<Rightarrow> nat \<Rightarrow> recovery \<Rightarrow> recovery res" where
  "scan_recs img off 0 s = Inr s"
| "scan_recs img off (Suc n) s = bindE (read_name_position img off s) (scan_recs img (off + 32) n)"

lemma scan_sector_recs: "scan_sector img off i (i + 32 * int n) s = scan_recs img (off + i) n s"
proof (induction n arbitrary: i s)
  case (Suc n)
  have "scan_sector img off (i + 32) (i + 32 * int (Suc n)) = scan_recs img (off + i + 32) n"
    using Suc.IH [of "i + 32"] by (simp add: fun_eq_iff algebra_simps)
  then show ?case by (subst scan_sector.simps) (simp add: add.assoc)
qed (simp add: scan_sector.simps)

lemma scan_recs_add: "scan_recs img off (m + n) s = bindE (scan_recs img off m s) (scan_recs img (off + 32 * int m) n)"
proof (induction m arbitrary: off s)
  case (Suc m)
  have "scan_recs img off (Suc m + n) s = bindE (read_name_position img off s) (\<lambda>s. bindE (scan_recs img (off + 32) m s) (scan_recs img (off + 32 + 32 * int m) n))"
    using Suc.IH by (auto intro: bindE_cong)
  then show ?case by (simp add: bindE_assoc algebra_simps)
qed simp

text \<open>Long records fill the rows.\<close>

lemma scan_long:
  assumes "img_at img off (concat (map (\<lambda>(q, row). long_bytes q chk row) rs))" and "\<forall>(q, row)\<in>set rs. is_valid (uint q) \<and> length row = 13"
    and "top s + length rs \<le> BUF_ROWS" and "0 < top s"
  shows "\<exists>b. scan_recs img off (length rs) s = Inr (s\<lparr>buf := b, top := top s + length rs\<rparr>) \<and>
    (\<forall>i<top s. b i = buf s i) \<and> (\<forall>i<length rs. b (top s + i) = snd (rs ! i))"
  using assms
proof (induction rs arbitrary: off s)
  case (Cons r rs)
  obtain q row where r: "r = (q, row)" by (cases r)
  have row: "is_valid (uint q)" "length row = 13" using Cons.prems(2) r by auto
  have at: "img_at img off (long_bytes q chk row)" "img_at img (off + 32) (concat (map (\<lambda>(q, row). long_bytes q chk row) rs))"
    using Cons.prems(1) row by (simp_all add: r img_at_append)
  let ?s = "s\<lparr>buf := (buf s)(top s := row), top := Suc (top s)\<rparr>"
  have step: "read_name_position img off s = Inr ?s"
    using long_record_at [OF at(1) row(2,1)] Cons.prems(3,4) by (simp add: read_name_position_def read_name_position_do_def)
  obtain b where b: "scan_recs img (off + 32) (length rs) ?s = Inr (?s\<lparr>buf := b, top := top ?s + length rs\<rparr>)"
    "\<forall>i<Suc (top s). b i = ((buf s)(top s := row)) i" "\<forall>i<length rs. b (Suc (top s) + i) = snd (rs ! i)"
    using Cons.IH [OF at(2), of ?s] Cons.prems(2,3) by auto
  have "b (top s + i) = snd ((r # rs) ! i)" if "i < length (r # rs)" for i
  proof (cases i)
    case 0
    then show ?thesis using b(2) r by simp
  next
    case (Suc j)
    then show ?thesis using b(3) that by simp
  qed
  moreover have "b i = buf s i" if "i < top s" for i using b(2) that by simp
  ultimately show ?case using step b(1) by (intro exI [of _ b]) simp
next
  case Nil
  then show ?case by (intro exI [of _ "buf s"]) simp
qed

lemma scan_long_first:
  assumes "img_at img off (concat (map (\<lambda>(q, row). long_bytes q chk row) rs))" and "\<forall>(q, row)\<in>set rs. is_valid (uint q) \<and> length row = 13"
    and "length rs \<le> BUF_ROWS" and "rs \<noteq> []" and "top s = 0"
  shows "\<exists>b. scan_recs img off (length rs) s = Inr (s\<lparr>tot_file := tot_file s + 1, buf := b, top := length rs\<rparr>) \<and> (\<forall>i<length rs. b i = snd (rs ! i))"
proof -
  obtain q row rs' where rs: "rs = (q, row) # rs'" using assms(4) by (cases rs) auto
  have row: "is_valid (uint q)" "length row = 13" using assms(2) rs by auto
  have at: "img_at img off (long_bytes q chk row)" "img_at img (off + 32) (concat (map (\<lambda>(q, row). long_bytes q chk row) rs'))"
    using assms(1) row by (simp_all add: rs img_at_append)
  let ?s = "s\<lparr>tot_file := tot_file s + 1, buf := (buf s)(0 := row), top := Suc 0\<rparr>"
  have step: "read_name_position img off s = Inr ?s"
    using long_record_at(1) [OF at(1) row(2,1)] long_record_at(2) [OF at(1) row(2,1), of "s\<lparr>tot_file := tot_file s + 1\<rparr>"] assms(3,5) rs
    by (simp add: read_name_position_def read_name_position_do_def Let_def)
  obtain b where b: "scan_recs img (off + 32) (length rs') ?s = Inr (?s\<lparr>buf := b, top := Suc 0 + length rs'\<rparr>)"
    "b 0 = row" "\<forall>i<length rs'. b (Suc i) = snd (rs' ! i)"
    using scan_long [OF at(2), of ?s] assms(2,3) rs by auto
  have "b i = snd (rs ! i)" if "i < length rs" for i using b(2,3) that rs by (cases i) auto
  then show ?thesis using step b(1) rs by (intro exI [of _ b]) simp
qed

section \<open>Names\<close>

lemma name_chunks_concat: "concat (name_chunks name) = name"
proof (induction name rule: name_chunks.induct)
  case (1 name)
  then show ?case by (subst name_chunks.simps) simp
qed

lemma name_chunks_small: "c \<in> set (name_chunks name) \<Longrightarrow> length c \<le> 13"
proof (induction name rule: name_chunks.induct)
  case (1 name)
  then show ?case by (auto simp: name_chunks.simps [of name] split: if_splits)
qed

lemma name_chunks_count: "name_chunks name \<noteq> [] \<and> 13 * (length (name_chunks name) - 1) \<le> length name"
proof (induction name rule: name_chunks.induct)
  case (1 name)
  show ?case
  proof (cases "length name \<le> 13")
    case False
    then have "name_chunks name = take 13 name # name_chunks (drop 13 name)" by (simp add: name_chunks.simps [of name])
    then show ?thesis using 1 [OF False] False by (cases "name_chunks (drop 13 name)") auto
  qed (simp add: name_chunks.simps [of name])
qed

lemma row_cut: "0 \<notin> set c \<Longrightarrow> length c \<le> 13 \<Longrightarrow> takeWhile (\<lambda>b. b \<noteq> 0) (name_row c) = c"
proof -
  assume c: "0 \<notin> set c" "length c \<le> 13"
  have t: "takeWhile (\<lambda>b. b \<noteq> 0) (c @ 0 # zs) = c" for zs using c(1) by (subst takeWhile_append2) auto
  show ?thesis
  proof (cases "length c = 13")
    case True
    then show ?thesis using c(1) by (auto simp: name_row_def takeWhile_eq_all_conv)
  next
    case False
    then obtain m where "13 - length c = Suc m" using c(2) by (cases "13 - length c") auto
    then show ?thesis using t c(2) by (simp add: name_row_def)
  qed
qed

lemma row_length [simp]: "length (name_row c) = 13"
  by (simp add: name_row_def)

lemma seq_valid: "n \<le> 20 \<Longrightarrow> i < n \<Longrightarrow> is_valid (uint (seq_byte n i))"
proof -
  have "list_all (\<lambda>i. is_valid (uint (word_of_nat (Suc i) :: u8)) \<and> is_valid (uint (0x40 + word_of_nat (Suc i) :: u8))) [0..<20]"
    by code_simp
  then have "\<forall>i\<in>{0..<20}. is_valid (uint (word_of_nat (Suc i) :: u8)) \<and> is_valid (uint (0x40 + word_of_nat (Suc i) :: u8))"
    unfolding list_all_iff set_upt .
  moreover assume "n \<le> 20" "i < n"
  then have "i \<in> {0..<20}" by simp
  ultimately show ?thesis unfolding seq_byte_def by metis
qed

lemma pop_names_rows:
  "length (name @ concat (map (\<lambda>i. takeWhile (\<lambda>b. b \<noteq> 0) (rows i)) (rev [0..<n]))) < FILENAME_SIZE \<Longrightarrow>
   pop_names n rows name = Inr (name @ concat (map (\<lambda>i. takeWhile (\<lambda>b. b \<noteq> 0) (rows i)) (rev [0..<n])))"
  by (induction n arbitrary: name) (simp_all add: Let_def)

text \<open>The rows in the order of the records, with their sequence numbers.\<close>

definition name_rows :: "u8 list \<Rightarrow> (u8 \<times> u8 list) list" where
  "name_rows name = (let cs = name_chunks name; n = length cs in rev (map (\<lambda>i. (seq_byte n i, name_row (cs ! i))) [0..<n]))"

lemma long_records_rows: "long_records chk name = map (\<lambda>(q, row). long_bytes q chk row) (name_rows name)"
  by (simp add: long_records_def name_rows_def Let_def rev_map comp_def)

lemma name_rows_ok:
  assumes "length name < FILENAME_SIZE"
  shows "\<forall>(q, row)\<in>set (name_rows name). is_valid (uint q) \<and> length row = 13" and "length (name_rows name) = length (name_chunks name)"
    and "length (name_chunks name) \<le> 20" and "name_rows name \<noteq> []"
proof -
  show n: "length (name_chunks name) \<le> 20" using name_chunks_count [of name] assms by (auto simp: FILENAME_SIZE_def)
  show "length (name_rows name) = length (name_chunks name)" by (simp add: name_rows_def Let_def)
  then show "name_rows name \<noteq> []" using name_chunks_count [of name] by auto
  show "\<forall>(q, row)\<in>set (name_rows name). is_valid (uint q) \<and> length row = 13"
    using seq_valid [OF n] by (auto simp: name_rows_def Let_def)
qed

lemma pop_name:
  assumes "0 \<notin> set name" and "length name < FILENAME_SIZE" and "\<forall>i<length (name_rows name). rows i = snd (name_rows name ! i)"
  shows "pop_names (length (name_rows name)) rows [] = Inr name"
proof -
  let ?n = "length (name_chunks name)"
  have l: "length (name_rows name) = ?n" by (simp add: name_rows_def Let_def)
  have "rows i = name_row (name_chunks name ! (?n - Suc i))" if "i < ?n" for i
    using assms(3) that l by (simp add: name_rows_def Let_def rev_nth)
  moreover have "takeWhile (\<lambda>b. b \<noteq> 0) (name_row c) = c" if "c \<in> set (name_chunks name)" for c
    using row_cut [of c] name_chunks_small [OF that] assms(1) name_chunks_concat [of name] that by (metis UN_I set_concat)
  ultimately have r: "takeWhile (\<lambda>b. b \<noteq> 0) (rows i) = name_chunks name ! (?n - Suc i)" if "i < ?n" for i
    using that by simp
  have "map (\<lambda>i. takeWhile (\<lambda>b. b \<noteq> 0) (rows i)) (rev [0..<?n]) = name_chunks name"
    by (rule nth_equalityI) (auto simp: rev_nth r)
  then show ?thesis using pop_names_rows [of "[]" rows ?n] assms(2) name_chunks_concat [of name] l by simp
qed

section \<open>A file\<close>

lemma short_record_at:
  assumes at: "img_at img p (short_bytes d)" and ok: "item_ok (File d)" and ss: "32 \<le> ss" "sector_size (fat32 s) = ss"
    and k: "0 \<le> k" "k < FILE_MAX" and nm: "filename (files s k) = []" "pop_names (top s) (buf s) [] = Inr (d_name d)"
  shows "long_record img p = Inr False"
    and "finish_file img p k s =
      (if in_reach ss d then Inr (s\<lparr>top := 0, files := (files s)(k := as_file ss d (files s k))\<rparr>)
       else Inr (s\<lparr>top := 0, files := (files s)(k := (as_file ss d (files s k))\<lparr>filename := []\<rparr>), tot_file := tot_file s - 1\<rparr>))"
proof -
  have len: "length (d_short d) = 11" "length (d_times d) = 8" "length (d_more d) = 4" using ok by simp_all
  note parts = at [unfolded short_bytes_def img_at_append]
  have "img_rd img (p + 0x0b) = Inr (d_attr d)" using parts len by (simp add: img_at_Cons)
  then show "long_record img p = Inr False" using ok by (simp add: long_record_def)
  define hi lo where hi: "hi = d_pos d div 2 ^ 16" and lo: "lo = d_pos d mod 2 ^ 16"
  have q: "0 \<le> d_size d div ss" using ok ss by (simp add: pos_imp_zdiv_nonneg_iff)
  have "d_size d div ss \<le> d_size d div 32" using ok ss by (intro zdiv_mono2) auto
  then have q2: "d_size d div ss \<le> 2 ^ 26" using ok by simp linarith
  have pos: "0 \<le> d_pos d" "d_pos d < 2 ^ 28" and hl: "0 \<le> hi" "hi < 2 ^ 12" "0 \<le> lo" "lo < 2 ^ 16" "hi * 2 ^ 16 + lo = d_pos d"
    using ok by (auto simp: hi lo pos_imp_zdiv_nonneg_iff)
  have p: "img_at img (p + 0x14) (le_bytes 2 hi)" "img_at img (p + 0x1a) (le_bytes 2 lo)" "img_at img (p + 0x1c) (le_bytes 4 (d_size d))"
    using parts len by (simp_all add: add.assoc hi lo)
  have n: "read_num img (p + 0x14) 2 = Inr hi" "read_num img (p + 0x1a) 2 = Inr lo" "read_num img (p + 0x1c) 4 = Inr (d_size d)"
    using read_num_le [OF p(1)] read_num_le [OF p(2)] read_num_le [OF p(3)] hl ok by simp_all
  have d: "d_size d sdiv ss = d_size d div ss" using ok ss by (cases "d_size d = 0") (simp_all add: signed_divide_int_def)
  have w: "wrap32 (wrap32 (hi * 65536) + lo) = d_pos d"
    "wrap32 (d_pos d + d_size d div ss) = d_pos d + d_size d div ss" "wrap32 (d_pos d + d_size d div ss + 1) = d_pos d + d_size d div ss + 1"
    using pos q q2 hl by (auto simp: wrap32_id)
  have m: "(d_pos d + d_size d div ss + 1) mod 4294967296 = d_pos d + d_size d div ss + 1" using pos q q2 by (intro mod_pos_pos_trivial) auto
  have nz: "ss \<noteq> 0" using ss by simp
  show "finish_file img p k s =
      (if in_reach ss d then Inr (s\<lparr>top := 0, files := (files s)(k := as_file ss d (files s k))\<rparr>)
       else Inr (s\<lparr>top := 0, files := (files s)(k := (as_file ss d (files s k))\<lparr>filename := []\<rparr>), tot_file := tot_file s - 1\<rparr>))"
    unfolding finish_file_def file_at_def using k nm
    by (simp add: n ss(2) d w m nz Let_def set_file_def file_at_def as_file_def in_reach_def not_le)
qed

lemma scan_file:
  assumes at: "img_at img off (concat (records (File d)))" and ok: "item_ok (File d)" and ss: "32 \<le> ss" "sector_size (fat32 s) = ss"
    and k: "0 \<le> tot_file s" "tot_file s < FILE_MAX" and nm: "filename (files s (tot_file s)) = []" and t: "top s = 0"
  shows "\<exists>b. scan_recs img off (length (records (File d))) s =
    (if in_reach ss d then Inr (s\<lparr>files := (files s)(tot_file s := as_file ss d (files s (tot_file s))), tot_file := tot_file s + 1, buf := b\<rparr>)
     else Inr (s\<lparr>files := (files s)(tot_file s := (as_file ss d (files s (tot_file s)))\<lparr>filename := []\<rparr>), buf := b\<rparr>))"
proof -
  let ?rs = "name_rows (d_name d)"
  have len: "length (d_name d) < FILENAME_SIZE" "0 \<notin> set (d_name d)" using ok by simp_all
  note rows = name_rows_ok [OF len(1)]
  have "map length (map (\<lambda>(q, row). long_bytes q (d_chk d) row) ?rs) = replicate (length ?rs) 32"
    using rows(1) by (intro nth_equalityI) (auto simp: split_beta dest: nth_mem)
  then have l: "length (concat (map (\<lambda>(q, row). long_bytes q (d_chk d) row) ?rs)) = 32 * length ?rs"
    by (simp add: length_concat sum_list_replicate)
  have a: "img_at img off (concat (map (\<lambda>(q, row). long_bytes q (d_chk d) row) ?rs))" "img_at img (off + 32 * int (length ?rs)) (short_bytes d)"
    using at l by (simp_all add: long_records_rows img_at_append)
  have bound: "length ?rs \<le> BUF_ROWS" using rows(2,3) by (simp add: BUF_ROWS_def)
  obtain b where b: "scan_recs img off (length ?rs) s = Inr (s\<lparr>tot_file := tot_file s + 1, buf := b, top := length ?rs\<rparr>)"
    "\<forall>i<length ?rs. b i = snd (?rs ! i)"
    using scan_long_first [OF a(1) rows(1) bound rows(4) t] by blast
  let ?s = "s\<lparr>tot_file := tot_file s + 1, buf := b, top := length ?rs\<rparr>"
  have "pop_names (top ?s) (buf ?s) [] = Inr (d_name d)" using pop_name [OF len(2,1) b(2)] by simp
  note fin = short_record_at [OF a(2) ok ss(1), of ?s "tot_file s", OF _ k _ this]
  have "read_name_position img (off + 32 * int (length ?rs)) ?s =
    (if in_reach ss d then Inr (?s\<lparr>top := 0, files := (files s)(tot_file s := as_file ss d (files s (tot_file s)))\<rparr>)
     else Inr (?s\<lparr>top := 0, files := (files s)(tot_file s := (as_file ss d (files s (tot_file s)))\<lparr>filename := []\<rparr>), tot_file := tot_file s\<rparr>))"
    using fin nm ss(2) rows(4) by (simp add: read_name_position_def read_name_position_do_def)
  moreover have "length (records (File d)) = length ?rs + 1" by (simp add: long_records_rows)
  ultimately show ?thesis using b(1) t scan_recs_add [of img off "length ?rs" 1 s] by (intro exI [of _ b]) simp
qed

lemma scan_other:
  assumes "img_at img off bs" and "item_ok (Other bs)" and "top s = 0"
  shows "scan_recs img off 1 s = Inr s"
  using other_record_at [OF assms(1,2)] assms(3) by (simp add: read_name_position_def read_name_position_do_def)

section \<open>A sector\<close>

text \<open>The table of files after the files of a sector were added behind the first \<open>n\<close>.\<close>

definition add_files :: "int \<Rightarrow> int \<Rightarrow> dirfile list \<Rightarrow> (int \<Rightarrow> myFILE) \<Rightarrow> int \<Rightarrow> myFILE" where
  "add_files ss n ds t = (\<lambda>k. if n \<le> k \<and> k < n + int (length ds) then as_file ss (ds ! nat (k - n)) (t k) else t k)"

lemma add_files_Cons: "add_files ss n (d # ds) t = add_files ss (n + 1) ds (t(n := as_file ss d (t n)))"
proof
  fix k
  have "nat (k - n) = Suc (nat (k - (n + 1)))" if "n < k" using that by simp
  then show "add_files ss n (d # ds) t k = add_files ss (n + 1) ds (t(n := as_file ss d (t n))) k"
    by (auto simp: add_files_def)
qed

lemma records_length: "item_ok i \<Longrightarrow> length (concat (records i)) = 32 * length (records i)"
proof (cases i)
  case (File d)
  assume ok: "item_ok i"
  have "length r = 32" if "r \<in> set (records i)" for r
    using that ok File name_rows_ok(1) [of "d_name d"] by (auto simp: long_records_rows short_bytes_def)
  then have "map length (records i) = replicate (length (records i)) 32" by (intro nth_equalityI) (auto dest: nth_mem)
  then show ?thesis by (simp add: length_concat sum_list_replicate)
qed simp

text \<open>
  The table that the records of a sector leave: the files in reach, in order, behind the first \<open>n\<close>.  The first free entry may hold the position of a file
  that was dropped, but no name.
\<close>

definition table_of :: "int \<Rightarrow> int \<Rightarrow> dirfile list \<Rightarrow> (int \<Rightarrow> myFILE) \<Rightarrow> (int \<Rightarrow> myFILE) \<Rightarrow> bool" where
  "table_of ss n ds t F \<longleftrightarrow> (\<forall>k. k \<noteq> n + int (length ds) \<longrightarrow> F k = add_files ss n ds t k) \<and>
     filename (F (n + int (length ds))) = [] \<and> visited (F (n + int (length ds))) = visited (t (n + int (length ds)))"

lemma table_of_Nil: "filename (t n) = [] \<Longrightarrow> table_of ss n [] t t"
  by (simp add: table_of_def add_files_def)

lemma table_of_Cons:
  "table_of ss (n + 1) ds (t(n := as_file ss d (t n))) F \<Longrightarrow> table_of ss n (d # ds) t F"
  by (simp add: table_of_def add_files_Cons algebra_simps)

lemma table_of_drop:
  assumes "table_of ss n ds (t(n := (as_file ss d (t n))\<lparr>filename := []\<rparr>)) F"
  shows "table_of ss n ds t F"
proof -
  have "as_file ss e ((as_file ss d f)\<lparr>filename := []\<rparr>) = as_file ss e f" for e f by (cases f) (simp add: as_file_def)
  then have "add_files ss n ds (t(n := (as_file ss d (t n))\<lparr>filename := []\<rparr>)) k = add_files ss n ds t k" if "k \<noteq> n + int (length ds)" for k
    using that by (cases "k = n") (auto simp: add_files_def)
  then show ?thesis using assms by (auto simp: table_of_def as_file_def split: if_splits)
qed

lemma scan_items:
  assumes "img_at img off (sector_bytes items)" and "\<forall>i\<in>set items. item_ok i" and "32 \<le> ss" and "sector_size (fat32 s) = ss"
    and "0 \<le> tot_file s" and "tot_file s + int (length (files_in items)) \<le> FILE_MAX" and "\<forall>k\<ge>tot_file s. filename (files s k) = []" and "top s = 0"
  shows "\<exists>b F. scan_recs img off (length (concat (map records items))) s =
      Inr (s\<lparr>files := F, tot_file := tot_file s + int (length (filter (in_reach ss) (files_in items))), buf := b\<rparr>) \<and>
    table_of ss (tot_file s) (filter (in_reach ss) (files_in items)) (files s) F"
  using assms
proof (induction items arbitrary: off s)
  case Nil
  then show ?case by (intro exI [of _ "buf s"] exI [of _ "files s"]) (simp add: table_of_Nil)
next
  case (Cons i items)
  have ok: "item_ok i" using Cons.prems(2) by simp
  let ?n = "length (records i)" and ?ds = "filter (in_reach ss) (files_in items)"
  have at: "img_at img off (concat (records i))" "img_at img (off + 32 * int ?n) (sector_bytes items)"
    using Cons.prems(1) records_length [OF ok] by (simp_all add: sector_bytes_def img_at_append)
  have split: "scan_recs img off (length (concat (map records (i # items)))) s =
    bindE (scan_recs img off ?n s) (scan_recs img (off + 32 * int ?n) (length (concat (map records items))))"
    by (simp add: scan_recs_add)
  show ?case
  proof (cases i)
    case (Other bs)
    have "scan_recs img off ?n s = Inr s" using scan_other [of img off bs s] at(1) ok Cons.prems(8) by (simp add: Other)
    then show ?thesis using Cons.IH [OF at(2), of s] Cons.prems split by (simp add: Other)
  next
    case (File d)
    let ?f = "as_file ss d (files s (tot_file s))"
    let ?n1 = "if in_reach ss d then tot_file s + 1 else tot_file s"
      and ?F = "(files s)(tot_file s := if in_reach ss d then ?f else ?f\<lparr>filename := []\<rparr>)"
    obtain b where b: "scan_recs img off ?n s = Inr (s\<lparr>files := ?F, tot_file := ?n1, buf := b\<rparr>)"
      using scan_file [of img off d ss s] at(1) ok Cons.prems(3-8) by (cases "in_reach ss d") (auto simp: File)
    let ?s = "s\<lparr>files := ?F, tot_file := ?n1, buf := b\<rparr>"
    have "\<exists>b F. scan_recs img (off + 32 * int ?n) (length (concat (map records items))) ?s =
        Inr (?s\<lparr>files := F, tot_file := tot_file ?s + int (length ?ds), buf := b\<rparr>) \<and> table_of ss (tot_file ?s) ?ds (files ?s) F"
      by (rule Cons.IH [OF at(2)]) (use Cons.prems File in auto)
    then obtain b' F where F: "scan_recs img (off + 32 * int ?n) (length (concat (map records items))) ?s =
        Inr (?s\<lparr>files := F, tot_file := ?n1 + int (length ?ds), buf := b'\<rparr>)" "table_of ss ?n1 ?ds ?F F" by auto
    have "table_of ss (tot_file s) (filter (in_reach ss) (files_in (i # items))) (files s) F"
      using F(2) table_of_Cons table_of_drop by (cases "in_reach ss d") (simp_all add: File)
    then show ?thesis using split b F(1) by (intro exI [of _ b'] exI [of _ F]) (simp add: File)
  qed
qed

text \<open>
  C28: A sector that holds the directory records of files with long names, between records of other kinds, is read back: the search reports the
  number of the files that end in the first \<^verbatim>\<open>0xffff\<close> sectors, and the table holds exactly these, with their names, positions, sizes and next sectors, in order, behind the files that
  were known before; the other files of the sector are dropped.  Positions have 28 bits, as in the file system, and sizes 31.
\<close>

theorem frecov_reads_directory:
  assumes "img_at img offset (sector_bytes items)" and "\<forall>i\<in>set items. item_ok i"
    and "int (length (sector_bytes items)) = sector_size (fat32 s)" and "items \<noteq> []"
    and "0 \<le> tot_file s" and "tot_file s < 512" and "tot_file s + int (length (files_in items)) \<le> FILE_MAX"
    and "\<forall>k\<ge>tot_file s. filename (files s k) = []" and "top s = 0"
    and "idx mod 2 ^ 16 < VISIT_SIZE" and "\<not> sector_visit s (idx mod 2 ^ 16)"
  shows "let ds = filter (in_reach (sector_size (fat32 s))) (files_in items) in
    \<exists>b F. search_bmp_name_position img offset idx s =
      Inr (int (length ds), s\<lparr>files := F, tot_file := tot_file s + int (length ds), buf := b, sector_visit := (sector_visit s)(idx mod 2 ^ 16 := True)\<rparr>) \<and>
    table_of (sector_size (fat32 s)) (tot_file s) ds (files s) F"
proof -
  let ?s = "s\<lparr>sector_visit := (sector_visit s)(idx mod 2 ^ 16 := True)\<rparr>" and ?n = "length (concat (map records items))"
    and ?ds = "filter (in_reach (sector_size (fat32 s))) (files_in items)"
  have n: "length (sector_bytes items) = 32 * ?n"
    using assms(2) records_length by (induction items) (auto simp: sector_bytes_def)
  have "records i \<noteq> []" for i by (cases i) simp_all
  then have "concat (map records items) \<noteq> []" using assms(4) by (cases items) auto
  then have "1 \<le> ?n" by (simp only: length_greater_0_conv [symmetric] Suc_le_eq One_nat_def)
  then have "32 * 1 \<le> 32 * ?n" by (rule mult_le_mono2)
  then have pos: "32 \<le> sector_size (fat32 s)" unfolding assms(3) [symmetric] n [symmetric] by simp
  obtain b F where F: "scan_recs img offset ?n ?s = Inr (?s\<lparr>files := F, tot_file := tot_file s + int (length ?ds), buf := b\<rparr>)"
    "table_of (sector_size (fat32 s)) (tot_file s) ?ds (files s) F"
    using scan_items [OF assms(1,2) pos, of ?s] assms(5-9) by auto
  moreover have "scan_sector img offset 0 (sector_size (fat32 s)) ?s = scan_recs img offset ?n ?s"
    using scan_sector_recs [of img offset 0 ?n ?s] assms(3) n by simp
  ultimately show ?thesis unfolding Let_def using assms(6,10,11) by (intro exI [of _ b] exI [of _ F]) (simp add: search_bmp_name_position_def Let_def)
qed

text \<open>A sector with an empty record, a file out of reach in two records, a file \<^verbatim>\<open>flower-2019-01.bmp\<close> in three, and ten empty records.\<close>

definition demo_fat :: FAT32 where
  "demo_fat = \<lparr>sector_size = 512, cluster_size = 1, DOS_sec_amount = 32, fat_amount = 2, sector_amount = 1000, hiden_amount = 0, fat_size = 4,
     DBR_sec_index = 6, volume_label = [], fat_type = []\<rparr>"

definition demo_file :: dirfile where
  "demo_file = \<lparr>d_name = map (\<lambda>c. word_of_nat (of_char c)) ''flower-2019-01.bmp'', d_pos = 7, d_size = 1500, d_chk = 9, d_short = replicate 11 0x41,
     d_attr = 0x20, d_times = replicate 8 1, d_more = replicate 4 2\<rparr>"

definition far_file :: dirfile where
  "far_file = demo_file\<lparr>d_name := map (\<lambda>c. word_of_nat (of_char c)) ''far.bmp'', d_pos := 0x12345\<rparr>"

definition demo_items :: "ditem list" where
  "demo_items = [Other (replicate 32 0), File far_file, File demo_file] @ replicate 10 (Other (replicate 32 0))"

definition image_of :: "int \<Rightarrow> u8 list \<Rightarrow> image" where
  "image_of off bs = (\<lambda>p. if off \<le> p \<and> p < off + int (length bs) then bs ! nat (p - off) else 0)"

lemma image_of_at: "0 \<le> off \<Longrightarrow> off + int (length bs) \<le> IMG_SIZE \<Longrightarrow> img_at (image_of off bs) off bs"
  by (simp add: img_at_def image_of_def)

lemma demo_items_ok: "\<forall>i\<in>set demo_items. item_ok i" and demo_length: "length (sector_bytes demo_items) = 512"
  and demo_files: "files_in demo_items = [far_file, demo_file]"
  by code_simp+

lemma demo_kept: "in_reach 512 demo_file" "\<not> in_reach 512 far_file"
  by (simp_all add: in_reach_def far_file_def demo_file_def)

theorem frecov_reads_directory_witness:
  "\<exists>b F. search_bmp_name_position (image_of 1024 (sector_bytes demo_items)) 1024 3 (recovery0 demo_fat) =
     Inr (1, (recovery0 demo_fat)\<lparr>files := F, tot_file := 1, buf := b, sector_visit := (\<lambda>_. False)(3 := True)\<rparr>) \<and>
     F 0 = as_file 512 demo_file no_file \<and> filename (F 1) = [] \<and> F 2 = no_file"
proof -
  have at: "img_at (image_of 1024 (sector_bytes demo_items)) 1024 (sector_bytes demo_items)"
    by (rule image_of_at) (simp_all add: demo_length IMG_SIZE_def)
  have r: "fat32 (recovery0 demo_fat) = demo_fat" "sector_size demo_fat = 512" "tot_file (recovery0 demo_fat) = 0" "files (recovery0 demo_fat) = (\<lambda>_. no_file)"
    "top (recovery0 demo_fat) = 0" "sector_visit (recovery0 demo_fat) = (\<lambda>_. False)" "filename no_file = []"
    by (simp_all add: recovery0_def demo_fat_def no_file_def)
  have "demo_items \<noteq> []" by (simp add: demo_items_def)
  then obtain b F where "search_bmp_name_position (image_of 1024 (sector_bytes demo_items)) 1024 3 (recovery0 demo_fat) =
     Inr (1, (recovery0 demo_fat)\<lparr>files := F, tot_file := 1, buf := b, sector_visit := (\<lambda>_. False)(3 := True)\<rparr>)"
    "table_of 512 0 [demo_file] (\<lambda>_. no_file) F"
    using frecov_reads_directory [OF at, of "recovery0 demo_fat" 3] demo_items_ok
    by (simp add: r demo_length demo_files demo_kept FILE_MAX_def VISIT_SIZE_def Let_def) blast
  then show ?thesis by (intro exI [of _ b] exI [of _ F]) (simp add: table_of_def add_files_def)
qed

end
