(* ===== verification/Libco.thy ===== *)
theory Libco
  imports Prelude
begin

text \<open>
  The coroutines of \<^verbatim>\<open>libco/co.c\<close>: the table of coroutines, the random choice of the next one, and the calls that switch.  What a
  coroutine computes between two calls of the library is not part of the model; \<open>me\<close> is the coroutine whose code runs, that is, whose
  stack the processor is on.  A buffer of \<^verbatim>\<open>setjmp\<close> holds the coroutine that saved it, the call in which it did so, and the number of
  that call among the calls of this coroutine: \<^verbatim>\<open>longjmp\<close> to a call that has returned, or to a buffer that was never
  filled, is undefined in C and the fault \<open>BadJump\<close> or \<open>NullDeref\<close> here.  The numbers of \<^verbatim>\<open>rand\<close> are an argument; a choice that needs more numbers than are given is
  \<open>Diverge\<close>.
\<close>

definition MAX_CO :: nat where "MAX_CO = 128"

datatype co_state = END | RUNNING

datatype saved_in = In_start | In_yield | In_wait nat

record jmp_context =
  j_owner :: nat
  j_call :: saved_in
  j_stamp :: nat

record co =
  co_id :: nat
  co_state :: co_state
  co_buf :: "jmp_context option"

record colib =
  co_rtns :: "nat \<Rightarrow> co"
  co_cnt :: nat
  act_cnt :: int
  co_current :: nat
  me :: nat
  calls :: "nat \<Rightarrow> nat"

definition colib0 :: colib where
  "colib0 = \<lparr>co_rtns = (\<lambda>_. \<lparr>co_id = 0, co_state = END, co_buf = None\<rparr>), co_cnt = 0, act_cnt = 0, co_current = 0, me = 0, calls = (\<lambda>_. 0)\<rparr>"

definition upd_co :: "nat \<Rightarrow> (co \<Rightarrow> co) \<Rightarrow> colib \<Rightarrow> colib" where
  "upd_co i f s = s\<lparr>co_rtns := (co_rtns s)(i := f (co_rtns s i))\<rparr>"

definition co_init :: "colib \<Rightarrow> colib" where
  "co_init s =
     (let s = s\<lparr>co_cnt := 1, act_cnt := 1, co_current := 0\<rparr>;
          s = upd_co (co_current s) (\<lambda>c. c\<lparr>co_id := 0\<rparr>) s
      in upd_co (co_current s) (\<lambda>c. c\<lparr>co_state := RUNNING\<rparr>) s)"

section \<open>Choosing\<close>

function select_loop :: "nat \<Rightarrow> int \<Rightarrow> colib \<Rightarrow> int" where
  "select_loop i num s =
     (if i < co_cnt s then
        if co_state (co_rtns s i) = RUNNING then
          if num = 0 then int i else select_loop (Suc i) (num - 1) s
        else select_loop (Suc i) num s
      else - 1)"
  by pat_completeness auto
termination
  by (relation "measure (\<lambda>(i, num, s). co_cnt s - i)") auto

declare select_loop.simps [simp del]

definition select_co :: "nat \<Rightarrow> colib \<Rightarrow> int res" where
  "select_co r s =
     bindE (guardE DivZero (act_cnt s \<noteq> 0)) (\<lambda>_. Inr (select_loop 0 (int r mod act_cnt s) s))"

section \<open>Saving and jumping\<close>

definition new_call :: "colib \<Rightarrow> colib" where
  "new_call s = s\<lparr>calls := (calls s)(me s := Suc (calls s (me s)))\<rparr>"

definition co_setjmp :: "nat \<Rightarrow> saved_in \<Rightarrow> colib \<Rightarrow> colib" where
  "co_setjmp i w s = upd_co i (\<lambda>c. c\<lparr>co_buf := Some \<lparr>j_owner = me s, j_call = w, j_stamp = calls s (me s)\<rparr>\<rparr>) s"

definition co_longjmp :: "nat \<Rightarrow> colib \<Rightarrow> (saved_in \<times> colib) res" where
  "co_longjmp i s =
     (case co_buf (co_rtns s i) of
        None \<Rightarrow> Inl NullDeref
      | Some c \<Rightarrow>
          bindE (guardE BadJump (j_stamp c = calls s (j_owner c))) (\<lambda>_. Inr (j_call c, s\<lparr>me := j_owner c\<rparr>)))"

text \<open>
  The macro \<^verbatim>\<open>SWICTH_AND_JMUP\<close>: numbers are drawn until another coroutine than the current one is chosen.  A coroutine that goes on in
  \<^verbatim>\<open>co_wait\<close> tests again and may switch again.
\<close>

fun switch_and_jump :: "nat list \<Rightarrow> colib \<Rightarrow> (nat list \<times> colib) res" where
  "switch_and_jump [] s = Inl Diverge"
| "switch_and_jump (r # rs) s =
     bindE (select_co r s) (\<lambda>m.
     if m = int (co_id (co_rtns s (co_current s))) then switch_and_jump rs s
     else
       bindE (guardE OutOfBounds (0 \<le> m \<and> m < int MAX_CO)) (\<lambda>_.
       let s = s\<lparr>co_current := nat m\<rparr> in
       bindE (co_longjmp (co_current s) s) (\<lambda>(w, s).
       case w of
         In_wait thd \<Rightarrow> if co_state (co_rtns s thd) \<noteq> END then switch_and_jump rs s else Inr (rs, s)
       | _ \<Rightarrow> Inr (rs, s))))"

section \<open>The calls\<close>

text \<open>\<^verbatim>\<open>co_start\<close> up to the first instruction of the function of the new coroutine.\<close>

definition co_start :: "colib \<Rightarrow> colib res" where
  "co_start s =
     (let s = new_call s;
          s = s\<lparr>co_cnt := co_cnt s + 1\<rparr>;
          s = s\<lparr>act_cnt := act_cnt s + 1\<rparr>;
          s = co_setjmp 0 In_start s in
      bindE (guardE OutOfBounds (co_cnt s - 1 < MAX_CO)) (\<lambda>_.
      let s = s\<lparr>co_current := co_cnt s - 1\<rparr>;
          s = upd_co (co_current s) (\<lambda>c. c\<lparr>co_id := co_cnt s - 1\<rparr>) s;
          s = upd_co (co_current s) (\<lambda>c. c\<lparr>co_state := RUNNING\<rparr>) s
      in Inr (s\<lparr>me := co_current s\<rparr>)))"

text \<open>\<^verbatim>\<open>co_start\<close> from the return of that function on.\<close>

definition co_end :: "nat list \<Rightarrow> colib \<Rightarrow> (nat list \<times> colib) res" where
  "co_end rs s =
     (let s = upd_co (co_current s) (\<lambda>c. c\<lparr>co_state := END\<rparr>) s;
          s = s\<lparr>act_cnt := act_cnt s - 1\<rparr> in
      bindE (co_longjmp 0 s) (\<lambda>(w, s).
      case w of
        In_wait thd \<Rightarrow> if co_state (co_rtns s thd) \<noteq> END then switch_and_jump rs s else Inr (rs, s)
      | _ \<Rightarrow> Inr (rs, s)))"

definition co_yield :: "nat list \<Rightarrow> colib \<Rightarrow> (nat list \<times> colib) res" where
  "co_yield rs s = (let s = new_call s; s = co_setjmp (co_current s) In_yield s in switch_and_jump rs s)"

definition co_wait :: "nat \<Rightarrow> nat list \<Rightarrow> colib \<Rightarrow> (nat list \<times> colib) res" where
  "co_wait thd rs s =
     (let s = new_call s; s = co_setjmp (co_current s) (In_wait thd) s in
      if co_state (co_rtns s thd) \<noteq> END then switch_and_jump rs s else Inr (rs, s))"

section \<open>Programs\<close>

text \<open>The coroutine that runs calls the library; the first one starts the others, and only the others end.\<close>

inductive co_step :: "colib \<Rightarrow> colib \<Rightarrow> bool" where
  start: "me s = 0 \<Longrightarrow> co_start s = Inr s' \<Longrightarrow> co_step s s'"
| yield: "co_yield rs s = Inr (rs', s') \<Longrightarrow> co_step s s'"
| wait: "thd < co_cnt s \<Longrightarrow> co_wait thd rs s = Inr (rs', s') \<Longrightarrow> co_step s s'"
| finish: "me s \<noteq> 0 \<Longrightarrow> co_end rs s = Inr (rs', s') \<Longrightarrow> co_step s s'"

end
