(* ===== verification/Libco_Correct.thy ===== *)
theory Libco_Correct
  imports Libco
begin

text \<open>
  The count of active coroutines is right in every state that calls of the library reach, so that the random choice always delivers a
  coroutine that can run.  And the states in which the library jumps into a call that has returned.
\<close>

section \<open>The invariant\<close>

definition running_cos :: "colib \<Rightarrow> nat list" where
  "running_cos s = filter (\<lambda>i. co_state (co_rtns s i) = RUNNING) [0..<co_cnt s]"

text \<open>The buffer of a coroutine was filled by the coroutine itself; only the first one may have none.\<close>

definition own_buf :: "colib \<Rightarrow> nat \<Rightarrow> bool" where
  "own_buf s i \<longleftrightarrow> (case co_buf (co_rtns s i) of None \<Rightarrow> i = 0 | Some c \<Rightarrow> j_owner c = i)"

definition co_table_ok :: "colib \<Rightarrow> bool" where
  "co_table_ok s \<longleftrightarrow> 0 < co_cnt s \<and> co_cnt s \<le> MAX_CO \<and> act_cnt s = int (length (running_cos s)) \<and> co_state (co_rtns s 0) = RUNNING \<and>
     co_current s < co_cnt s \<and> (\<forall>i<co_cnt s. co_id (co_rtns s i) = i)"

text \<open>When a switch begins every coroutine that can run has saved where it goes on.\<close>

definition parked :: "colib \<Rightarrow> bool" where
  "parked s \<longleftrightarrow> co_table_ok s \<and> (\<forall>i<co_cnt s. co_state (co_rtns s i) = RUNNING \<longrightarrow> own_buf s i)"

text \<open>
  Between two calls: the current coroutine is the one that runs, or the first one runs and the current one has ended.
\<close>

definition who_runs :: "colib \<Rightarrow> bool" where
  "who_runs s \<longleftrightarrow> me s < co_cnt s \<and>
     (if me s = 0 then co_current s = 0 \<or> co_state (co_rtns s (co_current s)) = END
      else co_current s = me s \<and> co_state (co_rtns s (me s)) = RUNNING)"

definition co_inv :: "colib \<Rightarrow> bool" where
  "co_inv s \<longleftrightarrow> co_table_ok s \<and> who_runs s \<and>
     (\<forall>i<co_cnt s. co_state (co_rtns s i) = RUNNING \<and> (i \<noteq> me s \<or> i = 0) \<longrightarrow> own_buf s i)"

lemmas inv_defs = co_inv_def parked_def co_table_ok_def who_runs_def

lemma length_running: "length (running_cos s) = card {i. i < co_cnt s \<and> co_state (co_rtns s i) = RUNNING}"
proof -
  have "distinct (running_cos s)" by (simp add: running_cos_def)
  then have "length (running_cos s) = card (set (running_cos s))" by (simp only: distinct_card)
  also have "set (running_cos s) = {i. i < co_cnt s \<and> co_state (co_rtns s i) = RUNNING}" by (auto simp: running_cos_def)
  finally show ?thesis .
qed

section \<open>The choice\<close>

lemma select_loop_nth:
  assumes "num < int (length (filter (\<lambda>j. co_state (co_rtns s j) = RUNNING) [i..<co_cnt s]))" and "0 \<le> num"
  shows "select_loop i num s = int (filter (\<lambda>j. co_state (co_rtns s j) = RUNNING) [i..<co_cnt s] ! nat num)"
  using assms
proof (induction i num s rule: select_loop.induct)
  case (1 i num s)
  show ?case
  proof (cases "i < co_cnt s")
    case True
    then have u: "[i..<co_cnt s] = i # [Suc i..<co_cnt s]" by (rule upt_conv_Cons)
    have n: "nat num = Suc (nat (num - 1))" if "num \<noteq> 0" using "1.prems"(2) that by simp
    show ?thesis using 1 True n unfolding u by (auto simp: select_loop.simps [of i])
  qed (use "1.prems" in simp)
qed

lemma select_co_nth:
  assumes "co_table_ok s"
  shows "running_cos s \<noteq> []" and "select_co r s = Inr (int (running_cos s ! (r mod length (running_cos s))))"
proof -
  have "0 \<in> set (running_cos s)" using assms by (simp add: co_table_ok_def running_cos_def)
  then show ne: "running_cos s \<noteq> []" by auto
  have "select_loop 0 (int (r mod length (running_cos s))) s = int (running_cos s ! (r mod length (running_cos s)))"
    using select_loop_nth [of "int (r mod length (running_cos s))" s 0] ne by (simp add: running_cos_def)
  then show "select_co r s = Inr (int (running_cos s ! (r mod length (running_cos s))))"
    using assms ne by (simp add: select_co_def co_table_ok_def zmod_int)
qed

lemma select_co_running:
  assumes "co_table_ok s" and "select_co r s = Inr m"
  shows "0 \<le> m \<and> nat m < co_cnt s \<and> co_state (co_rtns s (nat m)) = RUNNING"
proof -
  have "running_cos s ! (r mod length (running_cos s)) \<in> set (running_cos s)" using select_co_nth(1) [OF assms(1)] by simp
  then show ?thesis using assms(2) select_co_nth(2) [OF assms(1)] by (auto simp: running_cos_def)
qed

section \<open>Switching\<close>

lemma own_buf_simps [simp]: "own_buf (s\<lparr>me := k\<rparr>) i = own_buf s i" "own_buf (s\<lparr>co_current := k\<rparr>) i = own_buf s i"
  by (simp_all add: own_buf_def)

lemma parked_first: "parked s \<Longrightarrow> own_buf s 0"
  by (simp add: parked_def co_table_ok_def)

lemma longjmp_who:
  assumes "co_longjmp i s = Inr (w, s')" and "own_buf s i"
  shows "s' = s\<lparr>me := i\<rparr>"
  using assms by (auto simp: co_longjmp_def own_buf_def res_iff split: option.splits)

lemma parked_jump:
  assumes "parked s" and "m < co_cnt s" and "co_state (co_rtns s m) = RUNNING"
  shows "parked (s\<lparr>co_current := m, me := m\<rparr>)" and "co_inv (s\<lparr>co_current := m, me := m\<rparr>)"
  using assms by (auto simp: inv_defs running_cos_def own_buf_def)

lemma switch_jump_inv:
  "parked s \<Longrightarrow> switch_and_jump rs s = Inr (rs', s') \<Longrightarrow> co_inv s'"
proof (induction rs arbitrary: s)
  case (Cons r rs)
  obtain m where m: "select_co r s = Inr m" using select_co_nth(2) Cons.prems(1) by (auto simp: parked_def)
  note run = select_co_running [OF _ m]
  have t: "co_table_ok s" using Cons.prems(1) by (simp add: parked_def)
  show ?case
  proof (cases "m = int (co_id (co_rtns s (co_current s)))")
    case True
    then show ?thesis using Cons.IH [OF Cons.prems(1)] Cons.prems(2) m by simp
  next
    case False
    let ?s = "s\<lparr>co_current := nat m\<rparr>"
    have j: "own_buf ?s (nat m)" using Cons.prems(1) run [OF t] by (auto simp: parked_def own_buf_def)
    obtain w where w: "co_longjmp (nat m) ?s = Inr (w, ?s\<lparr>me := nat m\<rparr>)"
      using Cons.prems(2) m False longjmp_who [OF _ j] by (auto simp: res_iff Let_def split: prod.splits)
    note p = parked_jump [OF Cons.prems(1), of "nat m"]
    show ?thesis using Cons.prems(2) m False w p run [OF t] Cons.IH [OF p(1)]
      by (auto simp: res_iff Let_def split: saved_in.splits if_splits)
  qed
qed simp

text \<open>Saving changes one buffer.\<close>

lemma save_simps [simp]:
  "co_cnt (co_setjmp k w (new_call s)) = co_cnt s" "act_cnt (co_setjmp k w (new_call s)) = act_cnt s"
  "co_current (co_setjmp k w (new_call s)) = co_current s" "me (co_setjmp k w (new_call s)) = me s"
  "co_state (co_rtns (co_setjmp k w (new_call s)) i) = co_state (co_rtns s i)" "co_id (co_rtns (co_setjmp k w (new_call s)) i) = co_id (co_rtns s i)"
  "running_cos (co_setjmp k w (new_call s)) = running_cos s"
  "own_buf (co_setjmp k w (new_call s)) i = (if i = k then me s = i else own_buf s i)"
  by (auto simp: co_setjmp_def new_call_def upd_co_def running_cos_def own_buf_def intro!: filter_cong)

lemma save_inv:
  assumes "co_inv s"
  shows "parked (co_setjmp (co_current s) w (new_call s))" and "co_inv (co_setjmp (co_current s) w (new_call s))"
  using assms by (auto simp: inv_defs split: if_splits)

section \<open>The calls\<close>

lemma co_init_inv: "co_inv (co_init colib0)"
  by (simp add: co_init_def colib0_def upd_co_def inv_defs running_cos_def own_buf_def Let_def MAX_CO_def)

lemma co_start_inv:
  assumes "co_inv s" and "me s = 0" and "co_start s = Inr s'"
  shows "co_inv s'"
proof -
  let ?n = "co_cnt s" and ?c = "\<lparr>j_owner = 0, j_call = In_start, j_stamp = Suc (calls s 0)\<rparr>"
  have n: "0 < ?n" "?n < MAX_CO" using assms by (auto simp: inv_defs co_start_def Let_def co_setjmp_def upd_co_def new_call_def res_iff)
  have s': "co_rtns s' = (co_rtns s)(0 := (co_rtns s 0)\<lparr>co_buf := Some ?c\<rparr>, ?n := (co_rtns s ?n)\<lparr>co_id := ?n, co_state := RUNNING\<rparr>)"
    "co_cnt s' = ?n + 1" "act_cnt s' = act_cnt s + 1" "co_current s' = ?n" "me s' = ?n"
    using assms n by (auto simp: co_start_def Let_def co_setjmp_def upd_co_def new_call_def res_iff fun_upd_twist)
  have "running_cos s' = running_cos s @ [?n]" using n unfolding running_cos_def s' by (auto intro!: filter_cong)
  then show ?thesis using assms(1,2) n by (auto simp: inv_defs s' own_buf_def less_Suc_eq)
qed

lemma co_end_parked:
  assumes "co_inv s" and "me s \<noteq> 0"
  defines "s1 \<equiv> (upd_co (co_current s) (\<lambda>c. c\<lparr>co_state := END\<rparr>) s)\<lparr>act_cnt := act_cnt s - 1, me := 0\<rparr>"
  shows "parked s1" and "co_inv s1"
proof -
  have c: "co_current s = me s" "me s < co_cnt s" "co_state (co_rtns s (me s)) = RUNNING" using assms(1,2) by (simp_all add: inv_defs)
  let ?R = "{i. i < co_cnt s \<and> co_state (co_rtns s i) = RUNNING}"
  have "{i. i < co_cnt s1 \<and> co_state (co_rtns s1 i) = RUNNING} = ?R - {me s}" using c by (auto simp: s1_def upd_co_def)
  then have "length (running_cos s1) = length (running_cos s) - 1" "0 < length (running_cos s)"
    using c card_gt_0_iff [of ?R] unfolding length_running by auto
  then have "int (length (running_cos s1)) = int (length (running_cos s)) - 1" by (cases "running_cos s") auto
  then have "act_cnt s1 = int (length (running_cos s1))" using assms(1) unfolding s1_def by (simp add: inv_defs)
  then show "parked s1" "co_inv s1" using assms(1,2) c by (auto simp: inv_defs own_buf_def s1_def upd_co_def)
qed

lemma co_end_inv:
  assumes inv: "co_inv s" and "me s \<noteq> 0" and run: "co_end rs s = Inr (rs', s')"
  shows "co_inv s'"
proof -
  let ?s = "(upd_co (co_current s) (\<lambda>c. c\<lparr>co_state := END\<rparr>) s)\<lparr>act_cnt := act_cnt s - 1\<rparr>"
  note p = co_end_parked [OF assms(1,2)]
  have "own_buf ?s 0" using parked_first [OF p(1)] by simp
  then obtain w where "co_longjmp 0 ?s = Inr (w, ?s\<lparr>me := 0\<rparr>)"
    using run longjmp_who [of 0 ?s] by (auto simp: co_end_def Let_def res_iff upd_co_def split: prod.splits)
  then show ?thesis using run p switch_jump_inv [OF p(1)]
    by (auto simp: co_end_def Let_def upd_co_def split: saved_in.splits if_splits)
qed

lemma co_step_inv: "co_step s s' \<Longrightarrow> co_inv s \<Longrightarrow> co_inv s'"
proof (induction rule: co_step.induct)
  case (yield rs s rs' s')
  have "co_current (new_call s) = co_current s" by (simp add: new_call_def)
  then show ?case using yield switch_jump_inv [OF save_inv(1)] by (simp add: co_yield_def Let_def)
next
  case (wait thd s rs rs' s')
  have c: "co_current (new_call s) = co_current s" by (simp add: new_call_def)
  show ?case using wait c switch_jump_inv [OF save_inv(1)] save_inv(2)
    by (auto simp: co_wait_def Let_def split: if_splits)
qed (auto intro: co_start_inv co_end_inv)

lemma co_reach_inv: "co_step\<^sup>*\<^sup>* (co_init colib0) s \<Longrightarrow> co_inv s"
  by (induction rule: rtranclp_induct) (auto intro: co_init_inv co_step_inv)

text \<open>
  C34: In every state that the program reaches by calls of the library, where the first coroutine starts the others, the count of active coroutines is
  the number of those that run, so that the random choice always delivers one that runs, and every one that runs is delivered for
  some number.
\<close>

theorem co_choice_runs:
  assumes "co_step\<^sup>*\<^sup>* (co_init colib0) s"
  shows "act_cnt s = int (card {i. i < co_cnt s \<and> co_state (co_rtns s i) = RUNNING}) \<and>
    (\<forall>r. \<exists>i<co_cnt s. select_co r s = Inr (int i) \<and> co_state (co_rtns s i) = RUNNING) \<and>
    (\<forall>i<co_cnt s. co_state (co_rtns s i) = RUNNING \<longrightarrow> (\<exists>r. select_co r s = Inr (int i)))"
proof -
  have t: "co_table_ok s" using co_reach_inv [OF assms] by (simp add: co_inv_def)
  note ch = select_co_nth [OF t]
  have "\<exists>i<co_cnt s. select_co r s = Inr (int i) \<and> co_state (co_rtns s i) = RUNNING" for r
    using ch(2) [of r] select_co_running [OF t ch(2) [of r]] by auto
  moreover have "\<exists>r. select_co r s = Inr (int i)" if "i < co_cnt s" "co_state (co_rtns s i) = RUNNING" for i
  proof -
    have "i \<in> set (running_cos s)" using that by (simp add: running_cos_def)
    then obtain r where "r < length (running_cos s)" "running_cos s ! r = i" by (auto simp: in_set_conv_nth)
    then show ?thesis using ch(2) [of r] by auto
  qed
  ultimately show ?thesis using t length_running [of s] by (simp add: co_table_ok_def)
qed

theorem co_choice_runs_witness:
  "\<exists>s. co_step\<^sup>*\<^sup>* (co_init colib0) s \<and> co_cnt s = 2 \<and> (\<forall>r. \<exists>i<2. select_co r s = Inr (int i) \<and> co_state (co_rtns s i) = RUNNING)"
proof -
  obtain s where s: "co_start (co_init colib0) = Inr s" "co_cnt s = 2"
    by (simp add: co_start_def co_init_def colib0_def Let_def upd_co_def co_setjmp_def new_call_def MAX_CO_def)
  have "me (co_init colib0) = 0" by (simp add: co_init_def colib0_def Let_def upd_co_def)
  then have "co_step\<^sup>*\<^sup>* (co_init colib0) s" using s(1) co_step.start by blast
  then show ?thesis using co_choice_runs [of s] s(2) by auto
qed

section \<open>A jump into a call that has returned\<close>

text \<open>The buffer of the first coroutine, filled when another one was started, is not younger than its last call.\<close>

definition first_saved :: "colib \<Rightarrow> bool" where
  "first_saved s \<longleftrightarrow> (co_buf (co_rtns s 0) = None \<longrightarrow> co_cnt s = 1) \<and> (\<forall>c. co_buf (co_rtns s 0) = Some c \<longrightarrow> j_stamp c \<le> calls s 0)"

lemma switch_frame: "switch_and_jump rs s = Inr (rs', s') \<Longrightarrow> \<exists>c m. s' = s\<lparr>co_current := c, me := m\<rparr>"
proof (induction rs arbitrary: s)
  case (Cons r rs)
  obtain m where m: "select_co r s = Inr m" using Cons.prems by (auto simp: res_iff)
  show ?case
  proof (cases "m = int (co_id (co_rtns s (co_current s)))")
    case True
    then show ?thesis using Cons m by simp
  next
    case False
    then obtain w k where "co_longjmp (nat m) (s\<lparr>co_current := nat m\<rparr>) = Inr (w, s\<lparr>co_current := nat m, me := k\<rparr>)"
      using Cons.prems m by (auto simp: res_iff Let_def co_longjmp_def split: option.splits prod.splits)
    then show ?thesis using Cons.prems m False Cons.IH [of "s\<lparr>co_current := nat m, me := k\<rparr>"]
      by (auto simp: res_iff Let_def split: saved_in.splits if_splits)
  qed
qed simp

lemma first_saved_cong [simp]: "first_saved (s\<lparr>co_current := c, me := m\<rparr>) = first_saved s"
  by (simp add: first_saved_def)

lemma switch_saved: "switch_and_jump rs s = Inr (rs', s') \<Longrightarrow> first_saved s' = first_saved s"
  by (auto dest!: switch_frame)

lemma save_saved:
  assumes "co_inv s" and "first_saved s"
  shows "first_saved (co_setjmp (co_current s) w (new_call s))"
  using assms by (auto simp: first_saved_def co_setjmp_def new_call_def upd_co_def inv_defs split: option.splits if_splits)

lemma co_end_saved:
  assumes "co_end rs s = Inr (rs', s')" and "first_saved s"
  shows "first_saved s'"
proof -
  let ?s = "(upd_co (co_current s) (\<lambda>c. c\<lparr>co_state := END\<rparr>) s)\<lparr>act_cnt := act_cnt s - 1\<rparr>"
  have a: "act_cnt (upd_co (co_current s) (\<lambda>c. c\<lparr>co_state := END\<rparr>) s) = act_cnt s" by (simp add: upd_co_def)
  obtain w s1 where j: "co_longjmp 0 ?s = Inr (w, s1)" and r: "(rs', s') = (rs, s1) \<or> switch_and_jump rs s1 = Inr (rs', s')"
  proof (cases "co_longjmp 0 ?s")
    case (Inr p)
    then show ?thesis using assms(1) that by (cases p; cases "fst p") (auto simp: co_end_def Let_def a split: if_splits)
  qed (use assms(1) in \<open>simp add: co_end_def Let_def a\<close>)
  have "first_saved ?s" using assms(2) by (auto simp: first_saved_def upd_co_def)
  then have "first_saved s1" using j by (auto simp: co_longjmp_def res_iff first_saved_def split: option.splits)
  then show ?thesis using r switch_saved by auto
qed

lemma co_step_saved: "co_step s s' \<Longrightarrow> co_inv s \<Longrightarrow> first_saved s \<Longrightarrow> first_saved s'"
proof (induction rule: co_step.induct)
  case (start s s')
  then show ?case
    by (auto simp: co_start_def Let_def co_setjmp_def upd_co_def new_call_def res_iff first_saved_def inv_defs)
next
  case (yield rs s rs' s')
  have "co_current (new_call s) = co_current s" by (simp add: new_call_def)
  then show ?case using yield save_saved switch_saved by (simp add: co_yield_def Let_def)
next
  case (wait thd s rs rs' s')
  have "co_current (new_call s) = co_current s" by (simp add: new_call_def)
  then show ?case using wait save_saved switch_saved by (auto simp: co_wait_def Let_def split: if_splits)
qed (auto intro: co_end_saved)

lemma co_reach_saved: "co_step\<^sup>*\<^sup>* (co_init colib0) s \<Longrightarrow> co_inv s \<and> first_saved s"
proof (induction rule: rtranclp_induct)
  case base
  have "first_saved (co_init colib0)" by (simp add: first_saved_def co_init_def colib0_def upd_co_def Let_def)
  with co_init_inv show ?case ..
qed (auto intro: co_step_inv co_step_saved)

lemma select_co_save: "select_co r (co_setjmp k w (new_call s)) = select_co r s"
proof -
  have "select_loop i n (co_setjmp k w (new_call s)) = select_loop i n s" for i n
    by (induction i n s rule: select_loop.induct) (subst (1 2) select_loop.simps, simp)
  then show ?thesis by (simp add: select_co_def)
qed

lemma switch_to_first:
  assumes "select_co r s = Inr 0" and "co_id (co_rtns s (co_current s)) \<noteq> 0"
    and "co_buf (co_rtns s 0) = Some c" and "j_stamp c \<noteq> calls s (j_owner c)"
  shows "switch_and_jump (r # rs) s = Inl BadJump"
  using assms by (simp add: co_longjmp_def Let_def MAX_CO_def guardE_def)

text \<open>
  The first coroutine starts one that yields and one that ends; \<^verbatim>\<open>current\<close> stays the one that ended.
\<close>

definition demo_table :: "jmp_context option \<Rightarrow> co list \<Rightarrow> nat \<Rightarrow> co" where
  "demo_table b cs = (\<lambda>i. if i = 0 then \<lparr>co_id = 0, co_state = RUNNING, co_buf = b\<rparr>
     else if i \<le> length cs then cs ! (i - 1) else \<lparr>co_id = 0, co_state = END, co_buf = None\<rparr>)"

definition demo_saved :: "nat \<Rightarrow> saved_in \<Rightarrow> nat \<Rightarrow> jmp_context option" where
  "demo_saved i w n = Some \<lparr>j_owner = i, j_call = w, j_stamp = n\<rparr>"

definition demo_state :: "nat \<Rightarrow> colib" where
  "demo_state k =
     (if k = 0 then \<lparr>co_rtns = demo_table None [], co_cnt = 1, act_cnt = 1, co_current = 0, me = 0, calls = (\<lambda>_. 0)\<rparr>
      else if k = 1 then \<lparr>co_rtns = demo_table (demo_saved 0 In_start 1) [\<lparr>co_id = 1, co_state = RUNNING, co_buf = None\<rparr>],
        co_cnt = 2, act_cnt = 2, co_current = 1, me = 1, calls = (\<lambda>_. 0)(0 := 1)\<rparr>
      else if k = 2 then \<lparr>co_rtns = demo_table (demo_saved 0 In_start 1) [\<lparr>co_id = 1, co_state = RUNNING, co_buf = demo_saved 1 In_yield 1\<rparr>],
        co_cnt = 2, act_cnt = 2, co_current = 0, me = 0, calls = (\<lambda>_. 0)(0 := 1, 1 := 1)\<rparr>
      else if k = 3 then \<lparr>co_rtns = demo_table (demo_saved 0 In_start 2) [\<lparr>co_id = 1, co_state = RUNNING, co_buf = demo_saved 1 In_yield 1\<rparr>,
          \<lparr>co_id = 2, co_state = RUNNING, co_buf = None\<rparr>],
        co_cnt = 3, act_cnt = 3, co_current = 2, me = 2, calls = (\<lambda>_. 0)(0 := 2, 1 := 1)\<rparr>
      else \<lparr>co_rtns = demo_table (demo_saved 0 In_start 2) [\<lparr>co_id = 1, co_state = RUNNING, co_buf = demo_saved 1 In_yield 1\<rparr>,
          \<lparr>co_id = 2, co_state = END, co_buf = None\<rparr>],
        co_cnt = 3, act_cnt = 2, co_current = 2, me = 0, calls = (\<lambda>_. 0)(0 := 2, 1 := 1)\<rparr>)"

lemmas co_run = co_init_def colib0_def co_start_def co_yield_def co_end_def co_wait_def new_call_def co_setjmp_def co_longjmp_def upd_co_def
  select_co_def select_loop.simps [of _ _ "_ :: colib"] Let_def MAX_CO_def demo_state_def demo_table_def demo_saved_def fun_eq_iff

lemma demo_0: "co_init colib0 = demo_state 0"
  by (auto simp: co_run)

lemma demo_1: "co_start (demo_state 0) = Inr (demo_state 1)"
  by (auto simp: co_run nth_Cons')

lemma demo_2: "co_yield [0] (demo_state 1) = Inr ([], demo_state 2)"
  by (auto simp: co_run nth_Cons')

lemma demo_3: "co_start (demo_state 2) = Inr (demo_state 3)"
  by (auto simp: co_run nth_Cons')

lemma demo_4: "co_end [] (demo_state 3) = Inr ([], demo_state 4)"
  by (auto simp: co_run nth_Cons')

lemma demo_reach: "co_step\<^sup>*\<^sup>* (co_init colib0) (demo_state 4)"
proof -
  have f: "me (demo_state 0) = 0" "me (demo_state 2) = 0" "me (demo_state 3) \<noteq> 0" by (simp_all add: demo_state_def)
  have "co_step (demo_state 0) (demo_state 1)" by (rule co_step.start [OF f(1) demo_1])
  moreover have "co_step (demo_state 1) (demo_state 2)" by (rule co_step.yield [OF demo_2])
  moreover have "co_step (demo_state 2) (demo_state 3)" by (rule co_step.start [OF f(2) demo_3])
  moreover have "co_step (demo_state 3) (demo_state 4)" by (rule co_step.finish [OF f(3) demo_4])
  ultimately show ?thesis
    unfolding demo_0 by (meson converse_rtranclp_into_rtranclp rtranclp.rtrancl_refl)
qed

text \<open>
  C36: \<^verbatim>\<open>current\<close> is not set back when a coroutine ends.  In every reachable state in which the first coroutine runs while \<^verbatim>\<open>current\<close> is another one, that
  one has ended, and the next call of the first coroutine that saves its place saves it in the buffer of the ended one: its own buffer
  still holds the place that a call which has returned left there.  So whenever it yields, or waits for a coroutine that has not ended, and the first random number chooses the first coroutine,
  which some number does, the library jumps into the call that has returned.
\<close>

theorem co_wait_stale_jump:
  assumes "co_step\<^sup>*\<^sup>* (co_init colib0) s" and "me s = 0" and "co_current s \<noteq> 0"
  shows "co_state (co_rtns s (co_current s)) = END \<and>
    (\<forall>w. let s1 = co_setjmp (co_current s) w (new_call s) in
       co_buf (co_rtns s1 (co_current s)) = Some \<lparr>j_owner = 0, j_call = w, j_stamp = calls s1 0\<rparr> \<and>
       (\<exists>c. co_buf (co_rtns s1 0) = Some c \<and> co_buf (co_rtns s 0) = Some c \<and> j_owner c = 0 \<and> j_stamp c < calls s1 0)) \<and>
    (\<exists>r. select_co r s = Inr 0) \<and>
    (\<forall>r rs. select_co r s = Inr 0 \<longrightarrow> co_yield (r # rs) s = Inl BadJump \<and>
       (\<forall>thd. co_state (co_rtns s thd) = RUNNING \<longrightarrow> co_wait thd (r # rs) s = Inl BadJump))"
proof -
  have inv: "co_inv s" and "first_saved s" using co_reach_saved [OF assms(1)] by auto
  moreover have "co_cnt s \<noteq> 1" and "own_buf s 0" using inv assms(3) by (auto simp: inv_defs)
  ultimately obtain c where c: "co_buf (co_rtns s 0) = Some c" "j_owner c = 0" "j_stamp c \<le> calls s 0"
    by (auto simp: first_saved_def own_buf_def split: option.splits)
  let ?s = "\<lambda>w. co_setjmp (co_current s) w (new_call s)"
  have saved: "co_buf (co_rtns (?s w) (co_current s)) = Some \<lparr>j_owner = 0, j_call = w, j_stamp = calls (?s w) 0\<rparr>"
    "co_buf (co_rtns (?s w) 0) = Some c" "j_stamp c < calls (?s w) 0" for w
    using c assms(2,3) by (auto simp: co_setjmp_def new_call_def upd_co_def)
  have "0 \<in> set (running_cos s)" using inv by (simp add: inv_defs running_cos_def)
  then obtain k where "k < length (running_cos s)" "running_cos s ! k = 0" by (auto simp: in_set_conv_nth)
  then have first: "\<exists>r. select_co r s = Inr 0" using select_co_nth(2) [of s k] inv by (intro exI [of _ k]) (simp add: co_inv_def)
  have id: "co_id (co_rtns s (co_current s)) \<noteq> 0" using inv assms(3) by (simp add: inv_defs)
  have jump: "switch_and_jump (r # rs) (?s w) = Inl BadJump" if "select_co r s = Inr 0" for r rs w
    using that id c(2) saved(2,3) [of w] by (intro switch_to_first [of _ _ c]) (simp_all add: select_co_save)
  have cur: "co_current (new_call s) = co_current s" by (simp add: new_call_def)
  have "co_yield (r # rs) s = Inl BadJump" if "select_co r s = Inr 0" for r rs
    using jump [OF that] by (simp add: co_yield_def Let_def cur del: switch_and_jump.simps)
  moreover have "co_wait thd (r # rs) s = Inl BadJump" if "select_co r s = Inr 0" "co_state (co_rtns s thd) = RUNNING" for r rs thd
    using jump [OF that(1)] that(2) by (simp add: co_wait_def Let_def cur del: switch_and_jump.simps)
  moreover have "co_state (co_rtns s (co_current s)) = END" using inv assms(2,3) by (simp add: inv_defs)
  ultimately show ?thesis using saved c first by (simp add: Let_def)
qed

theorem co_wait_stale_jump_witness:
  "co_step\<^sup>*\<^sup>* (co_init colib0) (demo_state 4) \<and> co_state (co_rtns (demo_state 4) 2) = END \<and> select_co 0 (demo_state 4) = Inr 0 \<and>
   co_wait 1 [0] (demo_state 4) = Inl BadJump"
proof -
  have s: "me (demo_state 4) = 0" "co_current (demo_state 4) \<noteq> 0" "co_current (demo_state 4) = 2" "co_state (co_rtns (demo_state 4) 1) = RUNNING"
    by (simp_all add: demo_state_def demo_table_def)
  have r: "select_co 0 (demo_state 4) = Inr 0" by (simp add: co_run)
  from co_wait_stale_jump [OF demo_reach s(1,2)] r s(3,4) demo_reach show ?thesis by simp
qed

end
