(* ===== verification/Crepl.thy ===== *)
theory Crepl
  imports Pstree
begin

text \<open>
  The interpreter of \<^verbatim>\<open>crepl/crepl.c\<close>: a line that begins with \<^verbatim>\<open>int\<close> is tried as a definition, any other line is compiled
  behind the accepted definitions and called.  The compiler and the loader of the host are arguments: what \<^verbatim>\<open>gcc\<close> prints for a file and the library it
  writes, what \<^verbatim>\<open>dlopen\<close> and \<^verbatim>\<open>dlsym\<close> return, and what the loaded function prints and returns.  Descriptors are counted against the limit of the
  process, and a pipe holds a limited number of bytes.  Creating a process succeeds.
\<close>

record 'lib host =
  h_arch :: string
  h_maxfd :: nat
  h_pipe :: nat
  h_gcc :: "string option \<Rightarrow> string \<times> 'lib option"
  h_dlopen :: "'lib option \<Rightarrow> string + 'lib"
  h_dlsym :: "'lib \<Rightarrow> string \<Rightarrow> string + (string \<times> int) res"

record 'lib cstate =
  c_files :: "string \<rightharpoonup> string"
  c_lib :: "'lib option"
  c_fds :: nat
  c_out :: string
  c_err :: string

text \<open>The body of the loop goes on or returns from \<^verbatim>\<open>main\<close>.\<close>

datatype 'lib creply = Continue "'lib cstate" | Return int "'lib cstate"

definition EXEVFILENAME :: string where "EXEVFILENAME = ''ExevLanceloiaTempFile.c''"
definition FUNCFILENAME :: string where "FUNCFILENAME = ''FuncLanceloiaTempFile.c''"
definition TESTFILENAME :: string where "TESTFILENAME = ''TestLanceloiaTempFile.c''"
definition EXEVFUNCNAME :: string where "EXEVFUNCNAME = ''exevLanceloiaTempFunction''"

definition Template1 :: string where "Template1 = ''int '' @ EXEVFUNCNAME @ ''() {'' @ [CHR 0x0A] @ ''  return ''"
definition Template2 :: string where "Template2 = '';'' @ [CHR 0x0A] @ ''}''"

definition BUF_SIZE :: nat where "BUF_SIZE = 1024"

section \<open>Files and processes\<close>

definition c_printf :: "string \<Rightarrow> 'lib cstate \<Rightarrow> 'lib cstate" where
  "c_printf t s = s\<lparr>c_out := c_out s @ t\<rparr>"

text \<open>A handler may run at any time.\<close>

definition Ctrl_C_Handler :: "'lib cstate \<Rightarrow> 'lib cstate" where
  "Ctrl_C_Handler s = c_printf ([CHR 0x0A] @ ''Keyboard interrupt is disabled. [Quit] Ctrl + D'' @ [CHR 0x0A] @ ''>>> '') s"

definition CLOSE :: "'lib cstate \<Rightarrow> 'lib cstate" where
  "CLOSE s = (c_printf (''exit'' @ [CHR 0x0A]) s)
     \<lparr>c_files := (c_files s)(EXEVFILENAME := None, FUNCFILENAME := None, TESTFILENAME := None), c_lib := None\<rparr>"

text \<open>\<^verbatim>\<open>fopen\<close> in the modes w (and w+), a and r.\<close>

definition fopen_w :: "'lib host \<Rightarrow> string \<Rightarrow> 'lib cstate \<Rightarrow> bool \<times> 'lib cstate" where
  "fopen_w h f s =
     (if c_fds s < h_maxfd h then (True, s\<lparr>c_fds := c_fds s + 1, c_files := (c_files s)(f := Some [])\<rparr>) else (False, s))"

definition fopen_a :: "'lib host \<Rightarrow> string \<Rightarrow> 'lib cstate \<Rightarrow> bool \<times> 'lib cstate" where
  "fopen_a h f s =
     (if c_fds s < h_maxfd h
      then (True, s\<lparr>c_fds := c_fds s + 1, c_files := (c_files s)(f := Some (case c_files s f of None \<Rightarrow> [] | Some t \<Rightarrow> t))\<rparr>)
      else (False, s))"

definition fopen_r :: "'lib host \<Rightarrow> string \<Rightarrow> 'lib cstate \<Rightarrow> bool \<times> 'lib cstate" where
  "fopen_r h f s =
     (if c_fds s < h_maxfd h \<and> c_files s f \<noteq> None then (True, s\<lparr>c_fds := c_fds s + 1\<rparr>) else (False, s))"

definition c_close :: "'lib cstate \<Rightarrow> 'lib cstate" where
  "c_close s = s\<lparr>c_fds := c_fds s - 1\<rparr>"

definition c_fprintf :: "string \<Rightarrow> string \<Rightarrow> 'lib cstate \<Rightarrow> 'lib cstate" where
  "c_fprintf f t s = s\<lparr>c_files := (c_files s)(f := map_option (\<lambda>old. old @ t) (c_files s f))\<rparr>"

definition open_pipe :: "'lib host \<Rightarrow> 'lib cstate \<Rightarrow> bool \<times> 'lib cstate" where
  "open_pipe h s = (if c_fds s + 2 \<le> h_maxfd h then (True, s\<lparr>c_fds := c_fds s + 2\<rparr>) else (False, s))"

text \<open>
  The child runs the compiler on a file with its errors in the pipe, and the parent waits for it before it reads: more errors than the pipe holds block
  both.  Then the parent closes one end of the pipe and counts the bytes; the other end stays open.
\<close>

definition compile :: "'lib host \<Rightarrow> string \<Rightarrow> 'lib cstate \<Rightarrow> (nat \<times> 'lib cstate) res" where
  "compile h f s =
     (let (errors, lib) = h_gcc h (c_files s f);
          s = (case lib of None \<Rightarrow> s | Some l \<Rightarrow> s\<lparr>c_lib := Some l\<rparr>) in
      bindE (guardE Diverge (length errors \<le> h_pipe h)) (\<lambda>_.
      Inr (length errors, c_close s)))"

definition c_str :: "string \<Rightarrow> string" where "c_str b = takeWhile (\<lambda>c. c \<noteq> CHR 0x00) b"

text \<open>The loop \<^verbatim>\<open>while (fgets(buf2, 1024, funcfp)) fprintf(exevfp, "%s", buf2)\<close> over the rest of the file.\<close>

function add_functions :: "string \<Rightarrow> 'lib cstate \<Rightarrow> 'lib cstate" where
  "add_functions fp s =
     (if fp = [] then s
      else let (buf2, fp) = p_fgets BUF_SIZE [] fp in add_functions fp (c_fprintf EXEVFILENAME (c_str buf2) s))"
  by pat_completeness auto
termination
  by (relation "measure (\<lambda>(fp, s). length fp)") (auto simp: p_fgets_def Let_def BUF_SIZE_def split: if_splits)

declare add_functions.simps [simp del]

section \<open>Lines\<close>

definition crepl_define :: "'lib host \<Rightarrow> string \<Rightarrow> 'lib cstate \<Rightarrow> 'lib creply res" where
  "crepl_define h buf s =
     (let (ok, s) = fopen_w h TESTFILENAME s in
      if \<not> ok then Inr (Return 1 s)
      else
        let s = c_fprintf TESTFILENAME (buf @ [CHR 0x0A]) s;
            s = c_close s;
            (ok, s) = open_pipe h s in
        if \<not> ok then Inr (Return 1 s)
        else
          bindE (compile h TESTFILENAME s) (\<lambda>(cnt, s).
          if cnt \<noteq> 0 then Inr (Continue (c_printf (''Compile Error'' @ [CHR 0x0A]) s))
          else
            let (ok, s) = fopen_a h FUNCFILENAME s in
            if \<not> ok then Inr (Return 1 s)
            else
              let s = c_fprintf FUNCFILENAME (buf @ [CHR 0x0A]) s;
                  s = c_close s
              in Inr (Continue (c_printf (''Added: '' @ buf @ [CHR 0x0A]) s))))"

definition crepl_call :: "'lib host \<Rightarrow> string \<Rightarrow> 'lib cstate \<Rightarrow> 'lib creply res" where
  "crepl_call h buf s =
     (case h_dlopen h (c_lib s) of
        Inl error \<Rightarrow> Inr (Return 1 (s\<lparr>c_err := c_err s @ error @ [CHR 0x0A]\<rparr>))
      | Inr dlhandle \<Rightarrow>
          (case h_dlsym h dlhandle EXEVFUNCNAME of
             Inl error \<Rightarrow> Inr (Return 1 (s\<lparr>c_err := c_err s @ error @ [CHR 0x0A]\<rparr>))
           | Inr exevfunc \<Rightarrow>
               bindE exevfunc (\<lambda>(printed, v).
               Inr (Continue (c_printf (''('' @ buf @ '') == '' @ dec_int v @ [CHR 0x0A]) (c_printf printed s))))))"

definition crepl_eval :: "'lib host \<Rightarrow> string \<Rightarrow> 'lib cstate \<Rightarrow> 'lib creply res" where
  "crepl_eval h buf s =
     (let (ok1, s) = fopen_w h EXEVFILENAME s;
          (ok2, s) = fopen_r h FUNCFILENAME s in
      if \<not> ok1 \<or> \<not> ok2 then Inr (Return 1 s)
      else
        let s = add_functions (case c_files s FUNCFILENAME of None \<Rightarrow> [] | Some t \<Rightarrow> t) s;
            s = c_close s;
            s = c_fprintf EXEVFILENAME (Template1 @ buf @ Template2 @ [CHR 0x0A]) s;
            s = c_close s;
            (ok, s) = open_pipe h s in
        if \<not> ok then Inr (Return 1 s)
        else
          bindE (compile h EXEVFILENAME s) (\<lambda>(cnt, s).
          if cnt \<noteq> 0 then Inr (Continue (c_printf (''Compile error'' @ [CHR 0x0A]) s))
          else crepl_call h buf s))"

text \<open>The body of the loop, for the buffer that \<^verbatim>\<open>fgets\<close> has filled.  An empty string would be cut in front of the buffer.\<close>

definition crepl_line :: "'lib host \<Rightarrow> string \<Rightarrow> 'lib cstate \<Rightarrow> 'lib creply res" where
  "crepl_line h buf s =
     bindE (guardE OutOfBounds (c_str buf \<noteq> [])) (\<lambda>_.
     let buf = butlast (c_str buf) in
     if take 3 buf = ''int'' then crepl_define h buf s else crepl_eval h buf s)"

function crepl_loop :: "'lib host \<Rightarrow> string \<Rightarrow> 'lib cstate \<Rightarrow> (int \<times> 'lib cstate) res" where
  "crepl_loop h stdin s =
     (let s = c_printf ''>>> '' s in
      if stdin = [] then Inr (0, s)
      else
        let (buf, stdin) = p_fgets BUF_SIZE [] stdin in
        bindE (crepl_line h buf s) (\<lambda>r.
        case r of Continue s \<Rightarrow> crepl_loop h stdin s | Return k s \<Rightarrow> Inr (k, s)))"
  by pat_completeness auto
termination
  by (relation "measure (\<lambda>(h, stdin, s). length stdin)") (auto simp: p_fgets_def Let_def BUF_SIZE_def split: if_splits)

declare crepl_loop.simps [simp del]

text \<open>The disposal function runs when \<^verbatim>\<open>main\<close> has returned.\<close>

definition crepl_main :: "'lib host \<Rightarrow> string \<Rightarrow> 'lib cstate \<Rightarrow> (int \<times> 'lib cstate) res" where
  "crepl_main h stdin s =
     (let s = c_printf (''Crepl 1.0.0 ('' @ h_arch h @ '') (copyright: Lanceloia)'' @ [CHR 0x0A]) s;
          (ok1, s) = fopen_w h EXEVFILENAME s;
          (ok2, s) = fopen_w h FUNCFILENAME s;
          (ok3, s) = fopen_w h TESTFILENAME s in
      bindE
        (if \<not> ok1 \<or> \<not> ok2 \<or> \<not> ok3 then Inr (1, s)
         else crepl_loop h stdin (c_close (c_close (c_close s))))
        (\<lambda>(k, s). Inr (k, CLOSE s)))"

end
