(* ===== verification/Crepl_Correct.thy ===== *)
theory Crepl_Correct
  imports Crepl
begin

text \<open>
  A session of the interpreter: every line is answered in the context of the definitions accepted before it, until the input ends, the descriptors that
  the pipes leave open have used up the limit of the process, a library cannot be loaded, or a compiler or a called function does not come back.  Nothing is assumed of the compiler and the loader.
\<close>

section \<open>What a session prints\<close>

abbreviation EOL :: string where "EOL \<equiv> [CHR 0x0A]"

definition lines_text :: "string list \<Rightarrow> string" where "lines_text ls = concat (map (\<lambda>l. l @ EOL) ls)"

definition program_text :: "string list \<Rightarrow> string \<Rightarrow> string" where
  "program_text defs l = lines_text defs @ Template1 @ l @ Template2 @ EOL"

text \<open>
  The reply to one line, given the library that was written last and the accepted definitions: an answer, after which the session goes on with these definitions and
  this library, or the message with which it stops.  More messages of the compiler than a pipe holds, or a fault of the called function, end
  the session as well.
\<close>

datatype 'lib line_reply = Answer string "string list" "'lib option" | Stop string

definition call_reply :: "'lib host \<Rightarrow> 'lib option \<Rightarrow> string list \<Rightarrow> string \<Rightarrow> 'lib line_reply res" where
  "call_reply h lib defs l =
     (case h_dlopen h lib of
        Inl msg \<Rightarrow> Inr (Stop (msg @ EOL))
      | Inr handle \<Rightarrow>
          (case h_dlsym h handle EXEVFUNCNAME of
             Inl msg \<Rightarrow> Inr (Stop (msg @ EOL))
           | Inr (Inl e) \<Rightarrow> Inl e
           | Inr (Inr (printed, v)) \<Rightarrow> Inr (Answer (printed @ ''('' @ l @ '') == '' @ dec_int v @ EOL) defs lib)))"

definition reply :: "'lib host \<Rightarrow> 'lib option \<Rightarrow> string list \<Rightarrow> string \<Rightarrow> 'lib line_reply res" where
  "reply h lib defs l =
     (let is_def = (take 3 l = ''int'');
          (messages, written) = h_gcc h (Some (if is_def then l @ EOL else program_text defs l));
          lib' = (if written = None then lib else written) in
      if h_pipe h < length messages then Inl Diverge
      else if is_def then
        Inr (if messages = [] then Answer (''Added: '' @ l @ EOL) (defs @ [l]) lib' else Answer (''Compile Error'' @ EOL) defs lib')
      else if messages \<noteq> [] then Inr (Answer (''Compile error'' @ EOL) defs lib')
      else call_reply h lib' defs l)"

text \<open>The exit code, what is printed and what goes to the error stream in a session of \<open>n\<close> replies at most.\<close>

fun session :: "'lib host \<Rightarrow> nat \<Rightarrow> 'lib option \<Rightarrow> string list \<Rightarrow> string list \<Rightarrow> (int \<times> string \<times> string) res" where
  "session h n lib defs [] = Inr (0, ''>>> '', [])"
| "session h n lib defs (l # ls) =
     (if n = 0 then Inr (1, ''>>> '', [])
      else
        bindE (reply h lib defs l) (\<lambda>r.
        case r of
          Stop msg \<Rightarrow> Inr (1, ''>>> '', msg)
        | Answer out defs lib \<Rightarrow>
            bindE (session h (n - 1) lib defs ls) (\<lambda>(k, out', err). Inr (k, ''>>> '' @ out @ out', err))))"

definition text_line :: "string \<Rightarrow> bool" where
  "text_line l \<longleftrightarrow> CHR 0x0A \<notin> set l \<and> CHR 0x00 \<notin> set l \<and> length l < 1023"

section \<open>Lines\<close>

definition ready :: "string list \<Rightarrow> 'lib cstate \<Rightarrow> bool" where
  "ready defs s \<longleftrightarrow> c_files s FUNCFILENAME = Some (lines_text defs) \<and> list_all text_line defs"

lemma file_names [simp]:
  "EXEVFILENAME \<noteq> FUNCFILENAME" "TESTFILENAME \<noteq> FUNCFILENAME" "FUNCFILENAME \<noteq> EXEVFILENAME" "FUNCFILENAME \<noteq> TESTFILENAME"
  by (simp_all add: EXEVFILENAME_def FUNCFILENAME_def TESTFILENAME_def)

lemma c_str_text: "CHR 0x00 \<notin> set l \<Longrightarrow> c_str l = l"
  by (auto simp: c_str_def takeWhile_eq_all_conv)

lemma add_functions_copies:
  "list_all text_line ds \<Longrightarrow> c_files s EXEVFILENAME = Some t \<Longrightarrow>
   add_functions (lines_text ds) s = s\<lparr>c_files := (c_files s)(EXEVFILENAME := Some (t @ lines_text ds))\<rparr>"
proof (induction ds arbitrary: s t)
  case Nil
  then show ?case by (cases s) (auto simp: add_functions.simps lines_text_def fun_upd_idem)
next
  case (Cons d ds)
  have d: "text_line d" using Cons.prems(1) by simp
  have g: "p_fgets BUF_SIZE [] (d @ EOL @ lines_text ds) = (d @ EOL, lines_text ds)"
    using d by (intro p_fgets_newline) (simp_all add: text_line_def BUF_SIZE_def)
  have c: "c_str (d @ EOL) = d @ EOL" using d by (intro c_str_text) (simp add: text_line_def)
  let ?s = "c_fprintf EXEVFILENAME (d @ EOL) s"
  have "add_functions (lines_text (d # ds)) s = add_functions (lines_text ds) ?s"
    using g c by (subst add_functions.simps) (simp add: lines_text_def)
  also have "\<dots> = ?s\<lparr>c_files := (c_files ?s)(EXEVFILENAME := Some ((t @ d @ EOL) @ lines_text ds))\<rparr>"
    using Cons.prems by (intro Cons.IH) (simp_all add: c_fprintf_def)
  also have "\<dots> = s\<lparr>c_files := (c_files s)(EXEVFILENAME := Some (t @ lines_text (d # ds)))\<rparr>"
    using Cons.prems(2) by (simp add: c_fprintf_def lines_text_def fun_upd_def cong: if_cong)
  finally show ?case .
qed

lemma compile_reports:
  assumes "c_files s f = Some t" and "h_gcc h (Some t) = (messages, written)"
  shows "compile h f s = (if h_pipe h < length messages then Inl Diverge
    else Inr (length messages, s\<lparr>c_lib := if written = None then c_lib s else written, c_fds := c_fds s - 1\<rparr>))"
  using assms by (cases s) (auto simp: compile_def c_close_def Let_def guardE_def split: option.splits)

lemma define_replies:
  assumes r: "ready defs s" and l: "text_line l" and fd: "c_fds s + 2 \<le> h_maxfd h"
    and gcc: "h_gcc h (Some (l @ EOL)) = (messages, written)"
  shows "if h_pipe h < length messages then crepl_define h l s = Inl Diverge
    else \<exists>s'. crepl_define h l s = Inr (Continue s') \<and> c_fds s' = c_fds s + 1 \<and> ready (if messages = [] then defs @ [l] else defs) s' \<and>
      c_lib s' = (if written = None then c_lib s else written) \<and> c_err s' = c_err s \<and>
      c_out s' = c_out s @ (if messages = [] then ''Added: '' @ l @ EOL else ''Compile Error'' @ EOL)"
proof -
  let ?s = "s\<lparr>c_files := (c_files s)(TESTFILENAME := Some (l @ EOL)), c_fds := c_fds s + 2\<rparr>"
  have c: "compile h TESTFILENAME ?s = (if h_pipe h < length messages then Inl Diverge
    else Inr (length messages, ?s\<lparr>c_lib := if written = None then c_lib s else written, c_fds := c_fds s + 1\<rparr>))"
    using compile_reports [of ?s TESTFILENAME "l @ EOL" h, OF _ gcc] by simp
  have "crepl_define h l s = bindE (compile h TESTFILENAME ?s) (\<lambda>(cnt, s).
      if cnt \<noteq> 0 then Inr (Continue (c_printf (''Compile Error'' @ EOL) s))
      else let (ok, s) = fopen_a h FUNCFILENAME s in
        if \<not> ok then Inr (Return 1 s)
        else Inr (Continue (c_printf (''Added: '' @ l @ EOL) (c_close (c_fprintf FUNCFILENAME (l @ EOL) s)))))"
    using fd by (simp add: crepl_define_def fopen_w_def c_fprintf_def c_close_def open_pipe_def Let_def cong: if_cong)
  then show ?thesis unfolding c using r l fd
    by (auto simp: fopen_a_def c_fprintf_def c_close_def c_printf_def ready_def lines_text_def)
qed

lemma eval_compiles:
  assumes r: "ready defs s" and fd: "c_fds s + 2 \<le> h_maxfd h" and gcc: "h_gcc h (Some (program_text defs l)) = (messages, written)"
  shows "\<exists>s1. crepl_eval h l s = (if h_pipe h < length messages then Inl Diverge
      else if messages \<noteq> [] then Inr (Continue (c_printf (''Compile error'' @ EOL) s1)) else crepl_call h l s1) \<and>
    ready defs s1 \<and> c_fds s1 = c_fds s + 1 \<and> c_lib s1 = (if written = None then c_lib s else written) \<and> c_out s1 = c_out s \<and> c_err s1 = c_err s"
proof -
  let ?t = "program_text defs l"
  let ?s = "s\<lparr>c_files := (c_files s)(EXEVFILENAME := Some ?t), c_fds := c_fds s + 2\<rparr>"
  have c: "compile h EXEVFILENAME ?s = (if h_pipe h < length messages then Inl Diverge
    else Inr (length messages, ?s\<lparr>c_lib := if written = None then c_lib s else written, c_fds := c_fds s + 1\<rparr>))"
    using compile_reports [of ?s EXEVFILENAME ?t h, OF _ gcc] by simp
  have "crepl_eval h l s = bindE (compile h EXEVFILENAME ?s) (\<lambda>(cnt, s).
      if cnt \<noteq> 0 then Inr (Continue (c_printf (''Compile error'' @ EOL) s)) else crepl_call h l s)"
    using fd r by (simp add: crepl_eval_def fopen_w_def fopen_r_def ready_def Let_def c_close_def c_fprintf_def open_pipe_def program_text_def
      add_functions_copies [where t = "[]"])
  then show ?thesis unfolding c using r
    by (intro exI [of _ "?s\<lparr>c_lib := if written = None then c_lib s else written, c_fds := c_fds s + 1\<rparr>"]) (simp add: ready_def)
qed

text \<open>The interpreter replies to a line as specified.\<close>

fun does_reply :: "'lib creply res \<Rightarrow> 'lib cstate \<Rightarrow> 'lib line_reply res \<Rightarrow> bool" where
  "does_reply x s (Inl e) \<longleftrightarrow> x = Inl e"
| "does_reply x s (Inr (Stop msg)) \<longleftrightarrow> (\<exists>s'. x = Inr (Return 1 s') \<and> c_out s' = c_out s \<and> c_err s' = c_err s @ msg)"
| "does_reply x s (Inr (Answer out defs lib)) \<longleftrightarrow> (\<exists>s'. x = Inr (Continue s') \<and> c_fds s' = c_fds s + 1 \<and> ready defs s' \<and>
     c_lib s' = lib \<and> c_out s' = c_out s @ out \<and> c_err s' = c_err s)"

lemma call_replies:
  assumes "ready defs s1" and "c_fds s1 = c_fds s + 1" and "c_out s1 = c_out s" and "c_err s1 = c_err s"
  shows "does_reply (crepl_call h l s1) s (call_reply h (c_lib s1) defs l)"
  using assms by (auto simp: crepl_call_def call_reply_def ready_def c_printf_def split: sum.split)

lemma line_replies:
  assumes r: "ready defs s" and l: "text_line l" and fd: "c_fds s + 2 \<le> h_maxfd h"
  shows "does_reply (if take 3 l = ''int'' then crepl_define h l s else crepl_eval h l s) s (reply h (c_lib s) defs l)"
proof (cases "take 3 l = ''int''")
  case True
  obtain messages written where gcc: "h_gcc h (Some (l @ EOL)) = (messages, written)" by fastforce
  then show ?thesis using define_replies [OF r l fd gcc] True by (auto simp: reply_def split: if_splits)
next
  case False
  obtain messages written where gcc: "h_gcc h (Some (program_text defs l)) = (messages, written)" by fastforce
  obtain s1 where "crepl_eval h l s = (if h_pipe h < length messages then Inl Diverge
      else if messages \<noteq> [] then Inr (Continue (c_printf (''Compile error'' @ EOL) s1)) else crepl_call h l s1)"
    and s1: "ready defs s1" "c_fds s1 = c_fds s + 1" "c_lib s1 = (if written = None then c_lib s else written)" "c_out s1 = c_out s" "c_err s1 = c_err s"
    using eval_compiles [OF r fd gcc] by blast
  moreover have "ready defs (c_printf t s1)" for t using s1(1) by (simp add: ready_def c_printf_def)
  ultimately show ?thesis using False gcc s1 call_replies [OF s1(1,2,4,5), of h l] by (auto simp: reply_def c_printf_def)
qed

lemma line_stops:
  assumes r: "ready defs s" and fd: "Suc (c_fds s) = h_maxfd h" and b: "c_str buf \<noteq> []"
  shows "\<exists>s'. crepl_line h buf s = Inr (Return 1 s') \<and> c_out s' = c_out s \<and> c_err s' = c_err s"
  using fd r b
  by (simp add: crepl_line_def crepl_define_def crepl_eval_def fopen_w_def fopen_r_def c_fprintf_def c_close_def open_pipe_def Let_def)

section \<open>Sessions\<close>

lemma line_read:
  assumes "text_line l"
  shows "p_fgets BUF_SIZE [] (lines_text (l # ls)) = (l @ EOL, lines_text ls)" and "lines_text (l # ls) \<noteq> []"
    and "crepl_line h (l @ EOL) s = (if take 3 l = ''int'' then crepl_define h l s else crepl_eval h l s)"
proof -
  show "p_fgets BUF_SIZE [] (lines_text (l # ls)) = (l @ EOL, lines_text ls)"
    using p_fgets_newline [of l BUF_SIZE "[]" "lines_text ls"] assms by (simp add: text_line_def BUF_SIZE_def lines_text_def)
  show "lines_text (l # ls) \<noteq> []" by (simp add: lines_text_def)
  have "c_str (l @ EOL) = l @ EOL" using assms by (intro c_str_text) (simp add: text_line_def)
  then show "crepl_line h (l @ EOL) s = (if take 3 l = ''int'' then crepl_define h l s else crepl_eval h l s)" by (simp add: crepl_line_def)
qed

fun has_outcome :: "(int \<times> 'lib cstate) res \<Rightarrow> string \<Rightarrow> string \<Rightarrow> (int \<times> string \<times> string) res \<Rightarrow> bool" where
  "has_outcome x out0 err0 (Inl e) \<longleftrightarrow> x = Inl e"
| "has_outcome x out0 err0 (Inr (k, out, err)) \<longleftrightarrow> (\<exists>s'. x = Inr (k, s') \<and> c_out s' = out0 @ out \<and> c_err s' = err0 @ err)"

lemma loop_session:
  assumes "ready defs s" and "list_all text_line ls" and "c_fds s < h_maxfd h"
  shows "has_outcome (crepl_loop h (lines_text ls) s) (c_out s) (c_err s) (session h (h_maxfd h - Suc (c_fds s)) (c_lib s) defs ls)"
  using assms
proof (induction ls arbitrary: defs s)
  case Nil
  then show ?case by (simp add: crepl_loop.simps lines_text_def c_printf_def Let_def)
next
  case (Cons l ls)
  let ?s = "c_printf ''>>> '' s" and ?n = "h_maxfd h - Suc (c_fds s)"
  have l: "text_line l" and ls: "list_all text_line ls" using Cons.prems(2) by simp_all
  have r: "ready defs ?s" and s: "c_fds ?s = c_fds s" "c_lib ?s = c_lib s" "c_err ?s = c_err s" "c_out ?s = c_out s @ ''>>> ''"
    using Cons.prems(1) by (simp_all add: ready_def c_printf_def)
  have step: "crepl_loop h (lines_text (l # ls)) s = bindE (crepl_line h (l @ EOL) ?s) (\<lambda>r.
      case r of Continue s \<Rightarrow> crepl_loop h (lines_text ls) s | Return k s \<Rightarrow> Inr (k, s))"
    using line_read(1,2) [OF l, of ls] by (subst crepl_loop.simps) (simp add: Let_def)
  show ?case
  proof (cases "c_fds s + 2 \<le> h_maxfd h")
    case True
    then have n: "?n \<noteq> 0" by simp
    have rep: "does_reply (crepl_line h (l @ EOL) ?s) ?s (reply h (c_lib s) defs l)"
      using line_replies [OF r l, of h] True by (simp add: line_read(3) [OF l] s)
    consider e where "reply h (c_lib s) defs l = Inl e" | msg where "reply h (c_lib s) defs l = Inr (Stop msg)" |
      out defs' lib where "reply h (c_lib s) defs l = Inr (Answer out defs' lib)"
      by (metis sum.exhaust line_reply.exhaust)
    then show ?thesis
    proof cases
      case (3 out defs' lib)
      then obtain s' where s': "crepl_line h (l @ EOL) ?s = Inr (Continue s')" "c_fds s' = c_fds s + 1" "ready defs' s'"
        "c_lib s' = lib" "c_out s' = c_out s @ ''>>> '' @ out" "c_err s' = c_err s" using rep s by auto
      have "h_maxfd h - Suc (c_fds s') = ?n - 1" using s'(2) by simp
      then have "has_outcome (crepl_loop h (lines_text ls) s') (c_out s @ ''>>> '' @ out) (c_err s) (session h (?n - 1) lib defs' ls)"
        using Cons.IH [OF s'(3) ls] s' True by simp
      then show ?thesis using n 3 step s'(1) by (cases "session h (?n - 1) lib defs' ls") auto
    qed (use rep n step s in auto)
  next
    case False
    then have "Suc (c_fds ?s) = h_maxfd h" using Cons.prems(3) s by simp
    moreover have "c_str (l @ EOL) \<noteq> []" using l by (simp add: c_str_text text_line_def)
    ultimately obtain s' where "crepl_line h (l @ EOL) ?s = Inr (Return 1 s')" "c_out s' = c_out ?s" "c_err s' = c_err ?s"
      using line_stops [OF r] by blast
    then show ?thesis using step \<open>Suc (c_fds ?s) = h_maxfd h\<close> s by auto
  qed
qed

lemma loop_after_lines:
  assumes "\<And>s. crepl_loop h r s = crepl_loop h r' s" and "list_all text_line ls"
  shows "crepl_loop h (lines_text ls @ r) s = crepl_loop h (lines_text ls @ r') s"
  using assms(2)
proof (induction ls arbitrary: s)
  case (Cons l ls)
  have g: "p_fgets BUF_SIZE [] (lines_text (l # ls) @ x) = (l @ EOL, lines_text ls @ x)" for x
    using p_fgets_newline [of l BUF_SIZE "[]" "lines_text ls @ x"] Cons.prems by (simp add: text_line_def BUF_SIZE_def lines_text_def)
  have step: "crepl_loop h (lines_text (l # ls) @ x) s = bindE (crepl_line h (l @ EOL) (c_printf ''>>> '' s)) (\<lambda>r.
      case r of Continue s \<Rightarrow> crepl_loop h (lines_text ls @ x) s | Return k s \<Rightarrow> Inr (k, s))" for x
    using g [of x] by (subst crepl_loop.simps) (simp add: Let_def lines_text_def)
  show ?case unfolding step using Cons by (auto intro: bindE_cong split: creply.split)
qed (simp add: lines_text_def assms(1))

text \<open>A last line that does not end with a newline loses its last character.\<close>

theorem crepl_drops_last:
  assumes "list_all text_line ls" and l: "text_line l" and "c \<noteq> CHR 0x0A" and "c \<noteq> CHR 0x00"
  shows "crepl_main h (lines_text ls @ l @ [c]) s = crepl_main h (lines_text (ls @ [l])) s"
proof -
  have t: "takeWhile (\<lambda>c. c \<noteq> CHR 0x0A) (l @ [c]) = l @ [c]" using l assms(3) by (auto simp: takeWhile_eq_all_conv text_line_def)
  have "take (BUF_SIZE - 1) (take (Suc (length (l @ [c]))) (l @ [c])) = l @ [c]"
    using l by (subst take_all, simp)+ (simp_all add: BUF_SIZE_def text_line_def)
  then have g: "p_fgets BUF_SIZE [] (l @ [c]) = (l @ [c], [])" unfolding p_fgets_def t Let_def by (simp del: take_append)
  have "c_str (l @ [c]) = l @ [c]" using l assms(4) by (intro c_str_text) (auto simp: text_line_def)
  then have "crepl_line h (l @ [c]) s = crepl_line h (l @ EOL) s" for s unfolding line_read(3) [OF l] by (simp add: crepl_line_def)
  then have "crepl_loop h (l @ [c]) s = crepl_loop h (lines_text [l]) s" for s
    using g line_read(1,2) [OF l, of "[]"] by (subst (1 2) crepl_loop.simps) (simp add: Let_def lines_text_def)
  from loop_after_lines [OF this assms(1)] have "crepl_loop h (lines_text ls @ l @ [c]) s = crepl_loop h (lines_text (ls @ [l])) s" for s
    by (simp add: lines_text_def)
  then show ?thesis by (simp add: crepl_main_def cong: if_cong)
qed

text \<open>
  C35: a session with the interpreter, for every compiler, loader and called functions, when the input is lines of text that fit the buffer and there are descriptors for its files.
  The interpreter prints the replies to the lines in order, each compiled with the definitions accepted before it, returns 0 at the end of the input and removes its files.
  One descriptor stays open for each line, so that it returns 1 at the line for which they do not suffice; it returns 1 as well, with the message of the loader,
  when a program that compiled cannot be loaded.  It does not return when the messages of the compiler for a line exceed the pipe or the called function fails, and then only.
\<close>

theorem crepl_session:
  assumes "list_all text_line ls" and "c_fds s + 3 \<le> h_maxfd h"
  shows "case session h (h_maxfd h - Suc (c_fds s)) (c_lib s) [] ls of
      Inl e \<Rightarrow> crepl_main h (lines_text ls) s = Inl e
    | Inr (k, out, err) \<Rightarrow> \<exists>s'. crepl_main h (lines_text ls) s = Inr (k, s') \<and>
        c_out s' = c_out s @ ''Crepl 1.0.0 ('' @ h_arch h @ '') (copyright: Lanceloia)'' @ EOL @ out @ ''exit'' @ EOL \<and> c_err s' = c_err s @ err \<and>
        c_files s' EXEVFILENAME = None \<and> c_files s' FUNCFILENAME = None \<and> c_files s' TESTFILENAME = None"
proof -
  let ?s = "c_printf (''Crepl 1.0.0 ('' @ h_arch h @ '') (copyright: Lanceloia)'' @ EOL) s"
  let ?i = "?s\<lparr>c_files := (c_files s)(EXEVFILENAME := Some [], FUNCFILENAME := Some [], TESTFILENAME := Some []), c_fds := c_fds s\<rparr>"
  have "ready [] ?i" by (simp add: ready_def lines_text_def)
  then have oc: "has_outcome (crepl_loop h (lines_text ls) ?i) (c_out ?s) (c_err s) (session h (h_maxfd h - Suc (c_fds s)) (c_lib s) [] ls)"
    using loop_session [OF _ assms(1), of "[]" ?i h] assms(2) by (simp add: c_printf_def)
  have "crepl_main h (lines_text ls) s = bindE (crepl_loop h (lines_text ls) ?i) (\<lambda>(k, s). Inr (k, CLOSE s))"
    using assms(2) by (simp add: crepl_main_def fopen_w_def c_close_def c_printf_def Let_def)
  then show ?thesis using oc by (auto simp: CLOSE_def c_printf_def split: sum.split)
qed

text \<open>A host whose compiler rejects a question mark, and whose programs return the number of their lines.\<close>

definition demo_host :: "string host" where
  "demo_host = \<lparr>h_arch = ''x86_64'', h_maxfd = 7, h_pipe = 100,
     h_gcc = (\<lambda>f. case f of None \<Rightarrow> (''no file'', None) | Some t \<Rightarrow> if CHR ''?'' \<in> set t then (''error'', None) else ([], Some t)),
     h_dlopen = (\<lambda>l. case l of None \<Rightarrow> Inl ''no library'' | Some t \<Rightarrow> Inr t),
     h_dlsym = (\<lambda>t f. Inr (Inr ([], int (count_list t (CHR 0x0A)))))\<rparr>"

theorem crepl_session_witness:
  "\<exists>s'. crepl_main demo_host (lines_text [''int f() { return 1; }'', ''f() + ?'', ''f()'', ''f()'']) \<lparr>c_files = Map.empty, c_lib = None, c_fds = 3, c_out = [], c_err = []\<rparr> = Inr (1, s') \<and>
    c_out s' = ''Crepl 1.0.0 (x86_64) (copyright: Lanceloia)'' @ EOL @ ''>>> Added: int f() { return 1; }'' @ EOL @ ''>>> Compile error'' @ EOL @
      ''>>> (f()) == 4'' @ EOL @ ''>>> exit'' @ EOL"
proof -
  let ?ls = "[''int f() { return 1; }'', ''f() + ?'', ''f()'', ''f()'']"
  let ?s = "\<lparr>c_files = Map.empty, c_lib = None, c_fds = 3, c_out = [], c_err = []\<rparr> :: string cstate"
  have l: "list_all text_line ?ls" by (simp add: text_line_def)
  have a: "session demo_host 3 None [] ?ls = Inr (1, ''>>> Added: int f() { return 1; }'' @ EOL @ ''>>> Compile error'' @ EOL @ ''>>> (f()) == 4'' @ EOL @ ''>>> '', [])"
    by (simp add: demo_host_def reply_def call_reply_def program_text_def lines_text_def Template1_def Template2_def EXEVFUNCNAME_def dec_int_def dec_nat.simps)
  have "c_fds ?s + 3 \<le> h_maxfd demo_host" by (simp add: demo_host_def)
  from crepl_session [OF l this] a show ?thesis by (auto simp: demo_host_def)
qed

end
