(* ===== verification/Boot.thy ===== *)
theory Boot
  imports Prelude "HOL-Library.Signed_Division"
begin

text \<open>
  The boot loader of \<^verbatim>\<open>am/src/x86/qemu/boot/main.c\<close>: it reads the kernel, an ELF file behind the boot sector, from the disk
  into memory and jumps to it.  Memory is a function of the address, an integer below \<^verbatim>\<open>2^32\<close>; \<open>adr\<close> stands where
  pointer arithmetic wraps.  The disk is a function of the sector and the offset in it; it answers every
  request, so that \<^verbatim>\<open>waitdisk\<close> returns.
\<close>

type_synonym bmem = "int \<Rightarrow> u8"
type_synonym bdisk = "int \<Rightarrow> nat \<Rightarrow> u8"

definition adr :: "int \<Rightarrow> int" where "adr a = a mod 2 ^ 32"

definition SECTSIZE :: nat where "SECTSIZE = 512"

definition mem16 :: "bmem \<Rightarrow> int \<Rightarrow> int" where
  "mem16 m a = uint (m a) + 2 ^ 8 * uint (m (adr (a + 1)))"

definition mem32 :: "bmem \<Rightarrow> int \<Rightarrow> int" where
  "mem32 m a = mem16 m a + 2 ^ 16 * mem16 m (adr (a + 2))"

text \<open>A 32-bit number as an \<^verbatim>\<open>int\<close>.\<close>

definition as_int :: "int \<Rightarrow> int" where
  "as_int i = (i + 2 ^ 31) mod 2 ^ 32 - 2 ^ 31"

section \<open>Sectors\<close>

text \<open>The registers of the disk controller that address a sector.\<close>

record ata =
  ata_count :: u8
  ata_lo :: u8
  ata_mid :: u8
  ata_hi :: u8
  ata_dev :: u8

definition out_byte :: "nat \<Rightarrow> u8 \<Rightarrow> ata \<Rightarrow> ata" where
  "out_byte port v r =
     (if port = 0x1F2 then r\<lparr>ata_count := v\<rparr>
      else if port = 0x1F3 then r\<lparr>ata_lo := v\<rparr>
      else if port = 0x1F4 then r\<lparr>ata_mid := v\<rparr>
      else if port = 0x1F5 then r\<lparr>ata_hi := v\<rparr>
      else if port = 0x1F6 then r\<lparr>ata_dev := v\<rparr>
      else r)"

text \<open>The sector that the controller delivers: 28 bits.\<close>

definition ata_sector :: "ata \<Rightarrow> int" where
  "ata_sector r = uint (ata_lo r) + 2 ^ 8 * uint (ata_mid r) + 2 ^ 16 * uint (ata_hi r) + 2 ^ 24 * uint (ata_dev r AND 0x0f)"

definition ata_request :: "int \<Rightarrow> ata \<Rightarrow> ata" where
  "ata_request offset r =
     (let r = out_byte 0x1F2 1 r;
          r = out_byte 0x1F3 (word_of_int offset) r;
          r = out_byte 0x1F4 (word_of_int (offset div 2 ^ 8)) r;
          r = out_byte 0x1F5 (word_of_int (offset div 2 ^ 16)) r;
          r = out_byte 0x1F6 (word_of_int (offset div 2 ^ 24) OR 0xE0) r
      in out_byte 0x1F7 0x20 r)"

text \<open>The port delivers four bytes at a time.\<close>

definition store_long :: "bdisk \<Rightarrow> int \<Rightarrow> int \<Rightarrow> nat \<Rightarrow> bmem \<Rightarrow> bmem" where
  "store_long disk sec dst i m = fold (\<lambda>k m. m(adr (dst + int (4 * i + k)) := disk sec (4 * i + k))) [0..<4] m"

definition readsect :: "bdisk \<Rightarrow> int \<Rightarrow> int \<Rightarrow> ata \<times> bmem \<Rightarrow> ata \<times> bmem" where
  "readsect disk dst offset s =
     (let r = ata_request offset (fst s)
      in (r, fold (store_long disk (ata_sector r) dst) [0..<SECTSIZE div 4] (snd s)))"

text \<open>
  The loop \<^verbatim>\<open>for(; pa < epa; pa += SECTSIZE, offset ++)\<close>.  When the pointer wraps it starts below \<^verbatim>\<open>epa\<close> again and never gets
  beyond it.
\<close>

function readseg_loop :: "bdisk \<Rightarrow> int \<Rightarrow> int \<Rightarrow> int \<Rightarrow> ata \<times> bmem \<Rightarrow> (ata \<times> bmem) res" where
  "readseg_loop disk pa epa offset s =
     (if pa < epa then
        let s = readsect disk pa offset s in
        if 2 ^ 32 \<le> pa + 512 then Inl Diverge
        else readseg_loop disk (pa + 512) epa (offset + 1) s
      else Inr s)"
  by pat_completeness auto
termination
  by (relation "measure (\<lambda>(disk, pa, epa, offset, s). nat (epa - pa))") auto

declare readseg_loop.simps [simp del]

definition readseg :: "bdisk \<Rightarrow> int \<Rightarrow> int \<Rightarrow> int \<Rightarrow> ata \<times> bmem \<Rightarrow> (ata \<times> bmem) res" where
  "readseg disk pa count offset s =
     (let epa = adr (pa + count);
          pa = adr (pa - offset smod 512);
          offset = offset sdiv 512 + 1
      in readseg_loop disk pa epa offset s)"

section \<open>Loading\<close>

text \<open>The loop \<^verbatim>\<open>for (i = pa + ph->filesz; i < pa + ph->memsz; *i ++ = 0)\<close>, which reads the header each time.\<close>

function zero_loop :: "int \<Rightarrow> int \<Rightarrow> int \<Rightarrow> bmem \<Rightarrow> bmem" where
  "zero_loop ph pa i m =
     (if i < adr (pa + mem32 m (adr (ph + 20))) then zero_loop ph pa (i + 1) (m(i := 0)) else m)"
  by pat_completeness auto
termination
proof (relation "measure (\<lambda>(ph, pa, i, m). nat (2 ^ 32 - i))")
  fix ph pa i :: int and m :: bmem
  assume "i < adr (pa + mem32 m (adr (ph + 20)))"
  moreover have "adr (pa + mem32 m (adr (ph + 20))) < 2 ^ 32" by (simp add: adr_def)
  ultimately have "i < 2 ^ 32" by (rule order.strict_trans)
  then show "((ph, pa, i + 1, m(i := 0)), ph, pa, i, m) \<in> measure (\<lambda>(ph, pa, i, m). nat (2 ^ 32 - i))" by simp
qed simp

declare zero_loop.simps [simp del]

definition load_segment :: "bdisk \<Rightarrow> int \<Rightarrow> ata \<times> bmem \<Rightarrow> (ata \<times> bmem) res" where
  "load_segment disk ph s =
     (let pa = mem32 (snd s) (adr (ph + 12)) in
      bindE (readseg disk pa (as_int (mem32 (snd s) (adr (ph + 16)))) (as_int (mem32 (snd s) (adr (ph + 4)))) s) (\<lambda>s.
      Inr (fst s, zero_loop ph pa (adr (pa + mem32 (snd s) (adr (ph + 16)))) (snd s))))"

function load_loop :: "bdisk \<Rightarrow> int \<Rightarrow> int \<Rightarrow> ata \<times> bmem \<Rightarrow> (ata \<times> bmem) res" where
  "load_loop disk ph eph s =
     (if ph < eph then bindE (load_segment disk ph s) (\<lambda>s. load_loop disk (ph + 32) eph s) else Inr s)"
  by pat_completeness auto
termination
  by (relation "measure (\<lambda>(disk, ph, eph, s). nat (eph - ph))") auto

declare load_loop.simps [simp del]

definition ELF_ADDR :: int where "ELF_ADDR = 0x8000"
definition BOOT_INFO :: int where "BOOT_INFO = 0x7000"

text \<open>The loader ends by a jump; the result is its target and the state.  Another processor jumps to the entry that the first one left.\<close>

definition bootmain :: "bdisk \<Rightarrow> ata \<times> bmem \<Rightarrow> (int \<times> ata \<times> bmem) res" where
  "bootmain disk s =
     (if mem32 (snd s) BOOT_INFO = 1 then Inr (mem32 (snd s) (BOOT_INFO + 4), s)
      else
        bindE (readseg disk ELF_ADDR 4096 0 s) (\<lambda>s.
        let ph = adr (ELF_ADDR + mem32 (snd s) (ELF_ADDR + 28));
            eph = adr (ph + 32 * mem16 (snd s) (ELF_ADDR + 44)) in
        bindE (load_loop disk ph eph s) (\<lambda>s.
        Inr (mem32 (snd s) (ELF_ADDR + 24), s))))"

end
