(* ===== verification/Boot_Correct.thy ===== *)
theory Boot_Correct
  imports Boot
begin

text \<open>
  The boot loader loads the kernel: every segment of the file stands in memory with its contents and its zeroes, although whole sectors are
  read, and the jump goes to the entry of the file.
\<close>

section \<open>A sector\<close>

lemma ata_sector_request: "ata_sector (ata_request offset r) = offset mod 2 ^ 28"
proof -
  have d: "uint ((word_of_int x OR 0xE0 :: u8) AND 0x0f) = x mod 16" for x
  proof -
    have "(word_of_int x OR 0xE0 :: u8) AND 0x0f = (word_of_int x AND 0x0f) OR (0xE0 AND 0x0f)" by (rule bit.conj_disj_distrib2)
    then have "(word_of_int x OR 0xE0 :: u8) AND 0x0f = take_bit 4 (word_of_int x)" by (simp add: take_bit_eq_mask mask_numeral)
    then have "uint ((word_of_int x OR 0xE0 :: u8) AND 0x0f) = take_bit 4 (uint (word_of_int x :: u8))" by (simp only: unsigned_take_bit_eq)
    also have "\<dots> = x mod 16" by (simp add: uint_word_of_int take_bit_eq_mod mod_mod_cancel)
    finally show ?thesis .
  qed
  have m: "offset mod (2 ^ i * 2 ^ j) = 2 ^ i * (offset div 2 ^ i mod 2 ^ j) + offset mod 2 ^ i" for i j by (rule zmod_zmult2_eq) simp
  have "(2 :: int) ^ 28 = 2 ^ 24 * 2 ^ 4" "(2 :: int) ^ 24 = 2 ^ 16 * 2 ^ 8" "(2 :: int) ^ 16 = 2 ^ 8 * 2 ^ 8" by simp_all
  then have "offset mod 2 ^ 28 = 2 ^ 24 * (offset div 2 ^ 24 mod 2 ^ 4) + offset mod 2 ^ 24"
    "offset mod 2 ^ 24 = 2 ^ 16 * (offset div 2 ^ 16 mod 2 ^ 8) + offset mod 2 ^ 16" "offset mod 2 ^ 16 = 2 ^ 8 * (offset div 2 ^ 8 mod 2 ^ 8) + offset mod 2 ^ 8"
    using m [of 24 4] m [of 16 8] m [of 8 8] by argo+
  then have e: "offset mod 2 ^ 28 = offset mod 2 ^ 8 + 2 ^ 8 * (offset div 2 ^ 8 mod 2 ^ 8) + 2 ^ 16 * (offset div 2 ^ 16 mod 2 ^ 8) + 2 ^ 24 * (offset div 2 ^ 24 mod 2 ^ 4)"
    by linarith
  have u: "uint (word_of_int x :: u8) = x mod 2 ^ 8" for x by (simp add: uint_word_of_int)
  have "ata_lo (ata_request offset r) = word_of_int offset" "ata_mid (ata_request offset r) = word_of_int (offset div 2 ^ 8)"
    "ata_hi (ata_request offset r) = word_of_int (offset div 2 ^ 16)" "ata_dev (ata_request offset r) = word_of_int (offset div 2 ^ 24) OR 0xE0"
    by (simp_all add: ata_request_def out_byte_def Let_def)
  then show ?thesis unfolding ata_sector_def e by (simp only: u d) simp
qed

lemma store_bytes_at:
  assumes "0 \<le> dst" and "dst + int (i + n) \<le> 2 ^ 32"
  shows "fold (\<lambda>k m. m(adr (dst + int (i + k)) := disk sec (i + k))) [0..<n] m a =
    (if dst + int i \<le> a \<and> a < dst + int (i + n) then disk sec (nat (a - dst)) else m a)"
  using assms(2)
proof (induction n)
  case (Suc n)
  have "adr (dst + int (i + n)) = dst + int (i + n)" using assms(1) Suc.prems by (simp add: adr_def)
  moreover have "nat (dst + int (i + n) - dst) = i + n" by simp
  ultimately show ?case using Suc by auto
qed auto

lemma store_long_at:
  assumes "0 \<le> dst" and "dst + 4 * int i + 4 \<le> 2 ^ 32"
  shows "store_long disk sec dst i m a =
    (if dst + 4 * int i \<le> a \<and> a < dst + 4 * int i + 4 then disk sec (nat (a - dst)) else m a)"
  using store_bytes_at [OF assms(1), of "4 * i" 4 disk sec m a] assms(2) by (simp add: store_long_def add.assoc)

lemma store_longs_at:
  assumes "0 \<le> dst" and "dst + 4 * int n \<le> 2 ^ 32"
  shows "fold (store_long disk sec dst) [0..<n] m a = (if dst \<le> a \<and> a < dst + 4 * int n then disk sec (nat (a - dst)) else m a)"
  using assms(2)
proof (induction n)
  case (Suc n)
  then have "dst + 4 * int n + 4 \<le> 2 ^ 32" by simp
  then show ?case using Suc by (auto simp: store_long_at [OF assms(1)])
qed auto

lemma readsect_at:
  assumes "0 \<le> dst" and "dst + 512 \<le> 2 ^ 32"
  shows "snd (readsect disk dst offset s) a = (if dst \<le> a \<and> a < dst + 512 then disk (offset mod 2 ^ 28) (nat (a - dst)) else snd s a)"
  using store_longs_at [OF assms(1), of 128] assms(2) by (simp add: readsect_def Let_def SECTSIZE_def ata_sector_request)

section \<open>A range of the file\<close>

text \<open>The file stands on the disk behind the boot sector.\<close>

definition file_on :: "bdisk \<Rightarrow> (int \<Rightarrow> u8) \<Rightarrow> bool" where
  "file_on disk img \<longleftrightarrow> (\<forall>k j. 0 \<le> k \<and> k < 2 ^ 28 - 1 \<and> j < 512 \<longrightarrow> disk (k + 1) j = img (512 * k + int j))"

lemma readseg_loop_at:
  assumes f: "file_on disk img" and "0 \<le> pa" and "pa + 512 * int n < 2 ^ 32" and "epa \<le> pa + 512 * int n" and "0 < n \<Longrightarrow> pa + 512 * int n - 512 < epa"
    and "0 \<le> k" and "k + int n < 2 ^ 28" and "n = 0 \<Longrightarrow> epa \<le> pa"
  shows "\<exists>r m. readseg_loop disk pa epa (k + 1) s = Inr (r, m) \<and>
    (\<forall>a. m a = (if pa \<le> a \<and> a < pa + 512 * int n then img (512 * k + (a - pa)) else snd s a))"
  using assms(2-)
proof (induction n arbitrary: pa k s)
  case 0
  then show ?case by (cases s) (auto simp: readseg_loop.simps)
next
  case (Suc n)
  let ?s = "readsect disk pa (k + 1) s"
  have lt: "pa < epa" using Suc.prems(1,4) by simp
  have sec: "snd ?s a = (if pa \<le> a \<and> a < pa + 512 then img (512 * k + (a - pa)) else snd s a)" for a
  proof -
    have "(k + 1) mod 2 ^ 28 = k + 1" using Suc.prems(5,6) by simp
    moreover have "disk (k + 1) (nat (a - pa)) = img (512 * k + (a - pa))" if "pa \<le> a" "a < pa + 512"
      using f Suc.prems(5,6) that by (simp add: file_on_def nat_less_iff)
    ultimately show ?thesis using readsect_at [of pa disk "k + 1" s a] Suc.prems(1,2) by auto
  qed
  obtain r m where m: "readseg_loop disk (pa + 512) epa (k + 1 + 1) ?s = Inr (r, m)"
    "\<forall>a. m a = (if pa + 512 \<le> a \<and> a < pa + 512 + 512 * int n then img (512 * (k + 1) + (a - (pa + 512))) else snd ?s a)"
    using Suc.IH [of "pa + 512" "k + 1" ?s] Suc.prems by auto
  have "readseg_loop disk pa epa (k + 1) s = Inr (r, m)"
    using m(1) lt Suc.prems(2) by (subst readseg_loop.simps) (simp add: Let_def)
  then show ?case using m(2) sec by (auto simp: algebra_simps)
qed

definition sectors_for :: "int \<Rightarrow> int \<Rightarrow> nat" where
  "sectors_for offset count = nat ((offset mod 512 + count + 511) div 512)"

lemma sectors_int: "0 \<le> count \<Longrightarrow> int (sectors_for offset count) = (offset mod 512 + count + 511) div 512"
proof -
  assume "0 \<le> count"
  moreover have "0 \<le> offset mod 512" by simp
  ultimately have "0 \<le> (offset mod 512 + count + 511) div 512" by (intro pos_imp_zdiv_nonneg_iff [THEN iffD2]) linarith+
  then show ?thesis by (simp add: sectors_for_def)
qed

text \<open>The memory that reading a range writes: whole sectors.\<close>

definition span :: "int \<Rightarrow> int \<Rightarrow> int \<Rightarrow> int set" where
  "span pa count offset = {pa - offset mod 512..<pa - offset mod 512 + 512 * int (sectors_for offset count)}"

definition range_ok :: "int \<Rightarrow> int \<Rightarrow> int \<Rightarrow> bool" where
  "range_ok pa count offset \<longleftrightarrow> 0 \<le> offset \<and> 0 \<le> count \<and> offset mod 512 \<le> pa \<and>
     pa - offset mod 512 + 512 * int (sectors_for offset count) < 2 ^ 32 \<and> offset div 512 + int (sectors_for offset count) < 2 ^ 28"

lemma readseg_at:
  assumes f: "file_on disk img" and ok: "range_ok pa count offset"
  shows "\<exists>r m. readseg disk pa count offset s = Inr (r, m) \<and>
    (\<forall>a. m a = (if a \<in> span pa count offset then img (offset + (a - pa)) else snd s a))"
proof -
  let ?r = "offset mod 512" and ?n = "sectors_for offset count"
  have o: "0 \<le> offset" "0 \<le> count" "?r \<le> pa" "pa - ?r + 512 * int ?n < 2 ^ 32" "offset div 512 + int ?n < 2 ^ 28" using ok by (simp_all add: range_ok_def)
  have n: "int ?n = (?r + count + 511) div 512" using sectors_int [OF o(2)] .
  have e: "pa + count \<le> pa - ?r + 512 * int ?n" "0 < ?n \<Longrightarrow> pa - ?r + 512 * int ?n - 512 < pa + count" "?n = 0 \<Longrightarrow> pa + count \<le> pa - ?r"
    using n o by linarith+
  have a: "adr (pa + count) = pa + count" "adr (pa - ?r) = pa - ?r" using e(1) o by (simp_all add: adr_def)
  have d: "offset smod 512 = ?r" "offset sdiv 512 = offset div 512" using o by (simp_all add: signed_modulo_int_def signed_divide_int_def sgn_if)
  have p: "512 * (offset div 512) + (a - (pa - ?r)) = offset + (a - pa)" for a by simp
  have q: "0 \<le> offset div 512" using o(1) by simp
  have "\<exists>r m. readseg_loop disk (pa - ?r) (pa + count) (offset div 512 + 1) s = Inr (r, m) \<and>
    (\<forall>a. m a = (if pa - ?r \<le> a \<and> a < pa - ?r + 512 * int ?n then img (offset + (a - pa)) else snd s a))"
    using readseg_loop_at [OF f _ o(4) e(1,2) q o(5) e(3), of s] o(3) unfolding p by simp
  then show ?thesis by (simp add: readseg_def Let_def a d span_def)
qed

lemma span_covers: "range_ok pa count offset \<Longrightarrow> pa \<le> a \<Longrightarrow> a < pa + count \<Longrightarrow> a \<in> span pa count offset"
proof -
  assume ok: "range_ok pa count offset" and a: "pa \<le> a" "a < pa + count"
  have "0 \<le> offset mod 512" by simp
  moreover have "int (sectors_for offset count) = (offset mod 512 + count + 511) div 512" using ok by (intro sectors_int) (simp add: range_ok_def)
  ultimately show ?thesis using a unfolding span_def atLeastLessThan_iff by linarith
qed

section \<open>Segments\<close>

record segment =
  g_off :: int
  g_pa :: int
  g_filesz :: int
  g_memsz :: int

definition segment_at :: "(int \<Rightarrow> u8) \<Rightarrow> int \<Rightarrow> segment" where
  "segment_at img b = \<lparr>g_off = mem32 img (b + 4), g_pa = mem32 img (b + 12), g_filesz = mem32 img (b + 16), g_memsz = mem32 img (b + 20)\<rparr>"

definition segments :: "(int \<Rightarrow> u8) \<Rightarrow> segment list" where
  "segments img = map (\<lambda>i. segment_at img (mem32 img 28 + 32 * int i)) [0..<nat (mem16 img 44)]"

definition header_area :: "int set" where "header_area = {ELF_ADDR..<ELF_ADDR + 4096}"

definition touches :: "segment \<Rightarrow> int set" where
  "touches g = span (g_pa g) (g_filesz g) (g_off g) \<union> {g_pa g + g_filesz g..<g_pa g + g_memsz g}"

definition region :: "segment \<Rightarrow> int set" where
  "region g = {g_pa g..<g_pa g + g_filesz g} \<union> {g_pa g + g_filesz g..<g_pa g + g_memsz g}"

definition seg_ok :: "segment \<Rightarrow> bool" where
  "seg_ok g \<longleftrightarrow> range_ok (g_pa g) (g_filesz g) (g_off g) \<and> g_off g < 2 ^ 31 \<and> g_filesz g < 2 ^ 31 \<and> 0 \<le> g_memsz g \<and> g_pa g + g_memsz g < 2 ^ 32 \<and>
     touches g \<inter> header_area = {}"

text \<open>What a loaded segment looks like.\<close>

definition loaded :: "(int \<Rightarrow> u8) \<Rightarrow> segment \<Rightarrow> bmem \<Rightarrow> bool" where
  "loaded img g m \<longleftrightarrow> (\<forall>k. 0 \<le> k \<and> k < g_filesz g \<longrightarrow> m (g_pa g + k) = img (g_off g + k)) \<and>
     (\<forall>k. g_filesz g \<le> k \<and> k < g_memsz g \<longrightarrow> m (g_pa g + k) = 0)"

lemma loaded_cong: "loaded img g m \<Longrightarrow> 0 \<le> g_filesz g \<Longrightarrow> (\<And>a. a \<in> region g \<Longrightarrow> m' a = m a) \<Longrightarrow> loaded img g m'"
  by (auto simp: loaded_def region_def)

section \<open>The header in memory\<close>

definition in_header :: "bmem \<Rightarrow> (int \<Rightarrow> u8) \<Rightarrow> bool" where
  "in_header m img \<longleftrightarrow> (\<forall>a. 0 \<le> a \<and> a < 4096 \<longrightarrow> m (ELF_ADDR + a) = img a)"

lemma header_read:
  assumes "in_header m img" and "0 \<le> a" and "a + 4 \<le> 4096"
  shows "mem16 m (ELF_ADDR + a) = mem16 img a" and "mem32 m (ELF_ADDR + a) = mem32 img a" and "adr (ELF_ADDR + a) = ELF_ADDR + a"
proof -
  have ad: "adr (ELF_ADDR + b) = ELF_ADDR + b" "adr b = b" if "0 \<le> b" "b < 4096" for b using that by (simp_all add: adr_def ELF_ADDR_def)
  have m: "m (ELF_ADDR + b) = img b" if "0 \<le> b" "b < 4096" for b using assms(1) that by (simp add: in_header_def)
  have h: "mem16 m (ELF_ADDR + b) = mem16 img b" if "0 \<le> b" "b + 2 \<le> 4096" for b
    using that m [of b] m [of "b + 1"] ad [of "b + 1"] by (simp add: mem16_def add.assoc)
  show "mem16 m (ELF_ADDR + a) = mem16 img a" using h assms by simp
  show "mem32 m (ELF_ADDR + a) = mem32 img a" using h [of a] h [of "a + 2"] ad [of "a + 2"] assms by (simp add: mem32_def add.assoc)
  show "adr (ELF_ADDR + a) = ELF_ADDR + a" using ad(1) assms by simp
qed

lemma in_header_keep: "in_header m img \<Longrightarrow> (\<And>a. a \<in> header_area \<Longrightarrow> m' a = m a) \<Longrightarrow> in_header m' img"
  by (auto simp: in_header_def header_area_def)

section \<open>Loading\<close>

lemma zero_loop_at:
  assumes "\<And>m'. (\<And>a. a < i \<or> e \<le> a \<Longrightarrow> m' a = m a) \<Longrightarrow> adr (pa + mem32 m' (adr (ph + 20))) = e"
  shows "zero_loop ph pa i m a = (if i \<le> a \<and> a < e then 0 else m a)"
  using assms
proof (induction "nat (e - i)" arbitrary: i m)
  case 0
  have "adr (pa + mem32 m (adr (ph + 20))) = e" by (rule "0.prems") simp
  then show ?case using 0(1) by (subst zero_loop.simps) auto
next
  case (Suc n)
  have e: "adr (pa + mem32 m (adr (ph + 20))) = e" by (rule Suc.prems) simp
  have lt: "i < e" using Suc(2) by simp
  have "zero_loop ph pa (i + 1) (m(i := 0)) a = (if i + 1 \<le> a \<and> a < e then 0 else (m(i := 0)) a)"
    by (rule Suc.hyps(1)) (use Suc(2) lt in \<open>auto intro!: Suc.prems\<close>)
  then show ?case using e lt by (subst zero_loop.simps) auto
qed

lemma load_segment_at:
  assumes f: "file_on disk img" and h: "in_header (snd s) img" and b: "0 \<le> b" "b + 32 \<le> 4096" and ok: "seg_ok (segment_at img b)"
  shows "\<exists>r m. load_segment disk (ELF_ADDR + b) s = Inr (r, m) \<and> loaded img (segment_at img b) m \<and> (\<forall>a. a \<notin> touches (segment_at img b) \<longrightarrow> m a = snd s a)"
proof -
  define g where "g = segment_at img b"
  have o: "range_ok (g_pa g) (g_filesz g) (g_off g)" "g_off g < 2 ^ 31" "g_filesz g < 2 ^ 31" "0 \<le> g_memsz g" "g_pa g + g_memsz g < 2 ^ 32"
    "touches g \<inter> header_area = {}" using ok by (simp_all add: seg_ok_def g_def)
  have field: "adr (ELF_ADDR + b + k) = ELF_ADDR + (b + k) \<and> (in_header m img \<longrightarrow> mem32 m (ELF_ADDR + (b + k)) = mem32 img (b + k))" if "0 \<le> k" "k \<le> 28" for k m
    using header_read(2,3) [of m img "b + k"] header_read(3) [OF h, of "b + k"] b that by (simp add: add.assoc)
  have gf: "mem32 img (b + 4) = g_off g" "mem32 img (b + 12) = g_pa g" "mem32 img (b + 16) = g_filesz g" "mem32 img (b + 20) = g_memsz g"
    by (simp_all add: g_def segment_at_def)
  have pos: "0 \<le> g_off g" "0 \<le> g_filesz g" "0 \<le> g_pa g"
    using o(1) pos_mod_sign [of 512 "g_off g"] unfolding range_ok_def by auto
  have ints: "as_int (g_filesz g) = g_filesz g" "as_int (g_off g) = g_off g" using pos o(2,3) by (simp_all add: as_int_def)
  obtain r m where m: "readseg disk (g_pa g) (g_filesz g) (g_off g) s = Inr (r, m)"
    "\<And>a. m a = (if a \<in> span (g_pa g) (g_filesz g) (g_off g) then img (g_off g + (a - g_pa g)) else snd s a)"
    using readseg_at [OF f o(1), of s] by blast
  have hm: "in_header m img" by (rule in_header_keep [OF h]) (use m(2) o(6) in \<open>auto simp: touches_def\<close>)
  let ?i = "g_pa g + g_filesz g" and ?e = "g_pa g + g_memsz g"
  have i: "adr ?i = ?i"
  proof -
    have "?i \<le> g_pa g - g_off g mod 512 + 512 * int (sectors_for (g_off g) (g_filesz g))"
      using sectors_int [OF pos(2), of "g_off g"] by linarith
    then show ?thesis using o(1) pos by (simp add: range_ok_def adr_def)
  qed
  have z: "zero_loop (ELF_ADDR + b) (g_pa g) ?i m a = (if ?i \<le> a \<and> a < ?e then 0 else m a)" for a
  proof (rule zero_loop_at)
    fix m' :: bmem assume same: "\<And>a. a < ?i \<or> ?e \<le> a \<Longrightarrow> m' a = m a"
    have "m' a = m a" if "a \<in> header_area" for a
    proof -
      have "a \<notin> {?i..<?e}" using o(6) that by (auto simp: touches_def)
      then show ?thesis by (intro same) auto
    qed
    then have "in_header m' img" by (rule in_header_keep [OF hm])
    then have "mem32 m' (adr (ELF_ADDR + b + 20)) = g_memsz g" using field [of 20 m'] gf by simp
    then show "adr (g_pa g + mem32 m' (adr (ELF_ADDR + b + 20))) = ?e" using o(4,5) pos by (simp add: adr_def)
  qed
  let ?m = "zero_loop (ELF_ADDR + b) (g_pa g) ?i m"
  have "load_segment disk (ELF_ADDR + b) s = Inr (r, ?m)"
    using m(1) field [of 4 "snd s"] field [of 12 "snd s"] field [of 16 "snd s"] field [of 16 m] h hm gf ints i by (simp add: load_segment_def Let_def)
  moreover have "loaded img g ?m" using z m(2) span_covers [OF o(1)] pos by (auto simp: loaded_def)
  moreover have "?m a = snd s a" if "a \<notin> touches g" for a using z m(2) that by (auto simp: touches_def)
  ultimately show ?thesis unfolding g_def by blast
qed

lemma load_loop_at:
  assumes f: "file_on disk img" and "in_header (snd s) img" and "0 \<le> b" and "b + 32 * int n \<le> 4096"
    and "\<forall>g\<in>set (map (\<lambda>i. segment_at img (b + 32 * int i)) [0..<n]). seg_ok g"
    and "sorted_wrt (\<lambda>g g'. touches g' \<inter> region g = {}) (map (\<lambda>i. segment_at img (b + 32 * int i)) [0..<n])"
  shows "\<exists>r m. load_loop disk (ELF_ADDR + b) (ELF_ADDR + b + 32 * int n) s = Inr (r, m) \<and> in_header m img \<and>
    (\<forall>g\<in>set (map (\<lambda>i. segment_at img (b + 32 * int i)) [0..<n]). loaded img g m) \<and>
    (\<forall>a. (\<forall>g\<in>set (map (\<lambda>i. segment_at img (b + 32 * int i)) [0..<n]). a \<notin> touches g) \<longrightarrow> m a = snd s a)"
  using assms(2-)
proof (induction n arbitrary: b s)
  case 0
  then show ?case by (cases s) (auto simp: load_loop.simps)
next
  case (Suc n)
  let ?g = "segment_at img b" and ?gs = "map (\<lambda>i. segment_at img (b + 32 + 32 * int i)) [0..<n]"
  have gs: "map (\<lambda>i. segment_at img (b + 32 * int i)) [0..<Suc n] = ?g # ?gs"
    by (simp add: upt_conv_Cons map_Suc_upt [symmetric] del: upt_Suc) (simp add: algebra_simps)
  have ok: "seg_ok ?g" and oks: "\<forall>g\<in>set ?gs. seg_ok g" and apart: "\<forall>g\<in>set ?gs. touches g \<inter> region ?g = {}"
    and srt: "sorted_wrt (\<lambda>g g'. touches g' \<inter> region g = {}) ?gs" using Suc.prems(4,5) unfolding gs by simp_all
  obtain r m where m: "load_segment disk (ELF_ADDR + b) s = Inr (r, m)" "loaded img ?g m" "\<forall>a. a \<notin> touches ?g \<longrightarrow> m a = snd s a"
    using load_segment_at [OF f Suc.prems(1,2) _ ok] Suc.prems(3) by auto
  have "in_header m img" by (rule in_header_keep [OF Suc.prems(1)]) (use m(3) ok in \<open>auto simp: seg_ok_def\<close>)
  then obtain r' m' where m': "load_loop disk (ELF_ADDR + (b + 32)) (ELF_ADDR + (b + 32) + 32 * int n) (r, m) = Inr (r', m')" "in_header m' img"
    "\<forall>g\<in>set ?gs. loaded img g m'" "\<forall>a. (\<forall>g\<in>set ?gs. a \<notin> touches g) \<longrightarrow> m' a = m a"
    using Suc.IH [of "(r, m)" "b + 32"] Suc.prems(2,3) oks srt by auto
  have "m' a = m a" if "a \<in> region ?g" for a using apart m'(4) that by blast
  then have "loaded img ?g m'" using loaded_cong [OF m(2)] ok by (simp add: seg_ok_def range_ok_def)
  moreover have "load_loop disk (ELF_ADDR + b) (ELF_ADDR + b + 32 * int (Suc n)) s = Inr (r', m')"
    using m(1) m'(1) by (subst load_loop.simps) (simp add: algebra_simps)
  moreover have "m' a = snd s a" if "\<forall>g\<in>set (?g # ?gs). a \<notin> touches g" for a using m(3) m'(4) that by simp
  ultimately show ?case using m'(2,3) unfolding gs by auto
qed

section \<open>The kernel\<close>

lemma read_header:
  assumes "file_on disk img"
  shows "\<exists>r m. readseg disk ELF_ADDR 4096 0 s = Inr (r, m) \<and> in_header m img \<and> (\<forall>a. a \<notin> header_area \<longrightarrow> m a = snd s a)"
proof -
  have n: "sectors_for 0 4096 = 8" by (simp add: sectors_for_def)
  have "range_ok ELF_ADDR 4096 0" by (simp add: range_ok_def n ELF_ADDR_def)
  from readseg_at [OF assms this, of s] obtain r m where m: "readseg disk ELF_ADDR 4096 0 s = Inr (r, m)"
    "\<forall>a. m a = (if a \<in> span ELF_ADDR 4096 0 then img (0 + (a - ELF_ADDR)) else snd s a)" by blast
  moreover have "span ELF_ADDR 4096 0 = header_area" by (simp add: span_def header_area_def n)
  ultimately show ?thesis by (auto simp: in_header_def header_area_def)
qed

text \<open>
  C33: the boot loader of the first processor.  When the kernel's file stands behind the boot sector, its program headers lie in the first 4096 bytes,
  its segments fit the memory and the disk without touching the copy of the header, and the sectors of a segment do not reach into the
  segments before it, then the loader ends by a jump to the entry of the file with every segment in memory, its bytes from the file and
  the rest of it zero, and memory that is neither the copy of the header nor in the sectors or the rest of a segment is as before.
\<close>

theorem boot_loads_kernel:
  assumes "mem32 m BOOT_INFO \<noteq> 1" and "file_on disk img" and "mem32 img 28 + 32 * mem16 img 44 \<le> 4096"
    and "\<forall>g\<in>set (segments img). seg_ok g" and "sorted_wrt (\<lambda>g g'. touches g' \<inter> region g = {}) (segments img)"
  shows "\<exists>r m'. bootmain disk (r0, m) = Inr (mem32 img 24, r, m') \<and> (\<forall>g\<in>set (segments img). loaded img g m') \<and>
    (\<forall>a. a \<notin> header_area \<and> (\<forall>g\<in>set (segments img). a \<notin> touches g) \<longrightarrow> m' a = m a)"
proof -
  have pos: "0 \<le> mem16 img 44" "0 \<le> mem32 img 28" by (simp_all add: mem16_def mem32_def)
  obtain r1 m1 where h: "readseg disk ELF_ADDR 4096 0 (r0, m) = Inr (r1, m1)" "in_header m1 img" "\<forall>a. a \<notin> header_area \<longrightarrow> m1 a = m a"
    using read_header [OF assms(2), of "(r0, m)"] by auto
  have n: "32 * int (nat (mem16 img 44)) = 32 * mem16 img 44" using pos by simp
  obtain r2 m2 where l: "load_loop disk (ELF_ADDR + mem32 img 28) (ELF_ADDR + mem32 img 28 + 32 * mem16 img 44) (r1, m1) = Inr (r2, m2)" "in_header m2 img"
    "\<forall>g\<in>set (segments img). loaded img g m2" "\<forall>a. (\<forall>g\<in>set (segments img). a \<notin> touches g) \<longrightarrow> m2 a = m1 a"
    using load_loop_at [OF assms(2), of "(r1, m1)" "mem32 img 28" "nat (mem16 img 44)"] h(2) pos assms(3-5) unfolding n segments_def [symmetric] by auto
  have a: "adr (ELF_ADDR + mem32 img 28) = ELF_ADDR + mem32 img 28"
    "adr (ELF_ADDR + mem32 img 28 + 32 * mem16 img 44) = ELF_ADDR + mem32 img 28 + 32 * mem16 img 44"
    using pos assms(3) by (simp_all add: adr_def ELF_ADDR_def)
  have "bootmain disk (r0, m) = Inr (mem32 img 24, r2, m2)"
    using assms(1) h(1) l(1) a header_read(1,2) [OF h(2)] header_read(2) [OF l(2)] by (simp add: bootmain_def Let_def)
  then show ?thesis using l(3,4) h(3) by auto
qed

text \<open>A file with two segments: eight bytes and eight zeroes at \<^verbatim>\<open>0x100000\<close>, four bytes and two zeroes at \<^verbatim>\<open>0x100410\<close>.\<close>

definition demo_kernel :: "int \<Rightarrow> u8" where
  "demo_kernel a = (case map_of [(26, 0x10), (28, 52), (44, 2),
       (57, 0x10), (66, 0x10), (68, 8), (72, 16),
       (88, 0x10), (89, 0x12), (96, 0x10), (97, 0x04), (98, 0x10), (100, 4), (104, 6),
       (0x1000, 0xAA), (0x1007, 0xBB), (0x1210, 0xCC), (0x1213, 0xDD)] a of Some v \<Rightarrow> v | None \<Rightarrow> 0)"

definition demo_boot_disk :: bdisk where "demo_boot_disk sec j = demo_kernel (512 * (sec - 1) + int j)"

lemma demo_segments: "segments demo_kernel =
  [\<lparr>g_off = 0x1000, g_pa = 0x100000, g_filesz = 8, g_memsz = 16\<rparr>, \<lparr>g_off = 0x1210, g_pa = 0x100410, g_filesz = 4, g_memsz = 6\<rparr>]"
  by code_simp

lemma demo_segments_ok: "\<forall>g\<in>set (segments demo_kernel). seg_ok g" "sorted_wrt (\<lambda>g g'. touches g' \<inter> region g = {}) (segments demo_kernel)"
  by (auto simp: demo_segments seg_ok_def range_ok_def touches_def region_def span_def header_area_def sectors_for_def ELF_ADDR_def)

theorem boot_loads_kernel_witness:
  "\<exists>r m'. bootmain demo_boot_disk (\<lparr>ata_count = 0, ata_lo = 0, ata_mid = 0, ata_hi = 0, ata_dev = 0\<rparr>, \<lambda>_. 7) = Inr (0x100000, r, m') \<and>
    m' 0x100000 = 0xAA \<and> m' 0x100007 = 0xBB \<and> m' 0x10000F = 0 \<and> m' 0x100413 = 0xDD \<and> m' 0x100415 = 0 \<and> m' 0x200000 = 7"
proof -
  have i: "mem32 (\<lambda>_. 7) BOOT_INFO \<noteq> 1" by code_simp
  have f: "file_on demo_boot_disk demo_kernel" by (simp add: file_on_def demo_boot_disk_def)
  have h: "mem32 demo_kernel 28 + 32 * mem16 demo_kernel 44 \<le> 4096" and e: "mem32 demo_kernel 24 = 0x100000" by code_simp+
  obtain r m' where b: "bootmain demo_boot_disk (\<lparr>ata_count = 0, ata_lo = 0, ata_mid = 0, ata_hi = 0, ata_dev = 0\<rparr>, \<lambda>_. 7) = Inr (0x100000, r, m')"
    and l: "\<forall>g\<in>set (segments demo_kernel). loaded demo_kernel g m'"
    and o: "\<forall>a. a \<notin> header_area \<and> (\<forall>g\<in>set (segments demo_kernel). a \<notin> touches g) \<longrightarrow> m' a = 7"
    using boot_loads_kernel [OF i f h demo_segments_ok, of "\<lparr>ata_count = 0, ata_lo = 0, ata_mid = 0, ata_hi = 0, ata_dev = 0\<rparr>"] e by auto
  have "m' 0x200000 = 7" using o by (simp add: demo_segments touches_def span_def header_area_def sectors_for_def ELF_ADDR_def)
  moreover have "\<forall>k. 0 \<le> k \<and> k < 8 \<longrightarrow> m' (0x100000 + k) = demo_kernel (0x1000 + k)" "\<forall>k. 8 \<le> k \<and> k < 16 \<longrightarrow> m' (0x100000 + k) = 0"
    "\<forall>k. 0 \<le> k \<and> k < 4 \<longrightarrow> m' (0x100410 + k) = demo_kernel (0x1210 + k)" "\<forall>k. 4 \<le> k \<and> k < 6 \<longrightarrow> m' (0x100410 + k) = 0"
    using l by (simp_all add: demo_segments loaded_def)
  from this(1) [rule_format, of 0] this(1) [rule_format, of 7] this(2) [rule_format, of 15] this(3) [rule_format, of 3] this(4) [rule_format, of 5]
  have "m' 0x100000 = 0xAA" "m' 0x100007 = 0xBB" "m' 0x10000F = 0" "m' 0x100413 = 0xDD" "m' 0x100415 = 0" by (simp_all add: demo_kernel_def)
  ultimately show ?thesis using b by blast
qed

end
