(* ===== verification/Spec2Isabelle.thy ===== *)
theory Spec2Isabelle
  imports Klib_String Klib_Stdio Procfs Alloc_Correct Spinlock Ramdisk Ext2_Correct Vfs_Correct Shell Os Vme Kvdb_Recovery Snake_Correct Sperf_Correct Pstree_Main Frecov_Records Libco_Correct Crepl_Correct Boot_Correct
begin

text \<open>
  This development models the operating system course repository \<^verbatim>\<open>os-workbench\<close>: the kernel under
  \<^verbatim>\<open>kernel/\<close>, the parts of the abstract machine and of its C library on which the kernel rests
  (\<^verbatim>\<open>abstract-machine/\<close>), and the seven user programs (\<^verbatim>\<open>libkvdb\<close>, \<^verbatim>\<open>sperf\<close>, \<^verbatim>\<open>amgame\<close>, \<^verbatim>\<open>pstree\<close>, \<^verbatim>\<open>frecov\<close>, \<^verbatim>\<open>libco\<close>, \<^verbatim>\<open>crepl\<close>).  Paths below
  are relative to \<^verbatim>\<open>src/os-workbench\<close>.

  \<^bold>\<open>How C is modelled.\<close>  A C function is a HOL function of its arguments and of the state it
  touches; it returns the new state and its value, or a \<open>fault\<close> of theory \<open>Prelude\<close> when the machine would stop,
  leave an array, follow a null pointer, divide by zero or never return.  Structures are records, enumerations are
  datatypes, arrays are lists or functions of the index with the bounds checked where the code indexes, pointers into pools are
  datatypes of their own.  Unsigned integers keep their width (\<open>u8\<close>, \<open>u16\<close>, \<open>u32\<close>, \<open>u64\<close>) where the code computes with them near the limits
  (sizes in the allocator, block and inode numbers, page table entries, offsets of files); indices that the code keeps below the size of a table are
  natural numbers.  Early returns are branches, assertions are \<open>assertE\<close>.  All definitions are executable.

  \<^bold>\<open>Components and theories.\<close>
  \<^item> \<open>Prelude\<close>, \<open>Linked\<close>, \<open>Ring\<close>, \<open>Bytes\<close>: results and their sequencing, scans of tables, lists linked in both directions, rings read as queues, little-endian structures.
  \<^item> \<open>Klib_String\<close>, \<open>Klib_Stdio\<close>: \<^verbatim>\<open>libs/klib/src/string.c\<close>, \<^verbatim>\<open>stdio.c\<close>, \<^verbatim>\<open>stdlib.c\<close>.  \<^verbatim>\<open>memmove\<close> is a copy for every overlap; \<^verbatim>\<open>vsprintf\<close> prints what an independent
    specification of the conversions gives; numbers that are printed read back.
  \<^item> \<open>Alloc\<close>, \<open>Alloc_List\<close>, \<open>Alloc_Inv\<close>, \<open>Alloc_Correct\<close> with the contract \<open>Allocator\<close>: \<^verbatim>\<open>kernel/src/alloc.c\<close>.  The free list is a sorted list of merged blocks; the blocks
    in use and the free blocks tile the heap; programs of requests never hold overlapping regions.
  \<^item> \<open>Cte\<close>, \<open>Os_Irq\<close>: the interrupt path, \<^verbatim>\<open>am/src/x86/qemu/cte.c\<close>, \<^verbatim>\<open>cte_trap.S\<close>, \<^verbatim>\<open>kernel/include/os.h\<close> and \<^verbatim>\<open>kernel/src/os.c\<close>.  From the words a trap pushes to the return, interrupted code resumes
    with all its registers; the handlers that were registered for an event or for all events run in the order of their sequence numbers.
  \<^item> \<open>Kthreads\<close>, \<open>Kthreads_Sched\<close>, \<open>Kthreads_Sem\<close>, \<open>Spinlock\<close>: \<^verbatim>\<open>kernel/src/kthreads.c\<close>.  Scheduling is round robin, a task runs on one processor at a time unless it is woken before it has left its processor (rule induction over the
    step relation \<open>kstep\<close>), and a run in which that happens is a theorem too; semaphores count and wake in order, and the spin lock excludes under all interleavings of the steps \<open>spin_step\<close>.
  \<^item> \<open>Vme\<close>: \<^verbatim>\<open>am/src/x86/qemu/vme.c\<close>.  \<^verbatim>\<open>map\<close> is an update of the translation that the processor makes, and the kernel is mapped to itself.
  \<^item> \<open>Block_Device\<close>, \<open>Ramdisk\<close>: the contract of a disk, and \<^verbatim>\<open>devices/ramdisk/ramdisk.c\<close>, which keeps it.
  \<^item> \<open>Ext2\<close>, \<open>Ext2_Bitmap\<close>, \<open>Ext2_Correct\<close> with the contract \<open>Number_Pool\<close>: \<^verbatim>\<open>fs/ext2fs.c\<close>.  Blocks and inodes are handed out once, a write that fits reads back, a directory lists its
    entries; the half of a second block that \<^verbatim>\<open>ext2_write\<close> loses and the block of the root directory that \<^verbatim>\<open>ext2_remove\<close> overwrites are theorems too.
  \<^item> \<open>Procfs\<close>: \<^verbatim>\<open>fs/procfs.c\<close>.
  \<^item> \<open>Input\<close>, \<open>Video\<close>, \<open>Tty\<close>, \<open>Tty_Correct\<close>: \<^verbatim>\<open>devices/input\<close>, \<^verbatim>\<open>devices/video\<close>, \<^verbatim>\<open>devices/tty/tty.c\<close>.  The event ring is a queue, keys become text, the terminal refines a screen of
    characters with a cursor, and its line discipline refines a line editor.
  \<^item> \<open>Vfs\<close>, \<open>Vfs_Dir\<close>, \<open>Vfs_Correct\<close>: \<^verbatim>\<open>fs/vfs.c\<close> over the three file systems.  Directories keep the contract \<open>directories\<close>; links resolve to their target and unlinking removes them;
    what is written through a descriptor is read through another one.
  \<^item> \<open>Shell\<close>, \<open>Os\<close>: \<^verbatim>\<open>devices/tty/shell.c\<close>, \<^verbatim>\<open>devices/dev.c\<close> and the initialisation in \<^verbatim>\<open>os.c\<close>, which composes all of the above into one kernel state.
  \<^item> \<open>Kvdb\<close>, \<open>Kvdb_Chain\<close>, \<open>Kvdb_Correct\<close>, \<open>Kvdb_Recovery\<close> with the contract \<open>Journal\<close>: \<^verbatim>\<open>libkvdb/kvdb.c\<close>.  Put and get refine a map; after a crash the log restores the struct
    of the last finished operation; a second crash loses it again.
  \<^item> \<open>Sperf\<close>, \<open>Sperf_Correct\<close>: \<^verbatim>\<open>sperf/sperf.c\<close>.  The linked list is a profile in descending order.
  \<^item> \<open>Pstree\<close>, \<open>Pstree_Correct\<close>, \<open>Pstree_Layout\<close>, \<open>Pstree_Main\<close>: \<^verbatim>\<open>pstree/pstree.c\<close>.  The linked lists of children are sorted, the drawing with the tables of levels is a layout by
    recursion, and the program prints the tree of the processes whose status files it reads.
  \<^item> \<open>Frecov\<close>, \<open>Frecov_Correct\<close>, \<open>Frecov_Records\<close>: \<^verbatim>\<open>frecov/frecov.c\<close>.  The search ends, and a sector of directory records is read back into its files, less those that end beyond sector \<^verbatim>\<open>0xffff\<close>.
  \<^item> \<open>Snake\<close>, \<open>Snake_Correct\<close>: \<^verbatim>\<open>amgame/src/game.c\<close> and \<^verbatim>\<open>snake.h\<close>.  The board stays consistent, the game stops only on a full board, and incremental drawing equals full drawing.
  \<^item> \<open>Libco\<close>, \<open>Libco_Correct\<close>: \<^verbatim>\<open>libco/co.c\<close>.  In all states that programs of starts, yields, waits and ends reach (rule induction over \<open>co_step\<close>), the count of the active coroutines is
    right and every random number chooses one that runs; in every state in which the first coroutine goes on after the end of another one, a yield or wait can jump into a call that has returned.
  \<^item> \<open>Crepl\<close>, \<open>Crepl_Correct\<close>: \<^verbatim>\<open>crepl/crepl.c\<close>.  For every compiler and loader, a session answers its lines in the context of the definitions accepted before, until the input ends, the descriptors that its pipes leave open run out, a program cannot be loaded, or
    the compiler or the called function does not come back.
  \<^item> \<open>Boot\<close>, \<open>Boot_Correct\<close>: \<^verbatim>\<open>am/src/x86/qemu/boot/main.c\<close>.  Whole sectors are read, and still every segment of the kernel stands in memory as in the file when the loader jumps to its entry.

  \<^bold>\<open>Interfaces.\<close>  Where a part relies on another, the contract is a locale that is interpreted on the model: \<open>allocator\<close> by the heap,
  \<open>bounded_queue\<close> by the semaphore ring and the event ring, \<open>number_pool\<close> by the two bitmaps, \<open>block_device\<close> by flat memory, \<open>directories\<close> by the two ways of adding an entry, \<open>journal\<close> by the log of the
  database, \<open>child_order\<close> by the two comparisons of the process tree.  The lemmas of the clients are proved once, inside the locales.

  \<^bold>\<open>Bounds and fuel.\<close>  Loops that follow pointers carry fuel of one round and a little more: \<open>WALK\<close> is the pool of block descriptors plus three for
  the free list, \<open>WALK_NODES\<close> the pool of the profiler plus two, the lists of children are walked with as many steps as there are nodes, \<open>DEEP_FUEL\<close> is the number of sectors that can be visited plus one, \<open>MAX_VINODE + 1\<close> steps walk the lists of the file table, one round and one step is enough for
  the search of the scheduler, and a bitmap is scanned in one pass of its block.  Running out means a cycle, which the code would follow for ever, and is
  the fault \<open>Diverge\<close>, or \<open>Spin\<close> where another processor can end the wait; the theorems show that a well-formed state does not run out.  The lookup of a path takes one step for each
  component and has fuel for its length.  \<open>CAT_FUEL\<close> bounds the output of one command \<^verbatim>\<open>cat\<close>.  The redo of the log and the loops over buffers are recursive functions with termination proofs.

  \<^bold>\<open>Parameters.\<close>  What the hardware, the boot loader or a caller supplies is an argument: key codes, interrupts that are pending, the contents of the disk
  image, the fonts, the size of the screen, the pages of the page allocator, random numbers, the files under \<^verbatim>\<open>/proc\<close>, the compiler and the loader of the host, the limits of its descriptors and pipes, memory that was not initialised, the conversion of a decimal number to a floating point number.

  \<^bold>\<open>Not modelled.\<close>  The fonts are data.  \<^verbatim>\<open>framework/main.c\<close> calls the initialisation that \<open>Os\<close> models; its test program is compiled out.  The assembly that starts the boot loader, the descriptor tables, the drivers of the interrupt controllers, the timer and the
  graphics adapter in \<^verbatim>\<open>am/src/x86/qemu\<close> and all of \<^verbatim>\<open>am/src/native\<close> program hardware or call the host system, whose behaviour is not in the repository.  \<^verbatim>\<open>trace.c\<close> generates
  wrappers by macros that print.  What a coroutine of \<^verbatim>\<open>libco\<close> computes between two calls and the overflow of its stack are left out.  Of \<^verbatim>\<open>sperf\<close> and \<^verbatim>\<open>frecov\<close> the
  creation of processes and pipes is left out.  \<^verbatim>\<open>imgui\<close>, \<^verbatim>\<open>fixmath\<close> and \<^verbatim>\<open>compiler-rt\<close> are third-party libraries, and \<^verbatim>\<open>litenes\<close>, \<^verbatim>\<open>coremark\<close>, \<^verbatim>\<open>dhrystone\<close>, \<^verbatim>\<open>microbench\<close>, \<^verbatim>\<open>slider\<close> and
  \<^verbatim>\<open>typing\<close> are applications that come with the abstract machine.
\<close>

end
